(* ===== verification/Prelude.thy ===== *)
theory Prelude
  imports Main "HOL-Library.Word" "HOL-Library.Monad_Syntax"
begin

text \<open>
  Shared vocabulary of the development: the machine integer types of the C sources, the flat
  byte-addressed memory the kernel runs in (no protection, no allocation discipline: a total
  function from 64-bit addresses to bytes), little-endian loads and stores of multi-byte values,
  and address ranges with wrap-around arithmetic. Every operation that the C code leaves without a
  result (a loop that spins for ever, a fault, an access the code must not make) has the value
  \<^const>\<open>None\<close> in the model.
\<close>

type_synonym u8 = "8 word"
type_synonym u16 = "16 word"
type_synonym u32 = "32 word"
type_synonym u64 = "64 word"
type_synonym addr = "64 word"
type_synonym mem = "addr \<Rightarrow> u8"

abbreviation NULL :: addr where
  "NULL \<equiv> 0"

named_theorems range_simps "facts on address ranges"
named_theorems mem_simps "facts on loads and stores"

section \<open>Lists\<close>

lemma find_append: "find P (xs @ ys) = (case find P xs of None \<Rightarrow> find P ys | Some x \<Rightarrow> Some x)"
  by (induction xs) auto

section \<open>Unsigned arithmetic\<close>

lemma unat_lt_2p64: "unat (x :: u64) < 2 ^ 64"
  using unsigned_less [of x, where ?'a = nat] by simp

lemma unat_plus_nowrap:
  fixes a b :: u64
  assumes "unat a + unat b < 2 ^ 64"
  shows "unat (a + b) = unat a + unat b"
  using assms by (simp add: unat_word_ariths)

lemma unat_of_nat_64: "n < 2 ^ 64 \<Longrightarrow> unat (of_nat n :: u64) = n"
  by (simp add: unat_of_nat)

lemma unat_diff_le:
  fixes a b :: u64
  assumes "unat b \<le> unat a"
  shows "unat (a - b) = unat a - unat b"
  using assms by (simp add: unat_sub word_le_nat_alt)

lemma unat_diff_lt:
  fixes a b :: u64
  assumes "unat a < unat b"
  shows "unat (a - b) = 2 ^ 64 - (unat b - unat a)"
  using assms unat_sub_if' [of a b] unat_lt_2p64 [of b] by (simp add: word_less_nat_alt)

lemma u64_div_nat: "(a :: u64) div b = of_nat (unat a div unat b)"
proof -
  have "a div b = of_nat (unat (a div b))" by simp
  then show ?thesis by (simp only: unat_div)
qed

lemma u64_mod_nat: "(a :: u64) mod b = of_nat (unat a mod unat b)"
proof -
  have "a mod b = of_nat (unat (a mod b))" by simp
  then show ?thesis by (simp only: unat_mod)
qed

lemma unat_ucast_up: "unat (ucast (x :: u32) :: u64) = unat x"
proof -
  have "unat x < 2 ^ 32" using unsigned_less [of x, where ?'a = nat] by simp
  then show ?thesis by (simp add: unsigned_ucast_eq take_bit_eq_mod)
qed

section \<open>Address ranges\<close>

text \<open>
  \<open>in_range a n x\<close>: the address \<open>x\<close> is one of the \<open>n\<close> bytes that start at \<open>a\<close>. The difference
  of two addresses is taken in 64-bit arithmetic, so a range may pass the top of the address space.
\<close>

definition in_range :: "addr \<Rightarrow> nat \<Rightarrow> addr \<Rightarrow> bool" where
  "in_range a n x \<longleftrightarrow> unat (x - a) < n"

definition ranges_disjoint :: "addr \<Rightarrow> nat \<Rightarrow> addr \<Rightarrow> nat \<Rightarrow> bool" where
  "ranges_disjoint a n b k \<longleftrightarrow> n = 0 \<or> k = 0 \<or> (n \<le> unat (b - a) \<and> k \<le> unat (a - b))"

lemma in_range_0 [range_simps]: "\<not> in_range a 0 x"
  by (simp add: in_range_def)

lemma in_range_self [range_simps]: "in_range a (Suc n) a"
  by (simp add: in_range_def)

lemma in_range_Suc:
  "in_range a (Suc n) x \<longleftrightarrow> x = a \<or> (in_range (a + 1) n x \<and> n < 2 ^ 64) \<or> 2 ^ 64 \<le> n"
proof (cases "x = a")
  case True
  then show ?thesis by (simp add: in_range_def)
next
  case False
  have split: "x - a = (x - (a + 1)) + 1" by simp
  from False have "x - a \<noteq> 0" by simp
  with split have "unat (x - a) = Suc (unat (x - (a + 1)))"
    by (metis Suc_eq_plus1 add.commute unatSuc)
  with False show ?thesis
    using unat_lt_2p64 [of "x - a"] by (auto simp: in_range_def)
qed

lemma in_range_step: "n < 2 ^ 64 \<Longrightarrow> in_range a (Suc n) x \<longleftrightarrow> x = a \<or> in_range (a + 1) n x"
  by (auto simp: in_range_Suc)

lemma in_range_shift: "in_range (a + 1) n x \<Longrightarrow> in_range a (Suc n) x"
  by (auto simp: in_range_Suc)

lemma in_range_mono: "in_range a n x \<Longrightarrow> n \<le> k \<Longrightarrow> in_range a k x"
  by (simp add: in_range_def)

lemma not_in_range_succ: "n < 2 ^ 64 \<Longrightarrow> \<not> in_range (a + 1) n a"
proof -
  assume n: "n < 2 ^ 64"
  have "a - (a + 1) = - 1" by simp
  then have "unat (a - (a + 1)) = 2 ^ 64 - 1"
    by (simp add: unsigned_minus_1_eq_mask mask_eq_exp_minus_1)
  with n show ?thesis by (simp add: in_range_def)
qed

lemma in_range_unat:
  assumes "unat a + n \<le> 2 ^ 64"
  shows "in_range a n x \<longleftrightarrow> unat a \<le> unat x \<and> unat x < unat a + n"
proof (cases "unat a \<le> unat x")
  case True
  then show ?thesis by (auto simp: in_range_def unat_diff_le)
next
  case False
  then have "unat (x - a) = 2 ^ 64 - (unat a - unat x)"
    by (simp add: unat_diff_lt)
  with False assms show ?thesis by (simp add: in_range_def)
qed

lemma ranges_disjoint_sym: "ranges_disjoint a n b k \<longleftrightarrow> ranges_disjoint b k a n"
  by (auto simp: ranges_disjoint_def)

lemma ranges_disjoint_not_both:
  assumes "ranges_disjoint a n b k" and "in_range a n x" and "in_range b k x"
  shows False
proof -
  let ?p = "x - a" and ?q = "x - b"
  from assms(2,3) have p: "unat ?p < n" and q: "unat ?q < k"
    by (auto simp: in_range_def)
  with assms(1) have n: "n \<le> unat (b - a)" and k: "k \<le> unat (a - b)"
    by (auto simp: ranges_disjoint_def)
  have ba: "b - a = ?p - ?q" and ab: "a - b = ?q - ?p" by simp_all
  show False
  proof (cases "unat ?q \<le> unat ?p")
    case True
    then have "unat (b - a) = unat ?p - unat ?q" unfolding ba by (rule unat_diff_le)
    with n p show False by simp
  next
    case False
    then have "unat (a - b) = unat ?q - unat ?p" unfolding ab by (intro unat_diff_le) simp
    with k q show False by simp
  qed
qed

lemma ranges_disjoint_unat:
  assumes "unat a + n \<le> unat b" and "unat b + k \<le> 2 ^ 64"
  shows "ranges_disjoint a n b k"
proof (cases "n = 0")
  case True
  then show ?thesis by (simp add: ranges_disjoint_def)
next
  case False
  with assms(1) have "unat a < unat b" by simp
  then have "unat (b - a) = unat b - unat a"
    and "unat (a - b) = 2 ^ 64 - (unat b - unat a)"
    by (simp_all add: unat_diff_le unat_diff_lt)
  with assms show ?thesis by (auto simp: ranges_disjoint_def)
qed

section \<open>Little-endian loads and stores\<close>

primrec load_le :: "nat \<Rightarrow> mem \<Rightarrow> addr \<Rightarrow> nat" where
  "load_le 0 m a = 0"
| "load_le (Suc n) m a = unat (m a) + 256 * load_le n m (a + 1)"

primrec store_le :: "nat \<Rightarrow> mem \<Rightarrow> addr \<Rightarrow> nat \<Rightarrow> mem" where
  "store_le 0 m a v = m"
| "store_le (Suc n) m a v = store_le n (m(a := of_nat v)) (a + 1) (v div 256)"

definition load16 :: "mem \<Rightarrow> addr \<Rightarrow> u16" where
  "load16 m a = of_nat (load_le 2 m a)"

definition load32 :: "mem \<Rightarrow> addr \<Rightarrow> u32" where
  "load32 m a = of_nat (load_le 4 m a)"

definition load64 :: "mem \<Rightarrow> addr \<Rightarrow> u64" where
  "load64 m a = of_nat (load_le 8 m a)"

definition store64 :: "mem \<Rightarrow> addr \<Rightarrow> u64 \<Rightarrow> mem" where
  "store64 m a v = store_le 8 m a (unat v)"

definition store16 :: "mem \<Rightarrow> addr \<Rightarrow> u16 \<Rightarrow> mem" where
  "store16 m a v = store_le 2 m a (unat v)"

definition store32 :: "mem \<Rightarrow> addr \<Rightarrow> u32 \<Rightarrow> mem" where
  "store32 m a v = store_le 4 m a (unat v)"

lemma store_le_other: "\<not> in_range a n x \<Longrightarrow> store_le n m a v x = m x"
proof (induction n arbitrary: m a v)
  case 0
  then show ?case by simp
next
  case (Suc n)
  then have "\<not> in_range (a + 1) n x" and "x \<noteq> a"
    by (auto dest: in_range_shift simp: range_simps)
  then show ?case by (simp add: Suc.IH)
qed

lemma load_le_cong:
  "(\<And>x. in_range a n x \<Longrightarrow> m x = m' x) \<Longrightarrow> load_le n m a = load_le n m' a"
proof (induction n arbitrary: a)
  case 0
  then show ?case by simp
next
  case (Suc n)
  have "load_le n m (a + 1) = load_le n m' (a + 1)"
    by (rule Suc.IH) (blast intro: Suc.prems in_range_shift)
  with Suc.prems [of a] show ?case by (simp add: range_simps)
qed

lemma load_le_lt: "load_le n m a < 256 ^ n"
proof (induction n arbitrary: a)
  case 0
  then show ?case by simp
next
  case (Suc n)
  have "unat (m a) < 256" using unsigned_less [of "m a", where ?'a = nat] by simp
  moreover have "load_le n m (a + 1) + 1 \<le> 256 ^ n" using Suc.IH [of "a + 1"] by simp
  then have "256 * (load_le n m (a + 1) + 1) \<le> 256 * 256 ^ n" by simp
  ultimately show ?case by simp
qed

lemma load_store_le_same: "n \<le> 8 \<Longrightarrow> load_le n (store_le n m a v) a = v mod 256 ^ n"
proof (induction n arbitrary: m a v)
  case 0
  then show ?case by simp
next
  case (Suc n)
  then have "\<not> in_range (a + 1) n a" by (intro not_in_range_succ) simp
  then have "store_le n (m(a := of_nat v)) (a + 1) (v div 256) a = of_nat v"
    by (simp add: store_le_other)
  moreover have "unat (of_nat v :: u8) = v mod 256"
    by (simp add: unat_of_nat)
  ultimately have "load_le (Suc n) (store_le (Suc n) m a v) a
      = v mod 256 + 256 * (v div 256 mod 256 ^ n)"
    using Suc by simp
  also have "\<dots> = v mod 256 ^ Suc n" by (simp add: mod_mult2_eq)
  finally show ?case .
qed

lemma load_store_le_disjoint:
  assumes "ranges_disjoint a n b k"
  shows "load_le k (store_le n m a v) b = load_le k m b"
proof (rule load_le_cong)
  fix x
  assume "in_range b k x"
  with assms have "\<not> in_range a n x" by (blast dest: ranges_disjoint_not_both)
  then show "store_le n m a v x = m x" by (rule store_le_other)
qed

lemma store64_other [mem_simps]: "\<not> in_range a 8 x \<Longrightarrow> store64 m a v x = m x"
  by (simp add: store64_def store_le_other del: store_le.simps)

lemma load64_store64_same [mem_simps]: "load64 (store64 m a v) a = v"
proof -
  have "unat v < 256 ^ 8" using unat_lt_2p64 [of v] by simp
  then have "load_le 8 (store_le 8 m a (unat v)) a = unat v"
    by (subst load_store_le_same) simp_all
  then show ?thesis by (simp add: load64_def store64_def)
qed

lemma load64_store64_disjoint [mem_simps]:
  "ranges_disjoint a 8 b 8 \<Longrightarrow> load64 (store64 m a v) b = load64 m b"
  by (simp only: load64_def store64_def load_store_le_disjoint)

lemma load64_cong: "(\<And>x. in_range a 8 x \<Longrightarrow> m x = m' x) \<Longrightarrow> load64 m a = load64 m' a"
  unfolding load64_def by (rule arg_cong [where f = of_nat]) (rule load_le_cong)

lemma store32_other: "\<not> in_range a 4 x \<Longrightarrow> store32 m a v x = m x"
  by (simp add: store32_def store_le_other del: store_le.simps)

lemma load32_store32_same: "load32 (store32 m a v) a = v"
proof -
  have "unat v < 256 ^ 4" using unsigned_less [of v, where ?'a = nat] by simp
  then have "load_le 4 (store_le 4 m a (unat v)) a = unat v"
    by (subst load_store_le_same) simp_all
  then show ?thesis by (simp add: load32_def store32_def)
qed

lemma load32_store32_disjoint: "ranges_disjoint a 4 b 4 \<Longrightarrow> load32 (store32 m a v) b = load32 m b"
  by (simp only: load32_def store32_def load_store_le_disjoint)

text \<open>Loads byte by byte, to evaluate them at concrete addresses.\<close>

lemma load_numeral:
  "load_le 2 m a = unat (m a) + 256 * unat (m (a + 1))"
  "load_le 4 m a = unat (m a) + 256 * (unat (m (a + 1)) + 256 * (unat (m (a + 2)) + 256 * unat (m (a + 3))))"
  "load_le 8 m a = unat (m a) + 256 * (unat (m (a + 1)) + 256 * (unat (m (a + 2)) + 256 * (unat (m (a + 3)) + 256 * load_le 4 m (a + 4))))"
proof -
  have two: "(2 :: nat) = Suc (Suc 0)" by simp
  show "load_le 2 m a = unat (m a) + 256 * unat (m (a + 1))" unfolding two by (simp add: add.assoc)
  have n: "(4 :: nat) = Suc (Suc (Suc (Suc 0)))" "(8 :: nat) = Suc (Suc (Suc (Suc 4)))" by simp_all
  show "load_le 4 m a = unat (m a) + 256 * (unat (m (a + 1)) + 256 * (unat (m (a + 2)) + 256 * unat (m (a + 3))))"
    unfolding n(1) by (simp add: add.assoc)
  show "load_le 8 m a = unat (m a) + 256 * (unat (m (a + 1)) + 256 * (unat (m (a + 2)) + 256 * (unat (m (a + 3)) + 256 * load_le 4 m (a + 4))))"
    unfolding n(2) load_le.simps by (simp add: add.assoc)
qed

section \<open>Layout of structures\<close>

text \<open>A structure is the list of its fields with size and alignment, from which the C compiler computes offsets.\<close>

definition pad :: "nat \<Rightarrow> nat \<Rightarrow> nat" where
  "pad al off = (if al = 0 then off else (off + (al - 1)) div al * al)"

fun offset_from :: "nat \<Rightarrow> ('f \<times> nat \<times> nat) list \<Rightarrow> 'f \<Rightarrow> nat" where
  "offset_from off [] f = off"
| "offset_from off ((g, sz, al) # rest) f = (if g = f then pad al off else offset_from (pad al off + sz) rest f)"

fun struct_end :: "nat \<Rightarrow> ('f \<times> nat \<times> nat) list \<Rightarrow> nat" where
  "struct_end off [] = off"
| "struct_end off ((g, sz, al) # rest) = struct_end (pad al off + sz) rest"

end
