(* ===== verification/Cstring.thy ===== *)
theory Cstring
  imports Prelude
begin

text \<open>
  The memory and string functions of \<^verbatim>\<open>cstdlib/string.c\<close> over the flat memory of the
  prelude. Each \<^verbatim>\<open>for\<close> loop of the source is a recursion on the same pointers with the same
  exit test; a string without terminator makes the loop run for ever, which is \<^const>\<open>None\<close>.
  \<^verbatim>\<open>char\<close> is signed on the target (x86-64, gcc), so comparisons go through \<^const>\<open>sint\<close>.
  The lemmas show what each function leaves in memory and returns: \<^verbatim>\<open>memcpy\<close> copies exactly
  its range when source and destination do not overlap, the string copies leave a terminated
  string, the comparisons decide equality.
\<close>

unbundle bit_operations_syntax

section \<open>Memory functions\<close>

partial_function (option) memcpy_words ::
  "mem \<Rightarrow> addr \<Rightarrow> addr \<Rightarrow> addr \<Rightarrow> (mem \<times> addr \<times> addr) option" where
  "memcpy_words m dest src src_end =
     (if src = src_end then Some (m, dest, src)
      else memcpy_words (store64 m dest (load64 m src)) (dest + 8) (src + 8) src_end)"

declare memcpy_words.simps [code]

partial_function (option) memcpy_bytes ::
  "mem \<Rightarrow> addr \<Rightarrow> addr \<Rightarrow> addr \<Rightarrow> mem option" where
  "memcpy_bytes m dest src src_end =
     (if src = src_end then Some m
      else memcpy_bytes (m(dest := m src)) (dest + 1) (src + 1) src_end)"

declare memcpy_bytes.simps [code]

definition memcpy :: "mem \<Rightarrow> addr \<Rightarrow> addr \<Rightarrow> u64 \<Rightarrow> (mem \<times> addr) option" where
  "memcpy m dest src n =
     (let src_end1 = src + 8 * (n div 8) in
      do {
        (m1, dest1, src1) \<leftarrow> memcpy_words m dest src src_end1;
        m2 \<leftarrow> memcpy_bytes m1 dest1 src1 (src_end1 + n mod 8);
        Some (m2, dest)
      })"

definition memmove :: "mem \<Rightarrow> addr \<Rightarrow> addr \<Rightarrow> u64 \<Rightarrow> (mem \<times> addr) option" where
  "memmove m dest src n = memcpy m dest src n"

partial_function (option) memset_loop :: "mem \<Rightarrow> addr \<Rightarrow> addr \<Rightarrow> u8 \<Rightarrow> mem option" where
  "memset_loop m dest dest_end c =
     (if dest = dest_end then Some m
      else memset_loop (m(dest := c)) (dest + 1) dest_end c)"

declare memset_loop.simps [code]

definition memset :: "mem \<Rightarrow> addr \<Rightarrow> u32 \<Rightarrow> u64 \<Rightarrow> (mem \<times> addr) option" where
  "memset m dest c n =
     do { m1 \<leftarrow> memset_loop m dest (dest + n) (ucast c); Some (m1, dest) }"

partial_function (option) memcmp_loop :: "mem \<Rightarrow> addr \<Rightarrow> addr \<Rightarrow> addr \<Rightarrow> int option" where
  "memcmp_loop m s1 s2 s1_end =
     (if s1 = s1_end then Some 0
      else if sint (m s1) < sint (m s2) then Some (- 1)
      else if sint (m s1) > sint (m s2) then Some 1
      else memcmp_loop m (s1 + 1) (s2 + 1) s1_end)"

declare memcmp_loop.simps [code]

definition memcmp :: "mem \<Rightarrow> addr \<Rightarrow> addr \<Rightarrow> u64 \<Rightarrow> int option" where
  "memcmp m s1 s2 n = memcmp_loop m s1 s2 (s1 + n)"

section \<open>String functions\<close>

partial_function (option) strlen_loop :: "mem \<Rightarrow> addr \<Rightarrow> addr option" where
  "strlen_loop m s = (if m s = 0 then Some s else strlen_loop m (s + 1))"

declare strlen_loop.simps [code]

definition strlen :: "mem \<Rightarrow> addr \<Rightarrow> u64 option" where
  "strlen m sbeg = do { s \<leftarrow> strlen_loop m sbeg; Some (s - sbeg) }"

definition strcpy :: "mem \<Rightarrow> addr \<Rightarrow> addr \<Rightarrow> (mem \<times> addr) option" where
  "strcpy m dest src =
     do {
       n \<leftarrow> strlen m src;
       (m1, _) \<leftarrow> memcpy m dest src (n + 1);
       Some (m1, dest)
     }"

definition strncpy :: "mem \<Rightarrow> addr \<Rightarrow> addr \<Rightarrow> u64 \<Rightarrow> (mem \<times> addr) option" where
  "strncpy m dest src n =
     do {
       k \<leftarrow> strlen m src;
       (m1, _) \<leftarrow> memcpy m dest src (if k + 1 < n then k + 1 else n);
       Some (m1, dest)
     }"

definition strcat :: "mem \<Rightarrow> addr \<Rightarrow> addr \<Rightarrow> (mem \<times> addr) option" where
  "strcat m dest src =
     do {
       k \<leftarrow> strlen m dest;
       let dest1 = dest + k;
       n \<leftarrow> strlen m src;
       (m1, _) \<leftarrow> memcpy m dest1 src (n + 1);
       Some (m1, dest1)
     }"

definition strncat :: "mem \<Rightarrow> addr \<Rightarrow> addr \<Rightarrow> u64 \<Rightarrow> (mem \<times> addr) option" where
  "strncat m dest src n =
     do {
       k \<leftarrow> strlen m dest;
       let dest1 = dest + k;
       j \<leftarrow> strlen m dest1;
       if n \<le> j + 1 then Some (m, dest1)
       else do {
         let n1 = n - (j + 1);
         l \<leftarrow> strlen m src;
         (m1, _) \<leftarrow> memcpy m dest1 src (if l + 1 < n1 then l + 1 else n1);
         Some (m1, dest1)
       }
     }"

partial_function (option) strcmp :: "mem \<Rightarrow> addr \<Rightarrow> addr \<Rightarrow> int option" where
  "strcmp m s1 s2 =
     (if m s1 \<noteq> 0 \<and> m s2 \<noteq> 0 then
        if sint (m s1) < sint (m s2) then Some (- 1)
        else if sint (m s1) > sint (m s2) then Some 1
        else strcmp m (s1 + 1) (s2 + 1)
      else if sint (m s1) < sint (m s2) then Some (- 1)
      else if sint (m s1) > sint (m s2) then Some 1
      else Some 0)"

declare strcmp.simps [code]

definition strncmp :: "mem \<Rightarrow> addr \<Rightarrow> addr \<Rightarrow> u64 \<Rightarrow> int option" where
  "strncmp m s1 s2 n =
     do { k \<leftarrow> strlen m s1; memcmp m s1 s2 (if k + 1 < n then k + 1 else n) }"

partial_function (option) strchr :: "mem \<Rightarrow> addr \<Rightarrow> u8 \<Rightarrow> addr option" where
  "strchr m s c =
     (if m s = 0 then Some NULL else if m s = c then Some s else strchr m (s + 1) c)"

declare strchr.simps [code]

section \<open>Copying a range\<close>

definition copied :: "mem \<Rightarrow> addr \<Rightarrow> addr \<Rightarrow> nat \<Rightarrow> mem" where
  "copied m d s n = (\<lambda>x. if in_range d n x then m (s + (x - d)) else m x)"

lemma copied_0 [simp]: "copied m d s 0 = m"
  by (simp add: copied_def range_simps)

lemma in_range_offset: "in_range s n (s + (x - d)) \<longleftrightarrow> in_range d n x"
  by (simp add: in_range_def)

lemma in_range_add:
  assumes "j + k \<le> 2 ^ 64"
  shows "in_range d (j + k) x \<longleftrightarrow> in_range d j x \<or> in_range (d + of_nat j) k x"
proof (cases "unat (x - d) < j")
  case True
  then show ?thesis by (simp add: in_range_def)
next
  case False
  then have ge: "j \<le> unat (x - d)" by simp
  then have j: "unat (of_nat j :: u64) = j"
    using unat_lt_2p64 [of "x - d"] by (simp add: unat_of_nat_64)
  have "unat (x - (d + of_nat j)) = unat (x - d) - j"
    using unat_diff_le [of "of_nat j" "x - d"] ge j by (simp only: diff_diff_eq)
  with ge show ?thesis by (auto simp: in_range_def)
qed

lemma ranges_disjoint_suffix:
  assumes "ranges_disjoint d (j + k) s (j + k)"
  shows "ranges_disjoint (d + of_nat j) k (s + of_nat j) k"
    and "ranges_disjoint d j s j"
  using assms by (auto simp: ranges_disjoint_def)

lemma ranges_disjoint_lt:
  assumes "ranges_disjoint d n s n"
  shows "n < 2 ^ 64"
  using assms unat_lt_2p64 [of "s - d"] by (auto simp: ranges_disjoint_def)

lemma copied_append:
  assumes "ranges_disjoint d (j + k) s (j + k)"
  shows "copied (copied m d s j) (d + of_nat j) (s + of_nat j) k = copied m d s (j + k)"
proof
  fix x
  have jk: "j + k \<le> 2 ^ 64" using ranges_disjoint_lt [OF assms] by simp
  have split: "in_range d (j + k) x \<longleftrightarrow> in_range d j x \<or> in_range (d + of_nat j) k x"
    by (rule in_range_add [OF jk])
  have src: "\<not> in_range d j (s + (x - d))" if "in_range d (j + k) x"
  proof -
    from that have "in_range s (j + k) (s + (x - d))" by (simp add: in_range_offset)
    with assms have "\<not> in_range d (j + k) (s + (x - d))"
      by (blast dest: ranges_disjoint_not_both)
    then show ?thesis by (blast intro: in_range_mono le_add1)
  qed
  have eq: "s + of_nat j + (x - (d + of_nat j)) = s + (x - d)" by simp
  show "copied (copied m d s j) (d + of_nat j) (s + of_nat j) k x = copied m d s (j + k) x"
    using split src by (auto simp: copied_def eq)
qed

lemma copied_Suc:
  assumes "ranges_disjoint d (Suc n) s (Suc n)"
  shows "copied (m(d := m s)) (d + 1) (s + 1) n = copied m d s (Suc n)"
proof -
  have one: "copied m d s (Suc 0) = m(d := m s)"
    by (auto simp: copied_def in_range_def fun_eq_iff unat_eq_zero)
  show ?thesis
    using copied_append [where j = 1 and k = n, of d s m] assms by (simp add: one)
qed

lemma ranges_disjoint_Suc:
  assumes "ranges_disjoint d (Suc n) s (Suc n)"
  shows "ranges_disjoint (d + 1) n (s + 1) n"
  using ranges_disjoint_suffix(1) [where j = 1 and k = n, of d s] assms by simp

lemma store_load_le_copied:
  assumes "ranges_disjoint d n s n"
  shows "store_le n m d (load_le n m s) = copied m d s n"
  using assms
proof (induction n arbitrary: m d s)
  case 0
  then show ?case by simp
next
  case (Suc n)
  let ?m = "m(d := m s)"
  have "unat (m s) < 256" using unsigned_less [of "m s", where ?'a = nat] by simp
  then have hi: "load_le (Suc n) m s div 256 = load_le n m (s + 1)"
    by simp
  have "(256 :: u8) = 0" by simp
  then have lo: "of_nat (load_le (Suc n) m s) = m s"
    by (simp only: load_le.simps of_nat_add of_nat_mult of_nat_numeral) simp
  have "\<not> in_range (s + 1) n d"
  proof
    assume "in_range (s + 1) n d"
    then have "in_range s (Suc n) d" by (rule in_range_shift)
    with Suc.prems show False
      using ranges_disjoint_not_both [of d "Suc n" s "Suc n" d] by (simp add: range_simps)
  qed
  then have "load_le n m (s + 1) = load_le n ?m (s + 1)"
    by (intro load_le_cong) auto
  then have "store_le (Suc n) m d (load_le (Suc n) m s)
      = store_le n ?m (d + 1) (load_le n ?m (s + 1))"
    using hi lo by simp
  also have "\<dots> = copied ?m (d + 1) (s + 1) n"
    by (rule Suc.IH) (rule ranges_disjoint_Suc [OF Suc.prems])
  also have "\<dots> = copied m d s (Suc n)" by (rule copied_Suc [OF Suc.prems])
  finally show ?case .
qed

lemma store64_load64_copied:
  assumes "ranges_disjoint d 8 s 8"
  shows "store64 m d (load64 m s) = copied m d s 8"
proof -
  have "load_le 8 m s < 256 ^ 8" by (rule load_le_lt)
  then have "unat (load64 m s) = load_le 8 m s"
    by (simp add: load64_def unat_of_nat_64)
  then show ?thesis using store_load_le_copied [OF assms] by (simp add: store64_def)
qed

section \<open>The loops return\<close>

lemma memcpy_bytes_copied:
  assumes "ranges_disjoint d k s k"
  shows "memcpy_bytes m d s (s + of_nat k) = Some (copied m d s k)"
  using assms
proof (induction k arbitrary: m d s)
  case 0
  then show ?case by (simp add: memcpy_bytes.simps)
next
  case (Suc k)
  have "Suc k < 2 ^ 64" by (rule ranges_disjoint_lt [OF Suc.prems])
  then have "unat (of_nat (Suc k) :: u64) = Suc k" by (rule unat_of_nat_64)
  then have "s \<noteq> s + of_nat (Suc k)" by force
  then have "memcpy_bytes m d s (s + of_nat (Suc k))
      = memcpy_bytes (m(d := m s)) (d + 1) (s + 1) (s + 1 + of_nat k)"
    by (subst memcpy_bytes.simps) (simp add: add_ac)
  also have "\<dots> = Some (copied (m(d := m s)) (d + 1) (s + 1) k)"
    by (rule Suc.IH) (rule ranges_disjoint_Suc [OF Suc.prems])
  finally show ?case using copied_Suc [OF Suc.prems] by simp
qed

lemma memcpy_words_copied:
  assumes "ranges_disjoint d (8 * k) s (8 * k)"
  shows "memcpy_words m d s (s + of_nat (8 * k))
    = Some (copied m d s (8 * k), d + of_nat (8 * k), s + of_nat (8 * k))"
  using assms
proof (induction k arbitrary: m d s)
  case 0
  then show ?case by (simp add: memcpy_words.simps)
next
  case (Suc k)
  have eq: "8 * Suc k = 8 + 8 * k" by simp
  have "8 * Suc k < 2 ^ 64" by (rule ranges_disjoint_lt [OF Suc.prems])
  then have "unat (of_nat (8 * Suc k) :: u64) = 8 * Suc k" by (rule unat_of_nat_64)
  then have ne: "s \<noteq> s + of_nat (8 * Suc k)" by force
  note prems = Suc.prems [unfolded eq]
  have tail: "ranges_disjoint (d + 8) (8 * k) (s + 8) (8 * k)"
    using ranges_disjoint_suffix(1) [OF prems] by simp
  have head: "store64 m d (load64 m s) = copied m d s 8"
    by (rule store64_load64_copied) (rule ranges_disjoint_suffix(2) [OF prems])
  have "memcpy_words m d s (s + of_nat (8 * Suc k))
      = memcpy_words (copied m d s 8) (d + 8) (s + 8) (s + 8 + of_nat (8 * k))"
    using ne by (subst memcpy_words.simps) (simp add: head add_ac)
  also have "\<dots> = Some (copied (copied m d s 8) (d + 8) (s + 8) (8 * k),
      d + 8 + of_nat (8 * k), s + 8 + of_nat (8 * k))"
    by (rule Suc.IH [OF tail])
  also have "copied (copied m d s 8) (d + 8) (s + 8) (8 * k) = copied m d s (8 * Suc k)"
    using copied_append [OF prems, of m] by simp
  finally show ?case by (simp add: add_ac)
qed

lemma memcpy_copied:
  assumes "ranges_disjoint d (unat n) s (unat n)"
  shows "memcpy m d s n = Some (copied m d s (unat n), d)"
proof -
  let ?k = "unat n div 8" and ?r = "unat n mod 8"
  have sum: "unat n = 8 * ?k + ?r" by simp
  have dis: "ranges_disjoint d (8 * ?k + ?r) s (8 * ?k + ?r)" using assms sum by simp
  have n8: "8 * (n div 8) = of_nat (8 * ?k)" and r8: "n mod 8 = of_nat ?r"
    by (simp_all add: u64_div_nat u64_mod_nat)
  have words: "memcpy_words m d s (s + of_nat (8 * ?k))
      = Some (copied m d s (8 * ?k), d + of_nat (8 * ?k), s + of_nat (8 * ?k))"
    by (rule memcpy_words_copied) (rule ranges_disjoint_suffix(2) [OF dis])
  have bytes: "memcpy_bytes (copied m d s (8 * ?k)) (d + of_nat (8 * ?k)) (s + of_nat (8 * ?k))
      (s + of_nat (8 * ?k) + of_nat ?r)
      = Some (copied (copied m d s (8 * ?k)) (d + of_nat (8 * ?k)) (s + of_nat (8 * ?k)) ?r)"
    by (rule memcpy_bytes_copied) (rule ranges_disjoint_suffix(1) [OF dis])
  show ?thesis
    using copied_append [OF dis, of m] sum
    by (simp only: memcpy_def Let_def n8 r8 words bytes bind.bind_lunit prod.case option.simps)
qed

lemma memset_loop_range:
  assumes "k < 2 ^ 64"
  shows "memset_loop m d (d + of_nat k) c = Some (\<lambda>x. if in_range d k x then c else m x)"
  using assms
proof (induction k arbitrary: m d)
  case 0
  then show ?case by (simp add: memset_loop.simps range_simps)
next
  case (Suc k)
  then have "unat (of_nat (Suc k) :: u64) = Suc k" by (intro unat_of_nat_64)
  then have "d \<noteq> d + of_nat (Suc k)" by force
  then have "memset_loop m d (d + of_nat (Suc k)) c
      = memset_loop (m(d := c)) (d + 1) (d + 1 + of_nat k) c"
    by (subst memset_loop.simps) (simp add: add_ac)
  also have "\<dots> = Some (\<lambda>x. if in_range (d + 1) k x then c else (m(d := c)) x)"
    using Suc by simp
  finally show ?case using Suc.prems by (auto simp: in_range_step)
qed

lemma memset_range:
  "memset m d c n = Some ((\<lambda>x. if in_range d (unat n) x then ucast c else m x), d)"
  using memset_loop_range [of "unat n" m d "ucast c"] unat_lt_2p64 [of n]
  by (simp add: memset_def)

section \<open>Byte strings in memory\<close>

primrec bytes_at :: "mem \<Rightarrow> addr \<Rightarrow> nat \<Rightarrow> u8 list" where
  "bytes_at m a 0 = []"
| "bytes_at m a (Suc n) = m a # bytes_at m (a + 1) n"

primrec cstr_at :: "mem \<Rightarrow> addr \<Rightarrow> u8 list \<Rightarrow> bool" where
  "cstr_at m s [] \<longleftrightarrow> m s = 0"
| "cstr_at m s (x # xs) \<longleftrightarrow> m s = x \<and> x \<noteq> 0 \<and> cstr_at m (s + 1) xs"

fun cmp_bytes :: "u8 list \<Rightarrow> u8 list \<Rightarrow> int" where
  "cmp_bytes (x # xs) (y # ys) =
     (if sint x < sint y then - 1 else if sint x > sint y then 1 else cmp_bytes xs ys)"
| "cmp_bytes [] ys = 0"
| "cmp_bytes (x # xs) [] = 0"

lemma sint_u8_eq_iff: "sint (x :: u8) = sint y \<longleftrightarrow> x = y"
  by (rule signed_word_eqI [THEN iffI]) auto

lemma sint_u8_eq_0 [simp]: "sint (x :: u8) = 0 \<longleftrightarrow> x = 0"
  using sint_u8_eq_iff [of x 0] by simp

lemma cmp_bytes_eq_0:
  "length xs = length ys \<Longrightarrow> cmp_bytes xs ys = 0 \<longleftrightarrow> xs = ys"
proof (induction xs ys rule: list_induct2)
  case Nil
  then show ?case by simp
next
  case (Cons x xs y ys)
  with sint_u8_eq_iff [of x y] show ?case by auto
qed

lemma cmp_bytes_cstr_eq_0:
  "0 \<notin> set xs \<Longrightarrow> 0 \<notin> set ys \<Longrightarrow> cmp_bytes (xs @ [0]) (ys @ [0]) = 0 \<longleftrightarrow> xs = ys"
proof (induction xs ys rule: cmp_bytes.induct)
  case (1 x xs y ys)
  with sint_u8_eq_iff [of x y] show ?case by auto
next
  case (2 ys)
  then show ?case by (cases ys) auto
next
  case (3 x xs)
  then show ?case by auto
qed

lemma cstr_at_nonzero: "cstr_at m s xs \<Longrightarrow> 0 \<notin> set xs"
  by (induction xs arbitrary: s) auto

lemma length_bytes_at [simp]: "length (bytes_at m a n) = n"
  by (induction n arbitrary: a) auto

lemma nth_bytes_at: "i < n \<Longrightarrow> bytes_at m a n ! i = m (a + of_nat i)"
proof (induction n arbitrary: a i)
  case (Suc n)
  then show ?case
    by (cases i) (simp_all add: algebra_simps)
qed simp

lemma bytes_at_add: "bytes_at m a (n + k) = bytes_at m a n @ bytes_at m (a + of_nat n) k"
  by (induction n arbitrary: a) (simp_all add: algebra_simps)

lemma bytes_at_cong:
  "(\<And>i. i < n \<Longrightarrow> m (a + of_nat i) = m' (a + of_nat i)) \<Longrightarrow> bytes_at m a n = bytes_at m' a n"
  by (intro nth_equalityI) (simp_all add: nth_bytes_at)

lemma cstr_at_transport:
  assumes "cstr_at m s xs" and "\<And>i. i \<le> length xs \<Longrightarrow> m' (d + of_nat i) = m (s + of_nat i)"
  shows "cstr_at m' d xs"
  using assms
proof (induction xs arbitrary: s d)
  case Nil
  from Nil.prems(2) [of 0] Nil.prems(1) show ?case by simp
next
  case (Cons x xs)
  have "cstr_at m' (d + 1) xs"
  proof (rule Cons.IH)
    show "cstr_at m (s + 1) xs" using Cons.prems(1) by simp
    show "m' (d + 1 + of_nat i) = m (s + 1 + of_nat i)" if "i \<le> length xs" for i
      using Cons.prems(2) [of "Suc i"] that by (simp add: add_ac)
  qed
  with Cons.prems(2) [of 0] Cons.prems(1) show ?case by simp
qed

lemma strlen_loop_cstr: "cstr_at m s xs \<Longrightarrow> strlen_loop m s = Some (s + of_nat (length xs))"
  by (induction xs arbitrary: s) (auto simp: strlen_loop.simps add_ac)

lemma strlen_cstr: "cstr_at m s xs \<Longrightarrow> strlen m s = Some (of_nat (length xs))"
  by (simp add: strlen_def strlen_loop_cstr)

lemma strcmp_cstr:
  "cstr_at m s1 xs \<Longrightarrow> cstr_at m s2 ys \<Longrightarrow>
     strcmp m s1 s2 = Some (cmp_bytes (xs @ [0]) (ys @ [0]))"
proof (induction xs ys arbitrary: s1 s2 rule: cmp_bytes.induct)
  case (1 x xs y ys)
  then show ?case by (subst strcmp.simps) auto
next
  case (2 ys)
  then show ?case by (subst strcmp.simps) (cases ys; auto)
next
  case (3 x xs)
  then show ?case by (subst strcmp.simps) auto
qed

lemma memcmp_bytes_at:
  assumes "k < 2 ^ 64"
  shows "memcmp m s1 s2 (of_nat k) = Some (cmp_bytes (bytes_at m s1 k) (bytes_at m s2 k))"
proof -
  have "memcmp_loop m s1 s2 (s1 + of_nat k) = Some (cmp_bytes (bytes_at m s1 k) (bytes_at m s2 k))"
    using assms
  proof (induction k arbitrary: s1 s2)
    case 0
    then show ?case by (simp add: memcmp_loop.simps)
  next
    case (Suc k)
    then have "unat (of_nat (Suc k) :: u64) = Suc k" by (intro unat_of_nat_64)
    then have "s1 \<noteq> s1 + of_nat (Suc k)" by force
    with Suc.IH [of "s1 + 1" "s2 + 1"] Suc.prems show ?case
      by (subst memcmp_loop.simps) (simp add: add_ac)
  qed
  then show ?thesis by (simp add: memcmp_def)
qed

lemma strchr_cstr:
  "cstr_at m s xs \<Longrightarrow> strchr m s c =
     Some (if c \<in> set xs then s + of_nat (length (takeWhile (\<lambda>x. x \<noteq> c) xs)) else NULL)"
  by (induction xs arbitrary: s) (auto simp: strchr.simps add_ac)

lemma copied_offset:
  "i < n \<Longrightarrow> n < 2 ^ 64 \<Longrightarrow> copied m d s n (d + of_nat i) = m (s + of_nat i)"
  by (simp add: copied_def in_range_def unat_of_nat_64)

lemma copied_other: "\<not> in_range d n x \<Longrightarrow> copied m d s n x = m x"
  by (simp add: copied_def)

lemma strcpy_cstr:
  assumes str: "cstr_at m src xs"
    and dis: "ranges_disjoint dest (length xs + 1) src (length xs + 1)"
  shows "strcpy m dest src = Some (copied m dest src (length xs + 1), dest)"
proof -
  have len: "length xs + 1 < 2 ^ 64" by (rule ranges_disjoint_lt [OF dis])
  have n: "unat (of_nat (length xs) + 1 :: u64) = length xs + 1"
    using unat_of_nat_64 [OF len] by (simp add: add_ac)
  have "memcpy m dest src (of_nat (length xs) + 1) = Some (copied m dest src (length xs + 1), dest)"
    using memcpy_copied [of dest "of_nat (length xs) + 1" src m] dis by (simp only: n)
  then show ?thesis by (simp add: strcpy_def strlen_cstr [OF str])
qed

lemma cstr_at_append:
  "cstr_at m s (xs @ ys) \<longleftrightarrow>
     0 \<notin> set xs \<and> (\<forall>i < length xs. m (s + of_nat i) = xs ! i) \<and> cstr_at m (s + of_nat (length xs)) ys"
proof (induction xs arbitrary: s)
  case Nil
  then show ?case by simp
next
  case (Cons x xs)
  have "(\<forall>i < length (x # xs). m (s + of_nat i) = (x # xs) ! i) \<longleftrightarrow>
      m s = x \<and> (\<forall>i < length xs. m (s + 1 + of_nat i) = xs ! i)"
    by (auto simp: all_conj_distrib less_Suc_eq_0_disj add_ac)
  with Cons.IH [of "s + 1"] show ?case by (auto simp: add_ac)
qed

lemma memcpy_bytes_smear:
  assumes "k < 2 ^ 64 - 1"
  shows "memcpy_bytes m (s + 1) s (s + of_nat k)
    = Some (\<lambda>x. if in_range (s + 1) k x then m s else m x)"
  using assms
proof (induction k arbitrary: m s)
  case 0
  then show ?case by (simp add: memcpy_bytes.simps range_simps)
next
  case (Suc k)
  then have "unat (of_nat (Suc k) :: u64) = Suc k" by (intro unat_of_nat_64) simp
  then have "s \<noteq> s + of_nat (Suc k)" by force
  then have "memcpy_bytes m (s + 1) s (s + of_nat (Suc k))
      = memcpy_bytes (m(s + 1 := m s)) (s + 1 + 1) (s + 1) (s + 1 + of_nat k)"
    by (subst memcpy_bytes.simps) (simp add: add_ac)
  also have "\<dots> = Some (\<lambda>x. if in_range (s + 1 + 1) k x then m s else (m(s + 1 := m s)) x)"
    using Suc.IH [of "m(s + 1 := m s)" "s + 1"] Suc.prems by (simp only: fun_upd_same)
  finally show ?case using Suc.prems by (auto simp: in_range_step)
qed

section \<open>Properties\<close>

text \<open>
  C39: For ranges that do not overlap, \<^verbatim>\<open>memcpy\<close> returns its destination, every byte of the
  destination range holds the byte of the source at the same offset, and no other byte changes:
  the word loop followed by the byte loop of the remainder copies exactly \<^verbatim>\<open>num\<close> bytes.
\<close>

theorem memcpy_correct:
  assumes "ranges_disjoint dest (unat n) src (unat n)"
  shows "\<exists>m'. memcpy m dest src n = Some (m', dest) \<and>
    (\<forall>i < unat n. m' (dest + of_nat i) = m (src + of_nat i)) \<and>
    (\<forall>x. \<not> in_range dest (unat n) x \<longrightarrow> m' x = m x)"
  using memcpy_copied [OF assms, of m] unat_lt_2p64 [of n]
  by (auto simp: copied_offset copied_other)

theorem memcpy_correct_witness:
  "\<exists>m'. memcpy (\<lambda>x. ucast x) 0x2000 0x1000 13 = Some (m', 0x2000) \<and>
    m' 0x200C = 0x0C \<and> m' 0x200D = 0x0D"
proof -
  have "ranges_disjoint 0x2000 (unat (13 :: u64)) 0x1000 (unat (13 :: u64))"
    by (simp add: ranges_disjoint_def)
  from memcpy_correct [OF this, of "\<lambda>x. ucast x"] obtain m' :: mem where
    m': "memcpy (\<lambda>x. ucast x) 0x2000 0x1000 13 = Some (m', 0x2000)"
    and inside: "\<forall>i < 13. m' (0x2000 + of_nat i) = ucast (0x1000 + of_nat i :: u64)"
    and outside: "\<forall>x. \<not> in_range 0x2000 13 x \<longrightarrow> m' x = ucast x"
    by auto
  from inside [rule_format, of 12] outside [rule_format, of "0x200D"] m'
  show ?thesis by (simp add: in_range_def)
qed

text \<open>
  \<^verbatim>\<open>strcpy\<close> leaves at its destination the string it read, terminator included, keeps the
  source string, and \<^verbatim>\<open>strcmp\<close> of the two then returns 0.
\<close>

theorem strcpy_strcmp_roundtrip:
  assumes str: "cstr_at m src xs"
    and dis: "ranges_disjoint dest (length xs + 1) src (length xs + 1)"
  shows "\<exists>m'. strcpy m dest src = Some (m', dest) \<and> cstr_at m' dest xs \<and> cstr_at m' src xs \<and>
    strcmp m' dest src = Some 0"
proof -
  let ?m = "copied m dest src (length xs + 1)"
  have len: "length xs + 1 < 2 ^ 64" by (rule ranges_disjoint_lt [OF dis])
  have d: "cstr_at ?m dest xs"
    by (rule cstr_at_transport [OF str]) (rule copied_offset [OF _ len], simp)
  have s: "cstr_at ?m src xs"
  proof (rule cstr_at_transport [OF str])
    fix i
    assume i: "i \<le> length xs"
    with len have "in_range src (length xs + 1) (src + of_nat i)"
      by (simp add: in_range_def unat_of_nat_64)
    with dis have "\<not> in_range dest (length xs + 1) (src + of_nat i)"
      by (blast dest: ranges_disjoint_not_both)
    then show "?m (src + of_nat i) = m (src + of_nat i)" by (rule copied_other)
  qed
  have "cmp_bytes (xs @ [0]) (xs @ [0]) = 0" by (simp add: cmp_bytes_eq_0)
  with strcmp_cstr [OF d s] strcpy_cstr [OF str dis] d s show ?thesis by auto
qed

theorem strcpy_strcmp_roundtrip_witness:
  "\<exists>m'. strcpy ((\<lambda>_. 0)(0x10 := 104, 0x11 := 105)) 0x20 0x10 = Some (m', 0x20) \<and>
     cstr_at m' 0x20 [104, 105] \<and> strcmp m' 0x20 0x10 = Some 0"
  using strcpy_strcmp_roundtrip [of "(\<lambda>_. 0)(0x10 := 104, 0x11 := 105)" "0x10" "[104, 105]" "0x20"]
  by (auto simp: ranges_disjoint_def)

text \<open>
  On two terminated strings \<^verbatim>\<open>strcmp\<close> returns 0 exactly when they are equal, and
  \<^verbatim>\<open>memcmp\<close> over any number of bytes returns 0 exactly when the two ranges hold the same bytes.
\<close>

theorem strcmp_memcmp_decide_equality:
  assumes "cstr_at m s1 xs" and "cstr_at m s2 ys"
  shows "(\<exists>r. strcmp m s1 s2 = Some r \<and> (r = 0 \<longleftrightarrow> xs = ys)) \<and>
    (\<exists>r. memcmp m a b n = Some r \<and> (r = 0 \<longleftrightarrow> bytes_at m a (unat n) = bytes_at m b (unat n)))"
  using strcmp_cstr [OF assms] cmp_bytes_cstr_eq_0 [of xs ys] assms [THEN cstr_at_nonzero]
    memcmp_bytes_at [of "unat n" m a b] unat_lt_2p64 [of n]
  by (auto simp: cmp_bytes_eq_0)

theorem strcmp_memcmp_decide_equality_witness:
  "\<exists>r. strcmp ((\<lambda>_. 0)(0x10 := 200, 0x20 := 100)) 0x10 0x20 = Some r \<and> r \<noteq> 0"
  using strcmp_memcmp_decide_equality
    [of "(\<lambda>_. 0)(0x10 := 200, 0x20 := 100)" "0x10" "[200]" "0x20" "[100]" 0 0 0]
  by auto

text \<open>
  \<^verbatim>\<open>strcat\<close> leaves at \<^verbatim>\<open>dest\<close> the concatenation of the two strings. The pointer it
  returns is \<^verbatim>\<open>dest\<close> advanced to the place where the appended string starts, not
  \<^verbatim>\<open>dest\<close> itself.
\<close>

theorem strcat_appends:
  assumes d: "cstr_at m dest xs" and s: "cstr_at m src ys"
    and dis: "ranges_disjoint (dest + of_nat (length xs)) (length ys + 1) src (length ys + 1)"
    and fit: "length xs + length ys + 1 < 2 ^ 64"
  shows "\<exists>m'. strcat m dest src = Some (m', dest + of_nat (length xs)) \<and> cstr_at m' dest (xs @ ys)"
proof -
  let ?d = "dest + of_nat (length xs)"
  let ?m = "copied m ?d src (length ys + 1)"
  have "strcat m dest src = Some (?m, ?d)"
    using strcpy_cstr [OF s dis]
    by (auto simp: strcat_def strcpy_def strlen_cstr [OF d] strlen_cstr [OF s] Let_def split: bind_splits)
  moreover have "cstr_at ?m ?d ys"
    by (rule cstr_at_transport [OF s])
      (rule copied_offset [OF _ ranges_disjoint_lt [OF dis]], simp)
  moreover have "?m (dest + of_nat i) = xs ! i" if i: "i < length xs" for i
  proof -
    have "unat (dest + of_nat i - ?d) = 2 ^ 64 - (length xs - i)"
      using unat_diff_lt [of "of_nat i" "of_nat (length xs)"] i fit by (simp add: unat_of_nat_64)
    with fit i have "\<not> in_range ?d (length ys + 1) (dest + of_nat i)"
      by (simp add: in_range_def)
    then have "?m (dest + of_nat i) = m (dest + of_nat i)" by (rule copied_other)
    with i d show ?thesis using cstr_at_append [of m dest xs "[]"] by simp
  qed
  ultimately show ?thesis
    using cstr_at_nonzero [OF d] by (auto simp: cstr_at_append)
qed

theorem strcat_appends_witness:
  "\<exists>m'. strcat ((\<lambda>_. 0)(0x10 := 104, 0x20 := 105)) 0x10 0x20 = Some (m', 0x11) \<and>
     cstr_at m' 0x10 [104, 105]"
  using strcat_appends [of "(\<lambda>_. 0)(0x10 := 104, 0x20 := 105)" "0x10" "[104]" "0x20" "[105]"]
  by (auto simp: ranges_disjoint_def)

text \<open>
  \<^verbatim>\<open>memmove\<close> is \<^verbatim>\<open>memcpy\<close>: moving up to 7 bytes one place up does not move them, it
  fills the whole destination range with the first source byte.
\<close>

lemma memmove_overlap_smears:
  assumes "n < 8"
  shows "memmove m (s + 1) s n
    = Some (\<lambda>x. if in_range (s + 1) (unat n) x then m s else m x, s + 1)"
proof -
  have n: "unat n < 8" using assms by (simp add: word_less_nat_alt)
  then have "n div 8 = 0" "n mod 8 = n" by (simp_all add: u64_div_nat u64_mod_nat)
  with n memcpy_bytes_smear [of "unat n" m s] show ?thesis
    by (simp add: memmove_def memcpy_def memcpy_words.simps)
qed

lemma memmove_overlap_smears_witness:
  "memmove (\<lambda>x. ucast x) (0x10 + 1) 0x10 2
    = Some (\<lambda>x. if in_range (0x10 + 1) 2 x then 0x10 else ucast x, 0x10 + 1)"
proof -
  have "ucast (0x10 :: u64) = (0x10 :: u8)" by simp
  with memmove_overlap_smears [of 2 "\<lambda>x. ucast x" "0x10"] show ?thesis by (simp only:) simp
qed

end
