(* ===== verification/Spinlock.thy ===== *)
theory Spinlock
  imports Prelude
begin

text \<open>
  The spinlock of \<^verbatim>\<open>cpu/spinlock.h\<close>. \<open>cmpxchgl\<close> is the instruction the inline assembly of
  \<^verbatim>\<open>spinlock_lock\<close> executes: it compares \<^verbatim>\<open>eax\<close> with the lock word, stores the new value
  when they agree and otherwise loads the lock word into \<^verbatim>\<open>eax\<close>. The operand list declares
  \<^verbatim>\<open>eax\<close> as the input 0 of every execution, so the loop as written compares with 0 each time;
  \<open>spinlock_lock\<close> is that loop on one CPU, where nobody else can release the lock while it spins.

  \<open>lock_step\<close> lets any number of CPUs run lock and unlock interleaved. Its flag \<open>reload\<close> says
  whether \<^verbatim>\<open>eax\<close> is 0 again at every execution of the instruction (what the operand list says)
  or keeps what the failed compare left in it (what the instruction does to a register that the
  operand list does not declare as modified).
\<close>

section \<open>One CPU\<close>

definition cmpxchgl :: "u32 \<Rightarrow> u32 \<Rightarrow> u32 \<Rightarrow> bool \<times> u32 \<times> u32" where
  "cmpxchgl eax dst src = (if eax = dst then (True, src, eax) else (False, dst, dst))"

definition spinlock_init :: "u32 \<Rightarrow> u32" where
  "spinlock_init s = 0"

partial_function (option) spinlock_lock :: "u32 \<Rightarrow> u32 option" where
  "spinlock_lock s =
     (let (set, s1, _) = cmpxchgl 0 s 1 in if set then Some s1 else spinlock_lock s1)"

declare spinlock_lock.simps [code]

definition spinlock_unlock :: "u32 \<Rightarrow> u32" where
  "spinlock_unlock s = 0"

lemma spinlock_lock_free [simp]: "spinlock_lock 0 = Some 1"
  by (simp add: spinlock_lock.simps cmpxchgl_def)

lemma spinlock_lock_held_aux:
  assumes "spinlock_lock s = Some r"
  shows "s = 0"
proof (rule spinlock_lock.raw_induct [where P = "\<lambda>s r. s = 0", OF _ assms])
  fix f :: "u32 \<Rightarrow> u32 option" and s r
  assume IH: "\<And>s r. f s = Some r \<Longrightarrow> s = 0"
    and eq: "(let (set, s1, _) = cmpxchgl 0 s 1 in if set then Some s1 else f s1) = Some r"
  show "s = 0"
  proof (rule ccontr)
    assume "s \<noteq> 0"
    with eq have "f s = Some r" by (simp add: cmpxchgl_def)
    with IH \<open>s \<noteq> 0\<close> show False by blast
  qed
qed

lemma spinlock_lock_held [simp]: "s \<noteq> 0 \<Longrightarrow> spinlock_lock s = None"
  using spinlock_lock_held_aux by (cases "spinlock_lock s") auto

section \<open>Interleaved CPUs\<close>

datatype lock_pc = Outside | Spinning u32 | Inside

record lock_sys =
  lock_word :: u32
  lock_pcs :: "nat \<Rightarrow> lock_pc"

definition lock_sys_init :: lock_sys where
  "lock_sys_init = \<lparr>lock_word = spinlock_init 0, lock_pcs = (\<lambda>_. Outside)\<rparr>"

definition try_lock :: "bool \<Rightarrow> nat \<Rightarrow> u32 \<Rightarrow> lock_sys \<Rightarrow> lock_sys" where
  "try_lock reload i eax s =
     (let (set, w, eax1) = cmpxchgl eax (lock_word s) 1 in
      s\<lparr>lock_word := w,
        lock_pcs := (lock_pcs s)(i := if set then Inside else Spinning (if reload then 0 else eax1))\<rparr>)"

inductive lock_step :: "bool \<Rightarrow> lock_sys \<Rightarrow> lock_sys \<Rightarrow> bool" for reload where
  enter: "lock_pcs s i = Outside \<Longrightarrow>
    lock_step reload s (s\<lparr>lock_pcs := (lock_pcs s)(i := Spinning 0)\<rparr>)"
| attempt: "lock_pcs s i = Spinning eax \<Longrightarrow> lock_step reload s (try_lock reload i eax s)"
| unlock: "lock_pcs s i = Inside \<Longrightarrow>
    lock_step reload s
      (s\<lparr>lock_word := spinlock_unlock (lock_word s), lock_pcs := (lock_pcs s)(i := Outside)\<rparr>)"

inductive lock_reachable :: "bool \<Rightarrow> lock_sys \<Rightarrow> bool" for reload where
  lock_start: "lock_reachable reload lock_sys_init"
| lock_next: "lock_reachable reload s \<Longrightarrow> lock_step reload s t \<Longrightarrow> lock_reachable reload t"

definition lock_inv :: "lock_sys \<Rightarrow> bool" where
  "lock_inv s \<longleftrightarrow>
     (\<forall>i eax. lock_pcs s i = Spinning eax \<longrightarrow> eax = 0) \<and>
     (\<forall>i j. lock_pcs s i = Inside \<longrightarrow> lock_pcs s j = Inside \<longrightarrow> i = j) \<and>
     ((\<exists>i. lock_pcs s i = Inside) \<longleftrightarrow> lock_word s \<noteq> 0)"

lemma lock_inv_init: "lock_inv lock_sys_init"
  by (simp add: lock_inv_def lock_sys_init_def spinlock_init_def)

lemma lock_inv_step: "lock_step True s t \<Longrightarrow> lock_inv s \<Longrightarrow> lock_inv t"
proof (induction rule: lock_step.induct)
  case (enter s i)
  then have "((lock_pcs s)(i := Spinning 0)) j = Inside \<longleftrightarrow> lock_pcs s j = Inside" for j
    by auto
  with enter show ?case by (auto simp: lock_inv_def)
next
  case (attempt s i eax)
  then have "eax = 0" by (auto simp: lock_inv_def)
  show ?case
  proof (cases "lock_word s = 0")
    case True
    with attempt \<open>eax = 0\<close> show ?thesis by (auto simp: lock_inv_def try_lock_def cmpxchgl_def)
  next
    case False
    with attempt \<open>eax = 0\<close> have "try_lock True i eax s = s"
      by (simp add: try_lock_def cmpxchgl_def fun_upd_idem)
    with attempt show ?thesis by simp
  qed
next
  case (unlock s i)
  then show ?case by (auto simp: lock_inv_def spinlock_unlock_def)
qed

lemma lock_inv_reachable: "lock_reachable True s \<Longrightarrow> lock_inv s"
  by (induction rule: lock_reachable.induct) (auto intro: lock_inv_init lock_inv_step)

section \<open>Properties\<close>

text \<open>
  On one CPU \<^verbatim>\<open>spinlock_lock\<close> returns exactly when the lock word is 0, and leaves it 1;
  on a lock that is already held it spins for ever (so code that takes a lock it already holds
  never returns), and after \<^verbatim>\<open>spinlock_unlock\<close> it can be taken again.
\<close>

theorem spinlock_lock_returns_iff_free:
  "(spinlock_lock s = (if s = 0 then Some 1 else None)) \<and>
   spinlock_lock (spinlock_unlock s) = Some 1 \<and>
   Option.bind (spinlock_lock s) spinlock_lock = None"
  by (cases "s = 0") (auto simp: spinlock_unlock_def)

text \<open>
  C38: Mutual exclusion: when every execution of the compare-and-exchange compares with 0, then in
  every state that any number of CPUs reach by interleaving lock and unlock, at most one CPU is
  past \<^verbatim>\<open>spinlock_lock\<close>, and the lock word is 0 exactly when none is.
\<close>

theorem spinlock_mutual_exclusion:
  assumes "lock_reachable True s"
  shows "(\<forall>i j. lock_pcs s i = Inside \<and> lock_pcs s j = Inside \<longrightarrow> i = j) \<and>
    (lock_word s = 0 \<longleftrightarrow> (\<forall>i. lock_pcs s i \<noteq> Inside))"
  using lock_inv_reachable [OF assms] by (auto simp: lock_inv_def)

theorem spinlock_mutual_exclusion_witness:
  "lock_reachable True (try_lock True 0 0 (lock_sys_init\<lparr>lock_pcs := (\<lambda>_. Outside)(0 := Spinning 0)\<rparr>)) \<and>
   lock_word (try_lock True 0 0 (lock_sys_init\<lparr>lock_pcs := (\<lambda>_. Outside)(0 := Spinning 0)\<rparr>)) \<noteq> 0"
proof -
  let ?s = "lock_sys_init\<lparr>lock_pcs := (\<lambda>_. Outside)(0 := Spinning 0)\<rparr>"
  let ?t = "try_lock True 0 0 ?s"
  have "lock_step True lock_sys_init ?s"
    using lock_step.enter [of lock_sys_init 0 True] by (simp add: lock_sys_init_def)
  moreover have "lock_step True ?s ?t" by (rule lock_step.attempt) simp
  ultimately have r: "lock_reachable True ?t" by (blast intro: lock_start lock_next)
  have "lock_pcs ?t 0 = Inside"
    by (simp add: try_lock_def cmpxchgl_def lock_sys_init_def spinlock_init_def)
  with spinlock_mutual_exclusion [OF r] r show ?thesis by auto
qed

text \<open>
  When a failed compare leaves its result in \<^verbatim>\<open>eax\<close> and the next execution uses it, the lock
  gives no mutual exclusion: two CPUs that both call \<^verbatim>\<open>spinlock_lock\<close> on a free lock can both
  get past it, because the second attempt of the loser compares the held value 1 with 1.
\<close>

theorem spinlock_stale_eax_two_inside:
  "\<exists>s. lock_reachable False s \<and> lock_pcs s 0 = Inside \<and> lock_pcs s 1 = Inside"
proof -
  let ?a = "lock_sys_init\<lparr>lock_pcs := (lock_pcs lock_sys_init)(0 := Spinning 0)\<rparr>"
  let ?b = "?a\<lparr>lock_pcs := (lock_pcs ?a)(1 := Spinning 0)\<rparr>"
  let ?c = "try_lock False 0 0 ?b"
  let ?d = "try_lock False 1 0 ?c"
  let ?e = "try_lock False 1 1 ?d"
  note sims = try_lock_def cmpxchgl_def lock_sys_init_def spinlock_init_def
  have "lock_step False lock_sys_init ?a" by (rule lock_step.enter) (simp add: sims)
  moreover have "lock_step False ?a ?b" by (rule lock_step.enter) (simp add: sims)
  moreover have "lock_step False ?b ?c" by (rule lock_step.attempt) simp
  moreover have "lock_step False ?c ?d" by (rule lock_step.attempt) (simp add: sims)
  moreover have "lock_step False ?d ?e" by (rule lock_step.attempt) (simp add: sims)
  ultimately have "lock_reachable False ?e" by (meson lock_start lock_next)
  moreover have "lock_pcs ?e 0 = Inside" "lock_pcs ?e 1 = Inside" by (simp_all add: sims)
  ultimately show ?thesis by blast
qed

end
