(* ===== verification/Kernmem.thy ===== *)
theory Kernmem
  imports Cstring Spinlock
begin

text \<open>
  The kernel heap of \<^verbatim>\<open>kernlib/kernmem.c\<close>: a doubly linked list of headers
  \<^verbatim>\<open>kmem_node {sz, next, prev}\<close> (24 bytes, at offsets 0, 8 and 16) that lie in the memory they
  describe, the first at \<^verbatim>\<open>KMEM_HEAP_BASE\<close>, in ascending address order. The state is the byte
  memory itself together with the two other globals, \<^verbatim>\<open>occupied_to\<close> and the spinlock; the
  functions load and store header fields exactly where the code does. The two function pointers
  that \<^verbatim>\<open>kmem_set_map_functions\<close> installs are an argument (\<^const>\<open>None\<close>: not installed yet).
  \<^const>\<open>None\<close> as a result stands for a call that does not return: a lock that is never released,
  or a division by zero.

  \<open>heap_at\<close> says that a list of (header address, size) pairs is the list in memory, \<open>heap_ok\<close> that
  the blocks are ordered and disjoint. \<open>place\<close> is the abstract first-fit allocator on such lists,
  and the refinement lemmas show that the pointer code computes it.
\<close>

section \<open>State and header fields\<close>

definition KMEM_HEAP_BASE :: addr where
  "KMEM_HEAP_BASE = 0x200000"

record kmem =
  kmem_mem :: mem
  occupied_to :: addr
  kmem_spinlock :: u32

type_synonym 'a map_hooks =
  "(('a kmem_scheme \<Rightarrow> addr \<Rightarrow> u64 \<Rightarrow> u32 \<Rightarrow> 'a kmem_scheme option) \<times> u64) option"

definition kn_sz :: "mem \<Rightarrow> addr \<Rightarrow> u64" where
  "kn_sz m p = load64 m p"

definition kn_next :: "mem \<Rightarrow> addr \<Rightarrow> addr" where
  "kn_next m p = load64 m (p + 8)"

definition kn_prev :: "mem \<Rightarrow> addr \<Rightarrow> addr" where
  "kn_prev m p = load64 m (p + 16)"

definition set_sz :: "addr \<Rightarrow> u64 \<Rightarrow> mem \<Rightarrow> mem" where
  "set_sz p v m = store64 m p v"

definition set_next :: "addr \<Rightarrow> addr \<Rightarrow> mem \<Rightarrow> mem" where
  "set_next p v m = store64 m (p + 8) v"

definition set_prev :: "addr \<Rightarrow> addr \<Rightarrow> mem \<Rightarrow> mem" where
  "set_prev p v m = store64 m (p + 16) v"

definition kmem_init :: "'a kmem_scheme \<Rightarrow> 'a kmem_scheme" where
  "kmem_init s =
     s\<lparr>kmem_mem := set_next KMEM_HEAP_BASE NULL (set_prev KMEM_HEAP_BASE NULL (kmem_mem s)),
       kmem_spinlock := spinlock_init (kmem_spinlock s)\<rparr>"

definition kmem_get_heap_end :: "'a kmem_scheme \<Rightarrow> addr" where
  "kmem_get_heap_end s = occupied_to s"

definition kmem_set_map_functions ::
  "('a kmem_scheme \<Rightarrow> addr \<Rightarrow> u64 \<Rightarrow> u32 \<Rightarrow> 'a kmem_scheme option) \<Rightarrow> u64 \<Rightarrow> 'a map_hooks" where
  "kmem_set_map_functions alloc_func mem_unit_size = Some (alloc_func, mem_unit_size)"

section \<open>Allocation\<close>

definition align_node :: "addr \<Rightarrow> u64 \<Rightarrow> addr" where
  "align_node p align =
     (if (p + 24) mod align \<noteq> 0 then p + (align - (p + 24) mod align) else p)"

partial_function (option) kmalloc_scan ::
  "mem \<Rightarrow> u64 \<Rightarrow> u64 \<Rightarrow> addr \<Rightarrow> (addr \<times> addr option) option" where
  "kmalloc_scan m sz align it =
     (if kn_next m it = NULL then Some (it, None)
      else if align = 0 then None
      else let gap_beg = align_node (it + 24 + kn_sz m it) align;
               gap_end = kn_next m it
           in if gap_end > gap_beg \<and> gap_end - gap_beg \<ge> sz + 24 then Some (it, Some gap_beg)
              else kmalloc_scan m sz align (kn_next m it))"

declare kmalloc_scan.simps [code]

definition link_in_gap :: "addr \<Rightarrow> addr \<Rightarrow> u64 \<Rightarrow> mem \<Rightarrow> mem" where
  "link_in_gap it gap_beg sz m0 =
     (let it_next = kn_next m0 it;
          m1 = set_next it gap_beg m0;
          m2 = set_prev it_next (kn_next m1 it) m1;
          m3 = set_sz (kn_next m2 it) sz m2;
          m4 = set_next (kn_next m3 it) it_next m3
      in set_prev (kn_next m4 it) it m4)"

definition link_last :: "addr \<Rightarrow> addr \<Rightarrow> u64 \<Rightarrow> mem \<Rightarrow> mem" where
  "link_last it nblk sz m0 =
     (let m1 = set_next it nblk m0;
          m2 = set_sz (kn_next m1 it) sz m1;
          m3 = set_next (kn_next m2 it) NULL m2
      in set_prev (kn_next m3 it) it m3)"

definition VMEM_FLAG_SIZE_IN_BYTES :: u32 where
  "VMEM_FLAG_SIZE_IN_BYTES = 4"

definition grow_heap :: "'a map_hooks \<Rightarrow> addr \<Rightarrow> 'a kmem_scheme \<Rightarrow> 'a kmem_scheme option" where
  "grow_heap hooks blk_end s =
     (if blk_end > occupied_to s then
        case hooks of
          Some (vmemory_map_alloc, mem_unit_size) \<Rightarrow>
            if mem_unit_size = 0 then None
            else
              let occupied_to_aligned = occupied_to s - occupied_to s mod mem_unit_size
              in do {
                s1 \<leftarrow> (if blk_end - occupied_to_aligned > mem_unit_size
                      then vmemory_map_alloc s (occupied_to_aligned + mem_unit_size)
                             (blk_end - occupied_to_aligned) VMEM_FLAG_SIZE_IN_BYTES
                      else Some s);
                Some (s1\<lparr>occupied_to := blk_end + (mem_unit_size - blk_end mod mem_unit_size)\<rparr>)
              }
        | None \<Rightarrow> Some (s\<lparr>occupied_to := blk_end\<rparr>)
      else Some s)"

definition kmalloc_align ::
  "'a map_hooks \<Rightarrow> u64 \<Rightarrow> u64 \<Rightarrow> 'a kmem_scheme \<Rightarrow> ('a kmem_scheme \<times> addr) option" where
  "kmalloc_align hooks sz align s =
     do {
       w \<leftarrow> spinlock_lock (kmem_spinlock s);
       let s1 = s\<lparr>kmem_spinlock := w\<rparr>;
       (it, gap) \<leftarrow> kmalloc_scan (kmem_mem s1) sz align KMEM_HEAP_BASE;
       case gap of
         Some gap_beg \<Rightarrow>
           let m = link_in_gap it gap_beg sz (kmem_mem s1)
           in Some (s1\<lparr>kmem_mem := m\<rparr>, kn_next m it + 24)
       | None \<Rightarrow>
           if align = 0 then None
           else do {
             let nblk = align_node (it + 24 + kn_sz (kmem_mem s1) it) align;
             s2 \<leftarrow> grow_heap hooks (nblk + 24 + sz) s1;
             let m = link_last it nblk sz (kmem_mem s2);
             let s3 = s2\<lparr>kmem_mem := m, kmem_spinlock := spinlock_unlock (kmem_spinlock s2)\<rparr>;
             Some (s3, kn_next m it + 24)
           }
     }"

definition kmalloc ::
  "'a map_hooks \<Rightarrow> u64 \<Rightarrow> 'a kmem_scheme \<Rightarrow> ('a kmem_scheme \<times> addr) option" where
  "kmalloc hooks sz s = kmalloc_align hooks sz 1 s"

section \<open>Release and resizing\<close>

definition unlink_node :: "addr \<Rightarrow> mem \<Rightarrow> mem" where
  "unlink_node it m0 =
     (let m1 = (if kn_prev m0 it \<noteq> NULL then set_next (kn_prev m0 it) (kn_next m0 it) m0 else m0)
      in if kn_next m1 it \<noteq> NULL then set_prev (kn_next m1 it) (kn_prev m1 it) m1 else m1)"

definition kfree :: "addr \<Rightarrow> 'a kmem_scheme \<Rightarrow> 'a kmem_scheme option" where
  "kfree ptr s =
     do {
       w \<leftarrow> spinlock_lock (kmem_spinlock s);
       let s1 = s\<lparr>kmem_spinlock := w\<rparr>;
       Some (s1\<lparr>kmem_mem := unlink_node (ptr - 24) (kmem_mem s1),
                kmem_spinlock := spinlock_unlock (kmem_spinlock s1)\<rparr>)
     }"

definition krealloc_align ::
  "'a map_hooks \<Rightarrow> addr \<Rightarrow> u64 \<Rightarrow> u64 \<Rightarrow> 'a kmem_scheme \<Rightarrow> ('a kmem_scheme \<times> addr) option" where
  "krealloc_align hooks ptr sz align s =
     (if ptr = NULL then kmalloc_align hooks sz align s
      else do {
        w \<leftarrow> spinlock_lock (kmem_spinlock s);
        let s1 = s\<lparr>kmem_spinlock := w\<rparr>;
        let kn = ptr - 24;
        let gap_end = kn_next (kmem_mem s1) kn;
        if gap_end \<noteq> NULL \<and> gap_end - ptr \<ge> sz + 24
        then Some (s1\<lparr>kmem_mem := set_sz kn sz (kmem_mem s1)\<rparr>, kn + 24)
        else do {
          (s2, nptr) \<leftarrow> kmalloc_align hooks sz align s1;
          if nptr = NULL then Some (s2, NULL)
          else do {
            (m, _) \<leftarrow> memcpy (kmem_mem s2) nptr ptr (kn_sz (kmem_mem s2) kn);
            s3 \<leftarrow> kfree ptr (s2\<lparr>kmem_mem := m\<rparr>);
            Some (s3\<lparr>kmem_spinlock := spinlock_unlock (kmem_spinlock s3)\<rparr>, nptr)
          }
        }
      })"

definition krealloc ::
  "'a map_hooks \<Rightarrow> addr \<Rightarrow> u64 \<Rightarrow> 'a kmem_scheme \<Rightarrow> ('a kmem_scheme \<times> addr) option" where
  "krealloc hooks ptr sz s = krealloc_align hooks ptr sz 1 s"

section \<open>Header fields and stores\<close>

abbreviation hdr_disj :: "addr \<Rightarrow> addr \<Rightarrow> bool" where
  "hdr_disj p q \<equiv> ranges_disjoint p 24 q 24"

named_theorems hdr_simps "reading header fields after header stores"

lemma in_range_field:
  assumes "in_range (p + of_nat i) 8 x" and "i \<le> 16"
  shows "in_range p 24 x"
proof -
  have "24 \<le> (2 :: nat) ^ 64" by simp
  with assms(2) have "in_range p (i + 8) x"
    using assms(1) in_range_add [of i 8 p x] by simp
  then show ?thesis by (rule in_range_mono) (use assms(2) in simp)
qed

lemma in_range_fields:
  "in_range p 8 x \<Longrightarrow> in_range p 24 x"
  "in_range (p + 8) 8 x \<Longrightarrow> in_range p 24 x"
  "in_range (p + 16) 8 x \<Longrightarrow> in_range p 24 x"
  using in_range_field [of p 0 x] in_range_field [of p 8 x] in_range_field [of p 16 x] by simp_all

lemma set_other [hdr_simps]:
  assumes "\<not> in_range p 24 x"
  shows "set_sz p v m x = m x" "set_next p v m x = m x" "set_prev p v m x = m x"
  using assms by (auto simp: set_sz_def set_next_def set_prev_def dest: in_range_fields
      intro!: store64_other)

lemma hdr_frame:
  assumes "\<And>x. in_range q 24 x \<Longrightarrow> m' x = m x"
  shows "kn_sz m' q = kn_sz m q" "kn_next m' q = kn_next m q" "kn_prev m' q = kn_prev m q"
  using assms in_range_fields [of q]
  by (auto simp: kn_sz_def kn_next_def kn_prev_def intro!: load64_cong)

lemma field_disjoint [simp]:
  "ranges_disjoint p 8 (p + 8) 8" "ranges_disjoint p 8 (p + 16) 8"
  "ranges_disjoint (p + 8) 8 p 8" "ranges_disjoint (p + 8) 8 (p + 16) 8"
  "ranges_disjoint (p + 16) 8 p 8" "ranges_disjoint (p + 16) 8 (p + 8) 8"
  by (simp_all add: ranges_disjoint_def)

lemma kn_set_same [hdr_simps]:
  "kn_sz (set_sz p v m) p = v" "kn_sz (set_next p v m) p = kn_sz m p"
  "kn_sz (set_prev p v m) p = kn_sz m p"
  "kn_next (set_sz p v m) p = kn_next m p" "kn_next (set_next p v m) p = v"
  "kn_next (set_prev p v m) p = kn_next m p"
  "kn_prev (set_sz p v m) p = kn_prev m p" "kn_prev (set_next p v m) p = kn_prev m p"
  "kn_prev (set_prev p v m) p = v"
  by (simp_all add: kn_sz_def kn_next_def kn_prev_def set_sz_def set_next_def set_prev_def mem_simps)

lemma kn_set_other [hdr_simps]:
  assumes "hdr_disj p q"
  shows "kn_sz (set_sz p v m) q = kn_sz m q" "kn_sz (set_next p v m) q = kn_sz m q"
    "kn_sz (set_prev p v m) q = kn_sz m q"
    "kn_next (set_sz p v m) q = kn_next m q" "kn_next (set_next p v m) q = kn_next m q"
    "kn_next (set_prev p v m) q = kn_next m q"
    "kn_prev (set_sz p v m) q = kn_prev m q" "kn_prev (set_next p v m) q = kn_prev m q"
    "kn_prev (set_prev p v m) q = kn_prev m q"
  by (auto intro!: hdr_frame set_other dest: ranges_disjoint_not_both [OF assms])

lemma hdr_disj_notin: "hdr_disj p q \<Longrightarrow> in_range p 24 x \<Longrightarrow> \<not> in_range q 24 x"
  by (blast dest: ranges_disjoint_not_both)

section \<open>The list of blocks\<close>

type_synonym blk = "addr \<times> u64"

definition blk_end :: "blk \<Rightarrow> nat" where
  "blk_end b = unat (fst b) + 24 + unat (snd b)"

fun nxt :: "blk list \<Rightarrow> addr \<Rightarrow> addr" where
  "nxt [] q = q"
| "nxt (b # bs) q = fst b"

fun dll :: "mem \<Rightarrow> addr \<Rightarrow> blk list \<Rightarrow> addr \<Rightarrow> bool" where
  "dll m p [] q = True"
| "dll m p (b # bs) q \<longleftrightarrow>
     kn_sz m (fst b) = snd b \<and> kn_prev m (fst b) = p \<and> kn_next m (fst b) = nxt bs q \<and>
     dll m (fst b) bs q"

definition heap_at :: "mem \<Rightarrow> blk list \<Rightarrow> bool" where
  "heap_at m bs \<longleftrightarrow> dll m NULL bs NULL"

definition blks_ordered :: "blk list \<Rightarrow> bool" where
  "blks_ordered bs \<longleftrightarrow>
     sorted_wrt (\<lambda>x y. blk_end x \<le> unat (fst y)) bs \<and> (\<forall>b \<in> set bs. blk_end b < 2 ^ 64)"

definition heap_ok :: "blk list \<Rightarrow> bool" where
  "heap_ok bs \<longleftrightarrow> bs \<noteq> [] \<and> fst (hd bs) = KMEM_HEAP_BASE \<and> blks_ordered bs"

lemma dll_append:
  "dll m p (bs @ cs) q \<longleftrightarrow> dll m p bs (nxt cs q) \<and> dll m (last (p # map fst bs)) cs q"
proof (induction bs arbitrary: p)
  case Nil
  then show ?case by simp
next
  case (Cons b bs)
  have "nxt (bs @ cs) q = nxt bs (nxt cs q)" by (cases bs) simp_all
  with Cons show ?case by auto
qed

lemma dll_frame:
  assumes "dll m p bs q"
    and "\<And>b x. b \<in> set bs \<Longrightarrow> in_range (fst b) 24 x \<Longrightarrow> m' x = m x"
  shows "dll m' p bs q"
  using assms
proof (induction bs arbitrary: p)
  case Nil
  then show ?case by simp
next
  case (Cons b bs)
  have "dll m' (fst b) bs q" using Cons.prems by (intro Cons.IH) auto
  moreover have "kn_sz m' (fst b) = kn_sz m (fst b)" "kn_next m' (fst b) = kn_next m (fst b)"
    "kn_prev m' (fst b) = kn_prev m (fst b)"
    by (rule hdr_frame, rule Cons.prems(2) [of b], simp_all)+
  ultimately show ?case using Cons.prems(1) by simp
qed

lemma dll_sz: "dll m p bs q \<Longrightarrow> b \<in> set bs \<Longrightarrow> kn_sz m (fst b) = snd b"
  by (induction bs arbitrary: p) auto

lemma blk_hdr_disj:
  assumes "blk_end x \<le> unat (fst y)" and "blk_end y < 2 ^ 64"
  shows "hdr_disj (fst x) (fst y)" "hdr_disj (fst y) (fst x)"
proof -
  show "hdr_disj (fst x) (fst y)"
    by (rule ranges_disjoint_unat) (use assms in \<open>simp_all add: blk_end_def\<close>)
  then show "hdr_disj (fst y) (fst x)" by (simp add: ranges_disjoint_sym)
qed

lemma blks_ordered_append:
  "blks_ordered (bs @ cs) \<longleftrightarrow>
     blks_ordered bs \<and> blks_ordered cs \<and> (\<forall>x \<in> set bs. \<forall>y \<in> set cs. blk_end x \<le> unat (fst y))"
  by (auto simp: blks_ordered_def sorted_wrt_append)

lemma blks_ordered_Cons:
  "blks_ordered (b # bs) \<longleftrightarrow>
     blk_end b < 2 ^ 64 \<and> blks_ordered bs \<and> (\<forall>y \<in> set bs. blk_end b \<le> unat (fst y))"
  by (auto simp: blks_ordered_def)

lemma blks_ordered_hdr_disj:
  assumes "blks_ordered (bs @ b # cs)" and "x \<in> set bs \<union> set cs"
  shows "hdr_disj (fst b) (fst x)" "hdr_disj (fst x) (fst b)"
proof -
  from assms have "(blk_end x \<le> unat (fst b) \<and> blk_end b < 2 ^ 64) \<or>
      (blk_end b \<le> unat (fst x) \<and> blk_end x < 2 ^ 64)"
    by (auto simp: blks_ordered_def sorted_wrt_append)
  then show "hdr_disj (fst b) (fst x)" "hdr_disj (fst x) (fst b)"
    using blk_hdr_disj [of x b] blk_hdr_disj [of b x] by blast+
qed

section \<open>Abstract first fit\<close>

text \<open>
  \<open>align_up p align\<close> is the lowest position from \<open>p\<close> on whose payload, 24 bytes further, is aligned.
  \<open>pick\<close> splits the list after the first block behind which the request fits (after the last block
  when no gap is large enough); \<open>place\<close> inserts the new block there.
\<close>

definition align_up :: "nat \<Rightarrow> nat \<Rightarrow> nat" where
  "align_up p align =
     (if (p + 24) mod align = 0 then p else p + (align - (p + 24) mod align))"

definition fit_pos :: "blk \<Rightarrow> nat \<Rightarrow> nat" where
  "fit_pos b align = align_up (blk_end b) align"

fun pick :: "nat \<Rightarrow> nat \<Rightarrow> blk list \<Rightarrow> blk list \<times> blk list" where
  "pick z align [] = ([], [])"
| "pick z align [b] = ([b], [])"
| "pick z align (b # c # bs) =
     (if fit_pos b align + 24 + z \<le> unat (fst c) then ([b], c # bs)
      else let (xs, ys) = pick z align (c # bs) in (b # xs, ys))"

definition place :: "u64 \<Rightarrow> u64 \<Rightarrow> blk list \<Rightarrow> blk list \<times> addr \<times> bool" where
  "place z align bs =
     (let (xs, ys) = pick (unat z) (unat align) bs;
          g = of_nat (fit_pos (last xs) (unat align))
      in (xs @ (g, z) # ys, g, ys \<noteq> []))"

definition room :: "u64 \<Rightarrow> u64 \<Rightarrow> blk list \<Rightarrow> bool" where
  "room z align bs \<longleftrightarrow> 0 < align \<and> blk_end (last bs) + 24 + unat align + unat z < 2 ^ 64"

lemma align_up_bounds:
  assumes "0 < align"
  shows "p \<le> align_up p align" "align_up p align < p + align" "(align_up p align + 24) mod align = 0"
proof -
  let ?r = "(p + 24) mod align"
  have r: "?r < align" using assms by simp
  show "p \<le> align_up p align" "align_up p align < p + align"
    using r by (auto simp: align_up_def)
  have "(p + (align - ?r) + 24) mod align = ((p + 24) - ?r + align) mod align"
    using r by (intro arg_cong [where f = "\<lambda>x. x mod align"]) simp
  also have "\<dots> = 0" by (simp add: minus_mod_eq_mult_div)
  finally show "(align_up p align + 24) mod align = 0" by (simp add: align_up_def)
qed

lemma align_node_eq:
  assumes "0 < align" and "unat p + 24 + unat align < 2 ^ 64"
  shows "unat (align_node p align) = align_up (unat p) (unat align)"
proof -
  have p24: "unat (p + 24) = unat p + 24" using assms by (intro trans [OF unat_plus_nowrap]) auto
  have pos: "0 < unat align" using assms(1) by (simp add: word_greater_zero_iff unat_gt_0)
  have r: "unat ((p + 24) mod align) = (unat p + 24) mod unat align"
    by (simp add: unat_mod p24)
  let ?r = "(unat p + 24) mod unat align"
  have lt: "?r < unat align" using pos by simp
  have "unat (align - (p + 24) mod align) = unat align - ?r"
    using lt by (subst unat_diff_le) (simp_all add: r)
  moreover have "unat p + (unat align - ?r) < 2 ^ 64" using assms(2) by simp
  ultimately have "unat (p + (align - (p + 24) mod align)) = unat p + (unat align - ?r)"
    by (subst unat_plus_nowrap) simp_all
  moreover have "(p + 24) mod align = 0 \<longleftrightarrow> ?r = 0"
    using r by (metis unat_eq_zero)
  ultimately show ?thesis by (simp add: align_node_def align_up_def)
qed

lemma blk_end_word:
  assumes "blk_end b < 2 ^ 64"
  shows "unat (fst b + 24 + snd b) = blk_end b"
proof -
  have "unat (fst b + 24) = unat (fst b) + 24"
    using assms by (subst unat_plus_nowrap) (simp_all add: blk_end_def)
  then show ?thesis using assms by (subst unat_plus_nowrap) (simp_all add: blk_end_def)
qed

lemma fit_pos_word:
  assumes "0 < align" and "blk_end b + 24 + unat align < 2 ^ 64"
  shows "unat (align_node (fst b + 24 + snd b) align) = fit_pos b (unat align)"
    and "align_node (fst b + 24 + snd b) align = of_nat (fit_pos b (unat align))"
proof -
  have "unat (fst b + 24 + snd b) = blk_end b" using assms(2) by (intro blk_end_word) simp
  then show *: "unat (align_node (fst b + 24 + snd b) align) = fit_pos b (unat align)"
    using align_node_eq [of align "fst b + 24 + snd b"] assms by (simp add: fit_pos_def)
  show "align_node (fst b + 24 + snd b) align = of_nat (fit_pos b (unat align))"
    unfolding * [symmetric] by simp
qed

lemma pick_split:
  assumes "pick z align bs = (xs, ys)" and "bs \<noteq> []"
  shows "bs = xs @ ys" "xs \<noteq> []"
    "ys \<noteq> [] \<Longrightarrow> fit_pos (last xs) align + 24 + z \<le> unat (fst (hd ys))"
proof -
  have "bs = xs @ ys \<and> xs \<noteq> [] \<and>
      (ys \<noteq> [] \<longrightarrow> fit_pos (last xs) align + 24 + z \<le> unat (fst (hd ys)))"
    using assms
  proof (induction z align bs arbitrary: xs rule: pick.induct)
    case (3 z align b c bs)
    then show ?case by (auto split: if_splits prod.splits)
  qed auto
  then show "bs = xs @ ys" "xs \<noteq> []"
    "ys \<noteq> [] \<Longrightarrow> fit_pos (last xs) align + 24 + z \<le> unat (fst (hd ys))" by auto
qed

lemma ordered_end_le_last:
  assumes "blks_ordered bs" and "b \<in> set bs"
  shows "blk_end b \<le> blk_end (last bs)"
proof -
  from assms(2) have "bs \<noteq> []" by auto
  then obtain cs where bs: "bs = cs @ [last bs]" by (metis append_butlast_last_id)
  show ?thesis
  proof (cases "b = last bs")
    case False
    with assms(2) bs have "b \<in> set cs" by (metis UnE empty_iff empty_set list.set(2) set_append singletonD)
    then have "blk_end b \<le> unat (fst (last bs))"
      using assms(1) bs by (metis blks_ordered_append list.set_intros(1))
    then show ?thesis by (simp add: blk_end_def)
  qed simp
qed

lemma kmalloc_scan_pick:
  assumes "dll m p bs NULL" and "blks_ordered bs" and "bs \<noteq> []" and "NULL \<notin> fst ` set bs"
    and "room z align bs" and "pick (unat z) (unat align) bs = (xs, ys)"
  shows "kmalloc_scan m z align (fst (hd bs)) = Some (fst (last xs),
    if ys = [] then None else Some (of_nat (fit_pos (last xs) (unat align))))"
  using assms
proof (induction bs arbitrary: p xs)
  case Nil
  then show ?case by simp
next
  case (Cons b bs)
  note prems = Cons.prems
  show ?case
  proof (cases bs)
    case Nil
    with prems show ?thesis by (auto simp: kmalloc_scan.simps)
  next
    case (Cons c cs)
    let ?g = "align_node (fst b + 24 + snd b) align"
    from prems(1,4) Cons have fields: "kn_sz m (fst b) = snd b" "kn_next m (fst b) = fst c"
      "dll m (fst b) bs NULL" "fst c \<noteq> NULL" by auto
    have ends: "blk_end b \<le> blk_end (last bs)"
      using ordered_end_le_last [OF prems(2), of b] Cons by simp
    have al: "0 < align" and rm: "blk_end (last bs) + 24 + unat align + unat z < 2 ^ 64"
      using prems(5) Cons by (simp_all add: room_def)
    have g: "unat ?g = fit_pos b (unat align)" "?g = of_nat (fit_pos b (unat align))"
      using fit_pos_word [of align b] al rm ends by simp_all
    have zu: "unat (z + 24) = unat z + 24"
      using rm by (subst unat_plus_nowrap) simp_all
    have test: "fst c > ?g \<and> fst c - ?g \<ge> z + 24 \<longleftrightarrow>
        fit_pos b (unat align) + 24 + unat z \<le> unat (fst c)"
      using g(1) zu by (auto simp: word_less_nat_alt word_le_nat_alt unat_diff_le)
    show ?thesis
    proof (cases "fit_pos b (unat align) + 24 + unat z \<le> unat (fst c)")
      case True
      with prems(6) Cons have "xs = [b]" "ys = bs" by auto
      with True test fields al g(2) Cons show ?thesis
        by (subst kmalloc_scan.simps) (simp add: Let_def)
    next
      case False
      with prems(6) Cons obtain xs' where xs': "pick (unat z) (unat align) bs = (xs', ys)"
        "xs = b # xs'" by (auto split: prod.splits)
      then have "xs' \<noteq> []" using pick_split(2) Cons by blast
      moreover have "kmalloc_scan m z align (fst (hd bs)) = Some (fst (last xs'),
          if ys = [] then None else Some (of_nat (fit_pos (last xs') (unat align))))"
        using prems Cons fields xs'(1)
        by (intro Cons.IH [of "fst b"]) (auto simp: blks_ordered_Cons room_def)
      ultimately show ?thesis
        using False test fields al Cons xs'(2)
        by (subst kmalloc_scan.simps) (auto simp: Let_def)
    qed
  qed
qed

section \<open>Linking and unlinking\<close>

definition keeps_payload :: "blk list \<Rightarrow> mem \<Rightarrow> mem \<Rightarrow> bool" where
  "keeps_payload bs m m' \<longleftrightarrow> (\<forall>x. (\<forall>b \<in> set bs. \<not> in_range (fst b) 24 x) \<longrightarrow> m' x = m x)"

lemma link_last_heap:
  assumes "heap_at m (bs @ [b])" and "blks_ordered (bs @ [b, n])"
  shows "heap_at (link_last (fst b) (fst n) (snd n) m) (bs @ [b, n])"
    and "keeps_payload (bs @ [b, n]) m (link_last (fst b) (fst n) (snd n) m)"
    and "kn_next (link_last (fst b) (fst n) (snd n) m) (fst b) = fst n"
proof -
  let ?m = "link_last (fst b) (fst n) (snd n) m"
  have bn: "hdr_disj (fst b) (fst n)" "hdr_disj (fst n) (fst b)"
    using blks_ordered_hdr_disj [of "bs @ [b]" n "[]" b] assms(2) by auto
  have eq: "?m = set_prev (fst n) (fst b) (set_next (fst n) NULL (set_sz (fst n) (snd n)
      (set_next (fst b) (fst n) m)))"
    using bn by (simp add: link_last_def Let_def hdr_simps)
  have other: "?m x = m x" if "\<not> in_range (fst b) 24 x" "\<not> in_range (fst n) 24 x" for x
    using that by (simp add: eq hdr_simps)
  then show "keeps_payload (bs @ [b, n]) m ?m" by (simp add: keeps_payload_def)
  show "kn_next ?m (fst b) = fst n" using bn by (simp add: eq hdr_simps)
  from assms(1) have pre: "dll m NULL bs (fst b)" and b: "dll m (last (NULL # map fst bs)) [b] NULL"
    by (simp_all add: heap_at_def dll_append)
  have "dll ?m NULL bs (fst b)"
  proof (rule dll_frame [OF pre])
    fix a x
    assume a: "a \<in> set bs" and x: "in_range (fst a) 24 x"
    have "hdr_disj (fst a) (fst b)" "hdr_disj (fst a) (fst n)"
      using blks_ordered_hdr_disj(2) [of bs b "[n]" a] blks_ordered_hdr_disj(2) [of "bs @ [b]" n "[]" a]
        assms(2) a by auto
    with x show "?m x = m x" by (blast intro: other dest: ranges_disjoint_not_both)
  qed
  with b bn show "heap_at ?m (bs @ [b, n])"
    by (simp add: heap_at_def dll_append eq hdr_simps)
qed

lemma link_in_gap_heap:
  assumes "heap_at m (bs @ b # c # cs)" and "blks_ordered (bs @ b # n # c # cs)"
  shows "heap_at (link_in_gap (fst b) (fst n) (snd n) m) (bs @ b # n # c # cs)"
    and "keeps_payload (bs @ b # n # c # cs) m (link_in_gap (fst b) (fst n) (snd n) m)"
    and "kn_next (link_in_gap (fst b) (fst n) (snd n) m) (fst b) = fst n"
proof -
  let ?m = "link_in_gap (fst b) (fst n) (snd n) m"
  have disj: "hdr_disj (fst b) (fst n)" "hdr_disj (fst n) (fst b)" "hdr_disj (fst b) (fst c)"
    "hdr_disj (fst c) (fst b)" "hdr_disj (fst n) (fst c)" "hdr_disj (fst c) (fst n)"
    using blks_ordered_hdr_disj [of "bs @ [b]" n "c # cs" b] blks_ordered_hdr_disj [of "bs @ [b]" n "c # cs" c]
      blks_ordered_hdr_disj [of bs b "n # c # cs" c] assms(2) by auto
  from assms(1) have pre: "dll m NULL bs (fst b)" and post: "dll m (fst c) cs NULL"
    and b: "kn_sz m (fst b) = snd b" "kn_prev m (fst b) = last (NULL # map fst bs)"
      "kn_next m (fst b) = fst c"
    and c: "kn_sz m (fst c) = snd c" "kn_next m (fst c) = nxt cs NULL"
    by (auto simp: heap_at_def dll_append)
  have eq: "?m = set_prev (fst n) (fst b) (set_next (fst n) (fst c) (set_sz (fst n) (snd n)
      (set_prev (fst c) (fst n) (set_next (fst b) (fst n) m))))"
    using disj b(3) by (simp add: link_in_gap_def Let_def hdr_simps)
  have other: "?m x = m x"
    if "\<not> in_range (fst b) 24 x" "\<not> in_range (fst n) 24 x" "\<not> in_range (fst c) 24 x" for x
    using that by (simp add: eq hdr_simps)
  then show "keeps_payload (bs @ b # n # c # cs) m ?m" by (simp add: keeps_payload_def)
  show "kn_next ?m (fst b) = fst n" using disj by (simp add: eq hdr_simps)
  have rest: "?m x = m x" if a: "a \<in> set bs \<union> set cs" and x: "in_range (fst a) 24 x" for a x
  proof -
    have "hdr_disj (fst a) (fst b)" "hdr_disj (fst a) (fst n)" "hdr_disj (fst a) (fst c)"
      using blks_ordered_hdr_disj(2) [of bs b "n # c # cs" a]
        blks_ordered_hdr_disj(2) [of "bs @ [b]" n "c # cs" a]
        blks_ordered_hdr_disj(2) [of "bs @ [b, n]" c cs a] assms(2) a by auto
    with x show ?thesis by (blast intro: other dest: ranges_disjoint_not_both)
  qed
  have "dll ?m NULL bs (fst b)" "dll ?m (fst c) cs NULL"
    using rest by (blast intro: dll_frame [OF pre] dll_frame [OF post])+
  with b c disj show "heap_at ?m (bs @ b # n # c # cs)"
    by (simp add: heap_at_def dll_append eq hdr_simps)
qed

lemma unlink_node_heap:
  assumes "heap_at m (bs @ a # b # cs)" and "blks_ordered (bs @ a # b # cs)"
    and "NULL \<notin> fst ` set (bs @ a # b # cs)"
  shows "heap_at (unlink_node (fst b) m) (bs @ a # cs)"
    and "keeps_payload (bs @ a # b # cs) m (unlink_node (fst b) m)"
proof -
  let ?m = "unlink_node (fst b) m"
  have ab: "hdr_disj (fst a) (fst b)" "hdr_disj (fst b) (fst a)"
    using blks_ordered_hdr_disj [of bs a "b # cs" b] assms(2) by auto
  have ca: "hdr_disj (fst a) (fst x)" "hdr_disj (fst b) (fst x)" "hdr_disj (fst x) (fst a)"
    "hdr_disj (fst x) (fst b)" if "x \<in> set bs \<union> set cs" for x
    using blks_ordered_hdr_disj [of bs a "b # cs" x] blks_ordered_hdr_disj [of "bs @ [a]" b cs x]
      assms(2) that by auto
  from assms(1) have pre: "dll m NULL bs (fst a)"
    and a: "kn_sz m (fst a) = snd a" "kn_prev m (fst a) = last (NULL # map fst bs)"
    and b: "kn_prev m (fst b) = fst a" "kn_next m (fst b) = nxt cs NULL"
    and post: "dll m (fst b) cs NULL"
    by (auto simp: heap_at_def dll_append)
  have nz: "fst a \<noteq> NULL" using assms(3) by force
  show "heap_at ?m (bs @ a # cs)"
  proof (cases cs)
    case Nil
    with ab b nz have eq: "?m = set_next (fst a) NULL m"
      by (simp add: unlink_node_def Let_def hdr_simps)
    have "dll ?m NULL bs (fst a)"
    proof (rule dll_frame [OF pre])
      fix d x
      assume "d \<in> set bs" "in_range (fst d) 24 x"
      then have "\<not> in_range (fst a) 24 x" using hdr_disj_notin [OF ca(3) [of d]] by simp
      then show "?m x = m x" by (simp add: eq hdr_simps)
    qed
    with a Nil show ?thesis by (simp add: heap_at_def dll_append eq hdr_simps)
  next
    case (Cons c ds)
    then have cb: "hdr_disj (fst b) (fst c)" "hdr_disj (fst c) (fst b)"
      and cc: "hdr_disj (fst a) (fst c)" "hdr_disj (fst c) (fst a)" using ca [of c] by simp_all
    have "fst c \<noteq> NULL" using assms(3) Cons by force
    with ab b nz Cons have eq: "?m = set_prev (fst c) (fst a) (set_next (fst a) (fst c) m)"
      by (simp add: unlink_node_def Let_def hdr_simps)
    have rest: "?m x = m x" if d: "d \<in> set bs \<union> set ds" and x: "in_range (fst d) 24 x" for d x
    proof -
      have "hdr_disj (fst d) (fst a)" using ca(3) [of d] d Cons by auto
      moreover have "hdr_disj (fst d) (fst c)"
        using blks_ordered_hdr_disj(2) [of "bs @ [a, b]" c ds d] assms(2) Cons d by auto
      ultimately show ?thesis
        using hdr_disj_notin [OF _ x] by (simp add: eq hdr_simps)
    qed
    have "dll ?m NULL bs (fst a)" "dll ?m (fst c) ds NULL"
    proof -
      show "dll ?m NULL bs (fst a)" by (rule dll_frame [OF pre]) (rule rest, simp_all)
      have "dll m (fst c) ds NULL" using post Cons by simp
      then show "dll ?m (fst c) ds NULL" by (rule dll_frame) (rule rest, simp_all)
    qed
    with a post Cons cc show ?thesis by (simp add: heap_at_def dll_append eq hdr_simps)
  qed
  show "keeps_payload (bs @ a # b # cs) m ?m"
    using ab b nz by (cases cs) (auto simp: keeps_payload_def unlink_node_def Let_def hdr_simps)
qed

section \<open>Refinement of the abstract allocator\<close>

text \<open>
  What the heap needs from the mapping functions of the virtual memory module: the call returns,
  gives the lock back as it found it and leaves the block list in place.
\<close>

definition hooks_ok :: "'a map_hooks \<Rightarrow> bool" where
  "hooks_ok hooks \<longleftrightarrow>
     (case hooks of None \<Rightarrow> True
      | Some (f, u) \<Rightarrow> u \<noteq> 0 \<and> (\<forall>s a n fl. \<exists>s'. f s a n fl = Some s' \<and>
          kmem_spinlock s' = kmem_spinlock s \<and>
          (\<forall>bs. heap_at (kmem_mem s) bs \<longrightarrow> heap_at (kmem_mem s') bs)))"

definition kmem_inv :: "blk list \<Rightarrow> 'a kmem_scheme \<Rightarrow> bool" where
  "kmem_inv bs s \<longleftrightarrow> heap_at (kmem_mem s) bs \<and> heap_ok bs"

lemma grow_heap_ok:
  assumes "hooks_ok hooks" and "heap_at (kmem_mem s) bs"
  obtains s' where "grow_heap hooks e s = Some s'" "kmem_spinlock s' = kmem_spinlock s"
    "heap_at (kmem_mem s') bs" "hooks = None \<Longrightarrow> kmem_mem s' = kmem_mem s"
proof (cases hooks)
  case None
  with assms show thesis
    by (intro that [of "if e > occupied_to s then s\<lparr>occupied_to := e\<rparr> else s"])
      (simp_all add: grow_heap_def)
next
  case (Some fu)
  obtain f u where fu: "fu = (f, u)" by force
  let ?a = "occupied_to s - occupied_to s mod u"
  obtain s1 where s1: "f s (?a + u) (e - ?a) VMEM_FLAG_SIZE_IN_BYTES = Some s1"
    "kmem_spinlock s1 = kmem_spinlock s" "heap_at (kmem_mem s1) bs"
  proof -
    have "\<exists>s'. f s (?a + u) (e - ?a) VMEM_FLAG_SIZE_IN_BYTES = Some s' \<and>
        kmem_spinlock s' = kmem_spinlock s \<and>
        (\<forall>bs. heap_at (kmem_mem s) bs \<longrightarrow> heap_at (kmem_mem s') bs)"
      using assms(1) Some fu by (simp add: hooks_ok_def)
    with that assms(2) show thesis by blast
  qed
  have u: "u \<noteq> 0" using assms(1) Some fu by (simp add: hooks_ok_def)
  show thesis
  proof (cases "e > occupied_to s")
    case True
    with s1 u Some fu assms(2) show thesis
      by (intro that [of "(if e - ?a > u then s1 else s)\<lparr>occupied_to := e + (u - e mod u)\<rparr>"])
        (simp_all add: grow_heap_def Let_def)
  next
    case False
    with Some assms(2) show thesis by (intro that [of s]) (simp_all add: grow_heap_def)
  qed
qed

lemma heap_ok_nonnull:
  assumes "heap_ok bs"
  shows "NULL \<notin> fst ` set bs"
proof
  assume "NULL \<in> fst ` set bs"
  then obtain b where b: "b \<in> set bs" "fst b = NULL" by auto
  from assms obtain cs a where bs: "bs = a # cs" "fst a = KMEM_HEAP_BASE" "blks_ordered bs"
    by (cases bs) (auto simp: heap_ok_def)
  have "unat KMEM_HEAP_BASE = 0x200000" by (simp add: KMEM_HEAP_BASE_def)
  moreover from b bs have "b = a \<or> blk_end a \<le> unat (fst b)"
    by (auto simp: blks_ordered_Cons)
  ultimately show False using b bs by (auto simp: blk_end_def)
qed

lemma place_heap_ok:
  assumes "heap_ok bs" and "room z align bs" and "place z align bs = (bs', g, gap)"
  obtains xs ys where "bs = xs @ ys" "xs \<noteq> []" "bs' = xs @ (g, z) # ys" "gap = (ys \<noteq> [])"
    "pick (unat z) (unat align) bs = (xs, ys)" "heap_ok bs'"
    "unat g = fit_pos (last xs) (unat align)" "(unat g + 24) mod unat align = 0"
    "align_node (fst (last xs) + 24 + snd (last xs)) align = g"
proof -
  from assms(1) have ne: "bs \<noteq> []" and ord: "blks_ordered bs" by (simp_all add: heap_ok_def)
  obtain xs ys where pk: "pick (unat z) (unat align) bs = (xs, ys)" by force
  note sp = pick_split [OF pk ne]
  from assms(2) have al: "0 < align" and rm: "blk_end (last bs) + 24 + unat align + unat z < 2 ^ 64"
    by (simp_all add: room_def)
  have "last xs \<in> set bs" using sp(1,2) by simp
  then have le: "blk_end (last xs) \<le> blk_end (last bs)" by (rule ordered_end_le_last [OF ord])
  have g_eq: "align_node (fst (last xs) + 24 + snd (last xs)) align = g"
    using fit_pos_word(2) [of align "last xs"] al rm le assms(3) pk by (auto simp: place_def Let_def)
  then have g: "unat g = fit_pos (last xs) (unat align)"
    using fit_pos_word(1) [of align "last xs"] al rm le by auto
  have pos: "0 < unat align" using al by (simp add: word_less_nat_alt)
  note bounds = align_up_bounds [OF pos, of "blk_end (last xs)"]
  have n_end: "blk_end (g, z) < 2 ^ 64"
    using g bounds(2) le rm by (simp add: blk_end_def fit_pos_def)
  have before: "blk_end x \<le> unat g" if "x \<in> set xs" for x
    using ordered_end_le_last [of xs x] that ord sp(1) g bounds(1)
    by (simp add: blks_ordered_append fit_pos_def)
  have after: "blk_end (g, z) \<le> unat (fst y)" if y: "y \<in> set ys" for y
  proof -
    from y obtain c cs where ys: "ys = c # cs" by (cases ys) auto
    then have "blk_end (g, z) \<le> unat (fst c)" using sp(3) g by (simp add: blk_end_def)
    moreover have "y = c \<or> blk_end c \<le> unat (fst y)"
      using ord sp(1) ys y by (auto simp: blks_ordered_append blks_ordered_Cons)
    ultimately show ?thesis by (auto simp: blk_end_def)
  qed
  have bs': "bs' = xs @ (g, z) # ys" "gap = (ys \<noteq> [])"
    using assms(3) pk by (auto simp: place_def Let_def)
  have "blks_ordered bs'"
    using ord sp(1) n_end before after by (auto simp: bs' blks_ordered_append blks_ordered_Cons)
  then have "heap_ok bs'" using assms(1) sp(1,2) bs' by (simp add: heap_ok_def)
  with sp bs' pk g g_eq bounds(3) show thesis by (intro that [of xs ys]) (simp_all add: fit_pos_def)
qed

lemma place_scan:
  assumes inv: "kmem_inv bs s" and room: "room z align bs" and pl: "place z align bs = (bs', g, gap)"
  obtains ws b ys where "bs = ws @ b # ys" "bs' = ws @ b # (g, z) # ys" "gap = (ys \<noteq> [])" "heap_ok bs'" "align \<noteq> 0"
    "kmalloc_scan (kmem_mem s) z align KMEM_HEAP_BASE = Some (fst b, if gap then Some g else None)"
    "kn_sz (kmem_mem s) (fst b) = snd b" "align_node (fst b + 24 + snd b) align = g"
proof -
  let ?m = "kmem_mem s"
  from inv have at: "heap_at ?m bs" and ok: "heap_ok bs" by (simp_all add: kmem_inv_def)
  obtain xs ys where d: "bs = xs @ ys" "xs \<noteq> []" "bs' = xs @ (g, z) # ys" "gap = (ys \<noteq> [])"
    "pick (unat z) (unat align) bs = (xs, ys)" "heap_ok bs'"
    "unat g = fit_pos (last xs) (unat align)"
    "align_node (fst (last xs) + 24 + snd (last xs)) align = g"
    using place_heap_ok [OF ok room pl] by metis
  obtain ws b where xs: "xs = ws @ [b]" using d(2) by (metis append_butlast_last_id)
  have g: "of_nat (fit_pos b (unat align)) = g" 
  proof -
    have "of_nat (unat g) = g" by simp
    then show ?thesis using d(7) xs by (simp only: last_snoc)
  qed
  have "fst (hd bs) = KMEM_HEAP_BASE" using ok by (simp add: heap_ok_def)
  then have scan: "kmalloc_scan ?m z align KMEM_HEAP_BASE =
      Some (fst b, if ys = [] then None else Some g)"
    using kmalloc_scan_pick [of ?m NULL bs z align xs ys] at ok room d(5) heap_ok_nonnull [OF ok]
    by (simp add: heap_at_def heap_ok_def xs g)
  have al: "align \<noteq> 0" using room by (auto simp: room_def)
  have sz: "kn_sz ?m (fst b) = snd b"
    using at d(1) xs dll_sz [of ?m NULL bs NULL b] by (simp add: heap_at_def)
  show thesis using that [of ws b ys] d xs scan al sz by simp
qed

text \<open>Placing a block in a gap does not use the mapping functions.\<close>

lemma kmalloc_align_gap:
  assumes lock: "kmem_spinlock s = 0" and inv: "kmem_inv bs s" and room: "room z align bs"
    and pl: "place z align bs = (bs', g, True)"
  obtains s' where "kmalloc_align hooks z align s = Some (s', g + 24)" "kmem_inv bs' s'"
    "kmem_spinlock s' = 1" "keeps_payload bs' (kmem_mem s) (kmem_mem s')"
proof -
  let ?m = "kmem_mem s"
  obtain ws b ys where d0: "bs = ws @ b # ys" "bs' = ws @ b # (g, z) # ys" "True = (ys \<noteq> [])" "heap_ok bs'" "align \<noteq> 0"
    "kmalloc_scan ?m z align KMEM_HEAP_BASE = Some (fst b, if True then Some g else None)"
    using place_scan [OF inv room pl] .
  have d: "bs = ws @ b # ys" "bs' = ws @ b # (g, z) # ys" "ys \<noteq> []" "heap_ok bs'" "align \<noteq> 0"
    "kmalloc_scan ?m z align KMEM_HEAP_BASE = Some (fst b, Some g)"
    using d0 by simp_all
  then obtain c cs where ys: "ys = c # cs" by (cases ys) auto
  have at: "heap_at ?m bs" and ord: "blks_ordered bs'" using inv d(4) by (simp_all add: kmem_inv_def heap_ok_def)
  note lg = link_in_gap_heap [of ?m ws b c cs "(g, z)", folded ys, folded d(1,2), OF at ord, simplified]
  show thesis
    using lock d(4,6) lg
    by (intro that [of "s\<lparr>kmem_spinlock := 1, kmem_mem := link_in_gap (fst b) g z ?m\<rparr>"])
      (auto simp: kmalloc_align_def Let_def kmem_inv_def)
qed

text \<open>Behind the last block the call ends as \<^const>\<open>grow_heap\<close> does.\<close>

lemma kmalloc_align_last:
  assumes lock: "kmem_spinlock s = 0" and inv: "kmem_inv bs s" and room: "room z align bs"
    and pl: "place z align bs = (bs', g, False)"
  shows "grow_heap hooks (g + 24 + z) (s\<lparr>kmem_spinlock := 1\<rparr>) = None \<Longrightarrow> kmalloc_align hooks z align s = None"
    and "grow_heap hooks (g + 24 + z) (s\<lparr>kmem_spinlock := 1\<rparr>) = Some s2 \<Longrightarrow> heap_at (kmem_mem s2) bs \<Longrightarrow>
      \<exists>s'. kmalloc_align hooks z align s = Some (s', g + 24) \<and> kmem_inv bs' s' \<and> kmem_spinlock s' = 0 \<and>
        keeps_payload bs' (kmem_mem s2) (kmem_mem s')"
proof -
  obtain ws b ys where d0: "bs = ws @ b # ys" "bs' = ws @ b # (g, z) # ys" "False = (ys \<noteq> [])" "heap_ok bs'" "align \<noteq> 0"
    "kmalloc_scan (kmem_mem s) z align KMEM_HEAP_BASE = Some (fst b, if False then Some g else None)"
    "kn_sz (kmem_mem s) (fst b) = snd b" "align_node (fst b + 24 + snd b) align = g"
    using place_scan [OF inv room pl] .
  have d: "bs = ws @ [b]" "bs' = ws @ [b, (g, z)]" "heap_ok bs'" "align \<noteq> 0"
    "kmalloc_scan (kmem_mem s) z align KMEM_HEAP_BASE = Some (fst b, None)"
    "kn_sz (kmem_mem s) (fst b) = snd b" "align_node (fst b + 24 + snd b) align = g"
    using d0 by simp_all
  show "kmalloc_align hooks z align s = None" if "grow_heap hooks (g + 24 + z) (s\<lparr>kmem_spinlock := 1\<rparr>) = None"
    using that lock d(4-7) by (simp add: kmalloc_align_def Let_def)
  assume s2: "grow_heap hooks (g + 24 + z) (s\<lparr>kmem_spinlock := 1\<rparr>) = Some s2" "heap_at (kmem_mem s2) bs"
  have ord: "blks_ordered bs'" using d(3) by (simp add: heap_ok_def)
  note ll = link_last_heap [of "kmem_mem s2" ws b "(g, z)", folded d(1,2), OF s2(2) ord, simplified]
  show "\<exists>s'. kmalloc_align hooks z align s = Some (s', g + 24) \<and> kmem_inv bs' s' \<and> kmem_spinlock s' = 0 \<and>
      keeps_payload bs' (kmem_mem s2) (kmem_mem s')"
    using lock d(3-7) s2(1) ll
    by (intro exI [of _ "s2\<lparr>kmem_mem := link_last (fst b) g z (kmem_mem s2), kmem_spinlock := spinlock_unlock (kmem_spinlock s2)\<rparr>"])
      (simp add: kmalloc_align_def Let_def kmem_inv_def spinlock_unlock_def)
qed

lemma kmalloc_align_place:
  assumes lock: "kmem_spinlock s = 0" and inv: "kmem_inv bs s" and room: "room z align bs"
    and hooks: "hooks_ok hooks" and pl: "place z align bs = (bs', g, gap)"
  obtains s' where "kmalloc_align hooks z align s = Some (s', g + 24)" "kmem_inv bs' s'"
    "kmem_spinlock s' = (if gap then 1 else 0)"
    "hooks = None \<or> gap \<Longrightarrow> keeps_payload bs' (kmem_mem s) (kmem_mem s')"
proof (cases gap)
  case True
  then show thesis using kmalloc_align_gap [OF lock inv room, of bs' g hooks] pl that by auto
next
  case False
  have at: "heap_at (kmem_mem (s\<lparr>kmem_spinlock := 1\<rparr>)) bs" using inv by (simp add: kmem_inv_def)
  obtain s2 where "grow_heap hooks (g + 24 + z) (s\<lparr>kmem_spinlock := 1\<rparr>) = Some s2" "heap_at (kmem_mem s2) bs"
    "hooks = None \<Longrightarrow> kmem_mem s2 = kmem_mem s"
    using grow_heap_ok [OF hooks at, of "g + 24 + z"] by auto
  then show thesis
    using kmalloc_align_last(2) [OF lock inv room, of bs' g hooks s2] pl False that by (cases "hooks = None") fastforce+
qed

text \<open>
  When the block goes behind the last one and ends beyond the mapped memory, the mapping function is called
  with the lock held: \<open>hook_call\<close> is that call.
\<close>

definition hook_needed :: "'a map_hooks \<Rightarrow> addr \<Rightarrow> 'a kmem_scheme \<Rightarrow> bool" where
  "hook_needed hooks e s \<longleftrightarrow>
     (case hooks of None \<Rightarrow> False
      | Some (_, u) \<Rightarrow> e > occupied_to s \<and> (u = 0 \<or> e - (occupied_to s - occupied_to s mod u) > u))"

definition hook_call :: "'a map_hooks \<Rightarrow> addr \<Rightarrow> 'a kmem_scheme \<Rightarrow> 'a kmem_scheme option" where
  "hook_call hooks e s =
     (case hooks of None \<Rightarrow> Some s
      | Some (f, u) \<Rightarrow> if u = 0 then None else f s (occupied_to s - occupied_to s mod u + u)
          (e - (occupied_to s - occupied_to s mod u)) VMEM_FLAG_SIZE_IN_BYTES)"

lemma grow_heap_hook:
  "\<not> hook_needed hooks e s \<Longrightarrow> \<exists>o'. grow_heap hooks e s = Some (s\<lparr>occupied_to := o'\<rparr>)"
  "hook_needed hooks e s \<Longrightarrow> hook_call hooks e s = None \<Longrightarrow> grow_heap hooks e s = None"
  "hook_needed hooks e s \<Longrightarrow> hook_call hooks e s = Some s2 \<Longrightarrow> \<exists>o'. grow_heap hooks e s = Some (s2\<lparr>occupied_to := o'\<rparr>)"
proof -
  assume "\<not> hook_needed hooks e s"
  then show "\<exists>o'. grow_heap hooks e s = Some (s\<lparr>occupied_to := o'\<rparr>)"
    by (cases "e > occupied_to s")
      (auto simp: hook_needed_def grow_heap_def Let_def split: option.splits intro: exI [of _ "occupied_to s"])
qed (auto simp: hook_needed_def hook_call_def grow_heap_def Let_def split: option.splits if_splits prod.splits)

definition release :: "addr \<Rightarrow> blk list \<Rightarrow> blk list" where
  "release p bs = filter (\<lambda>b. fst b \<noteq> p) bs"

lemma ordered_distinct: "blks_ordered (ws @ b # cs) \<Longrightarrow> x \<in> set ws \<union> set cs \<Longrightarrow> fst x \<noteq> fst b"
  by (auto simp: blks_ordered_append blks_ordered_Cons blk_end_def)

lemma release_split: "blks_ordered (ws @ b # cs) \<Longrightarrow> release (fst b) (ws @ b # cs) = ws @ cs"
  using ordered_distinct [of ws b cs] by (simp add: release_def filter_id_conv)

lemma set_tl_subset: "set (tl bs) \<subseteq> set bs"
  by (cases bs) auto

lemma tl_split:
  assumes "b \<in> set (tl bs)"
  obtains ws a cs where "bs = ws @ a # b # cs"
proof -
  from assms obtain h us cs where bs: "bs = h # us @ b # cs"
    by (cases bs) (auto simp: in_set_conv_decomp)
  show thesis
  proof (cases us rule: rev_cases)
    case Nil
    with bs that [of "[]" h cs] show thesis by simp
  next
    case (snoc vs a)
    with bs that [of "h # vs" a cs] show thesis by simp
  qed
qed

lemma kfree_release:
  assumes lock: "kmem_spinlock s = 0" and inv: "kmem_inv bs s" and b: "b \<in> set (tl bs)"
  obtains s' where "kfree (fst b + 24) s = Some s'" "kmem_inv (release (fst b) bs) s'"
    "kmem_spinlock s' = 0" "occupied_to s' = occupied_to s"
    "keeps_payload bs (kmem_mem s) (kmem_mem s')"
proof -
  obtain ws a cs where bs: "bs = ws @ a # b # cs" using tl_split [OF b] .
  from inv have at: "heap_at (kmem_mem s) bs" and ok: "heap_ok bs" by (simp_all add: kmem_inv_def)
  then have ord: "blks_ordered bs" by (simp add: heap_ok_def)
  have rel: "release (fst b) bs = ws @ a # cs"
    using release_split [of "ws @ [a]" b cs] ord bs by simp
  have "heap_ok (ws @ a # cs)"
    using ok by (cases ws) (auto simp: heap_ok_def bs blks_ordered_append blks_ordered_Cons)
  moreover note unlink_node_heap [OF at [unfolded bs] ord [unfolded bs]
      heap_ok_nonnull [OF ok, unfolded bs], folded bs]
  ultimately show thesis
    using lock by (intro that [of "s\<lparr>kmem_spinlock := 0, kmem_mem := unlink_node (fst b) (kmem_mem s)\<rparr>"])
      (simp_all add: kfree_def Let_def kmem_inv_def rel spinlock_unlock_def)
qed

lemma place_release:
  assumes "heap_ok bs" and "room z align bs" and "place z align bs = (bs', g, gap)"
  shows "release g bs' = bs" and "(g, z) \<in> set (tl bs')" and "set bs' = insert (g, z) (set bs)"
    and "(g, z) \<notin> set bs" and "hd bs' = hd bs"
proof -
  obtain xs ys where d: "bs = xs @ ys" "xs \<noteq> []" "bs' = xs @ (g, z) # ys" "heap_ok bs'"
    using place_heap_ok [OF assms] by metis
  then have ord: "blks_ordered (xs @ (g, z) # ys)" by (simp add: heap_ok_def)
  show "release g bs' = bs" using release_split [OF ord] d by simp
  show "(g, z) \<in> set (tl bs')" using d by (cases xs) auto
  show "set bs' = insert (g, z) (set bs)" "hd bs' = hd bs" using d by auto
  show "(g, z) \<notin> set bs" using ordered_distinct [OF ord] d(1) by force
qed

lemma locked_never_returns:
  assumes "kmem_spinlock s \<noteq> 0"
  shows "kmalloc_align hooks z align s = None" "kfree p s = None" "krealloc_align hooks p z align s = None"
  using assms by (simp_all add: kmalloc_align_def kfree_def krealloc_align_def)

section \<open>The allocator as its clients see it\<close>

text \<open>
  The contract the rest of the kernel relies on, in terms of the set of live payload ranges:
  \<open>ready\<close> is the condition under which a call returns at all.
\<close>

locale block_allocator =
  fixes alloc :: "u64 \<Rightarrow> u64 \<Rightarrow> 's \<Rightarrow> ('s \<times> addr) option"
    and free :: "addr \<Rightarrow> 's \<Rightarrow> 's option"
    and live :: "(addr \<times> u64) set \<Rightarrow> 's \<Rightarrow> bool"
    and ready :: "'s \<Rightarrow> bool"
    and fits :: "u64 \<Rightarrow> u64 \<Rightarrow> 's \<Rightarrow> bool"
  assumes alloc_ok: "live L s \<Longrightarrow> ready s \<Longrightarrow> fits z align s \<Longrightarrow>
      \<exists>s' p. alloc z align s = Some (s', p) \<and> (p, z) \<notin> L \<and> live (insert (p, z) L) s' \<and>
        unat p mod unat align = 0"
    and free_ok: "live L s \<Longrightarrow> ready s \<Longrightarrow> (p, z) \<in> L \<Longrightarrow>
      \<exists>s'. free p s = Some s' \<and> live (L - {(p, z)}) s' \<and> ready s'"
    and live_disjoint: "live L s \<Longrightarrow> (p, z) \<in> L \<Longrightarrow> (q, y) \<in> L \<Longrightarrow> (p, z) \<noteq> (q, y) \<Longrightarrow>
      ranges_disjoint p (unat z) q (unat y)"
begin

lemma alloc_fresh:
  assumes "live L s" and "ready s" and "fits z align s" and "alloc z align s = Some (s', p)"
    and "(q, y) \<in> L"
  shows "ranges_disjoint p (unat z) q (unat y)"
proof -
  from alloc_ok [OF assms(1-3)] assms(4) have "(p, z) \<notin> L" "live (insert (p, z) L) s'" by auto
  with assms(5) show ?thesis by (intro live_disjoint [of "insert (p, z) L" s']) auto
qed

lemma alloc_then_free:
  assumes "live L s" and "ready s" and "fits z align s" and "alloc z align s = Some (s', p)"
    and "ready s'"
  shows "\<exists>s''. free p s' = Some s'' \<and> live L s'' \<and> ready s''"
proof -
  from alloc_ok [OF assms(1-3)] assms(4) have p: "(p, z) \<notin> L" "live (insert (p, z) L) s'" by auto
  from free_ok [OF p(2) assms(5), of p z] p(1) show ?thesis by auto
qed

lemma free_keeps_others:
  assumes "live L s" and "ready s" and "(p, z) \<in> L" and "free p s = Some s'"
    and "(q, y) \<in> L" and "q \<noteq> p"
  shows "\<exists>s''. free q s' = Some s''"
proof -
  from free_ok [OF assms(1-3)] assms(4) have "live (L - {(p, z)}) s'" "ready s'" by auto
  moreover have "(q, y) \<in> L - {(p, z)}" using assms(5,6) by simp
  ultimately show ?thesis using free_ok by blast
qed

end

definition kmem_live :: "(addr \<times> u64) set \<Rightarrow> 'a kmem_scheme \<Rightarrow> bool" where
  "kmem_live L s \<longleftrightarrow> (\<exists>bs. kmem_inv bs s \<and> L = (\<lambda>b. (fst b + 24, snd b)) ` set (tl bs))"

definition kmem_ready :: "'a kmem_scheme \<Rightarrow> bool" where
  "kmem_ready s \<longleftrightarrow> kmem_spinlock s = 0"

definition kmem_fits :: "u64 \<Rightarrow> u64 \<Rightarrow> 'a kmem_scheme \<Rightarrow> bool" where
  "kmem_fits z align s \<longleftrightarrow> (\<forall>bs. kmem_inv bs s \<longrightarrow> room z align bs)"

lemma payload_disjoint:
  assumes "blks_ordered bs" and "b \<in> set bs" and "c \<in> set bs" and "b \<noteq> c"
  shows "ranges_disjoint (fst b + 24) (unat (snd b)) (fst c + 24) (unat (snd c))"
proof -
  have aux: "ranges_disjoint (fst x + 24) (unat (snd x)) (fst y + 24) (unat (snd y))"
    if "x \<in> set bs" "y \<in> set bs" "blk_end x \<le> unat (fst y)" for x y
  proof -
    have ends: "blk_end x < 2 ^ 64" "blk_end y < 2 ^ 64"
      using assms(1) that by (auto simp: blks_ordered_def)
    then have "unat (fst x + 24) = unat (fst x) + 24" "unat (fst y + 24) = unat (fst y) + 24"
      by (simp_all add: unat_plus_nowrap blk_end_def)
    then show ?thesis using ends that(3) by (intro ranges_disjoint_unat) (simp_all add: blk_end_def)
  qed
  from assms(2) obtain us vs where bs: "bs = us @ b # vs" by (meson split_list)
  with assms(3,4) have "c \<in> set us \<or> c \<in> set vs" by auto
  with assms(1) bs have "blk_end c \<le> unat (fst b) \<or> blk_end b \<le> unat (fst c)"
    by (auto simp: blks_ordered_append blks_ordered_Cons)
  with aux [of b c] aux [of c b] assms(2,3) show ?thesis by (auto simp: ranges_disjoint_sym)
qed

interpretation boot_heap: block_allocator "kmalloc_align None" kfree kmem_live kmem_ready kmem_fits
proof unfold_locales
  fix L and s :: "'a kmem_scheme" and z align
  assume L: "kmem_live L s" and rdy: "kmem_ready s" and fit: "kmem_fits z align s"
  from L obtain bs where bs: "kmem_inv bs s" "L = (\<lambda>b. (fst b + 24, snd b)) ` set (tl bs)"
    by (auto simp: kmem_live_def)
  have ok: "heap_ok bs" and rm: "room z align bs"
    using bs(1) fit by (auto simp: kmem_inv_def kmem_fits_def)
  obtain bs' g gap where pl: "place z align bs = (bs', g, gap)" by (metis prod_cases3)
  obtain s' where s': "kmalloc_align None z align s = Some (s', g + 24)" "kmem_inv bs' s'"
    using kmalloc_align_place [of s bs z align None bs' g gap] rdy bs(1) rm pl
    by (auto simp: kmem_ready_def hooks_ok_def)
  obtain xs ys where d: "bs = xs @ ys" "xs \<noteq> []" "bs' = xs @ (g, z) # ys" "heap_ok bs'"
    "(unat g + 24) mod unat align = 0"
    using place_heap_ok [OF ok rm pl] by metis
  have "blk_end (g, z) < 2 ^ 64" using d by (auto simp: heap_ok_def blks_ordered_def)
  then have g24: "unat (g + 24) = unat g + 24" by (simp add: unat_plus_nowrap blk_end_def)
  have tl: "set (tl bs') = insert (g, z) (set (tl bs))"
    using d by (cases xs) auto
  have "(g + 24, z) \<notin> L"
    using place_release(4) [OF ok rm pl] bs(2) by (auto dest: set_mp [OF set_tl_subset])
  moreover have "kmem_live (insert (g + 24, z) L) s'"
    unfolding kmem_live_def bs(2) using s'(2) tl by (intro exI [of _ bs']) simp
  ultimately show "\<exists>s' p. kmalloc_align None z align s = Some (s', p) \<and> (p, z) \<notin> L \<and>
      kmem_live (insert (p, z) L) s' \<and> unat p mod unat align = 0"
    using s'(1) d(5) g24 by auto
next
  fix L and s :: "'a kmem_scheme" and p z
  assume L: "kmem_live L s" and rdy: "kmem_ready s" and pz: "(p, z) \<in> L"
  from L pz obtain bs b where bs: "kmem_inv bs s" "L = (\<lambda>b. (fst b + 24, snd b)) ` set (tl bs)"
    and b: "b \<in> set (tl bs)" "p = fst b + 24" "z = snd b"
    by (auto simp: kmem_live_def)
  obtain s' where s': "kfree p s = Some s'" "kmem_inv (release (fst b) bs) s'" "kmem_ready s'"
    using kfree_release [of s bs b] rdy bs(1) b by (auto simp: kmem_ready_def)
  obtain ws a cs where sp: "bs = ws @ a # b # cs" using tl_split [OF b(1)] .
  have ord: "blks_ordered bs" using bs(1) by (simp add: kmem_inv_def heap_ok_def)
  then have rel: "release (fst b) bs = ws @ a # cs" and ne: "b \<notin> set (ws @ a # cs)"
    using release_split [of "ws @ [a]" b cs] ordered_distinct [of "ws @ [a]" b cs b] sp by auto
  then have "set (tl (release (fst b) bs)) = set (tl bs) - {b}"
    unfolding sp by (cases ws) auto
  moreover have "inj (\<lambda>b :: blk. (fst b + 24, snd b))" by (auto simp: inj_def prod_eq_iff)
  ultimately have "(\<lambda>b. (fst b + 24, snd b)) ` set (tl (release (fst b) bs)) = L - {(p, z)}"
    unfolding bs(2) b(2,3) by (simp add: image_set_diff)
  then show "\<exists>s'. kfree p s = Some s' \<and> kmem_live (L - {(p, z)}) s' \<and> kmem_ready s'"
    unfolding kmem_live_def using s' by (intro exI [of _ s'] conjI exI [of _ "release (fst b) bs"]) simp_all
next
  fix L and s :: "'a kmem_scheme" and p z q y
  assume "kmem_live L s" "(p, z) \<in> L" "(q, y) \<in> L" "(p, z) \<noteq> (q, y)"
  show "ranges_disjoint p (unat z) q (unat y)"
  proof -
    from \<open>kmem_live L s\<close> obtain bs where bs: "blks_ordered bs"
      "L = (\<lambda>b. (fst b + 24, snd b)) ` set (tl bs)"
      by (auto simp: kmem_live_def kmem_inv_def heap_ok_def)
    then obtain b c where "b \<in> set bs" "c \<in> set bs" "(p, z) = (fst b + 24, snd b)"
      "(q, y) = (fst c + 24, snd c)"
      using \<open>(p, z) \<in> L\<close> \<open>(q, y) \<in> L\<close> set_tl_subset [of bs] by blast
    with payload_disjoint [OF bs(1), of b c] \<open>(p, z) \<noteq> (q, y)\<close> show ?thesis by auto
  qed
qed

section \<open>The list is determined by the memory\<close>

lemma dll_unique:
  assumes "dll m p bs NULL" "dll m q cs NULL" "nxt bs NULL = nxt cs NULL"
    and "NULL \<notin> fst ` set bs" "NULL \<notin> fst ` set cs"
  shows "bs = cs"
  using assms
proof (induction bs arbitrary: p q cs)
  case Nil
  then show ?case by (cases cs) auto
next
  case (Cons b bs)
  then obtain c ds where cs: "cs = c # ds" by (cases cs) auto
  with Cons.prems have "fst b = fst c" "snd b = snd c" by auto
  moreover have "bs = ds"
    using Cons.prems cs by (intro Cons.IH [of "fst b" "fst c"]) auto
  ultimately show ?case using cs by (simp add: prod_eq_iff)
qed

lemma kmem_inv_unique: "kmem_inv bs s \<Longrightarrow> kmem_inv cs s \<Longrightarrow> bs = cs"
  using dll_unique [of "kmem_mem s" NULL bs NULL cs] heap_ok_nonnull [of bs] heap_ok_nonnull [of cs]
  by (cases bs; cases cs) (auto simp: kmem_inv_def heap_at_def heap_ok_def)

lemma kmem_fits_iff: "kmem_inv bs s \<Longrightarrow> kmem_fits z align s \<longleftrightarrow> room z align bs"
  using kmem_inv_unique by (auto simp: kmem_fits_def)

section \<open>Resizing\<close>

lemma krealloc_align_cases:
  assumes "ptr \<noteq> NULL"
  shows "krealloc_align hooks ptr z align s =
    (if kmem_spinlock s = 0 \<and> kn_next (kmem_mem s) (ptr - 24) \<noteq> NULL \<and>
        kn_next (kmem_mem s) (ptr - 24) - ptr \<ge> z + 24
     then Some (s\<lparr>kmem_spinlock := 1, kmem_mem := set_sz (ptr - 24) z (kmem_mem s)\<rparr>, ptr)
     else None)"
  using assms locked_never_returns(1) [of "s\<lparr>kmem_spinlock := 1\<rparr>"]
  by (cases "kmem_spinlock s = 0") (simp_all add: krealloc_align_def Let_def)

lemma resize_heap:
  assumes "heap_at m (bs @ b # c # cs)" and "blks_ordered (bs @ b # c # cs)"
    and "unat (fst b) + 24 + unat z \<le> unat (fst c)"
  shows "heap_at (set_sz (fst b) z m) (bs @ (fst b, z) # c # cs)"
    and "blks_ordered (bs @ (fst b, z) # c # cs)"
proof -
  have "unat (fst c) \<le> unat (fst y)" if "y \<in> set (c # cs)" for y
    using assms(2) that by (auto simp: blks_ordered_append blks_ordered_Cons blk_end_def)
  moreover have "unat (fst c) < 2 ^ 64" by (rule unat_lt_2p64)
  ultimately show "blks_ordered (bs @ (fst b, z) # c # cs)"
    using assms(2,3) by (fastforce simp: blks_ordered_append blks_ordered_Cons blk_end_def)
  have rest: "set_sz (fst b) z m x = m x" if "a \<in> set bs \<union> set (c # cs)" "in_range (fst a) 24 x" for a x
    using hdr_disj_notin [OF blks_ordered_hdr_disj(2) [OF assms(2) that(1)] that(2)]
    by (simp add: hdr_simps)
  from assms(1) have pre: "dll m NULL bs (fst b)" and post: "dll m (fst b) (c # cs) NULL"
    and b: "kn_prev m (fst b) = last (NULL # map fst bs)" "kn_next m (fst b) = fst c"
    by (auto simp: heap_at_def dll_append)
  have "dll (set_sz (fst b) z m) NULL bs (fst b)" by (rule dll_frame [OF pre]) (rule rest, simp_all)
  moreover have "dll (set_sz (fst b) z m) (fst b) (c # cs) NULL"
    by (rule dll_frame [OF post]) (rule rest, auto)
  ultimately show "heap_at (set_sz (fst b) z m) (bs @ (fst b, z) # c # cs)"
    using b by (simp add: heap_at_def dll_append hdr_simps)
qed

section \<open>A lock that stays taken\<close>

lemma krealloc_leaves_lock:
  assumes "krealloc hooks p z s = Some (s1, r)" "p \<noteq> NULL"
  shows "kmem_spinlock s1 = 1"
  using assms by (cases "kmem_spinlock s = 0")
    (auto simp: krealloc_def krealloc_align_def kmalloc_align_def Let_def split: if_splits bind_splits)

lemma kmalloc_locked: "kmem_spinlock s = 1 \<Longrightarrow> kmalloc hooks z s = None"
  by (simp add: kmalloc_def kmalloc_align_def)

lemma kfree_locked: "kmem_spinlock s = 1 \<Longrightarrow> kfree p s = None"
  by (simp add: kfree_def)

section \<open>Concrete heaps\<close>

definition fresh_heap :: kmem where
  "fresh_heap = kmem_init \<lparr>kmem_mem = (\<lambda>_. 0), occupied_to = KMEM_HEAP_BASE, kmem_spinlock = 7\<rparr>"

definition gap_heap :: kmem where
  "gap_heap = fresh_heap\<lparr>kmem_mem := link_last KMEM_HEAP_BASE 0x201000 16 (kmem_mem fresh_heap)\<rparr>"

lemma load64_zero [simp]: "load64 (\<lambda>_. 0) a = 0"
proof -
  have "load_le n (\<lambda>_. 0) a = 0" for n by (induction n arbitrary: a) simp_all
  then show ?thesis by (simp add: load64_def)
qed

lemma fresh_heap_inv: "kmem_inv [(KMEM_HEAP_BASE, 0)] fresh_heap" "kmem_spinlock fresh_heap = 0"
  by (simp_all add: kmem_inv_def fresh_heap_def kmem_init_def heap_at_def heap_ok_def blks_ordered_def
      hdr_simps blk_end_def spinlock_init_def)
    (simp_all add: kn_sz_def KMEM_HEAP_BASE_def)

lemma gap_heap_inv:
  "kmem_inv [(KMEM_HEAP_BASE, 0), (0x201000, 16)] gap_heap" "kmem_spinlock gap_heap = 0"
proof -
  have ord: "blks_ordered [(KMEM_HEAP_BASE, 0), (0x201000, 16)]"
    by (simp add: blks_ordered_def blk_end_def KMEM_HEAP_BASE_def)
  then show "kmem_inv [(KMEM_HEAP_BASE, 0), (0x201000, 16)] gap_heap"
    using link_last_heap(1) [of "kmem_mem fresh_heap" "[]" "(KMEM_HEAP_BASE, 0)" "(0x201000, 16)"]
      fresh_heap_inv(1)
    by (simp add: kmem_inv_def gap_heap_def heap_ok_def)
  show "kmem_spinlock gap_heap = 0" by (simp add: gap_heap_def fresh_heap_inv)
qed

lemma fresh_place: "place 100 16 [(KMEM_HEAP_BASE, 0)] = ([(KMEM_HEAP_BASE, 0), (0x200018, 100)], 0x200018, False)"
  by (simp add: place_def fit_pos_def align_up_def blk_end_def KMEM_HEAP_BASE_def)

lemma gap_place: "place 100 16 [(KMEM_HEAP_BASE, 0), (0x201000, 16)]
    = ([(KMEM_HEAP_BASE, 0), (0x200018, 100), (0x201000, 16)], 0x200018, True)"
  by (simp add: place_def fit_pos_def align_up_def blk_end_def KMEM_HEAP_BASE_def)

lemma witness_room: "room 100 16 [(KMEM_HEAP_BASE, 0)]" "room 100 16 [(KMEM_HEAP_BASE, 0), (0x201000, 16)]"
  by (simp_all add: room_def blk_end_def KMEM_HEAP_BASE_def)

section \<open>Properties\<close>

text \<open>
  C2: \<^verbatim>\<open>kmalloc_align\<close> refines abstract first fit: on a free lock, with room for the block behind the last
  one, it puts the block where \<^const>\<open>place\<close> does. When the block goes into a gap, or ends inside the mapped
  memory, or no mapping functions are installed, then for all mapping functions whatsoever it returns the
  payload of the new block, aligned as requested; the list in memory becomes the list that \<^const>\<open>place\<close>
  computes, which is again ordered and disjoint; no byte outside the headers changes; and the lock is released
  exactly when the block went behind the last one. Otherwise the mapping function is called, with the lock held:
  when it does not return (as \<^verbatim>\<open>map_alloc\<close> does not when it needs a page table from this heap) the allocation
  does not return either, and when it returns with the list in place the block is linked behind the last one
  as above.
\<close>

theorem kmalloc_align_refines_first_fit:
  assumes "kmem_spinlock s = 0" and "kmem_inv bs s" and "room z align bs"
    and "place z align bs = (bs', g, gap)"
  shows "unat (g + 24) mod unat align = 0 \<and>
    (if gap \<or> \<not> hook_needed hooks (g + 24 + z) s
     then \<exists>s'. kmalloc_align hooks z align s = Some (s', g + 24) \<and> kmem_inv bs' s' \<and>
       kmem_spinlock s' = (if gap then 1 else 0) \<and> keeps_payload bs' (kmem_mem s) (kmem_mem s')
     else case hook_call hooks (g + 24 + z) (s\<lparr>kmem_spinlock := 1\<rparr>) of
       None \<Rightarrow> kmalloc_align hooks z align s = None
     | Some s2 \<Rightarrow> heap_at (kmem_mem s2) bs \<longrightarrow>
         (\<exists>s'. kmalloc_align hooks z align s = Some (s', g + 24) \<and> kmem_inv bs' s' \<and>
            kmem_spinlock s' = 0 \<and> keeps_payload bs' (kmem_mem s2) (kmem_mem s')))"
proof -
  let ?e = "g + 24 + z" and ?s1 = "s\<lparr>kmem_spinlock := 1\<rparr>"
  have ok: "heap_ok bs" and at: "heap_at (kmem_mem s) bs" using assms(2) by (simp_all add: kmem_inv_def)
  obtain xs ys where d: "bs' = xs @ (g, z) # ys" "heap_ok bs'" "(unat g + 24) mod unat align = 0"
    using place_heap_ok [OF ok assms(3,4)] by metis
  then have "blk_end (g, z) < 2 ^ 64" by (auto simp: heap_ok_def blks_ordered_def)
  then have al: "unat (g + 24) mod unat align = 0" using d(3) by (simp add: unat_plus_nowrap blk_end_def)
  note grow = grow_heap_hook [of hooks ?e ?s1]
  have nd: "hook_needed hooks ?e ?s1 = hook_needed hooks ?e s" by (cases hooks) (auto simp: hook_needed_def)
  show ?thesis
  proof (cases gap)
    case True
    then show ?thesis using kmalloc_align_gap [OF assms(1-3), of bs' g hooks] assms(4) al by auto
  next
    case False
    note last = kmalloc_align_last [OF assms(1-3), of bs' g hooks]
    have pl: "place z align bs = (bs', g, False)" using assms(4) False by simp
    show ?thesis
    proof (cases "hook_needed hooks ?e s")
      case True
      with grow(2,3) nd False al last [OF pl] show ?thesis by (cases "hook_call hooks ?e ?s1") auto
    next
      case need: False
      then obtain o' where "grow_heap hooks ?e ?s1 = Some (?s1\<lparr>occupied_to := o'\<rparr>)" using grow(1) nd by auto
      from last(2) [OF pl this] need False al at show ?thesis by simp
    qed
  qed
qed

theorem kmalloc_align_refines_first_fit_witness:
  "(\<exists>s'. kmalloc_align None 100 16 fresh_heap = Some (s', 0x200030) \<and>
      kmem_inv [(KMEM_HEAP_BASE, 0), (0x200018, 100)] s' \<and> kmem_spinlock s' = 0) \<and>
   kmalloc_align (kmem_set_map_functions (\<lambda>_ _ _ _. None) 16) 100 16 fresh_heap = None"
proof -
  note first_fit = kmalloc_align_refines_first_fit [OF fresh_heap_inv(2,1) witness_room(1) fresh_place]
  have "occupied_to fresh_heap = KMEM_HEAP_BASE" by (simp add: fresh_heap_def kmem_init_def)
  with first_fit [of None] first_fit [of "kmem_set_map_functions (\<lambda>_ _ _ _. None) 16"] show ?thesis
    by (auto simp: hook_needed_def hook_call_def kmem_set_map_functions_def KMEM_HEAP_BASE_def)
qed

text \<open>
  C5: A block placed in a gap between two blocks leaves the spinlock held: after such an allocation
  no call of \<^verbatim>\<open>kmalloc_align\<close>, \<^verbatim>\<open>krealloc_align\<close> or \<^verbatim>\<open>kfree\<close> ever returns.
\<close>

theorem kmalloc_gap_blocks_heap:
  assumes "kmem_spinlock s = 0" and "kmem_inv bs s" and "room z align bs" and "hooks_ok hooks"
    and "place z align bs = (bs', g, True)"
  shows "\<exists>s'. kmalloc_align hooks z align s = Some (s', g + 24) \<and>
    (\<forall>h y al. kmalloc_align h y al s' = None) \<and> (\<forall>p. kfree p s' = None) \<and>
    (\<forall>h p y al. krealloc_align h p y al s' = None)"
proof -
  obtain s' where "kmalloc_align hooks z align s = Some (s', g + 24)" "kmem_spinlock s' = 1"
    using kmalloc_align_place [OF assms] by (metis (full_types))
  then show ?thesis using locked_never_returns [of s'] by auto
qed

theorem kmalloc_gap_blocks_heap_witness:
  "\<exists>s'. kmalloc_align None 100 16 gap_heap = Some (s', 0x200030) \<and> kfree 0x200030 s' = None"
proof -
  have "hooks_ok (None :: unit map_hooks)" by (simp add: hooks_ok_def)
  from kmalloc_gap_blocks_heap [OF gap_heap_inv(2,1) witness_room(2) this gap_place]
  show ?thesis by auto
qed

text \<open>
  C3: \<^verbatim>\<open>kfree\<close> on a live block returns, takes exactly that block out of the list, keeps every
  other block with its size, keeps every byte outside the headers and releases the lock.
\<close>

theorem kfree_unlinks_block:
  assumes "kmem_spinlock s = 0" and "kmem_inv bs s" and "b \<in> set (tl bs)"
  shows "\<exists>s'. kfree (fst b + 24) s = Some s' \<and> kmem_inv (release (fst b) bs) s' \<and>
    set (release (fst b) bs) = set bs - {b} \<and> kmem_spinlock s' = 0 \<and>
    kmem_get_heap_end s' = kmem_get_heap_end s \<and>
    keeps_payload bs (kmem_mem s) (kmem_mem s')"
proof -
  have ord: "blks_ordered bs" using assms(2) by (simp add: kmem_inv_def heap_ok_def)
  obtain ws a cs where bs: "bs = ws @ a # b # cs" using tl_split [OF assms(3)] .
  have "release (fst b) bs = (ws @ [a]) @ cs" "b \<notin> set ((ws @ [a]) @ cs)"
    using release_split [of "ws @ [a]" b cs] ordered_distinct [of "ws @ [a]" b cs b] ord bs by auto
  then have "set (release (fst b) bs) = set bs - {b}" using bs by auto
  with kfree_release [OF assms] show ?thesis unfolding kmem_get_heap_end_def by metis
qed

theorem kfree_unlinks_block_witness:
  "\<exists>s'. kfree 0x201018 gap_heap = Some s' \<and> kmem_inv [(KMEM_HEAP_BASE, 0)] s'"
  using kfree_unlinks_block [OF gap_heap_inv(2,1), of "(0x201000, 16)"]
  by (auto simp: release_def KMEM_HEAP_BASE_def)

text \<open>
  C4: On the heap before the mapping functions are installed, a fresh allocation is disjoint from
  every live payload, and freeing it (when the lock was given back) restores the set of live
  payloads, after which the heap is ready again.
\<close>

theorem kmalloc_fresh_and_kfree_restores:
  assumes "kmem_live L s" and "kmem_ready s" and "kmem_fits z align s"
    and "kmalloc_align None z align s = Some (s', p)"
  shows "(\<forall>q y. (q, y) \<in> L \<longrightarrow> ranges_disjoint p (unat z) q (unat y)) \<and>
    (kmem_ready s' \<longrightarrow> (\<exists>s''. kfree p s' = Some s'' \<and> kmem_live L s'' \<and> kmem_ready s''))"
  using boot_heap.alloc_fresh [OF assms] boot_heap.alloc_then_free [OF assms] by blast

theorem kmalloc_fresh_and_kfree_restores_witness:
  "\<exists>s' s''. kmalloc_align None 100 16 fresh_heap = Some (s', 0x200030) \<and>
    kfree 0x200030 s' = Some s'' \<and> kmem_live {} s''"
proof -
  have "hooks_ok (None :: unit map_hooks)" by (simp add: hooks_ok_def)
  from kmalloc_align_place [OF fresh_heap_inv(2,1) witness_room(1) this fresh_place]
  obtain s' where s': "kmalloc_align None 100 16 fresh_heap = Some (s', 0x200018 + 24)"
    "kmem_ready s'" by (auto simp: kmem_ready_def)
  have "kmem_live {} fresh_heap" "kmem_ready fresh_heap" "kmem_fits 100 16 fresh_heap"
    using fresh_heap_inv witness_room(1) kmem_fits_iff [OF fresh_heap_inv(1)]
    by (auto simp: kmem_live_def kmem_ready_def intro!: exI [of _ "[(KMEM_HEAP_BASE, 0)]"])
  from kmalloc_fresh_and_kfree_restores [OF this s'(1)] s' show ?thesis by auto
qed

text \<open>
  C6: \<^verbatim>\<open>krealloc_align\<close> of a live block never moves it. When the distance to the next block
  allows the new size it sets the size, keeps the list otherwise, and returns the same pointer, with
  the lock still held; in every other case (a last block, or a new size that does not fit) it takes
  the lock it already holds and never returns.
\<close>

theorem krealloc_align_in_place_or_stuck:
  assumes inv: "kmem_inv (ws @ b # cs) s" and ws: "ws \<noteq> []" and z: "unat z + 24 < 2 ^ 64"
  shows "if kmem_spinlock s = 0 \<and> cs \<noteq> [] \<and> unat (fst b) + 24 + unat z + 24 \<le> unat (fst (hd cs))
    then \<exists>s'. krealloc_align hooks (fst b + 24) z align s = Some (s', fst b + 24) \<and>
      kmem_inv (ws @ (fst b, z) # cs) s' \<and> kmem_spinlock s' = 1
    else krealloc_align hooks (fst b + 24) z align s = None"
proof -
  from inv have at: "heap_at (kmem_mem s) (ws @ b # cs)" and ok: "heap_ok (ws @ b # cs)"
    by (simp_all add: kmem_inv_def)
  then have ord: "blks_ordered (ws @ b # cs)" by (simp add: heap_ok_def)
  then have "blk_end b < 2 ^ 64" by (simp add: blks_ordered_append blks_ordered_Cons)
  then have ptr: "unat (fst b + 24) = unat (fst b) + 24" by (simp add: unat_plus_nowrap blk_end_def)
  then have nn: "fst b + 24 \<noteq> NULL" by auto
  have nx: "kn_next (kmem_mem s) (fst b) = nxt cs NULL" using at by (simp add: heap_at_def dll_append)
  have z24: "unat (z + 24) = unat z + 24" using z by (simp add: unat_plus_nowrap)
  note eq = krealloc_align_cases [OF nn, of hooks z align s, simplified, unfolded nx]
  show ?thesis
  proof (cases cs)
    case Nil
    then show ?thesis using eq by simp
  next
    case (Cons c ds)
    have "fst c \<noteq> NULL" using heap_ok_nonnull [OF ok] Cons by force
    moreover have "blk_end b \<le> unat (fst c)"
      using ord Cons by (simp add: blks_ordered_append blks_ordered_Cons)
    then have "unat (fst c - (fst b + 24)) = unat (fst c) - (unat (fst b) + 24)"
      by (subst unat_diff_le) (simp_all add: ptr blk_end_def)
    ultimately have "krealloc_align hooks (fst b + 24) z align s =
        (if kmem_spinlock s = 0 \<and> unat (fst b) + 24 + unat z + 24 \<le> unat (fst c)
         then Some (s\<lparr>kmem_spinlock := 1, kmem_mem := set_sz (fst b) z (kmem_mem s)\<rparr>, fst b + 24)
         else None)"
      using eq Cons z24 \<open>blk_end b \<le> unat (fst c)\<close> by (auto simp: word_le_nat_alt blk_end_def)
    moreover have "kmem_inv (ws @ (fst b, z) # c # ds)
        (s\<lparr>kmem_spinlock := 1, kmem_mem := set_sz (fst b) z (kmem_mem s)\<rparr>)"
      if "unat (fst b) + 24 + unat z + 24 \<le> unat (fst c)"
      using resize_heap [OF at [unfolded Cons] ord [unfolded Cons], of z] that ok ws
      by (simp add: kmem_inv_def heap_ok_def)
    ultimately show ?thesis using Cons by simp
  qed
qed

theorem krealloc_align_in_place_or_stuck_witness:
  "krealloc_align (None :: unit map_hooks) 0x201018 8 1 gap_heap = None"
  using krealloc_align_in_place_or_stuck
    [of "[(KMEM_HEAP_BASE, 0)]" "(0x201000, 16)" "[]" gap_heap 8 None 1] gap_heap_inv
  by simp

end
