(* ===== verification/Cpu_io.thy ===== *)
theory Cpu_io
  imports Prelude
begin

unbundle bit_operations_syntax

text \<open>
  Port input and output of \<^verbatim>\<open>cpu/cpu_io.h\<close>. What the processor and a device have exchanged is a
  history of events, oldest first; a device is a parameter of the functions that read from it,
  \<open>device\<close>: the value on the bus as a function of the history that ends with the read. So a driver
  is a function from a history to a history, and a statement about every device is a statement
  about every such function.
\<close>

datatype io_event =
    Out8 u32 u8 | Out16 u32 u16 | Out32 u32 u32
  | In8 u32 | In16 u32 | In32 u32
  | Mem_out32 u64 u32 | Mem_in32 u64
  | Wrmsr u32 u64 | Rdmsr_low u32 | Rdmsr_high u32 | Rdtsc_low | Rdtsc_high

type_synonym io_hist = "io_event list"
type_synonym device = "io_hist \<Rightarrow> u32"

definition cpu_in8 :: "device \<Rightarrow> u32 \<Rightarrow> io_hist \<Rightarrow> io_hist \<times> u8" where
  "cpu_in8 dev port h = (h @ [In8 port], ucast (dev (h @ [In8 port])))"

definition cpu_in16 :: "device \<Rightarrow> u32 \<Rightarrow> io_hist \<Rightarrow> io_hist \<times> u16" where
  "cpu_in16 dev port h = (h @ [In16 port], ucast (dev (h @ [In16 port])))"

definition cpu_in32 :: "device \<Rightarrow> u32 \<Rightarrow> io_hist \<Rightarrow> io_hist \<times> u32" where
  "cpu_in32 dev port h = (h @ [In32 port], dev (h @ [In32 port]))"

definition cpu_out8 :: "u32 \<Rightarrow> u8 \<Rightarrow> io_hist \<Rightarrow> io_hist" where
  "cpu_out8 port val h = h @ [Out8 port val]"

definition cpu_out16 :: "u32 \<Rightarrow> u16 \<Rightarrow> io_hist \<Rightarrow> io_hist" where
  "cpu_out16 port val h = h @ [Out16 port val]"

definition cpu_out32 :: "u32 \<Rightarrow> u32 \<Rightarrow> io_hist \<Rightarrow> io_hist" where
  "cpu_out32 port val h = h @ [Out32 port val]"

definition cpu_io_wait :: "io_hist \<Rightarrow> io_hist" where
  "cpu_io_wait h = cpu_out8 0x80 0 h"

text \<open>
  Model-specific registers and the time stamp counter are read by one instruction in two halves, which
  the source puts together. Registers of a device in memory are read and written at an address.
\<close>

definition cpu_in_msr :: "device \<Rightarrow> u32 \<Rightarrow> io_hist \<Rightarrow> io_hist \<times> u64" where
  "cpu_in_msr dev msr h =
     (let h1 = h @ [Rdmsr_low msr]; eax = dev h1; h2 = h1 @ [Rdmsr_high msr]; edx = dev h2
      in (h2, push_bit 32 (ucast edx) OR ucast eax))"

definition cpu_out_msr :: "u32 \<Rightarrow> u64 \<Rightarrow> io_hist \<Rightarrow> io_hist" where
  "cpu_out_msr msr val h =
     (let edx = ucast (drop_bit 32 val) :: u32; eax = ucast val :: u32
      in h @ [Wrmsr msr (push_bit 32 (ucast edx) OR ucast eax)])"

definition cpu_rdtsc :: "device \<Rightarrow> io_hist \<Rightarrow> io_hist \<times> u64" where
  "cpu_rdtsc dev h =
     (let h1 = h @ [Rdtsc_low]; eax = dev h1; h2 = h1 @ [Rdtsc_high]; edx = dev h2
      in (h2, push_bit 32 (ucast edx) OR ucast eax))"

partial_function (option) delay_until :: "device \<Rightarrow> u64 \<Rightarrow> io_hist \<Rightarrow> io_hist option" where
  "delay_until dev stop h =
     (let (h1, now) = cpu_rdtsc dev h in if now < stop then delay_until dev stop h1 else Some h1)"

definition delay :: "device \<Rightarrow> u64 \<Rightarrow> io_hist \<Rightarrow> io_hist option" where
  "delay dev cycles h = (let (h1, start) = cpu_rdtsc dev h in delay_until dev (start + cycles) h1)"

definition mmio_in32 :: "device \<Rightarrow> u64 \<Rightarrow> io_hist \<Rightarrow> io_hist \<times> u32" where
  "mmio_in32 dev a h = (h @ [Mem_in32 a], dev (h @ [Mem_in32 a]))"

definition mmio_out32 :: "u64 \<Rightarrow> u32 \<Rightarrow> io_hist \<Rightarrow> io_hist" where
  "mmio_out32 a val h = h @ [Mem_out32 a val]"

text \<open>The bytes written to one port, in order.\<close>

fun port_bytes :: "u32 \<Rightarrow> io_hist \<Rightarrow> u8 list" where
  "port_bytes port [] = []"
| "port_bytes port (Out8 p v # h) = (if p = port then v # port_bytes port h else port_bytes port h)"
| "port_bytes port (_ # h) = port_bytes port h"

lemma port_bytes_append [simp]: "port_bytes port (h @ k) = port_bytes port h @ port_bytes port k"
  by (induction port h rule: port_bytes.induct) auto

end
