(* ===== verification/Printf.thy ===== *)
theory Printf
  imports Cpu_io Cstring
begin

text \<open>
  The two text sinks of the kernel, the serial port (\<^verbatim>\<open>dev/uart.c\<close>) and the boot log
  (\<^verbatim>\<open>log/boot_log.c\<close>). Both files define the same number printers by the same macros and the same
  \<^verbatim>\<open>printf\<close> loop over a different \<^verbatim>\<open>putchar\<close> and \<^verbatim>\<open>puts\<close>; the model has the macros and the
  loop once, over these two as arguments, and one definition per function of the source.

  The 24-element digit array is a list; a write behind its end and a read of an element that was not
  written have the value \<^const>\<open>None\<close>. The locale \<open>char_sink\<close> is what the printers need of a sink; the
  number printers and \<^verbatim>\<open>printf\<close> are proved correct in it and it is interpreted for both sinks.
\<close>

section \<open>The number printers\<close>

text \<open>The loop that fills \<^verbatim>\<open>nums\<close>; the base is 10 or 16 at every call.\<close>

function collect_digits :: "nat \<Rightarrow> nat \<Rightarrow> nat list \<Rightarrow> nat list option" where
  "collect_digits base num nums =
     (if num = 0 \<or> base \<le> 1 then Some nums
      else if length nums \<ge> 24 then None
      else collect_digits base (num div base) (nums @ [num mod base]))"
  by pat_completeness auto
termination
  by (relation "measure (\<lambda>(base, num, nums). num)") (auto intro: div_less_dividend)

declare collect_digits.simps [simp del]

primrec emit_digits ::
  "(u8 \<Rightarrow> 's \<Rightarrow> 's) \<Rightarrow> (nat \<Rightarrow> u8) \<Rightarrow> nat list \<Rightarrow> nat \<Rightarrow> 's \<Rightarrow> 's option" where
  "emit_digits put ch nums 0 s =
     (if length nums \<le> 0 then None else Some (put (ch (nums ! 0)) s))"
| "emit_digits put ch nums (Suc i) s =
     (if length nums \<le> Suc i then None else emit_digits put ch nums i (put (ch (nums ! Suc i)) s))"

definition put_digits ::
  "(u8 \<Rightarrow> 's \<Rightarrow> 's) \<Rightarrow> (nat \<Rightarrow> u8) \<Rightarrow> nat \<Rightarrow> nat \<Rightarrow> 's \<Rightarrow> 's option" where
  "put_digits put ch base num s =
     do {
       nums \<leftarrow> collect_digits base num [];
       let nums_i = (of_nat (length nums) - 1 :: u64);
       emit_digits put ch nums (unat nums_i) s
     }"

definition dec_char :: "nat \<Rightarrow> u8" where
  "dec_char d = 48 + of_nat d"

definition hexl_char :: "nat \<Rightarrow> u8" where
  "hexl_char d = (if d \<le> 9 then 48 + of_nat d else 97 + of_nat (d - 10))"

definition hexu_char :: "nat \<Rightarrow> u8" where
  "hexu_char d = (if d \<le> 9 then 48 + of_nat d else 65 + of_nat (d - 10))"

definition put_num :: "(u8 \<Rightarrow> 's \<Rightarrow> 's) \<Rightarrow> 'a :: len word \<Rightarrow> 's \<Rightarrow> 's option" where
  "put_num put num s =
     (if num = 0 then Some (put 48 s)
      else let (s1, num1) = (if sint num < 0 then (put 45 s, - num) else (s, num))
           in put_digits put dec_char 10 (nat (sint num1)) s1)"

definition put_unum :: "(u8 \<Rightarrow> 's \<Rightarrow> 's) \<Rightarrow> 'a :: len word \<Rightarrow> 's \<Rightarrow> 's option" where
  "put_unum put num s =
     (if num = 0 then Some (put 48 s) else put_digits put dec_char 10 (unat num) s)"

definition put_num_hexl :: "(u8 \<Rightarrow> 's \<Rightarrow> 's) \<Rightarrow> 'a :: len word \<Rightarrow> 's \<Rightarrow> 's option" where
  "put_num_hexl put num s =
     (if num = 0 then Some (put 48 s) else put_digits put hexl_char 16 (unat num) s)"

definition put_num_hexu :: "(u8 \<Rightarrow> 's \<Rightarrow> 's) \<Rightarrow> 'a :: len word \<Rightarrow> 's \<Rightarrow> 's option" where
  "put_num_hexu put num s =
     (if num = 0 then Some (put 48 s) else put_digits put hexu_char 16 (unat num) s)"

section \<open>The printf loop\<close>

datatype va = VInt u32 | VLong u64 | VPtr addr

definition va_int :: "va list \<Rightarrow> (u32 \<times> va list) option" where
  "va_int args = (case args of VInt v # rest \<Rightarrow> Some (v, rest) | _ \<Rightarrow> None)"

definition va_long :: "va list \<Rightarrow> (u64 \<times> va list) option" where
  "va_long args = (case args of VLong v # rest \<Rightarrow> Some (v, rest) | _ \<Rightarrow> None)"

definition va_ptr :: "va list \<Rightarrow> (addr \<times> va list) option" where
  "va_ptr args = (case args of VPtr v # rest \<Rightarrow> Some (v, rest) | _ \<Rightarrow> None)"

text \<open>
  The three nested \<^verbatim>\<open>switch\<close> statements: each returns the position of the last character it
  consumed, the arguments that are left and the new state of the sink.
\<close>

definition printf_ll ::
  "(u8 \<Rightarrow> 's \<Rightarrow> 's) \<Rightarrow> mem \<Rightarrow> addr \<Rightarrow> va list \<Rightarrow> 's \<Rightarrow> (addr \<times> va list \<times> 's) option" where
  "printf_ll put m fmt args s =
     (if m fmt = 100 \<or> m fmt = 105 then
        do { (v, args1) \<leftarrow> va_long args; s1 \<leftarrow> put_num put v s; Some (fmt, args1, s1) }
      else if m fmt = 117 then
        do { (v, args1) \<leftarrow> va_long args; s1 \<leftarrow> put_unum put v s; Some (fmt, args1, s1) }
      else Some (fmt, args, s))"

definition printf_l ::
  "(u8 \<Rightarrow> 's \<Rightarrow> 's) \<Rightarrow> mem \<Rightarrow> addr \<Rightarrow> va list \<Rightarrow> 's \<Rightarrow> (addr \<times> va list \<times> 's) option" where
  "printf_l put m fmt args s =
     (if m fmt = 100 \<or> m fmt = 105 then
        do { (v, args1) \<leftarrow> va_long args; s1 \<leftarrow> put_num put v s; Some (fmt, args1, s1) }
      else if m fmt = 117 then
        do { (v, args1) \<leftarrow> va_long args; s1 \<leftarrow> put_unum put v s; Some (fmt, args1, s1) }
      else if m fmt = 108 then printf_ll put m (fmt + 1) args s
      else Some (fmt, args, s))"

definition printf_conv ::
  "(u8 \<Rightarrow> 's \<Rightarrow> 's) \<Rightarrow> (mem \<Rightarrow> addr \<Rightarrow> 's \<Rightarrow> 's option) \<Rightarrow> mem \<Rightarrow> addr \<Rightarrow> va list \<Rightarrow> 's \<Rightarrow>
   (addr \<times> va list \<times> 's) option" where
  "printf_conv put puts m fmt args s =
     (if m fmt = 115 then
        do { (p, args1) \<leftarrow> va_ptr args; s1 \<leftarrow> puts m p s; Some (fmt, args1, s1) }
      else if m fmt = 99 then
        do { (v, args1) \<leftarrow> va_int args; Some (fmt, args1, put (ucast v) s) }
      else if m fmt = 100 \<or> m fmt = 105 then
        do { (v, args1) \<leftarrow> va_int args; s1 \<leftarrow> put_num put v s; Some (fmt, args1, s1) }
      else if m fmt = 117 then
        do { (v, args1) \<leftarrow> va_int args; s1 \<leftarrow> put_unum put v s; Some (fmt, args1, s1) }
      else if m fmt = 120 then
        do { (v, args1) \<leftarrow> va_int args; s1 \<leftarrow> put_num_hexl put v s; Some (fmt, args1, s1) }
      else if m fmt = 88 then
        do { (v, args1) \<leftarrow> va_int args; s1 \<leftarrow> put_num_hexu put v s; Some (fmt, args1, s1) }
      else if m fmt = 112 then
        do { (v, args1) \<leftarrow> va_ptr args; s1 \<leftarrow> put_num_hexl put v s; Some (fmt, args1, s1) }
      else if m fmt = 80 then
        do { (v, args1) \<leftarrow> va_ptr args; s1 \<leftarrow> put_num_hexu put v s; Some (fmt, args1, s1) }
      else if m fmt = 108 then printf_l put m (fmt + 1) args s
      else Some (fmt, args, s))"

partial_function (option) printf_loop ::
  "(u8 \<Rightarrow> 's \<Rightarrow> 's) \<Rightarrow> (mem \<Rightarrow> addr \<Rightarrow> 's \<Rightarrow> 's option) \<Rightarrow> mem \<Rightarrow> addr \<Rightarrow> va list \<Rightarrow> 's \<Rightarrow> 's option" where
  "printf_loop put puts m fmt args s =
     (if m fmt = 0 then Some s
      else if m fmt = 37 then
        Option.bind (printf_conv put puts m (fmt + 1) args s)
          (\<lambda>(fmt1, args1, s1). printf_loop put puts m (fmt1 + 1) args1 s1)
      else printf_loop put puts m (fmt + 1) args (put (m fmt) s))"

declare printf_loop.simps [code]

section \<open>The serial port\<close>

definition UART_PORT :: u32 where
  "UART_PORT = 0x3F8"

definition uart_putchar :: "u8 \<Rightarrow> io_hist \<Rightarrow> io_hist" where
  "uart_putchar c h = cpu_out8 UART_PORT c h"

definition uart_write_bytes :: "u8 list \<Rightarrow> io_hist \<Rightarrow> io_hist" where
  "uart_write_bytes bs h = fold (cpu_out8 UART_PORT) bs h"

definition uart_write :: "mem \<Rightarrow> addr \<Rightarrow> u64 \<Rightarrow> io_hist \<Rightarrow> io_hist" where
  "uart_write m dat s h = uart_write_bytes (bytes_at m dat (unat s)) h"

partial_function (option) uart_puts :: "mem \<Rightarrow> addr \<Rightarrow> io_hist \<Rightarrow> io_hist option" where
  "uart_puts m str h =
     (if m str = 0 then Some h else uart_puts m (str + 1) (cpu_out8 UART_PORT (m str) h))"

declare uart_puts.simps [code]

definition uart_puti :: "u32 \<Rightarrow> io_hist \<Rightarrow> io_hist option" where
  "uart_puti = put_num uart_putchar"
definition uart_putu :: "u32 \<Rightarrow> io_hist \<Rightarrow> io_hist option" where
  "uart_putu = put_unum uart_putchar"
definition uart_putl :: "u64 \<Rightarrow> io_hist \<Rightarrow> io_hist option" where
  "uart_putl = put_num uart_putchar"
definition uart_putlu :: "u64 \<Rightarrow> io_hist \<Rightarrow> io_hist option" where
  "uart_putlu = put_unum uart_putchar"
definition uart_putx :: "u32 \<Rightarrow> io_hist \<Rightarrow> io_hist option" where
  "uart_putx = put_num_hexl uart_putchar"
definition uart_putX :: "u32 \<Rightarrow> io_hist \<Rightarrow> io_hist option" where
  "uart_putX = put_num_hexu uart_putchar"
definition uart_putp :: "u64 \<Rightarrow> io_hist \<Rightarrow> io_hist option" where
  "uart_putp = put_num_hexl uart_putchar"
definition uart_putP :: "u64 \<Rightarrow> io_hist \<Rightarrow> io_hist option" where
  "uart_putP = put_num_hexu uart_putchar"

definition uart_printf :: "mem \<Rightarrow> addr \<Rightarrow> va list \<Rightarrow> io_hist \<Rightarrow> io_hist option" where
  "uart_printf m fmt args h = printf_loop uart_putchar uart_puts m fmt args h"

section \<open>The boot log\<close>

text \<open>
  \<^verbatim>\<open>term_write\<close> is the terminal of the boot loader, installed by \<^verbatim>\<open>boot_log_set_write_func\<close>: a
  parameter that transforms the terminal's own state. \<open>bl_if\<close> is the interrupt flag that
  \<^verbatim>\<open>cli\<close> and \<^verbatim>\<open>sti\<close> change.
\<close>

record 't boot_log =
  bl_write :: "u8 list \<Rightarrow> 't \<Rightarrow> 't"
  bl_term :: 't
  bl_uart :: io_hist
  bl_if :: bool
  nest_level :: u64

definition boot_log_set_write_func ::
  "(u8 list \<Rightarrow> 't \<Rightarrow> 't) \<Rightarrow> 't boot_log \<Rightarrow> 't boot_log" where
  "boot_log_set_write_func write_func b = b\<lparr>bl_write := write_func\<rparr>"

definition boot_log_write_bytes :: "u8 list \<Rightarrow> 't boot_log \<Rightarrow> 't boot_log" where
  "boot_log_write_bytes bs b =
     (let b1 = b\<lparr>bl_if := False\<rparr>;
          b2 = b1\<lparr>bl_term := bl_write b1 bs (bl_term b1)\<rparr>;
          b3 = b2\<lparr>bl_if := True\<rparr>
      in b3\<lparr>bl_uart := uart_write_bytes bs (bl_uart b3)\<rparr>)"

definition boot_log_write :: "mem \<Rightarrow> addr \<Rightarrow> u64 \<Rightarrow> 't boot_log \<Rightarrow> 't boot_log" where
  "boot_log_write m str s b = boot_log_write_bytes (bytes_at m str (unat s)) b"

definition boot_log_putchar :: "u8 \<Rightarrow> 't boot_log \<Rightarrow> 't boot_log" where
  "boot_log_putchar c b = boot_log_write_bytes [c] b"

definition boot_log_puts :: "mem \<Rightarrow> addr \<Rightarrow> 't boot_log \<Rightarrow> 't boot_log option" where
  "boot_log_puts m str b = do { n \<leftarrow> strlen m str; Some (boot_log_write m str n b) }"

definition boot_log_puti :: "u32 \<Rightarrow> 't boot_log \<Rightarrow> 't boot_log option" where
  "boot_log_puti = put_num boot_log_putchar"
definition boot_log_putu :: "u32 \<Rightarrow> 't boot_log \<Rightarrow> 't boot_log option" where
  "boot_log_putu = put_unum boot_log_putchar"
definition boot_log_putl :: "u64 \<Rightarrow> 't boot_log \<Rightarrow> 't boot_log option" where
  "boot_log_putl = put_num boot_log_putchar"
definition boot_log_putlu :: "u64 \<Rightarrow> 't boot_log \<Rightarrow> 't boot_log option" where
  "boot_log_putlu = put_unum boot_log_putchar"
definition boot_log_putp :: "u64 \<Rightarrow> 't boot_log \<Rightarrow> 't boot_log option" where
  "boot_log_putp = put_num_hexl boot_log_putchar"
definition boot_log_putP :: "u64 \<Rightarrow> 't boot_log \<Rightarrow> 't boot_log option" where
  "boot_log_putP = put_num_hexu boot_log_putchar"

definition boot_log_printf :: "mem \<Rightarrow> addr \<Rightarrow> va list \<Rightarrow> 't boot_log \<Rightarrow> 't boot_log option" where
  "boot_log_printf m fmt args b = printf_loop boot_log_putchar boot_log_puts m fmt args b"

definition boot_log_print_nest_padding :: "'t boot_log \<Rightarrow> 't boot_log" where
  "boot_log_print_nest_padding b = (boot_log_putchar 9 ^^ unat (nest_level b)) b"

definition boot_log_increase_nest_level :: "'t boot_log \<Rightarrow> 't boot_log" where
  "boot_log_increase_nest_level b = boot_log_putchar 10 (b\<lparr>nest_level := nest_level b + 1\<rparr>)"

definition boot_log_decrease_nest_level :: "'t boot_log \<Rightarrow> 't boot_log" where
  "boot_log_decrease_nest_level b = b\<lparr>nest_level := nest_level b - 1\<rparr>"

section \<open>Digits\<close>

function digits_of :: "nat \<Rightarrow> nat \<Rightarrow> nat list" where
  "digits_of base n =
     (if n < base \<or> base \<le> 1 then [n] else digits_of base (n div base) @ [n mod base])"
  by pat_completeness auto
termination
  by (relation "measure snd") (auto intro: div_less_dividend)

declare digits_of.simps [simp del]

definition digits_val :: "nat \<Rightarrow> nat list \<Rightarrow> nat" where
  "digits_val base ds = foldl (\<lambda>v d. base * v + d) 0 ds"

definition int_text :: "int \<Rightarrow> u8 list" where
  "int_text i =
     (if i < 0 then 45 # map dec_char (digits_of 10 (nat (- i))) else map dec_char (digits_of 10 (nat i)))"

lemma digits_of_val: "1 < base \<Longrightarrow> digits_val base (digits_of base n) = n"
proof (induction base n rule: digits_of.induct)
  case (1 base n)
  then show ?case by (subst digits_of.simps) (auto simp: digits_val_def)
qed

lemma digits_of_lt: "1 < base \<Longrightarrow> d \<in> set (digits_of base n) \<Longrightarrow> d < base"
proof (induction base n rule: digits_of.induct)
  case (1 base n)
  show ?case
  proof (cases "n < base")
    case True
    with 1 show ?thesis by (simp add: digits_of.simps [of base n])
  next
    case False
    with 1 show ?thesis by (auto simp: digits_of.simps [of base n])
  qed
qed

lemma digits_of_ne [simp]: "digits_of base n \<noteq> []"
  by (subst digits_of.simps) simp

lemma digits_of_lead: "1 < base \<Longrightarrow> 0 < n \<Longrightarrow> hd (digits_of base n) \<noteq> 0"
proof (induction base n rule: digits_of.induct)
  case (1 base n)
  show ?case
  proof (cases "n < base")
    case False
    with 1 have "0 < n div base" by (simp add: div_greater_zero_iff)
    with 1 False show ?thesis by (simp add: digits_of.simps [of base n])
  qed (use 1 in \<open>simp add: digits_of.simps [of base n]\<close>)
qed

lemma length_digits_of: "1 < base \<Longrightarrow> n < base ^ Suc k \<Longrightarrow> length (digits_of base n) \<le> Suc k"
proof (induction k arbitrary: n)
  case 0
  then show ?case by (subst digits_of.simps) simp
next
  case (Suc k)
  then have "n div base < base ^ Suc k" by (simp add: less_mult_imp_div_less mult.commute)
  with Suc show ?case by (subst digits_of.simps) simp
qed

lemma collect_digits_eq:
  "1 < base \<Longrightarrow> 0 < n \<Longrightarrow> length nums + length (digits_of base n) \<le> 24 \<Longrightarrow>
     collect_digits base n nums = Some (nums @ rev (digits_of base n))"
proof (induction base n nums rule: collect_digits.induct)
  case (1 base n nums)
  show ?case
  proof (cases "n < base")
    case True
    with 1 have "n div base = 0" "digits_of base n = [n]"
      by (simp_all add: digits_of.simps [of base n])
    with 1 True show ?thesis
      by (simp add: collect_digits.simps [of base n] collect_digits.simps [of base 0])
  next
    case False
    with 1 have "digits_of base n = digits_of base (n div base) @ [n mod base]"
      by (simp add: digits_of.simps [of base n])
    moreover have "0 < n div base" using 1 False by (simp add: div_greater_zero_iff)
    ultimately show ?thesis using 1 False by (simp add: collect_digits.simps [of base n])
  qed
qed

lemma emit_digits_eq:
  "i < length nums \<Longrightarrow>
     emit_digits put ch nums i s = Some (fold put (map ch (rev (take (Suc i) nums))) s)"
  by (induction i arbitrary: s) (simp_all add: take_Suc_conv_app_nth)

lemma emit_digits_empty [simp]: "emit_digits put ch [] i s = None"
  by (cases i) simp_all

lemma put_digits_eq:
  assumes "1 < base" and "0 < n" and "n < base ^ 24"
  shows "put_digits put ch base n s = Some (fold put (map ch (digits_of base n)) s)"
proof -
  let ?ds = "digits_of base n"
  have len: "length ?ds \<le> 24" using length_digits_of [of base n 23] assms by simp
  have pos: "0 < length ?ds" by simp
  have "unat (of_nat (length ?ds) - 1 :: u64) = length ?ds - 1"
    using len pos by (subst unat_diff_le) (simp_all add: unat_of_nat_64 Suc_leI)
  then show ?thesis
    using collect_digits_eq [of base n "[]"] assms len pos
      emit_digits_eq [of "length ?ds - 1" "rev ?ds" put ch s]
    by (simp add: put_digits_def Let_def)
qed

section \<open>The number printers in terms of their text\<close>

lemma u_lt_base:
  fixes num :: "'a :: len word"
  assumes "LENGTH('a) \<le> 64"
  shows "unat num < 10 ^ 24" "unat num < 16 ^ 24"
proof -
  have "unat num < 2 ^ LENGTH('a)" using unsigned_less [of num, where ?'a = nat] by simp
  also have "\<dots> \<le> (2 :: nat) ^ 64" by (rule power_increasing) (use assms in simp_all)
  finally show "unat num < 10 ^ 24" "unat num < 16 ^ 24" by simp_all
qed

lemma put_unum_eq:
  fixes num :: "'a :: len word"
  assumes "LENGTH('a) \<le> 64"
  shows "put_unum put num s = Some (fold put (map dec_char (digits_of 10 (unat num))) s)"
    and "put_num_hexl put num s = Some (fold put (map hexl_char (digits_of 16 (unat num))) s)"
    and "put_num_hexu put num s = Some (fold put (map hexu_char (digits_of 16 (unat num))) s)"
  using u_lt_base [OF assms, of num] put_digits_eq [of 10 "unat num" put dec_char s]
    put_digits_eq [of 16 "unat num" put hexl_char s] put_digits_eq [of 16 "unat num" put hexu_char s]
  by (auto simp: put_unum_def put_num_hexl_def put_num_hexu_def digits_of.simps [of _ 0]
      dec_char_def hexl_char_def hexu_char_def unat_gt_0)

lemma sint_minus:
  fixes num :: "'a :: len word"
  assumes "sint num \<noteq> - (2 ^ (LENGTH('a) - 1))"
  shows "sint (- num) = - sint num"
  using assms sint_ge [of num] sint_lt [of num]
  by (simp add: sint_word_minus signed_take_bit_int_eq_self)

lemma put_num_eq:
  fixes num :: "'a :: len word"
  assumes "LENGTH('a) \<le> 64" and "sint num \<noteq> - (2 ^ (LENGTH('a) - 1))"
  shows "put_num put num s = Some (fold put (int_text (sint num)) s)"
proof -
  have "2 ^ (LENGTH('a) - 1) \<le> (2 :: int) ^ 64" by (rule power_increasing) (use assms in simp_all)
  moreover note sint_ge [of num] sint_lt [of num]
  ultimately have lt: "nat (sint num) < 10 ^ 24" "nat (- sint num) < 10 ^ 24" by simp_all
  have zero: "num = 0 \<longleftrightarrow> sint num = 0" using signed_word_eqI [of num 0] by auto
  show ?thesis
    using put_digits_eq [of 10 "nat (sint num)" put dec_char s] lt sint_minus [OF assms(2)] zero
      put_digits_eq [of 10 "nat (- sint num)" put dec_char "put 45 s"]
    by (cases "sint num" "0 :: int" rule: linorder_cases)
      (auto simp: put_num_def int_text_def digits_of.simps [of _ 0] dec_char_def)
qed

lemma put_num_min:
  fixes num :: "'a :: len word"
  assumes "sint num = - (2 ^ (LENGTH('a) - 1))"
  shows "put_num put num s = None"
proof -
  have neg: "sint num < 0" using assms by simp
  then have "num \<noteq> 0" by auto
  moreover have "sint (- num) \<le> 0"
  proof (cases "sint (- num) = - (2 ^ (LENGTH('a) - 1))")
    case False
    then show ?thesis using sint_minus [of "- num"] assms neg sint_lt [of "- num"] by simp
  qed simp
  then have "nat (sint (- num)) = 0" by simp
  ultimately show ?thesis
    using neg by (simp add: put_num_def put_digits_def collect_digits.simps Let_def unsigned_minus_1_eq_mask
        mask_eq_exp_minus_1 emit_digits_empty)
qed

section \<open>Strings in memory\<close>

lemma cstr_at_length:
  assumes "cstr_at m s xs"
  shows "length xs < 2 ^ 64"
proof (rule ccontr)
  assume "\<not> length xs < 2 ^ 64"
  then have i: "length xs - 2 ^ 64 < length xs" "length xs = length xs - 2 ^ 64 + 2 ^ 64" by auto
  have wrap: "(of_nat (2 ^ 64) :: u64) = 0" by simp
  have "of_nat (length xs) = (of_nat (length xs - 2 ^ 64) :: u64)"
    using arg_cong [OF i(2), of "of_nat :: nat \<Rightarrow> u64"] wrap by (simp only: of_nat_add add_0_right)
  moreover from assms have "m (s + of_nat (length xs)) = 0" "0 \<notin> set xs"
    "\<forall>i < length xs. m (s + of_nat i) = xs ! i"
    using cstr_at_append [of m s xs "[]"] by simp_all
  ultimately show False using i(1) by (metis nth_mem)
qed

lemma bytes_at_cstr: "cstr_at m s xs \<Longrightarrow> bytes_at m s (length xs) = xs"
  by (induction xs arbitrary: s) auto

section \<open>What a sink promises\<close>

datatype piece =
    Lit u8 | Str addr "u8 list" | Chr u32 | Dec u32 | Dec_i u32 | Uns u32 | Hexl u32 | Hexu u32
  | Ptrl addr | Ptru addr | Dec_l u64 | Dec_li u64 | Uns_l u64 | Dec_ll u64 | Dec_lli u64 | Uns_ll u64
  | Unknown u8 | Unknown_l u8 | Unknown_ll u8

fun piece_fmt :: "piece \<Rightarrow> u8 list" where
  "piece_fmt (Lit c) = [c]"
| "piece_fmt (Str p xs) = [37, 115]"
| "piece_fmt (Chr v) = [37, 99]"
| "piece_fmt (Dec v) = [37, 100]"
| "piece_fmt (Dec_i v) = [37, 105]"
| "piece_fmt (Uns v) = [37, 117]"
| "piece_fmt (Hexl v) = [37, 120]"
| "piece_fmt (Hexu v) = [37, 88]"
| "piece_fmt (Ptrl v) = [37, 112]"
| "piece_fmt (Ptru v) = [37, 80]"
| "piece_fmt (Dec_l v) = [37, 108, 100]"
| "piece_fmt (Dec_li v) = [37, 108, 105]"
| "piece_fmt (Uns_l v) = [37, 108, 117]"
| "piece_fmt (Dec_ll v) = [37, 108, 108, 100]"
| "piece_fmt (Dec_lli v) = [37, 108, 108, 105]"
| "piece_fmt (Uns_ll v) = [37, 108, 108, 117]"
| "piece_fmt (Unknown c) = [37, c]"
| "piece_fmt (Unknown_l c) = [37, 108, c]"
| "piece_fmt (Unknown_ll c) = [37, 108, 108, c]"

fun piece_args :: "piece \<Rightarrow> va list" where
  "piece_args (Lit c) = []"
| "piece_args (Str p xs) = [VPtr p]"
| "piece_args (Chr v) = [VInt v]"
| "piece_args (Dec v) = [VInt v]"
| "piece_args (Dec_i v) = [VInt v]"
| "piece_args (Uns v) = [VInt v]"
| "piece_args (Hexl v) = [VInt v]"
| "piece_args (Hexu v) = [VInt v]"
| "piece_args (Ptrl v) = [VPtr v]"
| "piece_args (Ptru v) = [VPtr v]"
| "piece_args (Dec_l v) = [VLong v]"
| "piece_args (Dec_li v) = [VLong v]"
| "piece_args (Uns_l v) = [VLong v]"
| "piece_args (Dec_ll v) = [VLong v]"
| "piece_args (Dec_lli v) = [VLong v]"
| "piece_args (Uns_ll v) = [VLong v]"
| "piece_args (Unknown c) = []"
| "piece_args (Unknown_l c) = []"
| "piece_args (Unknown_ll c) = []"

fun piece_text :: "piece \<Rightarrow> u8 list" where
  "piece_text (Lit c) = [c]"
| "piece_text (Str p xs) = xs"
| "piece_text (Chr v) = [ucast v]"
| "piece_text (Dec v) = int_text (sint v)"
| "piece_text (Dec_i v) = int_text (sint v)"
| "piece_text (Uns v) = map dec_char (digits_of 10 (unat v))"
| "piece_text (Hexl v) = map hexl_char (digits_of 16 (unat v))"
| "piece_text (Hexu v) = map hexu_char (digits_of 16 (unat v))"
| "piece_text (Ptrl v) = map hexl_char (digits_of 16 (unat v))"
| "piece_text (Ptru v) = map hexu_char (digits_of 16 (unat v))"
| "piece_text (Dec_l v) = int_text (sint v)"
| "piece_text (Dec_li v) = int_text (sint v)"
| "piece_text (Uns_l v) = map dec_char (digits_of 10 (unat v))"
| "piece_text (Dec_ll v) = int_text (sint v)"
| "piece_text (Dec_lli v) = int_text (sint v)"
| "piece_text (Uns_ll v) = map dec_char (digits_of 10 (unat v))"
| "piece_text (Unknown c) = []"
| "piece_text (Unknown_l c) = []"
| "piece_text (Unknown_ll c) = []"

text \<open>
  A piece is well formed when it is what its constructor says: a literal is neither the terminator nor a percent
  sign, and an unknown conversion is a character that no case of the switch has.
\<close>

fun piece_wf :: "mem \<Rightarrow> piece \<Rightarrow> bool" where
  "piece_wf m (Lit c) \<longleftrightarrow> c \<noteq> 0 \<and> c \<noteq> 37"
| "piece_wf m (Str p xs) \<longleftrightarrow> cstr_at m p xs"
| "piece_wf m (Unknown c) \<longleftrightarrow> c \<notin> {0, 115, 99, 100, 105, 117, 120, 88, 112, 80, 108}"
| "piece_wf m (Unknown_l c) \<longleftrightarrow> c \<notin> {0, 100, 105, 117, 108}"
| "piece_wf m (Unknown_ll c) \<longleftrightarrow> c \<notin> {0, 100, 105, 117}"
| "piece_wf m _ \<longleftrightarrow> True"

text \<open>The arguments that the decimal printers do not print: the least values of their types.\<close>

fun piece_least :: "piece \<Rightarrow> bool" where
  "piece_least (Dec v) \<longleftrightarrow> sint v = - (2 ^ 31)"
| "piece_least (Dec_i v) \<longleftrightarrow> sint v = - (2 ^ 31)"
| "piece_least (Dec_l v) \<longleftrightarrow> sint v = - (2 ^ 63)"
| "piece_least (Dec_li v) \<longleftrightarrow> sint v = - (2 ^ 63)"
| "piece_least (Dec_ll v) \<longleftrightarrow> sint v = - (2 ^ 63)"
| "piece_least (Dec_lli v) \<longleftrightarrow> sint v = - (2 ^ 63)"
| "piece_least _ \<longleftrightarrow> False"

locale char_sink =
  fixes put :: "u8 \<Rightarrow> 's \<Rightarrow> 's"
    and puts :: "mem \<Rightarrow> addr \<Rightarrow> 's \<Rightarrow> 's option"
    and out :: "'s \<Rightarrow> u8 list"
  assumes out_put: "out (put c s) = out s @ [c]"
    and out_puts: "cstr_at m p xs \<Longrightarrow> \<exists>s'. puts m p s = Some s' \<and> out s' = out s @ xs"
begin

lemma out_fold: "out (fold put cs s) = out s @ cs"
  by (induction cs arbitrary: s) (simp_all add: out_put)

lemma printf_piece:
  assumes "piece_wf m x" and "cstr_at m fmt (piece_fmt x @ rest)"
  shows "if piece_least x then printf_loop put puts m fmt (piece_args x @ args) s = None
    else \<exists>s'. out s' = out s @ piece_text x \<and>
      printf_loop put puts m fmt (piece_args x @ args) s
        = printf_loop put puts m (fmt + of_nat (length (piece_fmt x))) args s'"
proof -
  have d32: "if sint v = - (2 ^ 31) then put_num put v s = None else \<exists>s'. put_num put v s = Some s' \<and> out s' = out s @ int_text (sint v)"
    for v :: u32
    using put_num_eq [of v put s] put_num_min [of v put s] by (simp add: out_fold)
  have d64: "if sint v = - (2 ^ 63) then put_num put v s = None else \<exists>s'. put_num put v s = Some s' \<and> out s' = out s @ int_text (sint v)"
    for v :: u64
    using put_num_eq [of v put s] put_num_min [of v put s] by (simp add: out_fold)
  have pos: "fmt + 2 = 2 + fmt" "fmt + 3 = 3 + fmt" "fmt + 4 = 4 + fmt" by (simp_all only: add.commute)
  note defs = pos printf_loop.simps [of put puts m fmt] printf_conv_def printf_l_def printf_ll_def
    va_int_def va_long_def va_ptr_def put_unum_eq out_fold out_put
  show ?thesis
  proof (cases x)
    case (Str p xs)
    with assms(1) out_puts [of m p xs s] obtain s' where "puts m p s = Some s'" "out s' = out s @ xs"
      by auto
    with Str assms(2) show ?thesis by (auto simp: defs)
  next
    case (Dec v)
    with d32 [of v] assms(2) show ?thesis by (cases "piece_least x") (force simp: defs)+
  next
    case (Dec_i v)
    with d32 [of v] assms(2) show ?thesis by (cases "piece_least x") (force simp: defs)+
  next
    case (Dec_l v)
    with d64 [of v] assms(2) show ?thesis by (cases "piece_least x") (force simp: defs)+
  next
    case (Dec_li v)
    with d64 [of v] assms(2) show ?thesis by (cases "piece_least x") (force simp: defs)+
  next
    case (Dec_ll v)
    with d64 [of v] assms(2) show ?thesis by (cases "piece_least x") (force simp: defs)+
  next
    case (Dec_lli v)
    with d64 [of v] assms(2) show ?thesis by (cases "piece_least x") (force simp: defs)+
  qed (use assms in \<open>auto simp: defs intro!: exI\<close>)
qed

lemma printf_pieces:
  assumes "list_all (piece_wf m) ps" and "cstr_at m fmt (concat (map piece_fmt ps))"
  shows "if list_ex piece_least ps then printf_loop put puts m fmt (concat (map piece_args ps)) s = None
    else \<exists>s'. printf_loop put puts m fmt (concat (map piece_args ps)) s = Some s' \<and> out s' = out s @ concat (map piece_text ps)"
  using assms
proof (induction ps arbitrary: fmt s)
  case Nil
  then show ?case by (simp add: printf_loop.simps)
next
  case (Cons x ps)
  let ?fmt = "fmt + of_nat (length (piece_fmt x))" and ?run = "printf_loop put puts m fmt (piece_args x @ concat (map piece_args ps)) s"
  have rest: "cstr_at m ?fmt (concat (map piece_fmt ps))"
    using Cons.prems(2) by (simp add: cstr_at_append)
  have piece: "if piece_least x then ?run = None else \<exists>s'. out s' = out s @ piece_text x \<and>
      ?run = printf_loop put puts m ?fmt (concat (map piece_args ps)) s'"
    using printf_piece [of m x fmt "concat (map piece_fmt ps)"] Cons.prems by simp
  show ?case
  proof (cases "piece_least x")
    case False
    with piece obtain s' where "out s' = out s @ piece_text x" "?run = printf_loop put puts m ?fmt (concat (map piece_args ps)) s'"
      by auto
    with False Cons.IH [OF _ rest, of s'] Cons.prems(1) show ?thesis by auto
  qed (use piece in simp)
qed

end

section \<open>The two sinks\<close>

lemma uart_puts_cstr:
  "cstr_at m p xs \<Longrightarrow> uart_puts m p h = Some (h @ map (Out8 UART_PORT) xs)"
  by (induction xs arbitrary: p h) (auto simp: uart_puts.simps cpu_out8_def)

lemma uart_write_bytes_eq: "uart_write_bytes bs h = h @ map (Out8 UART_PORT) bs"
  unfolding uart_write_bytes_def by (induction bs arbitrary: h) (simp_all add: cpu_out8_def)

lemma port_bytes_out8 [simp]: "port_bytes port (map (Out8 port) bs) = bs"
  by (induction bs) auto

interpretation uart_sink: char_sink uart_putchar uart_puts "port_bytes UART_PORT"
  by unfold_locales (auto simp: uart_putchar_def cpu_out8_def uart_puts_cstr)

interpretation boot_log_sink: char_sink boot_log_putchar boot_log_puts "\<lambda>b. port_bytes UART_PORT (bl_uart b)"
proof unfold_locales
  fix c and b :: "'t boot_log"
  show "port_bytes UART_PORT (bl_uart (boot_log_putchar c b)) = port_bytes UART_PORT (bl_uart b) @ [c]"
    by (simp add: boot_log_putchar_def boot_log_write_bytes_def uart_write_bytes_eq Let_def)
next
  fix m p xs and b :: "'t boot_log"
  assume xs: "cstr_at m p xs"
  have "unat (of_nat (length xs) :: u64) = length xs"
    using cstr_at_length [OF xs] by (rule unat_of_nat_64)
  then show "\<exists>b'. boot_log_puts m p b = Some b' \<and>
      port_bytes UART_PORT (bl_uart b') = port_bytes UART_PORT (bl_uart b) @ xs"
    using xs by (simp add: boot_log_puts_def strlen_cstr boot_log_write_def bytes_at_cstr
        boot_log_write_bytes_def uart_write_bytes_eq Let_def)
qed

section \<open>Properties\<close>

text \<open>
  C40: \<^verbatim>\<open>uart_printf\<close> and \<^verbatim>\<open>boot_log_printf\<close> write to the serial port exactly the text the format
  describes: for a format string that is a sequence of literal characters, of all conversions of the code
  (with both letters \<^verbatim>\<open>d\<close> and \<^verbatim>\<open>i\<close> at every width) and of conversions it does not know, with matching arguments, each piece
  contributes its text (decimal, hexadecimal, a character, a string, nothing for an unknown conversion),
  in order, and the call returns. When one of the signed arguments is the least value of its type the call
  has no result: the code then reads its array of digits out of bounds.
\<close>

theorem printf_renders_format:
  assumes "list_all (piece_wf m) ps" and "cstr_at m fmt (concat (map piece_fmt ps))"
  shows "if list_ex piece_least ps
    then uart_printf m fmt (concat (map piece_args ps)) h = None \<and> boot_log_printf m fmt (concat (map piece_args ps)) b = None
    else (\<exists>h'. uart_printf m fmt (concat (map piece_args ps)) h = Some h' \<and>
        port_bytes UART_PORT h' = port_bytes UART_PORT h @ concat (map piece_text ps)) \<and>
      (\<exists>b'. boot_log_printf m fmt (concat (map piece_args ps)) b = Some b' \<and>
        port_bytes UART_PORT (bl_uart b') = port_bytes UART_PORT (bl_uart b) @ concat (map piece_text ps))"
  using uart_sink.printf_pieces [OF assms, of h] boot_log_sink.printf_pieces [OF assms, of b]
  by (simp add: uart_printf_def boot_log_printf_def)

definition demo_format :: mem where
  "demo_format = (\<lambda>_. 0)(0x10 := 97, 0x11 := 37, 0x12 := 100, 0x13 := 37, 0x14 := 108, 0x15 := 105)"

theorem printf_renders_format_witness:
  "(\<exists>h'. uart_printf demo_format 0x10 [VInt 42, VLong (- 7)] [] = Some h' \<and> port_bytes UART_PORT h' = [97, 52, 50, 45, 55]) \<and>
   uart_printf demo_format 0x10 [VInt 0x80000000, VLong 1] [] = None"
proof -
  let ?b = "\<lparr>bl_write = \<lambda>_ t. t, bl_term = (), bl_uart = [], bl_if = True, nest_level = 0\<rparr>"
  have "cstr_at demo_format 0x10 [97, 37, 100, 37, 108, 105]" by (simp add: demo_format_def)
  then show ?thesis
    using printf_renders_format [of demo_format "[Lit 97, Dec 42, Dec_li (- 7)]" "0x10" "[]" ?b]
      printf_renders_format [of demo_format "[Lit 97, Dec 0x80000000, Dec_li 1]" "0x10" "[]" ?b]
    by (simp add: int_text_def digits_of.simps dec_char_def)
qed

text \<open>
  The decimal printers are exact: for every value but the least one, the text
  \<^verbatim>\<open>uart_putl\<close> writes is an optional minus sign followed by decimal digits without a leading
  zero whose value is the magnitude of the number; at most 24 digits are needed, so the array
  \<^verbatim>\<open>nums\<close> is never overrun. For the least value (\<^verbatim>\<open>LONG_MIN\<close>, \<^verbatim>\<open>INT_MIN\<close>), whose negation
  overflows to itself, no digit is produced and the code reads the array out of bounds.
\<close>

theorem uart_decimal_exact:
  fixes n :: u64 and k :: u32
  shows "(sint n = - (2 ^ 63) \<longrightarrow> uart_putl n h = None) \<and> (sint k = - (2 ^ 31) \<longrightarrow> uart_puti k h = None) \<and>
    (sint n \<noteq> - (2 ^ 63) \<longrightarrow> (\<exists>h' ds. uart_putl n h = Some h' \<and>
      port_bytes UART_PORT h' = port_bytes UART_PORT h @
        (if sint n < 0 then [45] else []) @ map (\<lambda>d. 48 + of_nat d) ds \<and>
      int (digits_val 10 ds) = \<bar>sint n\<bar> \<and> (\<forall>d \<in> set ds. d < 10) \<and> (n \<noteq> 0 \<longrightarrow> hd ds \<noteq> 0)))"
proof (intro conjI impI)
  show "uart_putl n h = None" if "sint n = - (2 ^ 63)"
    using that by (simp add: uart_putl_def put_num_min)
  show "uart_puti k h = None" if "sint k = - (2 ^ 31)"
    using that by (simp add: uart_puti_def put_num_min)
  assume n: "sint n \<noteq> - (2 ^ 63)"
  let ?ds = "digits_of 10 (nat \<bar>sint n\<bar>)"
  let ?h = "fold uart_putchar (int_text (sint n)) h"
  have "uart_putl n h = Some ?h" using n by (simp add: uart_putl_def put_num_eq)
  moreover have "port_bytes UART_PORT ?h = port_bytes UART_PORT h @
      (if sint n < 0 then [45] else []) @ map (\<lambda>d. 48 + of_nat d) ?ds"
    by (simp add: uart_sink.out_fold int_text_def dec_char_def)
  moreover have "n \<noteq> 0 \<longrightarrow> hd ?ds \<noteq> 0"
    using digits_of_lead [of 10 "nat \<bar>sint n\<bar>"] signed_word_eqI [of n 0] by auto
  ultimately show "\<exists>h' ds. uart_putl n h = Some h' \<and>
      port_bytes UART_PORT h' = port_bytes UART_PORT h @
        (if sint n < 0 then [45] else []) @ map (\<lambda>d. 48 + of_nat d) ds \<and>
      int (digits_val 10 ds) = \<bar>sint n\<bar> \<and> (\<forall>d \<in> set ds. d < 10) \<and> (n \<noteq> 0 \<longrightarrow> hd ds \<noteq> 0)"
    using digits_of_lt [of 10 _ "nat \<bar>sint n\<bar>"]
    by (intro exI [of _ ?h] exI [of _ ?ds]) (auto simp: digits_of_val)
qed

theorem uart_decimal_exact_witness:
  "uart_putl 0x8000000000000000 [] = None \<and>
   (\<exists>h' ds. uart_putl 1234 [] = Some h' \<and> port_bytes UART_PORT h' = map (\<lambda>d. 48 + of_nat d) ds \<and>
     digits_val 10 ds = 1234)"
  using uart_decimal_exact [of "0x8000000000000000" "[]" 0] uart_decimal_exact [of 1234 "[]" 0] by auto

text \<open>
  A format that ends in a percent sign makes \<^verbatim>\<open>uart_printf\<close> skip the terminator: it goes on
  with whatever lies behind the string and prints it up to the next zero byte.
\<close>

lemma printf_trailing_percent_overreads:
  assumes "m fmt = 37" and "m (fmt + 1) = 0" and "cstr_at m (fmt + 2) xs" and "37 \<notin> set xs"
  shows "uart_printf m fmt [] h = Some (h @ map (Out8 UART_PORT) xs)"
proof -
  have plain: "printf_loop uart_putchar uart_puts m p [] h = Some (h @ map (Out8 UART_PORT) xs)"
    if "cstr_at m p xs" "37 \<notin> set xs" for p xs
    using that by (induction xs arbitrary: p h)
      (auto simp: printf_loop.simps uart_putchar_def cpu_out8_def)
  show ?thesis
    using plain [OF assms(3,4), unfolded add.commute [of fmt 2]] assms(1,2)
    by (simp add: uart_printf_def printf_loop.simps [of _ _ _ fmt] printf_conv_def)
qed

lemma printf_trailing_percent_overreads_witness:
  "uart_printf ((\<lambda>_. 0)(0x10 := 37, 0x12 := 83)) 0x10 [] [] = Some [Out8 UART_PORT 83]"
  using printf_trailing_percent_overreads [of "(\<lambda>_. 0)(0x10 := 37, 0x12 := 83)" "0x10" "[83]" "[]"]
  by simp

end
