(* ===== verification/Rbtree.thy ===== *)
theory Rbtree
  imports Prelude
begin

text \<open>
  The linked red-black tree that \<^verbatim>\<open>modules/vmemory/allocator.c\<close> and
  \<^verbatim>\<open>modules/mtask/thread_tree.c\<close> both contain, with the same text up to the payload of a node and
  the place of its colour. Here it is written once over the payload \<open>'b\<close>, with the two colour
  accessors \<open>gc\<close> (is it red) and \<open>sc\<close> (set it) and the comparison \<open>lt\<close> of \<^verbatim>\<open>insert\<close> as
  arguments; the two theories that follow instantiate it. Nodes are records in a store indexed by
  pointers, so every assignment of the code to a child or parent link is an update of the store and
  aliasing is explicit. \<^const>\<open>None\<close> is a dereference of \<^verbatim>\<open>NULL\<close> or of a pointer to no node, or a
  loop that does not end.

  \<open>tree_at\<close> relates the store to a tree value, \<open>ctx_at\<close> to the path above a node. The insertion
  code is shown to compute \<open>ins\<close> and \<open>ins_fix\<close> on such values, and these keep the search order,
  the set of nodes and the red-black balance.
\<close>

section \<open>The store\<close>

record 'b tnode =
  n_left :: addr
  n_right :: addr
  n_parent :: addr
  n_body :: 'b

record 'b tree_st =
  t_nodes :: "addr \<Rightarrow> 'b tnode option"
  t_root :: addr

text \<open>Directions: \<^const>\<open>False\<close> is \<^verbatim>\<open>TREE_DIR_LEFT\<close>, \<^const>\<open>True\<close> is \<^verbatim>\<open>TREE_DIR_RIGHT\<close>.\<close>

definition n_child :: "bool \<Rightarrow> 'b tnode \<Rightarrow> addr" where
  "n_child dir n = (if dir then n_right n else n_left n)"

definition set_child :: "bool \<Rightarrow> addr \<Rightarrow> 'b tnode \<Rightarrow> 'b tnode" where
  "set_child dir v n = (if dir then n\<lparr>n_right := v\<rparr> else n\<lparr>n_left := v\<rparr>)"

definition deref :: "('b, 'x) tree_st_scheme \<Rightarrow> addr \<Rightarrow> 'b tnode option" where
  "deref t p = (if p = NULL then None else t_nodes t p)"

definition modify :: "addr \<Rightarrow> ('b tnode \<Rightarrow> 'b tnode) \<Rightarrow> ('b, 'x) tree_st_scheme \<Rightarrow> ('b, 'x) tree_st_scheme option" where
  "modify p f t = do { n \<leftarrow> deref t p; Some (t\<lparr>t_nodes := (t_nodes t)(p \<mapsto> f n)\<rparr>) }"

definition paint :: "(bool \<Rightarrow> 'b \<Rightarrow> 'b) \<Rightarrow> bool \<Rightarrow> addr \<Rightarrow> ('b, 'x) tree_st_scheme \<Rightarrow> ('b, 'x) tree_st_scheme option" where
  "paint sc red p t = modify p (n_body_update (sc red)) t"

definition is_red :: "('b \<Rightarrow> bool) \<Rightarrow> addr \<Rightarrow> ('b, 'x) tree_st_scheme \<Rightarrow> bool option" where
  "is_red gc p t = do { n \<leftarrow> deref t p; Some (gc (n_body n)) }"

definition tree_dir_child :: "addr \<Rightarrow> ('b, 'x) tree_st_scheme \<Rightarrow> bool option" where
  "tree_dir_child p t =
     do { n \<leftarrow> deref t p; g \<leftarrow> deref t (n_parent n); Some (p = n_right g) }"

definition tree_get_sibling :: "addr \<Rightarrow> ('b, 'x) tree_st_scheme \<Rightarrow> addr option" where
  "tree_get_sibling p t =
     do {
       n \<leftarrow> deref t p;
       if n_parent n \<noteq> NULL then do {
         g \<leftarrow> deref t (n_parent n);
         dir \<leftarrow> tree_dir_child p t;
         Some (n_child dir g)
       } else Some NULL
     }"

section \<open>Rotation and insertion\<close>

definition rb_rotate :: "addr \<Rightarrow> bool \<Rightarrow> ('b, 'x) tree_st_scheme \<Rightarrow> ('b, 'x) tree_st_scheme option" where
  "rb_rotate p dir t =
     do {
       np \<leftarrow> deref t p;
       let g = n_parent np;
       let s = n_child (\<not> dir) np;
       c \<leftarrow> (if s \<noteq> NULL then do { ns \<leftarrow> deref t s; Some (n_child dir ns) } else Some NULL);
       t1 \<leftarrow> modify p (set_child (\<not> dir) c) t;
       t2 \<leftarrow> (if c \<noteq> NULL then modify c (n_parent_update (\<lambda>_. p)) t1 else Some t1);
       t3 \<leftarrow> (if s \<noteq> NULL then modify s (set_child dir p) t2 else Some t2);
       t4 \<leftarrow> modify p (n_parent_update (\<lambda>_. s)) t3;
       t5 \<leftarrow> modify s (n_parent_update (\<lambda>_. g)) t4;
       if g \<noteq> NULL then do {
         ng \<leftarrow> deref t5 g;
         modify g (set_child (p = n_right ng) s) t5
       } else Some (t5\<lparr>t_root := s\<rparr>)
     }"

partial_function (option) rb_insert_fix ::
  "('b \<Rightarrow> bool) \<Rightarrow> (bool \<Rightarrow> 'b \<Rightarrow> 'b) \<Rightarrow> addr \<Rightarrow> addr \<Rightarrow> ('b, 'x) tree_st_scheme \<Rightarrow> ('b, 'x) tree_st_scheme option" where
  "rb_insert_fix gc sc n p t =
     do {
       np \<leftarrow> deref t p;
       if \<not> gc (n_body np) then Some t
       else let g = n_parent np in
         if g = NULL then paint sc True p t
         else do {
           dir \<leftarrow> tree_dir_child p t;
           ng \<leftarrow> deref t g;
           let u = n_child (\<not> dir) ng;
           u_black \<leftarrow> (if u = NULL then Some True else map_option Not (is_red gc u t));
           if u_black then do {
             inner \<leftarrow> Some (n = n_child (\<not> dir) np);
             t1 \<leftarrow> (if inner then rb_rotate p dir t else Some t);
             ng1 \<leftarrow> deref t1 g;
             let p1 = (if inner then n_child dir ng1 else p);
             t2 \<leftarrow> rb_rotate g (\<not> dir) t1;
             t3 \<leftarrow> paint sc False p1 t2;
             paint sc True g t3
           } else do {
             t1 \<leftarrow> paint sc False p t;
             t2 \<leftarrow> paint sc False u t1;
             t3 \<leftarrow> paint sc True g t2;
             ng3 \<leftarrow> deref t3 g;
             if n_parent ng3 = NULL then Some t3 else rb_insert_fix gc sc g (n_parent ng3) t3
           }
         }
     }"

declare rb_insert_fix.simps [code]

definition rb_insertp ::
  "('b \<Rightarrow> bool) \<Rightarrow> (bool \<Rightarrow> 'b \<Rightarrow> 'b) \<Rightarrow> addr \<Rightarrow> addr \<Rightarrow> bool \<Rightarrow> ('b, 'x) tree_st_scheme \<Rightarrow> ('b, 'x) tree_st_scheme option" where
  "rb_insertp gc sc n p dir t =
     do {
       t1 \<leftarrow> paint sc True n t;
       t2 \<leftarrow> modify n (\<lambda>x. x\<lparr>n_left := NULL, n_right := NULL\<rparr>) t1;
       t3 \<leftarrow> modify n (n_parent_update (\<lambda>_. p)) t2;
       if p = NULL then do {
         t4 \<leftarrow> paint sc False n t3;
         Some (t4\<lparr>t_root := n\<rparr>)
       } else do {
         t4 \<leftarrow> modify p (set_child dir n) t3;
         rb_insert_fix gc sc n p t4
       }
     }"

partial_function (option) rb_insert_at ::
  "('b \<Rightarrow> bool) \<Rightarrow> (bool \<Rightarrow> 'b \<Rightarrow> 'b) \<Rightarrow> ('b \<Rightarrow> 'b \<Rightarrow> bool) \<Rightarrow> addr \<Rightarrow> addr \<Rightarrow> ('b, 'x) tree_st_scheme \<Rightarrow>
   ('b, 'x) tree_st_scheme option" where
  "rb_insert_at gc sc lt n cur t =
     (if cur = NULL then Some t
      else do {
        nn \<leftarrow> deref t n;
        nr \<leftarrow> deref t cur;
        let dir = (\<not> lt (n_body nn) (n_body nr));
        if n_child dir nr = NULL then do {
          t1 \<leftarrow> modify cur (set_child dir n) t;
          t2 \<leftarrow> modify n (\<lambda>x. x\<lparr>n_left := NULL, n_right := NULL\<rparr>) t1;
          rb_insertp gc sc n cur dir t2
        } else rb_insert_at gc sc lt n (n_child dir nr) t
      })"

declare rb_insert_at.simps [code]

definition rb_insert ::
  "('b \<Rightarrow> bool) \<Rightarrow> (bool \<Rightarrow> 'b \<Rightarrow> 'b) \<Rightarrow> ('b \<Rightarrow> 'b \<Rightarrow> bool) \<Rightarrow> addr \<Rightarrow> ('b, 'x) tree_st_scheme \<Rightarrow> ('b, 'x) tree_st_scheme option" where
  "rb_insert gc sc lt n t =
     (if t_root t = NULL then do {
        t1 \<leftarrow> paint sc False n t;
        t2 \<leftarrow> modify n (\<lambda>x. x\<lparr>n_left := NULL, n_right := NULL\<rparr>) t1;
        t3 \<leftarrow> modify n (n_parent_update (\<lambda>_. NULL)) t2;
        Some (t3\<lparr>t_root := n\<rparr>)
      } else rb_insert_at gc sc lt n (t_root t) t)"

section \<open>Deletion\<close>

partial_function (option) rb_leftmost :: "addr \<Rightarrow> ('b, 'x) tree_st_scheme \<Rightarrow> addr option" where
  "rb_leftmost p t =
     do { n \<leftarrow> deref t p; if n_left n \<noteq> NULL then rb_leftmost (n_left n) t else Some p }"

declare rb_leftmost.simps [code]

definition rb_delete_replacement :: "addr \<Rightarrow> ('b, 'x) tree_st_scheme \<Rightarrow> addr option" where
  "rb_delete_replacement p t =
     do {
       n \<leftarrow> deref t p;
       if n_left n \<noteq> NULL \<and> n_right n \<noteq> NULL then rb_leftmost p t
       else if n_left n = NULL \<and> n_right n = NULL then Some NULL
       else Some (if n_left n \<noteq> NULL then n_left n else n_right n)
     }"

definition red_child :: "('b \<Rightarrow> bool) \<Rightarrow> addr \<Rightarrow> ('b, 'x) tree_st_scheme \<Rightarrow> bool option" where
  "red_child gc p t = (if p = NULL then Some False else is_red gc p t)"

definition fixbb_red_child ::
  "('b \<Rightarrow> bool) \<Rightarrow> (bool \<Rightarrow> 'b \<Rightarrow> 'b) \<Rightarrow> addr \<Rightarrow> addr \<Rightarrow> bool \<Rightarrow> ('b, 'x) tree_st_scheme \<Rightarrow> ('b, 'x) tree_st_scheme option" where
  "fixbb_red_child gc sc s p on_left t =
     do {
       ns \<leftarrow> deref t s;
       dir \<leftarrow> tree_dir_child s t;
       let x = (if on_left then n_left ns else n_right ns);
       t4 \<leftarrow> (if dir = (\<not> on_left) then do {
               s_clr \<leftarrow> is_red gc s t;
               t1 \<leftarrow> paint sc s_clr x t;
               p_clr \<leftarrow> is_red gc p t1;
               t2 \<leftarrow> paint sc p_clr s t1;
               rb_rotate p on_left t2
             } else do {
               p_clr \<leftarrow> is_red gc p t;
               t1 \<leftarrow> paint sc p_clr x t;
               t2 \<leftarrow> rb_rotate s on_left t1;
               rb_rotate p (\<not> on_left) t2
             });
       paint sc False p t4
     }"

partial_function (option) rb_delete_fixbb ::
  "('b \<Rightarrow> bool) \<Rightarrow> (bool \<Rightarrow> 'b \<Rightarrow> 'b) \<Rightarrow> addr \<Rightarrow> ('b, 'x) tree_st_scheme \<Rightarrow> ('b, 'x) tree_st_scheme option" where
  "rb_delete_fixbb gc sc n t =
     (if n = t_root t then Some t
      else do {
        s \<leftarrow> tree_get_sibling n t;
        nn \<leftarrow> deref t n;
        let p = n_parent nn;
        if s = NULL then rb_delete_fixbb gc sc p t
        else do {
          s_red \<leftarrow> is_red gc s t;
          if s_red then do {
            t1 \<leftarrow> paint sc True p t;
            t2 \<leftarrow> paint sc False s t1;
            dir \<leftarrow> tree_dir_child s t2;
            t3 \<leftarrow> rb_rotate p dir t2;
            rb_delete_fixbb gc sc n t3
          } else do {
            ns \<leftarrow> deref t s;
            l_red \<leftarrow> red_child gc (n_left ns) t;
            r_red \<leftarrow> red_child gc (n_right ns) t;
            if l_red \<or> r_red then fixbb_red_child gc sc s p l_red t
            else do {
              t1 \<leftarrow> paint sc True s t;
              p_red \<leftarrow> is_red gc p t1;
              if \<not> p_red then rb_delete_fixbb gc sc n t1 else paint sc False p t1
            }
          }
        }
      })"

declare rb_delete_fixbb.simps [code]

text \<open>
  The two files differ in what they move when the payloads of two nodes change places:
  \<open>swap\<close> gives the new payloads of \<^verbatim>\<open>n\<close> and \<^verbatim>\<open>u\<close>, \<open>absorb\<close> the payload of \<^verbatim>\<open>n\<close> when it takes over
  its only child, and \<open>relink\<close> what is done for a node whose payload has changed. The result is the
  node that has left the tree.
\<close>

definition rb_unlink_leaf ::
  "('b \<Rightarrow> bool) \<Rightarrow> (bool \<Rightarrow> 'b \<Rightarrow> 'b) \<Rightarrow> addr \<Rightarrow> ('b, 'x) tree_st_scheme \<Rightarrow> ('b, 'x) tree_st_scheme option" where
  "rb_unlink_leaf gc sc n t =
     do {
       nn \<leftarrow> deref t n;
       let p = n_parent nn;
       if n = t_root t then Some (t\<lparr>t_root := NULL\<rparr>)
       else do {
         t1 \<leftarrow> (if \<not> gc (n_body nn) then rb_delete_fixbb gc sc n t
               else do {
                 s \<leftarrow> tree_get_sibling n t;
                 if s \<noteq> NULL then paint sc True s t else Some t
               });
         dir \<leftarrow> tree_dir_child n t1;
         modify p (set_child dir NULL) t1
       }
     }"

definition rb_unlink_single ::
  "('b \<Rightarrow> bool) \<Rightarrow> (bool \<Rightarrow> 'b \<Rightarrow> 'b) \<Rightarrow> ('b \<Rightarrow> 'b \<Rightarrow> 'b) \<Rightarrow>
   (addr \<Rightarrow> ('b, 'x) tree_st_scheme \<Rightarrow> ('b, 'x) tree_st_scheme option) \<Rightarrow> addr \<Rightarrow> addr \<Rightarrow>
   ('b, 'x) tree_st_scheme \<Rightarrow> (('b, 'x) tree_st_scheme \<times> addr) option" where
  "rb_unlink_single gc sc absorb relink n u t =
     do {
       nn \<leftarrow> deref t n;
       nu \<leftarrow> deref t u;
       let un_is_black = (\<not> gc (n_body nu) \<and> \<not> gc (n_body nn));
       let p = n_parent nn;
       if n = t_root t then do {
         t1 \<leftarrow> modify n (n_body_update (\<lambda>b. absorb b (n_body nu))) t;
         t2 \<leftarrow> relink n t1;
         t3 \<leftarrow> modify n (\<lambda>x. x\<lparr>n_left := NULL, n_right := NULL\<rparr>) t2;
         Some (t3, u)
       } else do {
         dir \<leftarrow> tree_dir_child n t;
         t1 \<leftarrow> modify p (set_child dir u) t;
         t2 \<leftarrow> modify u (n_parent_update (\<lambda>_. p)) t1;
         t3 \<leftarrow> (if un_is_black then rb_delete_fixbb gc sc n t2 else paint sc False u t2);
         Some (t3, n)
       }
     }"

partial_function (option) rb_delete ::
  "('b \<Rightarrow> bool) \<Rightarrow> (bool \<Rightarrow> 'b \<Rightarrow> 'b) \<Rightarrow> ('b \<Rightarrow> 'b \<Rightarrow> 'b) \<Rightarrow> ('b \<Rightarrow> 'b \<Rightarrow> 'b \<times> 'b) \<Rightarrow>
   (addr \<Rightarrow> ('b, 'x) tree_st_scheme \<Rightarrow> ('b, 'x) tree_st_scheme option) \<Rightarrow> addr \<Rightarrow>
   ('b, 'x) tree_st_scheme \<Rightarrow> (('b, 'x) tree_st_scheme \<times> addr) option" where
  "rb_delete gc sc absorb swap relink n t =
     (if n = NULL then Some (t, NULL)
      else do {
        u \<leftarrow> rb_delete_replacement n t;
        nn \<leftarrow> deref t n;
        if u = NULL then do { t1 \<leftarrow> rb_unlink_leaf gc sc n t; Some (t1, n) }
        else if n_left nn = NULL \<or> n_right nn = NULL then rb_unlink_single gc sc absorb relink n u t
        else do {
          nu \<leftarrow> deref t u;
          t1 \<leftarrow> modify n (n_body_update (\<lambda>_. fst (swap (n_body nn) (n_body nu)))) t;
          t2 \<leftarrow> modify u (n_body_update (\<lambda>_. snd (swap (n_body nn) (n_body nu)))) t1;
          t3 \<leftarrow> relink n t2;
          t4 \<leftarrow> relink u t3;
          rb_delete gc sc absorb swap relink u t4
        }
      })"

declare rb_delete.simps [code]

section \<open>Nodes by direction\<close>

definition mkn :: "bool \<Rightarrow> addr \<Rightarrow> addr \<Rightarrow> addr \<Rightarrow> 'b \<Rightarrow> 'b tnode" where
  "mkn d x y par b =
     \<lparr>n_left = (if d then y else x), n_right = (if d then x else y), n_parent = par, n_body = b\<rparr>"

named_theorems node_simps "reading and updating a node by direction"

lemma mkn_simps [node_simps]:
  "mkn (\<not> d) x y par b = mkn d y x par b"
  "n_child d (mkn d x y par b) = x" "n_child (\<not> d) (mkn d x y par b) = y"
  "set_child d v (mkn d x y par b) = mkn d v y par b"
  "set_child (\<not> d) v (mkn d x y par b) = mkn d x v par b"
  "n_parent (mkn d x y par b) = par" "n_body (mkn d x y par b) = b"
  "n_parent_update f (mkn d x y par b) = mkn d x y (f par) b"
  "n_body_update h (mkn d x y par b) = mkn d x y par (h b)"
  "n_right (mkn d x y par b) = (if d then x else y)"
  "n_left (mkn d x y par b) = (if d then y else x)"
  by (simp_all add: mkn_def n_child_def set_child_def)

section \<open>Trees in the store\<close>

datatype 'b ptree = Lf | Nd "'b ptree" addr 'b "'b ptree"

fun ptr :: "'b ptree \<Rightarrow> addr" where
  "ptr Lf = NULL"
| "ptr (Nd l a b r) = a"

fun inord :: "'b ptree \<Rightarrow> (addr \<times> 'b) list" where
  "inord Lf = []"
| "inord (Nd l a b r) = inord l @ (a, b) # inord r"

fun addrs :: "'b ptree \<Rightarrow> addr set" where
  "addrs Lf = {}"
| "addrs (Nd l a b r) = insert a (addrs l \<union> addrs r)"

fun dtree :: "'b ptree \<Rightarrow> bool" where
  "dtree Lf = True"
| "dtree (Nd l a b r) \<longleftrightarrow>
     dtree l \<and> dtree r \<and> a \<notin> addrs l \<and> a \<notin> addrs r \<and> addrs l \<inter> addrs r = {}"

lemma addrs_inord: "addrs T = fst ` set (inord T)"
  by (induction T) auto

lemma dtree_inord: "dtree T \<longleftrightarrow> distinct (map fst (inord T))"
  by (induction T) (auto simp: addrs_inord)

fun tree_at :: "('b, 'x) tree_st_scheme \<Rightarrow> addr \<Rightarrow> 'b ptree \<Rightarrow> bool" where
  "tree_at t par Lf = True"
| "tree_at t par (Nd l a b r) \<longleftrightarrow>
     a \<noteq> NULL \<and>
     t_nodes t a = Some (mkn False (ptr l) (ptr r) par b) \<and>
     tree_at t a l \<and> tree_at t a r"

text \<open>
  A path from a node up to the root, the nearest step first: on which side the path comes up, the
  node with its payload, and the subtree on the other side.
\<close>

type_synonym 'b ctx = "(bool \<times> addr \<times> 'b \<times> 'b ptree) list"

definition mk :: "bool \<Rightarrow> 'b ptree \<Rightarrow> addr \<Rightarrow> 'b \<Rightarrow> 'b ptree \<Rightarrow> 'b ptree" where
  "mk d S a b U = (if d then Nd U a b S else Nd S a b U)"

fun plug :: "'b ptree \<Rightarrow> 'b ctx \<Rightarrow> 'b ptree" where
  "plug S [] = S"
| "plug S ((d, a, b, U) # c) = plug (mk d S a b U) c"

fun ctx_ptr :: "'b ctx \<Rightarrow> addr" where
  "ctx_ptr [] = NULL"
| "ctx_ptr ((d, a, b, U) # c) = a"

fun ctx_at :: "('b, 'x) tree_st_scheme \<Rightarrow> 'b ctx \<Rightarrow> addr \<Rightarrow> bool" where
  "ctx_at t [] h = True"
| "ctx_at t ((d, a, b, U) # c) h \<longleftrightarrow>
     a \<noteq> NULL \<and>
     t_nodes t a = Some (mkn d h (ptr U) (ctx_ptr c) b) \<and>
     tree_at t a U \<and> ctx_at t c a"

fun ctx_addrs :: "'b ctx \<Rightarrow> addr set" where
  "ctx_addrs [] = {}"
| "ctx_addrs ((d, a, b, U) # c) = insert a (addrs U \<union> ctx_addrs c)"

definition repr :: "('b, 'x) tree_st_scheme \<Rightarrow> 'b ptree \<Rightarrow> bool" where
  "repr t T \<longleftrightarrow> t_root t = ptr T \<and> tree_at t NULL T \<and> dtree T"

lemma ptr_mk [simp]: "ptr (mk d S a b U) = a"
  by (simp add: mk_def)

lemma mk_not_Lf [simp]: "mk d S a b U \<noteq> Lf"
  by (simp add: mk_def)

lemma tree_at_mk:
  "tree_at t par (mk d S a b U) \<longleftrightarrow> a \<noteq> NULL \<and>
     t_nodes t a = Some (mkn d (ptr S) (ptr U) par b) \<and>
     tree_at t a S \<and> tree_at t a U"
  by (auto simp: mk_def mkn_def)

lemma tree_at_plug:
  "tree_at t NULL (plug S c) \<longleftrightarrow> tree_at t (ctx_ptr c) S \<and> ctx_at t c (ptr S)"
proof (induction S c rule: plug.induct)
  case (1 S)
  then show ?case by simp
next
  case (2 S d a b U c)
  then show ?case by (auto simp: tree_at_mk)
qed

lemma addrs_mk: "addrs (mk d S a b U) = insert a (addrs S \<union> addrs U)"
  by (auto simp: mk_def)

lemma addrs_plug: "addrs (plug S c) = addrs S \<union> ctx_addrs c"
  by (induction S c rule: plug.induct) (auto simp: mk_def)

lemma dtree_mk:
  "dtree (mk d S a b U) \<longleftrightarrow> dtree S \<and> dtree U \<and>
     a \<notin> addrs S \<and> a \<notin> addrs U \<and> addrs S \<inter> addrs U = {}"
  by (auto simp: mk_def)

fun ctx_disj :: "'b ctx \<Rightarrow> bool" where
  "ctx_disj [] = True"
| "ctx_disj ((d, a, b, U) # c) \<longleftrightarrow>
     dtree U \<and> a \<notin> addrs U \<and> a \<notin> ctx_addrs c \<and>
     addrs U \<inter> ctx_addrs c = {} \<and> ctx_disj c"

lemma dtree_plug:
  "dtree (plug S c) \<longleftrightarrow> dtree S \<and> ctx_disj c \<and> addrs S \<inter> ctx_addrs c = {}"
proof (induction S c rule: plug.induct)
  case (1 S)
  then show ?case by simp
next
  case (2 S d a b U c)
  then show ?case by (auto simp: dtree_mk addrs_mk)
qed

lemma ptr_in_addrs: "S \<noteq> Lf \<Longrightarrow> ptr S \<in> addrs S"
  by (cases S) auto

lemma tree_at_nonnull: "tree_at t par S \<Longrightarrow> a \<in> addrs S \<Longrightarrow> a \<noteq> NULL"
  by (induction S arbitrary: par) auto

lemma ctx_at_nonnull: "ctx_at t c h \<Longrightarrow> a \<in> ctx_addrs c \<Longrightarrow> a \<noteq> NULL"
  by (induction t c h rule: ctx_at.induct) (auto dest: tree_at_nonnull)

lemma ptr_eq_NULL: "tree_at t par S \<Longrightarrow> ptr S = NULL \<longleftrightarrow> S = Lf"
  by (cases S) auto

lemma tree_at_upd [simp]:
  "a \<notin> addrs S \<Longrightarrow> tree_at (t\<lparr>t_nodes := f(a := x)\<rparr>) par S = tree_at (t\<lparr>t_nodes := f\<rparr>) par S"
  by (induction S arbitrary: par) auto

lemma ctx_at_upd [simp]:
  "a \<notin> ctx_addrs c \<Longrightarrow> ctx_at (t\<lparr>t_nodes := f(a := x)\<rparr>) c h = ctx_at (t\<lparr>t_nodes := f\<rparr>) c h"
  by (induction c arbitrary: h) (auto split: prod.splits)

lemma tree_at_root [simp]:
  "tree_at (t\<lparr>t_nodes := f, t_root := q\<rparr>) par S = tree_at (t\<lparr>t_nodes := f\<rparr>) par S"
  "tree_at (t\<lparr>t_root := q\<rparr>) par S = tree_at t par S"
  by (induction S arbitrary: par) auto

lemma ctx_at_root [simp]:
  "ctx_at (t\<lparr>t_nodes := f, t_root := q\<rparr>) c h = ctx_at (t\<lparr>t_nodes := f\<rparr>) c h"
  "ctx_at (t\<lparr>t_root := q\<rparr>) c h = ctx_at t c h"
  by (induction c arbitrary: h) auto

lemma ptr_plug: "c \<noteq> [] \<Longrightarrow> ptr (plug S c) = ptr (plug S' c)"
proof (induction c arbitrary: S S')
  case Nil
  then show ?case by simp
next
  case (Cons x c)
  then show ?case by (cases x; cases "c = []") simp_all
qed

section \<open>Rotation\<close>

text \<open>
  \<open>reprc t S c\<close>: the store holds the tree with the subtree \<open>S\<close> at the place \<open>c\<close> describes.
\<close>

definition reprc :: "('b, 'x) tree_st_scheme \<Rightarrow> 'b ptree \<Rightarrow> 'b ctx \<Rightarrow> bool" where
  "reprc t S c \<longleftrightarrow> t_root t = ptr (plug S c) \<and> tree_at t (ctx_ptr c) S \<and> ctx_at t c (ptr S) \<and>
     dtree S \<and> ctx_disj c \<and> addrs S \<inter> ctx_addrs c = {}"

lemma reprc_repr: "reprc t S c \<longleftrightarrow> repr t (plug S c)"
  by (auto simp: reprc_def repr_def tree_at_plug dtree_plug)

lemma deref_node:
  "deref t a = Some n \<longleftrightarrow> a \<noteq> NULL \<and> t_nodes t a = Some n"
  by (auto simp: deref_def)

lemma modify_node:
  "a \<noteq> NULL \<Longrightarrow> t_nodes t a = Some n \<Longrightarrow> modify a f t = Some (t\<lparr>t_nodes := (t_nodes t)(a \<mapsto> f n)\<rparr>)"
  by (simp add: modify_def deref_def)

lemmas repr_simps = reprc_def node_simps tree_at_mk addrs_mk dtree_mk
lemmas set_simps = Int_Un_distrib Int_Un_distrib2 Int_commute
lemmas exec_simps = Let_def deref_def modify_def node_simps

lemma rb_rotate_ok_root:
  assumes "reprc t (mk (\<not> d) (mk d C s sb D) p pb L) []"
  shows "\<exists>t'. rb_rotate p d t = Some t' \<and> reprc t' (mk d (mk (\<not> d) C p pb L) s sb D) [] \<and>
    tree_st.more t' = tree_st.more t"
proof (cases C)
  case Lf
  have "s \<noteq> p" using assms by (auto simp: repr_simps)
  with assms Lf show ?thesis by (simp add: repr_simps rb_rotate_def exec_simps set_simps)
next
  case (Nd x1 c0 x2 x3)
  have "s \<noteq> p" "c0 \<noteq> p" "c0 \<noteq> s" using assms Nd by (auto simp: repr_simps)
  with assms Nd show ?thesis by (simp add: repr_simps rb_rotate_def exec_simps set_simps)
qed

lemma rb_rotate_ok_inner:
  assumes "reprc t (mk (\<not> d) (mk d C s sb D) p pb L) ((e, g, gb, U) # c)"
  shows "\<exists>t'. rb_rotate p d t = Some t' \<and>
    reprc t' (mk d (mk (\<not> d) C p pb L) s sb D) ((e, g, gb, U) # c) \<and>
    tree_st.more t' = tree_st.more t"
proof -
  have root: "ptr (plug (mk d (mk (\<not> d) C p pb L) s sb D) ((e, g, gb, U) # c))
      = ptr (plug (mk (\<not> d) (mk d C s sb D) p pb L) ((e, g, gb, U) # c))"
    by (rule ptr_plug) simp
  have pu: "ptr U \<noteq> p" 
    using assms ptr_in_addrs [of U] by (cases "U = Lf") (auto simp: repr_simps)
  then have side: "p = (if e then p else ptr U) \<longleftrightarrow> e" by auto
  have sp: "s \<noteq> p" "g \<noteq> p" "g \<noteq> s" using assms by (auto simp: repr_simps)
  show ?thesis
  proof (cases C)
    case Lf
    then show ?thesis
      using assms side sp unfolding reprc_def root by (simp add: repr_simps rb_rotate_def exec_simps set_simps)
  next
    case (Nd x1 c0 x2 x3)
    have "c0 \<noteq> p" "c0 \<noteq> s" "c0 \<noteq> g" using assms Nd by (auto simp: repr_simps)
    with Nd show ?thesis
      using assms side sp unfolding reprc_def root by (simp add: repr_simps rb_rotate_def exec_simps set_simps)
  qed
qed

lemma rb_rotate_ok:
  assumes "reprc t (mk (\<not> d) (mk d C s sb D) p pb L) c"
  obtains t' where "rb_rotate p d t = Some t'" "reprc t' (mk d (mk (\<not> d) C p pb L) s sb D) c"
    "tree_st.more t' = tree_st.more t"
proof -
  have "\<exists>t'. rb_rotate p d t = Some t' \<and> reprc t' (mk d (mk (\<not> d) C p pb L) s sb D) c \<and>
      tree_st.more t' = tree_st.more t"
  proof (cases c)
    case Nil
    then show ?thesis using rb_rotate_ok_root [of t d C s sb D p pb L] assms by simp
  next
    case (Cons x xs)
    obtain e g gb U where "x = (e, g, gb, U)" by (cases x)
    with Cons show ?thesis using rb_rotate_ok_inner [of t d C s sb D p pb L e g gb U xs] assms by simp
  qed
  then show thesis using that by blast
qed

section \<open>Reading and painting a node in place\<close>

lemma mk_swap: "mk d S a b U = mk (\<not> d) U a b S"
  by (simp add: mk_def)

lemma reprc_Cons: "reprc t S ((d, a, b, U) # c) \<longleftrightarrow> reprc t (mk d S a b U) c"
  by (simp add: reprc_repr)

lemma reprc_deref:
  "reprc t (mk d S a b U) c \<Longrightarrow> deref t a = Some (mkn d (ptr S) (ptr U) (ctx_ptr c) b)"
  by (auto simp: reprc_def tree_at_mk deref_def)

lemma reprc_ptr_NULL: "reprc t S c \<Longrightarrow> ptr S = NULL \<longleftrightarrow> S = Lf"
  by (auto simp: reprc_def dest: ptr_eq_NULL)

lemma reprc_ctx_NULL: "reprc t S c \<Longrightarrow> ctx_ptr c = NULL \<longleftrightarrow> c = []"
  by (cases c) (auto simp: reprc_def)

lemma reprc_dir_child:
  assumes "reprc t S ((e, g, gb, U) # c)" and "S \<noteq> Lf"
  shows "tree_dir_child (ptr S) t = Some e"
proof -
  obtain l a b r where S: "S = Nd l a b r" using assms(2) by (cases S) auto
  have nodes: "deref t a = Some (mkn False (ptr l) (ptr r) g b)"
    "deref t g = Some (mkn e a (ptr U) (ctx_ptr c) gb)"
    using assms(1) S by (auto simp: reprc_def deref_def)
  have "ptr U \<noteq> a"
    using assms(1) S ptr_in_addrs [of U] by (cases "U = Lf") (auto simp: reprc_def)
  with nodes S show ?thesis by (auto simp: tree_dir_child_def node_simps)
qed

lemma paint_ok:
  assumes "reprc t (mk d S a b U) c"
  obtains t' where "paint sc red a t = Some t'" "reprc t' (mk d S a (sc red b) U) c"
    "tree_st.more t' = tree_st.more t"
proof -
  have root: "ptr (plug (mk d S a (sc red b) U) c) = ptr (plug (mk d S a b U) c)"
    using ptr_plug by (cases "c = []") auto
  have "\<exists>t'. paint sc red a t = Some t' \<and> reprc t' (mk d S a (sc red b) U) c \<and>
      tree_st.more t' = tree_st.more t"
    using assms unfolding reprc_def root
    by (simp add: repr_simps paint_def exec_simps set_simps)
  then show thesis using that by blast
qed

section \<open>Insertion on tree values\<close>

fun red_root :: "('b \<Rightarrow> bool) \<Rightarrow> 'b ptree \<Rightarrow> bool" where
  "red_root gc Lf = False"
| "red_root gc (Nd l a b r) = gc b"

fun recolour :: "('b \<Rightarrow> 'b) \<Rightarrow> 'b ptree \<Rightarrow> 'b ptree" where
  "recolour f Lf = Lf"
| "recolour f (Nd l a b r) = Nd l a (f b) r"

fun ins_fix :: "('b \<Rightarrow> bool) \<Rightarrow> (bool \<Rightarrow> 'b \<Rightarrow> 'b) \<Rightarrow> 'b ptree \<Rightarrow> 'b ctx \<Rightarrow> 'b ptree" where
  "ins_fix gc sc S [] = S"
| "ins_fix gc sc S [(d, p, pb, L)] = mk d S p (if gc pb then sc True pb else pb) L"
| "ins_fix gc sc S ((d, p, pb, L) # (e, g, gb, U) # c) =
     (if \<not> gc pb then plug S ((d, p, pb, L) # (e, g, gb, U) # c)
      else if red_root gc U then
        ins_fix gc sc (mk e (mk d S p (sc False pb) L) g (sc True gb) (recolour (sc False) U)) c
      else if d = e then plug (mk e S p (sc False pb) (mk e L g (sc True gb) U)) c
      else case S of
          Lf \<Rightarrow> plug S ((d, p, pb, L) # (e, g, gb, U) # c)
        | Nd l n nb r \<Rightarrow>
            plug (mk e (mk (\<not> e) (if e then r else l) p pb L) n (sc False nb)
              (mk e (if e then l else r) g (sc True gb) U)) c)"

fun ins_path :: "('b \<Rightarrow> 'b \<Rightarrow> bool) \<Rightarrow> 'b \<Rightarrow> 'b ptree \<Rightarrow> 'b ctx \<Rightarrow> 'b ctx" where
  "ins_path lt nb Lf c = c"
| "ins_path lt nb (Nd l a b r) c =
     (if lt nb b then ins_path lt nb l ((False, a, b, r) # c) else ins_path lt nb r ((True, a, b, l) # c))"

definition ins ::
  "('b \<Rightarrow> bool) \<Rightarrow> (bool \<Rightarrow> 'b \<Rightarrow> 'b) \<Rightarrow> ('b \<Rightarrow> 'b \<Rightarrow> bool) \<Rightarrow> addr \<Rightarrow> 'b \<Rightarrow> 'b ptree \<Rightarrow> 'b ptree" where
  "ins gc sc lt n nb T =
     (if T = Lf then Nd Lf n (sc False nb) Lf
      else ins_fix gc sc (Nd Lf n (sc True nb) Lf) (ins_path lt nb T []))"

lemma fix_recolour_step:
  assumes "reprc t (mk e (mk d S p pb L) g gb (Nd ul u ub ur)) c"
  obtains t1 t2 t3 where "paint sc False p t = Some t1" "paint sc False u t1 = Some t2"
    "paint sc True g t2 = Some t3"
    "reprc t3 (mk e (mk d S p (sc False pb) L) g (sc True gb) (Nd ul u (sc False ub) ur)) c"
    "tree_st.more t3 = tree_st.more t"
proof -
  let ?U = "Nd ul u ub ur" and ?U' = "Nd ul u (sc False ub) ur"
  let ?P = "mk d S p (sc False pb) L"
  have mkU: "mk False ul u b ur = Nd ul u b ur" for b by (simp add: mk_def)
  obtain t1 where t1: "paint sc False p t = Some t1" "reprc t1 ?P ((e, g, gb, ?U) # c)"
    "tree_st.more t1 = tree_st.more t"
    using paint_ok [of t d S p pb L "(e, g, gb, ?U) # c" sc False] assms by (auto simp: reprc_Cons)
  then have "reprc t1 (mk False ul u ub ur) ((\<not> e, g, gb, ?P) # c)"
    by (simp add: reprc_Cons mkU mk_swap [of e ?P])
  from paint_ok [OF this, of sc False] obtain t2 where t2: "paint sc False u t1 = Some t2"
    "reprc t2 ?U' ((\<not> e, g, gb, ?P) # c)" "tree_st.more t2 = tree_st.more t"
    using t1(3) by (auto simp: mkU)
  then have "reprc t2 (mk e ?P g gb ?U') c" by (simp add: reprc_Cons mk_swap [of e ?P])
  from paint_ok [OF this, of sc True] t1 t2 that show thesis by metis
qed

lemma fix_outer_step:
  assumes "reprc t (mk e (mk e S p pb L) g gb U) c"
  obtains t1 t2 t3 where "rb_rotate g (\<not> e) t = Some t1" "paint sc False p t1 = Some t2"
    "paint sc True g t2 = Some t3" "reprc t3 (mk e S p (sc False pb) (mk e L g (sc True gb) U)) c"
    "tree_st.more t3 = tree_st.more t"
proof -
  have "reprc t (mk (\<not> \<not> e) (mk (\<not> e) L p pb S) g gb U) c" using assms by (simp add: mk_swap [of e S])
  from rb_rotate_ok [OF this] obtain t1 where t1: "rb_rotate g (\<not> e) t = Some t1"
    "reprc t1 (mk (\<not> e) (mk e L g gb U) p pb S) c" "tree_st.more t1 = tree_st.more t"
    by (metis (full_types))
  from paint_ok [OF t1(2), of sc False] obtain t2 where t2: "paint sc False p t1 = Some t2"
    "reprc t2 (mk (\<not> e) (mk e L g gb U) p (sc False pb) S) c" "tree_st.more t2 = tree_st.more t"
    using t1(3) by metis
  from t2(2) have "reprc t2 (mk e L g gb U) ((\<not> e, p, sc False pb, S) # c)" by (simp add: reprc_Cons)
  from paint_ok [OF this, of sc True] obtain t3 where t3: "paint sc True g t2 = Some t3"
    "reprc t3 (mk (\<not> e) (mk e L g (sc True gb) U) p (sc False pb) S) c" "tree_st.more t3 = tree_st.more t"
    using t2(3) by (auto simp: reprc_Cons)
  show thesis using that [OF t1(1) t2(1) t3(1)] t3(2,3) by (simp add: mk_swap [of e S])
qed

lemma uncle_black:
  assumes "reprc t P ((e, g, gb, U) # c)"
  shows "(if ptr U = NULL then Some True else map_option Not (is_red gc (ptr U) t))
    = Some (\<not> red_root gc U)"
proof (cases U)
  case (Nd ul u ub ur)
  have "deref t u = Some (mkn False (ptr ul) (ptr ur) g ub)" "u \<noteq> NULL"
    using assms Nd by (auto simp: reprc_def deref_def)
  with Nd show ?thesis by (simp add: is_red_def node_simps)
qed simp

lemma rb_insert_fix_unfold:
  assumes rep: "reprc t S ((d, p, pb, L) # (e, g, gb, U) # c)" and S: "S \<noteq> Lf" and red: "gc pb"
  shows "rb_insert_fix gc sc (ptr S) p t =
    (if \<not> red_root gc U then do {
       t1 \<leftarrow> (if d = (\<not> e) then rb_rotate p e t else Some t);
       ng1 \<leftarrow> deref t1 g;
       t2 \<leftarrow> rb_rotate g (\<not> e) t1;
       t3 \<leftarrow> paint sc False (if d = (\<not> e) then n_child e ng1 else p) t2;
       paint sc True g t3
     } else do {
       t1 \<leftarrow> paint sc False p t;
       t2 \<leftarrow> paint sc False (ptr U) t1;
       t3 \<leftarrow> paint sc True g t2;
       ng3 \<leftarrow> deref t3 g;
       if n_parent ng3 = NULL then Some t3 else rb_insert_fix gc sc g (n_parent ng3) t3
     })"
proof -
  have P: "reprc t (mk d S p pb L) ((e, g, gb, U) # c)" using rep by (simp add: reprc_Cons)
  have np: "deref t p = Some (mkn d (ptr S) (ptr L) g pb)"
    using reprc_deref [OF P] by simp
  have G: "reprc t (mk e (mk d S p pb L) g gb U) c" using P by (simp add: reprc_Cons)
  have ng: "deref t g = Some (mkn e p (ptr U) (ctx_ptr c) gb)" using reprc_deref [OF G] by simp
  have gn: "g \<noteq> NULL" using G by (auto simp: reprc_def tree_at_mk)
  from reprc_dir_child [OF P] have dir: "tree_dir_child p t = Some e" by simp
  have "ptr S \<noteq> ptr L"
    using rep S ptr_in_addrs [of S] ptr_in_addrs [of L] reprc_ptr_NULL [OF rep]
    by (cases "L = Lf") (auto simp: reprc_def)
  then have inner: "ptr S = n_child (\<not> e) (mkn d (ptr S) (ptr L) g pb) \<longleftrightarrow> d = (\<not> e)"
    by (cases "d = e") (auto simp: mkn_def n_child_def)
  have u: "n_child (\<not> e) (mkn e p (ptr U) (ctx_ptr c) gb) = ptr U" by (simp add: node_simps)
  show ?thesis
    using uncle_black [OF P, of gc] red gn
    by (subst rb_insert_fix.simps)
      (simp add: np ng dir inner u Let_def node_simps cong: if_cong)
qed

lemma rb_insert_fix_ok:
  assumes "reprc t S c" and "S \<noteq> Lf" and "c \<noteq> []"
  shows "\<exists>t'. rb_insert_fix gc sc (ptr S) (ctx_ptr c) t = Some t' \<and>
    repr t' (ins_fix gc sc S c) \<and> tree_st.more t' = tree_st.more t"
  using assms
proof (induction gc sc S c arbitrary: t rule: ins_fix.induct)
  case (1 gc sc S)
  then show ?case by simp
next
  case (2 gc sc S d p pb L)
  then have P: "reprc t (mk d S p pb L) []" by (simp add: reprc_Cons)
  have np: "deref t p = Some (mkn d (ptr S) (ptr L) NULL pb)" using reprc_deref [OF P] by simp
  show ?case
  proof (cases "gc pb")
    case True
    obtain t' where "paint sc True p t = Some t'" "reprc t' (mk d S p (sc True pb) L) []"
      "tree_st.more t' = tree_st.more t" using paint_ok [OF P] .
    with np True show ?thesis
      by (subst rb_insert_fix.simps) (simp add: node_simps reprc_repr)
  next
    case False
    with np P show ?thesis by (subst rb_insert_fix.simps) (simp add: node_simps reprc_repr)
  qed
next
  case (3 gc sc S d p pb L e g gb U c)
  note rep = 3(2)
  let ?G = "mk e (mk d S p pb L) g gb U"
  have G: "reprc t ?G c" using rep by (simp add: reprc_Cons)
  have np: "deref t p = Some (mkn d (ptr S) (ptr L) g pb)"
    using reprc_deref [of t d S p pb L "(e, g, gb, U) # c"] rep by (simp add: reprc_Cons)
  show ?case
  proof (cases "gc pb")
    case False
    with np rep show ?thesis
      by (subst rb_insert_fix.simps) (simp add: node_simps reprc_repr)
  next
    case red: True
    note unf = rb_insert_fix_unfold [where gc = gc and sc = sc, OF rep 3(3) red]
    consider (recolour) ul u ub ur where "U = Nd ul u ub ur" "gc ub" | (outer) "\<not> red_root gc U" "d = e"
      | (inner) "\<not> red_root gc U" "d = (\<not> e)" by (cases U) auto
    then show ?thesis
    proof cases
      case recolour
      let ?G3 = "mk e (mk d S p (sc False pb) L) g (sc True gb) (Nd ul u (sc False ub) ur)"
      obtain t1 t2 t3 where ts: "paint sc False p t = Some t1" "paint sc False u t1 = Some t2"
        "paint sc True g t2 = Some t3" "reprc t3 ?G3 c" "tree_st.more t3 = tree_st.more t"
        using fix_recolour_step [OF G [unfolded recolour(1)]] by metis
      have ng: "deref t3 g = Some (mkn e p (ptr (Nd ul u (sc False ub) ur)) (ctx_ptr c) (sc True gb))"
        using reprc_deref [OF ts(4)] by simp
      show ?thesis
      proof (cases "c = []")
        case True
        with unf ts ng red recolour show ?thesis by (simp add: node_simps reprc_repr)
      next
        case False
        then have cp: "ctx_ptr c \<noteq> NULL" using reprc_ctx_NULL [OF ts(4)] by simp
        obtain t' where "rb_insert_fix gc sc (ptr ?G3) (ctx_ptr c) t3 = Some t'"
          "repr t' (ins_fix gc sc ?G3 c)" "tree_st.more t' = tree_st.more t3"
          using 3(1) [of t3] red recolour ts(4) False by auto
        with unf ts ng cp red recolour show ?thesis by (simp add: node_simps)
      qed
    next
      case outer
      have ng: "deref t g = Some (mkn e p (ptr U) (ctx_ptr c) gb)" using reprc_deref [OF G] by simp
      obtain t1 t2 t3 where "rb_rotate g (\<not> e) t = Some t1" "paint sc False p t1 = Some t2"
        "paint sc True g t2 = Some t3" "reprc t3 (mk e S p (sc False pb) (mk e L g (sc True gb) U)) c"
        "tree_st.more t3 = tree_st.more t"
        using fix_outer_step [OF G [unfolded outer(2)], of sc] by metis
      with unf ng outer red show ?thesis by (simp add: reprc_repr)
    next
      case inner
      obtain l n nb r where S: "S = Nd l n nb r" using 3(3) by (cases S) auto
      let ?A = "if e then r else l" and ?B = "if e then l else r"
      have mkS: "S = mk e ?A n nb ?B" using S by (simp add: mk_def)
      have "reprc t (mk (\<not> e) (mk e ?A n nb ?B) p pb L) ((e, g, gb, U) # c)"
        using rep inner(2) mkS by (simp add: reprc_Cons)
      from rb_rotate_ok [OF this] obtain t0 where t0: "rb_rotate p e t = Some t0"
        "reprc t0 (mk e (mk e (mk (\<not> e) ?A p pb L) n nb ?B) g gb U) c" "tree_st.more t0 = tree_st.more t"
        by (metis reprc_Cons)
      have ng: "deref t0 g = Some (mkn e n (ptr U) (ctx_ptr c) gb)" using reprc_deref [OF t0(2)] by simp
      obtain t1 t2 t3 where "rb_rotate g (\<not> e) t0 = Some t1" "paint sc False n t1 = Some t2"
        "paint sc True g t2 = Some t3"
        "reprc t3 (mk e (mk (\<not> e) ?A p pb L) n (sc False nb) (mk e ?B g (sc True gb) U)) c"
        "tree_st.more t3 = tree_st.more t"
        using fix_outer_step [OF t0(2), of sc] t0(3) by metis
      with unf t0 ng inner red S show ?thesis by (simp add: reprc_repr node_simps)
    qed
  qed
qed

lemma attach_ok:
  assumes rep: "reprc t (mk d Lf a b V) c" and n: "n \<noteq> NULL" "n \<notin> addrs (plug (mk d Lf a b V) c)"
    and x: "t_nodes t n = Some x"
  obtains t1 t2 where "modify a (set_child d n) t = Some t1"
    "modify n (\<lambda>x. x\<lparr>n_left := NULL, n_right := NULL\<rparr>) t1 = Some t2"
    "rb_insertp gc sc n a d t2 = rb_insert_fix gc sc n a (t2\<lparr>t_nodes := (t_nodes t2)
       (n \<mapsto> mkn False NULL NULL a (sc True (n_body x)))\<rparr>)"
    "reprc (t2\<lparr>t_nodes := (t_nodes t2)(n \<mapsto> mkn False NULL NULL a (sc True (n_body x)))\<rparr>)
       (Nd Lf n (sc True (n_body x)) Lf) ((d, a, b, V) # c)"
    "tree_st.more t2 = tree_st.more t"
proof -
  have root: "ptr (plug (Nd Lf n (sc True (n_body x)) Lf) ((d, a, b, V) # c)) = ptr (plug (mk d Lf a b V) c)"
    using ptr_plug [of c "mk d (Nd Lf n (sc True (n_body x)) Lf) a b V" "mk d Lf a b V"]
    by (cases "c = []") simp_all
  have out: "n \<noteq> a" "n \<notin> addrs V" "n \<notin> ctx_addrs c"
    using n(2) by (auto simp: addrs_plug addrs_mk)
  let ?t1 = "t\<lparr>t_nodes := (t_nodes t)(a \<mapsto> mkn d n (ptr V) (ctx_ptr c) b)\<rparr>"
  let ?t2 = "?t1\<lparr>t_nodes := (t_nodes ?t1)(n \<mapsto> x\<lparr>n_left := NULL, n_right := NULL\<rparr>)\<rparr>"
  let ?t3 = "?t2\<lparr>t_nodes := (t_nodes ?t2)(n \<mapsto> mkn False NULL NULL a (sc True (n_body x)))\<rparr>"
  have a: "a \<noteq> NULL" "t_nodes t a = Some (mkn d NULL (ptr V) (ctx_ptr c) b)"
    using rep by (auto simp: reprc_def tree_at_mk)
  have m1: "modify a (set_child d n) t = Some ?t1"
    using a by (simp add: modify_node node_simps)
  have m2: "modify n (\<lambda>x. x\<lparr>n_left := NULL, n_right := NULL\<rparr>) ?t1 = Some ?t2"
    using n(1) x out(1) by (simp add: modify_node)
  have eqx: "(n_body_update (sc True) x)\<lparr>n_left := NULL, n_right := NULL, n_parent := a\<rparr>
      = mkn False NULL NULL a (sc True (n_body x))"
    by (cases x) (simp add: mkn_def)
  have m3: "rb_insertp gc sc n a d ?t2 = rb_insert_fix gc sc n a ?t3"
    using n(1) x a out(1)
    by (simp add: rb_insertp_def paint_def modify_def deref_def node_simps eqx fun_upd_twist fun_upd_idem)
  have rep3: "reprc ?t3 (Nd Lf n (sc True (n_body x)) Lf) ((d, a, b, V) # c)"
    unfolding reprc_def root using rep n(1) out a
    by (simp add: repr_simps)
  show thesis using that [OF m1 m2 m3 rep3] by simp
qed

lemma rb_insert_at_ok:
  assumes "reprc t S c" and "S \<noteq> Lf" and "n \<noteq> NULL" "n \<notin> addrs (plug S c)" and "t_nodes t n = Some x"
  shows "\<exists>t'. rb_insert_at gc sc lt n (ptr S) t = Some t' \<and>
    repr t' (ins_fix gc sc (Nd Lf n (sc True (n_body x)) Lf) (ins_path lt (n_body x) S c)) \<and>
    tree_st.more t' = tree_st.more t"
  using assms
proof (induction S arbitrary: c)
  case Lf
  then show ?case by simp
next
  case (Nd l a b r)
  define d where "d = (\<not> lt (n_body x) b)"
  define X where "X = (if d then r else l)"
  define V where "V = (if d then l else r)"
  have S: "Nd l a b r = mk d X a b V" by (simp add: mk_def X_def V_def)
  have path: "ins_path lt (n_body x) (Nd l a b r) c = ins_path lt (n_body x) X ((d, a, b, V) # c)"
    by (simp add: d_def X_def V_def)
  have rep: "reprc t (mk d X a b V) c" using Nd.prems(1) S by simp
  have nodes: "deref t a = Some (mkn d (ptr X) (ptr V) (ctx_ptr c) b)" "deref t n = Some x" "a \<noteq> NULL"
    using reprc_deref [OF rep] Nd.prems(3,5) rep by (auto simp: deref_def reprc_def tree_at_mk)
  have Xp: "ptr X = NULL \<longleftrightarrow> X = Lf"
    using reprc_ptr_NULL [of t X "(d, a, b, V) # c"] rep by (simp add: reprc_Cons)
  note unf = rb_insert_at.simps [of gc sc lt n a t]
  show ?case
  proof (cases "X = Lf")
    case True
    obtain t1 t2 where ts: "modify a (set_child d n) t = Some t1"
      "modify n (\<lambda>x. x\<lparr>n_left := NULL, n_right := NULL\<rparr>) t1 = Some t2"
      "rb_insertp gc sc n a d t2 = rb_insert_fix gc sc n a (t2\<lparr>t_nodes := (t_nodes t2)
         (n \<mapsto> mkn False NULL NULL a (sc True (n_body x)))\<rparr>)"
      "reprc (t2\<lparr>t_nodes := (t_nodes t2)(n \<mapsto> mkn False NULL NULL a (sc True (n_body x)))\<rparr>)
         (Nd Lf n (sc True (n_body x)) Lf) ((d, a, b, V) # c)"
      "tree_st.more t2 = tree_st.more t"
      using attach_ok [of t d a b V c n x gc sc] rep True Nd.prems(3-5) S by metis
    have "\<exists>t'. rb_insert_fix gc sc n a (t2\<lparr>t_nodes := (t_nodes t2)
         (n \<mapsto> mkn False NULL NULL a (sc True (n_body x)))\<rparr>) = Some t' \<and>
       repr t' (ins_fix gc sc (Nd Lf n (sc True (n_body x)) Lf) ((d, a, b, V) # c)) \<and>
       tree_st.more t' = tree_st.more t"
      using rb_insert_fix_ok [OF ts(4), of gc sc] ts(5) by simp
    with unf nodes ts True path show ?thesis
      by (simp add: Let_def node_simps d_def [symmetric])
  next
    case False
    have "reprc t X ((d, a, b, V) # c)" using rep by (simp add: reprc_Cons)
    moreover have "n \<notin> addrs (plug X ((d, a, b, V) # c))" using Nd.prems(4) S by simp
    ultimately have "\<exists>t'. rb_insert_at gc sc lt n (ptr X) t = Some t' \<and>
      repr t' (ins_fix gc sc (Nd Lf n (sc True (n_body x)) Lf) (ins_path lt (n_body x) X ((d, a, b, V) # c))) \<and>
      tree_st.more t' = tree_st.more t"
      using Nd.IH False Nd.prems(3,5) by (cases d) (simp_all add: X_def)
    with unf nodes False Xp path show ?thesis
      by (simp add: Let_def node_simps d_def [symmetric])
  qed
qed

lemma rb_insert_ok:
  assumes rep: "repr t T" and n: "n \<noteq> NULL" "n \<notin> addrs T" and x: "t_nodes t n = Some x"
  obtains t' where "rb_insert gc sc lt n t = Some t'" "repr t' (ins gc sc lt n (n_body x) T)"
    "tree_st.more t' = tree_st.more t"
proof -
  have rc: "reprc t T []" using rep by (simp add: reprc_repr)
  have "\<exists>t'. rb_insert gc sc lt n t = Some t' \<and> repr t' (ins gc sc lt n (n_body x) T) \<and>
      tree_st.more t' = tree_st.more t"
  proof (cases "T = Lf")
    case True
    have "t_root t = NULL" using rep True by (simp add: repr_def)
    then show ?thesis
      using n x True
      by (simp add: rb_insert_def paint_def modify_def deref_def ins_def repr_def mkn_def)
  next
    case False
    then have "t_root t \<noteq> NULL" "t_root t = ptr T"
      using rep reprc_ptr_NULL [OF rc] by (auto simp: repr_def)
    with False rb_insert_at_ok [OF rc False n(1) _ x, of gc sc lt] n(2) show ?thesis
      by (simp add: rb_insert_def ins_def)
  qed
  then show thesis using that by blast
qed


section \<open>Search order\<close>

definition keys :: "('b \<Rightarrow> 'k) \<Rightarrow> 'b ptree \<Rightarrow> (addr \<times> 'k) list" where
  "keys k T = map (\<lambda>(a, b). (a, k b)) (inord T)"

lemma keys_simps [simp]:
  "keys k Lf = []" "keys k (Nd l a b r) = keys k l @ (a, k b) # keys k r"
  by (simp_all add: keys_def)

lemma keys_plug_cong: "keys k S = keys k S' \<Longrightarrow> keys k (plug S c) = keys k (plug S' c)"
proof (induction c arbitrary: S S')
  case Nil
  then show ?case by simp
next
  case (Cons x c)
  obtain d a b U where x: "x = (d, a, b, U)" by (cases x)
  have "keys k (mk d S a b U) = keys k (mk d S' a b U)" using Cons.prems by (simp add: mk_def)
  then have "keys k (plug (mk d S a b U) c) = keys k (plug (mk d S' a b U) c)" by (rule Cons.IH)
  then show ?case by (simp add: x)
qed

lemma keys_recolour: "(\<And>b. k (f b) = k b) \<Longrightarrow> keys k (recolour f T) = keys k T"
  by (cases T) simp_all

lemma keys_ins_fix:
  assumes "\<And>red b. k (sc red b) = k b"
  shows "keys k (ins_fix gc sc S c) = keys k (plug S c)"
  using assms
proof (induction gc sc S c rule: ins_fix.induct)
  case (3 gc sc S d p pb L e g gb U c)
  note sc = 3(2)
  show ?case
  proof (cases "gc pb")
    case True
    consider "red_root gc U" | "\<not> red_root gc U" "d = e" | l n nb r where "\<not> red_root gc U" "d \<noteq> e" "S = Nd l n nb r"
      | "\<not> red_root gc U" "d \<noteq> e" "S = Lf" by (cases S) auto
    then show ?thesis
    proof cases
      case 1
      have "keys k (mk e (mk d S p (sc False pb) L) g (sc True gb) (recolour (sc False) U))
          = keys k (mk e (mk d S p pb L) g gb U)"
        by (simp add: mk_def sc keys_recolour)
      then have "keys k (plug (mk e (mk d S p (sc False pb) L) g (sc True gb) (recolour (sc False) U)) c)
          = keys k (plug (mk e (mk d S p pb L) g gb U) c)" by (rule keys_plug_cong)
      with 1 True 3 show ?thesis by simp
    qed (use True sc in \<open>auto simp: mk_def intro!: keys_plug_cong\<close>)
  qed simp
qed (simp_all add: mk_def)

fun bst_ins :: "('b \<Rightarrow> 'b \<Rightarrow> bool) \<Rightarrow> addr \<Rightarrow> 'b \<Rightarrow> 'b \<Rightarrow> 'b ptree \<Rightarrow> 'b ptree" where
  "bst_ins lt n nb nb' Lf = Nd Lf n nb' Lf"
| "bst_ins lt n nb nb' (Nd l a b r) =
     (if lt nb b then Nd (bst_ins lt n nb nb' l) a b r else Nd l a b (bst_ins lt n nb nb' r))"

lemma plug_ins_path:
  "plug (Nd Lf n nb' Lf) (ins_path lt nb T c) = plug (bst_ins lt n nb nb' T) c"
  by (induction T arbitrary: c) (auto simp: mk_def)

lemma set_keys_bst_ins:
  "set (keys k (bst_ins lt n nb nb' T)) = insert (n, k nb') (set (keys k T))"
  "length (keys k (bst_ins lt n nb nb' T)) = Suc (length (keys k T))"
  by (induction T) auto

lemma sorted_bst_ins:
  fixes k :: "'b \<Rightarrow> 'k :: linorder"
  assumes "sorted (map snd (keys k T))" and "k nb' = k nb" and "\<And>x y. lt x y \<longleftrightarrow> k x < k y"
  shows "sorted (map snd (keys k (bst_ins lt n nb nb' T)))"
  using assms(1)
proof (induction T)
  case Lf
  then show ?case by simp
next
  case (Nd l a b r)
  have ext: "snd ` set (keys k (bst_ins lt n nb nb' T)) = insert (k nb) (snd ` set (keys k T))" for T
    using assms(2) by (simp add: set_keys_bst_ins)
  show ?case
  proof (cases "lt nb b")
    case True
    with assms(3) have "k nb < k b" by simp
    with Nd True ext [of l] show ?thesis by (auto simp: sorted_append)
  next
    case False
    with assms(3) have "k b \<le> k nb" by (simp add: not_less)
    with Nd False ext [of r] show ?thesis by (auto simp: sorted_append intro: order_trans)
  qed
qed

lemma keys_ins:
  assumes "\<And>red b. k (sc red b) = k b"
  shows "keys k (ins gc sc lt n nb T) = keys k (bst_ins lt n nb nb T)"
proof -
  have inv: "keys k (bst_ins lt n nb b1 T) = keys k (bst_ins lt n nb b2 T)" if "k b1 = k b2" for b1 b2
    using that by (induction T) auto
  show ?thesis
  proof (cases "T = Lf")
    case False
    have "keys k (ins gc sc lt n nb T) = keys k (bst_ins lt n nb (sc True nb) T)"
      using False plug_ins_path [of n "sc True nb" lt nb T "[]"] by (simp add: ins_def keys_ins_fix assms)
    then show ?thesis using inv [of "sc True nb" nb] assms by simp
  qed (simp add: ins_def assms)
qed

lemma ins_sorted:
  fixes k :: "'b \<Rightarrow> 'k :: linorder"
  assumes "\<And>red b. k (sc red b) = k b" and "\<And>x y. lt x y \<longleftrightarrow> k x < k y"
    and "sorted (map snd (keys k T))"
  shows "sorted (map snd (keys k (ins gc sc lt n nb T)))"
    and "set (keys k (ins gc sc lt n nb T)) = insert (n, k nb) (set (keys k T))"
    and "length (keys k (ins gc sc lt n nb T)) = Suc (length (keys k T))"
  using sorted_bst_ins [OF assms(3), of nb nb lt n] assms(1,2)
  by (simp_all add: keys_ins set_keys_bst_ins)

section \<open>Red-black balance\<close>

text \<open>
  The root may have either colour and counts as black: the code can leave a red root, and then the
  next insertion below it leaves a red child of a red root.
\<close>

fun bh :: "('b \<Rightarrow> bool) \<Rightarrow> 'b ptree \<Rightarrow> nat" where
  "bh gc Lf = 0"
| "bh gc (Nd l a b r) = bh gc l + (if gc b then 0 else 1)"

fun invh :: "('b \<Rightarrow> bool) \<Rightarrow> 'b ptree \<Rightarrow> bool" where
  "invh gc Lf = True"
| "invh gc (Nd l a b r) \<longleftrightarrow> invh gc l \<and> invh gc r \<and> bh gc l = bh gc r"

fun invc :: "('b \<Rightarrow> bool) \<Rightarrow> 'b ptree \<Rightarrow> bool" where
  "invc gc Lf = True"
| "invc gc (Nd l a b r) \<longleftrightarrow>
     invc gc l \<and> invc gc r \<and> (gc b \<longrightarrow> \<not> red_root gc l \<and> \<not> red_root gc r)"

fun rb_ok :: "('b \<Rightarrow> bool) \<Rightarrow> 'b ptree \<Rightarrow> bool" where
  "rb_ok gc Lf = True"
| "rb_ok gc (Nd l a b r) \<longleftrightarrow> invh gc (Nd l a b r) \<and> invc gc l \<and> invc gc r"

fun ctx_h :: "('b \<Rightarrow> bool) \<Rightarrow> nat \<Rightarrow> 'b ctx \<Rightarrow> bool" where
  "ctx_h gc h [] = True"
| "ctx_h gc h ((d, a, b, U) # c) \<longleftrightarrow>
     invh gc U \<and> bh gc U = h \<and> ctx_h gc (h + (if gc b then 0 else 1)) c"

fun ctx_c :: "('b \<Rightarrow> bool) \<Rightarrow> 'b ctx \<Rightarrow> bool" where
  "ctx_c gc [] = True"
| "ctx_c gc [(d, a, b, U)] = invc gc U"
| "ctx_c gc ((d, a, b, U) # (e, g, gb, V) # c) \<longleftrightarrow>
     invc gc U \<and> (gc b \<longrightarrow> \<not> red_root gc U \<and> (c \<noteq> [] \<longrightarrow> \<not> gc gb)) \<and> ctx_c gc ((e, g, gb, V) # c)"

definition may_be_red :: "('b \<Rightarrow> bool) \<Rightarrow> 'b ctx \<Rightarrow> bool" where
  "may_be_red gc c \<longleftrightarrow> (case c of (d, a, b, U) # e # c' \<Rightarrow> \<not> gc b | _ \<Rightarrow> True)"

lemma rb_simps_mk:
  "bh gc (mk d S a b U) = (if d then bh gc U else bh gc S) + (if gc b then 0 else 1)"
  "invh gc (mk d S a b U) \<longleftrightarrow> invh gc S \<and> invh gc U \<and> bh gc S = bh gc U"
  "invc gc (mk d S a b U) \<longleftrightarrow> invc gc S \<and> invc gc U \<and> (gc b \<longrightarrow> \<not> red_root gc S \<and> \<not> red_root gc U)"
  "red_root gc (mk d S a b U) = gc b"
  "rb_ok gc (mk d S a b U) \<longleftrightarrow> invh gc S \<and> invh gc U \<and> bh gc S = bh gc U \<and> invc gc S \<and> invc gc U"
  by (auto simp: mk_def)

lemma rb_ok_weaken: "invh gc S \<Longrightarrow> invc gc S \<Longrightarrow> rb_ok gc S"
  by (cases S) auto

lemma rb_ok_plug:
  assumes "invh gc S" "invc gc S" "ctx_h gc (bh gc S) c" "ctx_c gc c"
    and "red_root gc S \<Longrightarrow> may_be_red gc c"
  shows "rb_ok gc (plug S c)"
  using assms
proof (induction gc c arbitrary: S rule: ctx_c.induct)
  case (1 gc)
  then show ?case by (simp add: rb_ok_weaken)
next
  case (2 gc d a b U)
  then show ?case by (simp add: rb_simps_mk)
next
  case (3 gc d a b U e g gb V c)
  let ?S = "mk d S a b U"
  have "red_root gc S \<Longrightarrow> \<not> gc b" using "3.prems"(5) by (simp add: may_be_red_def)
  then have "invh gc ?S" "invc gc ?S" "bh gc ?S = bh gc S + (if gc b then 0 else 1)"
    using "3.prems" by (auto simp: rb_simps_mk)
  moreover have "red_root gc ?S \<Longrightarrow> may_be_red gc ((e, g, gb, V) # c)"
    using "3.prems"(4) by (cases c) (auto simp: rb_simps_mk may_be_red_def)
  ultimately show ?case using "3.IH" [of ?S] "3.prems" by simp
qed

lemma recolour_rb:
  assumes "\<And>red b. gc (sc red b) = red" and "red_root gc U" "invh gc U" "invc gc U"
  shows "invh gc (recolour (sc False) U)" "invc gc (recolour (sc False) U)"
    "bh gc (recolour (sc False) U) = Suc (bh gc U)" "\<not> red_root gc (recolour (sc False) U)"
  using assms(2-4) by (cases U; simp add: assms(1))+

lemma rb_ok_ins_fix:
  assumes "\<And>red b. gc (sc red b) = red"
    and "invh gc S" "invc gc S" "red_root gc S" "ctx_h gc (bh gc S) c" "ctx_c gc c"
  shows "rb_ok gc (ins_fix gc sc S c)"
  using assms
proof (induction gc sc S c rule: ins_fix.induct)
  case (1 gc sc S)
  then show ?case by (simp add: rb_ok_weaken)
next
  case (2 gc sc S d p pb L)
  then show ?case by (simp add: rb_simps_mk)
next
  case (3 gc sc S d p pb L e g gb U c)
  note sc = 3(2) and S = 3(3-5)
  have L: "invh gc L" "bh gc L = bh gc S" "invc gc L" and U: "invh gc U" "invc gc U"
    "bh gc U = bh gc S + (if gc pb then 0 else 1)"
    and top: "ctx_h gc (bh gc U + (if gc gb then 0 else 1)) c" "ctx_c gc ((e, g, gb, U) # c)"
    using 3(6,7) by (cases c; auto)+
  have ctx_c': "ctx_c gc c" using top(2) by (cases c) auto
  have redp: "\<not> red_root gc L" "c \<noteq> [] \<Longrightarrow> \<not> gc gb" if "gc pb" using 3(7) that by auto
  have wrap: "rb_ok gc (plug X c)"
    if "gc pb" "invh gc X" "invc gc X" "\<not> red_root gc X" "bh gc X = Suc (bh gc S)" for X
  proof (cases "c = []")
    case True
    then show ?thesis using that by (simp add: rb_ok_weaken)
  next
    case False
    then show ?thesis using that redp top(1) U(3) ctx_c' by (intro rb_ok_plug) auto
  qed
  show ?case
  proof (cases "gc pb")
    case False
    then have "rb_ok gc (plug S ((d, p, pb, L) # (e, g, gb, U) # c))"
      using S 3(6,7) by (intro rb_ok_plug) (auto simp: may_be_red_def)
    with False show ?thesis by simp
  next
    case True
    consider (recolour) "red_root gc U" | (outer) "\<not> red_root gc U" "d = e"
      | (inner) l n nb r where "\<not> red_root gc U" "d \<noteq> e" "S = Nd l n nb r"
      using S(3) by (cases S) auto
    then show ?thesis
    proof cases
      case recolour
      let ?G = "mk e (mk d S p (sc False pb) L) g (sc True gb) (recolour (sc False) U)"
      note rc = recolour_rb [where gc = gc and sc = sc and U = U, OF sc recolour U(1,2)]
      have "invh gc ?G" "invc gc ?G" "red_root gc ?G" "bh gc ?G = Suc (bh gc S)"
        using rc S L U(3) True by (auto simp: rb_simps_mk sc)
      moreover have "ctx_h gc (Suc (bh gc S)) c" using top(1) U(3) True redp(2) by (cases "c = []") auto
      ultimately have "rb_ok gc (ins_fix gc sc ?G c)" using 3(1) True recolour sc ctx_c' by auto
      with True recolour show ?thesis by simp
    next
      case outer
      have "rb_ok gc (plug (mk e S p (sc False pb) (mk e L g (sc True gb) U)) c)"
        using True S L U redp(1) outer(1) by (intro wrap) (auto simp: rb_simps_mk sc)
      with True outer show ?thesis by simp
    next
      case inner
      have "rb_ok gc (plug (mk e (mk (\<not> e) (if e then r else l) p pb L) n (sc False nb)
          (mk e (if e then l else r) g (sc True gb) U)) c)"
        using True S L U redp(1) inner by (intro wrap) (auto simp: rb_simps_mk sc)
      with True inner show ?thesis by simp
    qed
  qed
qed

lemma ins_path_ctx:
  assumes "invh gc T" "invc gc T" "ctx_h gc (bh gc T) c" "ctx_c gc c"
    and "red_root gc T \<Longrightarrow> may_be_red gc c"
  shows "ctx_h gc 0 (ins_path lt nb T c)" "ctx_c gc (ins_path lt nb T c)"
proof -
  have "ctx_h gc 0 (ins_path lt nb T c) \<and> ctx_c gc (ins_path lt nb T c)"
    using assms
  proof (induction T arbitrary: c)
    case Lf
    then show ?case by simp
  next
    case (Nd l a b r)
    define d where "d = (\<not> lt nb b)"
    define X where "X = (if d then r else l)"
    define V where "V = (if d then l else r)"
    have path: "ins_path lt nb (Nd l a b r) c = ins_path lt nb X ((d, a, b, V) # c)"
      by (simp add: d_def X_def V_def)
    have parts: "invh gc X" "invc gc X" "invh gc V" "invc gc V" "bh gc X = bh gc V"
      "bh gc (Nd l a b r) = bh gc X + (if gc b then 0 else 1)"
      "gc b \<Longrightarrow> \<not> red_root gc X \<and> \<not> red_root gc V"
      using Nd.prems(1,2) by (auto simp: X_def V_def)
    have "ctx_c gc ((d, a, b, V) # c)"
      using parts Nd.prems(4,5) by (cases c rule: remdups_adj.cases) (auto simp: may_be_red_def)
    moreover have "ctx_h gc (bh gc X) ((d, a, b, V) # c)" using parts Nd.prems(3) by auto
    moreover have "red_root gc X \<Longrightarrow> may_be_red gc ((d, a, b, V) # c)"
      using parts(7) by (cases c) (auto simp: may_be_red_def)
    ultimately have "ctx_h gc 0 (ins_path lt nb X ((d, a, b, V) # c)) \<and>
        ctx_c gc (ins_path lt nb X ((d, a, b, V) # c))"
      using Nd.IH parts(1,2) by (cases d) (auto simp: X_def)
    with path show ?case by simp
  qed
  then show "ctx_h gc 0 (ins_path lt nb T c)" "ctx_c gc (ins_path lt nb T c)" by auto
qed

lemma rb_ok_ins:
  assumes sc: "\<And>red b. gc (sc red b) = red" and ok: "rb_ok gc T"
  shows "rb_ok gc (ins gc sc lt n nb T)"
proof (cases T)
  case Lf
  then show ?thesis by (simp add: ins_def)
next
  case (Nd l a b r)
  have "ctx_h gc 0 (ins_path lt nb l [(False, a, b, r)])" "ctx_c gc (ins_path lt nb l [(False, a, b, r)])"
    using ok Nd by (auto intro!: ins_path_ctx simp: may_be_red_def)
  moreover have "ctx_h gc 0 (ins_path lt nb r [(True, a, b, l)])" "ctx_c gc (ins_path lt nb r [(True, a, b, l)])"
    using ok Nd by (auto intro!: ins_path_ctx simp: may_be_red_def)
  ultimately show ?thesis
    using Nd by (auto simp: ins_def intro!: rb_ok_ins_fix simp: sc)
qed

text \<open>What the balance is for: the height is logarithmic in the number of nodes.\<close>

fun theight :: "'b ptree \<Rightarrow> nat" where
  "theight Lf = 0"
| "theight (Nd l a b r) = Suc (max (theight l) (theight r))"

lemma bh_size: "invh gc T \<Longrightarrow> 2 ^ bh gc T \<le> Suc (length (inord T))"
proof (induction T)
  case Lf
  then show ?case by simp
next
  case (Nd l a b r)
  then have l: "2 ^ bh gc l \<le> Suc (length (inord l))" and r: "2 ^ bh gc l \<le> Suc (length (inord r))"
    by simp_all
  show ?case
  proof (cases "gc b")
    case True
    with l show ?thesis by simp
  next
    case False
    have "(2 :: nat) ^ bh gc (Nd l a b r) = 2 ^ bh gc l + 2 ^ bh gc l" using False by simp
    also have "\<dots> \<le> Suc (length (inord l)) + Suc (length (inord r))" using l r by (rule add_mono)
    finally show ?thesis by simp
  qed
qed

lemma theight_bh: "invh gc T \<Longrightarrow> invc gc T \<Longrightarrow> theight T \<le> 2 * bh gc T + (if red_root gc T then 1 else 0)"
proof (induction T)
  case Lf
  then show ?case by simp
next
  case (Nd l a b r)
  then show ?case by (auto split: if_splits)
qed

lemma rb_ok_height:
  assumes "rb_ok gc T"
  shows "2 ^ (theight T div 2) \<le> 2 * Suc (length (inord T))"
proof (cases T)
  case Lf
  then show ?thesis by simp
next
  case (Nd l a b r)
  with assms have "theight l \<le> 2 * bh gc l + 1" "theight r \<le> 2 * bh gc l + 1"
    using theight_bh [of gc l] theight_bh [of gc r] by (auto split: if_splits)
  then have "theight T div 2 \<le> Suc (bh gc l)" using Nd by simp
  then have "2 ^ (theight T div 2) \<le> (2 :: nat) ^ Suc (bh gc l)" by (rule power_increasing) simp
  also have "\<dots> \<le> 2 * Suc (length (inord T))"
    using bh_size [of gc l] assms Nd by simp
  finally show ?thesis .
qed

section \<open>Deletion of a node with at most one child\<close>

lemma ptr_plug_in: "c \<noteq> [] \<Longrightarrow> ptr (plug S c) \<in> ctx_addrs c"
proof (induction c arbitrary: S)
  case Nil
  then show ?case by simp
next
  case (Cons x c)
  then show ?case by (cases x; cases "c = []") auto
qed

lemma reprc_not_root:
  assumes "reprc t S c" and "S \<noteq> Lf" and "c \<noteq> []"
  shows "ptr S \<noteq> t_root t"
  using assms ptr_plug_in [of c S] ptr_in_addrs [of S] by (auto simp: reprc_def)

lemma sibling_is_self:
  assumes "reprc t S ((e, g, gb, U) # c)" and "S \<noteq> Lf"
  shows "tree_get_sibling (ptr S) t = Some (ptr S)"
proof -
  obtain l a b r where S: "S = Nd l a b r" using assms(2) by (cases S) auto
  have "deref t a = Some (mkn False (ptr l) (ptr r) g b)"
    "deref t g = Some (mkn e a (ptr U) (ctx_ptr c) gb)" "g \<noteq> NULL"
    using assms(1) S by (auto simp: reprc_def deref_def)
  with reprc_dir_child [OF assms] S show ?thesis by (simp add: tree_get_sibling_def node_simps)
qed

lemma unhook_ok:
  assumes "reprc t S ((d, p, pb, V) # c)" and "S \<noteq> Lf"
  obtains t' where "modify p (set_child d NULL) t = Some t'" "reprc t' Lf ((d, p, pb, V) # c)"
    "tree_st.more t' = tree_st.more t"
proof -
  have root: "ptr (plug Lf ((d, p, pb, V) # c)) = ptr (plug S ((d, p, pb, V) # c))" by (rule ptr_plug) simp
  have "\<exists>t'. modify p (set_child d NULL) t = Some t' \<and> reprc t' Lf ((d, p, pb, V) # c) \<and>
      tree_st.more t' = tree_st.more t"
    using assms unfolding reprc_def root by (simp add: repr_simps exec_simps)
  then show thesis using that by blast
qed

text \<open>One call of \<^verbatim>\<open>delete_fixbb\<close> on a leaf that is black: it paints the leaf red.\<close>

lemma fixbb_black_leaf:
  assumes rep: "reprc t (Nd Lf n b Lf) ((d, p, pb, V) # c)" and "\<not> gc b"
    and sc: "\<And>red b. gc (sc red b) = red"
  obtains t1 where "reprc t1 (Nd Lf n (sc True b) Lf) ((d, p, pb, V) # c)"
    "tree_st.more t1 = tree_st.more t"
    "rb_delete_fixbb gc sc n t = (if gc pb then paint sc False p t1 else rb_delete_fixbb gc sc n t1)"
proof -
  have mkn0: "Nd Lf n x Lf = mk False Lf n x Lf" for x by (simp add: mk_def)
  have nr: "n \<noteq> t_root t" using reprc_not_root [OF rep] by simp
  have sib: "tree_get_sibling n t = Some n" using sibling_is_self [OF rep] by simp
  have nn: "deref t n = Some (mkn False NULL NULL p b)" "n \<noteq> NULL"
    using rep by (auto simp: reprc_def deref_def)
  obtain t1 where t1: "paint sc True n t = Some t1" "reprc t1 (Nd Lf n (sc True b) Lf) ((d, p, pb, V) # c)"
    "tree_st.more t1 = tree_st.more t"
    using paint_ok [of t False Lf n b Lf "(d, p, pb, V) # c" sc True] rep by (auto simp: mkn0 [symmetric])
  have pn: "deref t1 p = Some (mkn d n (ptr V) (ctx_ptr c) pb)"
    using reprc_deref [of t1 d "Nd Lf n (sc True b) Lf" p pb V c] t1(2) by (simp add: reprc_Cons)
  have "rb_delete_fixbb gc sc n t = (if gc pb then paint sc False p t1 else rb_delete_fixbb gc sc n t1)"
    using nr sib nn assms(2) t1(1) pn
    by (subst rb_delete_fixbb.simps) (simp add: is_red_def red_child_def node_simps Let_def)
  with t1 that show thesis by blast
qed

lemma fixbb_red_leaf:
  assumes rep: "reprc t (Nd Lf n b Lf) ((d, p, pb, mk d C s sb D) # c)" and "gc b"
    and sc: "\<And>red b. gc (sc red b) = red"
  obtains t1 where "reprc t1 (Nd Lf n (sc False b) Lf) ((d, p, sc True pb, C) # (d, s, sb, D) # c)"
    "tree_st.more t1 = tree_st.more t" "rb_delete_fixbb gc sc n t = rb_delete_fixbb gc sc n t1"
proof -
  let ?V = "mk d C s sb D" and ?S = "Nd Lf n b Lf" and ?S1 = "Nd Lf n (sc False b) Lf"
  have mkn0: "Nd Lf n x Lf = mk False Lf n x Lf" for x by (simp add: mk_def)
  have nr: "n \<noteq> t_root t" using reprc_not_root [OF rep] by simp
  have sib: "tree_get_sibling n t = Some n" using sibling_is_self [OF rep] by simp
  have nn: "deref t n = Some (mkn False NULL NULL p b)" "n \<noteq> NULL"
    using rep by (auto simp: reprc_def deref_def)
  obtain t1 where t1: "paint sc True p t = Some t1" "reprc t1 ?S ((d, p, sc True pb, ?V) # c)"
    "tree_st.more t1 = tree_st.more t"
    using paint_ok [of t d ?S p pb ?V c sc True] rep by (auto simp: reprc_Cons)
  obtain t2 where t2: "paint sc False n t1 = Some t2" "reprc t2 ?S1 ((d, p, sc True pb, ?V) # c)"
    "tree_st.more t2 = tree_st.more t"
    using paint_ok [of t1 False Lf n b Lf "(d, p, sc True pb, ?V) # c" sc False] t1
    by (auto simp: mkn0 [symmetric])
  have dir: "tree_dir_child n t2 = Some d" using reprc_dir_child [OF t2(2)] by simp
  have "reprc t2 (mk (\<not> d) ?V p (sc True pb) ?S1) c"
    using t2(2) by (simp add: reprc_Cons mk_swap [of d ?S1])
  from rb_rotate_ok [OF this] obtain t3 where t3: "rb_rotate p d t2 = Some t3"
    "reprc t3 (mk d (mk (\<not> d) C p (sc True pb) ?S1) s sb D) c" "tree_st.more t3 = tree_st.more t"
    using t2(3) by metis
  have "reprc t3 ?S1 ((d, p, sc True pb, C) # (d, s, sb, D) # c)"
    using t3(2) by (simp add: reprc_Cons mk_swap [of d ?S1])
  moreover have "rb_delete_fixbb gc sc n t = rb_delete_fixbb gc sc n t3"
    using nr sib nn assms(2) t1(1) t2(1) t3(1) dir
    by (subst rb_delete_fixbb.simps) (simp add: is_red_def node_simps Let_def)
  ultimately show thesis using that t3(3) by blast
qed

text \<open>
  \<open>del_ctx\<close>: the path above a leaf after it has been removed, as the code leaves it.
\<close>

fun del_ctx :: "('b \<Rightarrow> bool) \<Rightarrow> (bool \<Rightarrow> 'b \<Rightarrow> 'b) \<Rightarrow> 'b \<Rightarrow> 'b ctx \<Rightarrow> 'b ctx" where
  "del_ctx gc sc b [] = []"
| "del_ctx gc sc b ((d, p, pb, V) # c) =
     (if gc b then (d, p, pb, V) # c
      else if gc pb then (d, p, sc False pb, V) # c
      else case V of
          Lf \<Rightarrow> (d, p, pb, V) # c
        | Nd l s sb r \<Rightarrow> (d, p, sc False (sc True pb), if d then r else l) #
            (d, s, sb, if d then l else r) # c)"

lemma fixbb_leaf:
  assumes rep: "reprc t (Nd Lf n b Lf) ((d, p, pb, V) # c)" and nb: "\<not> gc b"
    and sc: "\<And>red b. gc (sc red b) = red" and V: "\<not> gc pb \<Longrightarrow> V \<noteq> Lf"
  obtains t1 b1 pb1 V1 c1 where "rb_delete_fixbb gc sc n t = Some t1"
    "reprc t1 (Nd Lf n b1 Lf) ((d, p, pb1, V1) # c1)" "tree_st.more t1 = tree_st.more t"
    "del_ctx gc sc b ((d, p, pb, V) # c) = (d, p, pb1, V1) # c1"
proof -
  let ?S = "Nd Lf n (sc True b) Lf"
  obtain t1 where t1: "reprc t1 ?S ((d, p, pb, V) # c)" "tree_st.more t1 = tree_st.more t"
    "rb_delete_fixbb gc sc n t = (if gc pb then paint sc False p t1 else rb_delete_fixbb gc sc n t1)"
    using fixbb_black_leaf [where gc = gc and sc = sc, OF rep nb sc] by metis
  show thesis
  proof (cases "gc pb")
    case True
    obtain t2 where "paint sc False p t1 = Some t2" "reprc t2 ?S ((d, p, sc False pb, V) # c)"
      "tree_st.more t2 = tree_st.more t1"
      using paint_ok [of t1 d ?S p pb V c sc False] t1(1) by (auto simp: reprc_Cons)
    with True t1 nb that [of t2 "sc True b" "sc False pb" V c] show thesis by simp
  next
    case False
    obtain l s sb r where Vn: "V = Nd l s sb r" using V [OF False] by (cases V) auto
    let ?C = "if d then r else l" and ?D = "if d then l else r"
    have mkV: "V = mk d ?C s sb ?D" using Vn by (simp add: mk_def)
    let ?S2 = "Nd Lf n (sc False (sc True b)) Lf" and ?c = "(d, s, sb, ?D) # c"
    have red: "gc (sc True b)" by (simp add: sc)
    obtain t2 where t2: "reprc t2 ?S2 ((d, p, sc True pb, ?C) # ?c)" "tree_st.more t2 = tree_st.more t1"
      "rb_delete_fixbb gc sc n t1 = rb_delete_fixbb gc sc n t2"
      using fixbb_red_leaf [where gc = gc and sc = sc, OF t1(1) [unfolded mkV] red sc] by metis
    have blk: "\<not> gc (sc False (sc True b))" by (simp add: sc)
    obtain t3 where t3: "reprc t3 (Nd Lf n (sc True (sc False (sc True b))) Lf) ((d, p, sc True pb, ?C) # ?c)"
      "tree_st.more t3 = tree_st.more t2" "rb_delete_fixbb gc sc n t2 = paint sc False p t3"
      using fixbb_black_leaf [where gc = gc and sc = sc, OF t2(1) blk sc] by (metis sc)
    obtain t4 where "paint sc False p t3 = Some t4"
      "reprc t4 (Nd Lf n (sc True (sc False (sc True b))) Lf) ((d, p, sc False (sc True pb), ?C) # ?c)"
      "tree_st.more t4 = tree_st.more t3"
      using paint_ok [of t3 d _ p "sc True pb" ?C ?c sc False] t3(1) by (auto simp: reprc_Cons)
    with t1 t2 t3 False nb Vn that [of t4 _ "sc False (sc True pb)" ?C ?c] show thesis by simp
  qed
qed

lemma rb_delete_leaf:
  assumes rep: "reprc t (Nd Lf n b Lf) c" and sc: "\<And>red b. gc (sc red b) = red"
    and sib: "\<And>d p pb c'. c = (d, p, pb, Lf) # c' \<Longrightarrow> gc b \<or> gc pb"
  obtains t' where "rb_delete gc sc absorb swap relink n t = Some (t', n)"
    "repr t' (plug Lf (del_ctx gc sc b c))" "tree_st.more t' = tree_st.more t"
proof -
  have nn: "deref t n = Some (mkn False NULL NULL (ctx_ptr c) b)" "n \<noteq> NULL"
    using rep by (auto simp: reprc_def deref_def)
  have del: "rb_delete gc sc absorb swap relink n t = do { t1 \<leftarrow> rb_unlink_leaf gc sc n t; Some (t1, n) }"
    using nn by (subst rb_delete.simps) (simp add: rb_delete_replacement_def node_simps)
  show thesis
  proof (cases c)
    case Nil
    have "t_root t = n" using rep Nil by (simp add: reprc_def)
    with del nn Nil show thesis
      by (intro that [of "t\<lparr>t_root := NULL\<rparr>"]) (simp_all add: rb_unlink_leaf_def Let_def repr_def)
  next
    case (Cons x c')
    obtain d p pb V where x: "x = (d, p, pb, V)" by (cases x)
    note rep' = rep [unfolded Cons x]
    have nr: "n \<noteq> t_root t" using reprc_not_root [OF rep] Cons by simp
    have "\<exists>t1 b1 pb1 V1 c1. (if \<not> gc b then rb_delete_fixbb gc sc n t
          else do { s \<leftarrow> tree_get_sibling n t; if s \<noteq> NULL then paint sc True s t else Some t }) = Some t1 \<and>
        reprc t1 (Nd Lf n b1 Lf) ((d, p, pb1, V1) # c1) \<and> tree_st.more t1 = tree_st.more t \<and>
        del_ctx gc sc b c = (d, p, pb1, V1) # c1"
    proof (cases "gc b")
      case True
      have "tree_get_sibling n t = Some n" using sibling_is_self [OF rep'] by simp
      moreover obtain t1 where "paint sc True n t = Some t1"
        "reprc t1 (mk False Lf n (sc True b) Lf) ((d, p, pb, V) # c')" "tree_st.more t1 = tree_st.more t"
        using paint_ok [of t False Lf n b Lf "(d, p, pb, V) # c'" sc True] rep' by (auto simp: mk_def)
      moreover have "mk False Lf n (sc True b) Lf = Nd Lf n (sc True b) Lf" by (simp add: mk_def)
      ultimately have "(if \<not> gc b then rb_delete_fixbb gc sc n t
          else do { s \<leftarrow> tree_get_sibling n t; if s \<noteq> NULL then paint sc True s t else Some t }) = Some t1 \<and>
        reprc t1 (Nd Lf n (sc True b) Lf) ((d, p, pb, V) # c') \<and> tree_st.more t1 = tree_st.more t \<and>
        del_ctx gc sc b c = (d, p, pb, V) # c'" using True nn(2) Cons x by simp
      then show ?thesis by blast
    next
      case False
      have "\<not> gc pb \<Longrightarrow> V \<noteq> Lf" using sib Cons x False by auto
      then obtain t1 b1 pb1 V1 c1 where "rb_delete_fixbb gc sc n t = Some t1"
        "reprc t1 (Nd Lf n b1 Lf) ((d, p, pb1, V1) # c1)" "tree_st.more t1 = tree_st.more t"
        "del_ctx gc sc b ((d, p, pb, V) # c') = (d, p, pb1, V1) # c1"
        by (rule fixbb_leaf [where gc = gc and sc = sc, OF rep' False sc])
      then have "(if \<not> gc b then rb_delete_fixbb gc sc n t
          else do { s \<leftarrow> tree_get_sibling n t; if s \<noteq> NULL then paint sc True s t else Some t }) = Some t1 \<and>
        reprc t1 (Nd Lf n b1 Lf) ((d, p, pb1, V1) # c1) \<and> tree_st.more t1 = tree_st.more t \<and>
        del_ctx gc sc b c = (d, p, pb1, V1) # c1" using False Cons x by (simp only: if_True simp_thms)
      then show ?thesis by blast
    qed
    then obtain t1 b1 pb1 V1 c1 where fx: "(if \<not> gc b then rb_delete_fixbb gc sc n t
          else do { s \<leftarrow> tree_get_sibling n t; if s \<noteq> NULL then paint sc True s t else Some t }) = Some t1"
      "reprc t1 (Nd Lf n b1 Lf) ((d, p, pb1, V1) # c1)" "tree_st.more t1 = tree_st.more t"
      "del_ctx gc sc b c = (d, p, pb1, V1) # c1" by blast
    have dir: "tree_dir_child n t1 = Some d" using reprc_dir_child [OF fx(2)] by simp
    obtain t' where t': "modify p (set_child d NULL) t1 = Some t'" "reprc t' Lf ((d, p, pb1, V1) # c1)"
      "tree_st.more t' = tree_st.more t"
      using unhook_ok [OF fx(2)] fx(3) by auto
    have "rb_unlink_leaf gc sc n t = Some t'"
      using nn nr dir fx(1) t'(1) Cons x unfolding rb_unlink_leaf_def
      by (simp add: Let_def node_simps del: if_not_P if_P)
    with del t' fx(4) that [of t'] show thesis by (simp add: reprc_repr)
  qed
qed

lemma keys_del_ctx:
  assumes "\<And>red b. k (sc red b) = k b"
  shows "keys k (plug Lf (del_ctx gc sc b c)) = keys k (plug Lf c)"
proof (cases c)
  case (Cons x c')
  obtain d p pb V where x: "x = (d, p, pb, V)" by (cases x)
  show ?thesis
    unfolding Cons x by (cases V) (auto simp: assms mk_def intro!: keys_plug_cong)
qed simp

lemma keys_filter_out: "n \<notin> addrs T \<Longrightarrow> filter (\<lambda>x. fst x \<noteq> n) (keys k T) = keys k T"
  by (induction T) auto

lemma keys_filter_ctx:
  assumes "n \<notin> ctx_addrs c" "filter (\<lambda>x. fst x \<noteq> n) (keys k S) = keys k S'"
  shows "filter (\<lambda>x. fst x \<noteq> n) (keys k (plug S c)) = keys k (plug S' c)"
  using assms
proof (induction c arbitrary: S S')
  case (Cons x c)
  obtain d a b U where x: "x = (d, a, b, U)" by (cases x)
  have "filter (\<lambda>x. fst x \<noteq> n) (keys k (mk d S a b U)) = keys k (mk d S' a b U)"
    using Cons.prems x keys_filter_out [of n U k] by (auto simp: mk_def)
  then show ?case using Cons.prems(1) x by (simp add: Cons.IH)
qed simp

lemma keys_filter_plug:
  "n \<notin> ctx_addrs c \<Longrightarrow> filter (\<lambda>x. fst x \<noteq> n) (keys k (plug (Nd Lf n b Lf) c)) = keys k (plug Lf c)"
  by (rule keys_filter_ctx) simp_all

lemma rb_delete_single:
  assumes rep: "reprc t (mk e (Nd ul u ub ur) n b Lf) ((d, p, pb, V) # c)" and red: "gc ub"
  obtains t' where "rb_delete gc sc absorb swap relink n t = Some (t', n)"
    "reprc t' (Nd ul u (sc False ub) ur) ((d, p, pb, V) # c)" "tree_st.more t' = tree_st.more t"
proof -
  let ?S = "mk e (Nd ul u ub ur) n b Lf" and ?c = "(d, p, pb, V) # c"
  have nn: "deref t n = Some (mkn e u NULL p b)" "n \<noteq> NULL" "u \<noteq> NULL"
    "deref t u = Some (mkn False (ptr ul) (ptr ur) n ub)"
    using rep by (auto simp: reprc_def deref_def tree_at_mk)
  have nr: "n \<noteq> t_root t" using reprc_not_root [OF rep] by simp
  have dir: "tree_dir_child n t = Some d" using reprc_dir_child [OF rep] by simp
  let ?t1 = "t\<lparr>t_nodes := (t_nodes t)(p \<mapsto> mkn d u (ptr V) (ctx_ptr c) pb)\<rparr>"
  let ?t2 = "?t1\<lparr>t_nodes := (t_nodes ?t1)(u \<mapsto> mkn False (ptr ul) (ptr ur) p ub)\<rparr>"
  have out: "p \<noteq> u" "p \<noteq> NULL" using rep by (auto simp: reprc_def addrs_mk)
  have m1: "modify p (set_child d u) t = Some ?t1"
    using rep by (simp add: reprc_def modify_def deref_def node_simps)
  have m2: "modify u (n_parent_update (\<lambda>_. p)) ?t1 = Some ?t2"
    using nn(3,4) out by (simp add: modify_def deref_def node_simps)
  have root: "ptr (plug (Nd ul u ub ur) ?c) = ptr (plug ?S ?c)" by (rule ptr_plug) simp
  have r2: "reprc ?t2 (mk False ul u ub ur) ?c"
    using rep out unfolding reprc_def mk_def [of False] if_False root
    by (simp add: repr_simps set_simps)
  from paint_ok [OF r2, of sc False] obtain t3 where t3: "paint sc False u ?t2 = Some t3"
    "reprc t3 (mk False ul u (sc False ub) ur) ?c" "tree_st.more t3 = tree_st.more t" by auto
  have kids: "n_left (mkn e u NULL p b) = NULL \<or> n_right (mkn e u NULL p b) = NULL"
    "rb_delete_replacement n t = Some u"
    using nn by (auto simp: rb_delete_replacement_def node_simps)
  have "rb_delete gc sc absorb swap relink n t = rb_unlink_single gc sc absorb relink n u t"
    using nn kids by (subst rb_delete.simps) auto
  also have "\<dots> = Some (t3, n)"
    using nn nr dir m1 m2 t3(1) red by (simp add: rb_unlink_single_def Let_def node_simps)
  finally show thesis using that t3(2,3) by (simp add: mk_def)
qed

section \<open>The leftmost node\<close>

lemma rb_leftmost_ok:
  assumes "tree_at t par T" "T \<noteq> Lf"
  shows "rb_leftmost (ptr T) t = Some (fst (hd (inord T)))"
  using assms
proof (induction T arbitrary: par)
  case (Nd l a b r)
  have n: "deref t a = Some (mkn False (ptr l) (ptr r) par b)" using Nd.prems by (simp add: deref_def)
  show ?case
  proof (cases l)
    case Lf
    then show ?thesis using n by (subst rb_leftmost.simps) (simp add: node_simps)
  next
    case (Nd ll la lb lr)
    then have "la \<noteq> NULL" "rb_leftmost la t = Some (fst (hd (inord l)))"
      using Nd.IH(1) [of a] Nd.prems by auto
    moreover have "hd (inord l @ (a, b) # inord r) = hd (inord l)" using Nd by (cases "inord l") auto
    ultimately show ?thesis using n Nd by (subst rb_leftmost.simps) (simp add: node_simps)
  qed
qed simp

lemma tree_at_node:
  "(n, b) \<in> set (inord S) \<Longrightarrow> tree_at t p S \<Longrightarrow>
     n \<noteq> NULL \<and> (\<exists>l r par. t_nodes t n = Some (mkn False l r par b))"
  by (induction S arbitrary: p) auto

lemma plug_append: "plug S (c @ c') = plug (plug S c) c'"
  by (induction S c rule: plug.induct) auto

lemma bh_0: "invh gc T \<Longrightarrow> invc gc T \<Longrightarrow> bh gc T = 0 \<Longrightarrow> T \<noteq> Lf \<Longrightarrow> \<exists>a b. T = Nd Lf a b Lf \<and> gc b"
proof (cases T)
  case (Nd l a b r)
  assume "invh gc T" "invc gc T" "bh gc T = 0"
  then have "gc b" "bh gc l = 0" "bh gc r = 0" "\<not> red_root gc l" "\<not> red_root gc r"
    using Nd by (auto split: if_splits)
  then have "l = Lf" "r = Lf" by (cases l; cases r; auto split: if_splits)+
  with Nd \<open>gc b\<close> show ?thesis by simp
qed simp

definition removable :: "('b \<Rightarrow> bool) \<Rightarrow> 'b \<Rightarrow> 'b ptree \<Rightarrow> 'b ctx \<Rightarrow> bool" where
  "removable gc b r c \<longleftrightarrow> (r = Lf \<or> (\<exists>u ub. r = Nd Lf u ub Lf \<and> gc ub)) \<and>
     (\<forall>d p pb c'. c = (d, p, pb, Lf) # c' \<longrightarrow> gc b)"

lemma leftmost_removable:
  "rb_ok gc T \<Longrightarrow> T \<noteq> Lf \<Longrightarrow>
     \<exists>a b r c. T = plug (Nd Lf a b r) c \<and> hd (inord T) = (a, b) \<and> removable gc b r c"
proof (induction T)
  case (Nd l a b r)
  show ?case
  proof (cases "l = Lf")
    case True
    then have "r = Lf \<or> (\<exists>u ub. r = Nd Lf u ub Lf \<and> gc ub)" using bh_0 [of gc r] Nd.prems by auto
    with True show ?thesis by (intro exI [of _ a] exI [of _ b] exI [of _ r] exI [of _ "[]"]) (simp add: removable_def)
  next
    case False
    moreover have "rb_ok gc l" using Nd.prems(1) by (intro rb_ok_weaken) auto
    ultimately obtain a' b' r' c where IH: "l = plug (Nd Lf a' b' r') c" "hd (inord l) = (a', b')" "removable gc b' r' c"
      using Nd by auto
    have "inord l \<noteq> []" using False by (cases l) auto
    then have "hd (inord (Nd l a b r)) = (a', b')" using IH(2) by simp
    moreover have "removable gc b' r' (c @ [(False, a, b, r)])"
    proof (cases c)
      case Nil
      then have "gc b'" if "r = Lf" using IH(1) Nd.prems(1) that by (auto split: if_splits)
      with Nil IH(3) show ?thesis by (auto simp: removable_def)
    next
      case (Cons x c')
      with IH(3) show ?thesis by (auto simp: removable_def)
    qed
    moreover have "Nd l a b r = plug (Nd Lf a' b' r') (c @ [(False, a, b, r)])"
      using IH(1) by (simp add: plug_append mk_def)
    ultimately show ?thesis by blast
  qed
qed simp

text \<open>Removal of the leftmost node of a balanced tree, unless it is the root and has a child.\<close>

lemma rb_delete_leftmost:
  fixes k :: "'b \<Rightarrow> 'k"
  assumes rep: "repr t (plug (Nd Lf n b r) c)" and rem: "removable gc b r c" and top: "r = Lf \<or> c \<noteq> []"
    and sc: "\<And>red b. gc (sc red b) = red" "\<And>red b. k (sc red b) = k b"
  obtains t' T' where "rb_delete gc sc absorb swap relink n t = Some (t', n)" "repr t' T'"
    "tree_st.more t' = tree_st.more t"
    "keys k T' = filter (\<lambda>x. fst x \<noteq> n) (keys k (plug (Nd Lf n b r) c))"
proof (cases "r = Lf")
  case True
  have rep': "reprc t (Nd Lf n b Lf) c" using rep True by (simp add: reprc_repr)
  obtain t' where t': "rb_delete gc sc absorb swap relink n t = Some (t', n)"
    "repr t' (plug Lf (del_ctx gc sc b c))" "tree_st.more t' = tree_st.more t"
    by (rule rb_delete_leaf [where gc = gc and sc = sc, OF rep' sc(1)]) (use rem in \<open>auto simp: removable_def\<close>)
  have "n \<notin> ctx_addrs c" using rep' by (auto simp: reprc_def)
  then have "keys k (plug Lf (del_ctx gc sc b c)) = filter (\<lambda>x. fst x \<noteq> n) (keys k (plug (Nd Lf n b r) c))"
    using True keys_del_ctx [of k sc, OF sc(2)] keys_filter_ctx [of n c k "Nd Lf n b Lf" Lf] by simp
  with t' show thesis by (rule that)
next
  case False
  then obtain u ub where r: "r = Nd Lf u ub Lf" "gc ub" using rem by (auto simp: removable_def)
  obtain d p pb V c' where c: "c = (d, p, pb, V) # c'" using False top by (cases c) auto
  have rep': "reprc t (mk True (Nd Lf u ub Lf) n b Lf) ((d, p, pb, V) # c')"
    using rep r c by (simp add: reprc_repr mk_def)
  obtain t' where t': "rb_delete gc sc absorb swap relink n t = Some (t', n)"
    "reprc t' (Nd Lf u (sc False ub) Lf) c" "tree_st.more t' = tree_st.more t"
    unfolding c by (rule rb_delete_single [where gc = gc and sc = sc, OF rep' r(2)])
  have "n \<notin> ctx_addrs c" "u \<noteq> n" using rep' c by (auto simp: reprc_def addrs_mk dtree_mk)
  then have "keys k (plug (Nd Lf u (sc False ub) Lf) c) = filter (\<lambda>x. fst x \<noteq> n) (keys k (plug (Nd Lf n b r) c))"
    using keys_filter_ctx [of n c k "Nd Lf n b r" "Nd Lf u (sc False ub) Lf"] r sc(2) by simp
  with t' show thesis by (intro that [of t']) (simp_all add: reprc_repr)
qed

section \<open>What the two users of the tree have to provide\<close>

text \<open>
  A payload with a colour that can be set without changing the key, and a comparison that is the
  order of the keys. Under these laws insertion is correct, and deletion of a node without children
  is correct up to the balance.
\<close>

locale rb_payload =
  fixes gc :: "'b \<Rightarrow> bool"
    and sc :: "bool \<Rightarrow> 'b \<Rightarrow> 'b"
    and lt :: "'b \<Rightarrow> 'b \<Rightarrow> bool"
    and k :: "'b \<Rightarrow> 'k :: linorder"
  assumes gc_sc: "gc (sc red b) = red"
    and k_sc: "k (sc red b) = k b"
    and lt_k: "lt x y \<longleftrightarrow> k x < k y"
begin

lemma insert_correct:
  assumes "repr t T" "sorted (map snd (keys k T))" "rb_ok gc T"
    and "n \<noteq> NULL" "n \<notin> addrs T" "t_nodes t n = Some x"
  defines "T' \<equiv> ins gc sc lt n (n_body x) T"
  shows "\<exists>t'. rb_insert gc sc lt n t = Some t' \<and> repr t' T' \<and> tree_st.more t' = tree_st.more t"
    and "sorted (map snd (keys k T'))" "rb_ok gc T'"
    and "length (inord T') = Suc (length (inord T))"
    and "2 ^ (theight T' div 2) \<le> 2 * Suc (length (inord T'))"
proof -
  show "\<exists>t'. rb_insert gc sc lt n t = Some t' \<and> repr t' T' \<and> tree_st.more t' = tree_st.more t"
    using rb_insert_ok [OF assms(1,4-6)] unfolding T'_def by metis
  note sorted = ins_sorted [where k = k and sc = sc and gc = gc and lt = lt and n = n
      and nb = "n_body x", OF k_sc lt_k assms(2), folded T'_def]
  show "sorted (map snd (keys k T'))" by (rule sorted(1))
  show "length (inord T') = Suc (length (inord T))" using sorted(3) by (simp add: keys_def)
  show "rb_ok gc T'" unfolding T'_def by (rule rb_ok_ins [OF gc_sc assms(3)])
  then show "2 ^ (theight T' div 2) \<le> 2 * Suc (length (inord T'))" by (rule rb_ok_height)
qed

lemma delete_leaf_correct:
  assumes "repr t (plug (Nd Lf n b Lf) c)"
    and "\<And>d p pb c'. c = (d, p, pb, Lf) # c' \<Longrightarrow> gc b \<or> gc pb"
  shows "\<exists>t' T'. rb_delete gc sc absorb swap relink n t = Some (t', n) \<and> repr t' T' \<and>
    tree_st.more t' = tree_st.more t \<and> keys k T' = filter (\<lambda>x. fst x \<noteq> n) (keys k (plug (Nd Lf n b Lf) c))"
proof -
  have rep: "reprc t (Nd Lf n b Lf) c" using assms(1) by (simp add: reprc_repr)
  obtain t' where t': "rb_delete gc sc absorb swap relink n t = Some (t', n)"
    "repr t' (plug Lf (del_ctx gc sc b c))" "tree_st.more t' = tree_st.more t"
    by (rule rb_delete_leaf [where gc = gc and sc = sc, OF rep gc_sc assms(2)])
  have "n \<notin> ctx_addrs c" using rep by (auto simp: reprc_def)
  then have "filter (\<lambda>x. fst x \<noteq> n) (keys k (plug (Nd Lf n b Lf) c)) = keys k (plug Lf c)"
    by (rule keys_filter_plug)
  moreover have "keys k (plug Lf (del_ctx gc sc b c)) = keys k (plug Lf c)"
    by (rule keys_del_ctx) (rule k_sc)
  ultimately show ?thesis using t' by auto
qed

end

end
