(* ===== verification/Allocator.thy ===== *)
theory Allocator
  imports Rbtree Kernmem
begin

text \<open>
  The physical memory allocator of \<^verbatim>\<open>modules/vmemory/allocator.c\<close>: free regions as nodes of the
  red-black tree of the previous theory, keyed by address, the colour in bit 63 of the size, and a
  pool of pre-allocated nodes. The state extends the tree store by the pool and by the kernel heap,
  whose \<^verbatim>\<open>kmalloc\<close> and \<^verbatim>\<open>kfree\<close> are those of the heap theory; the mapping hooks of the heap are
  passed along. A node that \<^verbatim>\<open>kmalloc\<close> returns is entered in the store with all fields zero: the
  code assigns every field of a node before it reads one. The error result
  \<^verbatim>\<open>(void*)-1\<close> is the pointer \<open>- 1\<close>.
\<close>

unbundle bit_operations_syntax

section \<open>Node payload and colour\<close>

record region =
  r_addr :: addr
  r_size :: u64

definition tree_get_clr :: "region \<Rightarrow> bool" where
  "tree_get_clr b \<longleftrightarrow> drop_bit 63 (r_size b) = 1"

definition tree_set_clr :: "bool \<Rightarrow> region \<Rightarrow> region" where
  "tree_set_clr red b =
     (if red then b\<lparr>r_size := r_size b OR push_bit 63 1\<rparr>
      else b\<lparr>r_size := r_size b AND NOT (push_bit 63 1)\<rparr>)"

definition tree_get_size :: "region \<Rightarrow> u64" where
  "tree_get_size b = r_size b AND NOT (push_bit 63 1)"

definition tree_set_size :: "u64 \<Rightarrow> region \<Rightarrow> region" where
  "tree_set_size sz b = b\<lparr>r_size := sz AND NOT (push_bit 63 1)\<rparr>"

definition region_lt :: "region \<Rightarrow> region \<Rightarrow> bool" where
  "region_lt x y \<longleftrightarrow> r_addr x < r_addr y"

section \<open>State\<close>

record alloc_st = "region tree_st" +
  node_mem_pool :: "addr list"
  node_mem_pool_i :: u64
  a_heap :: kmem

definition NODE_MEM_POOL_SIZE :: nat where
  "NODE_MEM_POOL_SIZE = 112"

definition kmalloc_node :: "unit map_hooks \<Rightarrow> alloc_st \<Rightarrow> (alloc_st \<times> addr) option" where
  "kmalloc_node hooks t =
     do {
       (h, p) \<leftarrow> kmalloc hooks 40 (a_heap t);
       Some (t\<lparr>a_heap := h, t_nodes := (t_nodes t)(p \<mapsto> mkn False NULL NULL NULL \<lparr>r_addr = 0, r_size = 0\<rparr>)\<rparr>, p)
     }"

definition kfree_node :: "addr \<Rightarrow> alloc_st \<Rightarrow> alloc_st option" where
  "kfree_node p t = do { h \<leftarrow> kfree p (a_heap t); Some (t\<lparr>a_heap := h\<rparr>) }"

fun node_mem_pool_fill :: "unit map_hooks \<Rightarrow> nat list \<Rightarrow> alloc_st \<Rightarrow> alloc_st option" where
  "node_mem_pool_fill hooks [] t = Some t"
| "node_mem_pool_fill hooks (i # is) t =
     do {
       (t1, p) \<leftarrow> kmalloc_node hooks t;
       node_mem_pool_fill hooks is (t1\<lparr>node_mem_pool := (node_mem_pool t1)[i := p]\<rparr>)
     }"

definition node_mem_pool_init :: "unit map_hooks \<Rightarrow> alloc_st \<Rightarrow> alloc_st option" where
  "node_mem_pool_init hooks t = node_mem_pool_fill hooks [0..<NODE_MEM_POOL_SIZE] t"

fun node_mem_pool_shift :: "unit map_hooks \<Rightarrow> nat \<Rightarrow> nat list \<Rightarrow> alloc_st \<Rightarrow> alloc_st option" where
  "node_mem_pool_shift hooks k [] t = Some t"
| "node_mem_pool_shift hooks k (i # is) t =
     do {
       let t1 = t\<lparr>node_mem_pool := (node_mem_pool t)[i - k := node_mem_pool t ! i]\<rparr>;
       (t2, p) \<leftarrow> kmalloc_node hooks t1;
       node_mem_pool_shift hooks k is (t2\<lparr>node_mem_pool := (node_mem_pool t2)[i := p]\<rparr>)
     }"

definition alloc_node :: "unit map_hooks \<Rightarrow> alloc_st \<Rightarrow> (alloc_st \<times> addr) option" where
  "alloc_node hooks t =
     do {
       let t1 = t\<lparr>node_mem_pool_i := node_mem_pool_i t + 1\<rparr>;
       t2 \<leftarrow> (if unat (node_mem_pool_i t) \<ge> NODE_MEM_POOL_SIZE div 2
             then do {
               t2 \<leftarrow> node_mem_pool_shift hooks (unat (node_mem_pool_i t1))
                      [unat (node_mem_pool_i t1)..<NODE_MEM_POOL_SIZE] t1;
               Some (t2\<lparr>node_mem_pool_i := 0\<rparr>)
             }
             else Some t1);
       Some (t2, node_mem_pool t2 ! unat (node_mem_pool_i t2))
     }"

section \<open>The tree of free regions\<close>

definition alloc_tree_rotate :: "addr \<Rightarrow> bool \<Rightarrow> alloc_st \<Rightarrow> alloc_st option" where
  "alloc_tree_rotate = rb_rotate"

definition alloc_tree_insertp :: "addr \<Rightarrow> addr \<Rightarrow> bool \<Rightarrow> alloc_st \<Rightarrow> alloc_st option" where
  "alloc_tree_insertp = rb_insertp tree_get_clr tree_set_clr"

definition alloc_tree_insert :: "addr \<Rightarrow> alloc_st \<Rightarrow> alloc_st option" where
  "alloc_tree_insert = rb_insert tree_get_clr tree_set_clr region_lt"

definition region_absorb :: "region \<Rightarrow> region \<Rightarrow> region" where
  "region_absorb n u = tree_set_size (tree_get_size u) (n\<lparr>r_addr := r_addr u\<rparr>)"

definition region_swap :: "region \<Rightarrow> region \<Rightarrow> region \<times> region" where
  "region_swap n u =
     (\<lparr>r_addr = r_addr u, r_size = tree_get_size u\<rparr>, \<lparr>r_addr = r_addr n, r_size = tree_get_size n\<rparr>)"

definition alloc_tree_delete :: "addr \<Rightarrow> alloc_st \<Rightarrow> alloc_st option" where
  "alloc_tree_delete n t =
     do {
       (t1, v) \<leftarrow> rb_delete tree_get_clr tree_set_clr region_absorb region_swap (\<lambda>_ t. Some t) n t;
       if v = NULL then Some t1 else kfree_node v t1
     }"

partial_function (option) alloc_tree_find_first_fit_r :: "addr \<Rightarrow> u64 \<Rightarrow> alloc_st \<Rightarrow> addr option" where
  "alloc_tree_find_first_fit_r n sz t =
     do {
       nn \<leftarrow> deref t n;
       if tree_get_size (n_body nn) \<ge> sz then Some n
       else do {
         l \<leftarrow> (if n_left nn \<noteq> NULL then alloc_tree_find_first_fit_r (n_left nn) sz t else Some (- 1));
         if l \<noteq> - 1 then Some l
         else if n_right nn \<noteq> NULL then alloc_tree_find_first_fit_r (n_right nn) sz t
         else Some (- 1)
       }
     }"

declare alloc_tree_find_first_fit_r.simps [code]

definition fits_aligned :: "u64 \<Rightarrow> u64 \<Rightarrow> region \<Rightarrow> bool" where
  "fits_aligned sz align b \<longleftrightarrow> tree_get_size b - (align - r_addr b mod align) \<ge> sz"

partial_function (option) alloc_tree_find_first_fit_align_r ::
  "addr \<Rightarrow> u64 \<Rightarrow> u64 \<Rightarrow> alloc_st \<Rightarrow> addr option" where
  "alloc_tree_find_first_fit_align_r n sz align t =
     do {
       nn \<leftarrow> deref t n;
       if align = 0 then None
       else if fits_aligned sz align (n_body nn) then Some n
       else do {
         l \<leftarrow> (if n_left nn \<noteq> NULL then alloc_tree_find_first_fit_align_r (n_left nn) sz align t else Some (- 1));
         if l \<noteq> - 1 then Some l
         else if n_right nn \<noteq> NULL then alloc_tree_find_first_fit_align_r (n_right nn) sz align t
         else Some (- 1)
       }
     }"

declare alloc_tree_find_first_fit_align_r.simps [code]

partial_function (option) alloc_tree_find_from :: "addr \<Rightarrow> addr \<Rightarrow> alloc_st \<Rightarrow> addr option" where
  "alloc_tree_find_from cur a t =
     (if cur = NULL then Some (- 1)
      else do {
        nn \<leftarrow> deref t cur;
        if r_addr (n_body nn) = a then Some cur
        else alloc_tree_find_from (if a < r_addr (n_body nn) then n_left nn else n_right nn) a t
      })"

declare alloc_tree_find_from.simps [code]

definition alloc_tree_find :: "addr \<Rightarrow> alloc_st \<Rightarrow> addr option" where
  "alloc_tree_find a t = alloc_tree_find_from (t_root t) a t"

definition region_contains :: "addr \<Rightarrow> u64 \<Rightarrow> region \<Rightarrow> bool" where
  "region_contains a sz b \<longleftrightarrow> a \<ge> r_addr b \<and> a + sz \<le> r_addr b + tree_get_size b"

partial_function (option) alloc_tree_find_containing_from ::
  "addr \<Rightarrow> addr \<Rightarrow> u64 \<Rightarrow> alloc_st \<Rightarrow> addr option" where
  "alloc_tree_find_containing_from cur a sz t =
     (if cur = NULL then Some (- 1)
      else do {
        nn \<leftarrow> deref t cur;
        if region_contains a sz (n_body nn) then Some cur
        else alloc_tree_find_containing_from
               (if a < r_addr (n_body nn) then n_left nn else n_right nn) a sz t
      })"

declare alloc_tree_find_containing_from.simps [code]

definition alloc_tree_find_containing :: "addr \<Rightarrow> u64 \<Rightarrow> alloc_st \<Rightarrow> addr option" where
  "alloc_tree_find_containing a sz t = alloc_tree_find_containing_from (t_root t) a sz t"

section \<open>Public interface\<close>

definition allocator_init :: "unit map_hooks \<Rightarrow> u64 \<Rightarrow> alloc_st \<Rightarrow> alloc_st option" where
  "allocator_init hooks memory_limit t =
     do {
       t1 \<leftarrow> node_mem_pool_init hooks t;
       (t2, root) \<leftarrow> alloc_node hooks t1;
       let t3 = t2\<lparr>t_root := root\<rparr>;
       t4 \<leftarrow> modify root (\<lambda>x. n_body_update (\<lambda>b. tree_set_size memory_limit (b\<lparr>r_addr := 0\<rparr>)) x
               \<lparr>n_left := NULL, n_right := NULL, n_parent := NULL\<rparr>) t3;
       paint tree_set_clr False root t4
     }"

definition region_at :: "addr \<Rightarrow> alloc_st \<Rightarrow> region option" where
  "region_at n t = do { nn \<leftarrow> deref t n; Some (n_body nn) }"

definition new_region :: "unit map_hooks \<Rightarrow> addr \<Rightarrow> u64 \<Rightarrow> alloc_st \<Rightarrow> (alloc_st \<times> addr) option" where
  "new_region hooks a sz t =
     do {
       (t1, nw) \<leftarrow> alloc_node hooks t;
       t2 \<leftarrow> modify nw (n_body_update (\<lambda>b. tree_set_size sz (b\<lparr>r_addr := a\<rparr>))) t1;
       t3 \<leftarrow> alloc_tree_insert nw t2;
       Some (t3, nw)
     }"

definition allocator_alloc :: "u64 \<Rightarrow> alloc_st \<Rightarrow> (alloc_st \<times> addr) option" where
  "allocator_alloc sz t =
     do {
       n \<leftarrow> alloc_tree_find_first_fit_r (t_root t) sz t;
       if n = - 1 then Some (t, n)
       else do {
         b \<leftarrow> region_at n t;
         if tree_get_size b = sz then do { t1 \<leftarrow> alloc_tree_delete n t; Some (t1, r_addr b) }
         else do {
           t1 \<leftarrow> modify n (n_body_update
                  (\<lambda>b. (tree_set_size (tree_get_size b - sz) b)\<lparr>r_addr := r_addr b + sz\<rparr>)) t;
           Some (t1, r_addr b)
         }
       }
     }"

definition allocator_alloc_align ::
  "unit map_hooks \<Rightarrow> u64 \<Rightarrow> u64 \<Rightarrow> alloc_st \<Rightarrow> (alloc_st \<times> addr) option" where
  "allocator_alloc_align hooks sz align t =
     do {
       n \<leftarrow> alloc_tree_find_first_fit_align_r (t_root t) sz align t;
       if n = - 1 then Some (t, n)
       else do {
         b \<leftarrow> region_at n t;
         let off = align - r_addr b mod align;
         let align_off = (if off = align then 0 else off);
         if tree_get_size b - align_off = sz
         then do { t1 \<leftarrow> alloc_tree_delete n t; Some (t1, r_addr b + align_off) }
         else do {
           t1 \<leftarrow> (if align_off > 0
                 then do { (t1, _) \<leftarrow> new_region hooks (r_addr b) align_off t; Some t1 }
                 else Some t);
           b1 \<leftarrow> region_at n t1;
           t2 \<leftarrow> modify n (n_body_update
                  (\<lambda>b. (tree_set_size (tree_get_size b - sz - align_off) b)
                     \<lparr>r_addr := r_addr b + (sz + align_off)\<rparr>)) t1;
           Some (t2, r_addr b1 + align_off)
         }
       }
     }"

definition allocator_alloc_addr ::
  "unit map_hooks \<Rightarrow> u64 \<Rightarrow> addr \<Rightarrow> alloc_st \<Rightarrow> (alloc_st \<times> addr) option" where
  "allocator_alloc_addr hooks sz a t =
     do {
       n \<leftarrow> alloc_tree_find_containing a sz t;
       if n = - 1 then Some (t, - 1)
       else do {
         b \<leftarrow> region_at n t;
         if tree_get_size b = sz then do { t1 \<leftarrow> alloc_tree_delete n t; Some (t1, a) }
         else do {
           let size1 = a - r_addr b;
           let size2 = r_addr b + tree_get_size b - a - sz;
           t1 \<leftarrow> alloc_tree_delete n t;
           t2 \<leftarrow> (if size1 \<noteq> 0
                 then do { (t2, _) \<leftarrow> new_region hooks (r_addr b) size1 t1; Some t2 } else Some t1);
           t3 \<leftarrow> (if size2 \<noteq> 0
                 then do { (t3, _) \<leftarrow> new_region hooks (a + sz) size2 t2; Some t3 } else Some t2);
           Some (t3, a)
         }
       }
     }"

partial_function (option) merge_lr :: "addr \<Rightarrow> addr \<Rightarrow> alloc_st \<Rightarrow> addr option" where
  "merge_lr n a t =
     (if n = NULL then Some (- 1)
      else do {
        nn \<leftarrow> deref t n;
        let e = r_addr (n_body nn) + tree_get_size (n_body nn);
        if e = a then Some n
        else merge_lr (if a < e then n_left nn else n_right nn) a t
      })"

declare merge_lr.simps [code]

partial_function (option) merge_rr :: "addr \<Rightarrow> addr \<Rightarrow> u64 \<Rightarrow> alloc_st \<Rightarrow> addr option" where
  "merge_rr n a sz t =
     (if n = NULL then Some (- 1)
      else do {
        nn \<leftarrow> deref t n;
        if a + sz = r_addr (n_body nn) then Some n
        else merge_rr (if a + sz < r_addr (n_body nn) then n_left nn else n_right nn) a sz t
      })"

declare merge_rr.simps [code]

definition allocator_free :: "unit map_hooks \<Rightarrow> addr \<Rightarrow> u64 \<Rightarrow> alloc_st \<Rightarrow> alloc_st option" where
  "allocator_free hooks a sz t =
     do {
       (t1, nw) \<leftarrow> new_region hooks a sz t;
       nn \<leftarrow> deref t1 nw;
       merge_l \<leftarrow> (if n_left nn \<noteq> NULL then merge_lr (n_left nn) a t1 else Some NULL);
       merge_r \<leftarrow> (if n_right nn \<noteq> NULL then merge_rr (n_right nn) a sz t1 else Some NULL);
       t2 \<leftarrow> (if merge_l \<noteq> NULL then do {
               bl \<leftarrow> region_at merge_l t1;
               t2 \<leftarrow> modify nw (n_body_update (\<lambda>b. tree_set_size (tree_get_size b + tree_get_size bl)
                       (b\<lparr>r_addr := r_addr bl\<rparr>))) t1;
               alloc_tree_delete merge_l t2
             } else Some t1);
       if merge_r \<noteq> NULL then do {
         br \<leftarrow> region_at merge_r t2;
         t3 \<leftarrow> modify nw (n_body_update (\<lambda>b. tree_set_size (tree_get_size b + tree_get_size br) b)) t2;
         alloc_tree_delete merge_r t3
       } else Some t2
     }"

section \<open>Colour and size share a word\<close>

lemma bit_hi: "bit (9223372036854775808 :: int) n \<longleftrightarrow> n = 63"
proof -
  have "(9223372036854775808 :: int) = 2 ^ 63" by simp
  then show ?thesis by (simp only: bit_exp_iff) auto
qed

lemma clr_bit: "tree_get_clr b \<longleftrightarrow> bit (r_size b) 63"
proof -
  have "drop_bit 63 (r_size b) = of_bool (bit (r_size b) 63)"
  proof (rule bit_word_eqI)
    fix n
    have "\<not> bit (r_size b) (63 + Suc m)" for m using bit_imp_le_length [of "r_size b" "63 + Suc m"] by auto
    then show "bit (drop_bit 63 (r_size b)) n = bit (of_bool (bit (r_size b) 63) :: u64) n"
      by (cases n) (auto simp: bit_simps)
  qed
  then show ?thesis by (auto simp: tree_get_clr_def)
qed

lemma clr_set_clr [simp]: "tree_get_clr (tree_set_clr red b) = red"
  by (auto simp: clr_bit tree_set_clr_def bit_simps)

lemma addr_set_clr [simp]: "r_addr (tree_set_clr red b) = r_addr b"
  by (simp add: tree_set_clr_def)

lemma size_set_clr [simp]: "tree_get_size (tree_set_clr red b) = tree_get_size b"
  by (auto simp: tree_get_size_def tree_set_clr_def bit_simps intro!: bit_word_eqI)

lemma clr_set_size [simp]: "\<not> tree_get_clr (tree_set_size sz b)"
  by (simp add: clr_bit tree_set_size_def bit_simps)

lemma size_lt: "unat (tree_get_size b) < 2 ^ 63"
proof -
  have "tree_get_size b = take_bit 63 (r_size b)"
    by (rule bit_word_eqI) (auto simp: tree_get_size_def bit_simps bit_hi)
  then have "unat (tree_get_size b) = take_bit 63 (unat (r_size b))" by (simp only: unsigned_take_bit_eq)
  then show ?thesis by (simp only: take_bit_nat_less_exp)
qed

lemma size_set_size: "unat sz < 2 ^ 63 \<Longrightarrow> tree_get_size (tree_set_size sz b) = sz"
proof -
  assume "unat sz < 2 ^ 63"
  then have "take_bit 63 sz = sz"
    by (metis take_bit_nat_eq_self unsigned_take_bit_eq unsigned_word_eqI)
  moreover have "tree_get_size (tree_set_size sz b) = take_bit 63 sz"
    by (rule bit_word_eqI) (auto simp: tree_get_size_def tree_set_size_def bit_simps bit_hi)
  ultimately show ?thesis by simp
qed

interpretation region_tree: rb_payload tree_get_clr tree_set_clr region_lt r_addr
  by unfold_locales (simp_all add: region_lt_def)

section \<open>Free regions\<close>

definition r_end :: "region \<Rightarrow> nat" where
  "r_end b = unat (r_addr b) + unat (tree_get_size b)"

definition regions :: "region ptree \<Rightarrow> region list" where
  "regions T = map snd (inord T)"

definition regions_ok :: "region ptree \<Rightarrow> bool" where
  "regions_ok T \<longleftrightarrow> sorted_wrt (\<lambda>x y. r_end x \<le> unat (r_addr y)) (regions T) \<and>
     (\<forall>b \<in> set (regions T). r_end b < 2 ^ 64)"

definition free_bytes :: "region ptree \<Rightarrow> nat set" where
  "free_bytes T = (\<Union>b \<in> set (regions T). {unat (r_addr b)..<r_end b})"

fun preord :: "'b ptree \<Rightarrow> (addr \<times> 'b) list" where
  "preord Lf = []"
| "preord (Nd l a b r) = (a, b) # preord l @ preord r"

lemma set_preord: "set (preord T) = set (inord T)"
  by (induction T) auto

definition find_node :: "(region \<Rightarrow> bool) \<Rightarrow> region ptree \<Rightarrow> addr" where
  "find_node P T = (case find (\<lambda>x. P (snd x)) (preord T) of None \<Rightarrow> - 1 | Some x \<Rightarrow> fst x)"

lemma find_some_in: "find P xs = Some x \<Longrightarrow> x \<in> set xs \<and> P x"
  by (induction xs) (auto split: if_splits)

lemma find_node_Nd:
  assumes "- 1 \<notin> addrs (Nd l a b r)"
  shows "find_node P (Nd l a b r) =
    (if P b then a else if find_node P l \<noteq> - 1 then find_node P l else find_node P r)"
proof -
  have "fst x \<noteq> - 1" if "find (\<lambda>x. P (snd x)) (preord l) = Some x" for x
  proof -
    have "fst x \<in> addrs l" using find_some_in [OF that] by (simp add: set_preord addrs_inord)
    then show ?thesis using assms by auto
  qed
  then show ?thesis by (auto simp: find_node_def find_append split: option.splits)
qed

lemma find_node_cases:
  assumes "- 1 \<notin> addrs T"
  obtains (none) "find_node P T = - 1" "\<And>x. x \<in> set (inord T) \<Longrightarrow> \<not> P (snd x)"
    | (found) a b where "find_node P T = a" "(a, b) \<in> set (inord T)" "P b" "a \<noteq> - 1"
proof (cases "find (\<lambda>x. P (snd x)) (preord T)")
  case None
  then have "find_node P T = - 1" by (simp add: find_node_def)
  moreover have "\<not> P (snd x)" if "x \<in> set (inord T)" for x
    using None that by (metis find_None_iff set_preord)
  ultimately show thesis by (rule none)
next
  case (Some x)
  from find_some_in [OF this] have "x \<in> set (inord T)" "P (snd x)" by (auto simp: set_preord)
  moreover from this have "fst x \<in> addrs T" by (simp add: addrs_inord)
  then have "fst x \<noteq> - 1" using assms by auto
  moreover have "find_node P T = fst x" using Some by (simp add: find_node_def)
  ultimately show thesis using found [of "fst x" "snd x"] by simp
qed

lemma find_first_fit_ok:
  "tree_at t par T \<Longrightarrow> T \<noteq> Lf \<Longrightarrow> - 1 \<notin> addrs T \<Longrightarrow>
     alloc_tree_find_first_fit_r (ptr T) sz t = Some (find_node (\<lambda>b. tree_get_size b \<ge> sz) T)"
proof (induction T arbitrary: par)
  case Lf
  then show ?case by simp
next
  case (Nd l a b r)
  have lf: "find_node P Lf = - 1" for P by (simp add: find_node_def)
  from Nd.prems have nn: "deref t a = Some (mkn False (ptr l) (ptr r) par b)"
    and lp: "ptr l = NULL \<longleftrightarrow> l = Lf" and rp: "ptr r = NULL \<longleftrightarrow> r = Lf"
    by (auto simp: deref_def ptr_eq_NULL)
  show ?case
    using Nd nn lp rp lf find_node_Nd [OF Nd.prems(3)]
    by (subst alloc_tree_find_first_fit_r.simps) (auto simp: node_simps)
qed

lemma find_first_fit_align_ok:
  "tree_at t par T \<Longrightarrow> T \<noteq> Lf \<Longrightarrow> - 1 \<notin> addrs T \<Longrightarrow> align \<noteq> 0 \<Longrightarrow>
     alloc_tree_find_first_fit_align_r (ptr T) sz align t = Some (find_node (fits_aligned sz align) T)"
proof (induction T arbitrary: par)
  case Lf
  then show ?case by simp
next
  case (Nd l a b r)
  have lf: "find_node P Lf = - 1" for P by (simp add: find_node_def)
  from Nd.prems have nn: "deref t a = Some (mkn False (ptr l) (ptr r) par b)"
    and lp: "ptr l = NULL \<longleftrightarrow> l = Lf" and rp: "ptr r = NULL \<longleftrightarrow> r = Lf"
    by (auto simp: deref_def ptr_eq_NULL)
  show ?case
    using Nd nn lp rp lf find_node_Nd [OF Nd.prems(3)]
    by (subst alloc_tree_find_first_fit_align_r.simps) (auto simp: node_simps)
qed

section \<open>Changing one region\<close>

fun map_body :: "addr \<Rightarrow> ('b \<Rightarrow> 'b) \<Rightarrow> 'b ptree \<Rightarrow> 'b ptree" where
  "map_body p f Lf = Lf"
| "map_body p f (Nd l a b r) = Nd (map_body p f l) a (if a = p then f b else b) (map_body p f r)"

lemma map_body_simps [simp]:
  "ptr (map_body p f T) = ptr T" "addrs (map_body p f T) = addrs T" "dtree (map_body p f T) = dtree T"
  by (induction T) auto

lemma inord_map_body: "inord (map_body p f T) = map (\<lambda>(a, b). (a, if a = p then f b else b)) (inord T)"
  by (induction T) auto

lemma tree_at_map_body:
  "tree_at t par T \<Longrightarrow> t_nodes t p = Some n \<Longrightarrow>
     tree_at (t\<lparr>t_nodes := (t_nodes t)(p \<mapsto> n_body_update f n)\<rparr>) par (map_body p f T)"
  by (induction T arbitrary: par) (auto simp: node_simps)

lemma tree_at_lookup:
  "tree_at t par T \<Longrightarrow> (a, b) \<in> set (inord T) \<Longrightarrow>
     a \<noteq> NULL \<and> (\<exists>l r p. t_nodes t a = Some (mkn False l r p b))"
  by (induction T arbitrary: par) auto

lemma modify_body_ok:
  assumes "repr t T" "(a, b) \<in> set (inord T)"
  obtains t' where "modify a (n_body_update f) t = Some t'" "repr t' (map_body a f T)"
    "tree_st.more t' = tree_st.more t"
proof -
  obtain n where n: "a \<noteq> NULL" "t_nodes t a = Some n"
    using tree_at_lookup [of t NULL T a b] assms by (auto simp: repr_def)
  show thesis
    using that [of "t\<lparr>t_nodes := (t_nodes t)(a \<mapsto> n_body_update f n)\<rparr>"] n assms(1)
      tree_at_map_body [of t NULL T a n f]
    by (simp add: modify_node repr_def)
qed

lemma region_at_ok: "repr t T \<Longrightarrow> (a, b) \<in> set (inord T) \<Longrightarrow> region_at a t = Some b"
  using tree_at_lookup [of t NULL T a b] by (auto simp: repr_def region_at_def deref_def node_simps)

lemma inord_split:
  assumes "dtree T" "(a, b) \<in> set (inord T)"
  obtains xs ys where "inord T = xs @ (a, b) # ys" "regions (map_body a f T) = map snd xs @ f b # map snd ys"
proof -
  obtain xs ys where sp: "inord T = xs @ (a, b) # ys" using assms(2) by (meson split_list)
  then have "a \<notin> fst ` set xs" "a \<notin> fst ` set ys" using assms(1) by (auto simp: dtree_inord)
  then have "map (\<lambda>(x, c). (x, if x = a then f c else c)) xs = xs"
    "map (\<lambda>(x, c). (x, if x = a then f c else c)) ys = ys"
    by (force intro!: map_idI)+
  then have "inord (map_body a f T) = xs @ (a, f b) # ys" by (simp add: inord_map_body sp)
  then show thesis using that [OF sp] by (simp add: regions_def)
qed

definition shrink :: "u64 \<Rightarrow> region \<Rightarrow> region" where
  "shrink sz b = (tree_set_size (tree_get_size b - sz) b)\<lparr>r_addr := r_addr b + sz\<rparr>"

lemma shrink_bounds:
  assumes "sz < tree_get_size b" "r_end b < 2 ^ 64"
  shows "r_end (shrink sz b) = r_end b" "unat (r_addr (shrink sz b)) = unat (r_addr b) + unat sz"
proof -
  have le: "unat sz < unat (tree_get_size b)" using assms(1) by (simp add: word_less_nat_alt)
  have sub: "unat (tree_get_size b - sz) = unat (tree_get_size b) - unat sz"
    using le by (intro unat_diff_le) simp
  then have lt: "unat (tree_get_size b - sz) < 2 ^ 63" using size_lt [of b] by simp
  have sz': "tree_get_size (shrink sz b) = tree_get_size b - sz"
    using size_set_size [OF lt, of b] by (simp add: shrink_def tree_get_size_def)
  show ad: "unat (r_addr (shrink sz b)) = unat (r_addr b) + unat sz"
    using assms(2) le by (simp add: shrink_def unat_plus_nowrap r_end_def)
  show "r_end (shrink sz b) = r_end b" using le by (simp add: r_end_def sz' sub ad)
qed

lemma shrink_region:
  assumes ok: "regions_ok T" and d: "dtree T" and ab: "(a, b) \<in> set (inord T)"
    and sz: "sz < tree_get_size b"
  shows "regions_ok (map_body a (shrink sz) T)"
    and "free_bytes (map_body a (shrink sz) T)
      = free_bytes T - {unat (r_addr b)..<unat (r_addr b) + unat sz}"
    and "{unat (r_addr b)..<unat (r_addr b) + unat sz} \<subseteq> free_bytes T"
proof -
  obtain xs ys where sp: "inord T = xs @ (a, b) # ys"
    "regions (map_body a (shrink sz) T) = map snd xs @ shrink sz b # map snd ys"
    using inord_split [OF d ab] by blast
  have rT: "regions T = map snd xs @ b # map snd ys" using sp(1) by (simp add: regions_def)
  have "r_end b < 2 ^ 64" using ok rT by (simp add: regions_ok_def)
  note sh = shrink_bounds [OF sz this]
  have le: "unat sz \<le> unat (tree_get_size b)" using sz by (simp add: word_less_nat_alt)
  have order: "\<And>x. x \<in> snd ` set xs \<Longrightarrow> r_end x \<le> unat (r_addr b)"
    "\<And>y. y \<in> snd ` set ys \<Longrightarrow> r_end b \<le> unat (r_addr y)"
    using ok rT by (auto simp: regions_ok_def sorted_wrt_append)
  show "regions_ok (map_body a (shrink sz) T)"
    using ok rT sp(2) sh order by (fastforce simp: regions_ok_def sorted_wrt_append)
  show "free_bytes (map_body a (shrink sz) T)
      = free_bytes T - {unat (r_addr b)..<unat (r_addr b) + unat sz}"
    using rT sp(2) sh order le
    by (fastforce simp: free_bytes_def r_end_def)
  show "{unat (r_addr b)..<unat (r_addr b) + unat sz} \<subseteq> free_bytes T"
    using rT le by (auto simp: free_bytes_def r_end_def)
qed

section \<open>Searching by address\<close>

lemma regions_Nd: "regions (Nd l a b r) = regions l @ b # regions r"
  by (simp add: regions_def)

lemma find_containing_ok:
  assumes "tree_at t par T" "regions_ok T" "0 < sz" "unat a + unat sz < 2 ^ 64" "- 1 \<notin> addrs T"
  shows "\<exists>p. alloc_tree_find_containing_from (ptr T) a sz t = Some p \<and>
    (p = - 1 \<longrightarrow> (\<forall>b \<in> set (regions T). \<not> region_contains a sz b)) \<and>
    (p \<noteq> - 1 \<longrightarrow> (\<exists>b. (p, b) \<in> set (inord T) \<and> region_contains a sz b))"
  using assms
proof (induction T arbitrary: par)
  case Lf
  then show ?case by (subst alloc_tree_find_containing_from.simps) (simp add: regions_def)
next
  case (Nd l x b r)
  from Nd.prems(1) have nn: "deref t x = Some (mkn False (ptr l) (ptr r) par b)" "x \<noteq> NULL"
    by (auto simp: deref_def)
  have okl: "regions_ok l" and okr: "regions_ok r"
    and lo: "\<And>y. y \<in> set (regions l) \<Longrightarrow> r_end y \<le> unat (r_addr b)"
    and hi: "\<And>y. y \<in> set (regions r) \<Longrightarrow> r_end b \<le> unat (r_addr y)"
    and ends: "\<And>y. y \<in> set (regions l) \<Longrightarrow> r_end y < 2 ^ 64"
    using Nd.prems(2) by (auto simp: regions_ok_def regions_Nd sorted_wrt_append)
  note unf = alloc_tree_find_containing_from.simps [of x a sz t]
  consider (here) "region_contains a sz b" | (left) "\<not> region_contains a sz b" "a < r_addr b"
    | (right) "\<not> region_contains a sz b" "\<not> a < r_addr b" by blast
  then show ?case
  proof cases
    case here
    with nn unf Nd.prems(5) show ?thesis by (auto simp: node_simps)
  next
    case left
    have out: "\<not> region_contains a sz y" if "y \<in> set (regions r)" for y
      using hi [OF that] left(2) by (auto simp: region_contains_def word_less_nat_alt word_le_nat_alt r_end_def)
    from Nd.IH(1) [of x] Nd.prems okl obtain p where
      "alloc_tree_find_containing_from (ptr l) a sz t = Some p"
      "p = - 1 \<longrightarrow> (\<forall>b \<in> set (regions l). \<not> region_contains a sz b)"
      "p \<noteq> - 1 \<longrightarrow> (\<exists>b. (p, b) \<in> set (inord l) \<and> region_contains a sz b)" by auto
    with left nn unf out show ?thesis by (auto simp: node_simps regions_Nd)
  next
    case right
    have out: "\<not> region_contains a sz y" if y: "y \<in> set (regions l)" for y
    proof
      assume c: "region_contains a sz y"
      have "unat (r_addr y + tree_get_size y) = r_end y"
        using ends [OF y] by (simp add: r_end_def unat_plus_nowrap)
      with c Nd.prems(4) have "unat a + unat sz \<le> r_end y"
        by (simp add: region_contains_def word_le_nat_alt unat_plus_nowrap)
      moreover have "0 < unat sz" using Nd.prems(3) by (simp add: word_less_nat_alt)
      ultimately show False using lo [OF y] right(2) by (simp add: word_less_nat_alt)
    qed
    from Nd.IH(2) [of x] Nd.prems okr obtain p where
      "alloc_tree_find_containing_from (ptr r) a sz t = Some p"
      "p = - 1 \<longrightarrow> (\<forall>b \<in> set (regions r). \<not> region_contains a sz b)"
      "p \<noteq> - 1 \<longrightarrow> (\<exists>b. (p, b) \<in> set (inord r) \<and> region_contains a sz b)" by auto
    with right nn unf out show ?thesis by (auto simp: node_simps regions_Nd)
  qed
qed

section \<open>Small trees\<close>

definition rg :: "addr \<Rightarrow> u64 \<Rightarrow> bool \<Rightarrow> region" where
  "rg a sz red = tree_set_clr red \<lparr>r_addr = a, r_size = sz\<rparr>"

lemma rg_simps [simp]:
  "r_addr (rg a sz red) = a" "tree_get_clr (rg a sz red) = red"
  "tree_get_size (rg a sz red) = sz AND NOT (push_bit 63 1)"
  by (simp_all add: rg_def) (simp add: tree_get_size_def)

fun store_of :: "addr \<Rightarrow> 'b ptree \<Rightarrow> (addr \<Rightarrow> 'b tnode option) \<Rightarrow> addr \<Rightarrow> 'b tnode option" where
  "store_of par Lf s = s"
| "store_of par (Nd l a b r) s =
     (store_of a l (store_of a r s))(a \<mapsto> mkn False (ptr l) (ptr r) par b)"

definition state_of :: "region ptree \<Rightarrow> alloc_st" where
  "state_of T =
     \<lparr>t_nodes = store_of NULL T (\<lambda>p. if p = 0x9000 then Some (mkn False NULL NULL NULL \<lparr>r_addr = 0, r_size = 0\<rparr>) else None),
      t_root = ptr T, node_mem_pool = replicate 112 0x9000, node_mem_pool_i = 0,
      a_heap = \<lparr>kmem_mem = (\<lambda>_. 0), occupied_to = KMEM_HEAP_BASE, kmem_spinlock = 0\<rparr>\<rparr>"

definition tree5 :: "region ptree" where
  "tree5 = Nd (Nd (Nd Lf 0x120 (rg 0x2000 0x10 False) Lf) 0x130 (rg 0x3000 0x10 True)
                  (Nd Lf 0x140 (rg 0x4000 0x10 False) Lf))
              0x150 (rg 0x5000 0x10 False) (Nd Lf 0x170 (rg 0x7000 0x10 False) Lf)"

definition tree2 :: "region ptree" where
  "tree2 = Nd (Nd Lf 0x110 (rg 0x1000 0x10 True) Lf) 0x130 (rg 0x3000 0x10 False) Lf"

section \<open>The node pool\<close>

fun alloc_nodes :: "unit map_hooks \<Rightarrow> nat \<Rightarrow> alloc_st \<Rightarrow> (alloc_st \<times> addr list) option" where
  "alloc_nodes hooks 0 t = Some (t, [])"
| "alloc_nodes hooks (Suc n) t =
     do {
       (t1, p) \<leftarrow> alloc_node hooks t;
       (t2, ps) \<leftarrow> alloc_nodes hooks n t1;
       Some (t2, p # ps)
     }"

lemma alloc_nodes_add:
  "alloc_nodes hooks (m + n) t =
     do { (t1, ps) \<leftarrow> alloc_nodes hooks m t; (t2, qs) \<leftarrow> alloc_nodes hooks n t1; Some (t2, ps @ qs) }"
  by (induction m arbitrary: t) (auto split: prod.splits bind_splits option.splits)

lemma alloc_nodes_plain:
  "node_mem_pool_i t = of_nat i \<Longrightarrow> i + n \<le> 56 \<Longrightarrow>
     alloc_nodes hooks n t = Some (t\<lparr>node_mem_pool_i := of_nat (i + n)\<rparr>,
       map (\<lambda>j. node_mem_pool t ! (i + 1 + j)) [0..<n])"
proof (induction n arbitrary: i t)
  case 0
  then show ?case by simp
next
  case (Suc n)
  let ?t = "t\<lparr>node_mem_pool_i := of_nat (Suc i)\<rparr>"
  have u: "unat (of_nat i :: u64) = i" "unat (of_nat (Suc i) :: u64) = Suc i"
    using unat_of_nat_64 [of i] unat_of_nat_64 [of "Suc i"] Suc.prems(2) by simp_all
  have "alloc_node hooks t = Some (?t, node_mem_pool t ! Suc i)"
    using Suc.prems u by (simp add: alloc_node_def Let_def NODE_MEM_POOL_SIZE_def add.commute)
  moreover have "alloc_nodes hooks n ?t = Some (?t\<lparr>node_mem_pool_i := of_nat (Suc i + n)\<rparr>,
      map (\<lambda>j. node_mem_pool ?t ! (Suc i + 1 + j)) [0..<n])"
    using Suc.prems by (intro Suc.IH) simp_all
  moreover have "map (\<lambda>j. node_mem_pool t ! (i + 1 + j)) [0..<Suc n]
      = node_mem_pool t ! Suc i # map (\<lambda>j. node_mem_pool t ! (Suc i + 1 + j)) [0..<n]"
    unfolding upt_conv_Cons [OF zero_less_Suc] map_Suc_upt [symmetric] by (simp add: comp_def)
  ultimately show ?case by simp
qed

lemma pool_shift_keeps:
  "node_mem_pool_shift hooks k is t = Some t' \<Longrightarrow> \<forall>i \<in> set is. i \<noteq> m \<and> i - k \<noteq> m \<Longrightarrow>
     node_mem_pool t' ! m = node_mem_pool t ! m"
proof (induction "is" arbitrary: t)
  case Nil
  then show ?case by simp
next
  case (Cons i "is")
  then show ?case by (auto simp: Let_def kmalloc_node_def split: bind_splits)
qed

section \<open>Properties\<close>

text \<open>
  C7: Inserting a free region into the allocator's tree is correct: for a tree in address order and
  balanced (the root counted as black) and a node that is not in it, \<^verbatim>\<open>alloc_tree_insert\<close> returns,
  the result is again such a tree in memory, in address order and balanced, it holds exactly the old
  regions and the new one, its height stays logarithmic, and pool and heap are untouched.
\<close>

theorem alloc_tree_insert_correct:
  assumes "repr t T" "sorted (map snd (keys r_addr T))" "rb_ok tree_get_clr T"
    and "n \<noteq> NULL" "n \<notin> addrs T" "t_nodes t n = Some x"
  shows "\<exists>t' T'. alloc_tree_insert n t = Some t' \<and> repr t' T' \<and>
    sorted (map snd (keys r_addr T')) \<and> rb_ok tree_get_clr T' \<and>
    set (keys (\<lambda>b. (r_addr b, tree_get_size b)) T') =
      insert (n, r_addr (n_body x), tree_get_size (n_body x)) (set (keys (\<lambda>b. (r_addr b, tree_get_size b)) T)) \<and>
    length (inord T') = Suc (length (inord T)) \<and>
    2 ^ (theight T' div 2) \<le> 2 * Suc (length (inord T')) \<and>
    tree_st.more t' = tree_st.more t"
proof -
  let ?T = "ins tree_get_clr tree_set_clr region_lt n (n_body x) T"
  note ic = region_tree.insert_correct [OF assms]
  have "set (keys (\<lambda>b. (r_addr b, tree_get_size b)) ?T) =
      insert (n, r_addr (n_body x), tree_get_size (n_body x)) (set (keys (\<lambda>b. (r_addr b, tree_get_size b)) T))"
    by (subst keys_ins) (simp_all add: set_keys_bst_ins)
  with ic show ?thesis unfolding alloc_tree_insert_def by blast
qed

lemma repr_state2: "repr (state_of tree2) tree2"
  by (simp add: repr_def state_of_def tree2_def)

theorem alloc_tree_insert_correct_witness:
  "\<exists>t' T'. alloc_tree_insert 0x9000 (state_of tree2) = Some t' \<and> repr t' T' \<and> rb_ok tree_get_clr T' \<and>
    length (inord T') = 3"
proof -
  have "sorted (map snd (keys r_addr tree2))" "rb_ok tree_get_clr tree2" "0x9000 \<notin> addrs tree2"
    "t_nodes (state_of tree2) 0x9000 = Some (mkn False NULL NULL NULL \<lparr>r_addr = 0, r_size = 0\<rparr>)"
    "length (inord tree2) = 2"
    by (simp_all add: tree2_def state_of_def)
  with alloc_tree_insert_correct [OF repr_state2, of "0x9000"] show ?thesis by fastforce
qed

text \<open>
  C8: \<^verbatim>\<open>allocator_alloc\<close> on ordered disjoint free regions picks the first region in depth-first order (a node
  before its left subtree before its right one) that is large enough. When there is none it returns
  \<^verbatim>\<open>(void*)-1\<close> and changes nothing. When that region fits exactly, the result is its start and the tree is what
  \<^verbatim>\<open>alloc_tree_delete\<close> of exactly this node leaves (which is not always a search tree, see below). Otherwise the
  call returns the start of that region and the free bytes afterwards are exactly the free bytes before
  without the returned range, which was free, the regions again ordered and disjoint.
\<close>

theorem allocator_alloc_correct:
  assumes rep: "repr t T" and ne: "T \<noteq> Lf" and ok: "regions_ok T" and m1: "- 1 \<notin> addrs T"
  shows "case find (\<lambda>x. sz \<le> tree_get_size (snd x)) (preord T) of
      None \<Rightarrow> allocator_alloc sz t = Some (t, - 1)
    | Some (a, b) \<Rightarrow> (a, b) \<in> set (inord T) \<and>
        (if tree_get_size b = sz then allocator_alloc sz t = map_option (\<lambda>t'. (t', r_addr b)) (alloc_tree_delete a t)
         else \<exists>t' T'. allocator_alloc sz t = Some (t', r_addr b) \<and> repr t' T' \<and> regions_ok T' \<and>
           {unat (r_addr b)..<unat (r_addr b) + unat sz} \<subseteq> free_bytes T \<and>
           free_bytes T' = free_bytes T - {unat (r_addr b)..<unat (r_addr b) + unat sz})"
proof -
  let ?P = "\<lambda>b. tree_get_size b \<ge> sz"
  have fnd: "alloc_tree_find_first_fit_r (t_root t) sz t = Some (find_node ?P T)"
    using find_first_fit_ok [of t NULL T sz] rep ne m1 by (simp add: repr_def)
  show ?thesis
  proof (cases "find (\<lambda>x. sz \<le> tree_get_size (snd x)) (preord T)")
    case None
    with fnd show ?thesis by (simp add: allocator_alloc_def find_node_def)
  next
    case (Some x)
    obtain a b where x: "x = (a, b)" by force
    have in_T: "(a, b) \<in> set (inord T)" and fit: "sz \<le> tree_get_size b"
      using find_some_in [OF Some] by (simp_all add: x set_preord)
    have "a \<noteq> - 1" using in_T m1 by (force simp: addrs_inord)
    with fnd Some have fa: "alloc_tree_find_first_fit_r (t_root t) sz t = Some a" "a \<noteq> - 1"
      by (simp_all add: find_node_def x)
    note at = region_at_ok [OF rep in_T]
    show ?thesis
    proof (cases "tree_get_size b = sz")
      case True
      then have "allocator_alloc sz t = map_option (\<lambda>t'. (t', r_addr b)) (alloc_tree_delete a t)"
        using fa at by (cases "alloc_tree_delete a t") (simp_all add: allocator_alloc_def)
      with True Some in_T show ?thesis by (simp add: x)
    next
      case False
      then have lt: "sz < tree_get_size b" using fit by simp
      have d: "dtree T" using rep by (simp add: repr_def)
      obtain t' where "modify a (n_body_update (shrink sz)) t = Some t'" "repr t' (map_body a (shrink sz) T)"
        using modify_body_ok [OF rep in_T] by metis
      with shrink_region [OF ok d in_T lt] fa False at
      have "\<exists>t' T'. allocator_alloc sz t = Some (t', r_addr b) \<and> repr t' T' \<and> regions_ok T' \<and>
          {unat (r_addr b)..<unat (r_addr b) + unat sz} \<subseteq> free_bytes T \<and>
          free_bytes T' = free_bytes T - {unat (r_addr b)..<unat (r_addr b) + unat sz}"
        by (auto simp: allocator_alloc_def shrink_def [abs_def])
      with False Some in_T show ?thesis by (simp add: x)
    qed
  qed
qed

theorem allocator_alloc_correct_witness:
  "(\<exists>t' T'. allocator_alloc 8 (state_of tree2) = Some (t', r_addr (snd (hd (preord tree2)))) \<and> repr t' T' \<and> regions_ok T') \<and>
   allocator_alloc 0x20 (state_of tree2) = Some (state_of tree2, - 1)"
proof -
  have pre: "regions_ok tree2" "tree2 \<noteq> Lf" "- 1 \<notin> addrs tree2"
    by (simp_all add: tree2_def regions_ok_def regions_def r_end_def)
  note al = allocator_alloc_correct [OF repr_state2 pre(2,1,3)]
  have "find (\<lambda>x. 8 \<le> tree_get_size (snd x)) (preord tree2) = Some (hd (preord tree2))"
    "tree_get_size (snd (hd (preord tree2))) \<noteq> 8" "find (\<lambda>x. 0x20 \<le> tree_get_size (snd x)) (preord tree2) = None"
    by (simp_all add: tree2_def)
  with al [of 8] al [of "0x20"] show ?thesis by (auto split: prod.splits)
qed

text \<open>
  C9: \<^verbatim>\<open>alloc_tree_find_containing\<close>, the search behind \<^verbatim>\<open>allocator_alloc_addr\<close>, is exact on ordered
  disjoint regions: it returns a node whose region contains the whole requested range, or
  \<^verbatim>\<open>(void*)-1\<close> when no free region contains it, in which case \<^verbatim>\<open>allocator_alloc_addr\<close> fails and
  changes nothing.
\<close>

theorem alloc_tree_find_containing_exact:
  assumes "repr t T" "regions_ok T" "0 < sz" "unat a + unat sz < 2 ^ 64" "- 1 \<notin> addrs T"
  shows "\<exists>p. alloc_tree_find_containing a sz t = Some p \<and>
    (if \<exists>b \<in> set (regions T). region_contains a sz b
     then \<exists>b. (p, b) \<in> set (inord T) \<and> region_contains a sz b
     else p = - 1 \<and> allocator_alloc_addr hooks sz a t = Some (t, - 1))"
proof -
  have "t_root t = ptr T" "tree_at t NULL T" using assms(1) by (simp_all add: repr_def)
  with find_containing_ok [of t NULL T sz a] assms(2-5) obtain p where
    p: "alloc_tree_find_containing a sz t = Some p"
    "p = - 1 \<longrightarrow> (\<forall>b \<in> set (regions T). \<not> region_contains a sz b)"
    "p \<noteq> - 1 \<longrightarrow> (\<exists>b. (p, b) \<in> set (inord T) \<and> region_contains a sz b)"
    by (auto simp: alloc_tree_find_containing_def)
  have "(\<exists>b. (p, b) \<in> set (inord T) \<and> region_contains a sz b) \<Longrightarrow> \<exists>b \<in> set (regions T). region_contains a sz b"
    by (force simp: regions_def)
  with p show ?thesis by (intro exI [of _ p]) (auto simp: allocator_alloc_addr_def)
qed

theorem alloc_tree_find_containing_exact_witness:
  "\<exists>p b. alloc_tree_find_containing 0x3004 4 (state_of tree2) = Some p \<and> (p, b) \<in> set (inord tree2)"
proof -
  have pre: "regions_ok tree2" "- 1 \<notin> addrs tree2" "\<exists>b \<in> set (regions tree2). region_contains 0x3004 4 b"
    by (simp_all add: tree2_def regions_ok_def regions_def r_end_def region_contains_def)
  from alloc_tree_find_containing_exact [OF repr_state2 pre(1) _ _ pre(2), of 4 "0x3004" None] pre(3)
  show ?thesis by auto
qed

text \<open>
  The aligned search can pick a region that is too small: its test subtracts the distance to
  the next aligned address from the size of the region without checking that it is not larger, so
  on a region that ends before that address the difference wraps around and any request up to
  \<^verbatim>\<open>2^63\<close> bytes seems to fit.
\<close>

theorem find_first_fit_align_underflow:
  assumes "repr t (Nd l n b r)" and "- 1 \<notin> addrs (Nd l n b r)" and "align \<noteq> 0" and "unat align \<le> 2 ^ 62"
    and "tree_get_size b < align - r_addr b mod align" and "unat sz \<le> 2 ^ 63"
  shows "alloc_tree_find_first_fit_align_r n sz align t = Some n"
proof -
  let ?off = "align - r_addr b mod align"
  have lt: "unat (tree_get_size b) < unat ?off" using assms(5) by (simp add: word_less_nat_alt)
  have "unat (r_addr b mod align) \<le> unat align" using assms(3) by (simp add: unat_mod word_neq_0_conv unat_gt_0 less_imp_le)
  then have "unat ?off \<le> unat align" by (subst unat_diff_le) simp_all
  then have "unat (tree_get_size b - ?off) \<ge> 2 ^ 64 - 2 ^ 62"
    using lt assms(4) by (subst unat_diff_lt) simp_all
  then have "fits_aligned sz align b" using assms(6) by (simp add: fits_aligned_def word_le_nat_alt)
  then show ?thesis
    using find_first_fit_align_ok [of t NULL "Nd l n b r" align sz] assms(1-3)
    by (simp add: repr_def find_node_def)
qed

theorem find_first_fit_align_underflow_witness:
  "alloc_tree_find_first_fit_align_r 0x130 0x1000 0x10000 (state_of tree2) = Some 0x130"
  using find_first_fit_align_underflow [OF repr_state2 [unfolded tree2_def], of "0x10000" "0x1000"]
  by (simp add: tree2_def)

text \<open>
  The node pool hands a node out twice: of 112 calls of \<^verbatim>\<open>alloc_node\<close> on a freshly filled pool
  that all return, the 55th and the last give the same node, because shifting the pool leaves the
  entries 55 and 56 as they were.
\<close>

theorem alloc_node_repeats_node:
  "case alloc_nodes hooks 112 (t\<lparr>node_mem_pool := map f [0..<112], node_mem_pool_i := 0\<rparr>) of
     None \<Rightarrow> True
   | Some (t', ps) \<Rightarrow> ps ! 54 = f 55 \<and> ps ! 111 = f 55"
proof -
  let ?t = "t\<lparr>node_mem_pool := map f [0..<112], node_mem_pool_i := 0\<rparr>"
  let ?t56 = "?t\<lparr>node_mem_pool_i := 56\<rparr>"
  have first: "alloc_nodes hooks 56 ?t = Some (?t56, map (\<lambda>j. map f [0..<112] ! (1 + j)) [0..<56])"
    using alloc_nodes_plain [of ?t 0 56 hooks] by simp
  show ?thesis
  proof (cases "node_mem_pool_shift hooks 57 [57..<112] (?t56\<lparr>node_mem_pool_i := 57\<rparr>)")
    case None
    then have "alloc_nodes hooks 1 ?t56 = None"
      by (simp add: alloc_node_def NODE_MEM_POOL_SIZE_def Let_def)
    then show ?thesis using alloc_nodes_add [of hooks 56 "1 + 55" ?t] first alloc_nodes_add [of hooks 1 55 ?t56]
      by simp
  next
    case (Some t57)
    let ?t57 = "t57\<lparr>node_mem_pool_i := 0\<rparr>"
    have keep: "node_mem_pool ?t57 ! 55 = f 55"
      using pool_shift_keeps [OF Some, of 55] by simp
    have "alloc_nodes hooks 1 ?t56 = Some (?t57, [node_mem_pool ?t57 ! 0])"
      using Some by (simp add: alloc_node_def NODE_MEM_POOL_SIZE_def Let_def)
    moreover have "alloc_nodes hooks 55 ?t57 = Some (?t57\<lparr>node_mem_pool_i := 55\<rparr>,
        map (\<lambda>j. node_mem_pool ?t57 ! (1 + j)) [0..<55])"
      using alloc_nodes_plain [of ?t57 0 55 hooks] by simp
    ultimately have "alloc_nodes hooks 112 ?t = Some (?t57\<lparr>node_mem_pool_i := 55\<rparr>,
        map (\<lambda>j. map f [0..<112] ! (1 + j)) [0..<56] @ [node_mem_pool ?t57 ! 0] @
        map (\<lambda>j. node_mem_pool ?t57 ! (1 + j)) [0..<55])"
      using alloc_nodes_add [of hooks 56 "1 + 55" ?t] first alloc_nodes_add [of hooks 1 55 ?t56]
      by simp
    then show ?thesis using keep by (simp add: nth_append)
  qed
qed

text \<open>
  Deleting a region with two children destroys the address order: the replacement is the
  leftmost node below it, not its neighbour in the order. In a balanced ordered tree of five regions,
  after the root is deleted the region at \<^verbatim>\<open>0x3000\<close>, which is still in the tree, is no longer found.
\<close>

theorem alloc_tree_delete_breaks_order:
  "sorted (map snd (keys r_addr tree5)) \<and> rb_ok tree_get_clr tree5 \<and>
   map_option (\<lambda>t. (region_at 0x130 t, alloc_tree_find 0x3000 t)) (alloc_tree_delete 0x150 (state_of tree5))
     = Some (Some (rg 0x3000 0x10 False), Some (- 1))"
proof -
  have "map_option (\<lambda>t. (region_at 0x130 t, alloc_tree_find 0x3000 t)) (alloc_tree_delete 0x150 (state_of tree5))
     = Some (Some (rg 0x3000 0x10 False), Some (- 1))" by code_simp
  then show ?thesis by (simp add: tree5_def)
qed

text \<open>
  Freeing a region that has a left neighbour in the tree but no adjacent one faults:
  \<^verbatim>\<open>merge_lr\<close> reports that by \<^verbatim>\<open>(void*)-1\<close>, which \<^verbatim>\<open>allocator_free\<close> only compares with
  \<^verbatim>\<open>NULL\<close> before it dereferences it.
\<close>

theorem allocator_free_dereferences_error:
  "rb_ok tree_get_clr tree2 \<and> sorted (map snd (keys r_addr tree2)) \<and>
   allocator_free None 0x2000 0x10 (state_of tree2) = None \<and>
   Option.bind (new_region None 0x2000 0x10 (state_of tree2))
     (\<lambda>(t, n). Option.bind (deref t n) (\<lambda>x. merge_lr (n_left x) 0x2000 t)) = Some (- 1)"
proof -
  have "allocator_free None 0x2000 0x10 (state_of tree2) = None" by code_simp
  moreover have "Option.bind (new_region None 0x2000 0x10 (state_of tree2))
     (\<lambda>(t, n). Option.bind (deref t n) (\<lambda>x. merge_lr (n_left x) 0x2000 t)) = Some (- 1)" by code_simp
  ultimately show ?thesis by (simp add: tree2_def)
qed

end
