(* ===== verification/Thread_tree.thy ===== *)
theory Thread_tree
  imports Rbtree
begin

text \<open>
  Threads (\<^verbatim>\<open>modules/mtask/thread.h\<close>) and the red-black tree of runnable threads
  (\<^verbatim>\<open>modules/mtask/thread_tree.c\<close>). A tree node holds a pointer to its thread and the colour; the
  tree is ordered by the \<^verbatim>\<open>vruntime\<close> of the threads the nodes point to, and a thread points back to
  its node with \<^verbatim>\<open>hndl\<close>. So the key of a node lives outside the tree, in the store of threads
  \<open>tt_threads\<close>, and deletion, which moves threads between nodes, has to keep the back pointers right.
  The saved registers of a thread are used by assembly code only and are left out of the record.

  The tree code is the instance of \<^theory_text>\<open>Rbtree\<close> with the payload \<open>tt_body\<close>. Shown are the correctness of
  insertion, of the removal of a node without children and of a red node's black parent with one
  child, and that these keep every thread's back pointer.
\<close>

section \<open>Threads\<close>

definition THREAD_FLAG_SLEEPING :: u32 where
  "THREAD_FLAG_SLEEPING = 1"

record thread =
  th_flags :: u32
  vruntime :: u64
  weight :: u64
  sleep_until :: u64
  sleep_overflow :: u32
  parent_proc :: addr
  th_tree :: nat
  th_hndl :: addr

text \<open>\<^verbatim>\<open>sleep_overflow\<close> is a signed \<^verbatim>\<open>int\<close>; \<open>th_tree\<close> is the index into the array of trees.\<close>

definition thread_wakeup_is_later :: "thread \<Rightarrow> thread \<Rightarrow> bool" where
  "thread_wakeup_is_later t1 t2 =
     (if sleep_overflow t1 = sleep_overflow t2 then sleep_until t1 > sleep_until t2
      else sint (sleep_overflow t1) > sint (sleep_overflow t2))"

definition thread_wakeup_is_earlier :: "thread \<Rightarrow> thread \<Rightarrow> bool" where
  "thread_wakeup_is_earlier t1 t2 = (\<not> thread_wakeup_is_later t1 t2)"

definition thread_should_wakeup_now :: "thread \<Rightarrow> u64 \<Rightarrow> bool" where
  "thread_should_wakeup_now t timer_val \<longleftrightarrow> sleep_overflow t = 0 \<and> sleep_until t \<le> timer_val"

section \<open>The tree\<close>

record tt_body =
  tn_thr :: addr
  tn_clr :: bool

record tt_st = "tt_body tree_st" +
  tt_threads :: "addr \<Rightarrow> thread"

definition tn_set_clr :: "bool \<Rightarrow> tt_body \<Rightarrow> tt_body" where
  "tn_set_clr red b = b\<lparr>tn_clr := red\<rparr>"

definition tn_vruntime :: "(addr \<Rightarrow> thread) \<Rightarrow> tt_body \<Rightarrow> u64" where
  "tn_vruntime ths b = vruntime (ths (tn_thr b))"

definition tn_lt :: "(addr \<Rightarrow> thread) \<Rightarrow> tt_body \<Rightarrow> tt_body \<Rightarrow> bool" where
  "tn_lt ths x y \<longleftrightarrow> vruntime (ths (tn_thr x)) < vruntime (ths (tn_thr y))"

definition thread_tree_rotate :: "addr \<Rightarrow> bool \<Rightarrow> tt_st \<Rightarrow> tt_st option" where
  "thread_tree_rotate = rb_rotate"

definition thread_tree_insertp :: "addr \<Rightarrow> addr \<Rightarrow> bool \<Rightarrow> tt_st \<Rightarrow> tt_st option" where
  "thread_tree_insertp = rb_insertp tn_clr tn_set_clr"

definition thread_tree_insert :: "addr \<Rightarrow> tt_st \<Rightarrow> tt_st option" where
  "thread_tree_insert n t = rb_insert tn_clr tn_set_clr (tn_lt (tt_threads t)) n t"

text \<open>\<^verbatim>\<open>n->thr = u->thr\<close>; the exchange of the threads of two nodes; \<^verbatim>\<open>n->thr->hndl = n\<close>.\<close>

definition tt_absorb :: "tt_body \<Rightarrow> tt_body \<Rightarrow> tt_body" where
  "tt_absorb n u = n\<lparr>tn_thr := tn_thr u\<rparr>"

definition tt_swap :: "tt_body \<Rightarrow> tt_body \<Rightarrow> tt_body \<times> tt_body" where
  "tt_swap n u = (n\<lparr>tn_thr := tn_thr u\<rparr>, u\<lparr>tn_thr := tn_thr n\<rparr>)"

definition tt_relink :: "addr \<Rightarrow> tt_st \<Rightarrow> tt_st option" where
  "tt_relink n t =
     do {
       nn \<leftarrow> deref t n;
       let a = tn_thr (n_body nn);
       Some (t\<lparr>tt_threads := (tt_threads t)(a := (tt_threads t a)\<lparr>th_hndl := n\<rparr>)\<rparr>)
     }"

definition thread_tree_delete_replacement :: "addr \<Rightarrow> tt_st \<Rightarrow> addr option" where
  "thread_tree_delete_replacement = rb_delete_replacement"

definition thread_tree_delete_fixbb :: "addr \<Rightarrow> tt_st \<Rightarrow> tt_st option" where
  "thread_tree_delete_fixbb = rb_delete_fixbb tn_clr tn_set_clr"

definition thread_tree_delete :: "addr \<Rightarrow> tt_st \<Rightarrow> (tt_st \<times> addr) option" where
  "thread_tree_delete = rb_delete tn_clr tn_set_clr tt_absorb tt_swap tt_relink"

section \<open>The payload\<close>

lemma set_clr_simps [simp]:
  "tn_clr (tn_set_clr red b) = red" "tn_thr (tn_set_clr red b) = tn_thr b"
  "tn_vruntime ths (tn_set_clr red b) = tn_vruntime ths b"
  by (simp_all add: tn_set_clr_def tn_vruntime_def)

interpretation run_tree: rb_payload tn_clr tn_set_clr "tn_lt ths" "tn_vruntime ths" for ths
  by unfold_locales (simp_all add: tn_lt_def tn_vruntime_def)

section \<open>The queue a tree stands for\<close>

text \<open>
  \<open>run_q T\<close> lists the nodes of a tree with their threads in tree order. \<open>tq_inv\<close>: the store holds the
  tree, the order is the order of \<^verbatim>\<open>vruntime\<close>, and every thread points back to its node.
\<close>

definition run_q :: "tt_body ptree \<Rightarrow> (addr \<times> addr) list" where
  "run_q T = keys tn_thr T"

definition tq_inv :: "tt_st \<Rightarrow> tt_body ptree \<Rightarrow> bool" where
  "tq_inv t T \<longleftrightarrow> repr t T \<and> sorted (map (\<lambda>x. vruntime (tt_threads t (snd x))) (run_q T)) \<and>
     (\<forall>x \<in> set (run_q T). th_hndl (tt_threads t (snd x)) = fst x)"

lemma more_threads: "tree_st.more t' = tree_st.more t \<Longrightarrow> tt_threads t' = tt_threads (t :: tt_st)"
  by (cases t; cases t') simp

lemma keys_vruntime: "keys (tn_vruntime ths) T = map (\<lambda>x. (fst x, vruntime (ths (snd x)))) (run_q T)"
  by (simp add: keys_def run_q_def tn_vruntime_def comp_def case_prod_beta)

lemma run_q_inord: "run_q T = map (\<lambda>x. (fst x, tn_thr (snd x))) (inord T)"
  by (simp add: run_q_def keys_def case_prod_beta)

lemma run_q_Nil [simp]: "run_q T = [] \<longleftrightarrow> T = Lf" "run_q Lf = []"
  by (cases T) (simp_all add: run_q_def)

lemma run_q_distinct: "repr t T \<Longrightarrow> distinct (map fst (run_q T))"
  by (simp add: repr_def dtree_inord run_q_inord comp_def)

lemma run_q_addrs: "addrs T = fst ` set (run_q T)"
  by (simp add: addrs_inord run_q_inord image_image)

lemma tree_insert_ok:
  assumes inv: "tq_inv t T" and n: "n \<noteq> NULL" "n \<notin> addrs T" "t_nodes t n = Some x"
    and h: "th_hndl (tt_threads t (tn_thr (n_body x))) = n"
  obtains t' T' where "thread_tree_insert n t = Some t'" "tq_inv t' T'" "tt_threads t' = tt_threads t"
    "set (run_q T') = insert (n, tn_thr (n_body x)) (set (run_q T))" "length (run_q T') = Suc (length (run_q T))"
    "rb_ok tn_clr T \<longrightarrow> rb_ok tn_clr T'" "T' \<noteq> Lf"
    "\<exists>y. t_nodes t' n = Some y \<and> tn_thr (n_body y) = tn_thr (n_body x)"
proof -
  let ?ths = "tt_threads t" let ?T = "ins tn_clr tn_set_clr (tn_lt ?ths) n (n_body x) T"
  have rep: "repr t T" and sorted: "sorted (map snd (keys (tn_vruntime ?ths) T))"
    using inv by (simp_all add: tq_inv_def keys_vruntime comp_def)
  obtain t' where t': "rb_insert tn_clr tn_set_clr (tn_lt ?ths) n t = Some t'" "repr t' ?T"
    "tree_st.more t' = tree_st.more t"
    by (rule rb_insert_ok [OF rep n])
  note srt = ins_sorted [where k = "tn_vruntime ?ths" and sc = tn_set_clr and lt = "tn_lt ?ths" and gc = tn_clr
      and n = n and nb = "n_body x", OF set_clr_simps(3) run_tree.lt_k sorted]
  have q: "set (run_q ?T) = insert (n, tn_thr (n_body x)) (set (run_q T))"
    unfolding run_q_def by (subst keys_ins) (simp_all add: set_keys_bst_ins)
  have len: "length (run_q ?T) = Suc (length (run_q T))"
    using srt(3) by (simp add: keys_vruntime)
  have ths: "tt_threads t' = ?ths" by (rule more_threads [OF t'(3)])
  have "sorted (map (\<lambda>x. vruntime (?ths (snd x))) (run_q ?T))"
    using srt(1) by (simp add: keys_vruntime comp_def)
  then have inv': "tq_inv t' ?T" using t'(2) q h inv by (auto simp: tq_inv_def ths)
  have ok: "rb_ok tn_clr ?T" if "rb_ok tn_clr T" by (rule rb_ok_ins [OF set_clr_simps(1) that])
  have "?T \<noteq> Lf" using len by auto
  have "\<exists>b. (n, b) \<in> set (inord ?T) \<and> tn_thr b = tn_thr (n_body x)"
  proof -
    have "(n, tn_thr (n_body x)) \<in> set (run_q ?T)" by (simp only: q insertI1)
    then show ?thesis by (auto simp: run_q_inord)
  qed
  then obtain b l r par where nd: "t_nodes t' n = Some (mkn False l r par b)" "tn_thr b = tn_thr (n_body x)"
    using t'(2) tree_at_node unfolding repr_def by metis
  show thesis
    by (rule that [of t' ?T]) (use t' inv' ths q len ok \<open>?T \<noteq> Lf\<close> nd in \<open>auto simp: thread_tree_insert_def node_simps\<close>)
qed

text \<open>The first thread sits in the root and the root has a child.\<close>

fun first_is_root_with_child :: "'b ptree \<Rightarrow> bool" where
  "first_is_root_with_child (Nd Lf a b r) \<longleftrightarrow> r \<noteq> Lf"
| "first_is_root_with_child T \<longleftrightarrow> False"

lemma run_q_head:
  assumes "repr t T" "T \<noteq> Lf"
  obtains a l r par b where "rb_leftmost (t_root t) t = Some a" "deref t a = Some (mkn False l r par b)"
    "hd (run_q T) = (a, tn_thr b)" "t_root t \<noteq> NULL"
proof -
  have tr: "tree_at t NULL T" "t_root t = ptr T" using assms(1) by (simp_all add: repr_def)
  have "inord T \<noteq> []" using assms(2) by (cases T) auto
  then have hd: "hd (inord T) \<in> set (inord T)" "hd (run_q T) = (fst (hd (inord T)), tn_thr (snd (hd (inord T))))"
    by (simp_all add: run_q_inord hd_map)
  obtain a b where ab: "hd (inord T) = (a, b)" by (cases "hd (inord T)")
  obtain l r par where "t_nodes t a = Some (mkn False l r par b)" "a \<noteq> NULL"
    using tree_at_node [OF _ tr(1), of a b] hd(1) ab by auto
  then show thesis
    using that [of a l r par b] rb_leftmost_ok [OF tr(1) assms(2)] hd(2) ab tr assms(2) ptr_eq_NULL [OF tr(1)]
    by (simp add: deref_node)
qed

lemma tree_delete_leftmost_ok:
  assumes rep: "repr t T" and ok: "rb_ok tn_clr T" "T \<noteq> Lf"
    and top: "\<not> first_is_root_with_child T"
  obtains t' T' where "thread_tree_delete (fst (hd (run_q T))) t = Some (t', fst (hd (run_q T)))" "repr t' T'"
    "tt_threads t' = tt_threads t" "run_q T' = tl (run_q T)"
proof -
  obtain a b r c where T: "T = plug (Nd Lf a b r) c" "hd (inord T) = (a, b)" "removable tn_clr b r c"
    using leftmost_removable [OF ok] by blast
  have ne: "inord T \<noteq> []" using ok(2) by (cases T) auto
  have hd: "hd (run_q T) = (a, tn_thr b)" using T(2) ne by (simp add: run_q_inord hd_map)
  have "r = Lf \<or> c \<noteq> []" using top T(1) by auto
  then obtain t' T' where t': "rb_delete tn_clr tn_set_clr tt_absorb tt_swap tt_relink a t = Some (t', a)" "repr t' T'"
    "tree_st.more t' = tree_st.more t"
    "keys tn_thr T' = filter (\<lambda>x. fst x \<noteq> a) (keys tn_thr (plug (Nd Lf a b r) c))"
    by (rule rb_delete_leftmost [where gc = tn_clr and sc = tn_set_clr and k = tn_thr, OF rep [unfolded T(1)] T(3)
          _ set_clr_simps(1,2)])
  have split: "run_q T = (a, tn_thr b) # tl (run_q T)" using hd ok(2) by (cases "run_q T") auto
  then have "map fst (run_q T) = a # map fst (tl (run_q T))" by (metis fst_conv list.map(2))
  then have "a \<notin> set (map fst (tl (run_q T)))" using run_q_distinct [OF rep] by (metis distinct.simps(2))
  then have "filter (\<lambda>x. fst x \<noteq> a) (tl (run_q T)) = tl (run_q T)" by (auto simp: filter_id_conv)
  moreover have "run_q T' = filter (\<lambda>x. fst x \<noteq> a) (run_q T)" using t'(4) T(1) by (simp only: run_q_def)
  moreover have "filter (\<lambda>x. fst x \<noteq> a) (run_q T) = filter (\<lambda>x. fst x \<noteq> a) (tl (run_q T))"
    by (subst split) simp
  ultimately have "run_q T' = tl (run_q T)" by simp
  then show thesis
    by (intro that [of t' T']) (simp_all add: t'(1,2) hd thread_tree_delete_def more_threads [OF t'(3)])
qed

section \<open>Properties\<close>

definition th_run :: "u64 \<Rightarrow> addr \<Rightarrow> thread" where
  "th_run v h = \<lparr>th_flags = 0, vruntime = v, weight = 1024, sleep_until = 0, sleep_overflow = 0,
     parent_proc = 0, th_tree = 0, th_hndl = h\<rparr>"

definition tb :: "addr \<Rightarrow> bool \<Rightarrow> tt_body" where
  "tb p red = \<lparr>tn_thr = p, tn_clr = red\<rparr>"

fun tt_store :: "addr \<Rightarrow> tt_body ptree \<Rightarrow> addr \<Rightarrow> tt_body tnode option" where
  "tt_store par Lf = (\<lambda>p. if p = 0x900 then Some (mkn False NULL NULL NULL (tb 0x9000 False)) else None)"
| "tt_store par (Nd l a b r) =
     (\<lambda>p. if p = a then Some (mkn False (ptr l) (ptr r) par b)
          else if p \<in> addrs l then tt_store a l p else tt_store a r p)"

text \<open>The thread at address \<open>16 p\<close> belongs to the node \<open>p\<close> and has the \<^verbatim>\<open>vruntime\<close> \<open>p\<close>.\<close>

definition tt_of :: "tt_body ptree \<Rightarrow> tt_st" where
  "tt_of T = \<lparr>t_nodes = tt_store NULL T, t_root = ptr T, tt_threads = (\<lambda>p. th_run (p div 16) (p div 16))\<rparr>"

definition tt3 :: "tt_body ptree" where
  "tt3 = Nd (Nd Lf 0x100 (tb 0x1000 True) Lf) 0x200 (tb 0x2000 False) (Nd Lf 0x300 (tb 0x3000 True) Lf)"

lemma tt3_inv: "tq_inv (tt_of tt3) tt3" "rb_ok tn_clr tt3"
  by (simp_all add: tq_inv_def repr_def tt_of_def tt3_def run_q_def tb_def th_run_def)

text \<open>
  C32: Inserting a node into the tree of runnable threads: it returns, the store holds a tree again in
  the order of \<^verbatim>\<open>vruntime\<close> with exactly the old nodes and the new one, every thread points back to its
  node, the threads are untouched, and a balanced tree stays balanced, of logarithmic height.
\<close>

theorem thread_tree_insert_correct:
  assumes "tq_inv t T" "rb_ok tn_clr T" and "n \<noteq> NULL" "n \<notin> addrs T" "t_nodes t n = Some x"
    and "th_hndl (tt_threads t (tn_thr (n_body x))) = n"
  shows "\<exists>t' T'. thread_tree_insert n t = Some t' \<and> tq_inv t' T' \<and> tt_threads t' = tt_threads t \<and>
    set (run_q T') = insert (n, tn_thr (n_body x)) (set (run_q T)) \<and>
    length (run_q T') = Suc (length (run_q T)) \<and> rb_ok tn_clr T' \<and>
    2 ^ (theight T' div 2) \<le> 2 * Suc (length (run_q T'))"
proof -
  obtain t' T' where *: "thread_tree_insert n t = Some t'" "tq_inv t' T'" "tt_threads t' = tt_threads t"
    "set (run_q T') = insert (n, tn_thr (n_body x)) (set (run_q T))" "length (run_q T') = Suc (length (run_q T))"
    "rb_ok tn_clr T'"
    by (rule tree_insert_ok [OF assms(1,3-6)]) (use assms(2) in blast)
  then have "2 ^ (theight T' div 2) \<le> 2 * Suc (length (run_q T'))"
    using rb_ok_height [OF *(6)] by (simp add: run_q_inord)
  with * show ?thesis by blast
qed

theorem thread_tree_insert_correct_witness:
  "\<exists>t' T'. thread_tree_insert 0x900 (tt_of tt3) = Some t' \<and> tq_inv t' T' \<and> rb_ok tn_clr T' \<and> length (run_q T') = 4"
proof -
  have "0x900 \<notin> addrs tt3" "t_nodes (tt_of tt3) 0x900 = Some (mkn False NULL NULL NULL (tb 0x9000 False))"
    "th_hndl (tt_threads (tt_of tt3) (tn_thr (n_body (mkn False NULL NULL NULL (tb 0x9000 False))))) = 0x900"
    "length (run_q tt3) = 3"
    by (simp_all add: tt3_def tt_of_def tb_def th_run_def node_simps run_q_def)
  with thread_tree_insert_correct [OF tt3_inv, of "0x900"] show ?thesis by fastforce
qed

end
