(* ===== verification/Thread_pqueue.thy ===== *)
theory Thread_pqueue
  imports Thread_tree Kernmem "HOL-Library.Multiset"
begin

text \<open>
  The queue of sleeping threads (\<^verbatim>\<open>modules/mtask/thread_pqueue.c\<close>): an array of thread pointers meant
  as a binary heap ordered by wake-up time. \<open>pq_ptr\<close> is the pointer the array was allocated at,
  \<open>pq_heap\<close> the array itself; reading or writing outside it has no result. The array grows through
  \<^verbatim>\<open>krealloc\<close> of \<^theory_text>\<open>Kernmem\<close>. The debug output of \<^verbatim>\<open>thread_pqueue_push\<close> is left out.

  The parent of entry \<open>k\<close> is entry \<open>k div 2\<close> counted from 0, so the order that insertion keeps is
  \<open>pq_ordered\<close>: the chain 0, 1, and below 1 a binary tree. It is shown that insertion keeps this order
  and that removal never returns on three or more threads: the loop of \<^verbatim>\<open>heapify_down\<close> does not change
  its index.
\<close>

section \<open>Operations\<close>

definition THREAD_PQUEUE_GROWTH :: u64 where
  "THREAD_PQUEUE_GROWTH = 4"

record thread_pqueue =
  pq_ptr :: addr
  pq_heap :: "addr list"
  pq_size :: u64
  pq_max_size :: u64
  pq_lock :: u32

definition pq_get :: "addr list \<Rightarrow> nat \<Rightarrow> addr option" where
  "pq_get h i = (if i < length h then Some (h ! i) else None)"

definition pq_set :: "addr list \<Rightarrow> nat \<Rightarrow> addr \<Rightarrow> addr list option" where
  "pq_set h i v = (if i < length h then Some (h[i := v]) else None)"

partial_function (option) heapify_up_loop ::
  "(addr \<Rightarrow> thread) \<Rightarrow> addr \<Rightarrow> nat \<Rightarrow> addr list \<Rightarrow> (nat \<times> addr list) option" where
  "heapify_up_loop ths thr k h =
     do {
       up \<leftarrow> pq_get h (k div 2);
       if thread_wakeup_is_earlier (ths up) (ths thr) then Some (k, h)
       else do {
         h1 \<leftarrow> pq_set h k up;
         if k div 2 = 0 then Some (0, h1) else heapify_up_loop ths thr (k div 2) h1
       }
     }"

declare heapify_up_loop.simps [code]

definition thread_pqueue_heapify_up :: "(addr \<Rightarrow> thread) \<Rightarrow> thread_pqueue \<Rightarrow> thread_pqueue option" where
  "thread_pqueue_heapify_up ths q =
     do {
       let k = unat (pq_size q - 1);
       thr \<leftarrow> pq_get (pq_heap q) k;
       (k1, h1) \<leftarrow> heapify_up_loop ths thr k (pq_heap q);
       h2 \<leftarrow> pq_set h1 k1 thr;
       Some (q\<lparr>pq_heap := h2\<rparr>)
     }"

text \<open>
  The index expression is \<^verbatim>\<open>k*2 + (c) ? 2 : 1\<close>: the conditional operator binds weaker than the sum, so
  the sum is the condition and the value is 2 or 1.
\<close>

definition heapify_down_min :: "(addr \<Rightarrow> thread) \<Rightarrow> nat \<Rightarrow> nat \<Rightarrow> addr list \<Rightarrow> nat option" where
  "heapify_down_min ths n k h =
     do {
       c \<leftarrow> (if k * 2 + 2 < n then do {
              x \<leftarrow> pq_get h (k * 2 + 2);
              y \<leftarrow> pq_get h (k * 2 + 1);
              Some (thread_wakeup_is_earlier (ths x) (ths y))
            } else Some False);
       Some (if k * 2 + (if c then 1 else 0) \<noteq> 0 then 2 else 1)
     }"

partial_function (option) heapify_down_loop ::
  "(addr \<Rightarrow> thread) \<Rightarrow> addr \<Rightarrow> nat \<Rightarrow> nat \<Rightarrow> addr list \<Rightarrow> (nat \<times> addr list) option" where
  "heapify_down_loop ths thr n k h =
     (if k < n div 2 then
        if k * 2 + 1 \<ge> n then Some (k, h)
        else do {
          m \<leftarrow> heapify_down_min ths n k h;
          x \<leftarrow> pq_get h m;
          if thread_wakeup_is_later (ths x) (ths thr) then Some (k, h)
          else do {
            h1 \<leftarrow> pq_set h k x;
            heapify_down_loop ths thr n k h1
          }
        }
      else Some (k, h))"

declare heapify_down_loop.simps [code]

definition thread_pqueue_heapify_down :: "(addr \<Rightarrow> thread) \<Rightarrow> thread_pqueue \<Rightarrow> thread_pqueue option" where
  "thread_pqueue_heapify_down ths q =
     do {
       thr \<leftarrow> pq_get (pq_heap q) 0;
       (k1, h1) \<leftarrow> heapify_down_loop ths thr (unat (pq_size q)) 0 (pq_heap q);
       h2 \<leftarrow> pq_set h1 k1 thr;
       Some (q\<lparr>pq_heap := h2\<rparr>)
     }"

definition thread_pqueue_init :: "thread_pqueue \<Rightarrow> thread_pqueue" where
  "thread_pqueue_init q =
     q\<lparr>pq_size := 0, pq_max_size := 0, pq_ptr := NULL, pq_heap := [], pq_lock := spinlock_init (pq_lock q)\<rparr>"

fun reset_overflow_list :: "addr list \<Rightarrow> (addr \<Rightarrow> thread) \<Rightarrow> addr \<Rightarrow> thread" where
  "reset_overflow_list [] ths = ths"
| "reset_overflow_list (a # as) ths = reset_overflow_list as (ths(a := (ths a)\<lparr>sleep_overflow := 0\<rparr>))"

definition thread_pqueue_reset_overflow :: "thread_pqueue \<Rightarrow> (addr \<Rightarrow> thread) \<Rightarrow> (addr \<Rightarrow> thread) option" where
  "thread_pqueue_reset_overflow q ths =
     (if unat (pq_size q) \<le> length (pq_heap q)
      then Some (reset_overflow_list (take (unat (pq_size q)) (pq_heap q)) ths) else None)"

text \<open>The entries the array gains are uninitialised memory; \<open>fresh\<close> stands for what they hold.\<close>

definition pq_grow ::
  "unit map_hooks \<Rightarrow> (nat \<Rightarrow> addr) \<Rightarrow> kmem \<Rightarrow> thread_pqueue \<Rightarrow> (kmem \<times> thread_pqueue) option" where
  "pq_grow hooks fresh s q =
     do {
       let mx = pq_max_size q + THREAD_PQUEUE_GROWTH;
       (s1, p) \<leftarrow> krealloc hooks (pq_ptr q) (8 * mx) s;
       Some (s1, q\<lparr>pq_ptr := p, pq_max_size := mx,
         pq_heap := take (unat mx) (pq_heap q) @ map fresh [length (pq_heap q)..<unat mx]\<rparr>)
     }"

definition thread_pqueue_push ::
  "unit map_hooks \<Rightarrow> (nat \<Rightarrow> addr) \<Rightarrow> (addr \<Rightarrow> thread) \<Rightarrow> addr \<Rightarrow> kmem \<Rightarrow> thread_pqueue \<Rightarrow> (kmem \<times> thread_pqueue) option" where
  "thread_pqueue_push hooks fresh ths thr s q =
     do {
       (s1, q1) \<leftarrow> (if pq_size q = pq_max_size q then pq_grow hooks fresh s q else Some (s, q));
       h \<leftarrow> pq_set (pq_heap q1) (unat (pq_size q1)) thr;
       q2 \<leftarrow> thread_pqueue_heapify_up ths (q1\<lparr>pq_heap := h, pq_size := pq_size q1 + 1\<rparr>);
       Some (s1, q2)
     }"

definition thread_pqueue_pop :: "(addr \<Rightarrow> thread) \<Rightarrow> thread_pqueue \<Rightarrow> (thread_pqueue \<times> addr) option" where
  "thread_pqueue_pop ths q =
     do {
       thr \<leftarrow> pq_get (pq_heap q) 0;
       let n = pq_size q - 1;
       lst \<leftarrow> pq_get (pq_heap q) (unat n);
       h \<leftarrow> pq_set (pq_heap q) 0 lst;
       q1 \<leftarrow> thread_pqueue_heapify_down ths (q\<lparr>pq_heap := h, pq_size := n\<rparr>);
       Some (q1, thr)
     }"

section \<open>The order of wake-up times\<close>

lemma later_lex:
  "thread_wakeup_is_later a b \<longleftrightarrow> sint (sleep_overflow b) < sint (sleep_overflow a) \<or>
     sint (sleep_overflow a) = sint (sleep_overflow b) \<and> sleep_until b < sleep_until a"
proof -
  have "sint (sleep_overflow a) = sint (sleep_overflow b) \<longleftrightarrow> sleep_overflow a = sleep_overflow b"
    by (auto dest: signed_word_eqI)
  then show ?thesis by (auto simp: thread_wakeup_is_later_def)
qed

lemma later_irrefl [simp]: "\<not> thread_wakeup_is_later t t"
  by (simp add: later_lex)

lemma not_later_trans:
  "\<not> thread_wakeup_is_later a b \<Longrightarrow> \<not> thread_wakeup_is_later b c \<Longrightarrow> \<not> thread_wakeup_is_later a c"
  by (auto simp: later_lex)

lemma later_asym: "thread_wakeup_is_later a b \<Longrightarrow> \<not> thread_wakeup_is_later b a"
  by (auto simp: later_lex)

definition pq_ordered :: "(addr \<Rightarrow> thread) \<Rightarrow> nat \<Rightarrow> addr list \<Rightarrow> bool" where
  "pq_ordered ths n h \<longleftrightarrow>
     n \<le> length h \<and> (\<forall>k < n. \<not> thread_wakeup_is_later (ths (h ! (k div 2))) (ths (h ! k)))"

lemma pq_ordered_mono: "pq_ordered ths n h \<Longrightarrow> m \<le> n \<Longrightarrow> pq_ordered ths m h"
  by (auto simp: pq_ordered_def)

lemma pq_ordered_ancestor:
  assumes "pq_ordered ths n h"
  shows "k < n \<Longrightarrow> \<not> thread_wakeup_is_later (ths (h ! 0)) (ths (h ! k))"
    and "0 < k \<Longrightarrow> k < n \<Longrightarrow> \<not> thread_wakeup_is_later (ths (h ! 1)) (ths (h ! k))"
proof -
  show "k < n \<Longrightarrow> \<not> thread_wakeup_is_later (ths (h ! 0)) (ths (h ! k))"
  proof (induction k rule: less_induct)
    case (less k)
    show ?case
    proof (cases "k = 0")
      case False
      with less have "\<not> thread_wakeup_is_later (ths (h ! 0)) (ths (h ! (k div 2)))" by simp
      moreover have "\<not> thread_wakeup_is_later (ths (h ! (k div 2))) (ths (h ! k))"
        using assms less.prems by (simp add: pq_ordered_def)
      ultimately show ?thesis by (rule not_later_trans)
    qed simp
  qed
  show "0 < k \<Longrightarrow> k < n \<Longrightarrow> \<not> thread_wakeup_is_later (ths (h ! 1)) (ths (h ! k))"
  proof (induction k rule: less_induct)
    case (less k)
    show ?case
    proof (cases "k = 1")
      case False
      with less have "\<not> thread_wakeup_is_later (ths (h ! 1)) (ths (h ! (k div 2)))" by simp
      moreover have "\<not> thread_wakeup_is_later (ths (h ! (k div 2))) (ths (h ! k))"
        using assms less.prems by (simp add: pq_ordered_def)
      ultimately show ?thesis by (rule not_later_trans)
    qed simp
  qed
qed

section \<open>Insertion\<close>

text \<open>
  The loop moves a hole up the chain of parents: with the new thread written into the hole all
  pairs are in order but the one of the hole and its parent.
\<close>

definition up_inv :: "(addr \<Rightarrow> thread) \<Rightarrow> nat \<Rightarrow> addr \<Rightarrow> nat \<Rightarrow> addr list \<Rightarrow> bool" where
  "up_inv ths n thr k h \<longleftrightarrow>
     k < n \<and> n \<le> length h \<and>
     (\<forall>j < n. j \<noteq> k \<longrightarrow> \<not> thread_wakeup_is_later (ths (h[k := thr] ! (j div 2))) (ths (h[k := thr] ! j))) \<and>
     (\<forall>j < n. j \<noteq> k \<longrightarrow> j div 2 = k \<longrightarrow> \<not> thread_wakeup_is_later (ths (h ! (k div 2))) (ths (h ! j)))"

lemma up_inv_step:
  assumes inv: "up_inv ths n thr k h" and k: "0 < k"
    and later: "thread_wakeup_is_later (ths (h ! (k div 2))) (ths thr)"
  shows "up_inv ths n thr (k div 2) (h[k := h ! (k div 2)])"
proof -
  let ?p = "k div 2" and ?h = "h[k := h ! (k div 2)]"
  have kn: "k < n" using inv by (simp add: up_inv_def)
  have lt: "?p < k" "k < length h" "?p < length h" using inv k by (auto simp: up_inv_def)
  have o: "\<not> thread_wakeup_is_later (ths (h[k := thr] ! (j div 2))) (ths (h[k := thr] ! j))"
    if "j < n" "j \<noteq> k" for j using inv that by (auto simp: up_inv_def)
  have ch: "\<not> thread_wakeup_is_later (ths (h ! ?p)) (ths (h ! j))"
    if "j < n" "j \<noteq> k" "j div 2 = k" for j using inv that by (auto simp: up_inv_def)
  have sub: "?p div 2 \<noteq> k" using lt by simp
  have 1: "\<not> thread_wakeup_is_later (ths (?h[?p := thr] ! (j div 2))) (ths (?h[?p := thr] ! j))"
    if "j < n" "j \<noteq> ?p" for j
  proof (cases "j = k")
    case True
    with later lt show ?thesis by (auto dest: later_asym)
  next
    case False
    consider "j div 2 = ?p" | "j div 2 = k" "j div 2 \<noteq> ?p" | "j div 2 \<noteq> k" "j div 2 \<noteq> ?p" by blast
    then show ?thesis
    proof cases
      case 1
      then have "\<not> thread_wakeup_is_later (ths (h ! ?p)) (ths (h ! j))" using o [OF that(1) False] lt False by simp
      then have "\<not> thread_wakeup_is_later (ths thr) (ths (h ! j))"
        using later later_asym not_later_trans by blast
      with 1 lt False that show ?thesis by simp
    next
      case 2
      with ch [OF that(1) False] lt False that show ?thesis by simp
    next
      case 3
      with o [OF that(1) False] lt False that show ?thesis by simp
    qed
  qed
  have 2: "\<not> thread_wakeup_is_later (ths (?h ! (?p div 2))) (ths (?h ! j))"
    if "j < n" "j \<noteq> ?p" "j div 2 = ?p" for j
  proof -
    have p: "\<not> thread_wakeup_is_later (ths (h ! (?p div 2))) (ths (h ! ?p))"
      using o [of ?p] lt kn sub by simp
    show ?thesis
    proof (cases "j = k")
      case True
      with p sub lt show ?thesis by simp
    next
      case False
      have "\<not> thread_wakeup_is_later (ths (h ! ?p)) (ths (h ! j))"
        using o [OF that(1) False] that lt False by simp
      with p have "\<not> thread_wakeup_is_later (ths (h ! (?p div 2))) (ths (h ! j))" by (rule not_later_trans)
      with sub False show ?thesis by simp
    qed
  qed
  from 1 2 lt inv show ?thesis by (auto simp: up_inv_def)
qed

lemma up_inv_done:
  assumes "up_inv ths n thr k h" and "\<not> thread_wakeup_is_later (ths (h[k := thr] ! (k div 2))) (ths thr)"
  shows "pq_ordered ths n (h[k := thr])"
  unfolding pq_ordered_def
proof (intro conjI allI impI)
  show "n \<le> length (h[k := thr])" using assms(1) by (simp add: up_inv_def)
  fix j
  assume "j < n"
  with assms show "\<not> thread_wakeup_is_later (ths (h[k := thr] ! (j div 2))) (ths (h[k := thr] ! j))"
    by (cases "j = k") (simp_all add: up_inv_def)
qed

lemma swap_up_mset:
  "p < length h \<Longrightarrow> k < length h \<Longrightarrow> p \<noteq> k \<Longrightarrow> mset (h[k := h ! p, p := thr]) = mset (h[k := thr])"
  using mset_swap [of p "h[k := thr]" k] by (simp add: list_update_swap)

lemma heapify_up_loop_ok:
  assumes "up_inv ths n thr k h" and "k = 0 \<Longrightarrow> h ! 0 = thr"
  obtains k1 h1 where "heapify_up_loop ths thr k h = Some (k1, h1)" "k1 < n" "length h1 = length h"
    "pq_ordered ths n (h1[k1 := thr])" "mset (h1[k1 := thr]) = mset (h[k := thr])" "drop n h1 = drop n h"
  using assms
proof (induction k arbitrary: h thesis rule: less_induct)
  case (less k)
  have len: "k < n" "n \<le> length h" using less.prems(2) by (auto simp: up_inv_def)
  show ?case
  proof (cases "thread_wakeup_is_earlier (ths (h ! (k div 2))) (ths thr)")
    case True
    have "h[k := thr] ! (k div 2) = h ! (k div 2)"
      using less.prems(3) len by (cases "k = 0") auto
    with True have "pq_ordered ths n (h[k := thr])"
      by (intro up_inv_done [OF less.prems(2)]) (simp add: thread_wakeup_is_earlier_def)
    moreover have "heapify_up_loop ths thr k h = Some (k, h)"
      using True len by (subst heapify_up_loop.simps) (simp add: pq_get_def)
    ultimately show thesis using len by (intro less.prems(1)) auto
  next
    case False
    then have later: "thread_wakeup_is_later (ths (h ! (k div 2))) (ths thr)"
      by (simp add: thread_wakeup_is_earlier_def)
    have k: "0 < k" using less.prems(3) later by (cases "k = 0") auto
    let ?h = "h[k := h ! (k div 2)]"
    have inv: "up_inv ths n thr (k div 2) ?h" by (rule up_inv_step [OF less.prems(2) k later])
    have mset: "mset (?h[k div 2 := thr]) = mset (h[k := thr])" using k len by (intro swap_up_mset) auto
    have unf: "heapify_up_loop ths thr k h =
        (if k div 2 = 0 then Some (0, ?h) else heapify_up_loop ths thr (k div 2) ?h)"
      using False len by (subst heapify_up_loop.simps) (auto simp: pq_get_def pq_set_def)
    show thesis
    proof (cases "k div 2 = 0")
      case True
      have "pq_ordered ths n (?h[0 := thr])" using up_inv_done [OF inv] True len k
        by (cases h; cases k) auto
      with True unf mset len show thesis by (intro less.prems(1) [of 0 ?h]) auto
    next
      case False
      obtain k1 h1 where "heapify_up_loop ths thr (k div 2) ?h = Some (k1, h1)" "k1 < n"
        "length h1 = length ?h" "pq_ordered ths n (h1[k1 := thr])"
        "mset (h1[k1 := thr]) = mset (?h[k div 2 := thr])" "drop n h1 = drop n ?h"
        using less.IH [OF _ _ inv] k False by auto
      with unf False mset len show thesis by (intro less.prems(1) [of k1 h1]) auto
    qed
  qed
qed

definition pq_inv :: "(addr \<Rightarrow> thread) \<Rightarrow> thread_pqueue \<Rightarrow> bool" where
  "pq_inv ths q \<longleftrightarrow>
     length (pq_heap q) = unat (pq_max_size q) \<and> unat (pq_max_size q) + 4 < 2 ^ 64 \<and>
     pq_ordered ths (unat (pq_size q)) (pq_heap q)"

definition pq_threads :: "thread_pqueue \<Rightarrow> addr multiset" where
  "pq_threads q = mset (take (unat (pq_size q)) (pq_heap q))"

lemma pq_init_inv: "pq_inv ths (thread_pqueue_init q)" "pq_threads (thread_pqueue_init q) = {#}"
  by (simp_all add: pq_inv_def pq_threads_def thread_pqueue_init_def pq_ordered_def)

lemma up_inv_new:
  assumes "pq_ordered ths n h" "n < length h"
  shows "up_inv ths (Suc n) thr n (h[n := thr])"
proof -
  have "j div 2 < n" if "j < Suc n" "j \<noteq> n" for j using that by linarith
  with assms show ?thesis by (auto simp: up_inv_def pq_ordered_def less_Suc_eq nth_list_update)
qed

lemma mset_take_eq:
  assumes "mset xs = mset ys" "drop n xs = drop n ys"
  shows "mset (take n xs) = mset (take n ys)"
proof -
  have "mset xs = mset (take n xs) + mset (drop n xs)" "mset ys = mset (take n ys) + mset (drop n ys)"
    by (simp_all flip: mset_append)
  with assms show ?thesis by simp
qed

lemma pq_insert_ok:
  fixes thr :: addr
  assumes "pq_ordered ths n (pq_heap q)" "pq_size q = of_nat n" "n < length (pq_heap q)"
    and "length (pq_heap q) < 2 ^ 64"
  defines "q1 \<equiv> q\<lparr>pq_heap := (pq_heap q)[n := thr], pq_size := pq_size q + 1\<rparr>"
  obtains q2 where "thread_pqueue_heapify_up ths q1 = Some q2" "q2 = q1\<lparr>pq_heap := pq_heap q2\<rparr>"
    "length (pq_heap q2) = length (pq_heap q)" "pq_ordered ths (Suc n) (pq_heap q2)"
    "mset (take (Suc n) (pq_heap q2)) = add_mset thr (mset (take n (pq_heap q)))"
proof -
  let ?h = "(pq_heap q)[n := thr]"
  have k: "unat (pq_size q1 - 1) = n" using assms(2-4) by (simp add: q1_def unat_of_nat_64)
  have inv: "up_inv ths (Suc n) thr n ?h" using assms by (intro up_inv_new)
  obtain k1 h1 where l: "heapify_up_loop ths thr n ?h = Some (k1, h1)" "k1 < Suc n" "length h1 = length ?h"
    "pq_ordered ths (Suc n) (h1[k1 := thr])" "mset (h1[k1 := thr]) = mset (?h[n := thr])"
    "drop (Suc n) h1 = drop (Suc n) ?h"
    by (rule heapify_up_loop_ok [OF inv]) (use assms(3) in auto)
  have "thread_pqueue_heapify_up ths q1 = Some (q1\<lparr>pq_heap := h1[k1 := thr]\<rparr>)"
    unfolding thread_pqueue_heapify_up_def Let_def k using l(1-3) assms(3)
    by (simp add: q1_def pq_get_def pq_set_def)
  moreover have "mset (take (Suc n) (h1[k1 := thr])) = mset (take (Suc n) ?h)"
    using l(2,5,6) by (intro mset_take_eq) simp_all
  moreover have "mset (take (Suc n) ?h) = add_mset thr (mset (take n (pq_heap q)))"
    using assms(3) by (simp add: take_Suc_conv_app_nth)
  ultimately show thesis using l(3,4) by (intro that [of "q1\<lparr>pq_heap := h1[k1 := thr]\<rparr>"]) simp_all
qed

lemma pq_grow_inv:
  assumes "pq_inv ths q" "pq_grow hooks fresh s q = Some (s1, q1)"
  shows "pq_size q1 = pq_size q" "pq_threads q1 = pq_threads q"
    "length (pq_heap q1) = unat (pq_max_size q) + 4" "pq_max_size q1 = pq_max_size q + 4"
    "pq_ordered ths (unat (pq_size q)) (pq_heap q1)"
proof -
  have mx: "unat (pq_max_size q + 4) = unat (pq_max_size q) + 4"
    using assms(1) by (simp add: pq_inv_def unat_plus_nowrap)
  have q1: "pq_size q1 = pq_size q" "pq_max_size q1 = pq_max_size q + 4"
    "pq_heap q1 = pq_heap q @ map fresh [unat (pq_max_size q)..<unat (pq_max_size q) + 4]"
    using assms mx by (auto simp: pq_grow_def pq_inv_def THREAD_PQUEUE_GROWTH_def Let_def split: bind_splits)
  have n: "unat (pq_size q) \<le> length (pq_heap q)" using assms(1) by (simp add: pq_inv_def pq_ordered_def)
  show "pq_size q1 = pq_size q" "pq_max_size q1 = pq_max_size q + 4" by (fact q1)+
  show "pq_threads q1 = pq_threads q" "length (pq_heap q1) = unat (pq_max_size q) + 4"
    using q1 n assms(1) by (simp_all add: pq_threads_def pq_inv_def)
  have "k div 2 < length (pq_heap q)" if "k < unat (pq_size q)" for k using that n by linarith
  with assms(1) n show "pq_ordered ths (unat (pq_size q)) (pq_heap q1)"
    by (simp add: pq_inv_def pq_ordered_def q1 nth_append)
qed

section \<open>Removal\<close>

lemma heapify_down_stuck:
  assumes "2 \<le> n" and "heapify_down_min ths n 0 h = Some m" "pq_get h m = Some x"
    and "\<not> thread_wakeup_is_later (ths x) (ths thr)" "0 < m"
    and "h \<noteq> []" "heapify_down_min ths n 0 (h[0 := x]) = Some m"
  shows "heapify_down_loop ths thr n 0 h = None"
proof -
  let ?P = "\<lambda>ths' thr' n' (k :: nat) h' (r :: nat \<times> addr list).
    \<not> (ths' = ths \<and> thr' = thr \<and> n' = n \<and> k = 0 \<and> (h' = h \<or> h' = h[0 := x]))"
  have "?P ths thr n 0 h r" if "heapify_down_loop ths thr n 0 h = Some r" for r
  proof (rule heapify_down_loop.raw_induct [where P = ?P, OF _ that])
    fix f ths' thr' n' k h' r'
    assume IH: "\<And>ths thr n k h r. f ths thr n k h = Some r \<Longrightarrow> ?P ths thr n k h r"
      and eq: "(if k < n' div 2 then if n' \<le> k * 2 + 1 then Some (k, h')
        else do { m \<leftarrow> heapify_down_min ths' n' k h'; x \<leftarrow> pq_get h' m;
          if thread_wakeup_is_later (ths' x) (ths' thr') then Some (k, h')
          else do { h1 \<leftarrow> pq_set h' k x; f ths' thr' n' k h1 } } else Some (k, h')) = Some r'"
    show "?P ths' thr' n' k h' r'"
    proof
      assume a: "ths' = ths \<and> thr' = thr \<and> n' = n \<and> k = 0 \<and> (h' = h \<or> h' = h[0 := x])"
      then have "heapify_down_min ths n 0 h' = Some m" "pq_get h' m = Some x" "h'[0 := x] = h[0 := x]" "h' \<noteq> []"
        using assms by (cases h; auto simp: pq_get_def split: if_splits)+
      with eq a assms(1,4) have "f ths thr n 0 (h[0 := x]) = Some r'"
        by (auto simp: pq_set_def split: if_splits)
      with IH show False by blast
    qed
  qed
  then show ?thesis by (cases "heapify_down_loop ths thr n 0 h") auto
qed

lemma pop_many_stuck:
  assumes ord: "pq_ordered ths (Suc n) (pq_heap q)" and n: "2 \<le> n" "pq_size q = of_nat (Suc n)" "Suc n < 2 ^ 64"
  shows "thread_pqueue_pop ths q = None"
proof -
  let ?h = "pq_heap q" let ?l = "?h ! n"
  let ?c = "2 < n \<and> thread_wakeup_is_earlier (ths (?h ! 2)) (ths (?h ! 1))"
  let ?m = "if ?c then 2 else 1 :: nat"
  have len: "n < length ?h" using ord by (simp add: pq_ordered_def)
  have un: "unat (pq_size q - 1) = n" using n by (simp add: unat_of_nat_64)
  have min: "heapify_down_min ths n 0 (?h[0 := v]) = Some ?m" for v
    using len n by (simp add: heapify_down_min_def pq_get_def numeral_2_eq_2)
  have one: "\<not> thread_wakeup_is_later (ths (?h ! 1)) (ths ?l)"
    using pq_ordered_ancestor(2) [OF ord, of n] n by simp
  then have nl: "\<not> thread_wakeup_is_later (ths (?h ! ?m)) (ths ?l)"
    using not_later_trans [OF _ one] by (auto simp: thread_wakeup_is_earlier_def)
  have "heapify_down_loop ths ?l n 0 (?h[0 := ?l]) = None"
    using min [of ?l] min [of "?h ! ?m"] nl n len
    by (intro heapify_down_stuck [where m = ?m and x = "?h ! ?m"]) (auto simp: pq_get_def)
  moreover have "pq_get ?h 0 = Some (?h ! 0)" "pq_get ?h n = Some ?l" "pq_set ?h 0 ?l = Some (?h[0 := ?l])"
    "pq_get (?h[0 := ?l]) 0 = Some ?l" "unat (of_nat n :: u64) = n"
    using len n by (auto simp: pq_get_def pq_set_def unat_of_nat_64)
  ultimately show ?thesis
    by (simp add: thread_pqueue_pop_def thread_pqueue_heapify_down_def un n(2) Let_def)
qed

section \<open>Properties\<close>

definition th_until :: "u64 \<Rightarrow> thread" where
  "th_until w = \<lparr>th_flags = 1, vruntime = 0, weight = 1024, sleep_until = w, sleep_overflow = 0,
     parent_proc = 0, th_tree = 0, th_hndl = 0\<rparr>"

definition pq3 :: thread_pqueue where
  "pq3 = \<lparr>pq_ptr = 0x300000, pq_heap = [10, 20, 30, 0], pq_size = 3, pq_max_size = 4, pq_lock = 0\<rparr>"

definition pq_kmem :: kmem where
  "pq_kmem = \<lparr>kmem_mem = (\<lambda>_. 0), occupied_to = KMEM_HEAP_BASE, kmem_spinlock = 0\<rparr>"

lemma pq3_inv: "pq_inv th_until pq3"
proof -
  have "(k div 2, k) \<in> {(0, 0), (0, 1), (1, 2)}" if "k < 3" for k :: nat
    using that by (cases k rule: nat.exhaust; cases "k - 1") auto
  then have "\<not> thread_wakeup_is_later (th_until ([10, 20, 30, 0] ! (k div 2))) (th_until ([10, 20, 30, 0] ! k))"
    if "k < 3" for k using that by (fastforce simp: later_lex th_until_def)
  then show ?thesis by (simp add: pq_inv_def pq_ordered_def pq3_def)
qed

text \<open>
  C35: \<^verbatim>\<open>thread_pqueue_push\<close> on a queue in order: unless growing the array fails to return, it returns, the
  queue is again in order, it holds exactly the old threads and the new one, and the first entry is a
  thread that no queued thread wakes up before. The threads themselves and, when the array is not
  full, the heap are untouched.
\<close>

theorem thread_pqueue_push_keeps_order:
  assumes inv: "pq_inv ths q"
  shows "case (if pq_size q = pq_max_size q then pq_grow hooks fresh s q else Some (s, q)) of
      None \<Rightarrow> thread_pqueue_push hooks fresh ths thr s q = None
    | Some (s1, q1) \<Rightarrow> \<exists>q2. thread_pqueue_push hooks fresh ths thr s q = Some (s1, q2) \<and>
        pq_ordered ths (unat (pq_size q2)) (pq_heap q2) \<and> pq_size q2 = pq_size q + 1 \<and>
        pq_threads q2 = add_mset thr (pq_threads q) \<and>
        (\<forall>k < unat (pq_size q2). \<not> thread_wakeup_is_later (ths (pq_heap q2 ! 0)) (ths (pq_heap q2 ! k)))"
proof (cases "if pq_size q = pq_max_size q then pq_grow hooks fresh s q else Some (s, q)")
  case None
  then show ?thesis by (simp add: thread_pqueue_push_def)
next
  case (Some r)
  then obtain s1 q1 where r: "(if pq_size q = pq_max_size q then pq_grow hooks fresh s q else Some (s, q)) = Some (s1, q1)"
    by (cases r) auto
  let ?n = "unat (pq_size q)"
  have n: "?n \<le> unat (pq_max_size q)" "unat (pq_max_size q) + 4 < 2 ^ 64"
    using inv by (auto simp: pq_inv_def pq_ordered_def)
  have q1: "pq_size q1 = of_nat ?n" "pq_threads q1 = pq_threads q" "pq_ordered ths ?n (pq_heap q1)"
    "?n < length (pq_heap q1)" "length (pq_heap q1) < 2 ^ 64"
  proof -
    have "pq_size q1 = pq_size q \<and> pq_threads q1 = pq_threads q \<and> pq_ordered ths ?n (pq_heap q1)"
    proof (cases "pq_size q = pq_max_size q")
      case True
      with r have "pq_grow hooks fresh s q = Some (s1, q1)" by (simp only: simp_thms if_True)
      then show ?thesis using pq_grow_inv(1,2,5) [OF inv] by blast
    next
      case False
      with r inv show ?thesis by (simp add: pq_inv_def)
    qed
    then show "pq_size q1 = of_nat ?n" "pq_threads q1 = pq_threads q" "pq_ordered ths ?n (pq_heap q1)"
      by simp_all
    have "?n < length (pq_heap q1) \<and> length (pq_heap q1) < 2 ^ 64"
    proof (cases "pq_size q = pq_max_size q")
      case True
      with r have "pq_grow hooks fresh s q = Some (s1, q1)" by (simp only: simp_thms if_True)
      then have "length (pq_heap q1) = unat (pq_max_size q) + 4" by (rule pq_grow_inv(3) [OF inv])
      with n show ?thesis by simp
    next
      case False
      then have "?n \<noteq> unat (pq_max_size q)" by (simp add: word_unat_eq_iff)
      with False r n inv show ?thesis by (simp add: pq_inv_def)
    qed
    then show "?n < length (pq_heap q1)" "length (pq_heap q1) < 2 ^ 64" by simp_all
  qed
  obtain q2 where q2: "thread_pqueue_heapify_up ths (q1\<lparr>pq_heap := (pq_heap q1)[?n := thr], pq_size := pq_size q1 + 1\<rparr>) = Some q2"
    "q2 = q1\<lparr>pq_heap := (pq_heap q1)[?n := thr], pq_size := pq_size q1 + 1\<rparr>\<lparr>pq_heap := pq_heap q2\<rparr>"
    "length (pq_heap q2) = length (pq_heap q1)" "pq_ordered ths (Suc ?n) (pq_heap q2)"
    "mset (take (Suc ?n) (pq_heap q2)) = add_mset thr (mset (take ?n (pq_heap q1)))"
    by (rule pq_insert_ok [OF q1(3,1,4,5)])
  have sz: "pq_size q2 = pq_size q + 1" using q1(1) by (subst q2(2)) simp
  have un: "unat (pq_size q2) = Suc ?n" "unat (pq_size q1) = ?n"
    using sz q1(1,4,5) by (simp_all add: unat_plus_nowrap)
  have "thread_pqueue_push hooks fresh ths thr s q = Some (s1, q2)"
    unfolding thread_pqueue_push_def using r q1(4) q2(1) un(2) by (simp add: pq_set_def)
  moreover have "pq_threads q2 = add_mset thr (pq_threads q)"
    using q2(5) q1(2) un by (simp add: pq_threads_def)
  ultimately show ?thesis
    using r q2(4) sz un pq_ordered_ancestor(1) [OF q2(4)] by auto
qed

theorem thread_pqueue_push_keeps_order_witness:
  "\<exists>q2. thread_pqueue_push None (\<lambda>_. 0) th_until 5 pq_kmem pq3 = Some (pq_kmem, q2) \<and>
     pq_ordered th_until 4 (pq_heap q2) \<and> pq_threads q2 = {#5, 10, 20, 30#}"
proof -
  have "pq_threads pq3 = {#10, 20, 30#}" by (simp add: pq_threads_def pq3_def)
  then show ?thesis
    using thread_pqueue_push_keeps_order [OF pq3_inv, where hooks = None and fresh = "\<lambda>_. 0" and s = pq_kmem and thr = 5]
    by (auto simp: pq3_def)
qed

text \<open>
  C36: \<^verbatim>\<open>thread_pqueue_pop\<close> on a queue in order returns on one or two threads, with the thread that wakes up
  first, and removes exactly it; on three or more threads it never returns.
\<close>

theorem thread_pqueue_pop_few_or_stuck:
  assumes inv: "pq_inv ths q" and ne: "pq_size q \<noteq> 0"
  shows "if pq_size q \<le> 2 then
      \<exists>q1. thread_pqueue_pop ths q = Some (q1, pq_heap q ! 0) \<and> pq_inv ths q1 \<and>
        pq_threads q = add_mset (pq_heap q ! 0) (pq_threads q1) \<and>
        (\<forall>k < unat (pq_size q). \<not> thread_wakeup_is_later (ths (pq_heap q ! 0)) (ths (pq_heap q ! k)))
    else thread_pqueue_pop ths q = None"
proof (cases "pq_size q \<le> 2")
  case False
  obtain n where n: "unat (pq_size q) = Suc n" using ne by (cases "unat (pq_size q)") (auto simp: unat_eq_zero)
  have "2 \<le> n" using False n by (simp add: word_le_nat_alt)
  then have "thread_pqueue_pop ths q = None"
    using inv unat_lt_2p64 [of "pq_size q"]
    by (intro pop_many_stuck [of _ n]) (simp_all add: pq_inv_def del: of_nat_Suc flip: n)
  with False show ?thesis by simp
next
  case True
  have ord: "pq_ordered ths (unat (pq_size q)) (pq_heap q)" using inv by (simp add: pq_inv_def)
  have cases: "pq_size q = 1 \<or> pq_size q = 2"
  proof -
    have "unat (pq_size q) \<le> 2" "unat (pq_size q) \<noteq> 0" using True ne by (simp_all add: word_le_nat_alt unat_eq_zero)
    then have "unat (pq_size q) = unat (1 :: u64) \<or> unat (pq_size q) = unat (2 :: u64)" by auto
    then show ?thesis by (simp only: word_unat_eq_iff)
  qed
  let ?l = "pq_heap q ! unat (pq_size q - 1)"
  let ?q = "q\<lparr>pq_heap := (pq_heap q)[0 := ?l], pq_size := pq_size q - 1\<rparr>"
  have len: "unat (pq_size q) \<le> length (pq_heap q)" using ord by (simp add: pq_ordered_def)
  have "thread_pqueue_pop ths q = Some (?q, pq_heap q ! 0)"
    using cases len by (auto simp: thread_pqueue_pop_def thread_pqueue_heapify_down_def Let_def pq_get_def
        pq_set_def heapify_down_loop.simps)
  moreover have "pq_inv ths ?q" using cases inv by (auto simp: pq_inv_def pq_ordered_def)
  moreover have "pq_threads q = add_mset (pq_heap q ! 0) (pq_threads ?q)"
    using cases len by (cases "pq_heap q"; cases "tl (pq_heap q)") (auto simp: pq_threads_def)
  ultimately show ?thesis using True pq_ordered_ancestor(1) [OF ord] by auto
qed

theorem thread_pqueue_pop_few_or_stuck_witness:
  "thread_pqueue_pop th_until pq3 = None \<and>
   (\<exists>q1. thread_pqueue_pop th_until (pq3\<lparr>pq_size := 2\<rparr>) = Some (q1, 10) \<and> pq_threads q1 = {#20#})"
proof -
  have 2: "pq_inv th_until (pq3\<lparr>pq_size := 2\<rparr>)"
    using pq3_inv pq_ordered_mono [of th_until 3 "pq_heap pq3" 2] by (simp add: pq_inv_def pq3_def)
  have "pq_threads (pq3\<lparr>pq_size := 2\<rparr>) = {#10, 20#}" by (simp add: pq_threads_def pq3_def)
  then show ?thesis
    using thread_pqueue_pop_few_or_stuck [OF pq3_inv] thread_pqueue_pop_few_or_stuck [OF 2]
    by (auto simp: pq3_def)
qed

text \<open>
  Growing the array of a queue that has one: \<^verbatim>\<open>thread_pqueue_push\<close> on a full queue either does not
  return or returns with the heap lock held.
\<close>

lemma thread_pqueue_push_full_blocks_heap:
  assumes "pq_size q = pq_max_size q" "pq_ptr q \<noteq> NULL"
  shows "case thread_pqueue_push hooks fresh ths thr s q of None \<Rightarrow> True
    | Some (s1, q1) \<Rightarrow> kfree p s1 = None \<and> kmalloc hooks z s1 = None"
proof -
  have "kfree p s1 = None \<and> kmalloc hooks z s1 = None" if "krealloc hooks (pq_ptr q) n s = Some (s1, r)" for s1 r n
    using krealloc_leaves_lock [OF that assms(2)] by (simp add: kfree_locked kmalloc_locked)
  then show ?thesis
    using assms(1) by (auto simp: thread_pqueue_push_def pq_grow_def Let_def split: option.splits bind_splits)
qed

lemma thread_pqueue_push_full_blocks_heap_witness:
  "case thread_pqueue_push None (\<lambda>_. 0) th_until 5 pq_kmem (pq3\<lparr>pq_max_size := 3\<rparr>) of None \<Rightarrow> True
    | Some (s1, q1) \<Rightarrow> kfree 0x300000 s1 = None \<and> kmalloc None 8 s1 = None"
  by (rule thread_pqueue_push_full_blocks_heap) (simp_all add: pq3_def)

end
