(* ===== verification/Scheduler.thy ===== *)
theory Scheduler
  imports Thread_tree Thread_pqueue
begin

text \<open>
  The scheduler (\<^verbatim>\<open>modules/mtask/scheduler.c\<close>): one tree of runnable threads and one queue of sleeping
  threads per processor, and a doubly linked list of the trees from the fewest to the most threads.
  \<open>sched\<close> holds the globals of the file. \<^verbatim>\<open>cpu_trees + i\<close> is the index \<open>i\<close>; list nodes, tree nodes and
  threads are behind pointers, in stores. The kernel heap is the one of \<^theory_text>\<open>Kernmem\<close>: every \<^verbatim>\<open>kmalloc\<close> and
  \<^verbatim>\<open>kfree\<close> of the code runs on it.

  The value of the HPET counter and the number of the processor are arguments, since they come from
  devices. Debug output is left out, except that \<^verbatim>\<open>print_cpu_tree_list\<close> walks the list and so returns
  only when the list ends. \<^const>\<open>None\<close> is a fault or a call that does not return.
\<close>

section \<open>State\<close>

definition scheduler_latency :: u64 where "scheduler_latency = 48"
definition min_granularity :: u64 where "min_granularity = 10"
definition default_weight :: u64 where "default_weight = 1024"
definition task_give_delay :: u64 where "task_give_delay = 1000000 * 500"
definition task_give_thres :: u64 where "task_give_thres = 15"
definition task_give_thres_min :: u64 where "task_give_thres_min = 1"
definition SCHEDULER_THREAD_ALIGN :: u64 where "SCHEDULER_THREAD_ALIGN = 16"
definition MTASK_CORE_FLAG_BSP :: u32 where "MTASK_CORE_FLAG_BSP = 1"

record thread_tree =
  tt_root :: addr
  thread_cnt :: u64
  time_slice :: u64
  cpu_num :: u8
  last_give_time :: u64
  list_ptr :: addr
  tt_lock :: u32

record cpu_tree_lnode =
  ln_tree :: nat
  ln_next :: addr
  ln_prev :: addr

record core_info_t =
  jmp_loc :: addr
  no_code_fallback_jmp :: addr
  ci_flags :: u32

record sched =
  tree_nodes :: "addr \<Rightarrow> tt_body tnode option"
  threads :: "addr \<Rightarrow> thread"
  cpu_trees :: "thread_tree list"
  lnodes :: "addr \<Rightarrow> cpu_tree_lnode option"
  cpu_tree_list :: addr
  cpu_tree_list_lock :: u32
  cpu_sleep_pqueue_list :: "thread_pqueue list"
  scheduler_prev_threads :: "addr list"
  timer_prev_val :: "u64 list"
  timer_res_ns :: u64
  core_info :: "core_info_t list"
  endless_loop :: addr
  sheap :: kmem

definition get_tree :: "nat \<Rightarrow> sched \<Rightarrow> thread_tree option" where
  "get_tree i s = (if i < length (cpu_trees s) then Some (cpu_trees s ! i) else None)"

definition upd_tree :: "nat \<Rightarrow> (thread_tree \<Rightarrow> thread_tree) \<Rightarrow> sched \<Rightarrow> sched option" where
  "upd_tree i f s =
     (if i < length (cpu_trees s) then Some (s\<lparr>cpu_trees := (cpu_trees s)[i := f (cpu_trees s ! i)]\<rparr>) else None)"

definition get_lnode :: "addr \<Rightarrow> sched \<Rightarrow> cpu_tree_lnode option" where
  "get_lnode p s = (if p = NULL then None else lnodes s p)"

definition upd_lnode :: "addr \<Rightarrow> (cpu_tree_lnode \<Rightarrow> cpu_tree_lnode) \<Rightarrow> sched \<Rightarrow> sched option" where
  "upd_lnode p f s = do { n \<leftarrow> get_lnode p s; Some (s\<lparr>lnodes := (lnodes s)(p \<mapsto> f n)\<rparr>) }"

definition upd_thread :: "addr \<Rightarrow> (thread \<Rightarrow> thread) \<Rightarrow> sched \<Rightarrow> sched" where
  "upd_thread p f s = s\<lparr>threads := (threads s)(p := f (threads s p))\<rparr>"

text \<open>The tree functions of \<^theory_text>\<open>Thread_tree\<close> on the tree of processor \<open>i\<close>.\<close>

definition tree_view :: "nat \<Rightarrow> sched \<Rightarrow> tt_st option" where
  "tree_view i s =
     do { T \<leftarrow> get_tree i s; Some \<lparr>t_nodes = tree_nodes s, t_root = tt_root T, tt_threads = threads s\<rparr> }"

definition put_tree :: "nat \<Rightarrow> tt_st \<Rightarrow> sched \<Rightarrow> sched option" where
  "put_tree i t s =
     upd_tree i (tt_root_update (\<lambda>_. t_root t)) (s\<lparr>tree_nodes := t_nodes t, threads := tt_threads t\<rparr>)"

definition tree_insert :: "nat \<Rightarrow> addr \<Rightarrow> sched \<Rightarrow> sched option" where
  "tree_insert i n s = do { t \<leftarrow> tree_view i s; t1 \<leftarrow> thread_tree_insert n t; put_tree i t1 s }"

definition tree_delete :: "nat \<Rightarrow> addr \<Rightarrow> sched \<Rightarrow> (sched \<times> addr) option" where
  "tree_delete i n s =
     do { t \<leftarrow> tree_view i s; (t1, v) \<leftarrow> thread_tree_delete n t; s1 \<leftarrow> put_tree i t1 s; Some (s1, v) }"

definition kmalloc_s :: "unit map_hooks \<Rightarrow> u64 \<Rightarrow> sched \<Rightarrow> (sched \<times> addr) option" where
  "kmalloc_s hooks z s = do { (h, p) \<leftarrow> kmalloc hooks z (sheap s); Some (s\<lparr>sheap := h\<rparr>, p) }"

definition kfree_s :: "addr \<Rightarrow> sched \<Rightarrow> sched option" where
  "kfree_s p s = do { h \<leftarrow> kfree p (sheap s); Some (s\<lparr>sheap := h\<rparr>) }"

definition lock_tree :: "nat \<Rightarrow> sched \<Rightarrow> sched option" where
  "lock_tree i s =
     do { T \<leftarrow> get_tree i s; w \<leftarrow> spinlock_lock (tt_lock T); upd_tree i (tt_lock_update (\<lambda>_. w)) s }"

definition unlock_tree :: "nat \<Rightarrow> sched \<Rightarrow> sched option" where
  "unlock_tree i s = upd_tree i (tt_lock_update spinlock_unlock) s"

section \<open>The list of trees\<close>

partial_function (option) print_cpu_tree_list_from :: "addr \<Rightarrow> sched \<Rightarrow> unit option" where
  "print_cpu_tree_list_from cur s =
     (if cur = NULL then Some ()
      else do {
        n \<leftarrow> get_lnode cur s;
        T \<leftarrow> get_tree (ln_tree n) s;
        print_cpu_tree_list_from (ln_next n) s
      })"

declare print_cpu_tree_list_from.simps [code]

definition print_cpu_tree_list :: "sched \<Rightarrow> unit option" where
  "print_cpu_tree_list s = print_cpu_tree_list_from (cpu_tree_list s) s"

definition cnt_at :: "addr \<Rightarrow> sched \<Rightarrow> u64 option" where
  "cnt_at p s = do { n \<leftarrow> get_lnode p s; T \<leftarrow> get_tree (ln_tree n) s; Some (thread_cnt T) }"

partial_function (option) move_smallest_find :: "addr \<Rightarrow> addr \<Rightarrow> sched \<Rightarrow> (addr \<times> addr) option" where
  "move_smallest_find prev cur s =
     (if cur = NULL then Some (prev, cur)
      else do {
        c \<leftarrow> cnt_at (cpu_tree_list s) s;
        d \<leftarrow> cnt_at cur s;
        n \<leftarrow> get_lnode cur s;
        if c > d then move_smallest_find cur (ln_next n) s else Some (prev, cur)
      })"

declare move_smallest_find.simps [code]

definition cpu_tree_list_move_smallest :: "sched \<Rightarrow> sched option" where
  "cpu_tree_list_move_smallest s0 =
     do {
       w \<leftarrow> spinlock_lock (cpu_tree_list_lock s0);
       let s = s0\<lparr>cpu_tree_list_lock := w\<rparr>;
       let hd = cpu_tree_list s;
       nh \<leftarrow> get_lnode hd s;
       let next_head = ln_next nh;
       s3 \<leftarrow> (if next_head \<noteq> NULL then do {
               n0 \<leftarrow> get_lnode next_head s;
               (prev, cur) \<leftarrow> move_smallest_find (ln_prev n0) next_head s;
               if cur = NULL then do {
                 s1 \<leftarrow> upd_lnode prev (ln_next_update (\<lambda>_. hd)) s;
                 s2 \<leftarrow> upd_lnode hd (\<lambda>n. n\<lparr>ln_next := NULL, ln_prev := prev\<rparr>) s1;
                 Some (s2\<lparr>cpu_tree_list := next_head\<rparr>)
               } else do {
                 nc \<leftarrow> get_lnode cur s;
                 if ln_prev nc \<noteq> hd then do {
                   s1 \<leftarrow> upd_lnode (ln_prev nc) (ln_next_update (\<lambda>_. hd)) s;
                   s2 \<leftarrow> upd_lnode hd (ln_next_update (\<lambda>_. cur)) s1;
                   nc2 \<leftarrow> get_lnode cur s2;
                   s3 \<leftarrow> upd_lnode hd (ln_prev_update (\<lambda>_. ln_prev nc2)) s2;
                   s4 \<leftarrow> upd_lnode cur (ln_prev_update (\<lambda>_. hd)) s3;
                   upd_lnode next_head (ln_prev_update (\<lambda>_. NULL)) (s4\<lparr>cpu_tree_list := next_head\<rparr>)
                 } else Some s
               }
             } else Some s);
       Some (s3\<lparr>cpu_tree_list_lock := spinlock_unlock (cpu_tree_list_lock s3)\<rparr>)
     }"

partial_function (option) move_left_find :: "u64 \<Rightarrow> addr \<Rightarrow> sched \<Rightarrow> addr option" where
  "move_left_find c cur s =
     (if cur = NULL then Some cur
      else do {
        d \<leftarrow> cnt_at cur s;
        n \<leftarrow> get_lnode cur s;
        if c < d then move_left_find c (ln_prev n) s else Some cur
      })"

declare move_left_find.simps [code]

text \<open>\<^verbatim>\<open>tree->list_ptr->prev->next = tree->list_ptr->next\<close> and its counterpart.\<close>

definition unlink_lnode :: "addr \<Rightarrow> sched \<Rightarrow> sched option" where
  "unlink_lnode p s =
     do {
       n \<leftarrow> get_lnode p s;
       s1 \<leftarrow> upd_lnode (ln_prev n) (ln_next_update (\<lambda>_. ln_next n)) s;
       n1 \<leftarrow> get_lnode p s1;
       if ln_next n1 \<noteq> NULL then upd_lnode (ln_next n1) (ln_prev_update (\<lambda>_. ln_prev n1)) s1 else Some s1
     }"

definition cpu_tree_list_move_left :: "nat \<Rightarrow> sched \<Rightarrow> sched option" where
  "cpu_tree_list_move_left i s0 =
     do {
       w \<leftarrow> spinlock_lock (cpu_tree_list_lock s0);
       let s = s0\<lparr>cpu_tree_list_lock := w\<rparr>;
       T \<leftarrow> get_tree i s;
       let p = list_ptr T;
       np \<leftarrow> get_lnode p s;
       s5 \<leftarrow> (if ln_prev np \<noteq> NULL then do {
               cur \<leftarrow> move_left_find (thread_cnt T) (ln_prev np) s;
               if cur = NULL then do {
                 s1 \<leftarrow> unlink_lnode p s;
                 s2 \<leftarrow> upd_lnode p (\<lambda>n. n\<lparr>ln_next := cpu_tree_list s1, ln_prev := NULL\<rparr>) s1;
                 s3 \<leftarrow> upd_lnode (cpu_tree_list s2) (ln_prev_update (\<lambda>_. p)) s2;
                 Some (s3\<lparr>cpu_tree_list := p\<rparr>)
               } else do {
                 nc \<leftarrow> get_lnode cur s;
                 if ln_prev nc \<noteq> cpu_tree_list s then do {
                   s1 \<leftarrow> unlink_lnode p s;
                   nc1 \<leftarrow> get_lnode cur s1;
                   s2 \<leftarrow> upd_lnode p (\<lambda>n. n\<lparr>ln_next := ln_next nc1, ln_prev := cur\<rparr>) s1;
                   nc2 \<leftarrow> get_lnode cur s2;
                   s3 \<leftarrow> (if ln_next nc2 \<noteq> NULL then upd_lnode (ln_next nc2) (ln_prev_update (\<lambda>_. p)) s2 else Some s2);
                   upd_lnode cur (ln_next_update (\<lambda>_. p)) s3
                 } else Some s
               }
             } else Some s);
       Some (s5\<lparr>cpu_tree_list_lock := spinlock_unlock (cpu_tree_list_lock s5)\<rparr>)
     }"

section \<open>Adding and removing threads\<close>

definition get_min_vruntime :: "nat \<Rightarrow> sched \<Rightarrow> u64 option" where
  "get_min_vruntime i s =
     do {
       t \<leftarrow> tree_view i s;
       if t_root t \<noteq> NULL then do {
         p \<leftarrow> rb_leftmost (t_root t) t;
         n \<leftarrow> deref t p;
         Some (vruntime (threads s (tn_thr (n_body n))))
       } else Some 0
     }"

definition slice_of :: "u64 \<Rightarrow> u64" where
  "slice_of c =
     (let d = (if c \<noteq> 0 then scheduler_latency div c else 0)
      in (if d < min_granularity then min_granularity else d) * 1000000)"

definition thread_tree_add :: "unit map_hooks \<Rightarrow> nat \<Rightarrow> addr \<Rightarrow> sched \<Rightarrow> sched option" where
  "thread_tree_add hooks i th s =
     do {
       min_vruntime \<leftarrow> get_min_vruntime i s;
       let s1 = upd_thread th (vruntime_update (\<lambda>_. min_vruntime)) s;
       s2 \<leftarrow> upd_tree i (thread_cnt_update (\<lambda>c. c + 1)) s1;
       T \<leftarrow> get_tree i s2;
       if thread_cnt T = 0 then None
       else do {
         s3 \<leftarrow> upd_tree i (time_slice_update (\<lambda>_. slice_of (thread_cnt T))) s2;
         (s4, n) \<leftarrow> kmalloc_s hooks 40 s3;
         let s5 = s4\<lparr>tree_nodes := (tree_nodes s4)(n \<mapsto> mkn False NULL NULL NULL \<lparr>tn_thr = th, tn_clr = False\<rparr>)\<rparr>;
         let s6 = upd_thread th (\<lambda>t. t\<lparr>th_hndl := n, th_tree := i\<rparr>) s5;
         tree_insert i n s6
       }
     }"

definition thread_tree_remove :: "addr \<Rightarrow> sched \<Rightarrow> sched option" where
  "thread_tree_remove th s =
     do {
       let i = th_tree (threads s th);
       s1 \<leftarrow> upd_tree i (thread_cnt_update (\<lambda>c. c - 1)) s;
       T \<leftarrow> get_tree i s1;
       s2 \<leftarrow> upd_tree i (time_slice_update (\<lambda>_. slice_of (thread_cnt T))) s1;
       (s3, n) \<leftarrow> tree_delete i (th_hndl (threads s2 th)) s2;
       kfree_s n s3
     }"

definition ap_jump :: "nat \<Rightarrow> addr \<Rightarrow> sched \<Rightarrow> sched \<times> int" where
  "ap_jump ap_idx loc s =
     (if ap_idx \<ge> length (core_info s) then (s, - 2)
      else (s\<lparr>core_info := (core_info s)[ap_idx := (core_info s ! ap_idx)\<lparr>jmp_loc := loc\<rparr>]\<rparr>, 0))"

definition start_core :: "nat \<Rightarrow> sched \<Rightarrow> sched option" where
  "start_core i s =
     do {
       T \<leftarrow> get_tree i s;
       let core_i = unat (cpu_num T);
       if core_i < length (core_info s) then
         let c = core_info s ! core_i in
         Some (if ci_flags c AND MTASK_CORE_FLAG_BSP = 0 \<and> jmp_loc c = NULL
           then fst (ap_jump core_i (endless_loop s) s) else s)
       else None
     }"

definition scheduler_queue_thread :: "unit map_hooks \<Rightarrow> addr \<Rightarrow> sched \<Rightarrow> sched option" where
  "scheduler_queue_thread hooks th s =
     do {
       nh \<leftarrow> get_lnode (cpu_tree_list s) s;
       let i = ln_tree nh;
       s1 \<leftarrow> lock_tree i s;
       m \<leftarrow> get_min_vruntime i s1;
       s2 \<leftarrow> thread_tree_add hooks i th (upd_thread th (vruntime_update (\<lambda>_. m)) s1);
       s3 \<leftarrow> unlock_tree i s2;
       s4 \<leftarrow> cpu_tree_list_move_smallest s3;
       s5 \<leftarrow> start_core i s4;
       print_cpu_tree_list s5;
       Some s5
     }"

definition scheduler_dequeue_thread :: "addr \<Rightarrow> sched \<Rightarrow> sched option" where
  "scheduler_dequeue_thread th s =
     do {
       s1 \<leftarrow> lock_tree (th_tree (threads s th)) s;
       s2 \<leftarrow> thread_tree_remove th s1;
       s3 \<leftarrow> unlock_tree (th_tree (threads s2 th)) s2;
       s4 \<leftarrow> cpu_tree_list_move_left (th_tree (threads s3 th)) s3;
       print_cpu_tree_list s4;
       Some s4
     }"

definition get_pq :: "nat \<Rightarrow> sched \<Rightarrow> thread_pqueue option" where
  "get_pq i s = (if i < length (cpu_sleep_pqueue_list s) then Some (cpu_sleep_pqueue_list s ! i) else None)"

definition put_pq :: "nat \<Rightarrow> thread_pqueue \<Rightarrow> sched \<Rightarrow> sched" where
  "put_pq i q s = s\<lparr>cpu_sleep_pqueue_list := (cpu_sleep_pqueue_list s)[i := q]\<rparr>"

definition scheduler_sleep_thread ::
  "unit map_hooks \<Rightarrow> (nat \<Rightarrow> addr) \<Rightarrow> u64 \<Rightarrow> addr \<Rightarrow> u64 \<Rightarrow> sched \<Rightarrow> sched option" where
  "scheduler_sleep_thread hooks fresh timer_val th time_ns s =
     (if timer_res_ns s = 0 then None
      else do {
        let t = time_ns div timer_res_ns s;
        let s1 = upd_thread th (\<lambda>x. x\<lparr>th_flags := th_flags x OR THREAD_FLAG_SLEEPING,
               sleep_overflow := (if - 1 - t < timer_val then 1 else 0), sleep_until := timer_val + t\<rparr>) s;
        s2 \<leftarrow> scheduler_dequeue_thread th s1;
        T \<leftarrow> get_tree (th_tree (threads s2 th)) s2;
        let i = unat (cpu_num T);
        q \<leftarrow> get_pq i s2;
        w \<leftarrow> spinlock_lock (pq_lock q);
        (h, q1) \<leftarrow> thread_pqueue_push hooks fresh (threads s2) th (sheap s2) (q\<lparr>pq_lock := w\<rparr>);
        let q2 = q1\<lparr>pq_lock := spinlock_unlock (pq_lock q1)\<rparr>;
        top \<leftarrow> pq_get (pq_heap q2) 0;
        Some (put_pq i q2 (s2\<lparr>sheap := h\<rparr>))
      })"

section \<open>The timer interrupt\<close>

text \<open>\<^verbatim>\<open>(uint64_t)-1 - prev_val + timer_val\<close> when the counter has wrapped around.\<close>

definition time_since :: "u64 \<Rightarrow> u64 \<Rightarrow> u64" where
  "time_since prev_val timer_val =
     (if prev_val > timer_val then - 1 - prev_val + timer_val else timer_val - prev_val)"

partial_function (option) wake_sleepers :: "unit map_hooks \<Rightarrow> nat \<Rightarrow> u64 \<Rightarrow> sched \<Rightarrow> sched option" where
  "wake_sleepers hooks i timer_val s =
     do {
       q \<leftarrow> get_pq i s;
       if pq_size q = 0 then Some s
       else do {
         th \<leftarrow> pq_get (pq_heap q) 0;
         if \<not> thread_should_wakeup_now (threads s th) timer_val then Some s
         else do {
           (q1, _) \<leftarrow> thread_pqueue_pop (threads s) q;
           s1 \<leftarrow> scheduler_queue_thread hooks th (put_pq i q1 s);
           wake_sleepers hooks i timer_val s1
         }
       }
     }"

declare wake_sleepers.simps [code]

fun give_tasks :: "unit map_hooks \<Rightarrow> nat \<Rightarrow> nat \<Rightarrow> sched \<Rightarrow> sched option" where
  "give_tasks hooks i 0 s = Some s"
| "give_tasks hooks i (Suc give_amt) s =
     do {
       t \<leftarrow> tree_view i s;
       n \<leftarrow> deref t (t_root t);
       let th = tn_thr (n_body n);
       s1 \<leftarrow> thread_tree_remove th s;
       s2 \<leftarrow> cpu_tree_list_move_left i s1;
       s3 \<leftarrow> scheduler_queue_thread hooks th s2;
       give_tasks hooks i give_amt s3
     }"

definition balance_tasks :: "unit map_hooks \<Rightarrow> nat \<Rightarrow> u64 \<Rightarrow> sched \<Rightarrow> sched option" where
  "balance_tasks hooks i timer_val s =
     do {
       T \<leftarrow> get_tree i s;
       if time_since (last_give_time T) timer_val \<ge> task_give_delay then do {
         min_count \<leftarrow> cnt_at (cpu_tree_list s) s;
         let task_count_diff = thread_cnt T - min_count;
         let amt = thread_cnt T * task_give_thres div 100;
         let thres_amt = (if amt < task_give_thres_min then task_give_thres_min else amt);
         s1 \<leftarrow> (if task_count_diff \<ge> thres_amt
               then give_tasks hooks i (unat (task_count_diff div 2)) s else Some s);
         upd_tree i (last_give_time_update (\<lambda>_. timer_val)) s1
       } else Some s
     }"

text \<open>The node with the least \<^verbatim>\<open>vruntime\<close> is charged, copied, taken out and inserted again.\<close>

definition run_next :: "nat \<Rightarrow> u64 \<Rightarrow> sched \<Rightarrow> (sched \<times> addr) option" where
  "run_next i time_passed s =
     do {
       t \<leftarrow> tree_view i s;
       root \<leftarrow> rb_leftmost (t_root t) t;
       root_cpy \<leftarrow> deref t root;
       let th = tn_thr (n_body root_cpy);
       if weight (threads s th) = 0 then None
       else do {
         let s1 = upd_thread th (\<lambda>x. x\<lparr>vruntime := vruntime x + time_passed * timer_res_ns s * default_weight div weight x\<rparr>) s;
         (s2, root_addr) \<leftarrow> tree_delete i root s1;
         if root_addr = NULL then None
         else do {
           let s3 = s2\<lparr>tree_nodes := (tree_nodes s2)(root_addr \<mapsto> root_cpy)\<rparr>;
           s4 \<leftarrow> tree_insert i root_addr s3;
           n \<leftarrow> tree_nodes s4 root_addr;
           Some (s4, tn_thr (n_body n))
         }
       }
     }"

definition scheduler_advance_thread_queue ::
  "unit map_hooks \<Rightarrow> nat \<Rightarrow> u64 \<Rightarrow> sched \<Rightarrow> (sched \<times> addr) option" where
  "scheduler_advance_thread_queue hooks lapic_id timer_val s =
     do {
       prev_val \<leftarrow> (if lapic_id < length (timer_prev_val s) then Some (timer_prev_val s ! lapic_id) else None);
       q \<leftarrow> get_pq lapic_id s;
       let time_passed = time_since prev_val timer_val;
       ths \<leftarrow> (if prev_val > timer_val then thread_pqueue_reset_overflow q (threads s) else Some (threads s));
       s1 \<leftarrow> wake_sleepers hooks lapic_id timer_val (s\<lparr>threads := ths\<rparr>);
       s2 \<leftarrow> lock_tree lapic_id s1;
       s3 \<leftarrow> balance_tasks hooks lapic_id timer_val s2;
       T \<leftarrow> get_tree lapic_id s3;
       if time_passed < time_slice T then do {
         s4 \<leftarrow> unlock_tree lapic_id (s3\<lparr>scheduler_prev_threads := (scheduler_prev_threads s3)[lapic_id := NULL]\<rparr>);
         Some (s4, NULL)
       } else do {
         let s4 = s3\<lparr>timer_prev_val := (timer_prev_val s3)[lapic_id := timer_val]\<rparr>;
         if tt_root T = NULL then do {
           s5 \<leftarrow> unlock_tree lapic_id s4;
           Some (s5, NULL)
         } else do {
           (s5, th) \<leftarrow> run_next lapic_id time_passed s4;
           s6 \<leftarrow> unlock_tree lapic_id s5;
           Some (s6\<lparr>scheduler_prev_threads := (scheduler_prev_threads s6)[lapic_id := th]\<rparr>, th)
         }
       }
     }"

section \<open>Initialisation\<close>

text \<open>\<open>raw_tree\<close>, \<open>raw_pq\<close> and \<open>raw_val\<close> stand for what freshly allocated memory holds.\<close>

fun init_trees :: "unit map_hooks \<Rightarrow> nat list \<Rightarrow> sched \<Rightarrow> sched option" where
  "init_trees hooks [] s = Some s"
| "init_trees hooks (i # is) s =
     do {
       s1 \<leftarrow> upd_tree i (\<lambda>t. t\<lparr>thread_cnt := 0, time_slice := 0, tt_root := NULL, cpu_num := of_nat i,
              tt_lock := spinlock_init (tt_lock t)\<rparr>) s;
       (s2, p) \<leftarrow> kmalloc_s hooks 24 s1;
       let s3 = s2\<lparr>lnodes := (lnodes s2)(p \<mapsto> \<lparr>ln_tree = i, ln_next = cpu_tree_list s2, ln_prev = NULL\<rparr>)\<rparr>;
       s4 \<leftarrow> (if cpu_tree_list s3 \<noteq> NULL
             then upd_lnode (cpu_tree_list s3) (ln_prev_update (\<lambda>_. p)) s3 else Some s3);
       s5 \<leftarrow> upd_tree i (list_ptr_update (\<lambda>_. p)) (s4\<lparr>cpu_tree_list := p\<rparr>);
       q \<leftarrow> get_pq i s5;
       init_trees hooks is (put_pq i (thread_pqueue_init q) s5)
     }"

definition scheduler_init ::
  "unit map_hooks \<Rightarrow> thread_tree \<Rightarrow> thread_pqueue \<Rightarrow> u64 \<Rightarrow> u8 \<Rightarrow> u64 \<Rightarrow> sched \<Rightarrow> sched option" where
  "scheduler_init hooks raw_tree raw_pq raw_val core_num clk_period s =
     do {
       let n = unat core_num;
       (s1, _) \<leftarrow> kmalloc_s hooks (56 * of_nat n) s;
       (s2, _) \<leftarrow> kmalloc_s hooks (32 * of_nat n) (s1\<lparr>cpu_trees := replicate n raw_tree\<rparr>);
       s3 \<leftarrow> init_trees hooks [0..<n] (s2\<lparr>cpu_sleep_pqueue_list := replicate n raw_pq, cpu_tree_list := NULL\<rparr>);
       (h, _) \<leftarrow> kmalloc_align hooks (8 * of_nat n) SCHEDULER_THREAD_ALIGN (sheap s3);
       let s4 = s3\<lparr>cpu_tree_list_lock := spinlock_init (cpu_tree_list_lock s3), sheap := h,
                  scheduler_prev_threads := replicate n NULL,
                  timer_res_ns := (if clk_period < 1000000 then clk_period else clk_period div 1000000)\<rparr>;
       (s5, _) \<leftarrow> kmalloc_s hooks (8 * of_nat n) s4;
       Some (s5\<lparr>timer_prev_val := replicate n raw_val\<rparr>)
     }"

definition sync_timers :: "u64 \<Rightarrow> sched \<Rightarrow> sched option" where
  "sync_timers timer_val s =
     (let n = length (cpu_trees s) in
      if n = 0 then None
      else
        let d = task_give_delay div of_nat n;
            spliced_task_give_delay = (if d < scheduler_latency * 10 then scheduler_latency * 10 else d)
        in Some (s\<lparr>timer_prev_val := replicate n timer_val,
             cpu_trees := map (\<lambda>i. (cpu_trees s ! i)\<lparr>last_give_time :=
               timer_val - spliced_task_give_delay * of_nat (i + 1)\<rparr>) [0..<n]\<rparr>))"

definition toggle_sts :: "bool \<Rightarrow> u64 \<Rightarrow> sched \<Rightarrow> (sched \<times> bool) option" where
  "toggle_sts enable timer_val s =
     do { s1 \<leftarrow> (if enable then sync_timers timer_val s else Some s); Some (s1, enable) }"

section \<open>Doubly linked segments\<close>

fun dseg :: "(addr \<Rightarrow> cpu_tree_lnode option) \<Rightarrow> addr \<Rightarrow> addr list \<Rightarrow> addr \<Rightarrow> bool" where
  "dseg f pv [] nx \<longleftrightarrow> True"
| "dseg f pv (x # xs) nx \<longleftrightarrow>
     x \<noteq> NULL \<and> (\<exists>n. f x = Some n \<and> ln_prev n = pv \<and> ln_next n = hd (xs @ [nx])) \<and> dseg f x xs nx"

definition setn :: "addr \<Rightarrow> addr \<Rightarrow> (addr \<Rightarrow> cpu_tree_lnode option) \<Rightarrow> addr \<Rightarrow> cpu_tree_lnode option" where
  "setn p v f = f(p := map_option (ln_next_update (\<lambda>_. v)) (f p))"

definition setp :: "addr \<Rightarrow> addr \<Rightarrow> (addr \<Rightarrow> cpu_tree_lnode option) \<Rightarrow> addr \<Rightarrow> cpu_tree_lnode option" where
  "setp p v f = f(p := map_option (ln_prev_update (\<lambda>_. v)) (f p))"

lemma dseg_append:
  "dseg f pv (xs @ ys) nx \<longleftrightarrow> dseg f pv xs (hd (ys @ [nx])) \<and> dseg f (last (pv # xs)) ys nx"
proof (induction xs arbitrary: pv)
  case (Cons x xs)
  have "hd ((xs @ ys) @ [nx]) = hd (xs @ [hd (ys @ [nx])])" by (cases xs) auto
  with Cons show ?case by auto
qed simp

lemma dseg_frame [simp]:
  "p \<notin> set xs \<Longrightarrow> dseg (setn p v f) pv xs nx = dseg f pv xs nx"
  "p \<notin> set xs \<Longrightarrow> dseg (setp p v f) pv xs nx = dseg f pv xs nx"
  by (induction xs arbitrary: pv) (auto simp: setn_def setp_def)

lemma dseg_defined: "dseg f pv xs nx \<Longrightarrow> x \<in> set xs \<Longrightarrow> x \<noteq> NULL \<and> (\<exists>n. f x = Some n)"
  by (induction xs arbitrary: pv) auto

lemma dseg_set_last:
  assumes "dseg f pv (zs @ [p]) nx" "distinct (zs @ [p])"
  shows "dseg (setn p v f) pv (zs @ [p]) v"
  using assms by (auto simp: dseg_append) (auto simp: setn_def)

lemma dseg_set_first:
  assumes "dseg f pv (y # ys) nx" "distinct (y # ys)"
  shows "dseg (setp y v f) v (y # ys) nx"
  using assms by auto (auto simp: setp_def)

definition cnt_of :: "sched \<Rightarrow> addr \<Rightarrow> u64" where
  "cnt_of s p = thread_cnt (cpu_trees s ! ln_tree (the (lnodes s p)))"

definition list_inv :: "addr list \<Rightarrow> sched \<Rightarrow> bool" where
  "list_inv ps s \<longleftrightarrow>
     distinct ps \<and> ps \<noteq> [] \<and> cpu_tree_list s = hd ps \<and>
     (\<forall>p \<in> set ps. p \<noteq> NULL \<and> (\<exists>n. lnodes s p = Some n \<and> ln_tree n < length (cpu_trees s)))"

lemma cnt_at_inv: "list_inv ps s \<Longrightarrow> p \<in> set ps \<Longrightarrow> cnt_at p s = Some (cnt_of s p)"
  by (auto simp: list_inv_def cnt_at_def get_lnode_def get_tree_def cnt_of_def)

lemma upd_lnode_next:
  assumes "p \<noteq> NULL" "lnodes s p = Some n"
  shows "upd_lnode p (ln_next_update (\<lambda>_. v)) s = Some (s\<lparr>lnodes := setn p v (lnodes s)\<rparr>)"
    and "upd_lnode p (ln_prev_update (\<lambda>_. v)) s = Some (s\<lparr>lnodes := setp p v (lnodes s)\<rparr>)"
  using assms by (simp_all add: upd_lnode_def get_lnode_def setn_def setp_def)

lemma set_tree [simp]:
  "map_option ln_tree (setn p v f q) = map_option ln_tree (f q)"
  "map_option ln_tree (setp p v f q) = map_option ln_tree (f q)"
  by (simp_all add: setn_def setp_def option.map_comp comp_def)

lemma move_smallest_find_ok:
  assumes "dseg (lnodes s) pv xs NULL" "list_inv ps s" "set xs \<subseteq> set ps"
  shows "move_smallest_find pr (hd (xs @ [NULL])) s =
    Some (last (pr # takeWhile (\<lambda>x. cnt_of s x < cnt_of s (hd ps)) xs),
          hd (dropWhile (\<lambda>x. cnt_of s x < cnt_of s (hd ps)) xs @ [NULL]))"
  using assms
proof (induction xs arbitrary: pv pr)
  case Nil
  then show ?case by (simp add: move_smallest_find.simps)
next
  case (Cons x xs)
  have "hd ps \<in> set ps" "cpu_tree_list s = hd ps" using Cons.prems(2) by (auto simp: list_inv_def)
  then have c: "cnt_at (cpu_tree_list s) s = Some (cnt_of s (hd ps))" "cnt_at x s = Some (cnt_of s x)"
    using Cons.prems by (auto intro: cnt_at_inv)
  obtain n where n: "get_lnode x s = Some n" "ln_next n = hd (xs @ [NULL])" "x \<noteq> NULL"
    using Cons.prems(1) by (auto simp: get_lnode_def)
  have IH: "move_smallest_find x (hd (xs @ [NULL])) s =
    Some (last (x # takeWhile (\<lambda>x. cnt_of s x < cnt_of s (hd ps)) xs),
          hd (dropWhile (\<lambda>x. cnt_of s x < cnt_of s (hd ps)) xs @ [NULL]))"
    using Cons.prems by (intro Cons.IH) auto
  show ?case using c n IH by (subst move_smallest_find.simps) simp
qed


lemma move_to_end_dseg:
  assumes "dseg f pv0 (h # zs @ [p]) NULL" "distinct (h # zs @ [p])"
  shows "dseg (setp h p (setn h NULL (setn p h f))) h (zs @ [p, h]) NULL"
proof -
  have "dseg f h (zs @ [p]) NULL" using assms(1) by simp
  then have "dseg (setn p h f) h (zs @ [p]) h" using assms(2) by (intro dseg_set_last) auto
  then have 1: "dseg (setp h p (setn h NULL (setn p h f))) h (zs @ [p]) h" using assms(2) by simp
  have "dseg f pv0 [h] (hd (zs @ [p]))" using assms(1) by (cases zs) auto
  then have "dseg (setn p h f) pv0 ([] @ [h]) (hd (zs @ [p]))" using assms(2) by (auto simp del: dseg.simps)
  then have "dseg (setn h NULL (setn p h f)) pv0 ([] @ [h]) NULL" by (rule dseg_set_last) simp
  then have "dseg (setp h p (setn h NULL (setn p h f))) p [h] NULL"
    by (intro dseg_set_first [of _ pv0]) simp_all
  with 1 have "dseg (setp h p (setn h NULL (setn p h f))) h ((zs @ [p]) @ [h]) NULL"
    by (subst dseg_append) simp
  then show ?thesis by simp
qed

lemma move_inside_dseg:
  assumes "dseg f pv0 (h # (y # ys) @ c # cs) NULL" "distinct (h # (y # ys) @ c # cs)"
  defines "p \<equiv> last (y # ys)"
  shows "dseg (setp y NULL (setp c h (setp h p (setn h c (setn p h f))))) NULL ((y # ys) @ h # c # cs) NULL"
proof -
  let ?g = "setp c h (setp h p (setn h c (setn p h f)))"
  define zs where "zs = butlast (y # ys)"
  have zs: "y # ys = zs @ [p]" unfolding zs_def p_def by simp
  have pin: "p \<in> set (y # ys)" unfolding p_def by (rule last_in_set) simp
  have ne: "p \<noteq> h" "p \<noteq> c" "p \<notin> set cs" "h \<noteq> c" "h \<notin> set (y # ys)" "c \<notin> set (y # ys)" "h \<notin> set cs" "c \<notin> set cs"
    "y \<noteq> h" "y \<noteq> c" "y \<notin> set cs"
    using assms(2) pin by auto
  have seg: "dseg f h (y # ys) c" "dseg f p (c # cs) NULL" "dseg f pv0 [h] y"
    using assms(1) dseg_append [of f h "y # ys" "c # cs" NULL] by (auto simp: p_def)
  have "dseg (setn p h f) h (y # ys) h"
    using seg(1) assms(2) unfolding zs by (intro dseg_set_last) auto
  then have "dseg ?g h (y # ys) h" using ne by (simp del: dseg.simps)
  then have 1: "dseg (setp y NULL ?g) NULL (y # ys) h" by (rule dseg_set_first) (use assms(2) in simp)
  have "dseg (setn p h f) pv0 ([] @ [h]) y" using seg(3) ne by (simp del: dseg.simps)
  then have "dseg (setn h c (setn p h f)) pv0 ([] @ [h]) c" by (rule dseg_set_last) simp
  then have "dseg (setp h p (setn h c (setn p h f))) p [h] c" by (intro dseg_set_first [of _ pv0]) simp_all
  then have 2: "dseg (setp y NULL ?g) p [h] c" using ne by (simp del: dseg.simps)
  have "dseg (setp h p (setn h c (setn p h f))) p (c # cs) NULL" using seg(2) ne by (simp del: dseg.simps)
  then have "dseg ?g h (c # cs) NULL" by (rule dseg_set_first) (use assms(2) in simp)
  then have 3: "dseg (setp y NULL ?g) h (c # cs) NULL" using ne by (simp del: dseg.simps)
  have "dseg (setp y NULL ?g) NULL ((y # ys) @ [h] @ (c # cs)) NULL"
    using 1 2 3 by (simp only: dseg_append) (simp add: p_def)
  then show ?thesis by simp
qed

definition relist :: "sched \<Rightarrow> (addr \<Rightarrow> cpu_tree_lnode option) \<Rightarrow> addr \<Rightarrow> sched" where
  "relist s f h = s\<lparr>lnodes := f, cpu_tree_list := h, cpu_tree_list_lock := 0\<rparr>"

lemma move_smallest_ok:
  assumes seg: "dseg (lnodes s) pv0 (h # rest) NULL" and inv: "list_inv (h # rest) s"
    and lock: "cpu_tree_list_lock s = 0"
  defines "small \<equiv> takeWhile (\<lambda>x. cnt_of s x < cnt_of s h) rest"
    and "big \<equiv> dropWhile (\<lambda>x. cnt_of s x < cnt_of s h) rest"
  obtains f where "cpu_tree_list_move_smallest s = Some (relist s f (hd (small @ [h])))"
    "dseg f (if small = [] then pv0 else if big = [] then h else NULL) (small @ h # big) NULL"
    "\<And>p. map_option ln_tree (f p) = map_option ln_tree (lnodes s p)"
proof -
  let ?f = "lnodes s" and ?s = "s\<lparr>cpu_tree_list_lock := 1\<rparr>"
  have rest: "rest = small @ big" by (simp add: small_def big_def)
  have d: "distinct (h # small @ big)" using inv unfolding rest by (simp add: list_inv_def)
  have hd: "cpu_tree_list ?s = h" using inv by (simp add: list_inv_def)
  obtain nh where nh: "?f h = Some nh" "ln_next nh = hd (rest @ [NULL])" "h \<noteq> NULL" using seg by auto
  have gh: "get_lnode h ?s = Some nh" using nh by (simp add: get_lnode_def)
  show thesis
  proof (cases "rest = []")
    case True
    then have "cpu_tree_list_move_smallest s = Some (relist s ?f h)"
      using lock hd gh nh by (simp add: cpu_tree_list_move_smallest_def Let_def spinlock_unlock_def relist_def)
    with True seg rest show thesis by (intro that) auto
  next
    case False
    then obtain x xs where xs: "rest = x # xs" by (cases rest) auto
    obtain n0 where n0: "get_lnode x ?s = Some n0" "ln_prev n0 = h" "x \<noteq> NULL"
      using seg xs by (auto simp: get_lnode_def)
    have inv': "list_inv (h # rest) ?s" using inv by (simp add: list_inv_def)
    have cnt: "cnt_of ?s = cnt_of s" by (simp add: cnt_of_def fun_eq_iff)
    have "dseg (lnodes ?s) h rest NULL" "set rest \<subseteq> set (h # rest)" using seg by auto
    from move_smallest_find_ok [OF this(1) inv' this(2), of h]
    have "move_smallest_find h (hd (rest @ [NULL])) ?s = Some (last (h # small), hd (big @ [NULL]))"
      unfolding small_def big_def cnt list.sel .
    then have find: "move_smallest_find h x ?s = Some (last (h # small), hd (big @ [NULL]))"
      by (simp only: xs append_Cons list.sel)
    show thesis
    proof (cases "small = []")
      case True
      then have "big = x # xs" using rest xs by simp
      then have "cpu_tree_list_move_smallest s = Some (relist s ?f h)"
        using lock hd gh nh n0 find True xs
        by (simp add: cpu_tree_list_move_smallest_def Let_def spinlock_unlock_def relist_def)
      with True seg rest show thesis by (intro that) auto
    next
      case small: False
      then obtain ys where ys: "small = x # ys" using rest xs by (cases small) auto
      let ?p = "last small"
      have pin: "?p \<in> set rest" using small rest by simp
      obtain np where np: "?f ?p = Some np" "?p \<noteq> NULL" "?p \<noteq> h"
        using dseg_defined [OF seg, of ?p] pin d rest by auto
      show thesis
      proof (cases big)
        case Nil
        have zs: "h # rest = h # butlast small @ [?p]" using Nil rest small by simp
        let ?F = "setp h ?p (setn h NULL (setn ?p h ?f))"
        have "upd_lnode h (\<lambda>n. n\<lparr>ln_next := NULL, ln_prev := ?p\<rparr>) (?s\<lparr>lnodes := setn ?p h ?f\<rparr>) = Some (?s\<lparr>lnodes := ?F\<rparr>)"
          using nh np by (simp add: upd_lnode_def get_lnode_def setn_def setp_def)
        then have "cpu_tree_list_move_smallest s = Some (relist s ?F x)"
          using lock hd gh nh n0 find small Nil xs np upd_lnode_next(1) [of ?p ?s np h]
          by (simp add: cpu_tree_list_move_smallest_def Let_def spinlock_unlock_def relist_def)
        moreover have "dseg ?F h (butlast small @ [?p, h]) NULL"
          by (rule move_to_end_dseg) (use seg d in \<open>simp_all only: zs\<close>, use d Nil small in simp)
        moreover have "butlast small @ [?p, h] = small @ [h]"
          using arg_cong [OF append_butlast_last_id [OF small], of "\<lambda>xs. xs @ [h]"] by simp
        ultimately have "cpu_tree_list_move_smallest s = Some (relist s ?F x)" "dseg ?F h (small @ [h]) NULL"
          by (simp_all only:)
        moreover have "hd (small @ [h]) = x" using ys by simp
        ultimately show thesis
          using small Nil by (intro that [of ?F]) (simp_all del: dseg.simps)
      next
        case (Cons c cs)
        let ?F = "setp x NULL (setp c h (setp h ?p (setn h c (setn ?p h ?f))))"
        obtain nc where nc: "?f c = Some nc" "c \<noteq> NULL" "ln_prev nc = ?p"
          using seg small unfolding rest Cons by (auto simp: dseg_append)
        have ne: "c \<noteq> h" "c \<noteq> ?p" "x \<noteq> h" "x \<noteq> c" using d pin ys small Cons by auto
        have "cpu_tree_list_move_smallest s = Some (relist s ?F x)"
          using lock hd gh nh n0 find small Cons xs np nc ne
          by (simp add: cpu_tree_list_move_smallest_def Let_def spinlock_unlock_def relist_def
              upd_lnode_def get_lnode_def setn_def setp_def)
        moreover have "dseg ?F NULL ((x # ys) @ h # c # cs) NULL"
          using seg d unfolding rest ys Cons by (intro move_inside_dseg [of _ pv0]) simp_all
        ultimately show thesis
          using small Cons ys by (intro that [of ?F]) (simp_all del: dseg.simps)
      qed
    qed
  qed
qed


lemma relist_simps [simp]:
  "lnodes (relist s f h) = f" "cpu_tree_list (relist s f h) = h" "cpu_tree_list_lock (relist s f h) = 0"
  "cpu_trees (relist s f h) = cpu_trees s"
  by (simp_all add: relist_def)

lemma relist_inv:
  assumes tree: "\<And>p. map_option ln_tree (f p) = map_option ln_tree (lnodes s p)"
    and inv: "list_inv ps s" and ps': "set ps' = set ps" "distinct ps'"
  shows "list_inv ps' (relist s f (hd ps'))" and "p \<in> set ps \<Longrightarrow> cnt_of (relist s f h) p = cnt_of s p"
proof -
  have "\<exists>n'. f p = Some n' \<and> ln_tree n' = ln_tree n" if "lnodes s p = Some n" for p n
    using tree [of p] that by auto
  with inv ps' show "list_inv ps' (relist s f (hd ps'))" by (fastforce simp: list_inv_def)
  show "p \<in> set ps \<Longrightarrow> cnt_of (relist s f h) p = cnt_of s p"
    using tree [of p] inv by (fastforce simp: list_inv_def cnt_of_def)
qed

lemma sorted_put_between:
  fixes c :: "'a \<Rightarrow> 'b :: linorder"
  assumes "sorted (map c rest)"
  shows "sorted (map c (takeWhile (\<lambda>x. c x < c h) rest @ h # dropWhile (\<lambda>x. c x < c h) rest))"
proof -
  have "c h \<le> c x" if x: "x \<in> set (dropWhile (\<lambda>x. c x < c h) rest)" for x
  proof -
    obtain y ys where y: "dropWhile (\<lambda>x. c x < c h) rest = y # ys" using x by (meson list.set_cases)
    have "sorted (map c (dropWhile (\<lambda>x. c x < c h) rest))"
      using assms by (metis map_append sorted_append takeWhile_dropWhile_id)
    moreover have "\<not> c y < c h" using hd_dropWhile [of "\<lambda>x. c x < c h" rest] y by simp
    ultimately show ?thesis using that y by auto
  qed
  moreover have "c x < c h" if "x \<in> set (takeWhile (\<lambda>x. c x < c h) rest)" for x
    using that by (auto dest: set_takeWhileD)
  moreover have "sorted (map c (takeWhile (\<lambda>x. c x < c h) rest)) \<and> sorted (map c (dropWhile (\<lambda>x. c x < c h) rest))"
    using assms by (metis map_append sorted_append takeWhile_dropWhile_id)
  ultimately show ?thesis by (fastforce simp: sorted_append)
qed

lemma print_loops:
  assumes "p \<noteq> NULL" "lnodes s p = Some n" "ln_next n = p"
  shows "print_cpu_tree_list_from p s = None"
proof -
  let ?P = "\<lambda>cur s' (r :: unit). \<not> (cur = p \<and> s' = s)"
  have "?P p s r" if "print_cpu_tree_list_from p s = Some r" for r
  proof (rule print_cpu_tree_list_from.raw_induct [where P = ?P, OF _ that])
    fix f cur s' r'
    assume IH: "\<And>cur s r. f cur s = Some r \<Longrightarrow> ?P cur s r"
      and eq: "(if cur = NULL then Some () else do { n \<leftarrow> get_lnode cur s'; T \<leftarrow> get_tree (ln_tree n) s'; f (ln_next n) s' }) = Some r'"
    show "?P cur s' r'"
    proof
      assume "cur = p \<and> s' = s"
      with eq assms have "f p s = Some r'" by (auto simp: get_lnode_def split: bind_splits)
      with IH show False by blast
    qed
  qed
  then show ?thesis by (cases "print_cpu_tree_list_from p s") auto
qed

lemma two_list_corrupted:
  assumes seg: "dseg (lnodes s) a [b, a] NULL" and inv: "list_inv [b, a] s"
    and lock: "cpu_tree_list_lock s = 0" and lp: "list_ptr (cpu_trees s ! ln_tree (the (lnodes s b))) = b"
    and cnt: "cnt_of s b < cnt_of s a"
  shows "\<exists>s'. cpu_tree_list_move_left (ln_tree (the (lnodes s b))) s = Some s' \<and> print_cpu_tree_list s' = None"
proof -
  obtain na nb where n: "lnodes s a = Some na" "lnodes s b = Some nb" "ln_prev nb = a" "ln_next nb = a"
    "ln_prev na = b" "ln_next na = NULL" "a \<noteq> NULL" "b \<noteq> NULL" "a \<noteq> b"
    using seg inv by (auto simp: list_inv_def)
  let ?s = "s\<lparr>cpu_tree_list_lock := 1\<rparr>"
  have lt: "ln_tree na < length (cpu_trees s)" "ln_tree nb < length (cpu_trees s)" "cpu_tree_list s = b"
    using inv n by (auto simp: list_inv_def)
  have c: "thread_cnt (cpu_trees s ! ln_tree nb) < thread_cnt (cpu_trees s ! ln_tree na)"
    using cnt n by (simp add: cnt_of_def)
  have T: "get_tree (ln_tree nb) ?s = Some (cpu_trees s ! ln_tree nb)" using lt by (simp add: get_tree_def)
  have find: "move_left_find (thread_cnt (cpu_trees s ! ln_tree nb)) a ?s = Some b"
    using n c lt by (simp add: move_left_find.simps cnt_at_def get_lnode_def get_tree_def)
  let ?f = "(lnodes s)(a \<mapsto> na\<lparr>ln_next := a, ln_prev := b\<rparr>, b \<mapsto> nb\<lparr>ln_prev := b, ln_next := b\<rparr>)"
  have "cpu_tree_list_move_left (ln_tree nb) s = Some (s\<lparr>lnodes := ?f, cpu_tree_list_lock := 0\<rparr>)"
    using lock T find n lp lt
    by (simp add: cpu_tree_list_move_left_def Let_def get_lnode_def unlink_lnode_def upd_lnode_def
        spinlock_unlock_def)
  moreover have "print_cpu_tree_list (s\<lparr>lnodes := ?f, cpu_tree_list_lock := 0\<rparr>) = None"
    using n lt by (simp add: print_cpu_tree_list_def print_loops)
  ultimately show ?thesis using n(2) by simp
qed

section \<open>The queue of a processor\<close>

definition view :: "nat \<Rightarrow> sched \<Rightarrow> tt_st" where
  "view i s = \<lparr>t_nodes = tree_nodes s, t_root = tt_root (cpu_trees s ! i), tt_threads = threads s\<rparr>"

definition rq_inv :: "nat \<Rightarrow> tt_body ptree \<Rightarrow> sched \<Rightarrow> bool" where
  "rq_inv i T s \<longleftrightarrow> i < length (cpu_trees s) \<and> tq_inv (view i s) T"

lemma view_simps [simp]:
  "t_nodes (view i s) = tree_nodes s" "t_root (view i s) = tt_root (cpu_trees s ! i)" "tt_threads (view i s) = threads s"
  by (simp_all add: view_def)

lemma tree_view_ok: "i < length (cpu_trees s) \<Longrightarrow> tree_view i s = Some (view i s)"
  by (simp add: tree_view_def get_tree_def view_def)

lemma put_tree_ok:
  assumes "i < length (cpu_trees s)"
  obtains s' where "put_tree i t s = Some s'" "view i s' = t" "length (cpu_trees s') = length (cpu_trees s)"
    "s' = s\<lparr>tree_nodes := t_nodes t, threads := tt_threads t, cpu_trees := (cpu_trees s)[i := (cpu_trees s ! i)\<lparr>tt_root := t_root t\<rparr>]\<rparr>"
  using assms by (intro that [OF _ _ _ refl]) (simp_all add: put_tree_def upd_tree_def view_def)

lemma min_vruntime_ok:
  assumes "rq_inv i T s"
  shows "get_min_vruntime i s = Some (if T = Lf then 0 else vruntime (threads s (snd (hd (run_q T)))))"
proof -
  have rep: "repr (view i s) T" and i: "i < length (cpu_trees s)" using assms by (simp_all add: rq_inv_def tq_inv_def)
  show ?thesis
  proof (cases "T = Lf")
    case True
    with rep i show ?thesis by (simp add: get_min_vruntime_def tree_view_ok repr_def)
  next
    case False
    from rep False obtain a l r par b where "rb_leftmost (t_root (view i s)) (view i s) = Some a"
      "deref (view i s) a = Some (mkn False l r par b)" "hd (run_q T) = (a, tn_thr b)" "t_root (view i s) \<noteq> NULL"
      by (rule run_q_head)
    with False i show ?thesis by (simp add: get_min_vruntime_def tree_view_ok node_simps)
  qed
qed

lemma run_q_threads:
  assumes "tq_inv t T" "x \<in> set (run_q T)" "y \<in> set (run_q T)" "snd x = snd y"
  shows "x = y"
  using assms by (auto simp: tq_inv_def intro!: prod_eqI) metis

lemma tq_inv_thread:
  assumes "tq_inv t T" "th \<notin> snd ` set (run_q T)"
    and "repr t' T" "tt_threads t' = (tt_threads t)(th := x)"
  shows "tq_inv t' T"
proof -
  have "tt_threads t' (snd y) = tt_threads t (snd y)" if "y \<in> set (run_q T)" for y
    using assms(2,4) that by auto
  with assms(1,3) show ?thesis by (simp add: tq_inv_def cong: map_cong)
qed

lemma repr_fields: "t_nodes t' = t_nodes t \<Longrightarrow> t_root t' = t_root t \<Longrightarrow> repr t' T = repr t (T :: tt_body ptree)"
proof -
  assume a: "t_nodes t' = t_nodes t" "t_root t' = t_root t"
  then have "tree_at t' p S = tree_at t p S" for p and S :: "tt_body ptree" by (induction S arbitrary: p) auto
  with a show ?thesis by (simp add: repr_def)
qed

lemma repr_new_node:
  assumes "repr t T" "n \<notin> addrs T"
  shows "repr (t\<lparr>t_nodes := (t_nodes t)(n := x)\<rparr>) T"
  using assms by (simp add: repr_def)

lemma run_next_ok:
  fixes time_passed :: u64
  assumes inv: "rq_inv i T s" and ok: "rb_ok tn_clr T" "T \<noteq> Lf" and top: "\<not> first_is_root_with_child T"
    and w: "weight (threads s (snd (hd (run_q T)))) \<noteq> 0"
  defines "th \<equiv> snd (hd (run_q T))"
  defines "x \<equiv> (threads s th)\<lparr>vruntime := vruntime (threads s th) + time_passed * timer_res_ns s * default_weight div weight (threads s th)\<rparr>"
  obtains s' T' where "run_next i time_passed s = Some (s', th)" "rq_inv i T' s'" "set (run_q T') = set (run_q T)"
    "threads s' = (threads s)(th := x)"
proof -
  let ?t = "view i s"
  have rep: "repr ?t T" and i: "i < length (cpu_trees s)" and tq: "tq_inv ?t T"
    using inv by (simp_all add: rq_inv_def tq_inv_def)
  from rep ok(2) obtain a l r par b where a: "rb_leftmost (t_root ?t) ?t = Some a" "deref ?t a = Some (mkn False l r par b)"
    "hd (run_q T) = (a, tn_thr b)" by (rule run_q_head)
  have th: "tn_thr b = th" using a(3) by (simp add: th_def)
  have split: "run_q T = (a, th) # tl (run_q T)" using a(3) ok(2) th by (cases "run_q T") auto
  define s1 where "s1 = upd_thread th (\<lambda>x. x\<lparr>vruntime := vruntime x + time_passed * timer_res_ns s * default_weight div weight x\<rparr>) s"
  have s1: "threads s1 = (threads s)(th := x)" "cpu_trees s1 = cpu_trees s" "tree_nodes s1 = tree_nodes s"
    by (simp_all add: s1_def upd_thread_def x_def)
  have rep1: "repr (view i s1) T" using rep repr_fields [of "view i s1" ?t T] by (simp add: s1)
  obtain t2 T2 where d: "thread_tree_delete a (view i s1) = Some (t2, a)" "repr t2 T2"
    "tt_threads t2 = threads s1" "run_q T2 = tl (run_q T)"
    using tree_delete_leftmost_ok [OF rep1 ok top] a(3) by auto
  obtain s2 where s2: "put_tree i t2 s1 = Some s2" "view i s2 = t2" "length (cpu_trees s2) = length (cpu_trees s1)"
    using put_tree_ok [of i s1 t2] i s1(2) by metis
  have del: "tree_delete i a s1 = Some (s2, a)"
    using d(1) s2(1) i s1(2) by (simp add: tree_delete_def tree_view_ok)
  let ?cpy = "mkn False l r par b"
  define s3 where "s3 = s2\<lparr>tree_nodes := (tree_nodes s2)(a \<mapsto> ?cpy)\<rparr>"
  have v3: "view i s3 = t2\<lparr>t_nodes := (t_nodes t2)(a \<mapsto> ?cpy)\<rparr>"
    using s2(2) by (auto simp: s3_def view_def)
  have nd: "a \<notin> addrs T2"
    using run_q_distinct [OF rep] split d(4) by (subst run_q_addrs) (metis distinct.simps(2) fst_conv list.map(2) list.set_map)
  have out: "th \<notin> snd ` set (run_q T2)"
  proof
    assume "th \<in> snd ` set (run_q T2)"
    then obtain y where y: "y \<in> set (run_q T2)" "snd y = th" by auto
    then have "y = (a, th)" using run_q_threads [OF tq, of y "(a, th)"] split d(4) by (metis list.set_intros snd_conv)
    with y(1) nd show False by (force simp: run_q_addrs)
  qed
  have "tq_inv (t2\<lparr>tt_threads := threads s\<rparr>) T2"
  proof -
    have "repr (t2\<lparr>tt_threads := threads s\<rparr>) T2" using d(2) repr_fields [of "t2\<lparr>tt_threads := threads s\<rparr>" t2 T2] by simp
    moreover have "sorted (map (\<lambda>x. vruntime (threads s (snd x))) (run_q T2))"
      using tq d(4) by (simp add: tq_inv_def map_tl sorted_tl)
    moreover have "set (run_q T2) \<subseteq> set (run_q T)" using split d(4) by (metis set_subset_Cons)
    ultimately show ?thesis using tq by (auto simp: tq_inv_def)
  qed
  then have tq3: "tq_inv (view i s3) T2"
    by (rule tq_inv_thread [OF _ out]) (use repr_new_node [OF d(2) nd] d(3) s1(1) in \<open>simp_all add: v3\<close>)
  have an: "a \<noteq> NULL" "t_nodes (view i s3) a = Some ?cpy" using a(2) by (auto simp: v3 deref_node)
  have hndl: "th_hndl (tt_threads (view i s3) (tn_thr (n_body ?cpy))) = a"
  proof -
    have "(a, th) \<in> set (run_q T)" using split by (metis list.set_intros(1))
    with tq have "th_hndl (threads s th) = a" by (auto simp: tq_inv_def)
    then show ?thesis using d(3) s1(1) by (simp add: v3 node_simps th x_def)
  qed
  obtain t4 T4 where raw: "thread_tree_insert a (view i s3) = Some t4" "tq_inv t4 T4" "tt_threads t4 = tt_threads (view i s3)"
    "set (run_q T4) = insert (a, tn_thr (n_body ?cpy)) (set (run_q T2))"
    "\<exists>y. t_nodes t4 a = Some y \<and> tn_thr (n_body y) = tn_thr (n_body ?cpy)"
    by (rule tree_insert_ok [OF tq3 an(1) nd an(2) hndl]) blast
  have ins: "thread_tree_insert a (view i s3) = Some t4" "tq_inv t4 T4" "tt_threads t4 = threads s1"
    "set (run_q T4) = insert (a, th) (set (run_q T2))" "\<exists>y. t_nodes t4 a = Some y \<and> tn_thr (n_body y) = th"
    using raw d(3) by (simp_all add: v3 node_simps th)
  have i3: "i < length (cpu_trees s3)" using i s1(2) s2(3) by (simp add: s3_def)
  obtain s4 where s4: "put_tree i t4 s3 = Some s4" "view i s4 = t4" "length (cpu_trees s4) = length (cpu_trees s3)"
    using put_tree_ok [OF i3, of t4] by metis
  have ti: "tree_insert i a s3 = Some s4" using ins(1) s4(1) i3 by (simp add: tree_insert_def tree_view_ok)
  have fin: "tree_nodes s4 = t_nodes t4" "threads s4 = threads s1" using s4(2) ins(3) by (auto simp: view_def)
  have "run_next i time_passed s = Some (s4, th)"
    using a i an(1) w del ti ins(5) fin(1)
    by (auto simp: run_next_def tree_view_ok Let_def node_simps th th_def [symmetric] s1_def [symmetric] s3_def [symmetric])
  moreover have "set (run_q T4) = set (run_q T)" using ins(4) d(4) split by (metis list.simps(15))
  moreover have "rq_inv i T4 s4" using ins(2) s4(2,3) i3 by (simp add: rq_inv_def)
  ultimately show thesis using that fin(2) s1(1) by simp
qed


lemma thread_tree_add_ok:
  assumes inv: "rq_inv i T s" and new: "th \<notin> snd ` set (run_q T)"
    and mall: "kmalloc hooks 40 (sheap s) = Some (h, n)" "n \<noteq> NULL" "n \<notin> addrs T"
    and cnt: "thread_cnt (cpu_trees s ! i) + 1 \<noteq> 0"
  defines "m \<equiv> (if T = Lf then 0 else vruntime (threads s (snd (hd (run_q T)))))"
  obtains s' T' where "thread_tree_add hooks i th s = Some s'" "rq_inv i T' s'"
    "set (run_q T') = insert (n, th) (set (run_q T))" "rb_ok tn_clr T \<longrightarrow> rb_ok tn_clr T'"
    "threads s' = (threads s)(th := (threads s th)\<lparr>vruntime := m, th_hndl := n, th_tree := i\<rparr>)"
    "thread_cnt (cpu_trees s' ! i) = thread_cnt (cpu_trees s ! i) + 1"
    "time_slice (cpu_trees s' ! i) = slice_of (thread_cnt (cpu_trees s ! i) + 1)" "sheap s' = h"
    "\<And>j. j \<noteq> i \<Longrightarrow> cpu_trees s' ! j = cpu_trees s ! j"
proof -
  let ?t = "view i s" let ?c = "thread_cnt (cpu_trees s ! i) + 1"
  have i: "i < length (cpu_trees s)" and tq: "tq_inv ?t T" and rep: "repr ?t T"
    using inv by (simp_all add: rq_inv_def tq_inv_def)
  let ?x = "mkn False NULL NULL NULL \<lparr>tn_thr = th, tn_clr = False\<rparr>"
  let ?T = "(thread_cnt_update (\<lambda>c. c + 1) (cpu_trees s ! i))\<lparr>time_slice := slice_of ?c\<rparr>"
  define s6 where "s6 = s\<lparr>cpu_trees := (cpu_trees s)[i := ?T], sheap := h, tree_nodes := (tree_nodes s)(n \<mapsto> ?x),
    threads := (threads s)(th := (threads s th)\<lparr>vruntime := m, th_hndl := n, th_tree := i\<rparr>)\<rparr>"
  have run: "thread_tree_add hooks i th s = tree_insert i n s6"
    using i mall(1) cnt min_vruntime_ok [OF inv]
    by (simp add: thread_tree_add_def Let_def upd_thread_def upd_tree_def get_tree_def kmalloc_s_def m_def s6_def)
  have v6: "repr (view i s6) T"
    using repr_new_node [OF rep mall(3), of "Some ?x"] repr_fields [of "view i s6" "?t\<lparr>t_nodes := (t_nodes ?t)(n \<mapsto> ?x)\<rparr>" T] i
    by (simp add: s6_def)
  have tq6: "tq_inv (view i s6) T"
    by (rule tq_inv_thread [OF tq new v6]) (simp add: s6_def)
  have nx: "t_nodes (view i s6) n = Some ?x" "th_hndl (tt_threads (view i s6) (tn_thr (n_body ?x))) = n"
    by (simp_all add: s6_def node_simps)
  obtain t7 T7 where raw: "thread_tree_insert n (view i s6) = Some t7" "tq_inv t7 T7" "tt_threads t7 = tt_threads (view i s6)"
    "set (run_q T7) = insert (n, tn_thr (n_body ?x)) (set (run_q T))" "rb_ok tn_clr T \<longrightarrow> rb_ok tn_clr T7"
    by (rule tree_insert_ok [OF tq6 mall(2,3) nx]) blast
  have ins: "thread_tree_insert n (view i s6) = Some t7" "tq_inv t7 T7" "tt_threads t7 = threads s6"
    "set (run_q T7) = insert (n, th) (set (run_q T))" "rb_ok tn_clr T \<longrightarrow> rb_ok tn_clr T7"
    using raw by (simp_all add: node_simps)
  have i6: "i < length (cpu_trees s6)" using i by (simp add: s6_def)
  obtain s7 where s7: "put_tree i t7 s6 = Some s7" "view i s7 = t7" "length (cpu_trees s7) = length (cpu_trees s6)"
    "s7 = s6\<lparr>tree_nodes := t_nodes t7, threads := tt_threads t7, cpu_trees := (cpu_trees s6)[i := (cpu_trees s6 ! i)\<lparr>tt_root := t_root t7\<rparr>]\<rparr>"
    using put_tree_ok [OF i6, of t7] by metis
  have "thread_tree_add hooks i th s = Some s7" using run ins(1) s7(1) i6 by (simp add: tree_insert_def tree_view_ok)
  moreover have "rq_inv i T7 s7" using ins(2) s7(2,3) i6 by (simp add: rq_inv_def)
  moreover have "threads s7 = threads s6" "sheap s7 = h" using s7(4) ins(3) by (simp_all add: s6_def)
  moreover have "thread_cnt (cpu_trees s7 ! i) = ?c" "time_slice (cpu_trees s7 ! i) = slice_of ?c"
    "\<And>j. j \<noteq> i \<Longrightarrow> cpu_trees s7 ! j = cpu_trees s ! j"
    using s7(4) i by (simp_all add: s6_def)
  ultimately show thesis using that ins(4,5) by (simp add: s6_def)
qed

lemma slice_value:
  assumes "c \<noteq> 0"
  shows "unat (slice_of c) = max 10 (48 div unat c) * 1000000"
proof -
  have d: "unat (scheduler_latency div c) = 48 div unat c" by (simp add: scheduler_latency_def unat_div)
  define e where "e = (if scheduler_latency div c < min_granularity then min_granularity else scheduler_latency div c)"
  have e: "unat e = max 10 (48 div unat c)"
    using d by (auto simp: e_def min_granularity_def word_less_nat_alt not_less)
  moreover have "max 10 (48 div unat c) \<le> 48" by simp
  from mult_le_mono1 [OF this] have "max 10 (48 div unat c) * 1000000 < 2 ^ 64" by (rule le_less_trans) simp
  ultimately have "unat (e * 1000000) = unat e * 1000000" by (simp add: unat_word_ariths)
  moreover have "slice_of c = e * 1000000" using assms by (simp add: slice_of_def e_def Let_def)
  ultimately show ?thesis using e by simp
qed

lemma run_next_two_ok:
  fixes time_passed :: u64
  assumes inv: "rq_inv i (Nd Lf a b (Nd Lf u ub Lf)) s" and w: "weight (threads s (tn_thr b)) \<noteq> 0"
  obtains s' T' where "run_next i time_passed s = Some (s', tn_thr b)" "repr (view i s') T'"
    "set (run_q T') = {(a, tn_thr ub), (u, tn_thr b)}" "th_hndl (threads s' (tn_thr b)) = a"
proof -
  let ?T = "Nd Lf a b (Nd Lf u ub Lf)" and ?t = "view i s"
  have rep: "repr ?t ?T" and i: "i < length (cpu_trees s)" and tq: "tq_inv ?t ?T"
    using inv by (simp_all add: rq_inv_def tq_inv_def)
  have nd: "tree_nodes s a = Some (mkn False NULL u NULL b)" "tree_nodes s u = Some (mkn False NULL NULL a ub)"
    "a \<noteq> NULL" "u \<noteq> NULL" "a \<noteq> u" "tt_root (cpu_trees s ! i) = a"
    using rep by (auto simp: repr_def)
  have h: "th_hndl (threads s (tn_thr b)) = a" "th_hndl (threads s (tn_thr ub)) = u"
    using tq by (auto simp: tq_inv_def run_q_def)
  then have ne: "tn_thr b \<noteq> tn_thr ub" using nd(5) by auto
  have lm: "rb_leftmost a ?t = Some a" using rb_leftmost_ok [of ?t NULL ?T] rep by (simp add: repr_def)
  define s1 where "s1 = upd_thread (tn_thr b) (\<lambda>x. x\<lparr>vruntime := vruntime x + time_passed * timer_res_ns s * default_weight div weight x\<rparr>) s"
  have s1: "threads s1 = (threads s)(tn_thr b := threads s1 (tn_thr b))" "cpu_trees s1 = cpu_trees s"
    "tree_nodes s1 = tree_nodes s" "th_hndl (threads s1 (tn_thr b)) = a"
    by (auto simp: s1_def upd_thread_def h)
  let ?b = "tt_absorb b ub"
  let ?t2 = "\<lparr>t_nodes = (tree_nodes s)(a \<mapsto> mkn False NULL NULL NULL ?b), t_root = a,
    tt_threads = (threads s1)(tn_thr ub := (threads s1 (tn_thr ub))\<lparr>th_hndl := a\<rparr>)\<rparr>"
  have rpl: "rb_delete_replacement a (view i s1) = Some u"
    using nd s1(2,3) by (simp add: rb_delete_replacement_def deref_def node_simps)
  have del: "thread_tree_delete a (view i s1) = Some (?t2, u)"
    unfolding thread_tree_delete_def using nd s1(2,3) rpl
    by (subst rb_delete.simps)
      (simp add: rb_unlink_single_def deref_def modify_def node_simps Let_def tt_relink_def tt_absorb_def view_def mkn_def)
  obtain s2 where s2: "put_tree i ?t2 s1 = Some s2" "view i s2 = ?t2" "length (cpu_trees s2) = length (cpu_trees s1)"
    using put_tree_ok [of i s1 ?t2] i s1(2) by metis
  let ?cpy = "mkn False NULL u NULL b"
  define s3 where "s3 = s2\<lparr>tree_nodes := (tree_nodes s2)(u \<mapsto> ?cpy)\<rparr>"
  have v3: "view i s3 = ?t2\<lparr>t_nodes := (t_nodes ?t2)(u \<mapsto> ?cpy)\<rparr>" using s2(2) by (auto simp: s3_def view_def)
  let ?T2 = "Nd Lf a ?b Lf"
  have "repr (view i s3) ?T2" "u \<notin> addrs ?T2" "t_nodes (view i s3) u = Some ?cpy"
    using nd by (auto simp: repr_def v3)
  from rb_insert_ok [OF this(1) nd(4) this(2,3), of tn_clr tn_set_clr "tn_lt (threads s3)"]
  obtain t4 where t4: "thread_tree_insert u (view i s3) = Some t4"
    "repr t4 (ins tn_clr tn_set_clr (tn_lt (threads s3)) u b ?T2)" "tree_st.more t4 = tree_st.more (view i s3)"
    by (auto simp: thread_tree_insert_def node_simps)
  let ?T4 = "ins tn_clr tn_set_clr (tn_lt (threads s3)) u b ?T2"
  have q: "set (run_q ?T4) = {(a, tn_thr ub), (u, tn_thr b)}"
    unfolding run_q_def by (subst keys_ins) (auto simp: set_keys_bst_ins tt_absorb_def)
  have i3: "i < length (cpu_trees s3)" using i s1(2) s2(3) by (simp add: s3_def)
  obtain s4 where s4: "put_tree i t4 s3 = Some s4" "view i s4 = t4" using put_tree_ok [OF i3, of t4] by metis
  have "\<exists>c. (u, c) \<in> set (inord ?T4) \<and> tn_thr c = tn_thr b"
  proof -
    have "(u, tn_thr b) \<in> set (run_q ?T4)" by (simp add: q)
    then show ?thesis by (auto simp: run_q_inord)
  qed
  then obtain y where y: "tree_nodes s4 u = Some y" "tn_thr (n_body y) = tn_thr b"
    using tree_at_node t4(2) s4(2) unfolding repr_def view_simps [symmetric]
    by (metis mkn_simps(7) view_simps(1))
  have "run_next i time_passed s = Some (s4, tn_thr b)"
    using lm nd i w del s2(1) t4(1) s4(1) i3 y s1(2)
    by (simp add: run_next_def tree_view_ok Let_def deref_def node_simps s1_def [symmetric] s3_def [symmetric]
        tree_delete_def tree_insert_def)
  moreover have "threads s4 = tt_threads ?t2" using more_threads [OF t4(3)] s4(2) v3 by auto
  then have "th_hndl (threads s4 (tn_thr b)) = a" using s1(4) ne by simp
  ultimately show thesis using that t4(2) s4(2) q by blast
qed

lemma rq_inv_view:
  "rq_inv i T s \<Longrightarrow> view i s' = view i s \<Longrightarrow> length (cpu_trees s') = length (cpu_trees s) \<Longrightarrow> rq_inv i T s'"
  by (simp add: rq_inv_def)

section \<open>Properties\<close>

definition lnode0 :: "nat \<Rightarrow> addr \<Rightarrow> addr \<Rightarrow> cpu_tree_lnode" where
  "lnode0 i nx pv = \<lparr>ln_tree = i, ln_next = nx, ln_prev = pv\<rparr>"

definition tree0 :: "addr \<Rightarrow> u64 \<Rightarrow> addr \<Rightarrow> thread_tree" where
  "tree0 root c lp = \<lparr>tt_root = root, thread_cnt = c, time_slice = 10000000, cpu_num = 0, last_give_time = 0,
     list_ptr = lp, tt_lock = 0\<rparr>"

definition pq0 :: thread_pqueue where
  "pq0 = \<lparr>pq_ptr = 0, pq_heap = [], pq_size = 0, pq_max_size = 0, pq_lock = 0\<rparr>"

text \<open>Two processors; the tree \<open>T\<close> belongs to the first one.\<close>

definition sched2 :: "tt_body ptree \<Rightarrow> u64 \<Rightarrow> u64 \<Rightarrow> sched" where
  "sched2 T c d =
     \<lparr>tree_nodes = tt_store NULL T, threads = (\<lambda>p. th_run (p div 16) (p div 16)),
      cpu_trees = [tree0 (ptr T) c 0x10, tree0 NULL d 0x20],
      lnodes = [0x10 \<mapsto> lnode0 0 0x20 0, 0x20 \<mapsto> lnode0 1 0 0x10], cpu_tree_list = 0x10, cpu_tree_list_lock = 0,
      cpu_sleep_pqueue_list = [pq0, pq0], scheduler_prev_threads = [0, 0], timer_prev_val = [0, 0], timer_res_ns = 100,
      core_info = [], endless_loop = 0,
      sheap = fresh_heap\<rparr>"

lemma sched2_list:
  "dseg (lnodes (sched2 T c d)) NULL [0x10, 0x20] NULL" "list_inv [0x10, 0x20] (sched2 T c d)"
  "cpu_tree_list_lock (sched2 T c d) = 0" "cnt_of (sched2 T c d) 0x10 = c" "cnt_of (sched2 T c d) 0x20 = d"
  by (simp_all add: sched2_def list_inv_def lnode0_def tree0_def cnt_of_def)

lemma sched2_rq: "tq_inv (tt_of T) T \<Longrightarrow> rq_inv 0 T (sched2 T c d)"
  by (simp add: rq_inv_def view_def sched2_def tree0_def tt_of_def)

text \<open>
  C34: \<^verbatim>\<open>cpu_tree_list_move_smallest\<close> on a well linked list whose head has grown and whose rest is sorted by
  thread count: it returns with the lock free again, the list has the same nodes, is sorted by thread
  count and well linked in both directions, but for one link: when the old head moved to the end, the
  new head's back pointer still points to it.
\<close>

theorem cpu_tree_list_move_smallest_sorts:
  assumes seg: "dseg (lnodes s) NULL (h # rest) NULL" and inv: "list_inv (h # rest) s"
    and lock: "cpu_tree_list_lock s = 0" and sorted: "sorted (map (cnt_of s) rest)"
  shows "\<exists>s' ps. cpu_tree_list_move_smallest s = Some s' \<and> list_inv ps s' \<and> mset ps = mset (h # rest) \<and>
    sorted (map (cnt_of s') ps) \<and> cpu_tree_list_lock s' = 0 \<and> cpu_trees s' = cpu_trees s \<and>
    dseg (lnodes s') (if last ps = h \<and> rest \<noteq> [] then h else NULL) ps NULL"
proof -
  let ?small = "takeWhile (\<lambda>x. cnt_of s x < cnt_of s h) rest"
  let ?big = "dropWhile (\<lambda>x. cnt_of s x < cnt_of s h) rest"
  let ?ps = "?small @ h # ?big"
  obtain f where f: "cpu_tree_list_move_smallest s = Some (relist s f (hd (?small @ [h])))"
    "dseg f (if ?small = [] then NULL else if ?big = [] then h else NULL) ?ps NULL"
    "\<And>p. map_option ln_tree (f p) = map_option ln_tree (lnodes s p)"
    using move_smallest_ok [OF seg inv lock] by blast
  have hd: "hd (?small @ [h]) = hd ?ps" by (cases ?small) simp_all
  have "mset rest = mset ?small + mset ?big" by (metis mset_append takeWhile_dropWhile_id)
  then have m: "mset ?ps = mset (h # rest)" by simp
  have rest: "rest = ?small @ ?big" by simp
  have d: "distinct ?ps" using inv mset_eq_imp_distinct_iff [OF m] by (simp add: list_inv_def)
  have set: "set ?ps = set (h # rest)" using mset_eq_setD [OF m] by simp
  have "map (cnt_of (relist s f (hd ?ps))) ?ps = map (cnt_of s) ?ps"
    by (intro map_cong refl relist_inv(2) [OF f(3) inv set d]) (simp only: set)
  then have sort: "sorted (map (cnt_of (relist s f (hd ?ps))) ?ps)"
    using sorted_put_between [OF sorted, of h] by (simp only:)
  have "h \<notin> set ?big" using inv by (auto simp: list_inv_def dest: set_dropWhileD)
  then have last: "last ?ps = h \<longleftrightarrow> ?big = []" by (cases ?big rule: rev_cases) auto
  have "(?small = [] \<and> ?big = []) \<longleftrightarrow> rest = []" using rest by (metis append_is_Nil_conv)
  then have "dseg f (if last ?ps = h \<and> rest \<noteq> [] then h else NULL) ?ps NULL"
    using f(2) unfolding last by (auto simp del: dseg.simps split: if_splits)
  with f(1) hd m sort relist_inv(1) [OF f(3) inv set d] show ?thesis
    by (intro exI [of _ "relist s f (hd ?ps)"] exI [of _ ?ps]) (simp del: dseg.simps)
qed

theorem cpu_tree_list_move_smallest_sorts_witness:
  "\<exists>s' ps. cpu_tree_list_move_smallest (sched2 tt3 3 1) = Some s' \<and> list_inv ps s' \<and> mset ps = {#0x10, 0x20#} \<and>
    sorted (map (cnt_of s') ps)"
  using cpu_tree_list_move_smallest_sorts [OF sched2_list(1-3) [of tt3 3 1]] by auto

text \<open>
  With two processors that stale back pointer destroys the list: after a move of the head to the
  end, \<^verbatim>\<open>cpu_tree_list_move_left\<close> on the tree with fewer threads returns with a list that is circular,
  so that \<^verbatim>\<open>print_cpu_tree_list\<close>, which every queueing and dequeueing calls next, never returns.
\<close>

theorem two_cpu_list_becomes_circular:
  assumes "dseg (lnodes s) NULL [a, b] NULL" and inv: "list_inv [a, b] s" and "cpu_tree_list_lock s = 0"
    and lt: "cnt_of s b < cnt_of s a" and i: "i = ln_tree (the (lnodes s b))" "list_ptr (cpu_trees s ! i) = b"
  shows "\<exists>s1 s2. cpu_tree_list_move_smallest s = Some s1 \<and> cpu_tree_list_move_left i s1 = Some s2 \<and>
    print_cpu_tree_list s2 = None"
proof -
  obtain f where f: "cpu_tree_list_move_smallest s = Some (relist s f b)" "dseg f a [b, a] NULL"
    "\<And>p. map_option ln_tree (f p) = map_option ln_tree (lnodes s p)"
    using move_smallest_ok [OF assms(1-3)] lt by auto
  let ?s = "relist s f b"
  have inv': "list_inv [b, a] ?s" using relist_inv(1) [OF f(3) inv, of "[b, a]"] inv by (auto simp: list_inv_def)
  have tree: "ln_tree (the (f b)) = i" using f(3) [of b] inv i by (auto simp: list_inv_def)
  have "cnt_of ?s b < cnt_of ?s a"
    using relist_inv(2) [OF f(3) inv, of "[a, b]"] lt inv by (auto simp: list_inv_def)
  from two_list_corrupted [of ?s a b, OF _ inv' _ _ this] f(2) tree i
  obtain s2 where "cpu_tree_list_move_left i ?s = Some s2 \<and> print_cpu_tree_list s2 = None" by auto
  with f(1) show ?thesis by blast
qed

theorem two_cpu_list_becomes_circular_witness:
  "\<exists>s1 s2. cpu_tree_list_move_smallest (sched2 tt3 3 1) = Some s1 \<and> cpu_tree_list_move_left 1 s1 = Some s2 \<and>
    print_cpu_tree_list s2 = None"
  using two_cpu_list_becomes_circular [OF sched2_list(1-3) [of tt3 3 1], of 1]
  by (simp add: sched2_list sched2_def lnode0_def tree0_def cnt_of_def)

text \<open>
  C33: \<^verbatim>\<open>thread_tree_add\<close> of a thread that is not queued, on a processor whose queue is in order and
  balanced, when the heap gives a new node: it returns, the queue holds exactly one thread more, in
  order and balanced. The new thread gets the least \<^verbatim>\<open>vruntime\<close> in the queue, or 0 when the queue is empty, and
  knows its tree and node; all other threads and the trees of all other processors are as before. The thread
  count grows by one, and the time slice is the latency of 48 ms shared by the new number of threads, in
  whole milliseconds and at least 10 of them, counted in nanoseconds.
\<close>

theorem thread_tree_add_correct:
  assumes "rq_inv i T s" "rb_ok tn_clr T" "th \<notin> snd ` set (run_q T)"
    and "kmalloc hooks 40 (sheap s) = Some (h, n)" "n \<noteq> NULL" "n \<notin> addrs T"
    and "thread_cnt (cpu_trees s ! i) + 1 \<noteq> 0"
  shows "\<exists>s' T'. thread_tree_add hooks i th s = Some s' \<and> rq_inv i T' s' \<and> rb_ok tn_clr T' \<and>
    set (run_q T') = insert (n, th) (set (run_q T)) \<and>
    threads s' = (threads s)(th := (threads s th)\<lparr>
      vruntime := if run_q T = [] then 0 else Min ((\<lambda>x. vruntime (threads s (snd x))) ` set (run_q T)),
      th_hndl := n, th_tree := i\<rparr>) \<and>
    (\<forall>x \<in> set (run_q T'). vruntime (threads s' th) \<le> vruntime (threads s' (snd x))) \<and>
    thread_cnt (cpu_trees s' ! i) = thread_cnt (cpu_trees s ! i) + 1 \<and>
    unat (time_slice (cpu_trees s' ! i)) = max 10 (48 div unat (thread_cnt (cpu_trees s ! i) + 1)) * 1000000 \<and>
    (\<forall>j. j \<noteq> i \<longrightarrow> cpu_trees s' ! j = cpu_trees s ! j)"
proof -
  let ?v = "\<lambda>x. vruntime (threads s (snd x))" and ?q = "run_q T"
  let ?m = "if T = Lf then 0 else ?v (hd ?q)"
  obtain s' T' where s': "thread_tree_add hooks i th s = Some s'" "rq_inv i T' s'"
    "set (run_q T') = insert (n, th) (set ?q)" "rb_ok tn_clr T \<longrightarrow> rb_ok tn_clr T'"
    "threads s' = (threads s)(th := (threads s th)\<lparr>vruntime := ?m, th_hndl := n, th_tree := i\<rparr>)"
    "thread_cnt (cpu_trees s' ! i) = thread_cnt (cpu_trees s ! i) + 1"
    "time_slice (cpu_trees s' ! i) = slice_of (thread_cnt (cpu_trees s ! i) + 1)"
    "\<And>j. j \<noteq> i \<Longrightarrow> cpu_trees s' ! j = cpu_trees s ! j"
    by (rule thread_tree_add_ok [OF assms(1,3-7)]) blast
  have least: "?m \<le> ?v x" if "x \<in> set ?q" for x
  proof -
    have "sorted (map ?v ?q)" using assms(1) by (simp add: rq_inv_def tq_inv_def)
    with that show ?thesis by (cases ?q) (auto simp flip: run_q_Nil(1))
  qed
  have m: "?m = (if ?q = [] then 0 else Min (?v ` set ?q))"
  proof (cases "?q = []")
    case False
    then have ne: "T \<noteq> Lf" by simp
    have "Min (?v ` set ?q) = ?v (hd ?q)" using False ne least by (intro Min_eqI) auto
    with False ne show ?thesis by simp
  qed simp
  have "\<forall>x \<in> set (run_q T'). vruntime (threads s' th) \<le> vruntime (threads s' (snd x))"
    using least s'(3,5) assms(3) by auto
  with s'(1-4,6-8) s'(5) [unfolded m] assms(2) slice_value [OF assms(7)] show ?thesis
    by (intro exI [of _ s'] exI [of _ T'] conjI) simp_all
qed

lemma fresh_heap_node: "\<exists>h. kmalloc None 40 fresh_heap = Some (h, 0x200030)"
proof -
  have "place 40 1 [(KMEM_HEAP_BASE, 0)] = ([(KMEM_HEAP_BASE, 0), (KMEM_HEAP_BASE + 24, 40)], KMEM_HEAP_BASE + 24, False)"
    by (simp add: place_def fit_pos_def align_up_def blk_end_def KMEM_HEAP_BASE_def)
  from kmalloc_align_place [OF _ fresh_heap_inv(1) _ _ this, of None] fresh_heap_inv(2)
  show ?thesis by (auto simp: kmalloc_def hooks_ok_def room_def blk_end_def KMEM_HEAP_BASE_def)
qed

theorem thread_tree_add_correct_witness:
  "\<exists>s' T'. thread_tree_add None 0 0x5000 (sched2 tt3 3 1) = Some s' \<and> rq_inv 0 T' s' \<and> rb_ok tn_clr T' \<and>
    thread_cnt (cpu_trees s' ! 0) = 4"
proof -
  obtain h where "kmalloc None 40 (sheap (sched2 tt3 3 1)) = Some (h, 0x200030)"
    using fresh_heap_node by (auto simp: sched2_def)
  from thread_tree_add_correct [OF sched2_rq [OF tt3_inv(1)] tt3_inv(2) _ this, of "0x5000"]
  have "\<exists>s' T'. thread_tree_add None 0 0x5000 (sched2 tt3 3 1) = Some s' \<and> rq_inv 0 T' s' \<and> rb_ok tn_clr T' \<and>
    thread_cnt (cpu_trees s' ! 0) = thread_cnt (cpu_trees (sched2 tt3 3 1) ! 0) + 1"
    by (simp add: tt3_def run_q_def tb_def) (auto simp: sched2_def tree0_def)
  then show ?thesis by (simp add: sched2_def tree0_def)
qed

text \<open>
  C31: The timer interrupt on a processor with a balanced queue in order, nobody asleep and no tasks due
  to be given away: while the time slice has not passed it returns no thread and changes no queue;
  once it has passed it returns a thread with the least \<^verbatim>\<open>vruntime\<close>, charges it with the time passed
  scaled by its weight, and leaves the same threads queued, again in order. (The case of a queue whose
  first thread sits in the root above another one is the next property.)
\<close>

theorem scheduler_advance_runs_least:
  assumes inv: "rq_inv i T s" and ok: "rb_ok tn_clr T" "T \<noteq> Lf" "\<not> first_is_root_with_child T"
    and w: "weight (threads s (snd (hd (run_q T)))) \<noteq> 0"
    and tm: "i < length (timer_prev_val s)" "timer_prev_val s ! i \<le> timer_val"
    and pq: "get_pq i s = Some q" "pq_size q = 0"
    and lock: "tt_lock (cpu_trees s ! i) = 0"
    and give: "time_since (last_give_time (cpu_trees s ! i)) timer_val < task_give_delay"
  defines "th \<equiv> snd (hd (run_q T))" and "dt \<equiv> timer_val - timer_prev_val s ! i"
  shows "if dt < time_slice (cpu_trees s ! i)
    then \<exists>s'. scheduler_advance_thread_queue hooks i timer_val s = Some (s', NULL) \<and> rq_inv i T s' \<and> threads s' = threads s
    else \<exists>s' T'. scheduler_advance_thread_queue hooks i timer_val s = Some (s', th) \<and> rq_inv i T' s' \<and>
      set (run_q T') = set (run_q T) \<and> (\<forall>x \<in> set (run_q T). vruntime (threads s th) \<le> vruntime (threads s (snd x))) \<and>
      threads s' = (threads s)(th := (threads s th)\<lparr>vruntime := vruntime (threads s th) +
        dt * timer_res_ns s * default_weight div weight (threads s th)\<rparr>) \<and>
      tt_lock (cpu_trees s' ! i) = 0"
proof -
  have i: "i < length (cpu_trees s)" using inv by (simp add: rq_inv_def)
  let ?s1 = "s\<lparr>cpu_trees := (cpu_trees s)[i := (cpu_trees s ! i)\<lparr>tt_lock := 1\<rparr>]\<rparr>"
  have dt: "time_since (timer_prev_val s ! i) timer_val = dt" using tm(2) by (simp add: time_since_def dt_def)
  have nl: "\<not> timer_val < timer_prev_val s ! i" using tm(2) by (simp add: not_less)
  have wake: "wake_sleepers hooks i timer_val s = Some s" using pq by (simp add: wake_sleepers.simps)
  have lk: "lock_tree i s = Some ?s1" using i lock by (simp add: lock_tree_def get_tree_def upd_tree_def)
  have bal: "balance_tasks hooks i timer_val ?s1 = Some ?s1"
    using i give by (simp add: balance_tasks_def get_tree_def flip: not_less)
  note run = scheduler_advance_thread_queue_def [of hooks i timer_val s]
  show ?thesis
  proof (cases "dt < time_slice (cpu_trees s ! i)")
    case True
    let ?s2 = "?s1\<lparr>scheduler_prev_threads := (scheduler_prev_threads s)[i := NULL]\<rparr>"
    let ?s3 = "?s2\<lparr>cpu_trees := (cpu_trees ?s2)[i := tt_lock_update spinlock_unlock (cpu_trees ?s2 ! i)]\<rparr>"
    have "scheduler_advance_thread_queue hooks i timer_val s = Some (?s3, NULL)"
      unfolding run using tm(1) nl pq dt wake lk bal i True
      by (simp add: Let_def get_tree_def unlock_tree_def upd_tree_def)
    moreover have "view i ?s3 = view i s" using i by (simp add: view_def)
    then have "rq_inv i T ?s3" by (rule rq_inv_view [OF inv]) simp
    ultimately show ?thesis using True by (intro if_P [THEN iffD2] exI [of _ ?s3]) simp_all
  next
    case False
    let ?s2 = "?s1\<lparr>timer_prev_val := (timer_prev_val s)[i := timer_val]\<rparr>"
    have "view i ?s2 = view i s" using i by (simp add: view_def)
    then have inv2: "rq_inv i T ?s2" by (rule rq_inv_view [OF inv]) simp
    obtain s3 T3 where s3: "run_next i dt ?s2 = Some (s3, th)" "rq_inv i T3 s3" "set (run_q T3) = set (run_q T)"
      "threads s3 = (threads s)(th := (threads s th)\<lparr>vruntime := vruntime (threads s th) +
        dt * timer_res_ns s * default_weight div weight (threads s th)\<rparr>)"
      by (rule run_next_ok [OF inv2 ok, of dt]) (use w in \<open>simp_all add: th_def\<close>)
    have i3: "i < length (cpu_trees s3)" using s3(2) by (simp add: rq_inv_def)
    let ?s4 = "s3\<lparr>cpu_trees := (cpu_trees s3)[i := tt_lock_update spinlock_unlock (cpu_trees s3 ! i)]\<rparr>"
    let ?s5 = "?s4\<lparr>scheduler_prev_threads := (scheduler_prev_threads ?s4)[i := th]\<rparr>"
    have root: "tt_root (cpu_trees s ! i) \<noteq> NULL"
      using inv ok(2) by (auto simp: rq_inv_def tq_inv_def repr_def ptr_eq_NULL)
    have "scheduler_advance_thread_queue hooks i timer_val s = Some (?s5, th)"
      unfolding run using tm(1) nl pq dt wake lk bal i i3 False root s3(1)
      by (simp add: Let_def get_tree_def unlock_tree_def upd_tree_def)
    moreover have "view i ?s5 = view i s3" using i3 by (simp add: view_def)
    then have "rq_inv i T3 ?s5" by (rule rq_inv_view [OF s3(2)]) simp
    moreover have "vruntime (threads s th) \<le> vruntime (threads s (snd x))" if "x \<in> set (run_q T)" for x
    proof -
      have "sorted (map (\<lambda>x. vruntime (threads s (snd x))) (run_q T))" using inv by (simp add: rq_inv_def tq_inv_def)
      with that show ?thesis by (cases "run_q T") (auto simp: th_def)
    qed
    moreover have "threads ?s5 = threads s3" "tt_lock (cpu_trees ?s5 ! i) = 0"
      using i3 by (simp_all add: spinlock_unlock_def)
    ultimately show ?thesis using False s3(3,4) by (simp only: if_False) blast
  qed
qed

theorem scheduler_advance_runs_least_witness:
  "\<exists>s' T'. scheduler_advance_thread_queue None 0 20000000 (sched2 tt3 3 1) = Some (s', 0x1000) \<and> rq_inv 0 T' s' \<and>
    set (run_q T') = {(0x100, 0x1000), (0x200, 0x2000), (0x300, 0x3000)} \<and>
    vruntime (threads s' 0x1000) = 0x100 + 2000000000"
proof -
  have q: "hd (run_q tt3) = (0x100, 0x1000)" "set (run_q tt3) = {(0x100, 0x1000), (0x200, 0x2000), (0x300, 0x3000)}"
    by (auto simp: tt3_def run_q_def tb_def)
  have "weight (threads (sched2 tt3 3 1) (snd (hd (run_q tt3)))) \<noteq> 0" "0 < length (timer_prev_val (sched2 tt3 3 1))"
    "timer_prev_val (sched2 tt3 3 1) ! 0 \<le> 20000000" "get_pq 0 (sched2 tt3 3 1) = Some pq0" "pq_size pq0 = 0"
    "tt_lock (cpu_trees (sched2 tt3 3 1) ! 0) = 0"
    "time_since (last_give_time (cpu_trees (sched2 tt3 3 1) ! 0)) 20000000 < task_give_delay"
    by (simp_all add: sched2_def th_run_def get_pq_def pq0_def tree0_def time_since_def task_give_delay_def)
  moreover have "tt3 \<noteq> Lf" "\<not> first_is_root_with_child tt3" by (simp_all add: tt3_def)
  moreover have "\<not> 20000000 - timer_prev_val (sched2 tt3 3 1) ! 0 < time_slice (cpu_trees (sched2 tt3 3 1) ! 0)"
    by (simp add: sched2_def tree0_def)
  ultimately obtain s' T' where "scheduler_advance_thread_queue None 0 20000000 (sched2 tt3 3 1) = Some (s', 0x1000)"
    "rq_inv 0 T' s'" "set (run_q T') = set (run_q tt3)"
    "threads s' 0x1000 = (threads (sched2 tt3 3 1) 0x1000)\<lparr>vruntime := vruntime (threads (sched2 tt3 3 1) 0x1000) +
      (20000000 - timer_prev_val (sched2 tt3 3 1) ! 0) * timer_res_ns (sched2 tt3 3 1) * default_weight div
        weight (threads (sched2 tt3 3 1) 0x1000)\<rparr>"
    using scheduler_advance_runs_least [OF sched2_rq [OF tt3_inv(1)] tt3_inv(2), of 3 1 20000000 pq0 None] q(1) by auto
  with q(2) show ?thesis by (auto simp: sched2_def th_run_def default_weight_def)
qed

text \<open>
  A queue of two threads whose first one sits in the root: running it moves the other thread into
  the root node and the first one into the node that was freed, but leaves the first thread's \<^verbatim>\<open>hndl\<close>
  pointing to the root node, which now belongs to the other thread. A later removal of the first
  thread would take out the other one.
\<close>

theorem run_next_leaves_stale_handle:
  assumes "rq_inv i (Nd Lf a b (Nd Lf u ub Lf)) s" "weight (threads s (tn_thr b)) \<noteq> 0"
  shows "\<exists>s' T'. run_next i time_passed s = Some (s', tn_thr b) \<and> repr (view i s') T' \<and>
    set (run_q T') = {(a, tn_thr ub), (u, tn_thr b)} \<and> th_hndl (threads s' (tn_thr b)) = a"
  using run_next_two_ok [OF assms] by metis

theorem run_next_leaves_stale_handle_witness:
  "\<exists>s' T'. run_next 0 5 (sched2 (Nd Lf 0x100 (tb 0x1000 False) (Nd Lf 0x200 (tb 0x2000 True) Lf)) 2 0) = Some (s', 0x1000) \<and>
    set (run_q T') = {(0x100, 0x2000), (0x200, 0x1000)} \<and> th_hndl (threads s' 0x1000) = 0x100"
proof -
  let ?T = "Nd Lf 0x100 (tb 0x1000 False) (Nd Lf 0x200 (tb 0x2000 True) Lf)"
  have "tq_inv (tt_of ?T) ?T"
    by (simp add: tq_inv_def repr_def tt_of_def run_q_def tb_def th_run_def)
  from run_next_leaves_stale_handle [OF sched2_rq [OF this, of 2 0], of 5] show ?thesis
    by (auto simp: tb_def sched2_def th_run_def)
qed

text \<open>
  The time measured between two readings of the counter: exact while the counter has not wrapped
  around, one tick short when it has.
\<close>

theorem time_since_short_after_wrap:
  "unat (time_since p (p + d)) = (if unat p + unat d < 2 ^ 64 then unat d else unat d - 1)"
proof (cases "unat p + unat d < 2 ^ 64")
  case True
  then have "\<not> p + d < p" by (simp add: word_less_nat_alt unat_plus_nowrap)
  with True show ?thesis by (simp add: time_since_def)
next
  case False
  have "unat (p + d) = unat p + unat d - 2 ^ 64"
    using False unat_lt_2p64 [of p] unat_lt_2p64 [of d] by (simp add: unat_word_ariths mod_if)
  then have "p + d < p" "unat d \<noteq> 0" using False unat_lt_2p64 [of d] unat_lt_2p64 [of p] by (auto simp: word_less_nat_alt)
  then have "time_since p (p + d) = d - 1" "1 \<le> d" by (auto simp: time_since_def word_le_nat_alt)
  then show ?thesis using False by (simp add: unat_sub)
qed

end
