(* ===== verification/Vmemory.thy ===== *)
theory Vmemory
  imports Allocator
begin

unbundle bit_operations_syntax

text \<open>
  Virtual memory (\<^verbatim>\<open>modules/vmemory/vmemory.c\<close>): the four levels of page tables, which live in the kernel
  heap, and the mapping functions, which take physical memory from the allocator of \<^theory_text>\<open>Allocator\<close>.
  A memory handle is a structure with one field, the address of the top table; \<open>cur_hndl\<close> points to
  the selected one and \<open>cr3\<close> is the register the processor translates with. Table entries are read
  and written as 64-bit words of the byte memory of the heap, so overlapping tables are possible in
  the model as they are in the machine.

  Functions that return an error code return it with the state; 0 is success. \<open>walk\<close> is the
  processor's translation of an address, the reference the mapping functions are compared with.
\<close>

section \<open>Bits and entries\<close>

definition get_bits :: "u64 \<Rightarrow> nat \<Rightarrow> nat \<Rightarrow> u64" where
  "get_bits e start end = drop_bit start e AND (push_bit (end - start) 1 - 1)"

definition set_bits :: "u64 \<Rightarrow> u64 \<Rightarrow> nat \<Rightarrow> u64" where
  "set_bits e bits start = e OR push_bit start bits"

definition PFLAG_PRESENT :: u64 where "PFLAG_PRESENT = 1"
definition PFLAG_CANWRITE :: u64 where "PFLAG_CANWRITE = 2"
definition PFLAG_PSIZE :: u64 where "PFLAG_PSIZE = 128"
definition PAGE_SIZE :: u64 where "PAGE_SIZE = 4096"
definition PAGE_SIZE2 :: u64 where "PAGE_SIZE2 = 2 * 1024 * 1024"
definition PT_ENTRIES :: nat where "PT_ENTRIES = 512"

definition VMEM_FLAG_MAINTAIN_CONTINUITY :: u32 where "VMEM_FLAG_MAINTAIN_CONTINUITY = 8"
definition VMEM_ERR_NOSPACE :: int where "VMEM_ERR_NOSPACE = - 1"
definition VMEM_ERR_VIRT_OCCUPIED :: int where "VMEM_ERR_VIRT_OCCUPIED = - 3"
definition VMEM_NOT_MAPPED :: int where "VMEM_NOT_MAPPED = - 4"

definition get_mem_unit_size :: u64 where
  "get_mem_unit_size = PAGE_SIZE"

record vmem =
  v_alloc :: alloc_st
  cur_hndl :: addr
  cr3 :: addr

definition vheap :: "vmem \<Rightarrow> kmem" where
  "vheap s = a_heap (v_alloc s)"

definition set_vheap :: "kmem \<Rightarrow> vmem \<Rightarrow> vmem" where
  "set_vheap h s = s\<lparr>v_alloc := (v_alloc s)\<lparr>a_heap := h\<rparr>\<rparr>"

definition ld64 :: "addr \<Rightarrow> vmem \<Rightarrow> u64" where
  "ld64 a s = load64 (kmem_mem (vheap s)) a"

definition st64 :: "addr \<Rightarrow> u64 \<Rightarrow> vmem \<Rightarrow> vmem" where
  "st64 a v s = set_vheap ((vheap s)\<lparr>kmem_mem := store64 (kmem_mem (vheap s)) a v\<rparr>) s"

definition get_pml4e :: "addr \<Rightarrow> vmem \<Rightarrow> addr" where
  "get_pml4e va s = ld64 (cur_hndl s) s OR push_bit 3 (get_bits va 39 48)"

definition get_pdpte :: "addr \<Rightarrow> u64 \<Rightarrow> addr" where
  "get_pdpte va pml4e = (pml4e AND 0xFFFFFFFFFF000) OR push_bit 3 (get_bits va 30 39)"

definition get_pde :: "addr \<Rightarrow> u64 \<Rightarrow> addr" where
  "get_pde va pdpte = (pdpte AND 0xFFFFFFFFFF000) OR push_bit 3 (get_bits va 21 30)"

definition get_pte :: "addr \<Rightarrow> u64 \<Rightarrow> addr" where
  "get_pte va pde = (pde AND 0xFFFFFFFFFF000) OR push_bit 3 (get_bits va 12 21)"

definition get_pde_physaddr :: "addr \<Rightarrow> u64 \<Rightarrow> addr" where
  "get_pde_physaddr va pde = (pde AND 0xFFFFFFFE00000) OR get_bits va 0 21"

definition get_pte_physaddr :: "addr \<Rightarrow> u64 \<Rightarrow> addr" where
  "get_pte_physaddr va pte = (pte AND 0xFFFFFFFFFF000) OR get_bits va 0 12"

abbreviation present :: "u64 \<Rightarrow> bool" where
  "present e \<equiv> e AND PFLAG_PRESENT \<noteq> 0"

section \<open>Memory handles\<close>

definition kmalloc_table :: "unit map_hooks \<Rightarrow> vmem \<Rightarrow> (vmem \<times> addr) option" where
  "kmalloc_table hooks s =
     do { (h, p) \<leftarrow> kmalloc_align hooks (8 * of_nat PT_ENTRIES) PAGE_SIZE (vheap s); Some (set_vheap h s, p) }"

definition zero_table :: "addr \<Rightarrow> vmem \<Rightarrow> vmem" where
  "zero_table p s = fold (\<lambda>i. st64 (p + 8 * of_nat i) 0) [0..<PT_ENTRIES] s"

definition create_mem_hndl :: "unit map_hooks \<Rightarrow> addr \<Rightarrow> vmem \<Rightarrow> (vmem \<times> int) option" where
  "create_mem_hndl hooks hndl s =
     do {
       (s1, p) \<leftarrow> kmalloc_table hooks s;
       let s2 = st64 hndl p s1;
       if ld64 hndl s2 = NULL then Some (s2, VMEM_ERR_NOSPACE) else Some (zero_table (ld64 hndl s2) s2, 0)
     }"

definition get_current_mem_hndl :: "vmem \<Rightarrow> addr" where
  "get_current_mem_hndl s = cur_hndl s"

definition select_mem_hndl :: "addr \<Rightarrow> bool \<Rightarrow> vmem \<Rightarrow> vmem \<times> int" where
  "select_mem_hndl hndl activate s =
     (let s1 = s\<lparr>cur_hndl := hndl\<rparr> in (if activate then s1\<lparr>cr3 := ld64 hndl s1\<rparr> else s1, 0))"

definition kfree_v :: "addr \<Rightarrow> vmem \<Rightarrow> vmem option" where
  "kfree_v p s = do { h \<leftarrow> kfree p (vheap s); Some (set_vheap h s) }"

fun destroy_pdpt :: "u64 \<Rightarrow> nat list \<Rightarrow> vmem \<Rightarrow> vmem option" where
  "destroy_pdpt pml4e [] s = Some s"
| "destroy_pdpt pml4e (j # js) s =
     do {
       let e = ld64 (get_pdpte 0 pml4e + 8 * of_nat j) s;
       s1 \<leftarrow> (if present e then kfree_v (get_pde 0 e) s else Some s);
       destroy_pdpt pml4e js s1
     }"

fun destroy_pml4 :: "addr \<Rightarrow> nat list \<Rightarrow> vmem \<Rightarrow> vmem option" where
  "destroy_pml4 hndl [] s = Some s"
| "destroy_pml4 hndl (i # is) s =
     do {
       let e = ld64 (ld64 hndl s + 8 * of_nat i) s;
       s1 \<leftarrow> (if present e then do {
               s1 \<leftarrow> destroy_pdpt e [0..<PT_ENTRIES] s;
               kfree_v (get_pdpte 0 (ld64 (ld64 hndl s1 + 8 * of_nat i) s1)) s1
             } else Some s);
       destroy_pml4 hndl is s1
     }"

definition destroy_mem_hndl :: "addr \<Rightarrow> vmem \<Rightarrow> (vmem \<times> int) option" where
  "destroy_mem_hndl hndl s =
     do {
       s1 \<leftarrow> destroy_pml4 hndl [0..<PT_ENTRIES] s;
       s2 \<leftarrow> kfree_v (ld64 hndl s1) s1;
       Some (s2, 0)
     }"

section \<open>Entries for an address\<close>

text \<open>
  The step that \<^verbatim>\<open>make_entry\<close> takes at each of the upper three levels: when the entry at \<open>e\<close> is not present,
  a new empty table is allocated and entered. The flag is false when the heap gave no memory.
\<close>

definition ensure_table :: "unit map_hooks \<Rightarrow> addr \<Rightarrow> vmem \<Rightarrow> (vmem \<times> bool) option" where
  "ensure_table hooks e s =
     (if present (ld64 e s) then Some (s, True)
      else do {
        (s1, p) \<leftarrow> kmalloc_table hooks s;
        if p = NULL then Some (s1, False)
        else do {
          let s2 = zero_table p s1;
          let s3 = st64 e (set_bits (ld64 e s2) p 0) s2;
          Some (st64 e (ld64 e s3 OR (PFLAG_PRESENT OR PFLAG_CANWRITE)) s3, True)
        }
      })"

definition make_entry :: "unit map_hooks \<Rightarrow> addr \<Rightarrow> u64 \<Rightarrow> vmem \<Rightarrow> (vmem \<times> addr) option" where
  "make_entry hooks va page_size s =
     do {
       let pml4e = get_pml4e va s;
       (s1, ok1) \<leftarrow> ensure_table hooks pml4e s;
       if \<not> ok1 then Some (s1, NULL)
       else do {
         let pdpte = get_pdpte va (ld64 pml4e s1);
         (s2, ok2) \<leftarrow> ensure_table hooks pdpte s1;
         if \<not> ok2 then Some (s2, NULL)
         else do {
           let pde = get_pde va (ld64 pdpte s2);
           if page_size = PAGE_SIZE2 then Some (st64 pde (ld64 pde s2 OR PFLAG_PSIZE) s2, pde)
           else do {
             (s3, ok3) \<leftarrow> ensure_table hooks pde s2;
             if \<not> ok3 then Some (s3, NULL) else Some (s3, get_pte va (ld64 pde s3))
           }
         }
       }
     }"

definition get_entry :: "addr \<Rightarrow> vmem \<Rightarrow> addr" where
  "get_entry va s =
     (let pml4e = get_pml4e va s in
      if \<not> present (ld64 pml4e s) then NULL
      else let pdpte = get_pdpte va (ld64 pml4e s) in
      if \<not> present (ld64 pdpte s) then NULL
      else let pde = get_pde va (ld64 pdpte s) in
      if \<not> present (ld64 pde s) then NULL
      else if ld64 pde s AND PFLAG_PSIZE \<noteq> 0 then pde
      else get_pte va (ld64 pde s))"

section \<open>Mapping\<close>

definition vmemory_init :: "unit map_hooks \<Rightarrow> u64 \<Rightarrow> vmem \<Rightarrow> (vmem \<times> int) option" where
  "vmemory_init hooks mem_limit s =
     do { t \<leftarrow> allocator_init hooks mem_limit (v_alloc s); Some (s\<lparr>v_alloc := t\<rparr>, 0) }"

definition map_entry :: "unit map_hooks \<Rightarrow> u64 \<Rightarrow> addr \<Rightarrow> addr \<Rightarrow> vmem \<Rightarrow> (vmem \<times> int) option" where
  "map_entry hooks page_size va pa s =
     do {
       (s1, ent) \<leftarrow> make_entry hooks va page_size s;
       if ent = NULL then Some (s1, VMEM_ERR_NOSPACE)
       else if present (ld64 ent s1) then Some (s1, VMEM_ERR_VIRT_OCCUPIED)
       else
         let s2 = st64 ent (set_bits (ld64 ent s1) pa 0) s1
         in Some (st64 ent (ld64 ent s2 OR (PFLAG_PRESENT OR PFLAG_CANWRITE)) s2, 0)
     }"

definition map_page :: "unit map_hooks \<Rightarrow> addr \<Rightarrow> addr \<Rightarrow> vmem \<Rightarrow> (vmem \<times> int) option" where
  "map_page hooks = map_entry hooks PAGE_SIZE"

definition map_page2 :: "unit map_hooks \<Rightarrow> addr \<Rightarrow> addr \<Rightarrow> vmem \<Rightarrow> (vmem \<times> int) option" where
  "map_page2 hooks = map_entry hooks PAGE_SIZE2"

definition alloc_frame :: "unit map_hooks \<Rightarrow> u64 \<Rightarrow> u64 \<Rightarrow> vmem \<Rightarrow> (vmem \<times> addr) option" where
  "alloc_frame hooks sz align s =
     do { (t, p) \<leftarrow> allocator_alloc_align hooks sz align (v_alloc s); Some (s\<lparr>v_alloc := t\<rparr>, p) }"

definition map_page_alloc :: "unit map_hooks \<Rightarrow> addr \<Rightarrow> vmem \<Rightarrow> (vmem \<times> int) option" where
  "map_page_alloc hooks va s =
     do {
       (s1, pa) \<leftarrow> alloc_frame hooks PAGE_SIZE PAGE_SIZE s;
       if pa = - 1 then Some (s1, VMEM_ERR_NOSPACE) else map_page hooks va pa s1
     }"

text \<open>\<^verbatim>\<open>MAP_PAGE2_ALLOC\<close> leaves the loop it stands in when there is no large frame: the result has no code then.\<close>

definition map_page2_alloc :: "unit map_hooks \<Rightarrow> addr \<Rightarrow> vmem \<Rightarrow> (vmem \<times> int option) option" where
  "map_page2_alloc hooks va s =
     do {
       (s1, pa) \<leftarrow> alloc_frame hooks PAGE_SIZE2 PAGE_SIZE2 s;
       if pa = - 1 then Some (s1, None)
       else do { (s2, r) \<leftarrow> map_page2 hooks va pa s1; Some (s2, Some r) }
     }"

definition unmap_entry :: "unit map_hooks \<Rightarrow> u64 \<Rightarrow> addr \<Rightarrow> vmem \<Rightarrow> (vmem \<times> int) option" where
  "unmap_entry hooks page_size va s =
     (let ent = get_entry va s in
      if ent = NULL then Some (s, VMEM_NOT_MAPPED)
      else do {
        t \<leftarrow> allocator_free hooks (get_pde_physaddr va (ld64 ent s)) page_size (v_alloc s);
        let s1 = s\<lparr>v_alloc := t\<rparr>;
        Some (st64 ent (ld64 ent s1 AND NOT PFLAG_PRESENT) s1, 0)
      })"

definition unmap_page :: "unit map_hooks \<Rightarrow> addr \<Rightarrow> vmem \<Rightarrow> (vmem \<times> int) option" where
  "unmap_page hooks = unmap_entry hooks PAGE_SIZE"

definition unmap_page2 :: "unit map_hooks \<Rightarrow> addr \<Rightarrow> vmem \<Rightarrow> (vmem \<times> int) option" where
  "unmap_page2 hooks = unmap_entry hooks PAGE_SIZE2"

definition size_in_pages :: "u64 \<Rightarrow> u32 \<Rightarrow> u64" where
  "size_in_pages usize flags =
     (if flags AND VMEM_FLAG_SIZE_IN_BYTES \<noteq> 0 then (usize + (PAGE_SIZE - 1)) div PAGE_SIZE else usize)"

text \<open>
  The loops of \<^verbatim>\<open>map_phys\<close>, \<^verbatim>\<open>map_alloc\<close> and \<^verbatim>\<open>unmap\<close>. Each returns the code of a failed step at once,
  otherwise how many pages are left and where.
\<close>

partial_function (option) map_head_loop ::
  "unit map_hooks \<Rightarrow> u64 \<Rightarrow> addr \<Rightarrow> addr \<Rightarrow> vmem \<Rightarrow> (vmem \<times> int \<times> u64 \<times> addr \<times> addr) option" where
  "map_head_loop hooks usize va pa s =
     (if usize \<noteq> 0 \<and> pa mod PAGE_SIZE2 > 0 \<and> va mod PAGE_SIZE2 > 0 then do {
        (s1, r) \<leftarrow> map_page hooks va pa s;
        if r \<noteq> 0 then Some (s1, r, usize, va, pa)
        else map_head_loop hooks (usize - 1) (va + PAGE_SIZE) (pa + PAGE_SIZE) s1
      } else Some (s, 0, usize, va, pa))"

declare map_head_loop.simps [code]

partial_function (option) map_large_loop ::
  "unit map_hooks \<Rightarrow> u64 \<Rightarrow> addr \<Rightarrow> addr \<Rightarrow> vmem \<Rightarrow> (vmem \<times> int \<times> u64 \<times> addr \<times> addr) option" where
  "map_large_loop hooks usize va pa s =
     (if usize \<ge> PAGE_SIZE2 div PAGE_SIZE then do {
        (s1, r) \<leftarrow> map_page2 hooks va pa s;
        if r \<noteq> 0 then Some (s1, r, usize, va, pa)
        else map_large_loop hooks (usize - PAGE_SIZE2 div PAGE_SIZE) (va + PAGE_SIZE2) (pa + PAGE_SIZE2) s1
      } else Some (s, 0, usize, va, pa))"

declare map_large_loop.simps [code]

partial_function (option) map_tail_loop ::
  "unit map_hooks \<Rightarrow> u64 \<Rightarrow> addr \<Rightarrow> addr \<Rightarrow> vmem \<Rightarrow> (vmem \<times> int) option" where
  "map_tail_loop hooks usize va pa s =
     (if usize \<noteq> 0 then do {
        (s1, r) \<leftarrow> map_page hooks va pa s;
        if r \<noteq> 0 then Some (s1, r)
        else map_tail_loop hooks (usize - 1) (va + PAGE_SIZE) (pa + PAGE_SIZE) s1
      } else Some (s, 0))"

declare map_tail_loop.simps [code]

definition map_range :: "unit map_hooks \<Rightarrow> u64 \<Rightarrow> addr \<Rightarrow> addr \<Rightarrow> vmem \<Rightarrow> (vmem \<times> int) option" where
  "map_range hooks usize va pa s =
     do {
       (s1, r1, n1, va1, pa1) \<leftarrow> map_head_loop hooks usize va pa s;
       if r1 \<noteq> 0 then Some (s1, r1)
       else do {
         (s2, r2, n2, va2, pa2) \<leftarrow> map_large_loop hooks n1 va1 pa1 s1;
         if r2 \<noteq> 0 then Some (s2, r2) else map_tail_loop hooks n2 va2 pa2 s2
       }
     }"

partial_function (option) map_alloc_pages_loop ::
  "unit map_hooks \<Rightarrow> bool \<Rightarrow> u64 \<Rightarrow> addr \<Rightarrow> vmem \<Rightarrow> (vmem \<times> int \<times> u64 \<times> addr) option" where
  "map_alloc_pages_loop hooks to_end usize va s =
     (if usize \<noteq> 0 \<and> (to_end \<or> va mod PAGE_SIZE2 > 0) then do {
        (s1, r) \<leftarrow> map_page_alloc hooks va s;
        if r \<noteq> 0 then Some (s1, r, usize, va)
        else map_alloc_pages_loop hooks to_end (usize - 1) (va + PAGE_SIZE) s1
      } else Some (s, 0, usize, va))"

declare map_alloc_pages_loop.simps [code]

partial_function (option) map_alloc_large_loop ::
  "unit map_hooks \<Rightarrow> u64 \<Rightarrow> addr \<Rightarrow> vmem \<Rightarrow> (vmem \<times> int \<times> u64 \<times> addr) option" where
  "map_alloc_large_loop hooks usize va s =
     (if usize \<ge> PAGE_SIZE2 div PAGE_SIZE then do {
        (s1, r) \<leftarrow> map_page2_alloc hooks va s;
        case r of
          None \<Rightarrow> Some (s1, 0, usize, va)
        | Some e \<Rightarrow>
            if e \<noteq> 0 then Some (s1, e, usize, va)
            else map_alloc_large_loop hooks (usize - PAGE_SIZE2 div PAGE_SIZE) (va + PAGE_SIZE2) s1
      } else Some (s, 0, usize, va))"

declare map_alloc_large_loop.simps [code]

definition map_alloc :: "unit map_hooks \<Rightarrow> addr \<Rightarrow> u64 \<Rightarrow> u32 \<Rightarrow> vmem \<Rightarrow> (vmem \<times> int) option" where
  "map_alloc hooks va usize0 flags s =
     (let usize = size_in_pages usize0 flags in
      if flags AND VMEM_FLAG_MAINTAIN_CONTINUITY \<noteq> 0 then do {
        (s1, pa) \<leftarrow> alloc_frame hooks (usize * PAGE_SIZE) PAGE_SIZE s;
        if pa = - 1 then Some (s1, VMEM_ERR_NOSPACE) else map_range hooks usize va pa s1
      } else do {
        (s1, r1, n1, va1) \<leftarrow> map_alloc_pages_loop hooks False usize va s;
        if r1 \<noteq> 0 then Some (s1, r1)
        else do {
          (s2, r2, n2, va2) \<leftarrow> map_alloc_large_loop hooks n1 va1 s1;
          if r2 \<noteq> 0 then Some (s2, r2)
          else do {
            (s3, r3, _, _) \<leftarrow> map_alloc_pages_loop hooks True n2 va2 s2;
            Some (s3, r3)
          }
        }
      })"

definition map_phys :: "unit map_hooks \<Rightarrow> addr \<Rightarrow> addr \<Rightarrow> u64 \<Rightarrow> u32 \<Rightarrow> vmem \<Rightarrow> (vmem \<times> int) option" where
  "map_phys hooks va pa usize0 flags s =
     do {
       let usize = size_in_pages usize0 flags;
       (t, _) \<leftarrow> allocator_alloc_addr hooks (usize * PAGE_SIZE) pa (v_alloc s);
       map_range hooks usize va pa (s\<lparr>v_alloc := t\<rparr>)
     }"

partial_function (option) unmap_pages_loop ::
  "unit map_hooks \<Rightarrow> bool \<Rightarrow> u64 \<Rightarrow> addr \<Rightarrow> vmem \<Rightarrow> (vmem \<times> int \<times> u64 \<times> addr) option" where
  "unmap_pages_loop hooks to_end usize va s =
     (if usize \<noteq> 0 \<and> (to_end \<or> va mod PAGE_SIZE2 > 0) then do {
        (s1, r) \<leftarrow> unmap_page hooks va s;
        if r \<noteq> 0 then Some (s1, r, usize, va)
        else unmap_pages_loop hooks to_end (usize - 1) (va + PAGE_SIZE) s1
      } else Some (s, 0, usize, va))"

declare unmap_pages_loop.simps [code]

partial_function (option) unmap_large_loop ::
  "unit map_hooks \<Rightarrow> u64 \<Rightarrow> addr \<Rightarrow> vmem \<Rightarrow> (vmem \<times> int \<times> u64 \<times> addr) option" where
  "unmap_large_loop hooks usize va s =
     (if usize \<ge> PAGE_SIZE2 div PAGE_SIZE then do {
        (s1, r) \<leftarrow> unmap_page2 hooks va s;
        if r \<noteq> 0 then Some (s1, r, usize, va)
        else unmap_large_loop hooks (usize - PAGE_SIZE2 div PAGE_SIZE) (va + PAGE_SIZE2) s1
      } else Some (s, 0, usize, va))"

declare unmap_large_loop.simps [code]

definition unmap :: "unit map_hooks \<Rightarrow> addr \<Rightarrow> u64 \<Rightarrow> u32 \<Rightarrow> vmem \<Rightarrow> (vmem \<times> int) option" where
  "unmap hooks va usize0 flags s =
     do {
       let usize = size_in_pages usize0 flags;
       (s1, r1, n1, va1) \<leftarrow> unmap_pages_loop hooks False usize va s;
       if r1 \<noteq> 0 then Some (s1, r1)
       else do {
         (s2, r2, n2, va2) \<leftarrow> unmap_large_loop hooks n1 va1 s1;
         if r2 \<noteq> 0 then Some (s2, r2)
         else do {
           (s3, r3, _, _) \<leftarrow> unmap_pages_loop hooks True n2 va2 s2;
           Some (s3, r3)
         }
       }
     }"

section \<open>The processor's translation\<close>

definition walk :: "addr \<Rightarrow> vmem \<Rightarrow> addr option" where
  "walk va s =
     (let e1 = ld64 (get_pml4e va s) s in
      if \<not> present e1 then None
      else let e2 = ld64 (get_pdpte va e1) s in
      if \<not> present e2 then None
      else let e3 = ld64 (get_pde va e2) s in
      if \<not> present e3 then None
      else if e3 AND PFLAG_PSIZE \<noteq> 0 then Some (get_pde_physaddr va e3)
      else let e4 = ld64 (get_pte va e3) s in
      if \<not> present e4 then None else Some (get_pte_physaddr va e4))"

section \<open>Aligned entries\<close>

definition al8 :: "addr \<Rightarrow> bool" where
  "al8 a \<longleftrightarrow> take_bit 3 a = 0"

lemma al8_dvd: "al8 a \<Longrightarrow> 8 dvd unat a"
proof -
  assume "al8 a"
  then have "take_bit 3 (unat a) = 0" by (simp add: al8_def flip: unsigned_take_bit_eq)
  then show ?thesis by (simp add: take_bit_eq_mod mod_eq_0_iff_dvd)
qed

lemma al8_disjoint: "al8 a \<Longrightarrow> al8 b \<Longrightarrow> a \<noteq> b \<Longrightarrow> ranges_disjoint a 8 b 8"
proof -
  assume a: "al8 a" "al8 b" "a \<noteq> b"
  have big: "8 \<le> unat (x - y)" if "8 dvd unat x" "8 dvd unat y" "x \<noteq> y" for x y :: u64
  proof -
    have "8 dvd unat (x - y)"
    proof (cases "unat y \<le> unat x")
      case True
      with that show ?thesis by (simp add: unat_diff_le)
    next
      case False
      then have "unat (x - y) = 2 ^ 64 - (unat y - unat x)" by (simp add: unat_diff_lt)
      moreover have "(8 :: nat) dvd 2 ^ 64" by simp
      ultimately show ?thesis using that(1,2) by (metis dvd_diff_nat)
    qed
    moreover have "unat (x - y) \<noteq> 0" using that(3) by (simp add: unat_eq_zero)
    ultimately show ?thesis by (simp add: dvd_imp_le)
  qed
  show ?thesis using big [of b a] big [of a b] a al8_dvd by (auto simp: ranges_disjoint_def)
qed

lemma frame_mask: "(0xFFFFFFFFFF000 :: u64) = push_bit 12 (mask 40)" "(0xFFFFFFFE00000 :: u64) = push_bit 21 (mask 31)"
  by (simp_all add: mask_eq_exp_minus_1 push_bit_eq_mult)

lemma get_bits_take: "get_bits e start end = take_bit (end - start) (drop_bit start e)"
proof -
  have "push_bit (end - start) 1 - 1 = (mask (end - start) :: u64)"
    by (simp only: mask_eq_exp_minus_1 push_bit_eq_mult mult_1_left)
  then show ?thesis by (simp only: get_bits_def take_bit_eq_mask)
qed

lemma al8_entries: "al8 (get_pdpte va e)" "al8 (get_pde va e)" "al8 (get_pte va e)"
  unfolding al8_def get_pdpte_def get_pde_def get_pte_def frame_mask
  by (rule bit_word_eqI; simp add: bit_simps)+

lemma al8_or: "al8 t \<Longrightarrow> al8 (t OR push_bit 3 i)"
proof -
  assume t: "al8 t"
  have "take_bit 3 (t OR push_bit 3 i) = take_bit 3 t" by (rule bit_word_eqI) (auto simp: bit_simps)
  with t show ?thesis by (simp add: al8_def)
qed

section \<open>Loads and stores of entries\<close>

lemma vheap_set [simp]: "vheap (set_vheap h s) = h" "cur_hndl (set_vheap h s) = cur_hndl s"
  by (simp_all add: vheap_def set_vheap_def)

lemma ld_st [simp]:
  "ld64 a (st64 a v s) = v" "al8 a \<Longrightarrow> al8 b \<Longrightarrow> a \<noteq> b \<Longrightarrow> ld64 b (st64 a v s) = ld64 b s"
  "cur_hndl (st64 a v s) = cur_hndl s"
  by (simp_all add: ld64_def st64_def load64_store64_same load64_store64_disjoint al8_disjoint)

section \<open>The path of an address\<close>

text \<open>The places that are read when an address is translated: the handle and one entry per level.\<close>

definition e1 :: "addr \<Rightarrow> vmem \<Rightarrow> addr" where "e1 va s = get_pml4e va s"
definition e2 :: "addr \<Rightarrow> vmem \<Rightarrow> addr" where "e2 va s = get_pdpte va (ld64 (e1 va s) s)"
definition e3 :: "addr \<Rightarrow> vmem \<Rightarrow> addr" where "e3 va s = get_pde va (ld64 (e2 va s) s)"
definition e4 :: "addr \<Rightarrow> vmem \<Rightarrow> addr" where "e4 va s = get_pte va (ld64 (e3 va s) s)"

definition upper_path :: "addr \<Rightarrow> vmem \<Rightarrow> addr set" where
  "upper_path va s = {cur_hndl s, e1 va s, e2 va s, e3 va s}"

definition hndl_ok :: "vmem \<Rightarrow> bool" where
  "hndl_ok s \<longleftrightarrow> al8 (cur_hndl s) \<and> al8 (ld64 (cur_hndl s) s)"

text \<open>The page table that maps \<open>va\<close> exists, with 4 KB pages.\<close>

definition has_pt :: "addr \<Rightarrow> vmem \<Rightarrow> bool" where
  "has_pt va s \<longleftrightarrow> present (ld64 (e1 va s) s) \<and> present (ld64 (e2 va s) s) \<and> present (ld64 (e3 va s) s) \<and>
     ld64 (e3 va s) s AND PFLAG_PSIZE = 0"

lemma al8_path: "al8 (e2 va s)" "al8 (e3 va s)" "al8 (e4 va s)" "hndl_ok s \<Longrightarrow> al8 (e1 va s)"
  by (simp_all add: e1_def e2_def e3_def e4_def al8_entries get_pml4e_def hndl_ok_def al8_or)

lemma path_st:
  assumes "hndl_ok s" "al8 a" "a \<notin> upper_path va s"
  shows "e1 va (st64 a v s) = e1 va s" "e2 va (st64 a v s) = e2 va s" "e3 va (st64 a v s) = e3 va s"
    "e4 va (st64 a v s) = e4 va s" "ld64 (e1 va s) (st64 a v s) = ld64 (e1 va s) s"
    "ld64 (e2 va s) (st64 a v s) = ld64 (e2 va s) s" "ld64 (e3 va s) (st64 a v s) = ld64 (e3 va s) s"
    "hndl_ok (st64 a v s)"
proof -
  have h: "ld64 (cur_hndl s) (st64 a v s) = ld64 (cur_hndl s) s" "hndl_ok (st64 a v s)"
    using assms by (auto simp: upper_path_def hndl_ok_def)
  show 1: "e1 va (st64 a v s) = e1 va s" using h by (simp add: e1_def get_pml4e_def)
  show l1: "ld64 (e1 va s) (st64 a v s) = ld64 (e1 va s) s"
    using assms al8_path(4) by (auto simp: upper_path_def)
  show 2: "e2 va (st64 a v s) = e2 va s" using 1 l1 by (simp add: e2_def)
  show l2: "ld64 (e2 va s) (st64 a v s) = ld64 (e2 va s) s"
    using assms al8_path(1) by (auto simp: upper_path_def)
  show 3: "e3 va (st64 a v s) = e3 va s" using 2 l2 by (simp add: e3_def)
  show l3: "ld64 (e3 va s) (st64 a v s) = ld64 (e3 va s) s"
    using assms al8_path(2) by (auto simp: upper_path_def)
  show "e4 va (st64 a v s) = e4 va s" using 3 l3 by (simp add: e4_def)
  show "hndl_ok (st64 a v s)" by (fact h(2))
qed

lemma walk_path:
  "walk va s =
     (if \<not> present (ld64 (e1 va s) s) \<or> \<not> present (ld64 (e2 va s) s) \<or> \<not> present (ld64 (e3 va s) s) then None
      else if ld64 (e3 va s) s AND PFLAG_PSIZE \<noteq> 0 then Some (get_pde_physaddr va (ld64 (e3 va s) s))
      else if \<not> present (ld64 (e4 va s) s) then None else Some (get_pte_physaddr va (ld64 (e4 va s) s)))"
  by (simp add: walk_def e1_def e2_def e3_def e4_def Let_def)

lemma walk_other:
  assumes "hndl_ok s" "al8 a" "a \<notin> upper_path va s" "a \<noteq> e4 va s"
  shows "walk va (st64 a v s) = walk va s"
proof -
  have "ld64 (e4 va s) (st64 a v s) = ld64 (e4 va s) s" using assms al8_path(3) by simp
  then show ?thesis by (simp add: walk_path path_st [OF assms(1-3)])
qed

lemma walk_e4:
  assumes "hndl_ok s" "has_pt va s" "e4 va s \<notin> upper_path va s"
  shows "walk va (st64 (e4 va s) v s) = (if present v then Some (get_pte_physaddr va v) else None)"
  using assms(2) by (simp add: walk_path path_st [OF assms(1) al8_path(3) assms(3)] has_pt_def)

lemma get_entry_path: "has_pt va s \<Longrightarrow> get_entry va s = e4 va s"
  by (simp add: get_entry_def has_pt_def e1_def e2_def e3_def e4_def Let_def)

lemma make_entry_path: "has_pt va s \<Longrightarrow> make_entry hooks va PAGE_SIZE s = Some (s, e4 va s)"
  by (simp add: make_entry_def has_pt_def e1_def e2_def e3_def e4_def Let_def ensure_table_def PAGE_SIZE_def PAGE_SIZE2_def)

lemma make_entry2_path:
  "has_pt va s \<Longrightarrow> make_entry hooks va PAGE_SIZE2 s = Some (st64 (e3 va s) (ld64 (e3 va s) s OR PFLAG_PSIZE) s, e3 va s)"
  by (simp add: make_entry_def has_pt_def e1_def e2_def e3_def Let_def ensure_table_def)

section \<open>Frames\<close>

lemma three_mask: "(3 :: u64) = mask 2"
  by (simp add: mask_eq_exp_minus_1)

definition frame_ok :: "addr \<Rightarrow> bool" where
  "frame_ok pa \<longleftrightarrow> pa AND 0xFFFFFFFFFF000 = pa"

lemma frame_bits: "frame_ok pa \<Longrightarrow> bit pa n \<Longrightarrow> 12 \<le> n \<and> n < 52"
proof -
  assume "frame_ok pa" "bit pa n"
  then have "bit (pa AND push_bit 12 (mask 40)) n" by (simp add: frame_ok_def frame_mask)
  then show ?thesis by (auto simp: bit_simps)
qed

lemma pte_frame_stale:
  "frame_ok pa \<Longrightarrow> get_pte_physaddr va (old OR pa OR 3) = pa OR (old AND 0xFFFFFFFFFF000) OR take_bit 12 va"
  unfolding get_pte_physaddr_def frame_mask get_bits_take three_mask
  by (rule bit_word_eqI) (auto simp: bit_simps dest: frame_bits)

lemma frame_or_eq:
  assumes "frame_ok pa"
  shows "pa OR (old AND 0xFFFFFFFFFF000) OR take_bit 12 va = pa OR take_bit 12 va \<longleftrightarrow> pa OR (old AND 0xFFFFFFFFFF000) = pa"
proof
  let ?M = "push_bit 12 (mask 40) :: u64"
  have "(pa OR (old AND ?M) OR take_bit 12 va) AND ?M = pa OR (old AND ?M)" "(pa OR take_bit 12 va) AND ?M = pa"
    by (rule bit_word_eqI, auto simp: bit_simps dest: frame_bits [OF assms])+
  then show "pa OR (old AND 0xFFFFFFFFFF000) = pa"
    if "pa OR (old AND 0xFFFFFFFFFF000) OR take_bit 12 va = pa OR take_bit 12 va"
    using that unfolding frame_mask by simp
next
  assume "pa OR (old AND 0xFFFFFFFFFF000) = pa"
  then show "pa OR (old AND 0xFFFFFFFFFF000) OR take_bit 12 va = pa OR take_bit 12 va"
    by (simp flip: or.assoc)
qed

lemma pte_frame: "frame_ok pa \<Longrightarrow> get_pte_physaddr va (pa OR 3) = pa OR take_bit 12 va"
  unfolding get_pte_physaddr_def frame_mask get_bits_take three_mask
  by (rule bit_word_eqI) (auto simp: bit_simps dest: frame_bits)

lemma pde_frame: "get_pde_physaddr va (pa OR 3) = (pa AND 0xFFFFFFFE00000) OR take_bit 21 va"
  unfolding get_pde_physaddr_def frame_mask get_bits_take three_mask
  by (rule bit_word_eqI) (auto simp: bit_simps)

lemma pde_frame_eq:
  assumes "frame_ok pa"
  shows "get_pde_physaddr va (pa OR 3) = pa \<longleftrightarrow> take_bit 21 va = take_bit 21 pa"
proof -
  have "pa = (pa AND push_bit 21 (mask 31)) OR take_bit 21 pa"
    by (rule bit_word_eqI) (auto simp: bit_simps dest: frame_bits [OF assms])
  moreover have "take_bit 21 ((pa AND push_bit 21 (mask 31)) OR take_bit 21 x) = take_bit 21 x" for x :: u64
    by (rule bit_word_eqI) (auto simp: bit_simps)
  ultimately show ?thesis unfolding pde_frame frame_mask by metis
qed

section \<open>A state with one page table\<close>

definition demo_vmem :: "u64 \<Rightarrow> vmem" where
  "demo_vmem pte =
     st64 0x5008 pte (st64 0x4000 0x5003 (st64 0x3000 0x4003 (st64 0x2000 0x3003 (st64 0x1000 0x2000
       \<lparr>v_alloc = state_of tree2, cur_hndl = 0x1000, cr3 = 0x2000\<rparr>))))"

lemma demo_loads:
  "cur_hndl (demo_vmem e) = 0x1000" "ld64 0x1000 (demo_vmem e) = 0x2000" "ld64 0x2000 (demo_vmem e) = 0x3003"
  "ld64 0x3000 (demo_vmem e) = 0x4003" "ld64 0x4000 (demo_vmem e) = 0x5003" "ld64 0x5008 (demo_vmem e) = e"
  by (simp_all add: demo_vmem_def al8_def take_bit_eq_mod)

lemma demo_path:
  "e1 0x1234 (demo_vmem e) = 0x2000" "e2 0x1234 (demo_vmem e) = 0x3000" "e3 0x1234 (demo_vmem e) = 0x4000"
  "e4 0x1234 (demo_vmem e) = 0x5008"
  by (simp_all add: e1_def e2_def e3_def e4_def get_pml4e_def get_pdpte_def get_pde_def get_pte_def demo_loads get_bits_def)

lemma demo_ok:
  "hndl_ok (demo_vmem e)" "has_pt 0x1234 (demo_vmem e)" "e4 0x1234 (demo_vmem e) \<notin> upper_path 0x1234 (demo_vmem e)"
  "e4 0x1234 (demo_vmem e) \<noteq> NULL"
  "e3 0x1234 (demo_vmem e) \<notin> {cur_hndl (demo_vmem e), e1 0x1234 (demo_vmem e), e2 0x1234 (demo_vmem e)}"
  "e3 0x1234 (demo_vmem e) \<noteq> NULL"
  by (simp_all add: hndl_ok_def has_pt_def upper_path_def demo_path demo_loads al8_def take_bit_eq_mod PFLAG_PRESENT_def
      PFLAG_PSIZE_def)

section \<open>Properties\<close>

text \<open>
  C37: Mapping a 4 KB page when the page table for it exists (its entry not being one of the places read
  above it): on a present entry \<^verbatim>\<open>MAP_PAGE\<close> reports the address as occupied and changes nothing; on any
  other it succeeds, and the processor then translates every address of the page to the same offset in the
  frame whose number is the new frame's with all bits of the frame that the entry held before still set. This
  is the new frame exactly when the entry held no other bits, as an empty entry does and one that \<^verbatim>\<open>UNMAP_PAGE\<close> left
  behind in general does not. Every other place read as an entry keeps its value, and so every address that
  does not pass through this entry is translated as before.
\<close>

theorem map_page_translates:
  assumes h: "hndl_ok s" "has_pt va s" "e4 va s \<notin> upper_path va s" "e4 va s \<noteq> NULL" and fr: "frame_ok pa"
  defines "old \<equiv> ld64 (e4 va s) s"
  shows "if present old then map_page hooks va pa s = Some (s, VMEM_ERR_VIRT_OCCUPIED)
    else \<exists>s'. map_page hooks va pa s = Some (s', 0) \<and>
      walk va s' = Some (pa OR (old AND 0xFFFFFFFFFF000) OR take_bit 12 va) \<and>
      (walk va s' = Some (pa OR take_bit 12 va) \<longleftrightarrow> pa OR (old AND 0xFFFFFFFFFF000) = pa) \<and>
      (\<forall>a. al8 a \<longrightarrow> a \<noteq> e4 va s \<longrightarrow> ld64 a s' = ld64 a s) \<and>
      (\<forall>va'. e4 va s \<notin> upper_path va' s \<longrightarrow> e4 va s \<noteq> e4 va' s \<longrightarrow> walk va' s' = walk va' s)"
proof (cases "present old")
  case True
  with h show ?thesis by (simp add: old_def map_page_def map_entry_def make_entry_path)
next
  case False
  let ?v = "old OR pa OR (PFLAG_PRESENT OR PFLAG_CANWRITE)"
  let ?s1 = "st64 (e4 va s) (old OR pa) s"
  let ?s = "st64 (e4 va s) ?v ?s1"
  have v: "?v = old OR pa OR 3" by (simp add: PFLAG_PRESENT_def PFLAG_CANWRITE_def)
  have p1: "hndl_ok ?s1" "has_pt va ?s1" "e4 va ?s1 = e4 va s" "upper_path va ?s1 = upper_path va s"
    using path_st [OF h(1) al8_path(3) h(3), of "old OR pa"] h(2) by (simp_all add: has_pt_def upper_path_def)
  have run: "map_page hooks va pa s = Some (?s, 0)"
    using h False by (simp add: old_def map_page_def map_entry_def make_entry_path Let_def set_bits_def or.assoc)
  have "present ?v"
  proof -
    have "bit (?v AND PFLAG_PRESENT) 0" by (simp add: v three_mask bit_simps PFLAG_PRESENT_def)
    then show ?thesis by auto
  qed
  then have "walk va ?s = Some (pa OR (old AND 0xFFFFFFFFFF000) OR take_bit 12 va)"
    using walk_e4 [OF p1(1,2), of ?v] p1(3,4) h(3) pte_frame_stale [OF fr, of va old] v by simp
  moreover have "\<forall>a. al8 a \<longrightarrow> a \<noteq> e4 va s \<longrightarrow> ld64 a ?s = ld64 a s" using al8_path(3) by simp
  moreover have "walk va' ?s = walk va' s" if "e4 va s \<notin> upper_path va' s" "e4 va s \<noteq> e4 va' s" for va'
  proof -
    have p: "e4 va' ?s1 = e4 va' s" "upper_path va' ?s1 = upper_path va' s"
      using path_st [OF h(1) al8_path(3) that(1), of "old OR pa"] by (simp_all add: upper_path_def)
    show ?thesis
      using walk_other [OF p1(1) al8_path(3), of va s va' ?v] walk_other [OF h(1) al8_path(3) that, of "old OR pa"] p that by simp
  qed
  ultimately show ?thesis using run False frame_or_eq [OF fr, of old va] by auto
qed

theorem map_page_translates_witness:
  "(\<exists>s'. map_page None 0x1234 0x77000 (demo_vmem 0) = Some (s', 0) \<and> walk 0x1234 s' = Some 0x77234) \<and>
   map_page None 0x1234 0x77000 (demo_vmem 1) = Some (demo_vmem 1, VMEM_ERR_VIRT_OCCUPIED) \<and>
   (\<exists>s'. map_page None 0x1234 0x77000 (demo_vmem 0x88002) = Some (s', 0) \<and> walk 0x1234 s' = Some 0xFF234)"
proof -
  have f: "frame_ok 0x77000" by (simp add: frame_ok_def)
  have e: "ld64 (e4 0x1234 (demo_vmem v)) (demo_vmem v) = v" for v by (simp add: demo_path demo_loads)
  note map_page = map_page_translates [OF demo_ok(1-4) f, where hooks = None, unfolded e]
  have b: "(0x77000 :: u64) OR take_bit 12 0x1234 = 0x77234" "\<not> present 0" "present 1" "\<not> present 0x88002"
    "(0x77000 :: u64) OR (0x88002 AND 0xFFFFFFFFFF000) OR take_bit 12 0x1234 = 0xFF234"
    by (simp_all add: PFLAG_PRESENT_def take_bit_eq_mod)
  from map_page [of 0] map_page [of 1] map_page [of "0x88002"] b show ?thesis by auto
qed

text \<open>
  Mapping a 2 MB page over an address range that already has a page table is reported as occupied,
  but the entry has been changed before the check: the address is now translated with the page table
  itself as its frame.
\<close>

theorem map_page2_occupied_corrupts:
  assumes h: "hndl_ok s" "has_pt va s" "e3 va s \<notin> {cur_hndl s, e1 va s, e2 va s}" "e3 va s \<noteq> NULL"
  shows "\<exists>s'. map_page2 hooks va pa s = Some (s', VMEM_ERR_VIRT_OCCUPIED) \<and>
    walk va s' = Some (get_pde_physaddr va (ld64 (e3 va s) s))"
proof -
  let ?e = "ld64 (e3 va s) s"
  let ?s = "st64 (e3 va s) (?e OR PFLAG_PSIZE) s"
  have al: "al8 (cur_hndl s)" "al8 (e1 va s)" "al8 (e2 va s)" "al8 (e3 va s)"
    using h(1) al8_path by (auto simp: hndl_ok_def)
  have l: "ld64 (cur_hndl s) ?s = ld64 (cur_hndl s) s" "ld64 (e1 va s) ?s = ld64 (e1 va s) s"
    "ld64 (e2 va s) ?s = ld64 (e2 va s) s"
    using al h(3) by auto
  have p: "e1 va ?s = e1 va s" using l(1) by (simp add: e1_def get_pml4e_def)
  then have p2: "e2 va ?s = e2 va s" using l(2) by (simp add: e2_def)
  then have p3: "e3 va ?s = e3 va s" using l(3) by (simp add: e3_def)
  have ps: "(?e OR PFLAG_PSIZE) AND PFLAG_PSIZE \<noteq> 0" by (simp add: PFLAG_PSIZE_def bit.conj_disj_distrib2)
  have pr: "present (?e OR PFLAG_PSIZE)"
    using h(2) by (auto simp: has_pt_def bit.conj_disj_distrib2 or_eq_0_iff)
  have "map_page2 hooks va pa s = Some (?s, VMEM_ERR_VIRT_OCCUPIED)"
    using h pr by (simp add: map_page2_def map_entry_def make_entry2_path)
  moreover have "get_pde_physaddr va (?e OR PFLAG_PSIZE) = get_pde_physaddr va ?e"
  proof -
    have ps7: "PFLAG_PSIZE = push_bit 7 1" by (simp add: PFLAG_PSIZE_def)
    have "n < 8" if "bit PFLAG_PSIZE n" for n using that unfolding ps7 bit_push_bit_iff bit_1_iff by simp
    then have "(?e OR PFLAG_PSIZE) AND push_bit 21 (mask 31) = ?e AND push_bit 21 (mask 31)"
      by (intro bit_word_eqI) (fastforce simp: bit_simps)
    then show ?thesis by (simp add: get_pde_physaddr_def frame_mask)
  qed
  then have "walk va ?s = Some (get_pde_physaddr va ?e)"
    using h(2) ps pr l p p2 p3 by (simp add: walk_path has_pt_def)
  ultimately show ?thesis by blast
qed

theorem map_page2_occupied_corrupts_witness:
  "\<exists>s'. map_page2 None 0x1234 0x200000 (demo_vmem 0) = Some (s', VMEM_ERR_VIRT_OCCUPIED) \<and> walk 0x1234 s' = Some 0x1234"
proof -
  have "get_pde_physaddr 0x1234 (ld64 (e3 0x1234 (demo_vmem 0)) (demo_vmem 0)) = 0x1234"
    by (simp add: demo_path demo_loads get_pde_physaddr_def get_bits_def)
  with map_page2_occupied_corrupts [OF demo_ok(1,2,5,6), of None "0x200000" 0] show ?thesis by simp
qed

text \<open>
  Unmapping a 4 KB page gives back the wrong memory: the frame is taken from the entry with the mask
  and the offset of a 2 MB page. What is released is the mapped frame only when the address and the
  frame have the same offset within 2 MB.
\<close>

theorem unmap_page_frees_wrong_frame:
  assumes "has_pt va s" "e4 va s \<noteq> NULL" "ld64 (e4 va s) s = pa OR 3" "frame_ok pa"
  defines "freed \<equiv> (pa AND 0xFFFFFFFE00000) OR take_bit 21 va"
  shows "unmap_page hooks va s = do {
      t \<leftarrow> allocator_free hooks freed PAGE_SIZE (v_alloc s);
      let s1 = s\<lparr>v_alloc := t\<rparr>;
      Some (st64 (e4 va s) (ld64 (e4 va s) s1 AND NOT PFLAG_PRESENT) s1, 0)
    } \<and> (freed = pa \<longleftrightarrow> take_bit 21 va = take_bit 21 pa)"
proof -
  have f: "get_pde_physaddr va (pa OR 3) = freed" by (simp add: freed_def pde_frame)
  have "freed = pa \<longleftrightarrow> take_bit 21 va = take_bit 21 pa" 
    using pde_frame_eq [OF assms(4), of va] unfolding f .
  moreover have "unmap_page hooks va s = do {
      t \<leftarrow> allocator_free hooks freed PAGE_SIZE (v_alloc s);
      let s1 = s\<lparr>v_alloc := t\<rparr>;
      Some (st64 (e4 va s) (ld64 (e4 va s) s1 AND NOT PFLAG_PRESENT) s1, 0) }"
    using assms(2,3) f by (simp add: unmap_page_def unmap_entry_def get_entry_path [OF assms(1)] Let_def)
  ultimately show ?thesis by blast
qed

theorem unmap_page_frees_wrong_frame_witness:
  "unmap_page None 0x1234 (demo_vmem 0x77003) = do {
      t \<leftarrow> allocator_free None 0x1234 PAGE_SIZE (v_alloc (demo_vmem 0x77003));
      let s1 = (demo_vmem 0x77003)\<lparr>v_alloc := t\<rparr>;
      Some (st64 0x5008 (ld64 0x5008 s1 AND NOT PFLAG_PRESENT) s1, 0)
    } \<and> (0x1234 :: addr) \<noteq> 0x77000"
proof -
  have f: "frame_ok 0x77000" "ld64 (e4 0x1234 (demo_vmem 0x77003)) (demo_vmem 0x77003) = 0x77000 OR 3"
    "((0x77000 :: u64) AND 0xFFFFFFFE00000) OR take_bit 21 0x1234 = 0x1234"
    by (simp_all add: frame_ok_def demo_path demo_loads take_bit_eq_mod)
  show ?thesis
    using unmap_page_frees_wrong_frame [OF demo_ok(2,4) f(2,1), of None] unfolding f(3) demo_path by simp
qed

end
