(* ===== verification/Pci.thy ===== *)
theory Pci
  imports Cpu_io
begin

unbundle bit_operations_syntax

text \<open>
  Access to the PCI configuration space (\<^verbatim>\<open>cpu/pci.c\<close>, \<^verbatim>\<open>cpu/pci.h\<close>) over the port history of
  \<^theory_text>\<open>Cpu_io\<close>. The base port, a static variable of the source, is an argument; the array of devices that
  the scan fills is the list of the entries it has written, in order.
\<close>

definition PCI_CONFIG_ADDRESS :: u32 where "PCI_CONFIG_ADDRESS = 0"
definition PCI_CONFIG_DATA :: u32 where "PCI_CONFIG_DATA = 4"

definition pci_set_ioaddr :: "u32 \<Rightarrow> u32" where
  "pci_set_ioaddr a = a"

definition pci_setup :: u32 where
  "pci_setup = pci_set_ioaddr 0xCF8"

text \<open>The bit fields of an address, from the lowest: register 8, function 3, device 5, bus 8, reserved 7, enable 1.\<close>

definition pci_address :: "u8 \<Rightarrow> u8 \<Rightarrow> u8 \<Rightarrow> u8 \<Rightarrow> u32" where
  "pci_address bus dev func reg =
     ucast reg OR push_bit 8 (take_bit 3 (ucast func)) OR push_bit 11 (take_bit 5 (ucast dev)) OR
     push_bit 16 (ucast bus) OR push_bit 31 1"

record pci_device =
  pci_bus :: u8
  pci_dev :: u8
  pci_func :: u8

definition pci_read_dword :: "device \<Rightarrow> u32 \<Rightarrow> u8 \<Rightarrow> u8 \<Rightarrow> u8 \<Rightarrow> u8 \<Rightarrow> io_hist \<Rightarrow> io_hist \<times> u32" where
  "pci_read_dword hw ioaddr bus dev func reg h =
     cpu_in32 hw (ioaddr + PCI_CONFIG_DATA)
       (cpu_out32 (ioaddr + PCI_CONFIG_ADDRESS) (pci_address bus dev func (reg AND 0xFC)) h)"

definition pci_write_dword :: "u32 \<Rightarrow> u8 \<Rightarrow> u8 \<Rightarrow> u8 \<Rightarrow> u8 \<Rightarrow> u32 \<Rightarrow> io_hist \<Rightarrow> io_hist" where
  "pci_write_dword ioaddr bus dev func reg val h =
     cpu_out32 (ioaddr + PCI_CONFIG_DATA) val
       (cpu_out32 (ioaddr + PCI_CONFIG_ADDRESS) (pci_address bus dev func (reg AND 0xFC)) h)"

definition pci_get_vendor :: "device \<Rightarrow> u32 \<Rightarrow> u8 \<Rightarrow> u8 \<Rightarrow> u8 \<Rightarrow> io_hist \<Rightarrow> io_hist \<times> u16" where
  "pci_get_vendor hw ioaddr bus dev func h =
     (let (h1, v) = pci_read_dword hw ioaddr bus dev func 0x00 h in (h1, ucast (v AND 0xFFFF)))"

definition pci_get_device :: "device \<Rightarrow> u32 \<Rightarrow> u8 \<Rightarrow> u8 \<Rightarrow> u8 \<Rightarrow> io_hist \<Rightarrow> io_hist \<times> u16" where
  "pci_get_device hw ioaddr bus dev func h =
     (let (h1, v) = pci_read_dword hw ioaddr bus dev func 0x00 h in (h1, ucast (drop_bit 16 v AND 0xFFFF)))"

definition pci_get_class :: "device \<Rightarrow> u32 \<Rightarrow> u8 \<Rightarrow> u8 \<Rightarrow> u8 \<Rightarrow> io_hist \<Rightarrow> io_hist \<times> u8" where
  "pci_get_class hw ioaddr bus dev func h =
     (let (h1, v) = pci_read_dword hw ioaddr bus dev func 0x08 h in (h1, ucast (drop_bit 24 v AND 0xFF)))"

definition pci_get_subclass :: "device \<Rightarrow> u32 \<Rightarrow> u8 \<Rightarrow> u8 \<Rightarrow> u8 \<Rightarrow> io_hist \<Rightarrow> io_hist \<times> u8" where
  "pci_get_subclass hw ioaddr bus dev func h =
     (let (h1, v) = pci_read_dword hw ioaddr bus dev func 0x08 h in (h1, ucast (drop_bit 16 v AND 0xFF)))"

definition pci_get_header_type :: "device \<Rightarrow> u32 \<Rightarrow> u8 \<Rightarrow> u8 \<Rightarrow> u8 \<Rightarrow> io_hist \<Rightarrow> io_hist \<times> u8" where
  "pci_get_header_type hw ioaddr bus dev func h =
     (let (h1, v) = pci_read_dword hw ioaddr bus dev func 0x0C h in (h1, ucast (drop_bit 16 v AND 0xFF)))"

definition pci_get_bar :: "device \<Rightarrow> u32 \<Rightarrow> u8 \<Rightarrow> u8 \<Rightarrow> u8 \<Rightarrow> u8 \<Rightarrow> io_hist \<Rightarrow> io_hist \<times> u32" where
  "pci_get_bar hw ioaddr bus dev func i h = pci_read_dword hw ioaddr bus dev func (0x10 + 4 * i) h"

text \<open>The two loops of the scan as one over the pairs of device and function number.\<close>

fun pci_scan_loop ::
  "device \<Rightarrow> u32 \<Rightarrow> u8 \<Rightarrow> u8 \<Rightarrow> (u8 \<times> u8) list \<Rightarrow> pci_device list \<Rightarrow> u64 \<Rightarrow> io_hist \<Rightarrow> io_hist \<times> pci_device list" where
  "pci_scan_loop hw ioaddr cls sub [] found cnt h = (h, found)"
| "pci_scan_loop hw ioaddr cls sub ((dev, func) # rest) found cnt h =
     (let (h1, vendor) = pci_get_vendor hw ioaddr 0 dev func h in
      if vendor \<noteq> 0xFFFF then
        let (h2, dev_class) = pci_get_class hw ioaddr 0 dev func h1;
            (h3, dev_subclass) = pci_get_subclass hw ioaddr 0 dev func h2 in
        if cls \<noteq> dev_class \<or> sub \<noteq> dev_subclass then pci_scan_loop hw ioaddr cls sub rest found cnt h3
        else
          let found1 = found @ [\<lparr>pci_bus = 0, pci_dev = dev, pci_func = func\<rparr>] in
          if cnt - 1 = 0 then (h3, found1) else pci_scan_loop hw ioaddr cls sub rest found1 (cnt - 1) h3
      else pci_scan_loop hw ioaddr cls sub rest found cnt h1)"

definition pci_scan_for_device ::
  "device \<Rightarrow> u32 \<Rightarrow> u8 \<Rightarrow> u8 \<Rightarrow> u64 \<Rightarrow> io_hist \<Rightarrow> io_hist \<times> pci_device list" where
  "pci_scan_for_device hw ioaddr cls sub device_cnt h =
     pci_scan_loop hw ioaddr cls sub (List.product (map of_nat [0..<32]) (map of_nat [0..<8])) [] device_cnt h"

definition pci_read_bar :: "device \<Rightarrow> u32 \<Rightarrow> pci_device \<Rightarrow> u8 \<Rightarrow> io_hist \<Rightarrow> io_hist \<times> u32" where
  "pci_read_bar hw ioaddr d i h = pci_get_bar hw ioaddr (pci_bus d) (pci_dev d) (pci_func d) i h"

end
