(* ===== verification/Ata.thy ===== *)
theory Ata
  imports Pci Kernmem
begin

unbundle bit_operations_syntax

text \<open>
  The ATA driver (\<^verbatim>\<open>dev/ata.c\<close>, \<^verbatim>\<open>dev/ata.h\<close>) and its transfers by programmed I/O (\<^verbatim>\<open>dev/pio.c\<close>). The state is
  the kernel memory of \<^theory_text>\<open>Kernmem\<close>, extended with the history of port accesses, the base port of PCI and
  the two static variables of \<^verbatim>\<open>ata_select_drive\<close>. A drive structure is a record; the pointer to it, by
  which the code recognises the drive selected last, is passed beside it. Its function pointers are
  the flag whether \<^verbatim>\<open>pio_setup_drive\<close> has set them.

  Polling ends when the drive stops being busy; a drive that stays busy gives \<^const>\<open>None\<close>.
\<close>

section \<open>Constants and state\<close>

definition ATA_SECTOR_SIZE :: nat where "ATA_SECTOR_SIZE = 512"

definition ATA_DEVICE_UNKNOWN :: u16 where "ATA_DEVICE_UNKNOWN = 0x000"
definition ATA_DEVICE_PATA :: u16 where "ATA_DEVICE_PATA = 0x002"
definition ATA_DEVICE_SATA :: u16 where "ATA_DEVICE_SATA = 0x003"
definition ATA_DEVICE_PATAPI :: u16 where "ATA_DEVICE_PATAPI = 0x004"
definition ATA_DEVICE_SATAPI :: u16 where "ATA_DEVICE_SATAPI = 0x005"

definition ATA_PIO_PRI_PORT_BASE :: u32 where "ATA_PIO_PRI_PORT_BASE = 0x1F0"
definition ATA_PIO_PRI_PORT_CONTROL :: u32 where "ATA_PIO_PRI_PORT_CONTROL = 0x3F6"

definition ATA_REG_DATA :: u32 where "ATA_REG_DATA = 0x00"
definition ATA_REG_ERR :: u32 where "ATA_REG_ERR = 0x01"
definition ATA_REG_SECCOUNT0 :: u32 where "ATA_REG_SECCOUNT0 = 0x02"
definition ATA_REG_LBA0 :: u32 where "ATA_REG_LBA0 = 0x03"
definition ATA_REG_LBA1 :: u32 where "ATA_REG_LBA1 = 0x04"
definition ATA_REG_LBA2 :: u32 where "ATA_REG_LBA2 = 0x05"
definition ATA_REG_HDDEVSEL :: u32 where "ATA_REG_HDDEVSEL = 0x06"
definition ATA_REG_CMD :: u32 where "ATA_REG_CMD = 0x07"
definition ATA_REG_STATUS :: u32 where "ATA_REG_STATUS = 0x07"

definition ATA_CMD_RESET :: u8 where "ATA_CMD_RESET = 0x04"
definition ATA_CMD_READ_SECTORS :: u8 where "ATA_CMD_READ_SECTORS = 0x20"
definition ATA_CMD_READ_SECTORS_EXT :: u8 where "ATA_CMD_READ_SECTORS_EXT = 0x24"
definition ATA_CMD_WRITE_SECTORS :: u8 where "ATA_CMD_WRITE_SECTORS = 0x30"
definition ATA_CMD_WRITE_SECTORS_EXT :: u8 where "ATA_CMD_WRITE_SECTORS_EXT = 0x34"
definition ATA_CMD_CACHE_FLUSH :: u8 where "ATA_CMD_CACHE_FLUSH = 0xE7"
definition ATA_CMD_IDENTIFY_PACKET :: u8 where "ATA_CMD_IDENTIFY_PACKET = 0xA1"
definition ATA_CMD_IDENTIFY :: u8 where "ATA_CMD_IDENTIFY = 0xEC"

definition ATA_STATUS_BSY :: u8 where "ATA_STATUS_BSY = 0x80"
definition ATA_STATUS_DF :: u8 where "ATA_STATUS_DF = 0x20"
definition ATA_STATUS_DRQ :: u8 where "ATA_STATUS_DRQ = 0x08"
definition ATA_STATUS_ERR :: u8 where "ATA_STATUS_ERR = 0x01"

definition ATA_IDENT_DEVICETYPE :: nat where "ATA_IDENT_DEVICETYPE = 0"
definition ATA_IDENT_MODEL :: nat where "ATA_IDENT_MODEL = 54"
definition ATA_IDENT_CAPABILITIES :: nat where "ATA_IDENT_CAPABILITIES = 98"
definition ATA_IDENT_MAX_LBA :: nat where "ATA_IDENT_MAX_LBA = 120"
definition ATA_IDENT_COMMANDSETS :: nat where "ATA_IDENT_COMMANDSETS = 164"
definition ATA_IDENT_MAX_LBA_EXT :: nat where "ATA_IDENT_MAX_LBA_EXT = 200"

definition ATA_MODE_LBA28 :: u8 where "ATA_MODE_LBA28 = 0x20"
definition ATA_MODE_LBA48 :: u8 where "ATA_MODE_LBA48 = 0x40"

record ata_drive =
  d_base :: u32
  d_ctrl :: u32
  d_id :: u8
  d_mode :: u8
  d_type :: u16
  d_is_slave :: u8
  d_sig :: u16
  d_cap :: u16
  d_cmd_sets :: u32
  d_max_lba :: u64
  d_model_name :: "u8 list"
  d_pio :: bool

record machine = kmem +
  io :: io_hist
  pci_ioaddr :: u32
  last_sel_drive :: addr
  last_sel_mode :: u32

section \<open>Ports\<close>

definition in8 :: "device \<Rightarrow> u32 \<Rightarrow> machine \<Rightarrow> machine \<times> u8" where
  "in8 hw port s = (let (h, v) = cpu_in8 hw port (io s) in (s\<lparr>io := h\<rparr>, v))"

definition in16 :: "device \<Rightarrow> u32 \<Rightarrow> machine \<Rightarrow> machine \<times> u16" where
  "in16 hw port s = (let (h, v) = cpu_in16 hw port (io s) in (s\<lparr>io := h\<rparr>, v))"

definition out8 :: "u32 \<Rightarrow> u8 \<Rightarrow> machine \<Rightarrow> machine" where
  "out8 port v s = s\<lparr>io := cpu_out8 port v (io s)\<rparr>"

definition out16 :: "u32 \<Rightarrow> u16 \<Rightarrow> machine \<Rightarrow> machine" where
  "out16 port v s = s\<lparr>io := cpu_out16 port v (io s)\<rparr>"

section \<open>Waiting and selection\<close>

definition ata_wait :: "device \<Rightarrow> ata_drive \<Rightarrow> machine \<Rightarrow> machine" where
  "ata_wait hw drive s = ((\<lambda>s. fst (in8 hw (d_base drive + ATA_REG_STATUS) s)) ^^ 4) s"

partial_function (option) ata_poll_status :: "device \<Rightarrow> ata_drive \<Rightarrow> machine \<Rightarrow> (machine \<times> u8) option" where
  "ata_poll_status hw drive s =
     (let (s1, status) = in8 hw (d_base drive + ATA_REG_STATUS) s in
      if status AND ATA_STATUS_BSY \<noteq> 0 then ata_poll_status hw drive s1 else Some (s1, status))"

declare ata_poll_status.simps [code]

definition ata_poll :: "device \<Rightarrow> ata_drive \<Rightarrow> machine \<Rightarrow> (machine \<times> int) option" where
  "ata_poll hw drive s =
     do {
       (s1, status) \<leftarrow> ata_poll_status hw drive (ata_wait hw drive s);
       if status AND ATA_STATUS_ERR \<noteq> 0 \<or> status AND ATA_STATUS_DF \<noteq> 0 then
         let (s2, err) = in8 hw (d_base drive + ATA_REG_ERR) (ata_wait hw drive s1) in Some (s2, uint err)
       else if status AND ATA_STATUS_DRQ = 0 then Some (s1, - 1)
       else Some (s1, 0)
     }"

definition ata_soft_reset :: "device \<Rightarrow> ata_drive \<Rightarrow> machine \<Rightarrow> machine" where
  "ata_soft_reset hw drive s =
     out8 (d_ctrl drive) 0 (ata_wait hw drive (out8 (d_ctrl drive) ATA_CMD_RESET s))"

definition ata_select_drive :: "device \<Rightarrow> addr \<Rightarrow> ata_drive \<Rightarrow> u32 \<Rightarrow> machine \<Rightarrow> machine" where
  "ata_select_drive hw dp drive mode s =
     (if dp \<noteq> last_sel_drive s \<or> mode \<noteq> last_sel_mode s then
        let sel = (if mode AND ucast ATA_MODE_LBA48 \<noteq> 0 then 0xE0 else 0xA0) OR
                  push_bit 4 (ucast (d_is_slave drive)) OR (mode AND 0xF);
            s1 = out8 (d_base drive + ATA_REG_HDDEVSEL) (ucast sel) s;
            s2 = (ata_wait hw drive ^^ 5) s1
        in s2\<lparr>last_sel_drive := dp, last_sel_mode := mode\<rparr>
      else s)"

section \<open>Transfers\<close>

definition lba_byte :: "u64 \<Rightarrow> nat \<Rightarrow> u8" where
  "lba_byte lba i = ucast (drop_bit (8 * i) lba AND 0xFF)"

primrec read_words :: "device \<Rightarrow> u32 \<Rightarrow> nat \<Rightarrow> addr \<Rightarrow> machine \<Rightarrow> machine" where
  "read_words hw port 0 buf s = s"
| "read_words hw port (Suc n) buf s =
     (let (s1, v) = in16 hw port s in read_words hw port n (buf + 2) (s1\<lparr>kmem_mem := store16 (kmem_mem s1) buf v\<rparr>))"

primrec write_words :: "u32 \<Rightarrow> nat \<Rightarrow> addr \<Rightarrow> machine \<Rightarrow> machine" where
  "write_words port 0 buf s = s"
| "write_words port (Suc n) buf s = write_words port n (buf + 2) (out16 port (load16 (kmem_mem s) buf) s)"

primrec pio_read_loop ::
  "device \<Rightarrow> ata_drive \<Rightarrow> u64 \<Rightarrow> nat \<Rightarrow> addr \<Rightarrow> machine \<Rightarrow> (machine \<times> u64) option" where
  "pio_read_loop hw drive read_size 0 buf s = Some (s, read_size)"
| "pio_read_loop hw drive read_size (Suc count) buf s =
     do {
       (s1, e) \<leftarrow> ata_poll hw drive s;
       if e \<noteq> 0 then Some (s1, read_size - of_nat count)
       else pio_read_loop hw drive read_size count (buf + of_nat ATA_SECTOR_SIZE)
              (read_words hw (d_base drive + ATA_REG_DATA) (ATA_SECTOR_SIZE div 2) buf s1)
     }"

definition pio_read ::
  "device \<Rightarrow> addr \<Rightarrow> ata_drive \<Rightarrow> u64 \<Rightarrow> u64 \<Rightarrow> addr \<Rightarrow> machine \<Rightarrow> (machine \<times> u64) option" where
  "pio_read hw dp drive lba count buf s =
     (let reg = (\<lambda>r v. out8 (d_base drive + r) v);
          s1 = ata_select_drive hw dp drive (ucast (d_mode drive)) s;
          s2 = reg ATA_REG_ERR 0 s1;
          s3 = (if d_mode drive = ATA_MODE_LBA48 then
                  reg ATA_REG_LBA2 (lba_byte lba 5) (reg ATA_REG_LBA1 (lba_byte lba 4)
                    (reg ATA_REG_LBA0 (lba_byte lba 3) (reg ATA_REG_SECCOUNT0 (lba_byte count 1) s2)))
                else s2);
          s4 = reg ATA_REG_LBA2 (lba_byte lba 2) (reg ATA_REG_LBA1 (lba_byte lba 1)
                 (reg ATA_REG_LBA0 (lba_byte lba 0) (reg ATA_REG_SECCOUNT0 (lba_byte count 0) s3)));
          s5 = reg ATA_REG_CMD (if d_mode drive = ATA_MODE_LBA48 then ATA_CMD_READ_SECTORS_EXT else ATA_CMD_READ_SECTORS)
                 (ata_wait hw drive s4)
      in pio_read_loop hw drive count (unat count) buf (ata_wait hw drive s5))"

text \<open>The loop of \<^verbatim>\<open>pio_write\<close>; the flag of the result tells whether it ran to its end.\<close>

primrec pio_write_loop ::
  "device \<Rightarrow> ata_drive \<Rightarrow> u64 \<Rightarrow> nat \<Rightarrow> addr \<Rightarrow> machine \<Rightarrow> (machine \<times> bool \<times> u64) option" where
  "pio_write_loop hw drive count 0 buf s = Some (s, True, count)"
| "pio_write_loop hw drive count (Suc k) buf s =
     do {
       (s1, e) \<leftarrow> ata_poll hw drive s;
       if e \<noteq> 0 then Some (s1, False, count - of_nat k)
       else pio_write_loop hw drive count k (buf + of_nat ATA_SECTOR_SIZE)
              (write_words (d_base drive + ATA_REG_DATA) (ATA_SECTOR_SIZE div 2) buf s1)
     }"

definition pio_write ::
  "device \<Rightarrow> addr \<Rightarrow> ata_drive \<Rightarrow> u64 \<Rightarrow> u64 \<Rightarrow> addr \<Rightarrow> machine \<Rightarrow> (machine \<times> u64) option" where
  "pio_write hw dp drive lba count buf s =
     do {
       let reg = (\<lambda>r v. out8 (d_base drive + r) v);
       let s1 = ata_select_drive hw dp drive (ucast (d_mode drive)) s;
       let s2 = reg ATA_REG_ERR 0 s1;
       let s3 = reg ATA_REG_LBA2 (lba_byte lba 5) (reg ATA_REG_LBA1 (lba_byte lba 4)
                  (reg ATA_REG_LBA0 (lba_byte lba 3) (reg ATA_REG_SECCOUNT0 (lba_byte count 1) s2)));
       let s4 = reg ATA_REG_LBA2 (lba_byte lba 2) (reg ATA_REG_LBA1 (lba_byte lba 1)
                  (reg ATA_REG_LBA0 (lba_byte lba 0) (reg ATA_REG_SECCOUNT0 (lba_byte count 0) s3)));
       let s5 = reg ATA_REG_CMD (if d_mode drive = ATA_MODE_LBA48 then ATA_CMD_WRITE_SECTORS_EXT else ATA_CMD_WRITE_SECTORS)
                  (ata_wait hw drive s4);
       (s6, done, r) \<leftarrow> pio_write_loop hw drive count (unat count) buf s5;
       if \<not> done then Some (s6, r)
       else do {
         (s7, e1) \<leftarrow> ata_poll hw drive s6;
         if e1 \<noteq> 0 then Some (s7, 0)
         else do {
           (s8, e2) \<leftarrow> ata_poll hw drive (reg ATA_REG_CMD ATA_CMD_CACHE_FLUSH s7);
           if e2 \<noteq> 0 then Some (s8, 0) else Some (s8, count)
         }
       }
     }"

definition pio_setup_drive :: "device \<Rightarrow> ata_drive \<Rightarrow> machine \<Rightarrow> machine \<times> ata_drive" where
  "pio_setup_drive hw drive s = (ata_soft_reset hw drive s, drive\<lparr>d_pio := True\<rparr>)"

section \<open>Detection\<close>

primrec read_ident :: "device \<Rightarrow> u32 \<Rightarrow> nat \<Rightarrow> machine \<Rightarrow> machine \<times> u8 list" where
  "read_ident hw port 0 s = (s, [])"
| "read_ident hw port (Suc n) s =
     (let (s1, v) = in16 hw port s; (s2, bs) = read_ident hw port n s1
      in (s2, ucast (v AND 0xFF) # ucast (drop_bit 8 v) # bs))"

definition ident16 :: "u8 list \<Rightarrow> nat \<Rightarrow> u16" where
  "ident16 bs i = ucast (bs ! i) OR push_bit 8 (ucast (bs ! (i + 1)))"

definition ident32 :: "u8 list \<Rightarrow> nat \<Rightarrow> u32" where
  "ident32 bs i = ucast (ident16 bs i) OR push_bit 16 (ucast (ident16 bs (i + 2)))"

definition ata_type_of :: "u16 \<Rightarrow> u16 option" where
  "ata_type_of sig =
     (if sig = 0x0000 then Some ATA_DEVICE_PATA
      else if sig = 0xC33C then Some ATA_DEVICE_SATA
      else if sig = 0xEB14 then Some ATA_DEVICE_PATAPI
      else if sig = 0x9669 then Some ATA_DEVICE_SATAPI
      else None)"

definition set_ident :: "u8 list \<Rightarrow> ata_drive \<Rightarrow> ata_drive" where
  "set_ident bs drive =
     (let d1 = drive\<lparr>d_sig := ident16 bs ATA_IDENT_DEVICETYPE, d_cap := ident16 bs ATA_IDENT_CAPABILITIES,
                 d_cmd_sets := ident32 bs ATA_IDENT_COMMANDSETS\<rparr>;
          d2 = (if d_cmd_sets d1 AND push_bit 26 1 \<noteq> 0 then
                  let max_lba_hi = ident32 bs ATA_IDENT_MAX_LBA;
                      max_lba_lo = ident32 bs ATA_IDENT_MAX_LBA_EXT
                  in d1\<lparr>d_max_lba := push_bit 32 (ucast max_lba_hi) OR ucast max_lba_lo, d_mode := ATA_MODE_LBA48\<rparr>
                else d1\<lparr>d_max_lba := ucast (ident32 bs ATA_IDENT_MAX_LBA), d_mode := ATA_MODE_LBA28\<rparr>)
      in d2\<lparr>d_model_name :=
             concat (map (\<lambda>i. [bs ! (ATA_IDENT_MODEL + 2 * i + 1), bs ! (ATA_IDENT_MODEL + 2 * i)]) [0..<20]) @ [0]\<rparr>)"

definition ata_detect_drive :: "device \<Rightarrow> addr \<Rightarrow> ata_drive \<Rightarrow> machine \<Rightarrow> (machine \<times> ata_drive) option" where
  "ata_detect_drive hw dp drive s =
     do {
       let s1 = (if d_is_slave drive = 0 then ata_wait hw drive (ata_soft_reset hw drive s) else s);
       (s2, _) \<leftarrow> ata_poll hw drive (ata_select_drive hw dp drive 0 s1);
       let (s3, lo) = in8 hw (d_base drive + ATA_REG_LBA1) s2;
       let (s4, hi) = in8 hw (d_base drive + ATA_REG_LBA2) s3;
       case ata_type_of (ucast lo OR push_bit 8 (ucast hi)) of
         None \<Rightarrow> Some (s4, drive\<lparr>d_type := ATA_DEVICE_UNKNOWN\<rparr>)
       | Some type \<Rightarrow> do {
           let identify_command =
             (if type = ATA_DEVICE_PATAPI \<or> type = ATA_DEVICE_SATAPI then ATA_CMD_IDENTIFY_PACKET else ATA_CMD_IDENTIFY);
           (s5, _) \<leftarrow> ata_poll hw drive (out8 (d_base drive + ATA_REG_CMD) identify_command s4);
           let (s6, bs) = read_ident hw (d_base drive + ATA_REG_DATA) (ATA_SECTOR_SIZE div 2) s5;
           Some (s6, set_ident bs (drive\<lparr>d_type := type\<rparr>))
         }
     }"

section \<open>Probing\<close>

definition read_bar :: "device \<Rightarrow> pci_device \<Rightarrow> u8 \<Rightarrow> machine \<Rightarrow> machine \<times> u32" where
  "read_bar hw ide i s = (let (h, v) = pci_read_bar hw (pci_ioaddr s) ide i (io s) in (s\<lparr>io := h\<rparr>, v))"

definition at_port :: "u8 \<Rightarrow> u32 \<Rightarrow> u32 \<Rightarrow> u8 \<Rightarrow> ata_drive \<Rightarrow> ata_drive" where
  "at_port i base ctrl slave d = d\<lparr>d_id := i, d_base := base, d_ctrl := ctrl, d_is_slave := slave\<rparr>"

text \<open>The loop over the drives; \<open>sizeof_drive\<close> is the distance of two structures of the array at \<open>dp\<close>.\<close>

fun detect_drives ::
  "device \<Rightarrow> u64 \<Rightarrow> addr \<Rightarrow> ata_drive list \<Rightarrow> machine \<Rightarrow> (machine \<times> ata_drive list \<times> u64) option" where
  "detect_drives hw sizeof_drive dp [] s = Some (s, [], 0)"
| "detect_drives hw sizeof_drive dp (d # ds) s =
     do {
       (s1, d1) \<leftarrow> ata_detect_drive hw dp d s;
       let (s2, d2, k) = (if d_type d1 = ATA_DEVICE_PATA then
                            let (s2, d2) = pio_setup_drive hw d1 s1 in (s2, d2, 1) else (s1, d1, 0));
       (s3, ds', n) \<leftarrow> detect_drives hw sizeof_drive (dp + sizeof_drive) ds s2;
       Some (s3, d2 # ds', k + n)
     }"

definition ata_probe ::
  "device \<Rightarrow> u64 \<Rightarrow> addr \<Rightarrow> ata_drive \<times> ata_drive \<times> ata_drive \<times> ata_drive \<Rightarrow> machine \<Rightarrow>
    (machine \<times> ata_drive list \<times> u64) option" where
  "ata_probe hw sizeof_drive dp drives s =
     (let (h, found) = pci_scan_for_device hw (pci_ioaddr s) 0x01 0x01 1 (io s);
          s0 = s\<lparr>io := h\<rparr>;
          (a, b, c, d) = drives in
      case found of
        [] \<Rightarrow> Some (s0, [a, b, c, d], 0)
      | ide # _ \<Rightarrow>
          let (s1, bar0) = read_bar hw ide 0 s0;
              (s2, bar1) = read_bar hw ide 1 s1;
              base = (if bar0 = 0 \<or> bar0 = 1 then ATA_PIO_PRI_PORT_BASE else bar0);
              ctrl = (if bar1 = 0 \<or> bar1 = 1 then ATA_PIO_PRI_PORT_CONTROL else bar1);
              (s3, bar2) = read_bar hw ide 2 s2;
              (s4, bar3) = read_bar hw ide 3 s3
          in detect_drives hw sizeof_drive dp
               [at_port 0 base ctrl 0 a, at_port 1 base ctrl 1 b, at_port 2 bar2 bar3 0 c, at_port 3 bar2 bar3 1 d] s4)"

end
