(* ===== verification/Ata_disk.thy ===== *)
theory Ata_disk
  imports Ata
begin

unbundle bit_operations_syntax

text \<open>
  The transfers of \<^verbatim>\<open>dev/pio.c\<close> against a drive. The drive is hardware, so it is a parameter of the driver
  model (\<open>device\<close>); here it is instantiated with the behaviour the ATA standard documents for 48-bit
  transfers: task file registers that keep their previous value, a command register, a data port that
  walks over the sectors, and a status register that reports busy for \<open>c_lat\<close> reads after a command and
  after each sector. The locale \<open>block_drive\<close> is what the file system needs of the \<^verbatim>\<open>read\<close> and \<^verbatim>\<open>write\<close>
  function pointers of a drive; the interpretation at the end shows that \<open>pio_read\<close> and \<open>pio_write\<close>
  provide it.
\<close>

section \<open>A drive\<close>

datatype xfer = Idle | Reading nat nat | Writing nat nat

record ata_dev =
  c_base :: u32
  c_slave :: bool
  c_lat :: nat
  disk :: "nat \<Rightarrow> u8"
  r_cnt :: "u8 \<times> u8"
  r_lba0 :: "u8 \<times> u8"
  r_lba1 :: "u8 \<times> u8"
  r_lba2 :: "u8 \<times> u8"
  r_sel :: u8
  xfer :: xfer
  busy :: nat
  flushes :: nat

definition ext_lba :: "ata_dev \<Rightarrow> nat" where
  "ext_lba d = unat (fst (r_lba0 d)) + 2 ^ 8 * unat (fst (r_lba1 d)) + 2 ^ 16 * unat (fst (r_lba2 d)) +
     2 ^ 24 * unat (snd (r_lba0 d)) + 2 ^ 32 * unat (snd (r_lba1 d)) + 2 ^ 40 * unat (snd (r_lba2 d))"

definition ext_count :: "ata_dev \<Rightarrow> nat" where
  "ext_count d = (let n = unat (fst (r_cnt d)) + 256 * unat (snd (r_cnt d)) in if n = 0 then 65536 else n)"

definition selected :: "ata_dev \<Rightarrow> bool" where
  "selected d \<longleftrightarrow> bit (r_sel d) 6 \<and> (bit (r_sel d) 4 \<longleftrightarrow> c_slave d)"

definition dev_command :: "u8 \<Rightarrow> ata_dev \<Rightarrow> ata_dev" where
  "dev_command v d =
     (let pos = 512 * ext_lba d; e = pos + 512 * ext_count d in
      if \<not> selected d then d
      else if v = 0x24 then d\<lparr>xfer := Reading pos e, busy := c_lat d\<rparr>
      else if v = 0x34 then d\<lparr>xfer := Writing pos e, busy := c_lat d\<rparr>
      else if v = 0xE7 then d\<lparr>flushes := Suc (flushes d), busy := c_lat d\<rparr>
      else d)"

definition xfer_at :: "(nat \<Rightarrow> nat \<Rightarrow> xfer) \<Rightarrow> nat \<Rightarrow> nat \<Rightarrow> xfer" where
  "xfer_at c p e = (if p = e then Idle else c p e)"

definition busy_at :: "nat \<Rightarrow> nat \<Rightarrow> nat" where
  "busy_at lat p = (if p mod 512 = 0 then lat else 0)"

definition after_word :: "nat \<Rightarrow> nat \<Rightarrow> (nat \<Rightarrow> nat \<Rightarrow> xfer) \<Rightarrow> ata_dev \<Rightarrow> ata_dev" where
  "after_word pos e c d =
     d\<lparr>xfer := xfer_at c (pos + 2) e, busy := busy_at (c_lat d) (pos + 2)\<rparr>"

definition dev_step :: "ata_dev \<Rightarrow> io_event \<Rightarrow> ata_dev" where
  "dev_step d ev =
     (case ev of
        Out8 p v \<Rightarrow>
          if p = c_base d + 2 then d\<lparr>r_cnt := (v, fst (r_cnt d))\<rparr>
          else if p = c_base d + 3 then d\<lparr>r_lba0 := (v, fst (r_lba0 d))\<rparr>
          else if p = c_base d + 4 then d\<lparr>r_lba1 := (v, fst (r_lba1 d))\<rparr>
          else if p = c_base d + 5 then d\<lparr>r_lba2 := (v, fst (r_lba2 d))\<rparr>
          else if p = c_base d + 6 then d\<lparr>r_sel := v\<rparr>
          else if p = c_base d + 7 then dev_command v d
          else d
      | In8 p \<Rightarrow> if p = c_base d + 7 then d\<lparr>busy := busy d - 1\<rparr> else d
      | In16 p \<Rightarrow>
          if p = c_base d \<and> busy d = 0 then
            (case xfer d of Reading pos e \<Rightarrow> after_word pos e Reading d | _ \<Rightarrow> d)
          else d
      | Out16 p v \<Rightarrow>
          if p = c_base d \<and> busy d = 0 then
            (case xfer d of
               Writing pos e \<Rightarrow>
                 after_word pos e Writing (d\<lparr>disk := (disk d)(pos := ucast v, pos + 1 := ucast (drop_bit 8 v))\<rparr>)
             | _ \<Rightarrow> d)
          else d
      | _ \<Rightarrow> d)"

definition dev_status :: "ata_dev \<Rightarrow> u8" where
  "dev_status d = (if busy d > 0 then 0x80 else if xfer d = Idle then 0x40 else 0x48)"

definition word_of_bytes :: "u8 \<Rightarrow> u8 \<Rightarrow> nat" where
  "word_of_bytes b0 b1 = unat b0 + 256 * unat b1"

definition dev_bus :: "ata_dev \<Rightarrow> io_event \<Rightarrow> u32" where
  "dev_bus d ev =
     (case ev of
        In8 p \<Rightarrow> if p = c_base d + 7 then ucast (dev_status d) else 0
      | In16 p \<Rightarrow>
          if p = c_base d \<and> busy d = 0 then
            (case xfer d of Reading pos e \<Rightarrow> of_nat (word_of_bytes (disk d pos) (disk d (pos + 1))) | _ \<Rightarrow> 0)
          else 0
      | _ \<Rightarrow> 0)"

definition dev_at :: "ata_dev \<Rightarrow> io_hist \<Rightarrow> ata_dev" where
  "dev_at d0 h = foldl dev_step d0 h"

definition ata_hw :: "ata_dev \<Rightarrow> device" where
  "ata_hw d0 h = dev_bus (dev_at d0 (butlast h)) (last h)"

lemma dev_at_append [simp]: "dev_at d0 (h @ k) = foldl dev_step (dev_at d0 h) k"
  by (simp add: dev_at_def)

section \<open>Port accesses\<close>

lemma machine_comm [simp]:
  "s\<lparr>io := h, kmem_mem := m\<rparr> = s\<lparr>kmem_mem := m, io := h\<rparr>"
  "s\<lparr>last_sel_drive := d, kmem_mem := m\<rparr> = s\<lparr>kmem_mem := m, last_sel_drive := d\<rparr>"
  "s\<lparr>last_sel_mode := k, kmem_mem := m\<rparr> = s\<lparr>kmem_mem := m, last_sel_mode := k\<rparr>"
  "s\<lparr>last_sel_drive := d, io := h\<rparr> = s\<lparr>io := h, last_sel_drive := d\<rparr>"
  "s\<lparr>last_sel_mode := k, io := h\<rparr> = s\<lparr>io := h, last_sel_mode := k\<rparr>"
  for s :: machine
  by (cases s; simp)+

lemma in8_hw:
  "in8 (ata_hw d0) p s = (s\<lparr>io := io s @ [In8 p]\<rparr>, ucast (dev_bus (dev_at d0 (io s)) (In8 p)))"
  by (simp add: in8_def cpu_in8_def ata_hw_def)

lemma in16_hw:
  "in16 (ata_hw d0) p s = (s\<lparr>io := io s @ [In16 p]\<rparr>, ucast (dev_bus (dev_at d0 (io s)) (In16 p)))"
  by (simp add: in16_def cpu_in16_def ata_hw_def)

lemma out_hw: "out8 p v s = s\<lparr>io := io s @ [Out8 p v]\<rparr>" "out16 p w s = s\<lparr>io := io s @ [Out16 p w]\<rparr>"
  by (simp_all add: out8_def out16_def cpu_out8_def cpu_out16_def)

text \<open>\<open>drives d0 drive s\<close>: the drive structure \<open>drive\<close> belongs to the drive that started in state \<open>d0\<close>.\<close>

definition drives :: "ata_dev \<Rightarrow> ata_drive \<Rightarrow> bool" where
  "drives d0 drive \<longleftrightarrow> d_base drive = c_base d0 \<and> d_is_slave drive = (if c_slave d0 then 1 else 0) \<and>
     d_mode drive = ATA_MODE_LBA48"

lemma step_cfg [simp]: "c_base (dev_step d e) = c_base d" "c_slave (dev_step d e) = c_slave d" "c_lat (dev_step d e) = c_lat d"
  by (auto simp: dev_step_def dev_command_def after_word_def Let_def split: io_event.split xfer.split)

lemma dev_at_cfg [simp]: "c_base (dev_at d0 h) = c_base d0" "c_slave (dev_at d0 h) = c_slave d0" "c_lat (dev_at d0 h) = c_lat d0"
  by (induction h rule: rev_induct) (simp_all add: dev_at_def)

lemma ata_wait_hw:
  assumes "drives d0 drive"
  obtains h where "ata_wait (ata_hw d0) drive s = s\<lparr>io := h\<rparr>"
    "dev_at d0 h = (dev_at d0 (io s))\<lparr>busy := busy (dev_at d0 (io s)) - 4\<rparr>"
  using assms that [of "io s @ replicate 4 (In8 (c_base d0 + 7))"]
  by (simp add: ata_wait_def in8_hw numeral_eq_Suc drives_def dev_step_def ATA_REG_STATUS_def)

lemma ata_poll_status_hw:
  assumes "drives d0 drive" "busy (dev_at d0 (io s)) = b"
  shows "\<exists>h. ata_poll_status (ata_hw d0) drive s =
      Some (s\<lparr>io := h\<rparr>, if xfer (dev_at d0 (io s)) = Idle then 0x40 else 0x48) \<and>
    dev_at d0 h = (dev_at d0 (io s))\<lparr>busy := 0\<rparr>"
  using assms(2)
proof (induction b arbitrary: s)
  case 0
  with assms(1) show ?case
    by (subst ata_poll_status.simps)
      (auto simp: in8_hw dev_bus_def dev_status_def drives_def ATA_REG_STATUS_def ATA_STATUS_BSY_def dev_step_def)
next
  case (Suc b)
  let ?s = "s\<lparr>io := io s @ [In8 (c_base d0 + 7)]\<rparr>"
  have d: "dev_at d0 (io ?s) = (dev_at d0 (io s))\<lparr>busy := b\<rparr>" using Suc.prems by (simp add: dev_step_def)
  have "ata_poll_status (ata_hw d0) drive s = ata_poll_status (ata_hw d0) drive ?s"
    using assms(1) Suc.prems by (subst ata_poll_status.simps)
      (simp add: in8_hw dev_bus_def dev_status_def drives_def ATA_REG_STATUS_def ATA_STATUS_BSY_def)
  with Suc.IH [of ?s] d show ?case by simp
qed

lemma ata_poll_hw:
  assumes "drives d0 drive"
  obtains h where "ata_poll (ata_hw d0) drive s = Some (s\<lparr>io := h\<rparr>, if xfer (dev_at d0 (io s)) = Idle then - 1 else 0)"
    "dev_at d0 h = (dev_at d0 (io s))\<lparr>busy := 0\<rparr>"
proof -
  obtain h where w: "ata_wait (ata_hw d0) drive s = s\<lparr>io := h\<rparr>"
    "dev_at d0 h = (dev_at d0 (io s))\<lparr>busy := busy (dev_at d0 (io s)) - 4\<rparr>"
    using ata_wait_hw [OF assms] by blast
  obtain h' where "ata_poll_status (ata_hw d0) drive (s\<lparr>io := h\<rparr>) =
      Some (s\<lparr>io := h'\<rparr>, if xfer (dev_at d0 h) = Idle then 0x40 else 0x48)" "dev_at d0 h' = (dev_at d0 h)\<lparr>busy := 0\<rparr>"
    using ata_poll_status_hw [OF assms refl, of "s\<lparr>io := h\<rparr>"] by auto
  with w show thesis
    by (intro that [of h']) (auto simp: ata_poll_def ATA_STATUS_ERR_def ATA_STATUS_DF_def ATA_STATUS_DRQ_def)
qed

section \<open>Bytes and words\<close>

definition filled :: "mem \<Rightarrow> addr \<Rightarrow> nat \<Rightarrow> (nat \<Rightarrow> u8) \<Rightarrow> mem" where
  "filled m a n f = (\<lambda>x. if in_range a n x then f (unat (x - a)) else m x)"

definition put_bytes :: "(nat \<Rightarrow> u8) \<Rightarrow> nat \<Rightarrow> nat \<Rightarrow> (nat \<Rightarrow> u8) \<Rightarrow> nat \<Rightarrow> u8" where
  "put_bytes d pos n f = (\<lambda>k. if pos \<le> k \<and> k < pos + n then f (k - pos) else d k)"

lemma filled_0 [simp]: "filled m a 0 f = m"
  by (simp add: filled_def range_simps)

lemma put_bytes_0 [simp]: "put_bytes d pos 0 f = d"
  by (rule ext) (auto simp: put_bytes_def)

lemma in_range_2: "in_range a 2 x \<longleftrightarrow> x = a \<or> x = a + 1"
proof -
  have "in_range a (Suc (Suc 0)) x \<longleftrightarrow> x = a \<or> in_range (a + 1) (Suc 0) x" by (rule in_range_step) simp
  moreover have "in_range (a + 1) (Suc 0) x \<longleftrightarrow> x = a + 1 \<or> in_range (a + 1 + 1) 0 x" by (rule in_range_step) simp
  ultimately show ?thesis unfolding numeral_2_eq_2 by (simp add: range_simps)
qed

lemma mod_512_step: "p mod 512 + 2 < 512 \<Longrightarrow> (p + 2) mod 512 = p mod 512 + (2 :: nat)"
  by (metis mod_add_left_eq mod_less)

lemma unat_of_nat_16: "n < 65536 \<Longrightarrow> unat (of_nat n :: u16) = n"
  by (simp add: unat_of_nat)

lemma unat_u8_lt: "unat (b :: u8) < 256"
  using unsigned_less [of b, where ?'a = nat] by simp

lemma filled_append:
  assumes "i + n \<le> 2 ^ 64"
  shows "filled (filled m a i f) (a + of_nat i) n (\<lambda>k. f (i + k)) = filled m a (i + n) f"
proof
  fix x
  have sp: "in_range a (i + n) x \<longleftrightarrow> in_range a i x \<or> in_range (a + of_nat i) n x"
    using in_range_add [OF assms, of a x] .
  show "filled (filled m a i f) (a + of_nat i) n (\<lambda>k. f (i + k)) x = filled m a (i + n) f x"
  proof (cases "in_range (a + of_nat i) n x")
    case True
    then have "unat (x - (a + of_nat i)) < n" by (simp add: in_range_def)
    then have "unat (x - a) = i + unat (x - (a + of_nat i))"
      using assms unat_plus_nowrap [of "x - (a + of_nat i)" "of_nat i"] unat_of_nat_64 [of i] by simp
    with True sp show ?thesis by (simp add: filled_def)
  next
    case False
    with sp show ?thesis by (simp add: filled_def)
  qed
qed

lemma put_bytes_append: "put_bytes (put_bytes d pos i f) (pos + i) n (\<lambda>k. f (i + k)) = put_bytes d pos (i + n) f"
  by (auto simp: put_bytes_def fun_eq_iff)

lemma ucast_of_nat_16: "(ucast (of_nat n :: u32) :: u16) = of_nat n"
  by (rule unsigned_word_eqI) (simp add: unsigned_ucast_eq unsigned_of_nat)

lemma store16_bytes: "store16 m a (of_nat (word_of_bytes b0 b1)) = m(a := b0, a + 1 := b1)"
proof -
  let ?n = "word_of_bytes b0 b1"
  note lt = unat_u8_lt [of b0] unat_u8_lt [of b1]
  then have u: "unat (of_nat ?n :: u16) = ?n" by (intro unat_of_nat_16) (simp add: word_of_bytes_def)
  have "(256 :: u8) = 0" by transfer simp
  then have b0: "(of_nat ?n :: u8) = b0"
    unfolding word_of_bytes_def by (simp only: of_nat_add of_nat_mult of_nat_numeral) simp
  have "?n div 256 = unat b1" using lt by (simp add: word_of_bytes_def)
  then show ?thesis unfolding store16_def u numeral_2_eq_2 store_le.simps b0 by simp
qed

lemma load16_bytes: "(ucast (load16 m a) :: u8) = m a" "(ucast (drop_bit 8 (load16 m a)) :: u8) = m (a + 1)"
proof -
  note lt = unat_u8_lt [of "m a"] unat_u8_lt [of "m (a + 1)"]
  then have "unat (of_nat (unat (m a) + 256 * unat (m (a + 1))) :: u16) = unat (m a) + 256 * unat (m (a + 1))"
    by (intro unat_of_nat_16) simp
  then have u: "unat (load16 m a) = unat (m a) + 256 * unat (m (a + 1))"
    by (simp add: load16_def numeral_2_eq_2)
  have "unat (ucast (load16 m a) :: u8) = unat (m a)"
    using lt by (simp add: unsigned_ucast_eq take_bit_eq_mod u)
  then show "(ucast (load16 m a) :: u8) = m a" by (rule unsigned_word_eqI)
  have "unat (drop_bit 8 (load16 m a)) = unat (load16 m a) div 256"
    by (simp add: drop_bit_eq_div unat_div)
  then have "unat (ucast (drop_bit 8 (load16 m a)) :: u8) = unat (m (a + 1))"
    using lt by (simp add: unsigned_ucast_eq take_bit_eq_mod u)
  then show "(ucast (drop_bit 8 (load16 m a)) :: u8) = m (a + 1)" by (rule unsigned_word_eqI)
qed

section \<open>Words\<close>

lemma read_words_hw:
  assumes "pos mod 512 + 2 * n \<le> 512" "pos + 2 * n \<le> e" "even pos"
    and "xfer (dev_at d0 (io s)) = Reading pos e" "busy (dev_at d0 (io s)) = 0" "0 < n"
  shows "\<exists>h. read_words (ata_hw d0) (c_base d0) n buf s =
      s\<lparr>kmem_mem := filled (kmem_mem s) buf (2 * n) (\<lambda>k. disk (dev_at d0 (io s)) (pos + k)), io := h\<rparr> \<and>
    dev_at d0 h = (dev_at d0 (io s))\<lparr>xfer := xfer_at Reading (pos + 2 * n) e, busy := busy_at (c_lat d0) (pos + 2 * n)\<rparr>"
  using assms
proof (induction n arbitrary: pos buf s)
  case 0
  then show ?case by simp
next
  case (Suc n)
  let ?d = "dev_at d0 (io s)" and ?f = "\<lambda>k. disk (dev_at d0 (io s)) (pos + k)"
  let ?s = "s\<lparr>kmem_mem := filled (kmem_mem s) buf 2 ?f, io := io s @ [In16 (c_base d0)]\<rparr>"
  have m: "store16 (kmem_mem s) buf (of_nat (word_of_bytes (disk ?d pos) (disk ?d (pos + 1)))) = filled (kmem_mem s) buf 2 ?f"
    unfolding store16_bytes by (auto simp: filled_def fun_eq_iff in_range_2)
  have d: "dev_at d0 (io ?s) = after_word pos e Reading ?d"
    using Suc.prems by (simp add: dev_step_def)
  have run: "read_words (ata_hw d0) (c_base d0) (Suc n) buf s = read_words (ata_hw d0) (c_base d0) n (buf + 2) ?s"
    using Suc.prems m by (simp add: in16_hw dev_bus_def ucast_of_nat_16)
  show ?case
  proof (cases "n = 0")
    case True
    with run d Suc.prems show ?thesis by (auto simp: after_word_def)
  next
    case False
    then have ne: "pos + 2 \<noteq> e" "(pos + 2) mod 512 = pos mod 512 + 2" "pos + 2 + 2 * n = pos + 2 * Suc n"
      using Suc.prems(1,2) mod_512_step [of pos] by simp_all
    have d': "dev_at d0 (io ?s) = ?d\<lparr>xfer := Reading (pos + 2) e, busy := 0\<rparr>"
      using d ne by (simp add: after_word_def xfer_at_def busy_at_def)
    have "(2 :: nat) + 2 * n \<le> 2 ^ 64" using Suc.prems(1) by simp
    note fa = filled_append [OF this, of "kmem_mem s" buf ?f]
    show ?thesis
      using Suc.IH [of "pos + 2" ?s "buf + 2"] Suc.prems(1,2,3) False ne d' fa run by (simp add: add.assoc del: read_words.simps)
  qed
qed

lemma write_words_hw:
  assumes "pos mod 512 + 2 * n \<le> 512" "pos + 2 * n \<le> e" "even pos"
    and "xfer (dev_at d0 (io s)) = Writing pos e" "busy (dev_at d0 (io s)) = 0" "0 < n"
  shows "\<exists>h. write_words (c_base d0) n buf s = s\<lparr>io := h\<rparr> \<and>
    dev_at d0 h = (dev_at d0 (io s))\<lparr>
      disk := put_bytes (disk (dev_at d0 (io s))) pos (2 * n) (\<lambda>k. kmem_mem s (buf + of_nat k)),
      xfer := xfer_at Writing (pos + 2 * n) e, busy := busy_at (c_lat d0) (pos + 2 * n)\<rparr>"
  using assms
proof (induction n arbitrary: pos buf s)
  case 0
  then show ?case by simp
next
  case (Suc n)
  let ?d = "dev_at d0 (io s)" and ?f = "\<lambda>k. kmem_mem s (buf + of_nat k)"
  let ?s = "s\<lparr>io := io s @ [Out16 (c_base d0) (load16 (kmem_mem s) buf)]\<rparr>"
  have b: "(disk ?d)(pos := kmem_mem s buf, Suc pos := kmem_mem s (buf + 1)) = put_bytes (disk ?d) pos 2 ?f"
    by (auto simp: put_bytes_def fun_eq_iff)
  have d: "dev_at d0 (io ?s) = after_word pos e Writing (?d\<lparr>disk := put_bytes (disk ?d) pos 2 ?f\<rparr>)"
    using Suc.prems b by (simp add: dev_step_def load16_bytes)
  have run: "write_words (c_base d0) (Suc n) buf s = write_words (c_base d0) n (buf + 2) ?s" by (simp add: out_hw)
  show ?case
  proof (cases "n = 0")
    case True
    with run d Suc.prems show ?thesis by (auto simp: after_word_def)
  next
    case False
    then have ne: "pos + 2 \<noteq> e" "(pos + 2) mod 512 = pos mod 512 + 2" "pos + 2 + 2 * n = pos + 2 * Suc n"
      using Suc.prems(1,2) mod_512_step [of pos] by simp_all
    have d': "dev_at d0 (io ?s) = ?d\<lparr>disk := put_bytes (disk ?d) pos 2 ?f, xfer := Writing (pos + 2) e, busy := 0\<rparr>"
      using d ne by (simp add: after_word_def xfer_at_def busy_at_def)
    note pa = put_bytes_append [of "disk ?d" pos 2 ?f "2 * n"]
    show ?thesis
      using Suc.IH [of "pos + 2" ?s "buf + 2"] Suc.prems(1,2,3) False ne d' pa run by (simp add: add.assoc del: write_words.simps)
  qed
qed

section \<open>Sectors\<close>

lemma pio_read_loop_hw:
  assumes "drives d0 drive" "512 * k \<le> 2 ^ 64" "pos mod 512 = 0" "pos + 512 * k = e" "k = 0 \<longrightarrow> xfer (dev_at d0 (io s)) = Idle"
    and "0 < k \<longrightarrow> xfer (dev_at d0 (io s)) = Reading pos e"
  shows "\<exists>h b. pio_read_loop (ata_hw d0) drive n k buf s =
      Some (s\<lparr>kmem_mem := filled (kmem_mem s) buf (512 * k) (\<lambda>i. disk (dev_at d0 (io s)) (pos + i)), io := h\<rparr>, n) \<and>
    dev_at d0 h = (dev_at d0 (io s))\<lparr>xfer := Idle, busy := b\<rparr>"
  using assms(2-)
proof (induction k arbitrary: pos buf s)
  case 0
  then show ?case by (intro exI [of _ "io s"] exI [of _ "busy (dev_at d0 (io s))"]) simp
next
  case (Suc k)
  let ?d = "dev_at d0 (io s)" and ?f = "\<lambda>i. disk (dev_at d0 (io s)) (pos + i)"
  have x: "xfer ?d = Reading pos e" using Suc.prems by simp
  obtain h where p: "ata_poll (ata_hw d0) drive s = Some (s\<lparr>io := h\<rparr>, 0)" "dev_at d0 h = ?d\<lparr>busy := 0\<rparr>"
    using ata_poll_hw [OF assms(1), of s] x by auto
  have ev: "even pos" using Suc.prems(2) by presburger
  obtain h1 where w: "read_words (ata_hw d0) (c_base d0) 256 buf (s\<lparr>io := h\<rparr>) =
      s\<lparr>kmem_mem := filled (kmem_mem s) buf 512 ?f, io := h1\<rparr>"
    "dev_at d0 h1 = ?d\<lparr>xfer := xfer_at Reading (pos + 512) e, busy := busy_at (c_lat d0) (pos + 512)\<rparr>"
    using read_words_hw [of pos 256 e d0 "s\<lparr>io := h\<rparr>" buf] p(2) x Suc.prems ev by auto
  let ?s = "s\<lparr>kmem_mem := filled (kmem_mem s) buf 512 ?f, io := h1\<rparr>"
  have run: "pio_read_loop (ata_hw d0) drive n (Suc k) buf s = pio_read_loop (ata_hw d0) drive n k (buf + 512) ?s"
    using p w assms(1) by (simp add: drives_def ATA_REG_DATA_def ATA_SECTOR_SIZE_def)
  have "512 + 512 * k \<le> 2 ^ 64" using Suc.prems(1) by simp
  note fa = filled_append [OF this, of "kmem_mem s" buf ?f]
  obtain h2 b where "pio_read_loop (ata_hw d0) drive n k (buf + 512) ?s =
      Some (?s\<lparr>kmem_mem := filled (kmem_mem ?s) (buf + 512) (512 * k) (\<lambda>i. disk (dev_at d0 h1) (pos + 512 + i)), io := h2\<rparr>, n)"
    "dev_at d0 h2 = (dev_at d0 h1)\<lparr>xfer := Idle, busy := b\<rparr>"
    using Suc.IH [of "pos + 512" ?s "buf + 512"] Suc.prems(1-3) w(2) by (auto simp: xfer_at_def)
  with run fa w(2) show ?case by (auto simp: add.assoc)
qed

lemma pio_write_loop_hw:
  assumes "drives d0 drive" "pos mod 512 = 0" "pos + 512 * k = e" "k = 0 \<longrightarrow> xfer (dev_at d0 (io s)) = Idle"
    and "0 < k \<longrightarrow> xfer (dev_at d0 (io s)) = Writing pos e"
  shows "\<exists>h b. pio_write_loop (ata_hw d0) drive n k buf s = Some (s\<lparr>io := h\<rparr>, True, n) \<and>
    dev_at d0 h = (dev_at d0 (io s))\<lparr>
      disk := put_bytes (disk (dev_at d0 (io s))) pos (512 * k) (\<lambda>i. kmem_mem s (buf + of_nat i)), xfer := Idle, busy := b\<rparr>"
  using assms(2-)
proof (induction k arbitrary: pos buf s)
  case 0
  then show ?case by (intro exI [of _ "io s"] exI [of _ "busy (dev_at d0 (io s))"]) simp
next
  case (Suc k)
  let ?d = "dev_at d0 (io s)" and ?f = "\<lambda>i. kmem_mem s (buf + of_nat i)"
  have x: "xfer ?d = Writing pos e" using Suc.prems by simp
  obtain h where p: "ata_poll (ata_hw d0) drive s = Some (s\<lparr>io := h\<rparr>, 0)" "dev_at d0 h = ?d\<lparr>busy := 0\<rparr>"
    using ata_poll_hw [OF assms(1), of s] x by auto
  have ev: "even pos" using Suc.prems(1) by presburger
  obtain h1 where w: "write_words (c_base d0) 256 buf (s\<lparr>io := h\<rparr>) = s\<lparr>io := h1\<rparr>"
    "dev_at d0 h1 = ?d\<lparr>disk := put_bytes (disk ?d) pos 512 ?f, xfer := xfer_at Writing (pos + 512) e,
       busy := busy_at (c_lat d0) (pos + 512)\<rparr>"
    using write_words_hw [of pos 256 e d0 "s\<lparr>io := h\<rparr>" buf] p(2) x Suc.prems ev by auto
  let ?s = "s\<lparr>io := h1\<rparr>"
  have run: "pio_write_loop (ata_hw d0) drive n (Suc k) buf s = pio_write_loop (ata_hw d0) drive n k (buf + 512) ?s"
    using p w assms(1) by (simp add: drives_def ATA_REG_DATA_def ATA_SECTOR_SIZE_def)
  note pa = put_bytes_append [of "disk ?d" pos 512 ?f "512 * k"]
  obtain h2 b where "pio_write_loop (ata_hw d0) drive n k (buf + 512) ?s = Some (s\<lparr>io := h2\<rparr>, True, n)"
    "dev_at d0 h2 = (dev_at d0 h1)\<lparr>disk := put_bytes (disk (dev_at d0 h1)) (pos + 512) (512 * k)
       (\<lambda>i. kmem_mem s (buf + 512 + of_nat i)), xfer := Idle, busy := b\<rparr>"
    using Suc.IH [of "pos + 512" ?s "buf + 512"] Suc.prems(1-2) w(2) by (auto simp: xfer_at_def)
  with run pa w(2) show ?case by (auto simp: add.assoc)
qed

section \<open>Whole transfers\<close>

lemma unat_lba_byte: "unat (lba_byte x i) = unat x div 2 ^ (8 * i) mod 256"
proof -
  have "(0xFF :: u64) = mask 8" by (simp add: mask_eq_exp_minus_1)
  then have b: "lba_byte x i = ucast (take_bit 8 (drop_bit (8 * i) x))" by (simp only: lba_byte_def take_bit_eq_mask)
  have u: "unat x mod 2 ^ 64 = unat x" using unat_lt_2p64 [of x] by simp
  show ?thesis unfolding b unsigned_ucast_eq unsigned_take_bit_eq unsigned_drop_bit_eq
    using u by (simp add: take_bit_eq_mod drop_bit_eq_div)
qed

lemma bytes_sum:
  fixes x :: nat
  assumes "x < 2 ^ 48"
  shows "x mod 256 + 2 ^ 8 * (x div 2 ^ 8 mod 256) + 2 ^ 16 * (x div 2 ^ 16 mod 256) + 2 ^ 24 * (x div 2 ^ 24 mod 256) +
    2 ^ 32 * (x div 2 ^ 32 mod 256) + 2 ^ 40 * (x div 2 ^ 40 mod 256) = x"
proof -
  have q: "x div 2 ^ (8 * Suc i) = x div 2 ^ (8 * i) div 256" for i
    by (simp add: div_mult2_eq [symmetric] power_add mult.commute)
  have m: "x div 2 ^ (8 * i) = x div 2 ^ (8 * i) mod 256 + 256 * (x div 2 ^ (8 * Suc i))" for i
    unfolding q by simp
  have "x div 2 ^ 48 = 0" using assms by simp
  moreover have n: "2 ^ 8 = (256 :: nat)" "2 ^ 16 = (65536 :: nat)" "2 ^ 24 = (16777216 :: nat)"
    "2 ^ 32 = (4294967296 :: nat)" "2 ^ 40 = (1099511627776 :: nat)" "2 ^ 48 = (281474976710656 :: nat)" by simp_all
  moreover note m [of 1, simplified] m [of 2, simplified] m [of 3, simplified] m [of 4, simplified] m [of 5, simplified]
    mod_mult_div_eq [of x 256]
  ultimately show ?thesis unfolding n by linarith
qed

text \<open>The drive has been selected with 48-bit addressing whenever the static variables say so.\<close>

definition sel_ok :: "ata_dev \<Rightarrow> addr \<Rightarrow> machine \<Rightarrow> bool" where
  "sel_ok d0 dp s \<longleftrightarrow>
     (last_sel_drive s = dp \<and> last_sel_mode s = ucast ATA_MODE_LBA48 \<longrightarrow> selected (dev_at d0 (io s)))"

lemma ata_wait5_hw:
  assumes "drives d0 drive"
  obtains h b where "(ata_wait (ata_hw d0) drive ^^ n) s = s\<lparr>io := h\<rparr>" "dev_at d0 h = (dev_at d0 (io s))\<lparr>busy := b\<rparr>"
proof -
  have "\<exists>h b. (ata_wait (ata_hw d0) drive ^^ n) s = s\<lparr>io := h\<rparr> \<and> dev_at d0 h = (dev_at d0 (io s))\<lparr>busy := b\<rparr>"
  proof (induction n)
    case 0
    show ?case by (intro exI [of _ "io s"] exI [of _ "busy (dev_at d0 (io s))"]) simp
  next
    case (Suc n)
    then obtain h b where "(ata_wait (ata_hw d0) drive ^^ n) s = s\<lparr>io := h\<rparr>" "dev_at d0 h = (dev_at d0 (io s))\<lparr>busy := b\<rparr>"
      by blast
    with ata_wait_hw [OF assms, of "s\<lparr>io := h\<rparr>"] show ?case by auto
  qed
  with that show thesis by blast
qed

lemma ata_select_hw:
  assumes d: "drives d0 drive" and ok: "sel_ok d0 dp s"
  obtains h v b where "ata_select_drive (ata_hw d0) dp drive (ucast (d_mode drive)) s =
      s\<lparr>io := h, last_sel_drive := dp, last_sel_mode := ucast ATA_MODE_LBA48\<rparr>"
    "dev_at d0 h = (dev_at d0 (io s))\<lparr>r_sel := v, busy := b\<rparr>" "selected (dev_at d0 h)"
proof (cases "dp = last_sel_drive s \<and> ucast (d_mode drive) = last_sel_mode s")
  case True
  with d ok show thesis
    by (intro that [of "io s" "busy (dev_at d0 (io s))" "r_sel (dev_at d0 (io s))"])
      (auto simp: ata_select_drive_def drives_def sel_ok_def)
next
  case False
  let ?v = "if c_slave d0 then 0xF0 else 0xE0 :: u8"
  have sl: "d_is_slave drive = (if c_slave d0 then 1 else 0)"
    using d by (simp add: drives_def)
  let ?h0 = "io s @ [Out8 (c_base d0 + 6) ?v]"
  obtain h b where w: "(ata_wait (ata_hw d0) drive ^^ 5) (s\<lparr>io := ?h0\<rparr>) = s\<lparr>io := h\<rparr>"
    "dev_at d0 h = (dev_at d0 ?h0)\<lparr>busy := b\<rparr>"
    using ata_wait5_hw [OF d, of 5 "s\<lparr>io := ?h0\<rparr>"] by auto
  have "dev_at d0 h = (dev_at d0 (io s))\<lparr>r_sel := ?v, busy := b\<rparr>" using w(2) by (simp add: dev_step_def)
  moreover from this have "selected (dev_at d0 h)" by (simp add: selected_def)
  moreover have "ata_select_drive (ata_hw d0) dp drive (ucast (d_mode drive)) s =
      s\<lparr>io := h, last_sel_drive := dp, last_sel_mode := ucast ATA_MODE_LBA48\<rparr>"
    using False w(1) d sl
    by (auto simp: ata_select_drive_def drives_def ATA_MODE_LBA48_def out_hw ATA_REG_HDDEVSEL_def split: if_splits)
  ultimately show thesis by (rule that [rotated])
qed

text \<open>The port writes between the selection and the command; both directions make the same ones.\<close>

definition task_file :: "ata_drive \<Rightarrow> u64 \<Rightarrow> u64 \<Rightarrow> io_event list" where
  "task_file drive lba count =
     (let r = (\<lambda>i. Out8 (d_base drive + i)) in
      [r 1 0, r 2 (lba_byte count 1), r 3 (lba_byte lba 3), r 4 (lba_byte lba 4), r 5 (lba_byte lba 5),
       r 2 (lba_byte count 0), r 3 (lba_byte lba 0), r 4 (lba_byte lba 1), r 5 (lba_byte lba 2)])"

lemma task_file_hw:
  fixes d :: ata_dev
  assumes "drives d0 drive" and "unat lba < 2 ^ 48" "0 < unat count" "unat count < 65536"
  defines "d1 \<equiv> foldl dev_step d (task_file drive lba count)"
  assumes "c_base d = c_base d0"
  shows "ext_lba d1 = unat lba" "ext_count d1 = unat count" "disk d1 = disk d" "selected d1 = selected d"
    "c_lat d1 = c_lat d" "c_base d1 = c_base d" "flushes d1 = flushes d"
proof -
  have d1: "d1 = d\<lparr>r_cnt := (lba_byte count 0, lba_byte count 1), r_lba0 := (lba_byte lba 0, lba_byte lba 3),
      r_lba1 := (lba_byte lba 1, lba_byte lba 4), r_lba2 := (lba_byte lba 2, lba_byte lba 5)\<rparr>"
    using assms by (simp add: d1_def task_file_def drives_def dev_step_def)
  show "ext_lba d1 = unat lba"
    using bytes_sum [OF assms(2)] by (simp add: d1 ext_lba_def unat_lba_byte)
  have "unat count div 256 mod 256 = unat count div 256" using assms(4) by simp
  then have "unat count mod 256 + 256 * (unat count div 256 mod 256) = unat count" by simp
  then show "ext_count d1 = unat count"
    using assms(3) by (simp add: d1 ext_count_def unat_lba_byte Let_def)
  show "disk d1 = disk d" "selected d1 = selected d" "c_lat d1 = c_lat d" "c_base d1 = c_base d"
    "flushes d1 = flushes d"
    by (simp_all add: d1 selected_def)
qed

lemma selected_upd [simp]: "selected (d\<lparr>busy := b\<rparr>) = selected d" "selected (d\<lparr>xfer := x\<rparr>) = selected d" "selected (d\<lparr>disk := f\<rparr>) = selected d"
  by (simp_all add: selected_def)

lemma busy_upd: "disk (d\<lparr>busy := b\<rparr>) = disk d" "flushes (d\<lparr>busy := b\<rparr>) = flushes d"
  by simp_all

lemma ext_upd [simp]: "ext_lba (d\<lparr>busy := b\<rparr>) = ext_lba d" "ext_count (d\<lparr>busy := b\<rparr>) = ext_count d"
  by (simp_all add: ext_lba_def ext_count_def)

lemma dev_command_rw:
  assumes "selected d" "cmd = 0x24 \<and> x = Reading \<or> cmd = 0x34 \<and> x = Writing"
  shows "dev_command cmd d = d\<lparr>xfer := x (512 * ext_lba d) (512 * ext_lba d + 512 * ext_count d), busy := c_lat d\<rparr>"
  using assms(2) assms(1) by (elim disjE conjE) (simp_all add: dev_command_def Let_def)

text \<open>Up to the command: the drive has the transfer pending.\<close>

lemma start_hw:
  assumes d: "drives d0 drive" and ok: "sel_ok d0 dp s" and n: "unat lba < 2 ^ 48" "0 < unat count" "unat count < 65536"
    and c: "cmd = 0x24 \<and> x = Reading \<or> cmd = 0x34 \<and> x = Writing"
  obtains h where
    "out8 (d_base drive + ATA_REG_CMD) cmd (ata_wait (ata_hw d0) drive
       ((ata_select_drive (ata_hw d0) dp drive (ucast (d_mode drive)) s)\<lparr>io :=
          io (ata_select_drive (ata_hw d0) dp drive (ucast (d_mode drive)) s) @ task_file drive lba count\<rparr>)) =
      s\<lparr>io := h, last_sel_drive := dp, last_sel_mode := ucast ATA_MODE_LBA48\<rparr>"
    "disk (dev_at d0 h) = disk (dev_at d0 (io s))" "selected (dev_at d0 h)"
    "xfer (dev_at d0 h) = x (512 * unat lba) (512 * unat lba + 512 * unat count)"
    "flushes (dev_at d0 h) = flushes (dev_at d0 (io s))"
proof -
  obtain h v b where s1: "ata_select_drive (ata_hw d0) dp drive (ucast (d_mode drive)) s =
      s\<lparr>io := h, last_sel_drive := dp, last_sel_mode := ucast ATA_MODE_LBA48\<rparr>"
    "dev_at d0 h = (dev_at d0 (io s))\<lparr>r_sel := v, busy := b\<rparr>" "selected (dev_at d0 h)"
    using ata_select_hw [OF d ok] by metis
  let ?h1 = "h @ task_file drive lba count"
  let ?s1 = "s\<lparr>io := ?h1, last_sel_drive := dp, last_sel_mode := ucast ATA_MODE_LBA48\<rparr>"
  obtain h2 where w: "ata_wait (ata_hw d0) drive ?s1 = ?s1\<lparr>io := h2\<rparr>"
    "dev_at d0 h2 = (dev_at d0 ?h1)\<lparr>busy := busy (dev_at d0 ?h1) - 4\<rparr>"
    using ata_wait_hw [OF d, of ?s1] by auto
  note tf = task_file_hw [OF d n, of "dev_at d0 h", OF dev_at_cfg(1)]
  have "disk (dev_at d0 h) = disk (dev_at d0 (io s))" "flushes (dev_at d0 h) = flushes (dev_at d0 (io s))"
    unfolding s1(2) by simp_all
  note tf = tf(1,2) tf(3) [unfolded this] tf(4) tf(7) [unfolded this]
  have t: "ext_lba (dev_at d0 h2) = unat lba" "ext_count (dev_at d0 h2) = unat count" "selected (dev_at d0 h2)"
    "disk (dev_at d0 h2) = disk (dev_at d0 (io s))" "flushes (dev_at d0 h2) = flushes (dev_at d0 (io s))"
    using tf s1(3) unfolding w(2) dev_at_append by (simp_all only: ext_upd selected_upd busy_upd)
  let ?h = "h2 @ [Out8 (c_base d0 + 7) cmd]"
  have dv: "dev_at d0 ?h = (dev_at d0 h2)\<lparr>xfer := x (512 * unat lba) (512 * unat lba + 512 * unat count), busy := c_lat d0\<rparr>"
  proof -
    have "dev_at d0 ?h = dev_command cmd (dev_at d0 h2)" by (simp add: dev_step_def)
    also have "\<dots> = (dev_at d0 h2)\<lparr>xfer := x (512 * unat lba) (512 * unat lba + 512 * unat count), busy := c_lat d0\<rparr>"
      unfolding dev_command_rw [OF t(3) c] t(1,2) dev_at_cfg ..
    finally show ?thesis .
  qed
  show thesis
  proof (rule that [of ?h])
    show "disk (dev_at d0 ?h) = disk (dev_at d0 (io s))" "selected (dev_at d0 ?h)"
      "xfer (dev_at d0 ?h) = x (512 * unat lba) (512 * unat lba + 512 * unat count)"
      "flushes (dev_at d0 ?h) = flushes (dev_at d0 (io s))"
      unfolding dv using t by simp_all
    have "d_base drive = c_base d0" using d by (simp add: drives_def)
    then show "out8 (d_base drive + ATA_REG_CMD) cmd (ata_wait (ata_hw d0) drive
       ((ata_select_drive (ata_hw d0) dp drive (ucast (d_mode drive)) s)\<lparr>io :=
          io (ata_select_drive (ata_hw d0) dp drive (ucast (d_mode drive)) s) @ task_file drive lba count\<rparr>)) =
      s\<lparr>io := ?h, last_sel_drive := dp, last_sel_mode := ucast ATA_MODE_LBA48\<rparr>"
      using w(1) by (simp add: s1(1) out_hw ATA_REG_CMD_def)
  qed
qed

lemma pio_read_hw:
  assumes d: "drives d0 drive" and ok: "sel_ok d0 dp s" and n: "unat lba < 2 ^ 48" "0 < unat count" "unat count < 65536"
  obtains h where
    "pio_read (ata_hw d0) dp drive lba count buf s =
       Some (s\<lparr>kmem_mem := filled (kmem_mem s) buf (512 * unat count) (\<lambda>i. disk (dev_at d0 (io s)) (512 * unat lba + i)),
         io := h, last_sel_drive := dp, last_sel_mode := ucast ATA_MODE_LBA48\<rparr>, count)"
    "disk (dev_at d0 h) = disk (dev_at d0 (io s))" "selected (dev_at d0 h)"
proof -
  obtain h where st: "out8 (d_base drive + ATA_REG_CMD) 0x24 (ata_wait (ata_hw d0) drive
       ((ata_select_drive (ata_hw d0) dp drive (ucast (d_mode drive)) s)\<lparr>io :=
          io (ata_select_drive (ata_hw d0) dp drive (ucast (d_mode drive)) s) @ task_file drive lba count\<rparr>)) =
      s\<lparr>io := h, last_sel_drive := dp, last_sel_mode := ucast ATA_MODE_LBA48\<rparr>"
    and dv: "disk (dev_at d0 h) = disk (dev_at d0 (io s))" "selected (dev_at d0 h)"
      "xfer (dev_at d0 h) = Reading (512 * unat lba) (512 * unat lba + 512 * unat count)"
    using start_hw [OF d ok n, of "0x24" Reading] by metis
  let ?s = "s\<lparr>io := h, last_sel_drive := dp, last_sel_mode := ucast ATA_MODE_LBA48\<rparr>"
  obtain h1 where w: "ata_wait (ata_hw d0) drive ?s = ?s\<lparr>io := h1\<rparr>"
    "dev_at d0 h1 = (dev_at d0 h)\<lparr>busy := busy (dev_at d0 h) - 4\<rparr>"
    using ata_wait_hw [OF d, of ?s] by auto
  have "pio_read (ata_hw d0) dp drive lba count buf s =
      pio_read_loop (ata_hw d0) drive count (unat count) buf (?s\<lparr>io := h1\<rparr>)"
    using st w(1) d by (simp add: pio_read_def Let_def drives_def task_file_def out_hw ATA_REG_ERR_def ATA_REG_LBA0_def
        ATA_REG_LBA1_def ATA_REG_LBA2_def ATA_REG_SECCOUNT0_def ATA_CMD_READ_SECTORS_EXT_def)
  moreover obtain h2 b where "pio_read_loop (ata_hw d0) drive count (unat count) buf (?s\<lparr>io := h1\<rparr>) =
      Some (s\<lparr>kmem_mem := filled (kmem_mem s) buf (512 * unat count) (\<lambda>i. disk (dev_at d0 (io s)) (512 * unat lba + i)),
         io := h2, last_sel_drive := dp, last_sel_mode := ucast ATA_MODE_LBA48\<rparr>, count)"
    "dev_at d0 h2 = (dev_at d0 h1)\<lparr>xfer := Idle, busy := b\<rparr>"
    using pio_read_loop_hw [OF d, of "unat count" "512 * unat lba" _ "?s\<lparr>io := h1\<rparr>" count buf] n dv w(2) by auto
  ultimately show thesis using dv w(2) by (intro that [of h2]) simp_all
qed

lemma pio_write_hw:
  assumes d: "drives d0 drive" and ok: "sel_ok d0 dp s" and n: "unat lba < 2 ^ 48" "0 < unat count" "unat count < 65536"
  obtains h where
    "pio_write (ata_hw d0) dp drive lba count buf s =
       Some (s\<lparr>io := h, last_sel_drive := dp, last_sel_mode := ucast ATA_MODE_LBA48\<rparr>, 0)"
    "disk (dev_at d0 h) =
       put_bytes (disk (dev_at d0 (io s))) (512 * unat lba) (512 * unat count) (\<lambda>i. kmem_mem s (buf + of_nat i))"
    "selected (dev_at d0 h)" "flushes (dev_at d0 h) = flushes (dev_at d0 (io s))"
proof -
  obtain h where st: "out8 (d_base drive + ATA_REG_CMD) 0x34 (ata_wait (ata_hw d0) drive
       ((ata_select_drive (ata_hw d0) dp drive (ucast (d_mode drive)) s)\<lparr>io :=
          io (ata_select_drive (ata_hw d0) dp drive (ucast (d_mode drive)) s) @ task_file drive lba count\<rparr>)) =
      s\<lparr>io := h, last_sel_drive := dp, last_sel_mode := ucast ATA_MODE_LBA48\<rparr>"
    and dv: "disk (dev_at d0 h) = disk (dev_at d0 (io s))" "selected (dev_at d0 h)"
      "xfer (dev_at d0 h) = Writing (512 * unat lba) (512 * unat lba + 512 * unat count)"
      "flushes (dev_at d0 h) = flushes (dev_at d0 (io s))"
    using start_hw [OF d ok n, of "0x34" Writing] by metis
  let ?s = "s\<lparr>io := h, last_sel_drive := dp, last_sel_mode := ucast ATA_MODE_LBA48\<rparr>"
  obtain h2 b where l: "pio_write_loop (ata_hw d0) drive count (unat count) buf ?s = Some (?s\<lparr>io := h2\<rparr>, True, count)"
    "dev_at d0 h2 = (dev_at d0 h)\<lparr>disk := put_bytes (disk (dev_at d0 h)) (512 * unat lba) (512 * unat count)
       (\<lambda>i. kmem_mem s (buf + of_nat i)), xfer := Idle, busy := b\<rparr>"
    using pio_write_loop_hw [OF d, of "512 * unat lba" "unat count" _ ?s count buf] n dv by auto
  obtain h3 where p: "ata_poll (ata_hw d0) drive (?s\<lparr>io := h2\<rparr>) = Some (?s\<lparr>io := h3\<rparr>, - 1)"
    "dev_at d0 h3 = (dev_at d0 h2)\<lparr>busy := 0\<rparr>"
    using ata_poll_hw [OF d, of "?s\<lparr>io := h2\<rparr>"] l(2) by auto
  have "pio_write (ata_hw d0) dp drive lba count buf s = Some (?s\<lparr>io := h3\<rparr>, 0)"
    using st l(1) p(1) d by (simp add: pio_write_def Let_def drives_def task_file_def out_hw ATA_REG_ERR_def ATA_REG_LBA0_def
        ATA_REG_LBA1_def ATA_REG_LBA2_def ATA_REG_SECCOUNT0_def ATA_CMD_WRITE_SECTORS_EXT_def)
  with l p dv show thesis by (intro that [of h3]) simp_all
qed

section \<open>Drives as the file system sees them\<close>

text \<open>The function pointers \<^verbatim>\<open>read\<close> and \<^verbatim>\<open>write\<close> of a drive: first sector, number of sectors, buffer.\<close>

type_synonym 'x transfer = "u64 \<Rightarrow> u64 \<Rightarrow> addr \<Rightarrow> 'x kmem_scheme \<Rightarrow> ('x kmem_scheme \<times> u64) option"

record 'x drive_ops =
  dr_read :: "'x transfer"
  dr_write :: "'x transfer"

definition pio_ops :: "device \<Rightarrow> addr \<Rightarrow> ata_drive \<Rightarrow> unit machine_ext drive_ops" where
  "pio_ops hw dp drive = \<lparr>dr_read = pio_read hw dp drive, dr_write = pio_write hw dp drive\<rparr>"

locale mem_drive =
  fixes drv :: "'x drive_ops" and ok :: "'x kmem_scheme \<Rightarrow> bool" and dsk :: "'x kmem_scheme \<Rightarrow> nat \<Rightarrow> u8"
  assumes read_law: "ok s \<Longrightarrow> unat lba < 2 ^ 48 \<Longrightarrow> 0 < unat n \<Longrightarrow> unat n < 65536 \<Longrightarrow>
      \<exists>s'. dr_read drv lba n buf s = Some (s', n) \<and> ok s' \<and> dsk s' = dsk s \<and>
        kmem_mem s' = filled (kmem_mem s) buf (512 * unat n) (\<lambda>i. dsk s (512 * unat lba + i)) \<and>
        occupied_to s' = occupied_to s \<and> kmem_spinlock s' = kmem_spinlock s"
    and write_law: "ok s \<Longrightarrow> unat lba < 2 ^ 48 \<Longrightarrow> 0 < unat n \<Longrightarrow> unat n < 65536 \<Longrightarrow>
      \<exists>s' r. dr_write drv lba n buf s = Some (s', r) \<and> ok s' \<and>
        dsk s' = put_bytes (dsk s) (512 * unat lba) (512 * unat n) (\<lambda>i. kmem_mem s (buf + of_nat i)) \<and>
        kmem_mem s' = kmem_mem s \<and> occupied_to s' = occupied_to s \<and> kmem_spinlock s' = kmem_spinlock s"
    and mem_frame: "ok (s\<lparr>kmem_mem := m\<rparr>) = ok s" "dsk (s\<lparr>kmem_mem := m\<rparr>) = dsk s"

locale block_drive = mem_drive drv ok dsk
  for drv :: "'x drive_ops" and ok :: "'x kmem_scheme \<Rightarrow> bool" and dsk :: "'x kmem_scheme \<Rightarrow> nat \<Rightarrow> u8" +
  assumes lock_frame: "ok (s\<lparr>occupied_to := p, kmem_spinlock := l\<rparr>) = ok s"
      "dsk (s\<lparr>occupied_to := p, kmem_spinlock := l\<rparr>) = dsk s"

text \<open>A drive that leaves the lock of the heap alone keeps its contract together with any state of the lock.\<close>

sublocale block_drive \<subseteq> locked: mem_drive drv "\<lambda>s. ok s \<and> kmem_spinlock s = l" dsk for l
proof
  fix s :: "'x kmem_scheme" and lba n :: u64 and buf :: addr
  assume s: "ok s \<and> kmem_spinlock s = l" and n: "unat lba < 2 ^ 48" "0 < unat n" "unat n < 65536"
  show "\<exists>s'. dr_read drv lba n buf s = Some (s', n) \<and> (ok s' \<and> kmem_spinlock s' = l) \<and> dsk s' = dsk s \<and>
      kmem_mem s' = filled (kmem_mem s) buf (512 * unat n) (\<lambda>i. dsk s (512 * unat lba + i)) \<and>
      occupied_to s' = occupied_to s \<and> kmem_spinlock s' = kmem_spinlock s"
    using read_law [OF _ n, of s buf] s by auto
  show "\<exists>s' r. dr_write drv lba n buf s = Some (s', r) \<and> (ok s' \<and> kmem_spinlock s' = l) \<and>
      dsk s' = put_bytes (dsk s) (512 * unat lba) (512 * unat n) (\<lambda>i. kmem_mem s (buf + of_nat i)) \<and>
      kmem_mem s' = kmem_mem s \<and> occupied_to s' = occupied_to s \<and> kmem_spinlock s' = kmem_spinlock s"
    using write_law [OF _ n, of s buf] s by auto
qed (simp_all add: mem_frame)

text \<open>The state of a machine with the drive \<open>d0\<close> behind its ports.\<close>

definition disk_of :: "ata_dev \<Rightarrow> machine \<Rightarrow> nat \<Rightarrow> u8" where
  "disk_of d0 s = disk (dev_at d0 (io s))"

interpretation pio: block_drive "pio_ops (ata_hw d0) dp drive" "\<lambda>s. drives d0 drive \<and> sel_ok d0 dp s" "disk_of d0"
  for d0 dp drive
proof
  fix s :: machine and lba n :: u64 and buf :: addr
  assume ok: "drives d0 drive \<and> sel_ok d0 dp s" and n: "unat lba < 2 ^ 48" "0 < unat n" "unat n < 65536"
  show "\<exists>s'. dr_read (pio_ops (ata_hw d0) dp drive) lba n buf s = Some (s', n) \<and> (drives d0 drive \<and> sel_ok d0 dp s') \<and>
      disk_of d0 s' = disk_of d0 s \<and>
      kmem_mem s' = filled (kmem_mem s) buf (512 * unat n) (\<lambda>i. disk_of d0 s (512 * unat lba + i)) \<and>
      occupied_to s' = occupied_to s \<and> kmem_spinlock s' = kmem_spinlock s"
  proof -
    obtain h where "pio_read (ata_hw d0) dp drive lba n buf s =
        Some (s\<lparr>kmem_mem := filled (kmem_mem s) buf (512 * unat n) (\<lambda>i. disk (dev_at d0 (io s)) (512 * unat lba + i)),
          io := h, last_sel_drive := dp, last_sel_mode := ucast ATA_MODE_LBA48\<rparr>, n)"
      "disk (dev_at d0 h) = disk (dev_at d0 (io s))" "selected (dev_at d0 h)"
      using pio_read_hw [OF _ _ n] ok by metis
    with ok show ?thesis by (simp add: pio_ops_def sel_ok_def disk_of_def)
  qed
  show "\<exists>s' r. dr_write (pio_ops (ata_hw d0) dp drive) lba n buf s = Some (s', r) \<and> (drives d0 drive \<and> sel_ok d0 dp s') \<and>
      disk_of d0 s' = put_bytes (disk_of d0 s) (512 * unat lba) (512 * unat n) (\<lambda>i. kmem_mem s (buf + of_nat i)) \<and>
      kmem_mem s' = kmem_mem s \<and> occupied_to s' = occupied_to s \<and> kmem_spinlock s' = kmem_spinlock s"
  proof -
    obtain h where "pio_write (ata_hw d0) dp drive lba n buf s =
        Some (s\<lparr>io := h, last_sel_drive := dp, last_sel_mode := ucast ATA_MODE_LBA48\<rparr>, 0)"
      "disk (dev_at d0 h) = put_bytes (disk (dev_at d0 (io s))) (512 * unat lba) (512 * unat n) (\<lambda>i. kmem_mem s (buf + of_nat i))"
      "selected (dev_at d0 h)"
      using pio_write_hw [OF _ _ n] ok by metis
    with ok show ?thesis by (simp add: pio_ops_def sel_ok_def disk_of_def)
  qed
qed (simp_all add: sel_ok_def disk_of_def)

section \<open>Properties\<close>

text \<open>
  C15: A read of 1 to 65535 sectors in 48-bit mode always returns, however many status reads the drive
  stays busy: the buffer holds the bytes of the sectors, no other byte of memory changes, the disk is
  unchanged, and the number of sectors is the result.
\<close>

theorem pio_read_reads_sectors:
  assumes "drives d0 drive" "sel_ok d0 dp s" "unat lba < 2 ^ 48" "0 < unat count" "unat count < 65536"
  shows "\<exists>s'. pio_read (ata_hw d0) dp drive lba count buf s = Some (s', count) \<and> sel_ok d0 dp s' \<and>
    disk_of d0 s' = disk_of d0 s \<and>
    kmem_mem s' = filled (kmem_mem s) buf (512 * unat count) (\<lambda>i. disk_of d0 s (512 * unat lba + i))"
  using pio.read_law [of d0 drive dp s lba count buf] assms by (auto simp: pio_ops_def)

text \<open>
  C16: A write in 48-bit mode stores the bytes of the buffer in exactly the sectors asked for, but its result
  is 0, the value that reports a failure: the drive requests no more data after the last sector,
  which the polling function treats as an error. For the same reason the cache of the drive is never
  flushed.
\<close>

theorem pio_write_reports_failure:
  assumes "drives d0 drive" "sel_ok d0 dp s" "unat lba < 2 ^ 48" "0 < unat count" "unat count < 65536"
  shows "\<exists>s'. pio_write (ata_hw d0) dp drive lba count buf s = Some (s', 0) \<and> kmem_mem s' = kmem_mem s \<and>
    disk_of d0 s' = put_bytes (disk_of d0 s) (512 * unat lba) (512 * unat count) (\<lambda>i. kmem_mem s (buf + of_nat i)) \<and>
    flushes (dev_at d0 (io s')) = flushes (dev_at d0 (io s))"
proof -
  obtain h where "pio_write (ata_hw d0) dp drive lba count buf s =
      Some (s\<lparr>io := h, last_sel_drive := dp, last_sel_mode := ucast ATA_MODE_LBA48\<rparr>, 0)"
    "disk (dev_at d0 h) = put_bytes (disk (dev_at d0 (io s))) (512 * unat lba) (512 * unat count) (\<lambda>i. kmem_mem s (buf + of_nat i))"
    "flushes (dev_at d0 h) = flushes (dev_at d0 (io s))"
    using pio_write_hw [OF assms] by metis
  then show ?thesis by (simp add: disk_of_def)
qed

definition demo_dev :: ata_dev where
  "demo_dev = \<lparr>c_base = 0x1F0, c_slave = False, c_lat = 7, disk = (\<lambda>k. of_nat k), r_cnt = (0, 0), r_lba0 = (0, 0),
     r_lba1 = (0, 0), r_lba2 = (0, 0), r_sel = 0, xfer = Idle, busy = 3, flushes = 0\<rparr>"

definition demo_drive :: ata_drive where
  "demo_drive = \<lparr>d_base = 0x1F0, d_ctrl = 0x3F6, d_id = 0, d_mode = ATA_MODE_LBA48, d_type = ATA_DEVICE_PATA,
     d_is_slave = 0, d_sig = 0, d_cap = 0, d_cmd_sets = 0, d_max_lba = 0, d_model_name = [], d_pio = True\<rparr>"

definition demo_machine :: machine where
  "demo_machine = \<lparr>kmem_mem = (\<lambda>_. 9), occupied_to = KMEM_HEAP_BASE, kmem_spinlock = 0, io = [], pci_ioaddr = 0xCF8,
     last_sel_drive = NULL, last_sel_mode = - 1\<rparr>"

lemma demo_machine_ok: "drives demo_dev demo_drive" "sel_ok demo_dev 0x8000 demo_machine"
  by (simp_all add: drives_def demo_dev_def demo_drive_def sel_ok_def demo_machine_def)

theorem pio_read_reads_sectors_witness:
  "\<exists>s'. pio_read (ata_hw demo_dev) 0x8000 demo_drive 3 2 0x9000 demo_machine = Some (s', 2) \<and>
    kmem_mem s' 0x9005 = 5 \<and> kmem_mem s' 0x9400 = 9"
proof -
  have "unat (3 :: u64) < 2 ^ 48" "0 < unat (2 :: u64)" "unat (2 :: u64) < 65536" by simp_all
  from pio_read_reads_sectors [OF demo_machine_ok this, of "0x9000"] show ?thesis
    by (auto simp: filled_def in_range_def disk_of_def demo_dev_def demo_machine_def dev_at_def)
qed

theorem pio_write_reports_failure_witness:
  "\<exists>s'. pio_write (ata_hw demo_dev) 0x8000 demo_drive 3 2 0x9000 demo_machine = Some (s', 0) \<and>
    disk_of demo_dev s' 1541 = 9 \<and> disk_of demo_dev s' 7 = 7"
proof -
  have "unat (3 :: u64) < 2 ^ 48" "0 < unat (2 :: u64)" "unat (2 :: u64) < 65536" by simp_all
  from pio_write_reports_failure [OF demo_machine_ok this, of "0x9000"] show ?thesis
    by (auto simp: put_bytes_def disk_of_def demo_dev_def demo_machine_def dev_at_def)
qed

end
