(* ===== verification/Ext2.thy ===== *)
theory Ext2
  imports Ata_disk
begin

unbundle bit_operations_syntax

text \<open>
  The ext2 driver (\<^verbatim>\<open>fs/ext2.c\<close>, \<^verbatim>\<open>fs/ext2.h\<close>): the read and the write interface below the generic file
  system layer. Superblock, block group table, inodes, iterators and buffers are structures in kernel
  memory, given by their addresses, as in the source; buffers that the source takes from the heap are
  taken from the heap of \<^theory_text>\<open>Kernmem\<close>, and a local array is an address argument. The drive is the pair of
  function pointers of \<^theory_text>\<open>Ata_disk\<close>. Arithmetic is at the width of the source: sector numbers are products
  of 32-bit values, positions in a block of pointers are 64-bit because of \<^verbatim>\<open>sizeof\<close>. A division by zero
  and a search that does not end have the value \<^const>\<open>None\<close>.
\<close>

section \<open>Structures\<close>

datatype sb_field =
    Inodes_total | Blocks_total | Blocks_su | Blocks_unalloc | Inodes_unalloc | Sb_blockno
  | Block_logsz | Frag_logsz | Blocks_per_group | Frags_per_group | Inodes_per_group
  | Last_mnt_time | Last_write_time | Mnt_cnt | Mnt_before_chk | Ext2_sig | Sb_state | Error_action
  | Ver_minor | Last_chk_time | Chk_interval | Os_id | Ver_major | Rsblocks_uid | Rsblocks_gid
  | First_unres_inode | Inode_size | Parent_block_group | Opt_features | Req_features | Write_features
  | Fs_id | Volume_name | Last_mnt_path | Compr_alg | Prealloc_file_blocks | Prealloc_dir_blocks | Sb_reserved
  | Journal_id | Journal_inode | Journal_device | Orphan_head

definition sb_base_layout :: "(sb_field \<times> nat \<times> nat) list" where
  "sb_base_layout =
     [(Inodes_total, 4, 4), (Blocks_total, 4, 4), (Blocks_su, 4, 4), (Blocks_unalloc, 4, 4), (Inodes_unalloc, 4, 4),
      (Sb_blockno, 4, 4), (Block_logsz, 4, 4), (Frag_logsz, 4, 4), (Blocks_per_group, 4, 4), (Frags_per_group, 4, 4),
      (Inodes_per_group, 4, 4), (Last_mnt_time, 4, 4), (Last_write_time, 4, 4), (Mnt_cnt, 2, 2), (Mnt_before_chk, 2, 2),
      (Ext2_sig, 2, 2), (Sb_state, 2, 2), (Error_action, 2, 2), (Ver_minor, 2, 2), (Last_chk_time, 4, 4),
      (Chk_interval, 4, 4), (Os_id, 4, 4), (Ver_major, 4, 4), (Rsblocks_uid, 2, 2), (Rsblocks_gid, 2, 2)]"

definition sb_ext_layout :: "(sb_field \<times> nat \<times> nat) list" where
  "sb_ext_layout =
     [(First_unres_inode, 4, 4), (Inode_size, 2, 2), (Parent_block_group, 2, 2), (Opt_features, 4, 4), (Req_features, 4, 4),
      (Write_features, 4, 4), (Fs_id, 16, 1), (Volume_name, 16, 1), (Last_mnt_path, 64, 1), (Compr_alg, 4, 4),
      (Prealloc_file_blocks, 1, 1), (Prealloc_dir_blocks, 1, 1), (Sb_reserved, 2, 2), (Journal_id, 16, 1),
      (Journal_inode, 4, 4), (Journal_device, 4, 4), (Orphan_head, 4, 4)]"

definition sb_layout :: "(sb_field \<times> nat \<times> nat) list" where
  "sb_layout = sb_base_layout @ sb_ext_layout"

definition sizeof_sb :: nat where "sizeof_sb = pad 4 (struct_end 0 sb_layout)"
definition sizeof_sb_ext :: nat where "sizeof_sb_ext = pad 4 (struct_end 0 sb_ext_layout)"

definition sb_at :: "addr \<Rightarrow> sb_field \<Rightarrow> addr" where
  "sb_at sb f = sb + of_nat (offset_from 0 sb_layout f)"

datatype blkgrp_field =
  Block_bitmap_addr | Inode_bitmap_addr | Inode_table_addr | Bg_blocks_unalloc | Bg_inodes_unalloc | Dirs_cnt | Bg_padding

text \<open>Packed to two bytes.\<close>

definition blkgrp_layout :: "(blkgrp_field \<times> nat \<times> nat) list" where
  "blkgrp_layout =
     [(Block_bitmap_addr, 4, 2), (Inode_bitmap_addr, 4, 2), (Inode_table_addr, 4, 2), (Bg_blocks_unalloc, 2, 2),
      (Bg_inodes_unalloc, 2, 2), (Dirs_cnt, 2, 2), (Bg_padding, 14, 1)]"

definition sizeof_blkgrp :: nat where "sizeof_blkgrp = pad 2 (struct_end 0 blkgrp_layout)"

datatype bt_field = Bt_groups | Bt_length

definition bt_layout :: "(bt_field \<times> nat \<times> nat) list" where
  "bt_layout = [(Bt_groups, 8, 8), (Bt_length, 4, 4)]"

definition bt_at :: "addr \<Rightarrow> bt_field \<Rightarrow> addr" where
  "bt_at bt f = bt + of_nat (offset_from 0 bt_layout f)"

datatype inode_field =
    Type_perms | Uid | Size_lo | Access_time | Creation_time | Modification_time | Deletion_time | Gid | Hard_links
  | Sector_cnt | In_flags | Os1 | Dbp | Sibp | Dibp | Tibp | Generation | Acl | Size_hi | Frag_addr | Os2

text \<open>Packed to one byte.\<close>

definition inode_layout :: "(inode_field \<times> nat \<times> nat) list" where
  "inode_layout =
     [(Type_perms, 2, 1), (Uid, 2, 1), (Size_lo, 4, 1), (Access_time, 4, 1), (Creation_time, 4, 1), (Modification_time, 4, 1),
      (Deletion_time, 4, 1), (Gid, 2, 1), (Hard_links, 2, 1), (Sector_cnt, 4, 1), (In_flags, 4, 1), (Os1, 4, 1),
      (Dbp, 48, 1), (Sibp, 4, 1), (Dibp, 4, 1), (Tibp, 4, 1), (Generation, 4, 1), (Acl, 4, 1), (Size_hi, 4, 1),
      (Frag_addr, 4, 1), (Os2, 12, 1)]"

definition sizeof_inode :: nat where "sizeof_inode = struct_end 0 inode_layout"

definition inode_at :: "addr \<Rightarrow> inode_field \<Rightarrow> addr" where
  "inode_at ino f = ino + of_nat (offset_from 0 inode_layout f)"

datatype dirent_field = De_inode_num | De_entry_sz | De_name_length_lo | De_type_byte | De_name

definition dirent_layout :: "(dirent_field \<times> nat \<times> nat) list" where
  "dirent_layout = [(De_inode_num, 4, 4), (De_entry_sz, 2, 2), (De_name_length_lo, 1, 1), (De_type_byte, 1, 1), (De_name, 256, 1)]"

definition sizeof_dirent :: nat where "sizeof_dirent = pad 4 (struct_end 0 dirent_layout)"

definition dirent_at :: "addr \<Rightarrow> dirent_field \<Rightarrow> addr" where
  "dirent_at de f = de + of_nat (offset_from 0 dirent_layout f)"

definition DIRENT_SZ_WO_NAME :: u64 where
  "DIRENT_SZ_WO_NAME = of_nat sizeof_dirent - 256"

datatype dit_field = It_dir | It_byteaddr | It_blki | It_blkbuf | It_cur | It_is_valid

definition dit_layout :: "(dit_field \<times> nat \<times> nat) list" where
  "dit_layout =
     [(It_dir, 8, 8), (It_byteaddr, 4, 4), (It_blki, 4, 4), (It_blkbuf, 8, 8), (It_cur, sizeof_dirent, 4), (It_is_valid, 1, 1)]"

definition it_at :: "addr \<Rightarrow> dit_field \<Rightarrow> addr" where
  "it_at it f = it + of_nat (offset_from 0 dit_layout f)"

section \<open>Memory accesses\<close>

definition get16 :: "addr \<Rightarrow> 'x kmem_scheme \<Rightarrow> u16" where "get16 a s = load16 (kmem_mem s) a"
definition get32 :: "addr \<Rightarrow> 'x kmem_scheme \<Rightarrow> u32" where "get32 a s = load32 (kmem_mem s) a"
definition get64 :: "addr \<Rightarrow> 'x kmem_scheme \<Rightarrow> u64" where "get64 a s = load64 (kmem_mem s) a"
definition put8 :: "addr \<Rightarrow> u8 \<Rightarrow> 'x kmem_scheme \<Rightarrow> 'x kmem_scheme" where
  "put8 a v s = s\<lparr>kmem_mem := (kmem_mem s)(a := v)\<rparr>"
definition put16 :: "addr \<Rightarrow> u16 \<Rightarrow> 'x kmem_scheme \<Rightarrow> 'x kmem_scheme" where
  "put16 a v s = s\<lparr>kmem_mem := store16 (kmem_mem s) a v\<rparr>"
definition put32 :: "addr \<Rightarrow> u32 \<Rightarrow> 'x kmem_scheme \<Rightarrow> 'x kmem_scheme" where
  "put32 a v s = s\<lparr>kmem_mem := store32 (kmem_mem s) a v\<rparr>"
definition put64 :: "addr \<Rightarrow> u64 \<Rightarrow> 'x kmem_scheme \<Rightarrow> 'x kmem_scheme" where
  "put64 a v s = s\<lparr>kmem_mem := store64 (kmem_mem s) a v\<rparr>"

definition memcpy_s :: "addr \<Rightarrow> addr \<Rightarrow> u64 \<Rightarrow> 'x kmem_scheme \<Rightarrow> 'x kmem_scheme option" where
  "memcpy_s dest src n s = do { (m, _) \<leftarrow> memcpy (kmem_mem s) dest src n; Some (s\<lparr>kmem_mem := m\<rparr>) }"

definition memset_s :: "addr \<Rightarrow> u32 \<Rightarrow> u64 \<Rightarrow> 'x kmem_scheme \<Rightarrow> 'x kmem_scheme option" where
  "memset_s dest c n s = do { (m, _) \<leftarrow> memset (kmem_mem s) dest c n; Some (s\<lparr>kmem_mem := m\<rparr>) }"

definition udiv :: "u32 \<Rightarrow> u32 \<Rightarrow> u32 option" where
  "udiv a b = (if b = 0 then None else Some (a div b))"

definition umod :: "u32 \<Rightarrow> u32 \<Rightarrow> u32 option" where
  "umod a b = (if b = 0 then None else Some (a mod b))"

definition blocksize :: "addr \<Rightarrow> 'x kmem_scheme \<Rightarrow> u32" where
  "blocksize sb s = push_bit (unat (get32 (sb_at sb Block_logsz) s)) 1024"

definition blocksectors :: "addr \<Rightarrow> 'x kmem_scheme \<Rightarrow> u32" where
  "blocksectors sb s = blocksize sb s div of_nat ATA_SECTOR_SIZE"

definition blockgroups_total :: "addr \<Rightarrow> 'x kmem_scheme \<Rightarrow> u32 option" where
  "blockgroups_total sb s =
     (let t = get32 (sb_at sb Blocks_total) s; g = get32 (sb_at sb Blocks_per_group) s in
      do { q \<leftarrow> udiv t g; r \<leftarrow> umod t g; Some (q + (if r \<noteq> 0 then 1 else 0)) })"

definition group_at :: "addr \<Rightarrow> u32 \<Rightarrow> blkgrp_field \<Rightarrow> 'x kmem_scheme \<Rightarrow> addr" where
  "group_at bt i f s =
     get64 (bt_at bt Bt_groups) s + of_nat sizeof_blkgrp * ucast i + of_nat (offset_from 0 blkgrp_layout f)"

definition inode_get_size :: "addr \<Rightarrow> 'x kmem_scheme \<Rightarrow> u64" where
  "inode_get_size ino s = ucast (get32 (inode_at ino Size_lo) s) OR push_bit 32 (ucast (get32 (inode_at ino Size_hi) s))"

definition inode_set_size :: "addr \<Rightarrow> u64 \<Rightarrow> 'x kmem_scheme \<Rightarrow> 'x kmem_scheme" where
  "inode_set_size ino sz s =
     put32 (inode_at ino Size_hi) (ucast (drop_bit 32 sz AND 0xFFFFFFFF))
       (put32 (inode_at ino Size_lo) (ucast (sz AND 0xFFFFFFFF)) s)"

definition read_block :: "'x drive_ops \<Rightarrow> addr \<Rightarrow> u32 \<Rightarrow> addr \<Rightarrow> 'x kmem_scheme \<Rightarrow> 'x kmem_scheme option" where
  "read_block drive sb blk buf s =
     do { (s1, _) \<leftarrow> dr_read drive (ucast (blk * blocksectors sb s)) (ucast (blocksectors sb s)) buf s; Some s1 }"

definition write_block :: "'x drive_ops \<Rightarrow> addr \<Rightarrow> u32 \<Rightarrow> addr \<Rightarrow> 'x kmem_scheme \<Rightarrow> 'x kmem_scheme option" where
  "write_block drive sb blk buf s =
     do { (s1, _) \<leftarrow> dr_write drive (ucast (blk * blocksectors sb s)) (ucast (blocksectors sb s)) buf s; Some s1 }"

section \<open>Read interface\<close>

definition fs_ext2_read_sb :: "'x drive_ops \<Rightarrow> addr \<Rightarrow> addr \<Rightarrow> 'x kmem_scheme \<Rightarrow> 'x kmem_scheme option" where
  "fs_ext2_read_sb drive buf sb s =
     do {
       let base = of_nat sizeof_sb - of_nat sizeof_sb_ext;
       (s1, _) \<leftarrow> dr_read drive 2 1 buf s;
       s2 \<leftarrow> memcpy_s sb buf base s1;
       if get32 (sb_at sb Ver_major) s2 \<ge> 1 then memcpy_s (sb + base) (buf + base) (of_nat sizeof_sb_ext) s2
       else
         let z32 = (\<lambda>f. put32 (sb_at sb f) 0); z8 = (\<lambda>f. put8 (sb_at sb f) 0);
             s3 = put16 (sb_at sb Inode_size) 128 (put32 (sb_at sb First_unres_inode) 11 s2);
             s4 = z32 Opt_features (z32 Req_features (z32 Write_features (put16 (sb_at sb Parent_block_group) 0 s3)));
             s5 = z8 Fs_id (z8 Volume_name (z8 Last_mnt_path s4));
             s6 = put16 (sb_at sb Sb_reserved) 0 (z8 Prealloc_file_blocks (z8 Prealloc_dir_blocks (z32 Compr_alg s5)))
         in Some (z32 Journal_inode (z32 Journal_device (z32 Orphan_head (z8 Journal_id s6))))
     }"

text \<open>The sector behind the superblock, where the table of block groups starts.\<close>

definition table_lba :: "addr \<Rightarrow> 'x kmem_scheme \<Rightarrow> u32" where
  "table_lba sb s = (if blocksize sb s \<le> 1024 then 2 * blocksectors sb s else blocksectors sb s)"

partial_function (option) read_groups_loop ::
  "'x drive_ops \<Rightarrow> addr \<Rightarrow> addr \<Rightarrow> addr \<Rightarrow> u32 \<Rightarrow> u32 \<Rightarrow> u64 \<Rightarrow> 'x kmem_scheme \<Rightarrow> 'x kmem_scheme option" where
  "read_groups_loop drive sb table rbuf epb b lba s =
     (let len = get32 (bt_at table Bt_length) s in
      if b < len then do {
        let db = (if b + epb > len then len - b else epb);
        (s1, _) \<leftarrow> dr_read drive lba (ucast (blocksectors sb s)) rbuf s;
        s2 \<leftarrow> memcpy_s (get64 (bt_at table Bt_groups) s1 + of_nat sizeof_blkgrp * ucast b) rbuf
                (ucast db * of_nat sizeof_blkgrp) s1;
        read_groups_loop drive sb table rbuf epb (b + db) (lba + ucast (blocksectors sb s1)) s2
      } else Some s)"

declare read_groups_loop.simps [code]

definition fs_ext2_read_blkgrp_table ::
  "'x map_hooks \<Rightarrow> 'x drive_ops \<Rightarrow> addr \<Rightarrow> addr \<Rightarrow> 'x kmem_scheme \<Rightarrow> 'x kmem_scheme option" where
  "fs_ext2_read_blkgrp_table hooks drive sb table s =
     do {
       (s1, rbuf) \<leftarrow> kmalloc hooks (ucast (blocksize sb s)) s;
       let epb = ucast (ucast (blocksize sb s1) div (of_nat sizeof_blkgrp :: u64));
       s2 \<leftarrow> read_groups_loop drive sb table rbuf epb 0 (ucast (table_lba sb s1)) s1;
       kfree rbuf s2
     }"

definition inode_size :: "addr \<Rightarrow> 'x kmem_scheme \<Rightarrow> u32" where
  "inode_size sb s = ucast (get16 (sb_at sb Inode_size) s)"

definition fs_ext2_read_inode ::
  "'x map_hooks \<Rightarrow> 'x drive_ops \<Rightarrow> addr \<Rightarrow> addr \<Rightarrow> u32 \<Rightarrow> addr \<Rightarrow> 'x kmem_scheme \<Rightarrow> 'x kmem_scheme option" where
  "fs_ext2_read_inode hooks drive sb bt inode_num out s =
     do {
       blkgrp \<leftarrow> udiv (inode_num - 1) (get32 (sb_at sb Inodes_per_group) s);
       tind \<leftarrow> umod (inode_num - 1) (get32 (sb_at sb Inodes_per_group) s);
       baddr \<leftarrow> udiv (tind * inode_size sb s) (blocksize sb s);
       (s1, buf) \<leftarrow> kmalloc hooks (ucast (blocksize sb s)) s;
       s2 \<leftarrow> read_block drive sb (get32 (group_at bt blkgrp Inode_table_addr s1) s1 + baddr) buf s1;
       off \<leftarrow> umod (inode_size sb s2 * tind) (blocksize sb s2);
       s3 \<leftarrow> memcpy_s out (buf + ucast off) (ucast (inode_size sb s2)) s2;
       kfree buf s3
     }"

definition dbp_per_block :: "addr \<Rightarrow> 'x kmem_scheme \<Rightarrow> u64" where
  "dbp_per_block sb s = ucast (blocksize sb s) div 4"

definition dbp_at :: "addr \<Rightarrow> u32 \<Rightarrow> addr" where
  "dbp_at ino bnd = inode_at ino Dbp + 4 * ucast bnd"

text \<open>The \<open>i\<close>-th 32-bit number of a buffer.\<close>

definition u32_at :: "addr \<Rightarrow> u32 \<Rightarrow> addr" where
  "u32_at buf i = buf + 4 * ucast i"

text \<open>The positions in the blocks of pointers that the last two cases of the pointer functions compute.\<close>

definition dibp_index :: "u64 \<Rightarrow> u32 \<Rightarrow> u32 \<times> u32" where
  "dibp_index d bnd = (ucast ((ucast bnd - 12 - d) div d), ucast ((ucast bnd - 12 - d) mod d))"

definition tibp_index :: "u64 \<Rightarrow> u32 \<Rightarrow> u32 \<times> u32 \<times> u32" where
  "tibp_index d bnd =
     (let k = ucast bnd - 12 - d - d * d in (ucast (k div d * d), ucast (k div d), ucast (k mod d)))"

definition fs_ext2_get_inode_pointer ::
  "'x drive_ops \<Rightarrow> addr \<Rightarrow> addr \<Rightarrow> u32 \<Rightarrow> addr \<Rightarrow> 'x kmem_scheme \<Rightarrow> ('x kmem_scheme \<times> u32) option" where
  "fs_ext2_get_inode_pointer drive sb ino bnd buf s =
     (let d = dbp_per_block sb s in
      if bnd < 12 then Some (s, get32 (dbp_at ino bnd) s)
      else if ucast bnd < 12 + d then
        if get32 (inode_at ino Sibp) s = 0 then Some (s, 0)
        else do {
          s1 \<leftarrow> read_block drive sb (get32 (inode_at ino Sibp) s) buf s;
          Some (s1, get32 (u32_at buf (bnd - 12)) s1)
        }
      else if ucast bnd < 12 + d + d * d then
        if get32 (inode_at ino Dibp) s = 0 then Some (s, 0)
        else do {
          s1 \<leftarrow> read_block drive sb (get32 (inode_at ino Dibp) s) buf s;
          let (dibp_addr, sibp_addr) = dibp_index d bnd;
          let baddr = get32 (u32_at buf dibp_addr) s1;
          if baddr = 0 then Some (s1, 0)
          else do {
            s2 \<leftarrow> read_block drive sb baddr buf s1;
            Some (s2, get32 (u32_at buf sibp_addr) s2)
          }
        }
      else
        if get32 (inode_at ino Tibp) s = 0 then Some (s, 0)
        else do {
          s1 \<leftarrow> read_block drive sb (get32 (inode_at ino Tibp) s) buf s;
          let (tibp_addr, dibp_addr, sibp_addr) = tibp_index d bnd;
          let baddr = get32 (u32_at buf tibp_addr) s1;
          if d = 0 then None
          else if baddr = 0 then Some (s1, 0)
          else do {
            s2 \<leftarrow> read_block drive sb baddr buf s1;
            let baddr = get32 (u32_at buf dibp_addr) s2;
            if baddr = 0 then Some (s2, 0)
            else do {
              s3 \<leftarrow> read_block drive sb baddr buf s2;
              Some (s3, get32 (u32_at buf sibp_addr) s3)
            }
          }
        })"

definition fs_ext2_read_inode_data ::
  "'x drive_ops \<Rightarrow> addr \<Rightarrow> addr \<Rightarrow> u32 \<Rightarrow> addr \<Rightarrow> 'x kmem_scheme \<Rightarrow> ('x kmem_scheme \<times> int) option" where
  "fs_ext2_read_inode_data drive sb ino bnd bout s =
     do {
       (s1, baddr) \<leftarrow> fs_ext2_get_inode_pointer drive sb ino bnd bout s;
       if baddr = 0 then Some (s1, 0)
       else do { s2 \<leftarrow> read_block drive sb baddr bout s1; Some (s2, 1) }
     }"

definition fs_ext2_iterate_dir_start ::
  "'x drive_ops \<Rightarrow> addr \<Rightarrow> addr \<Rightarrow> addr \<Rightarrow> addr \<Rightarrow> 'x kmem_scheme \<Rightarrow> 'x kmem_scheme option" where
  "fs_ext2_iterate_dir_start drive sb ino it pbuf s =
     do {
       let s1 = put64 (it_at it It_blkbuf) pbuf (put32 (it_at it It_blki) 0 (put32 (it_at it It_byteaddr) 0
                  (put64 (it_at it It_dir) ino s)));
       (s2, v) \<leftarrow> fs_ext2_read_inode_data drive sb ino 0 pbuf s1;
       Some (put8 (it_at it It_is_valid) (of_int v) s2)
     }"

definition FS_EXT2_SB_RWFEATURE_DIRS_HAVE_TYPE_FIELD :: u32 where
  "FS_EXT2_SB_RWFEATURE_DIRS_HAVE_TYPE_FIELD = 2"

definition cur_at :: "addr \<Rightarrow> dirent_field \<Rightarrow> addr" where
  "cur_at it f = dirent_at (it_at it It_cur) f"

definition fs_ext2_iterate_dir_next ::
  "'x drive_ops \<Rightarrow> addr \<Rightarrow> addr \<Rightarrow> 'x kmem_scheme \<Rightarrow> ('x kmem_scheme \<times> int) option" where
  "fs_ext2_iterate_dir_next drive sb it s =
     (if kmem_mem s (it_at it It_is_valid) = 0 then Some (s, 0)
      else do {
        let entry = (\<lambda>s. get64 (it_at it It_blkbuf) s + ucast (get32 (it_at it It_byteaddr) s));
        s1 \<leftarrow> memcpy_s (it_at it It_cur) (entry s) DIRENT_SZ_WO_NAME s;
        s2 \<leftarrow> (if get32 (cur_at it De_inode_num) s1 \<noteq> 0 then do {
                let lo = ucast (kmem_mem s1 (cur_at it De_name_length_lo));
                let bcpy = (if get32 (sb_at sb Req_features) s1 AND FS_EXT2_SB_RWFEATURE_DIRS_HAVE_TYPE_FIELD = 0
                            then lo OR push_bit 8 (ucast (kmem_mem s1 (cur_at it De_type_byte))) else lo :: u32);
                let name_bcpy = (if bcpy \<le> 256 then bcpy else 256);
                s2 \<leftarrow> memcpy_s (cur_at it De_name) (entry s1 + DIRENT_SZ_WO_NAME) (ucast name_bcpy) s1;
                Some (put8 (cur_at it De_name + ucast name_bcpy) 0 s2)
              } else Some s1);
        let esz = ucast (get16 (cur_at it De_entry_sz) s2);
        let s3 = put32 (it_at it It_byteaddr) (get32 (it_at it It_byteaddr) s2 + esz) s2;
        if get32 (it_at it It_byteaddr) s3 \<ge> blocksize sb s3 then do {
          let s4 = put32 (it_at it It_blki) (get32 (it_at it It_blki) s3 + 1) s3;
          (s5, r) \<leftarrow> fs_ext2_read_inode_data drive sb (get64 (it_at it It_dir) s4) (get32 (it_at it It_blki) s4)
                      (get64 (it_at it It_blkbuf) s4) s4;
          if r = 0 then
            let s6 = put32 (it_at it It_blki) (get32 (it_at it It_blki) s5 - 1) s5;
                s7 = put32 (it_at it It_byteaddr) (get32 (it_at it It_byteaddr) s6 - ucast (get16 (cur_at it De_entry_sz) s6)) s6
            in Some (put8 (it_at it It_is_valid) 0 s7, 1)
          else Some (put32 (it_at it It_byteaddr) 0 s5, 1)
        } else Some (s3, 1)
      })"

section \<open>Searching for free blocks and inodes\<close>

partial_function (option) leading_ones :: "u8 \<Rightarrow> u8 \<Rightarrow> u8 option" where
  "leading_ones b bsh = (if b AND 0x80 \<noteq> 0 then leading_ones (push_bit 1 b) (bsh + 1) else Some bsh)"

declare leading_ones.simps [code]

partial_function (option) scan_block_bytes :: "mem \<Rightarrow> addr \<Rightarrow> u32 \<Rightarrow> u32 \<Rightarrow> u32 option option" where
  "scan_block_bytes m buf bs i =
     (if i < bs then
        if m (buf + ucast i) \<noteq> 255
        then do { bsh \<leftarrow> leading_ones (m (buf + ucast i)) 0; Some (Some (i * 8 + ucast bsh)) }
        else scan_block_bytes m buf bs (i + 1)
      else Some None)"

declare scan_block_bytes.simps [code]

partial_function (option) find_block_loop ::
  "'x drive_ops \<Rightarrow> addr \<Rightarrow> addr \<Rightarrow> u32 \<Rightarrow> addr \<Rightarrow> u64 \<Rightarrow> 'x kmem_scheme \<Rightarrow> ('x kmem_scheme \<times> u32) option" where
  "find_block_loop drive sb bt blkgrp buf bmb s =
     (if bmb < ucast (get32 (group_at bt blkgrp Inode_bitmap_addr s) s) then do {
        (s1, _) \<leftarrow> dr_read drive (bmb * ucast (blocksectors sb s)) (ucast (blocksectors sb s)) buf s;
        r \<leftarrow> scan_block_bytes (kmem_mem s1) buf (blocksize sb s1) 0;
        case r of
          Some v \<Rightarrow> Some (s1, v)
        | None \<Rightarrow> find_block_loop drive sb bt blkgrp buf (bmb + 1) s1
      } else Some (s, - 1))"

declare find_block_loop.simps [code]

definition fs_ext2_find_grp_unalloc_block ::
  "'x map_hooks \<Rightarrow> 'x drive_ops \<Rightarrow> addr \<Rightarrow> addr \<Rightarrow> u32 \<Rightarrow> 'x kmem_scheme \<Rightarrow> ('x kmem_scheme \<times> u32) option" where
  "fs_ext2_find_grp_unalloc_block hooks drive sb bt blkgrp s =
     do {
       (s1, buf) \<leftarrow> kmalloc hooks (ucast (blocksize sb s)) s;
       (s2, r) \<leftarrow> find_block_loop drive sb bt blkgrp buf (ucast (get32 (group_at bt blkgrp Block_bitmap_addr s1) s1)) s1;
       s3 \<leftarrow> kfree buf s2;
       Some (s3, r)
     }"

text \<open>The block number that \<^verbatim>\<open>fs_ext2_find_unalloc_block\<close> computes for group \<open>bi\<close> and position \<open>ubi\<close>.\<close>

definition block_number :: "addr \<Rightarrow> addr \<Rightarrow> u32 \<Rightarrow> u32 \<Rightarrow> 'x kmem_scheme \<Rightarrow> u32 option" where
  "block_number sb bt bi ubi s =
     do {
       t \<leftarrow> udiv (get32 (sb_at sb Inodes_per_group) s * inode_size sb s) (blocksize sb s);
       Some (get32 (group_at bt bi Inode_table_addr s) s + t + bi * get32 (sb_at sb Blocks_per_group) s + ubi)
     }"

text \<open>
  The two loops over the groups. The first runs up from the preferred group to the end of the table; its
  result has no block when it found none, and says where it stopped. The second starts at group 0;
  the number it computes is that of the group \<open>bi\<close> where the first one stopped.
\<close>

partial_function (option) find_block_up ::
  "'x map_hooks \<Rightarrow> 'x drive_ops \<Rightarrow> addr \<Rightarrow> addr \<Rightarrow> u32 \<Rightarrow> 'x kmem_scheme \<Rightarrow> ('x kmem_scheme \<times> u32 \<times> u32 option) option" where
  "find_block_up hooks drive sb bt bi s =
     (if bi < get32 (bt_at bt Bt_length) s then do {
        (s1, ubi) \<leftarrow> fs_ext2_find_grp_unalloc_block hooks drive sb bt bi s;
        if ubi \<noteq> - 1 then do { r \<leftarrow> block_number sb bt bi ubi s1; Some (s1, bi, Some r) }
        else find_block_up hooks drive sb bt (bi + 1) s1
      } else Some (s, bi, None))"

declare find_block_up.simps [code]

partial_function (option) find_block_wrap ::
  "'x map_hooks \<Rightarrow> 'x drive_ops \<Rightarrow> addr \<Rightarrow> addr \<Rightarrow> u32 \<Rightarrow> u32 \<Rightarrow> 'x kmem_scheme \<Rightarrow> ('x kmem_scheme \<times> u32) option" where
  "find_block_wrap hooks drive sb bt bi bi2 s =
     (if bi2 < bi then do {
        (s1, ubi) \<leftarrow> fs_ext2_find_grp_unalloc_block hooks drive sb bt bi2 s;
        if ubi \<noteq> - 1 then do { r \<leftarrow> block_number sb bt bi ubi s1; Some (s1, r) }
        else find_block_wrap hooks drive sb bt bi (bi2 + 1) s1
      } else Some (s, - 1))"

declare find_block_wrap.simps [code]

definition fs_ext2_find_unalloc_block ::
  "'x map_hooks \<Rightarrow> 'x drive_ops \<Rightarrow> addr \<Rightarrow> addr \<Rightarrow> u32 \<Rightarrow> 'x kmem_scheme \<Rightarrow> ('x kmem_scheme \<times> u32) option" where
  "fs_ext2_find_unalloc_block hooks drive sb bt blkgrp_start s =
     do {
       (s1, bi, r) \<leftarrow> find_block_up hooks drive sb bt blkgrp_start s;
       case r of Some v \<Rightarrow> Some (s1, v) | None \<Rightarrow> find_block_wrap hooks drive sb bt bi 0 s1
     }"

partial_function (option) free_inode_bit :: "u32 \<Rightarrow> u32 \<Rightarrow> u8 \<Rightarrow> u8 \<Rightarrow> u8 option" where
  "free_inode_bit first_unres base b bsh =
     (if b AND 0x80 \<noteq> 0 \<or> base + ucast bsh \<le> first_unres
      then free_inode_bit first_unres base (push_bit 1 b) (bsh + 1) else Some bsh)"

declare free_inode_bit.simps [code]

partial_function (option) scan_inode_bytes ::
  "mem \<Rightarrow> addr \<Rightarrow> u32 \<Rightarrow> u32 \<Rightarrow> u32 \<Rightarrow> u32 \<Rightarrow> u32 option option" where
  "scan_inode_bytes m buf bs first_unres group_base i =
     (if i < bs then
        if group_base + i * 8 \<le> first_unres then scan_inode_bytes m buf bs first_unres group_base (i + 1)
        else if m (buf + ucast i) \<noteq> 255 then do {
          bsh \<leftarrow> free_inode_bit first_unres (group_base + i * 8) (m (buf + ucast i)) 0;
          Some (Some (i * 8 + ucast bsh + 1))
        }
        else scan_inode_bytes m buf bs first_unres group_base (i + 1)
      else Some None)"

declare scan_inode_bytes.simps [code]

partial_function (option) find_inode_loop ::
  "'x drive_ops \<Rightarrow> addr \<Rightarrow> addr \<Rightarrow> u32 \<Rightarrow> addr \<Rightarrow> u64 \<Rightarrow> 'x kmem_scheme \<Rightarrow> ('x kmem_scheme \<times> u32) option" where
  "find_inode_loop drive sb bt blkgrp buf bmb s =
     do {
       let ipg = get32 (sb_at sb Inodes_per_group) s;
       q \<leftarrow> udiv ipg (8 * blocksize sb s);
       r \<leftarrow> umod ipg (8 * blocksize sb s);
       if bmb < ucast (get32 (group_at bt blkgrp Inode_bitmap_addr s) s + q + (if r \<noteq> 0 then 1 else 0)) then do {
         (s1, _) \<leftarrow> dr_read drive (bmb * ucast (blocksectors sb s)) (ucast (blocksectors sb s)) buf s;
         found \<leftarrow> scan_inode_bytes (kmem_mem s1) buf (blocksize sb s1) (get32 (sb_at sb First_unres_inode) s1)
                    (blkgrp * get32 (sb_at sb Inodes_per_group) s1) 0;
         case found of
           Some v \<Rightarrow> Some (s1, v)
         | None \<Rightarrow> find_inode_loop drive sb bt blkgrp buf (bmb + 1) s1
       } else Some (s, 0)
     }"

declare find_inode_loop.simps [code]

definition fs_ext2_find_grp_unalloc_inode ::
  "'x map_hooks \<Rightarrow> 'x drive_ops \<Rightarrow> addr \<Rightarrow> addr \<Rightarrow> u32 \<Rightarrow> 'x kmem_scheme \<Rightarrow> ('x kmem_scheme \<times> u32) option" where
  "fs_ext2_find_grp_unalloc_inode hooks drive sb bt blkgrp s =
     do {
       (s1, buf) \<leftarrow> kmalloc hooks (ucast (blocksize sb s)) s;
       (s2, r) \<leftarrow> find_inode_loop drive sb bt blkgrp buf (ucast (get32 (group_at bt blkgrp Inode_bitmap_addr s1) s1)) s1;
       s3 \<leftarrow> kfree buf s2;
       Some (s3, r)
     }"

partial_function (option) find_inode_up ::
  "'x map_hooks \<Rightarrow> 'x drive_ops \<Rightarrow> addr \<Rightarrow> addr \<Rightarrow> u32 \<Rightarrow> 'x kmem_scheme \<Rightarrow> ('x kmem_scheme \<times> u32 \<times> u32 option) option" where
  "find_inode_up hooks drive sb bt bi s =
     (if bi < get32 (bt_at bt Bt_length) s then do {
        (s1, inum) \<leftarrow> fs_ext2_find_grp_unalloc_inode hooks drive sb bt bi s;
        if inum \<noteq> 0 then Some (s1, bi, Some (bi * get32 (sb_at sb Inodes_per_group) s1 + inum))
        else find_inode_up hooks drive sb bt (bi + 1) s1
      } else Some (s, bi, None))"

declare find_inode_up.simps [code]

partial_function (option) find_inode_wrap ::
  "'x map_hooks \<Rightarrow> 'x drive_ops \<Rightarrow> addr \<Rightarrow> addr \<Rightarrow> u32 \<Rightarrow> u32 \<Rightarrow> 'x kmem_scheme \<Rightarrow> ('x kmem_scheme \<times> u32) option" where
  "find_inode_wrap hooks drive sb bt bi bi2 s =
     (if bi2 < bi then do {
        (s1, inum) \<leftarrow> fs_ext2_find_grp_unalloc_inode hooks drive sb bt bi2 s;
        if inum \<noteq> 0 then Some (s1, bi * get32 (sb_at sb Inodes_per_group) s1 + inum)
        else find_inode_wrap hooks drive sb bt bi (bi2 + 1) s1
      } else Some (s, 0))"

declare find_inode_wrap.simps [code]

definition fs_ext2_find_unalloc_inode ::
  "'x map_hooks \<Rightarrow> 'x drive_ops \<Rightarrow> addr \<Rightarrow> addr \<Rightarrow> u32 \<Rightarrow> 'x kmem_scheme \<Rightarrow> ('x kmem_scheme \<times> u32) option" where
  "fs_ext2_find_unalloc_inode hooks drive sb bt blkgrp_start s =
     do {
       (s1, bi, r) \<leftarrow> find_inode_up hooks drive sb bt blkgrp_start s;
       case r of Some v \<Rightarrow> Some (s1, v) | None \<Rightarrow> find_inode_wrap hooks drive sb bt bi 0 s1
     }"

section \<open>Write interface\<close>

definition fs_ext2_write_sb :: "'x drive_ops \<Rightarrow> addr \<Rightarrow> addr \<Rightarrow> 'x kmem_scheme \<Rightarrow> 'x kmem_scheme option" where
  "fs_ext2_write_sb drive buf sb s =
     do {
       (s1, _) \<leftarrow> dr_read drive 2 1 buf s;
       s2 \<leftarrow> memcpy_s buf sb (if get32 (sb_at sb Ver_major) s1 \<ge> 1 then of_nat sizeof_sb
                             else of_nat sizeof_sb - of_nat sizeof_sb_ext) s1;
       (s3, _) \<leftarrow> dr_write drive 2 1 buf s2;
       Some s3
     }"

definition fs_ext2_write_blkgrp_table_index ::
  "'x drive_ops \<Rightarrow> addr \<Rightarrow> addr \<Rightarrow> u32 \<Rightarrow> 'x kmem_scheme \<Rightarrow> 'x kmem_scheme option" where
  "fs_ext2_write_blkgrp_table_index drive sb bt i s =
     do {
       let eps = of_nat (ATA_SECTOR_SIZE div sizeof_blkgrp);
       let baddr = table_lba sb s + of_nat ATA_SECTOR_SIZE * (i div eps);
       let tbaddr = (i div eps) * eps;
       (s1, _) \<leftarrow> dr_write drive (ucast baddr) 1 (get64 (bt_at bt Bt_groups) s + of_nat sizeof_blkgrp * ucast tbaddr) s;
       Some s1
     }"

text \<open>The common part of the four functions that change one bit of a bitmap; \<open>f\<close> combines the byte with the mask of the bit.\<close>

definition update_bitmap ::
  "'x map_hooks \<Rightarrow> 'x drive_ops \<Rightarrow> addr \<Rightarrow> addr \<Rightarrow> u32 \<Rightarrow> blkgrp_field \<Rightarrow> u32 \<Rightarrow> (u8 \<Rightarrow> u8 \<Rightarrow> u8) \<Rightarrow>
    'x kmem_scheme \<Rightarrow> 'x kmem_scheme option" where
  "update_bitmap hooks drive sb bt blkgrp field tind f s =
     do {
       (s1, buf) \<leftarrow> kmalloc hooks (of_nat ATA_SECTOR_SIZE) s;
       let bmp_addr = get32 (group_at bt blkgrp field s1) s1 * blocksectors sb s1 + tind div 8 div of_nat ATA_SECTOR_SIZE;
       (s2, _) \<leftarrow> dr_read drive (ucast bmp_addr) 1 buf s1;
       let bmp_byte = buf + ucast ((tind div 8) mod of_nat ATA_SECTOR_SIZE);
       let bmp_bit = tind mod 8;
       let s3 = put8 bmp_byte (f (kmem_mem s2 bmp_byte) (push_bit (7 - unat bmp_bit) 1)) s2;
       (s4, _) \<leftarrow> dr_write drive (ucast bmp_addr) 1 buf s3;
       kfree buf s4
     }"

definition set_mask :: "u8 \<Rightarrow> u8 \<Rightarrow> u8" where "set_mask b m = b OR m"
definition clear_mask :: "u8 \<Rightarrow> u8 \<Rightarrow> u8" where "clear_mask b m = b AND NOT m"

definition fs_ext2_mark_alloc_inode ::
  "'x map_hooks \<Rightarrow> 'x drive_ops \<Rightarrow> addr \<Rightarrow> addr \<Rightarrow> u32 \<Rightarrow> 'x kmem_scheme \<Rightarrow> 'x kmem_scheme option" where
  "fs_ext2_mark_alloc_inode hooks drive sb bt inode_num s =
     do {
       blkgrp \<leftarrow> udiv (inode_num - 1) (get32 (sb_at sb Inodes_per_group) s);
       tind \<leftarrow> umod (inode_num - 1) (get32 (sb_at sb Inodes_per_group) s);
       update_bitmap hooks drive sb bt blkgrp Inode_bitmap_addr tind set_mask s
     }"

definition fs_ext2_mark_alloc_block ::
  "'x map_hooks \<Rightarrow> 'x drive_ops \<Rightarrow> addr \<Rightarrow> addr \<Rightarrow> u32 \<Rightarrow> 'x kmem_scheme \<Rightarrow> 'x kmem_scheme option" where
  "fs_ext2_mark_alloc_block hooks drive sb bt block_num s =
     do {
       blkgrp \<leftarrow> udiv block_num (get32 (sb_at sb Blocks_per_group) s);
       tind \<leftarrow> umod block_num (get32 (sb_at sb Blocks_per_group) s);
       update_bitmap hooks drive sb bt blkgrp Block_bitmap_addr tind set_mask s
     }"

definition fs_ext2_mark_unalloc_inode ::
  "'x map_hooks \<Rightarrow> 'x drive_ops \<Rightarrow> addr \<Rightarrow> addr \<Rightarrow> u32 \<Rightarrow> 'x kmem_scheme \<Rightarrow> 'x kmem_scheme option" where
  "fs_ext2_mark_unalloc_inode hooks drive sb bt inode_num s =
     do {
       blkgrp \<leftarrow> udiv (inode_num - 1) (get32 (sb_at sb Inodes_per_group) s);
       tind \<leftarrow> umod (inode_num - 1) (get32 (sb_at sb Inodes_per_group) s);
       update_bitmap hooks drive sb bt blkgrp Inode_bitmap_addr tind clear_mask s
     }"

definition fs_ext2_mark_unalloc_block ::
  "'x map_hooks \<Rightarrow> 'x drive_ops \<Rightarrow> addr \<Rightarrow> addr \<Rightarrow> u32 \<Rightarrow> 'x kmem_scheme \<Rightarrow> 'x kmem_scheme option" where
  "fs_ext2_mark_unalloc_block hooks drive sb bt block_num s =
     do {
       blkgrp \<leftarrow> udiv (block_num - 1) (get32 (sb_at sb Blocks_per_group) s);
       tind \<leftarrow> umod (block_num - 1) (get32 (sb_at sb Blocks_per_group) s);
       update_bitmap hooks drive sb bt blkgrp Block_bitmap_addr tind clear_mask s
     }"

definition fs_ext2_write_inode ::
  "'x map_hooks \<Rightarrow> 'x drive_ops \<Rightarrow> addr \<Rightarrow> addr \<Rightarrow> u32 \<Rightarrow> addr \<Rightarrow> 'x kmem_scheme \<Rightarrow> 'x kmem_scheme option" where
  "fs_ext2_write_inode hooks drive sb bt inode_num inp s =
     do {
       blkgrp \<leftarrow> udiv (inode_num - 1) (get32 (sb_at sb Inodes_per_group) s);
       tind \<leftarrow> umod (inode_num - 1) (get32 (sb_at sb Inodes_per_group) s);
       baddr \<leftarrow> udiv (tind * inode_size sb s) (blocksize sb s);
       (s1, buf) \<leftarrow> kmalloc hooks (ucast (blocksize sb s)) s;
       s2 \<leftarrow> read_block drive sb (get32 (group_at bt blkgrp Inode_table_addr s1) s1 + baddr) buf s1;
       s3 \<leftarrow> memcpy_s (buf + ucast (inode_size sb s2 * tind)) inp (ucast (inode_size sb s2)) s2;
       s4 \<leftarrow> write_block drive sb (get32 (group_at bt blkgrp Inode_table_addr s3) s3 + baddr) buf s3;
       kfree buf s4
     }"

text \<open>
  The sector of an indirect block that holds pointer \<open>sibp_addr\<close>, and the place in a sector buffer that the
  code writes the pointer to: the byte offset is used as an index of 32-bit numbers. Whole sectors are
  counted as \<^verbatim>\<open>ATA_SECTOR_SIZE\<close>, so 512 of them are transferred.
\<close>

definition ibp_lba :: "addr \<Rightarrow> u32 \<Rightarrow> u32 \<Rightarrow> 'x kmem_scheme \<Rightarrow> u64" where
  "ibp_lba sb blk sibp_addr s = ucast (blk * blocksectors sb s) + ucast sibp_addr * 4 div of_nat ATA_SECTOR_SIZE"

definition ibp_slot :: "addr \<Rightarrow> u32 \<Rightarrow> addr" where
  "ibp_slot buf sibp_addr = buf + 4 * (ucast sibp_addr * 4 mod of_nat ATA_SECTOR_SIZE)"

text \<open>The result of \<^verbatim>\<open>TRY_ALLOC_IBP\<close> has a value when the macro returns from the function.\<close>

definition try_alloc_ibp ::
  "'x map_hooks \<Rightarrow> 'x drive_ops \<Rightarrow> addr \<Rightarrow> addr \<Rightarrow> u32 \<Rightarrow> addr \<Rightarrow> addr \<Rightarrow> u32 \<Rightarrow> u32 \<Rightarrow>
    'x kmem_scheme \<Rightarrow> ('x kmem_scheme \<times> int option) option" where
  "try_alloc_ibp hooks drive sb bt inode_num ibp buf sibp_addr ptr s =
     (if get32 ibp s \<noteq> 0 then Some (s, None)
      else do {
        blkgrp_start \<leftarrow> udiv (inode_num - 1) (get32 (sb_at sb Inodes_per_group) s);
        (s1, blk) \<leftarrow> fs_ext2_find_unalloc_block hooks drive sb bt blkgrp_start s;
        let s2 = put32 ibp blk s1;
        if get32 ibp s2 = 0 then do { s3 \<leftarrow> kfree buf s2; Some (s3, Some 0) }
        else do {
          s3 \<leftarrow> fs_ext2_mark_alloc_block hooks drive sb bt (get32 ibp s2) s2;
          s4 \<leftarrow> memset_s buf 0 (of_nat ATA_SECTOR_SIZE) s3;
          let s5 = put32 (ibp_slot buf sibp_addr) ptr s4;
          (s6, _) \<leftarrow> dr_write drive (ibp_lba sb (get32 ibp s5) sibp_addr s5) (of_nat ATA_SECTOR_SIZE) buf s5;
          Some (s6, Some 1)
        }
      })"

text \<open>
  Entering a pointer into an indirect block, with which all three indirect cases end. The block number
  is a function of the state, since the first case reads the field of the inode again for the write.
\<close>

definition enter_pointer ::
  "'x drive_ops \<Rightarrow> addr \<Rightarrow> ('x kmem_scheme \<Rightarrow> u32) \<Rightarrow> u32 \<Rightarrow> addr \<Rightarrow> u32 \<Rightarrow>
    'x kmem_scheme \<Rightarrow> ('x kmem_scheme \<times> int) option" where
  "enter_pointer drive sb blk sibp_addr buf ptr s =
     do {
       (s1, _) \<leftarrow> dr_read drive (ibp_lba sb (blk s) sibp_addr s) (of_nat ATA_SECTOR_SIZE) buf s;
       let s2 = put32 (ibp_slot buf sibp_addr) ptr s1;
       (s3, _) \<leftarrow> dr_write drive (ibp_lba sb (blk s2) sibp_addr s2) (of_nat ATA_SECTOR_SIZE) buf s2;
       s4 \<leftarrow> kfree buf s3;
       Some (s4, 1)
     }"

definition fs_ext2_write_inode_block_pointer ::
  "'x map_hooks \<Rightarrow> 'x drive_ops \<Rightarrow> addr \<Rightarrow> addr \<Rightarrow> addr \<Rightarrow> u32 \<Rightarrow> u32 \<Rightarrow> u32 \<Rightarrow>
    'x kmem_scheme \<Rightarrow> ('x kmem_scheme \<times> int) option" where
  "fs_ext2_write_inode_block_pointer hooks drive sb bt ino inode_num bnd ptr s =
     (let d = dbp_per_block sb s in
      if bnd < 12 then do {
        s1 \<leftarrow> fs_ext2_write_inode hooks drive sb bt inode_num ino (put32 (dbp_at ino bnd) ptr s);
        Some (s1, 1)
      }
      else if ucast bnd < 12 + d then do {
        let sibp_addr = bnd - 12;
        (s1, buf) \<leftarrow> kmalloc hooks (of_nat ATA_SECTOR_SIZE) s;
        (s2, r) \<leftarrow> try_alloc_ibp hooks drive sb bt inode_num (inode_at ino Sibp) buf sibp_addr ptr s1;
        case r of
          Some e \<Rightarrow> Some (s2, e)
        | None \<Rightarrow> enter_pointer drive sb (get32 (inode_at ino Sibp)) sibp_addr buf ptr s2
      }
      else if ucast bnd < 12 + d + d * d then do {
        (s1, buf) \<leftarrow> kmalloc hooks (of_nat ATA_SECTOR_SIZE) s;
        let (dibp_addr, sibp_addr) = dibp_index d bnd;
        (s2, r) \<leftarrow> try_alloc_ibp hooks drive sb bt inode_num (inode_at ino Dibp) buf sibp_addr ptr s1;
        case r of
          Some e \<Rightarrow> Some (s2, e)
        | None \<Rightarrow> do {
            s3 \<leftarrow> read_block drive sb (get32 (inode_at ino Dibp) s2) buf s2;
            enter_pointer drive sb (\<lambda>_. get32 (u32_at buf dibp_addr) s3) sibp_addr buf ptr s3
          }
      }
      else do {
        (s1, buf) \<leftarrow> kmalloc hooks (of_nat ATA_SECTOR_SIZE) s;
        let (tibp_addr, dibp_addr, sibp_addr) = tibp_index d bnd;
        (s2, r) \<leftarrow> (if d = 0 then None
                   else try_alloc_ibp hooks drive sb bt inode_num (inode_at ino Tibp) buf sibp_addr ptr s1);
        case r of
          Some e \<Rightarrow> Some (s2, e)
        | None \<Rightarrow> do {
            s3 \<leftarrow> read_block drive sb (get32 (inode_at ino Tibp) s2) buf s2;
            s4 \<leftarrow> read_block drive sb (get32 (u32_at buf tibp_addr) s3) buf s3;
            enter_pointer drive sb (\<lambda>_. get32 (u32_at buf dibp_addr) s4) sibp_addr buf ptr s4
          }
      })"

text \<open>
  \<^verbatim>\<open>fs_ext2_write_inode_data\<close> finds the block like \<^verbatim>\<open>fs_ext2_get_inode_pointer\<close>, statement by statement, with
  the buffer of the caller as its work space, and then writes that buffer.
\<close>

definition fs_ext2_write_inode_data ::
  "'x drive_ops \<Rightarrow> addr \<Rightarrow> addr \<Rightarrow> u32 \<Rightarrow> addr \<Rightarrow> 'x kmem_scheme \<Rightarrow> ('x kmem_scheme \<times> int) option" where
  "fs_ext2_write_inode_data drive sb ino bnd bin s =
     do {
       (s1, baddr) \<leftarrow> fs_ext2_get_inode_pointer drive sb ino bnd bin s;
       if baddr = 0 then Some (s1, 0)
       else do { s2 \<leftarrow> write_block drive sb baddr bin s1; Some (s2, 1) }
     }"

end
