(* ===== verification/Ext2_disk.thy ===== *)
theory Ext2_disk
  imports Ext2
begin

unbundle bit_operations_syntax

text \<open>
  What the functions of \<^theory_text>\<open>Ext2\<close> do to the disk. The lemmas are proved once for every drive with the contract
  \<open>block_drive\<close> and used for the programmed I/O of \<^verbatim>\<open>dev/pio.c\<close> on the drive of \<^theory_text>\<open>Ata_disk\<close>.
\<close>

section \<open>Layout\<close>

lemma sb_offsets:
  "offset_from 0 sb_layout Block_logsz = 24" "offset_from 0 sb_layout Blocks_per_group = 32"
  "offset_from 0 sb_layout Inodes_per_group = 40"
  by (simp_all add: sb_layout_def sb_base_layout_def sb_ext_layout_def pad_def)

lemma sizeof_blkgrp_eq: "sizeof_blkgrp = 32"
  by (simp add: sizeof_blkgrp_def blkgrp_layout_def pad_def)

section \<open>Reading numbers\<close>

lemma load_le_shift: "load_le n m (a + b) = load_le n (\<lambda>x. m (a + x)) b"
  by (induction n arbitrary: b) (simp_all add: add.assoc)

lemma load32_shift: "load32 m a = load32 (\<lambda>x. m (a + x)) 0"
  using load_le_shift [of 4 m a 0] by (simp add: load32_def del: load_le.simps)

lemma load32_cong: "(\<And>x. in_range a 4 x \<Longrightarrow> m x = m' x) \<Longrightarrow> load32 m a = load32 m' a"
  unfolding load32_def by (rule arg_cong [where f = of_nat]) (rule load_le_cong)

definition disk32 :: "(nat \<Rightarrow> u8) \<Rightarrow> nat \<Rightarrow> u32" where
  "disk32 D p = load32 (\<lambda>x. D (p + unat x)) 0"

lemma load32_filled:
  assumes "unat (off :: u64) + 4 \<le> n" "n \<le> 2 ^ 64"
  shows "load32 (filled m buf n f) (buf + off) = disk32 f (unat off)"
  unfolding disk32_def load32_shift [of _ "buf + off"]
proof (rule load32_cong)
  fix x :: addr
  assume "in_range 0 4 x"
  then have x: "unat x < 4" by (simp add: in_range_def)
  then have "unat (off + x) = unat off + unat x" using assms by (intro unat_plus_nowrap) simp
  then show "filled m buf n f (buf + off + x) = f (unat off + unat x)"
    using x assms by (simp add: filled_def in_range_def add.assoc)
qed

section \<open>Blocks\<close>

text \<open>\<open>geom sb k s\<close>: the blocks of the file system have \<open>k\<close> sectors.\<close>

definition geom :: "addr \<Rightarrow> nat \<Rightarrow> 'x kmem_scheme \<Rightarrow> bool" where
  "geom sb k s \<longleftrightarrow> unat (blocksize sb s) = 512 * k \<and> 0 < k \<and> k < 65536"

lemma unat_of_nat_32: "n < 2 ^ 32 \<Longrightarrow> unat (of_nat n :: u32) = n"
  by (simp add: unat_of_nat)

lemma geom_sectors: "geom sb k s \<Longrightarrow> unat (blocksectors sb s) = k"
  by (simp add: geom_def blocksectors_def ATA_SECTOR_SIZE_def unat_div)

lemma geom_cong:
  assumes "\<And>x. in_range (sb_at sb Block_logsz) 4 x \<Longrightarrow> kmem_mem s' x = kmem_mem s x"
  shows "blocksize sb s' = blocksize sb s" "blocksectors sb s' = blocksectors sb s" "geom sb k s' = geom sb k s"
proof -
  have "get32 (sb_at sb Block_logsz) s' = get32 (sb_at sb Block_logsz) s"
    unfolding get32_def using assms by (rule load32_cong)
  then show "blocksize sb s' = blocksize sb s" "blocksectors sb s' = blocksectors sb s" "geom sb k s' = geom sb k s"
    by (simp_all add: blocksize_def blocksectors_def geom_def)
qed

lemma unat_u32_mult: "unat (a :: u32) * unat b < 2 ^ 32 \<Longrightarrow> unat (a * b) = unat a * unat b"
  by (simp add: unat_word_ariths)

lemma block_lba:
  assumes "geom sb k s" "unat blk * k < 2 ^ 32"
  shows "unat (ucast (blk * blocksectors sb s) :: u64) = unat blk * k" "unat (ucast (blocksectors sb s) :: u64) = k"
  using assms geom_sectors [OF assms(1)] by (simp_all add: unat_ucast_up unat_u32_mult)

section \<open>The block of a file\<close>

text \<open>
  The reference: number \<open>i\<close> of the block of pointers \<open>blk\<close>, 0 for the block 0 that stands for a hole, and the
  block that holds position \<open>j\<close> of a file with direct pointers \<open>dbp\<close>, single and double indirect blocks.
\<close>

definition ptr_in :: "(nat \<Rightarrow> u8) \<Rightarrow> nat \<Rightarrow> u32 \<Rightarrow> nat \<Rightarrow> u32" where
  "ptr_in D k blk i = (if blk = 0 then 0 else disk32 D (512 * k * unat blk + 4 * i))"

definition block_ref :: "(nat \<Rightarrow> u8) \<Rightarrow> nat \<Rightarrow> (nat \<Rightarrow> u32) \<Rightarrow> u32 \<Rightarrow> u32 \<Rightarrow> nat \<Rightarrow> u32" where
  "block_ref D k dbp sib dib j =
     (let n = 128 * k in
      if j < 12 then dbp j
      else if j < 12 + n then ptr_in D k sib (j - 12)
      else ptr_in D k (ptr_in D k dib ((j - 12 - n) div n)) ((j - 12 - n) mod n))"

definition file_block :: "(nat \<Rightarrow> u8) \<Rightarrow> nat \<Rightarrow> addr \<Rightarrow> u32 \<Rightarrow> 'x kmem_scheme \<Rightarrow> u32" where
  "file_block D k ino bnd s =
     block_ref D k (\<lambda>j. get32 (dbp_at ino (of_nat j)) s) (get32 (inode_at ino Sibp) s) (get32 (inode_at ino Dibp) s) (unat bnd)"

text \<open>The blocks of pointers of an inode lie within the 32-bit range of sector numbers.\<close>

definition ptrs_ok :: "(nat \<Rightarrow> u8) \<Rightarrow> nat \<Rightarrow> addr \<Rightarrow> 'x kmem_scheme \<Rightarrow> bool" where
  "ptrs_ok D k ino s \<longleftrightarrow>
     unat (get32 (inode_at ino Sibp) s) * k < 2 ^ 32 \<and> unat (get32 (inode_at ino Dibp) s) * k < 2 ^ 32 \<and>
     (\<forall>i < 128 * k. unat (ptr_in D k (get32 (inode_at ino Dibp) s) i) * k < 2 ^ 32)"

lemma dbp_per_block_geom: "geom sb k s \<Longrightarrow> unat (dbp_per_block sb s) = 128 * k"
  by (simp add: geom_def dbp_per_block_def unat_div unat_ucast_up)

lemma unat_ucast_down: "unat (x :: u64) < 2 ^ 32 \<Longrightarrow> unat (ucast x :: u32) = unat x"
  by (simp add: unsigned_ucast_eq take_bit_eq_mod)

lemma dibp_index_geom:
  assumes "unat d = 128 * k" "0 < k" "12 + 128 * k \<le> unat bnd"
  shows "unat (fst (dibp_index d bnd)) = (unat bnd - 12 - 128 * k) div (128 * k)"
    "unat (snd (dibp_index d bnd)) = (unat bnd - 12 - 128 * k) mod (128 * k)"
proof -
  have b: "unat bnd < 2 ^ 32" using unsigned_less [of bnd, where ?'a = nat] by simp
  have "unat (ucast bnd - 12 :: u64) = unat bnd - 12" using assms(3) by (subst unat_diff_le) (simp_all add: unat_ucast_up)
  then have r: "unat (ucast bnd - 12 - d :: u64) = unat bnd - 12 - 128 * k"
    using assms(1,3) by (subst unat_diff_le) simp_all
  then show "unat (fst (dibp_index d bnd)) = (unat bnd - 12 - 128 * k) div (128 * k)"
    using b assms(1) le_less_trans [OF div_le_dividend [of "unat bnd - 12 - 128 * k" "128 * k"]]
    by (simp add: dibp_index_def unat_ucast_down unat_div)
  show "unat (snd (dibp_index d bnd)) = (unat bnd - 12 - 128 * k) mod (128 * k)"
    using b assms(1) r le_less_trans [OF mod_less_eq_dividend [of "unat bnd - 12 - 128 * k" "128 * k"]]
    by (simp add: dibp_index_def unat_ucast_down unat_mod)
qed

lemma u32_at_filled:
  assumes "kmem_mem s = filled m buf (512 * k) f" "unat i < 128 * k" "k < 65536"
  shows "get32 (u32_at buf i) s = disk32 f (4 * unat i)"
proof -
  have u: "unat (4 * ucast i :: u64) = 4 * unat i"
    using assms(2,3) unat_ucast_up [of i] by (simp add: unat_word_ariths)
  have "load32 (filled m buf (512 * k) f) (buf + 4 * ucast i) = disk32 f (unat (4 * ucast i :: u64))"
    using assms(2,3) by (intro load32_filled) (simp_all add: u)
  then show ?thesis by (simp add: get32_def u32_at_def assms(1) u)
qed

lemma disk32_shift: "disk32 (\<lambda>i. D (p + i)) q = disk32 D (p + q)"
  by (simp add: disk32_def add.assoc)

lemma put_bytes_cong: "(\<And>i. i < n \<Longrightarrow> f i = g i) \<Longrightarrow> put_bytes d p n f = put_bytes d p n g"
  by (rule ext) (auto simp: put_bytes_def)

context mem_drive
begin

lemma read_block_law:
  assumes "ok s" "geom sb k s" "unat blk * k < 2 ^ 32"
  obtains s' where "read_block drv sb blk buf s = Some s'" "ok s'" "dsk s' = dsk s"
    "kmem_mem s' = filled (kmem_mem s) buf (512 * k) (\<lambda>i. dsk s (512 * k * unat blk + i))"
    "occupied_to s' = occupied_to s" "kmem_spinlock s' = kmem_spinlock s"
proof -
  have k: "0 < k" "k < 65536" using assms(2) by (simp_all add: geom_def)
  have "unat blk * k < 2 ^ 48" using assms(3) by simp
  with read_law [OF assms(1), of "ucast (blk * blocksectors sb s)" "ucast (blocksectors sb s)" buf] k
    block_lba [OF assms(2,3)] show thesis
    by (auto simp: read_block_def mult_ac intro!: that)
qed

lemma write_block_law:
  assumes "ok s" "geom sb k s" "unat blk * k < 2 ^ 32"
  obtains s' where "write_block drv sb blk buf s = Some s'" "ok s'"
    "dsk s' = put_bytes (dsk s) (512 * k * unat blk) (512 * k) (\<lambda>i. kmem_mem s (buf + of_nat i))"
    "kmem_mem s' = kmem_mem s" "occupied_to s' = occupied_to s" "kmem_spinlock s' = kmem_spinlock s"
proof -
  have k: "0 < k" "k < 65536" using assms(2) by (simp_all add: geom_def)
  have "unat blk * k < 2 ^ 48" using assms(3) by simp
  with write_law [OF assms(1), of "ucast (blk * blocksectors sb s)" "ucast (blocksectors sb s)" buf] k
    block_lba [OF assms(2,3)] show thesis
    by (auto simp: write_block_def mult_ac intro!: that)
qed

lemma pointer_step:
  assumes "ok s" "geom sb k s" "unat blk * k < 2 ^ 32" "unat i < 128 * k" "blk \<noteq> 0"
    and "ranges_disjoint buf (512 * k) (sb_at sb Block_logsz) 4"
  obtains s' where "read_block drv sb blk buf s = Some s'" "ok s'" "dsk s' = dsk s" "geom sb k s'"
    "get32 (u32_at buf i) s' = ptr_in (dsk s) k blk (unat i)"
    "\<And>x. \<not> in_range buf (512 * k) x \<Longrightarrow> kmem_mem s' x = kmem_mem s x"
    "kmem_mem s' = filled (kmem_mem s) buf (512 * k) (\<lambda>i. dsk s (512 * k * unat blk + i))"
proof -
  obtain s' where s': "read_block drv sb blk buf s = Some s'" "ok s'" "dsk s' = dsk s"
    and m: "kmem_mem s' = filled (kmem_mem s) buf (512 * k) (\<lambda>i. dsk s (512 * k * unat blk + i))"
    using read_block_law [OF assms(1-3)] by metis
  have other: "kmem_mem s' x = kmem_mem s x" if "\<not> in_range buf (512 * k) x" for x
    using that by (simp add: m filled_def)
  have "geom sb k s'"
    using assms(2) geom_cong(3) [of sb s' s k] other ranges_disjoint_not_both [OF assms(6)] by blast
  moreover have "get32 (u32_at buf i) s' = ptr_in (dsk s) k blk (unat i)"
    using u32_at_filled [OF m assms(4)] assms(2,5) by (simp add: disk32_shift ptr_in_def geom_def)
  ultimately show thesis using that s' other m by blast
qed

lemma pointer_bounds:
  assumes "geom sb k s"
  shows "(ucast bnd < 12 + dbp_per_block sb s) = (unat (bnd :: u32) < 12 + 128 * k)"
    "(ucast bnd < 12 + dbp_per_block sb s + dbp_per_block sb s * dbp_per_block sb s) =
       (unat bnd < 12 + 128 * k + 128 * k * (128 * k))"
proof -
  let ?d = "dbp_per_block sb s" and ?n = "128 * k"
  have k: "?n < 2 ^ 23" using assms by (simp add: geom_def)
  have d: "unat ?d = ?n" by (rule dbp_per_block_geom [OF assms])
  have d12: "unat (12 + ?d) = 12 + ?n" using k d by (subst unat_plus_nowrap) simp_all
  have sq: "?n * ?n \<le> 2 ^ 23 * 2 ^ 23" using k by (intro mult_mono) simp_all
  then have dd: "unat (?d * ?d) = ?n * ?n" using d by (simp add: unat_word_ariths)
  have "unat (12 + ?d + ?d * ?d) = 12 + ?n + ?n * ?n" using sq k by (subst unat_plus_nowrap) (simp_all add: d12 dd)
  then show "(ucast bnd < 12 + ?d) = (unat bnd < 12 + ?n)" "(ucast bnd < 12 + ?d + ?d * ?d) = (unat bnd < 12 + ?n + ?n * ?n)"
    by (simp_all add: word_less_nat_alt unat_ucast_up d12)
qed

lemmas pointer_simps = fs_ext2_get_inode_pointer_def Let_def word_less_nat_alt [of "bnd :: u32" 12 for bnd] file_block_def block_ref_def

lemma get_pointer_single:
  assumes "ok s" "geom sb k s" "ptrs_ok (dsk s) k ino s" "12 \<le> unat bnd" "unat bnd < 12 + 128 * k"
    and dj: "ranges_disjoint buf (512 * k) (sb_at sb Block_logsz) 4"
  obtains s' where "fs_ext2_get_inode_pointer drv sb ino bnd buf s = Some (s', file_block (dsk s) k ino bnd s)"
    "ok s'" "dsk s' = dsk s" "geom sb k s'" "\<And>x. \<not> in_range buf (512 * k) x \<Longrightarrow> kmem_mem s' x = kmem_mem s x"
    "get32 (inode_at ino Sibp) s \<noteq> 0 \<longrightarrow> kmem_mem s' =
       filled (kmem_mem s) buf (512 * k) (\<lambda>i. dsk s (512 * k * unat (get32 (inode_at ino Sibp) s) + i))"
proof (cases "get32 (inode_at ino Sibp) s = 0")
  case True
  with assms show thesis by (intro that [of s]) (simp_all add: pointer_simps pointer_bounds ptr_in_def)
next
  case False
  let ?b = "get32 (inode_at ino Sibp) s"
  have i: "unat (bnd - 12) = unat bnd - 12" using assms(4) by (simp add: unat_sub word_le_nat_alt)
  have "unat ?b * k < 2 ^ 32" "unat (bnd - 12) < 128 * k" using assms(3,4,5) i by (simp_all add: ptrs_ok_def)
  from pointer_step [OF assms(1,2) this False dj] obtain s' where s': "read_block drv sb ?b buf s = Some s'" "ok s'"
    "dsk s' = dsk s" "geom sb k s'" "get32 (u32_at buf (bnd - 12)) s' = ptr_in (dsk s) k ?b (unat bnd - 12)"
    "\<And>x. \<not> in_range buf (512 * k) x \<Longrightarrow> kmem_mem s' x = kmem_mem s x"
    "kmem_mem s' = filled (kmem_mem s) buf (512 * k) (\<lambda>i. dsk s (512 * k * unat ?b + i))"
    using i by metis
  with assms(2,4,5) False show thesis by (intro that [of s']) (simp_all add: pointer_simps pointer_bounds)
qed

lemma get_pointer_double:
  assumes "ok s" "geom sb k s" "ptrs_ok (dsk s) k ino s" "12 + 128 * k \<le> unat bnd" "unat bnd < 12 + 128 * k + 128 * k * (128 * k)"
    and dj: "ranges_disjoint buf (512 * k) (sb_at sb Block_logsz) 4"
  obtains s' where "fs_ext2_get_inode_pointer drv sb ino bnd buf s = Some (s', file_block (dsk s) k ino bnd s)"
    "ok s'" "dsk s' = dsk s" "geom sb k s'" "\<And>x. \<not> in_range buf (512 * k) x \<Longrightarrow> kmem_mem s' x = kmem_mem s x"
proof (cases "get32 (inode_at ino Dibp) s = 0")
  case True
  with assms show thesis by (intro that [of s]) (simp_all add: pointer_simps pointer_bounds ptr_in_def)
next
  case False
  let ?b = "get32 (inode_at ino Dibp) s" and ?n = "128 * k" and ?r = "unat bnd - 12 - 128 * k"
  have k: "0 < k" using assms(2) by (simp add: geom_def)
  obtain i1 i2 where ii: "dibp_index (dbp_per_block sb s) bnd = (i1, i2)" by fastforce
  have ie: "unat i1 = ?r div ?n" "unat i2 = ?r mod ?n"
    using dibp_index_geom [OF dbp_per_block_geom [OF assms(2)] k assms(4)] ii by simp_all
  have "?r < ?n * ?n" using assms(4,5) by simp
  then have i: "unat i1 < ?n" "unat i2 < ?n" using k ie by (simp_all add: less_mult_imp_div_less)
  let ?c = "ptr_in (dsk s) k ?b (unat i1)"
  have sm: "unat ?b * k < 2 ^ 32" "unat ?c * k < 2 ^ 32" using assms(3) i by (simp_all add: ptrs_ok_def)
  from pointer_step [OF assms(1,2) sm(1) i(1) False dj] obtain s1 where s1: "read_block drv sb ?b buf s = Some s1" "ok s1"
    "dsk s1 = dsk s" "geom sb k s1" "get32 (u32_at buf i1) s1 = ?c"
    "\<And>x. \<not> in_range buf (512 * k) x \<Longrightarrow> kmem_mem s1 x = kmem_mem s x"
    by metis
  have fb: "file_block (dsk s) k ino bnd s = ptr_in (dsk s) k ?c (unat i2)"
    using assms(4) ie by (simp add: file_block_def block_ref_def Let_def)
  note run = fs_ext2_get_inode_pointer_def Let_def word_less_nat_alt [of bnd 12] pointer_bounds [OF assms(2)] ptr_in_def
  show thesis
  proof (cases "?c = 0")
    case True
    with assms(4,5) False s1 ii fb show thesis by (intro that [of s1]) (simp_all add: run)
  next
    case nz: False
    from pointer_step [OF s1(2,4) sm(2) i(2) nz dj] obtain s2 where "read_block drv sb ?c buf s1 = Some s2" "ok s2"
      "dsk s2 = dsk s1" "geom sb k s2" "get32 (u32_at buf i2) s2 = ptr_in (dsk s1) k ?c (unat i2)"
      "\<And>x. \<not> in_range buf (512 * k) x \<Longrightarrow> kmem_mem s2 x = kmem_mem s1 x"
      by metis
    with assms(4,5) False nz s1 ii fb show thesis by (intro that [of s2]) (simp_all add: run)
  qed
qed

lemma get_inode_pointer_ref:
  assumes "ok s" "geom sb k s" "ptrs_ok (dsk s) k ino s" "unat bnd < 12 + 128 * k + 128 * k * (128 * k)"
    and "ranges_disjoint buf (512 * k) (sb_at sb Block_logsz) 4"
  obtains s' where "fs_ext2_get_inode_pointer drv sb ino bnd buf s = Some (s', file_block (dsk s) k ino bnd s)"
    "ok s'" "dsk s' = dsk s" "geom sb k s'" "\<And>x. \<not> in_range buf (512 * k) x \<Longrightarrow> kmem_mem s' x = kmem_mem s x"
proof -
  consider "unat bnd < 12" | "12 \<le> unat bnd" "unat bnd < 12 + 128 * k" | "12 + 128 * k \<le> unat bnd" by linarith
  then show thesis
  proof cases
    case 1
    have "of_nat (unat bnd) = bnd" by simp
    with 1 assms(1,2) show thesis by (intro that [of s]) (simp_all add: pointer_simps)
  next
    case 2
    with get_pointer_single [OF assms(1-3) _ _ assms(5)] that show thesis by metis
  next
    case 3
    with get_pointer_double [OF assms(1-3) _ assms(4,5)] that show thesis by metis
  qed
qed

lemma read_inode_data_ref:
  assumes "ok s" "geom sb k s" "ptrs_ok (dsk s) k ino s" "unat bnd < 12 + 128 * k + 128 * k * (128 * k)"
    and "ranges_disjoint buf (512 * k) (sb_at sb Block_logsz) 4" "unat (file_block (dsk s) k ino bnd s) * k < 2 ^ 32"
  shows "\<exists>s'. fs_ext2_read_inode_data drv sb ino bnd buf s = Some (s', if file_block (dsk s) k ino bnd s = 0 then 0 else 1) \<and>
    ok s' \<and> dsk s' = dsk s \<and> (\<forall>x. \<not> in_range buf (512 * k) x \<longrightarrow> kmem_mem s' x = kmem_mem s x) \<and>
    (file_block (dsk s) k ino bnd s \<noteq> 0 \<longrightarrow>
       (\<forall>i < 512 * k. kmem_mem s' (buf + of_nat i) = dsk s (512 * k * unat (file_block (dsk s) k ino bnd s) + i)))"
proof -
  let ?p = "file_block (dsk s) k ino bnd s"
  obtain s1 where s1: "fs_ext2_get_inode_pointer drv sb ino bnd buf s = Some (s1, ?p)" "ok s1" "dsk s1 = dsk s" "geom sb k s1"
    "\<And>x. \<not> in_range buf (512 * k) x \<Longrightarrow> kmem_mem s1 x = kmem_mem s x"
    using get_inode_pointer_ref [OF assms(1-5)] by metis
  show ?thesis
  proof (cases "?p = 0")
    case True
    with s1 show ?thesis by (auto simp: fs_ext2_read_inode_data_def)
  next
    case False
    obtain s2 where s2: "read_block drv sb ?p buf s1 = Some s2" "ok s2" "dsk s2 = dsk s1"
      "kmem_mem s2 = filled (kmem_mem s1) buf (512 * k) (\<lambda>i. dsk s1 (512 * k * unat ?p + i))"
      using read_block_law [OF s1(2,4) assms(6)] by metis
    have "in_range buf (512 * k) (buf + of_nat i) \<and> unat (of_nat i :: u64) = i" if "i < 512 * k" for i
      using that assms(2) unat_of_nat_64 [of i] by (simp add: in_range_def geom_def)
    with False s1 s2 show ?thesis by (simp add: fs_ext2_read_inode_data_def filled_def)
  qed
qed

lemma write_inode_data_disk:
  assumes "ok s" "geom sb k s" "ptrs_ok (dsk s) k ino s" "unat bnd < 12 + 128 * k"
    and dj: "ranges_disjoint buf (512 * k) (sb_at sb Block_logsz) 4"
    and p: "file_block (dsk s) k ino bnd s = p" "p \<noteq> 0" "unat p * k < 2 ^ 32"
  shows "\<exists>s'. fs_ext2_write_inode_data drv sb ino bnd buf s = Some (s', 1) \<and> ok s' \<and>
    dsk s' = put_bytes (dsk s) (512 * k * unat p) (512 * k)
      (if unat bnd < 12 then (\<lambda>i. kmem_mem s (buf + of_nat i))
       else (\<lambda>i. dsk s (512 * k * unat (get32 (inode_at ino Sibp) s) + i)))"
proof (cases "unat bnd < 12")
  case True
  have "of_nat (unat bnd) = bnd" by simp
  with True p(1) have g: "fs_ext2_get_inode_pointer drv sb ino bnd buf s = Some (s, p)" by (simp add: pointer_simps)
  obtain s' where "write_block drv sb p buf s = Some s'" "ok s'"
    "dsk s' = put_bytes (dsk s) (512 * k * unat p) (512 * k) (\<lambda>i. kmem_mem s (buf + of_nat i))"
    using write_block_law [OF assms(1,2) p(3)] by metis
  with True p(2) g show ?thesis by (simp add: fs_ext2_write_inode_data_def)
next
  case False
  let ?b = "get32 (inode_at ino Sibp) s"
  have b: "?b \<noteq> 0" using False assms(4) p(1,2) by (auto simp: file_block_def block_ref_def ptr_in_def)
  obtain s1 where s1: "fs_ext2_get_inode_pointer drv sb ino bnd buf s = Some (s1, p)" "ok s1" "dsk s1 = dsk s" "geom sb k s1"
    "kmem_mem s1 = filled (kmem_mem s) buf (512 * k) (\<lambda>i. dsk s (512 * k * unat ?b + i))"
    using get_pointer_single [OF assms(1-3) _ assms(4) dj] False b p(1) by (metis not_less)
  obtain s2 where s2: "write_block drv sb p buf s1 = Some s2" "ok s2"
    "dsk s2 = put_bytes (dsk s1) (512 * k * unat p) (512 * k) (\<lambda>i. kmem_mem s1 (buf + of_nat i))"
    using write_block_law [OF s1(2,4) p(3)] by metis
  have "kmem_mem s1 (buf + of_nat i) = dsk s (512 * k * unat ?b + i)" if "i < 512 * k" for i
    using that assms(2) unat_of_nat_64 [of i] by (simp add: s1(5) filled_def in_range_def geom_def)
  then have "dsk s2 = put_bytes (dsk s) (512 * k * unat p) (512 * k) (\<lambda>i. dsk s (512 * k * unat ?b + i))"
    unfolding s2(3) s1(3) by (rule put_bytes_cong)
  with s1 s2 p(2) False show ?thesis by (simp add: fs_ext2_write_inode_data_def)
qed

end

section \<open>Buffers from the heap\<close>

lemma kmem_more_eq:
  "kmem.more s' = kmem.more s \<Longrightarrow> s' = s\<lparr>kmem_mem := kmem_mem s', occupied_to := occupied_to s', kmem_spinlock := kmem_spinlock s'\<rparr>"
  by (cases s; cases s') simp

lemma kmalloc_more: "kmalloc_align None z al s = Some (s', p) \<Longrightarrow> kmem.more s' = kmem.more s"
  by (auto simp: kmalloc_align_def grow_heap_def Let_def bind_eq_Some_conv split: option.splits if_splits)

lemma kfree_more: "kfree p s = Some s' \<Longrightarrow> kmem.more s' = kmem.more s"
  by (auto simp: kfree_def Let_def bind_eq_Some_conv)

lemma hdr_payload_apart:
  assumes "blks_ordered bs" "b \<in> set bs" "c \<in> set bs" "in_range (fst b + 24) (unat (snd b)) x"
  shows "\<not> in_range (fst c) 24 x"
proof -
  have ends: "blk_end b < 2 ^ 64" "blk_end c < 2 ^ 64" using assms(1-3) by (auto simp: blks_ordered_def)
  then have "unat (fst b + 24) = unat (fst b) + 24" by (simp add: unat_plus_nowrap blk_end_def)
  with assms(4) ends(1) have x: "unat (fst b) + 24 \<le> unat x" "unat x < blk_end b"
    by (simp_all add: in_range_unat blk_end_def)
  obtain us vs where "bs = us @ b # vs" using assms(2) by (meson split_list)
  with assms(1,3) have "c = b \<or> blk_end c \<le> unat (fst b) \<or> blk_end b \<le> unat (fst c)"
    by (auto simp: blks_ordered_append blks_ordered_Cons)
  with x ends(2) show ?thesis by (auto simp: in_range_unat blk_end_def)
qed

text \<open>A byte of a live payload is not in a header and not in a newly placed payload.\<close>

lemma payload_apart:
  assumes "heap_ok bs" "room z al bs" "place z al bs = (bs', g, gap)" "b \<in> set bs" "in_range (fst b + 24) (unat (snd b)) x"
  shows "c \<in> set bs' \<Longrightarrow> \<not> in_range (fst c) 24 x" "\<not> in_range (g + 24) (unat z) x"
proof -
  have ok': "heap_ok bs'" using place_heap_ok [OF assms(1-3)] by metis
  have set': "set bs' = insert (g, z) (set bs)" "(g, z) \<notin> set bs" using place_release(3,4) [OF assms(1-3)] by simp_all
  have ord: "blks_ordered bs'" using ok' by (simp add: heap_ok_def)
  have b': "b \<in> set bs'" "(g, z) \<in> set bs'" "b \<noteq> (g, z)" using assms(4) set' by auto
  show "\<not> in_range (g + 24) (unat z) x"
    using payload_disjoint [OF ord b'] assms(5) by (auto dest: ranges_disjoint_not_both)
  show "\<not> in_range (fst c) 24 x" if "c \<in> set bs'" using hdr_payload_apart [OF ord b'(1) that assms(5)] .
qed

text \<open>The bytes of the live payloads.\<close>

definition payload :: "blk list \<Rightarrow> addr set" where
  "payload bs = {x. \<exists>b \<in> set bs. in_range (fst b + 24) (unat (snd b)) x}"

lemma payload_apart_set:
  assumes "heap_ok bs" "room z al bs" "place z al bs = (bs', g, gap)" "x \<in> payload bs"
  shows "\<forall>c \<in> set bs'. \<not> in_range (fst c) 24 x" "\<not> in_range (g + 24) (unat z) x"
  using assms(4) payload_apart [OF assms(1-3)] unfolding payload_def by blast+

definition agree_on :: "addr set \<Rightarrow> mem \<Rightarrow> mem \<Rightarrow> bool" where
  "agree_on X m m' \<longleftrightarrow> (\<forall>x \<in> X. m' x = m x)"

lemma heap_at_frame:
  assumes "heap_at m bs" "\<And>b x. b \<in> set bs \<Longrightarrow> in_range (fst b) 24 x \<Longrightarrow> m' x = m x"
  shows "heap_at m' bs"
  using assms unfolding heap_at_def by (blast intro: dll_frame)

lemma sector_buffer:
  assumes inv: "kmem_inv bs s" "kmem_spinlock s = 0" "room 512 1 bs" "place 512 1 bs = (bs', g, False)"
  obtains s1 where "kmalloc None 512 s = Some (s1, g + 24)" "kmem.more s1 = kmem.more s" "kmem_spinlock s1 = 0"
    "agree_on (payload bs) (kmem_mem s) (kmem_mem s1)" "kmem_inv bs' s1"
proof -
  have ok: "heap_ok bs" using inv(1) by (simp add: kmem_inv_def)
  obtain s1 where s1: "kmalloc_align None 512 1 s = Some (s1, g + 24)" "kmem_inv bs' s1" "kmem_spinlock s1 = 0"
    "keeps_payload bs' (kmem_mem s) (kmem_mem s1)"
    using kmalloc_align_place [OF inv(2,1,3) _ inv(4), of None] by (auto simp: hooks_ok_def)
  have "kmem_mem s1 x = kmem_mem s x" if "x \<in> payload bs" for x
    using payload_apart_set [OF ok inv(3,4) that] s1(4) by (simp add: keeps_payload_def)
  with s1 that kmalloc_more [OF s1(1)] show thesis by (auto simp: kmalloc_def agree_on_def)
qed

lemma sector_buffer_free:
  assumes inv: "kmem_inv bs s" "room 512 1 bs" "place 512 1 bs = (bs', g, False)"
    and s1: "kmem_inv bs' s1" "agree_on (payload bs) (kmem_mem s) (kmem_mem s1)"
    and s2: "kmem_spinlock s2 = 0" "\<And>x. \<not> in_range (g + 24) 512 x \<Longrightarrow> kmem_mem s2 x = kmem_mem s1 x"
  obtains s3 where "kfree (g + 24) s2 = Some s3" "kmem.more s3 = kmem.more s2" "kmem_inv bs s3" "kmem_spinlock s3 = 0"
    "agree_on (payload bs) (kmem_mem s) (kmem_mem s3)"
proof -
  have ok: "heap_ok bs" using inv(1) by (simp add: kmem_inv_def)
  have ok': "heap_ok bs'" and at1: "heap_at (kmem_mem s1) bs'" using s1(1) by (simp_all add: kmem_inv_def)
  note rel = place_release [OF ok inv(2,3)]
  have gz: "(g, 512) \<in> set bs'" using rel(3) by simp
  have "\<not> in_range (g + 24) 512 x" if "b \<in> set bs'" "in_range (fst b) 24 x" for b x
  proof -
    have "unat (512 :: u64) = 512" by simp
    then show ?thesis using hdr_payload_apart [OF _ gz that(1), of x] that(2) ok' by (auto simp: heap_ok_def)
  qed
  then have at2: "kmem_inv bs' s2" using heap_at_frame [OF at1, of "kmem_mem s2"] s2(2) ok' by (auto simp: kmem_inv_def)
  obtain s3 where s3: "kfree (g + 24) s2 = Some s3" "kmem_inv bs s3" "kmem_spinlock s3 = 0"
    "keeps_payload bs' (kmem_mem s2) (kmem_mem s3)"
    using kfree_release [OF s2(1) at2 rel(2)] rel(1) by auto
  have "kmem_mem s3 x = kmem_mem s x" if "x \<in> payload bs" for x
    using that payload_apart_set [OF ok inv(2,3) that] s1(2) s2(2) s3(4) by (simp add: keeps_payload_def agree_on_def)
  with s3 that kfree_more [OF s3(1)] show thesis by (auto simp: agree_on_def)
qed

section \<open>Bitmaps\<close>

text \<open>
  \<open>fs_ready bs sb bt i k s\<close>: the heap is consistent and unlocked, with room for a sector buffer behind its
  last block and in no gap, and superblock, group table and the descriptor of group \<open>i\<close> lie in payloads.
\<close>

definition fs_ready :: "blk list \<Rightarrow> addr \<Rightarrow> addr \<Rightarrow> u32 \<Rightarrow> nat \<Rightarrow> 'x kmem_scheme \<Rightarrow> bool" where
  "fs_ready bs sb bt i k s \<longleftrightarrow>
     kmem_inv bs s \<and> kmem_spinlock s = 0 \<and> room 512 1 bs \<and> \<not> snd (snd (place 512 1 bs)) \<and> geom sb k s \<and>
     {x. in_range sb 236 x} \<subseteq> payload bs \<and> {x. in_range bt 16 x} \<subseteq> payload bs \<and>
     {x. in_range (get64 (bt_at bt Bt_groups) s + 32 * ucast i) 32 x} \<subseteq> payload bs"

definition bitmap_byte :: "addr \<Rightarrow> u32 \<Rightarrow> blkgrp_field \<Rightarrow> nat \<Rightarrow> u32 \<Rightarrow> 'x kmem_scheme \<Rightarrow> nat" where
  "bitmap_byte bt i f k t s = 512 * k * unat (get32 (group_at bt i f s) s) + unat t div 8"

definition bitmap_mask :: "u32 \<Rightarrow> u8" where
  "bitmap_mask t = push_bit (7 - unat t mod 8) 1"

lemma in_range_inner:
  assumes "in_range (a + of_nat j) n x" "j + n \<le> k" "k \<le> 2 ^ 64"
  shows "in_range a k x"
proof -
  have "in_range a (j + n) x" using in_range_add [of j n a x] assms by auto
  then show ?thesis using assms(2) by (rule in_range_mono)
qed

lemma bt_groups_at: "bt_at bt Bt_groups = bt"
  by (simp add: bt_at_def bt_layout_def pad_def)

lemma sb_field_in: "f \<in> {Block_logsz, Blocks_per_group, Inodes_per_group} \<Longrightarrow> in_range (sb_at sb f) 4 x \<Longrightarrow> in_range sb 236 x"
  unfolding sb_at_def by (erule in_range_inner) (auto simp: sb_offsets)

text \<open>Superblock and descriptors are read alike from memories that agree on the payloads.\<close>

lemma fs_fields_agree:
  assumes "fs_ready bs sb bt i k s" "agree_on (payload bs) (kmem_mem s) (kmem_mem s')"
  shows "geom sb k s'" "blocksectors sb s' = blocksectors sb s" "get64 (bt_at bt Bt_groups) s' = get64 (bt_at bt Bt_groups) s"
    "get32 (sb_at sb Blocks_per_group) s' = get32 (sb_at sb Blocks_per_group) s"
    "get32 (sb_at sb Inodes_per_group) s' = get32 (sb_at sb Inodes_per_group) s"
    "f \<in> {Block_bitmap_addr, Inode_bitmap_addr} \<Longrightarrow> get32 (group_at bt i f s') s' = get32 (group_at bt i f s) s"
proof -
  have eq: "kmem_mem s' x = kmem_mem s x"
    if "in_range sb 236 x \<or> in_range bt 16 x \<or> in_range (get64 (bt_at bt Bt_groups) s + 32 * ucast i) 32 x" for x
    using that assms unfolding fs_ready_def agree_on_def by blast
  have sb: "kmem_mem s' x = kmem_mem s x"
    if "in_range (sb_at sb fl) 4 x" "fl \<in> {Block_logsz, Blocks_per_group, Inodes_per_group}" for x fl
    using that eq sb_field_in by blast
  show "geom sb k s'" "blocksectors sb s' = blocksectors sb s"
    using geom_cong(2,3) [of sb s' s] sb assms(1) by (simp_all add: fs_ready_def)
  show "get32 (sb_at sb Blocks_per_group) s' = get32 (sb_at sb Blocks_per_group) s"
    unfolding get32_def by (rule load32_cong, erule sb) simp
  show "get32 (sb_at sb Inodes_per_group) s' = get32 (sb_at sb Inodes_per_group) s"
    unfolding get32_def by (rule load32_cong, erule sb) simp
  have "in_range bt 16 x" if "in_range bt 8 x" for x using that in_range_mono [of bt 8 x 16] by simp
  then show g: "get64 (bt_at bt Bt_groups) s' = get64 (bt_at bt Bt_groups) s"
    unfolding get64_def bt_groups_at by (intro load64_cong eq) blast
  assume f: "f \<in> {Block_bitmap_addr, Inode_bitmap_addr}"
  have "in_range (get64 (bt_at bt Bt_groups) s + 32 * ucast i) 32 x" if "in_range (group_at bt i f s) 4 x" for x
  proof -
    have "offset_from 0 blkgrp_layout f + 4 \<le> 32" using f by (auto simp: blkgrp_layout_def pad_def)
    moreover have "group_at bt i f s = get64 (bt_at bt Bt_groups) s + 32 * ucast i + of_nat (offset_from 0 blkgrp_layout f)"
      by (simp add: group_at_def sizeof_blkgrp_eq)
    ultimately show ?thesis using that in_range_inner [of _ "offset_from 0 blkgrp_layout f" 4 x 32] by simp
  qed
  moreover have "group_at bt i f s' = group_at bt i f s" by (simp add: group_at_def g)
  ultimately show "get32 (group_at bt i f s') s' = get32 (group_at bt i f s) s"
    unfolding get32_def by (simp only:) (intro load32_cong eq; blast)
qed

lemma put_bytes_single:
  assumes "\<And>i. i < n \<Longrightarrow> f i = (if i = j then v else d (p + i))" "j < n"
  shows "put_bytes d p n f = d(p + j := v)"
  using assms by (auto simp: put_bytes_def fun_eq_iff)

lemma fs_ready_agree:
  assumes "fs_ready bs sb bt i k s" "agree_on (payload bs) (kmem_mem s) (kmem_mem s')" "kmem_inv bs s'" "kmem_spinlock s' = 0"
  shows "fs_ready bs sb bt i k s'"
  using fs_fields_agree(1,3) [OF assms(1,2)] assms(1,3,4) by (simp add: fs_ready_def)

context block_drive
begin

lemma more_frame:
  assumes "kmem.more s' = kmem.more s"
  shows "ok s' = ok s" "dsk s' = dsk s"
proof -
  note e = kmem_more_eq [OF assms, symmetric]
  show "ok s' = ok s" "dsk s' = dsk s"
    using lock_frame [where s = "s\<lparr>kmem_mem := kmem_mem s'\<rparr>" and p = "occupied_to s'" and l = "kmem_spinlock s'"] mem_frame [where s = s]
    unfolding e by simp_all
qed

text \<open>Reading a sector into a buffer, changing one byte of it and writing it back changes one byte of the disk.\<close>

lemma change_byte:
  fixes f :: "u8 \<Rightarrow> u8"
  assumes "ok s" "unat lba < 2 ^ 48" "unat off < 512"
  defines "v \<equiv> f (dsk s (512 * unat lba + unat off))"
  obtains s2 s4 where "dr_read drv lba 1 buf s = Some (s2, 1)" "kmem_mem s2 (buf + off) = dsk s (512 * unat lba + unat off)"
    "\<exists>r. dr_write drv lba 1 buf (put8 (buf + off) v s2) = Some (s4, r)" "ok s4"
    "dsk s4 = (dsk s)(512 * unat lba + unat off := v)" "\<forall>x. \<not> in_range buf 512 x \<longrightarrow> kmem_mem s4 x = kmem_mem s x"
    "\<forall>x. \<not> in_range buf 512 x \<longrightarrow> kmem_mem s2 x = kmem_mem s x" "kmem_spinlock s4 = kmem_spinlock s"
proof -
  have one: "0 < unat (1 :: u64)" "unat (1 :: u64) < 65536" "512 * unat (1 :: u64) = 512" by simp_all
  obtain s2 where s2: "dr_read drv lba 1 buf s = Some (s2, 1)" "ok s2" "dsk s2 = dsk s" "kmem_spinlock s2 = kmem_spinlock s"
    "kmem_mem s2 = filled (kmem_mem s) buf 512 (\<lambda>i. dsk s (512 * unat lba + i))"
    using read_law [OF assms(1,2) one(1,2), of buf] unfolding one(3) by metis
  let ?s3 = "put8 (buf + off) v s2"
  have "kmem.more ?s3 = kmem.more s2" by (simp add: put8_def)
  note s3 = more_frame [OF this]
  obtain s4 r where s4: "dr_write drv lba 1 buf ?s3 = Some (s4, r)" "ok s4" "kmem_mem s4 = kmem_mem ?s3"
    "dsk s4 = put_bytes (dsk ?s3) (512 * unat lba) 512 (\<lambda>i. kmem_mem ?s3 (buf + of_nat i))" "kmem_spinlock s4 = kmem_spinlock ?s3"
    using write_law [of ?s3, OF _ assms(2) one(1,2), of buf] s2(2) s3(1) unfolding one(3) by metis
  have m: "kmem_mem ?s3 x = (if x = buf + off then v else if in_range buf 512 x then dsk s (512 * unat lba + unat (x - buf)) else kmem_mem s x)" for x
    by (simp add: put8_def s2(5) filled_def)
  have ir: "in_range buf 512 (buf + off)" using assms(3) by (simp add: in_range_def)
  have "kmem_mem ?s3 (buf + of_nat i) = (if i = unat off then v else dsk s (512 * unat lba + i))" if "i < 512" for i
  proof -
    have u: "unat (of_nat i :: u64) = i" using that by (simp add: unat_of_nat_64)
    then have "(buf + of_nat i = buf + off) = (i = unat off)" by auto
    with u that show ?thesis unfolding m by (simp add: in_range_def)
  qed
  then have "dsk s4 = (dsk s)(512 * unat lba + unat off := v)"
    unfolding s4(4) s3(2) s2(3) using assms(3) by (rule put_bytes_single)
  moreover have "kmem_mem s2 (buf + off) = dsk s (512 * unat lba + unat off)" using ir by (simp add: s2(5) filled_def)
  moreover have "\<forall>x. \<not> in_range buf 512 x \<longrightarrow> kmem_mem s4 x = kmem_mem s x" using ir by (auto simp: s4(3) m)
  moreover have "\<forall>x. \<not> in_range buf 512 x \<longrightarrow> kmem_mem s2 x = kmem_mem s x" by (simp add: s2(5) filled_def)
  moreover have "kmem_spinlock s4 = kmem_spinlock s" using s4(5) s2(4) by (simp add: put8_def)
  ultimately show thesis using that [OF s2(1)] s4(1,2) by blast
qed

lemma update_bitmap_disk:
  assumes "ok s" and rdy: "fs_ready bs sb bt i k s" and fl: "fl \<in> {Block_bitmap_addr, Inode_bitmap_addr}"
    and small: "unat (get32 (group_at bt i fl s) s) * k + unat t div 8 div 512 < 2 ^ 32"
  defines "p \<equiv> bitmap_byte bt i fl k t s"
  obtains s' where "update_bitmap None drv sb bt i fl t f s = Some s'" "ok s'" "fs_ready bs sb bt i k s'"
    "dsk s' = (dsk s)(p := f (dsk s p) (bitmap_mask t))" "agree_on (payload bs) (kmem_mem s) (kmem_mem s')"
proof -
  let ?B = "get32 (group_at bt i fl s) s"
  obtain bs' g where pl: "place 512 1 bs = (bs', g, False)" using rdy by (metis fs_ready_def prod.collapse)
  have hp: "kmem_inv bs s" "kmem_spinlock s = 0" "room 512 1 bs" and gm: "geom sb k s" using rdy by (simp_all add: fs_ready_def)
  obtain s1 where s1: "kmalloc None 512 s = Some (s1, g + 24)" "kmem.more s1 = kmem.more s" "kmem_spinlock s1 = 0"
    "agree_on (payload bs) (kmem_mem s) (kmem_mem s1)" "kmem_inv bs' s1"
    using sector_buffer [OF hp pl] by metis
  note fa = fs_fields_agree [OF rdy s1(4)]
  let ?lba = "ucast (?B * blocksectors sb s + t div 8 div 512) :: u64" and ?off = "ucast (t div 8 mod 512) :: u64"
  have lba: "unat ?lba = unat ?B * k + unat t div 8 div 512"
  proof -
    have "unat (?B * blocksectors sb s) = unat ?B * k"
      using small geom_sectors [OF gm] by (simp add: unat_u32_mult)
    then have "unat (?B * blocksectors sb s + t div 8 div 512) = unat ?B * k + unat t div 8 div 512"
      using small by (simp add: unat_word_ariths(1) unat_div)
    then show ?thesis by (simp add: unat_ucast_up)
  qed
  have off: "unat ?off = unat t div 8 mod 512" by (simp add: unat_ucast_up unat_div unat_mod)
  have pos: "512 * unat ?lba + unat ?off = p"
    unfolding lba off p_def bitmap_byte_def
    using mult_div_mod_eq [of 512 "unat t div 8"] by (simp only: add_mult_distrib2 add.assoc mult_ac)
  have ok1: "ok s1" "dsk s1 = dsk s" using more_frame [OF s1(2)] assms(1) by simp_all
  have "unat ?lba < 2 ^ 48" "unat ?off < 512" using small lba off by simp_all
  then obtain s2 s4 where c: "dr_read drv ?lba 1 (g + 24) s1 = Some (s2, 1)"
    "kmem_mem s2 (g + 24 + ?off) = dsk s1 (512 * unat ?lba + unat ?off)"
    "\<exists>r. dr_write drv ?lba 1 (g + 24) (put8 (g + 24 + ?off) (f (dsk s1 (512 * unat ?lba + unat ?off)) (bitmap_mask t)) s2) = Some (s4, r)"
    "ok s4" "dsk s4 = (dsk s1)(512 * unat ?lba + unat ?off := f (dsk s1 (512 * unat ?lba + unat ?off)) (bitmap_mask t))"
    "\<forall>x. \<not> in_range (g + 24) 512 x \<longrightarrow> kmem_mem s4 x = kmem_mem s1 x" "kmem_spinlock s4 = kmem_spinlock s1"
    by (rule change_byte [OF ok1(1), where f = "\<lambda>b. f b (bitmap_mask t)"])
  then obtain r where s2: "dr_read drv ?lba 1 (g + 24) s1 = Some (s2, 1)" "kmem_mem s2 (g + 24 + ?off) = dsk s p"
    and s4: "dr_write drv ?lba 1 (g + 24) (put8 (g + 24 + ?off) (f (dsk s p) (bitmap_mask t)) s2) = Some (s4, r)" "ok s4"
    "dsk s4 = (dsk s)(p := f (dsk s p) (bitmap_mask t))" "\<forall>x. \<not> in_range (g + 24) 512 x \<longrightarrow> kmem_mem s4 x = kmem_mem s1 x"
    "kmem_spinlock s4 = 0"
    unfolding ok1(2) pos s1(3) by blast
  obtain s' where s': "kfree (g + 24) s4 = Some s'" "kmem.more s' = kmem.more s4" "kmem_inv bs s'" "kmem_spinlock s' = 0"
    "agree_on (payload bs) (kmem_mem s) (kmem_mem s')"
    using sector_buffer_free [OF hp(1,3) pl s1(5,4) s4(5)] s4(4) by metis
  have mk: "push_bit (7 - unat (t mod 8)) 1 = bitmap_mask t" by (simp add: bitmap_mask_def unat_mod)
  have "update_bitmap None drv sb bt i fl t f s = Some s'"
    using s1(1) s2 s4(1) s'(1) fa(2) fa(6) [OF fl] unfolding update_bitmap_def ATA_SECTOR_SIZE_def Let_def mk by simp
  then show thesis
    using that more_frame [OF s'(2)] s4(2,3) s'(5) fs_ready_agree [OF rdy s'(5,3,4)] by simp
qed

end

lemma pred_div_mod:
  assumes "(n :: u32) mod b \<noteq> 0" "b \<noteq> 0"
  shows "(n - 1) div b = n div b" "(n - 1) mod b = n mod b - 1" "unat (n mod b - 1) = unat (n mod b) - 1"
proof -
  let ?n = "unat n" and ?b = "unat b"
  have r: "0 < ?n mod ?b" using assms(1) unat_eq_zero [of "n mod b"] unfolding unat_mod by simp
  then have "n \<noteq> 0" by auto
  then have n: "unat (n - 1) = ?n - 1" by (rule unat_minus_one)
  have q: "?n - 1 = ?b * (?n div ?b) + (?n mod ?b - 1)" using r mult_div_mod_eq [of ?b ?n] by linarith
  have "0 < ?b" using assms(2) unat_eq_zero [of b] by simp
  moreover from this have "?n mod ?b - 1 < ?b" by (rule less_imp_diff_less [OF mod_less_divisor])
  ultimately have "(?n - 1) div ?b = ?n div ?b" "(?n - 1) mod ?b = ?n mod ?b - 1" unfolding q by simp_all
  moreover show m: "unat (n mod b - 1) = unat (n mod b) - 1" using assms(1) by (rule unat_minus_one)
  ultimately have "unat ((n - 1) div b) = unat (n div b)" "unat ((n - 1) mod b) = unat (n mod b - 1)"
    by (simp_all add: n m unat_div unat_mod)
  then show "(n - 1) div b = n div b" "(n - 1) mod b = n mod b - 1" by (simp_all add: unsigned_word_eqI)
qed

lemma single_bits:
  fixes x :: u8
  assumes "a \<noteq> b"
  shows "((x OR push_bit a 1) AND NOT (push_bit b 1)) AND push_bit a 1 = push_bit a 1"
  by (rule bit_word_eqI) (use assms in \<open>auto simp: bit_and_iff bit_or_iff bit_not_iff bit_exp_iff\<close>)

lemma mask_neighbour:
  assumes "unat t \<noteq> 0" "unat u = unat t - 1" "unat t div 8 = unat u div 8"
  shows "((x OR bitmap_mask t) AND NOT (bitmap_mask u)) AND bitmap_mask t = bitmap_mask t"
proof -
  have "unat t \<noteq> unat u" using assms(1,2) by simp
  then have "unat t mod 8 \<noteq> unat u mod 8" using assms(3) by (metis div_mod_decomp)
  moreover have "unat t mod 8 < 8" "unat u mod 8 < 8" by simp_all
  ultimately have "7 - unat t mod 8 \<noteq> 7 - unat u mod 8" by linarith
  then show ?thesis unfolding bitmap_mask_def by (rule single_bits)
qed

section \<open>A small file system\<close>

text \<open>
  A heap with one block of 4096 bytes that holds a superblock (1 KB blocks, 16 inodes and blocks per group),
  a table with one group (bitmaps in blocks 3 and 4) and an inode with direct block 5 and single
  indirect block 6.
\<close>

definition demo_sb :: addr where "demo_sb = 0x200018"
definition demo_bt :: addr where "demo_bt = 0x200118"
definition demo_ino :: addr where "demo_ino = 0x200300"

definition demo_mem :: mem where
  "demo_mem = (\<lambda>_. 0)(0x200001 := 0x10, 0x200038 := 16, 0x200040 := 16, 0x200119 := 0x02, 0x20011A := 0x20,
     0x200200 := 3, 0x200204 := 4, 0x200328 := 5, 0x200358 := 6)"

definition demo_fs :: machine where
  "demo_fs = demo_machine\<lparr>kmem_mem := demo_mem\<rparr>"

lemma demo_fields:
  "get32 (sb_at demo_sb Block_logsz) demo_fs = 0" "get32 (sb_at demo_sb Blocks_per_group) demo_fs = 16"
  "get32 (sb_at demo_sb Inodes_per_group) demo_fs = 16" "get64 (bt_at demo_bt Bt_groups) demo_fs = 0x200200"
  "get32 (group_at demo_bt 0 Block_bitmap_addr demo_fs) demo_fs = 3"
  "get32 (group_at demo_bt 0 Inode_bitmap_addr demo_fs) demo_fs = 4"
  "get32 (dbp_at demo_ino 0) demo_fs = 5" "get32 (inode_at demo_ino Sibp) demo_fs = 6" "get32 (inode_at demo_ino Dibp) demo_fs = 0"
proof -
  show g: "get64 (bt_at demo_bt Bt_groups) demo_fs = 0x200200"
    by (simp add: bt_groups_at get64_def load64_def load_numeral demo_bt_def demo_fs_def demo_mem_def)
  show "get32 (sb_at demo_sb Block_logsz) demo_fs = 0" "get32 (sb_at demo_sb Blocks_per_group) demo_fs = 16"
    "get32 (sb_at demo_sb Inodes_per_group) demo_fs = 16"
    by (simp_all add: sb_at_def sb_offsets get32_def load32_def load_numeral demo_sb_def demo_fs_def demo_mem_def)
  show "get32 (group_at demo_bt 0 Block_bitmap_addr demo_fs) demo_fs = 3"
    "get32 (group_at demo_bt 0 Inode_bitmap_addr demo_fs) demo_fs = 4"
    unfolding group_at_def g
    by (simp_all add: blkgrp_layout_def pad_def get32_def load32_def load_numeral demo_fs_def demo_mem_def)
  show "get32 (dbp_at demo_ino 0) demo_fs = 5" "get32 (inode_at demo_ino Sibp) demo_fs = 6" "get32 (inode_at demo_ino Dibp) demo_fs = 0"
    by (simp_all add: dbp_at_def inode_at_def inode_layout_def pad_def get32_def load32_def load_numeral demo_ino_def demo_fs_def demo_mem_def)
qed

lemma demo_geom: "geom demo_sb 2 demo_fs"
  by (simp add: geom_def blocksize_def demo_fields)

lemma demo_heap: "kmem_inv [(KMEM_HEAP_BASE, 4096)] demo_fs" "room 512 1 [(KMEM_HEAP_BASE, 4096)]"
  "place 512 1 [(KMEM_HEAP_BASE, 4096)] = ([(KMEM_HEAP_BASE, 4096), (0x201018, 512)], 0x201018, False)"
proof -
  show "room 512 1 [(KMEM_HEAP_BASE, 4096)]" by (simp add: room_def blk_end_def KMEM_HEAP_BASE_def)
  show "place 512 1 [(KMEM_HEAP_BASE, 4096)] = ([(KMEM_HEAP_BASE, 4096), (0x201018, 512)], 0x201018, False)"
    by (simp add: place_def fit_pos_def align_up_def blk_end_def KMEM_HEAP_BASE_def)
  show "kmem_inv [(KMEM_HEAP_BASE, 4096)] demo_fs"
    by (simp add: kmem_inv_def heap_at_def heap_ok_def blks_ordered_def blk_end_def kn_sz_def kn_next_def kn_prev_def
        load64_def load_numeral demo_fs_def demo_mem_def KMEM_HEAP_BASE_def)
qed

lemma demo_payload: "0x200018 \<le> unat a \<Longrightarrow> unat a + n \<le> 0x201018 \<Longrightarrow> {x. in_range a n x} \<subseteq> payload [(KMEM_HEAP_BASE, 4096)]"
  by (auto simp: payload_def in_range_unat KMEM_HEAP_BASE_def)

lemma demo_ready: "fs_ready [(KMEM_HEAP_BASE, 4096)] demo_sb demo_bt 0 2 demo_fs"
  unfolding fs_ready_def demo_heap(3) demo_fields
  using demo_heap(1,2) demo_geom demo_payload by (simp add: demo_fs_def demo_machine_def demo_sb_def demo_bt_def)

lemma demo_drive_ok: "drives demo_dev demo_drive" "sel_ok demo_dev 0x8000 demo_fs"
  using demo_machine_ok by (simp_all add: demo_fs_def sel_ok_def)

lemma demo_disk: "disk_of demo_dev demo_fs p = of_nat p"
  by (simp add: disk_of_def demo_fs_def demo_machine_def dev_at_def demo_dev_def)

section \<open>Properties\<close>

text \<open>
  C10: Reading block \<open>bnd\<close> of a file through the drive finds the same block as the reference, which follows the
  direct, single and double indirect pointers on the disk: a hole gives 0, any other block is read
  completely into the buffer and gives 1. The disk and all memory outside the buffer are unchanged.
\<close>

theorem read_inode_data_reads_block:
  assumes "drives d0 drive" "sel_ok d0 dp s" "geom sb k s" "ptrs_ok (disk_of d0 s) k ino s"
    and "unat bnd < 12 + 128 * k + 128 * k * (128 * k)" "ranges_disjoint buf (512 * k) (sb_at sb Block_logsz) 4"
    and "unat (file_block (disk_of d0 s) k ino bnd s) * k < 2 ^ 32"
  shows "\<exists>s'. fs_ext2_read_inode_data (pio_ops (ata_hw d0) dp drive) sb ino bnd buf s =
      Some (s', if file_block (disk_of d0 s) k ino bnd s = 0 then 0 else 1) \<and> disk_of d0 s' = disk_of d0 s \<and>
    (\<forall>x. \<not> in_range buf (512 * k) x \<longrightarrow> kmem_mem s' x = kmem_mem s x) \<and>
    (file_block (disk_of d0 s) k ino bnd s \<noteq> 0 \<longrightarrow> (\<forall>i < 512 * k.
       kmem_mem s' (buf + of_nat i) = disk_of d0 s (512 * k * unat (file_block (disk_of d0 s) k ino bnd s) + i)))"
  using pio.read_inode_data_ref [of d0 drive dp s sb k ino bnd buf] assms by blast

text \<open>
  C30: Writing a block of a file stores the data of the caller only for the direct pointers. For a block behind
  the single indirect pointer the buffer of the caller is used to read the block of pointers first, so
  the block of pointers is written to the disk instead of the data.
\<close>

theorem write_inode_data_loses_data:
  assumes "drives d0 drive" "sel_ok d0 dp s" "geom sb k s" "ptrs_ok (disk_of d0 s) k ino s" "unat bnd < 12 + 128 * k"
    and "ranges_disjoint buf (512 * k) (sb_at sb Block_logsz) 4"
    and "file_block (disk_of d0 s) k ino bnd s = p" "p \<noteq> 0" "unat p * k < 2 ^ 32"
  shows "\<exists>s'. fs_ext2_write_inode_data (pio_ops (ata_hw d0) dp drive) sb ino bnd buf s = Some (s', 1) \<and>
    disk_of d0 s' = put_bytes (disk_of d0 s) (512 * k * unat p) (512 * k)
      (if unat bnd < 12 then (\<lambda>i. kmem_mem s (buf + of_nat i))
       else (\<lambda>i. disk_of d0 s (512 * k * unat (get32 (inode_at ino Sibp) s) + i)))"
  using pio.write_inode_data_disk [of d0 drive dp s sb k ino bnd buf p] assms by blast

text \<open>
  The bitmaps of the ext2 format: entry \<open>t\<close> of the bitmap that starts at byte \<open>b\<close> of the disk is bit \<open>t mod 8\<close>, counted
  from the lowest one, of byte \<open>t div 8\<close>. The code counts the bits of a byte from the highest one.
\<close>

definition fmt_bit :: "(nat \<Rightarrow> u8) \<Rightarrow> nat \<Rightarrow> nat \<Rightarrow> bool" where
  "fmt_bit d b t \<longleftrightarrow> bit (d (b + t div 8)) (t mod 8)"

definition mirrored :: "nat \<Rightarrow> nat" where
  "mirrored t = 8 * (t div 8) + (7 - t mod 8)"

lemma mirrored_div_mod: "mirrored t div 8 = t div 8" "mirrored t mod 8 = 7 - t mod 8"
proof -
  have "7 - t mod 8 < 8" by simp
  then show "mirrored t div 8 = t div 8" "mirrored t mod 8 = 7 - t mod 8"
    unfolding mirrored_def by (simp_all del: diff_less_Suc add_diff_assoc)
qed

lemma mirrored_eq_iff: "u = mirrored t \<longleftrightarrow> u div 8 = t div 8 \<and> u mod 8 = 7 - t mod 8"
  using div_mult_mod_eq [of u 8] div_mult_mod_eq [of "mirrored t" 8] mirrored_div_mod [of t] by metis

lemma mirrored_neq: "mirrored t \<noteq> t"
proof
  assume "mirrored t = t"
  then have "t mod 8 = 7 - t mod 8" using mirrored_div_mod(2) [of t] by simp
  then show False by presburger
qed

lemma fmt_bit_mask:
  assumes "p = b + unat t div 8"
  shows "fmt_bit (d(p := d p OR bitmap_mask t)) b u \<longleftrightarrow> u = mirrored (unat t) \<or> fmt_bit d b u"
    and "fmt_bit (d(p := d p AND NOT (bitmap_mask t))) b u \<longleftrightarrow> u \<noteq> mirrored (unat t) \<and> fmt_bit d b u"
proof -
  have "bit (bitmap_mask t) (u mod 8) \<longleftrightarrow> u mod 8 = 7 - unat t mod 8"
    by (auto simp: bitmap_mask_def bit_push_bit_iff bit_1_iff simp del: push_bit_of_1)
  then show "fmt_bit (d(p := d p OR bitmap_mask t)) b u \<longleftrightarrow> u = mirrored (unat t) \<or> fmt_bit d b u"
    "fmt_bit (d(p := d p AND NOT (bitmap_mask t))) b u \<longleftrightarrow> u \<noteq> mirrored (unat t) \<and> fmt_bit d b u"
    using assms by (auto simp: fmt_bit_def mirrored_eq_iff bit_or_iff bit_and_iff bit_not_iff)
qed

text \<open>
  C11: Marking an inode as allocated and then as free, through the programmed I/O driver. Both calls return.
  The first sets exactly one bit of the inode bitmap of the group and the second clears exactly this bit; no
  other byte of the disk changes. The bit has the number of the inode in its group, but with the bits of each
  byte in reverse order: it is never the one that the ext2 format assigns to the inode, which keeps its value.
  The list of heap blocks is the same again after each call, the lock is free, and no byte of a live payload (so
  neither super block nor group table) has changed.
\<close>

theorem mark_inode_changes_one_bit:
  assumes "drives d0 drive" "sel_ok d0 dp s" and ipg: "get32 (sb_at sb Inodes_per_group) s = ipg" "ipg \<noteq> 0"
    and rdy: "fs_ready bs sb bt ((n - 1) div ipg) k s"
    and "unat (get32 (group_at bt ((n - 1) div ipg) Inode_bitmap_addr s) s) * k + unat ((n - 1) mod ipg) div 8 div 512 < 2 ^ 32"
  defines "b \<equiv> 512 * k * unat (get32 (group_at bt ((n - 1) div ipg) Inode_bitmap_addr s) s)" and "t \<equiv> unat ((n - 1) mod ipg)"
  shows "\<exists>s1 s2. fs_ext2_mark_alloc_inode None (pio_ops (ata_hw d0) dp drive) sb bt n s = Some s1 \<and>
    fs_ext2_mark_unalloc_inode None (pio_ops (ata_hw d0) dp drive) sb bt n s1 = Some s2 \<and>
    (\<forall>u. fmt_bit (disk_of d0 s1) b u \<longleftrightarrow> u = mirrored t \<or> fmt_bit (disk_of d0 s) b u) \<and>
    (\<forall>u. fmt_bit (disk_of d0 s2) b u \<longleftrightarrow> u \<noteq> mirrored t \<and> fmt_bit (disk_of d0 s) b u) \<and>
    fmt_bit (disk_of d0 s1) b t = fmt_bit (disk_of d0 s) b t \<and> fmt_bit (disk_of d0 s2) b t = fmt_bit (disk_of d0 s) b t \<and>
    (\<forall>q. q \<noteq> b + t div 8 \<longrightarrow> disk_of d0 s1 q = disk_of d0 s q \<and> disk_of d0 s2 q = disk_of d0 s q) \<and>
    kmem_inv bs s1 \<and> kmem_spinlock s1 = 0 \<and> agree_on (payload bs) (kmem_mem s) (kmem_mem s1) \<and>
    kmem_inv bs s2 \<and> kmem_spinlock s2 = 0 \<and> agree_on (payload bs) (kmem_mem s) (kmem_mem s2)"
proof -
  let ?i = "(n - 1) div ipg" and ?t = "(n - 1) mod ipg" and ?drv = "pio_ops (ata_hw d0) dp drive" and ?D = "disk_of d0 s"
  define p where "p = bitmap_byte bt ?i Inode_bitmap_addr k ?t s"
  define m where "m = bitmap_mask ?t"
  have p: "p = b + unat ?t div 8" by (simp add: p_def bitmap_byte_def b_def)
  obtain s1 where s1: "update_bitmap None ?drv sb bt ?i Inode_bitmap_addr ?t set_mask s = Some s1" "drives d0 drive \<and> sel_ok d0 dp s1"
    "fs_ready bs sb bt ?i k s1" "disk_of d0 s1 = ?D(p := ?D p OR m)" "agree_on (payload bs) (kmem_mem s) (kmem_mem s1)"
    using pio.update_bitmap_disk [OF conjI [OF assms(1,2)] rdy _ assms(6), where f = set_mask] unfolding set_mask_def p_def m_def by blast
  note fa = fs_fields_agree [OF rdy s1(5)]
  have p1: "bitmap_byte bt ?i Inode_bitmap_addr k ?t s1 = p" using fa(6) by (simp add: bitmap_byte_def p_def)
  have sm1: "unat (get32 (group_at bt ?i Inode_bitmap_addr s1) s1) * k + unat ?t div 8 div 512 < 2 ^ 32"
    using fa(6) assms(6) by simp
  obtain s2 where s2: "update_bitmap None ?drv sb bt ?i Inode_bitmap_addr ?t clear_mask s1 = Some s2" "fs_ready bs sb bt ?i k s2"
    "disk_of d0 s2 = (disk_of d0 s1)(p := clear_mask (disk_of d0 s1 p) m)" "agree_on (payload bs) (kmem_mem s1) (kmem_mem s2)"
    using pio.update_bitmap_disk [OF s1(2,3) _ sm1, where f = clear_mask] unfolding p1 m_def by blast
  have "clear_mask (?D p OR m) m = ?D p AND NOT m"
    unfolding clear_mask_def by (rule bit_word_eqI) (auto simp: bit_and_iff bit_or_iff bit_not_iff)
  then have d2: "disk_of d0 s2 = ?D(p := ?D p AND NOT m)" using s2(3) s1(4) by simp
  have bits: "fmt_bit (disk_of d0 s1) b u \<longleftrightarrow> u = mirrored t \<or> fmt_bit ?D b u"
    "fmt_bit (disk_of d0 s2) b u \<longleftrightarrow> u \<noteq> mirrored t \<and> fmt_bit ?D b u" for u
    using fmt_bit_mask [OF p, of ?D u] by (simp_all only: s1(4) d2 m_def t_def)
  have run: "fs_ext2_mark_alloc_inode None ?drv sb bt n s = Some s1" "fs_ext2_mark_unalloc_inode None ?drv sb bt n s1 = Some s2"
    using s1(1) s2(1) fa(5) ipg by (simp_all add: fs_ext2_mark_alloc_inode_def fs_ext2_mark_unalloc_inode_def udiv_def umod_def)
  have heap: "kmem_inv bs s1" "kmem_spinlock s1 = 0" "kmem_inv bs s2" "kmem_spinlock s2 = 0"
    "agree_on (payload bs) (kmem_mem s) (kmem_mem s2)"
    using s1(3,5) s2(2,4) by (simp_all add: fs_ready_def agree_on_def)
  have "q \<noteq> b + t div 8 \<longrightarrow> disk_of d0 s1 q = ?D q \<and> disk_of d0 s2 q = ?D q" for q
    by (simp add: s1(4) d2 p t_def)
  with run bits heap s1(5) mirrored_neq [of t] show ?thesis by (intro exI [of _ s1] exI [of _ s2]) auto
qed

text \<open>
  Freeing a block clears the bit of its predecessor: after a block that is not the first of its group has
  been marked as allocated and then as free, its bit is still set and the bit of the block before it
  is cleared.
\<close>

theorem mark_unalloc_block_clears_neighbour:
  assumes "drives d0 drive" "sel_ok d0 dp s" and bpg: "get32 (sb_at sb Blocks_per_group) s = bpg" "bpg \<noteq> 0" "n mod bpg \<noteq> 0"
    and rdy: "fs_ready bs sb bt (n div bpg) k s"
    and sm: "unat (get32 (group_at bt (n div bpg) Block_bitmap_addr s) s) * k + unat (n mod bpg) div 8 div 512 < 2 ^ 32"
  defines "p \<equiv> bitmap_byte bt (n div bpg) Block_bitmap_addr k (n mod bpg) s"
    and "q \<equiv> bitmap_byte bt (n div bpg) Block_bitmap_addr k (n mod bpg - 1) s"
  shows "\<exists>s1 s2. fs_ext2_mark_alloc_block None (pio_ops (ata_hw d0) dp drive) sb bt n s = Some s1 \<and>
    disk_of d0 s1 = (disk_of d0 s)(p := disk_of d0 s p OR bitmap_mask (n mod bpg)) \<and>
    fs_ext2_mark_unalloc_block None (pio_ops (ata_hw d0) dp drive) sb bt n s1 = Some s2 \<and>
    disk_of d0 s2 = (disk_of d0 s1)(q := disk_of d0 s1 q AND NOT (bitmap_mask (n mod bpg - 1))) \<and>
    disk_of d0 s2 p AND bitmap_mask (n mod bpg) = bitmap_mask (n mod bpg)"
proof -
  let ?i = "n div bpg" and ?t = "n mod bpg" and ?drv = "pio_ops (ata_hw d0) dp drive"
  note pr = pred_div_mod [OF bpg(3,2)]
  obtain s1 where s1: "update_bitmap None ?drv sb bt ?i Block_bitmap_addr ?t set_mask s = Some s1" "drives d0 drive \<and> sel_ok d0 dp s1"
    "fs_ready bs sb bt ?i k s1" "disk_of d0 s1 = (disk_of d0 s)(p := disk_of d0 s p OR bitmap_mask ?t)"
    "agree_on (payload bs) (kmem_mem s) (kmem_mem s1)"
    using pio.update_bitmap_disk [OF conjI [OF assms(1,2)] rdy _ sm, where f = set_mask] unfolding set_mask_def p_def by blast
  note fa = fs_fields_agree [OF rdy s1(5)]
  have q1: "bitmap_byte bt ?i Block_bitmap_addr k (?t - 1) s1 = q" using fa(6) by (simp add: bitmap_byte_def q_def)
  have "unat (?t - 1) div 8 div 512 \<le> unat ?t div 8 div 512" unfolding pr(3) by (intro div_le_mono) simp
  with sm fa(6) have sm1: "unat (get32 (group_at bt ?i Block_bitmap_addr s1) s1) * k + unat (?t - 1) div 8 div 512 < 2 ^ 32"
    by simp
  obtain s2 where s2: "update_bitmap None ?drv sb bt ?i Block_bitmap_addr (?t - 1) clear_mask s1 = Some s2"
    "disk_of d0 s2 = (disk_of d0 s1)(q := disk_of d0 s1 q AND NOT (bitmap_mask (?t - 1)))"
    using pio.update_bitmap_disk [OF s1(2,3) _ sm1, where f = clear_mask] unfolding q1 clear_mask_def by blast
  have "disk_of d0 s2 p AND bitmap_mask ?t = bitmap_mask ?t"
  proof (cases "p = q")
    case True
    then have "unat ?t div 8 = unat (?t - 1) div 8" by (simp add: p_def q_def bitmap_byte_def)
    with True s1(4) s2(2) mask_neighbour [of ?t "?t - 1" "disk_of d0 s p"] pr(3) bpg(3) show ?thesis by (simp add: unat_eq_zero)
  next
    case False
    with s1(4) s2(2) show ?thesis by (simp add: word_ao_absorbs)
  qed
  with s1 s2 fa(4) bpg pr(1,2) show ?thesis
    by (simp add: fs_ext2_mark_alloc_block_def fs_ext2_mark_unalloc_block_def udiv_def umod_def)
qed

text \<open>The hypotheses hold for the small file system.\<close>

lemma demo_ptrs: "ptrs_ok (disk_of demo_dev demo_fs) 2 demo_ino demo_fs"
  by (simp add: ptrs_ok_def demo_fields ptr_in_def)

lemma demo_buffer: "ranges_disjoint 0x300000 (512 * 2) (sb_at demo_sb Block_logsz) 4"
  by (simp add: ranges_disjoint_def sb_at_def sb_offsets demo_sb_def)

lemma demo_block_12: "file_block (disk_of demo_dev demo_fs) 2 demo_ino 12 demo_fs = 0x3020100"
  by (simp add: file_block_def block_ref_def demo_fields ptr_in_def disk32_def load32_def load_numeral demo_disk)

theorem read_inode_data_reads_block_witness:
  "\<exists>s'. fs_ext2_read_inode_data (pio_ops (ata_hw demo_dev) 0x8000 demo_drive) demo_sb demo_ino 12 0x300000 demo_fs = Some (s', 1)"
proof -
  have "unat (12 :: u32) < 12 + 128 * 2 + 128 * 2 * (128 * 2)"
    "unat (file_block (disk_of demo_dev demo_fs) 2 demo_ino 12 demo_fs) * 2 < 2 ^ 32" by (simp_all add: demo_block_12)
  from read_inode_data_reads_block [OF demo_drive_ok demo_geom demo_ptrs this(1) demo_buffer this(2)]
  show ?thesis by (auto simp: demo_block_12)
qed

theorem write_inode_data_loses_data_witness:
  "\<exists>s'. fs_ext2_write_inode_data (pio_ops (ata_hw demo_dev) 0x8000 demo_drive) demo_sb demo_ino 12 0x300000 demo_fs = Some (s', 1) \<and>
    disk_of demo_dev s' (1024 * 0x3020100 + 7) = 7"
proof -
  have "unat (12 :: u32) < 12 + 128 * 2" "(0x3020100 :: u32) \<noteq> 0" "unat (0x3020100 :: u32) * 2 < 2 ^ 32" by simp_all
  from write_inode_data_loses_data [OF demo_drive_ok demo_geom demo_ptrs this(1) demo_buffer demo_block_12 this(2,3)]
  show ?thesis by (auto simp: put_bytes_def demo_fields demo_disk)
qed

theorem mark_inode_changes_one_bit_witness:
  "\<exists>s1 s2. fs_ext2_mark_alloc_inode None (pio_ops (ata_hw demo_dev) 0x8000 demo_drive) demo_sb demo_bt 11 demo_fs = Some s1 \<and>
    fmt_bit (disk_of demo_dev s1) 4096 13 \<and> \<not> fmt_bit (disk_of demo_dev s1) 4096 10 \<and>
    fs_ext2_mark_unalloc_inode None (pio_ops (ata_hw demo_dev) 0x8000 demo_drive) demo_sb demo_bt 11 s1 = Some s2 \<and>
    \<not> fmt_bit (disk_of demo_dev s2) 4096 13"
proof -
  have h: "get32 (sb_at demo_sb Inodes_per_group) demo_fs = 16" "(16 :: u32) \<noteq> 0"
    "fs_ready [(KMEM_HEAP_BASE, 4096)] demo_sb demo_bt ((11 - 1) div 16) 2 demo_fs"
    "unat (get32 (group_at demo_bt ((11 - 1) div 16) Inode_bitmap_addr demo_fs) demo_fs) * 2 + unat ((11 - 1) mod 16 :: u32) div 8 div 512 < 2 ^ 32"
    using demo_ready by (simp_all add: demo_fields)
  have e: "512 * 2 * unat (get32 (group_at demo_bt ((11 - 1) div 16) Inode_bitmap_addr demo_fs) demo_fs) = 4096"
    "unat ((11 - 1) mod 16 :: u32) = 10" "mirrored 10 = 13"
    by (simp_all add: demo_fields mirrored_def)
  have "\<not> fmt_bit (disk_of demo_dev demo_fs) 4096 10" by (simp add: fmt_bit_def demo_disk bit_1_iff)
  with mark_inode_changes_one_bit [OF demo_drive_ok h, unfolded e] show ?thesis by blast
qed

theorem mark_unalloc_block_clears_neighbour_witness:
  "\<exists>s1 s2. fs_ext2_mark_alloc_block None (pio_ops (ata_hw demo_dev) 0x8000 demo_drive) demo_sb demo_bt 15 demo_fs = Some s1 \<and>
    fs_ext2_mark_unalloc_block None (pio_ops (ata_hw demo_dev) 0x8000 demo_drive) demo_sb demo_bt 15 s1 = Some s2 \<and>
    disk_of demo_dev s1 3073 = 1 \<and> disk_of demo_dev s2 3073 = 1"
proof -
  have h: "get32 (sb_at demo_sb Blocks_per_group) demo_fs = 16" "(16 :: u32) \<noteq> 0" "(15 :: u32) mod 16 \<noteq> 0"
    "fs_ready [(KMEM_HEAP_BASE, 4096)] demo_sb demo_bt (15 div 16) 2 demo_fs"
    "unat (get32 (group_at demo_bt (15 div 16) Block_bitmap_addr demo_fs) demo_fs) * 2 + unat (15 mod 16 :: u32) div 8 div 512 < 2 ^ 32"
    using demo_ready by (simp_all add: demo_fields)
  have "bitmap_byte demo_bt 0 Block_bitmap_addr 2 15 demo_fs = 3073" "bitmap_byte demo_bt 0 Block_bitmap_addr 2 14 demo_fs = 3073"
    "bitmap_mask 15 = 1" "bitmap_mask 14 = 2"
    by (simp_all add: bitmap_byte_def bitmap_mask_def demo_fields)
  with mark_unalloc_block_clears_neighbour [OF demo_drive_ok h] show ?thesis by (auto simp: demo_disk)
qed

end
