(* ===== verification/Fs.thy ===== *)
theory Fs
  imports Ext2
begin

unbundle bit_operations_syntax

text \<open>
  The file system interface (\<^verbatim>\<open>fs/fs.h\<close>, \<^verbatim>\<open>fs/fs.c\<close>): the structure of function pointers through which
  the rest of the kernel uses a file system, and the function that walks over a path. The members that
  an implementation reads, drive and private data, are the record \<open>fs_handle\<close>; \<open>file_system\<close> extends it
  by the function pointers, whose first argument is the handle. The drive stands for its own function
  pointers, and the mapping hooks of the heap, which are global in the source, come with the handle.
  The local structures of a function are in memory: \<open>sp\<close> is the address of its frame, and a function it
  calls gets the address behind that frame. A function that returns an error code or fills in an output
  parameter has a sum as its result.
\<close>

section \<open>Constants and structures\<close>

definition FS_CREATE_TYPE_UNKNOWN :: int where "FS_CREATE_TYPE_UNKNOWN = 0"
definition FS_CREATE_TYPE_FILE :: int where "FS_CREATE_TYPE_FILE = 1"
definition FS_CREATE_TYPE_DIR :: int where "FS_CREATE_TYPE_DIR = 2"
definition FS_CREATE_TYPE_SYMLINK :: int where "FS_CREATE_TYPE_SYMLINK = 3"
definition FS_CREATE_TYPE_FIFO :: int where "FS_CREATE_TYPE_FIFO = 4"
definition FS_CREATE_TYPE_DEVCHAR :: int where "FS_CREATE_TYPE_DEVCHAR = 5"
definition FS_CREATE_TYPE_DEVBLK :: int where "FS_CREATE_TYPE_DEVBLK = 6"
definition FS_CREATE_TYPE_UNIX_SOCK :: int where "FS_CREATE_TYPE_UNIX_SOCK = 7"

definition FS_OPEN_READ :: int where "FS_OPEN_READ = 1"
definition FS_OPEN_WRITE :: int where "FS_OPEN_WRITE = 2"
definition FS_OPEN_CREATE :: int where "FS_OPEN_CREATE = 4"
definition FS_OPEN_RECREATE :: int where "FS_OPEN_RECREATE = 8"
definition FS_OPEN_ENDPTR :: int where "FS_OPEN_ENDPTR = 16"

definition FS_SEEK_BEGIN :: int where "FS_SEEK_BEGIN = 0"
definition FS_SEEK_CUR :: int where "FS_SEEK_CUR = 1"
definition FS_SEEK_END :: int where "FS_SEEK_END = 2"

definition FS_ERR_DOESNT_EXIST :: int where "FS_ERR_DOESNT_EXIST = - 1"
definition FS_ERR_INVALID_FILENAME :: int where "FS_ERR_INVALID_FILENAME = - 4"
definition FS_ERR_NO_SPACE :: int where "FS_ERR_NO_SPACE = - 5"

record 'x fs_handle =
  fs_hooks :: "'x map_hooks"
  fs_drive :: "'x drive_ops"
  fs_gdata :: addr

text \<open>The functions of a file system: handle, frame and the arguments of the C function, in this order.\<close>

record 'x file_system = "'x fs_handle" +
  fs_name :: string
  fd_size :: u64
  dit_size :: u64
  fs_create :: "'x fs_handle \<Rightarrow> addr \<Rightarrow> addr \<Rightarrow> int \<Rightarrow> 'x kmem_scheme \<Rightarrow> ('x kmem_scheme \<times> int) option"
  fs_unlink :: "'x fs_handle \<Rightarrow> addr \<Rightarrow> addr \<Rightarrow> 'x kmem_scheme \<Rightarrow> ('x kmem_scheme \<times> int) option"
  fs_rename :: "'x fs_handle \<Rightarrow> addr \<Rightarrow> addr \<Rightarrow> addr \<Rightarrow> 'x kmem_scheme \<Rightarrow> ('x kmem_scheme \<times> int) option"
  fs_open :: "'x fs_handle \<Rightarrow> addr \<Rightarrow> addr \<Rightarrow> addr \<Rightarrow> int \<Rightarrow> 'x kmem_scheme \<Rightarrow> ('x kmem_scheme \<times> int) option"
  fs_close :: "'x fs_handle \<Rightarrow> addr \<Rightarrow> 'x kmem_scheme \<Rightarrow> 'x kmem_scheme option"
  fs_get_size :: "'x fs_handle \<Rightarrow> addr \<Rightarrow> 'x kmem_scheme \<Rightarrow> u64"
  fs_seek :: "'x fs_handle \<Rightarrow> addr \<Rightarrow> u64 \<Rightarrow> int \<Rightarrow> 'x kmem_scheme \<Rightarrow> ('x kmem_scheme \<times> u64) option"
  fs_read :: "'x fs_handle \<Rightarrow> addr \<Rightarrow> addr \<Rightarrow> u64 \<Rightarrow> 'x kmem_scheme \<Rightarrow> ('x kmem_scheme \<times> u64) option"
  fs_write :: "'x fs_handle \<Rightarrow> addr \<Rightarrow> addr \<Rightarrow> u64 \<Rightarrow> 'x kmem_scheme \<Rightarrow> ('x kmem_scheme \<times> u64) option"
  dir_iter_start :: "'x fs_handle \<Rightarrow> addr \<Rightarrow> addr \<Rightarrow> addr \<Rightarrow> 'x kmem_scheme \<Rightarrow> ('x kmem_scheme \<times> int) option"
  dir_iter_next :: "'x fs_handle \<Rightarrow> addr \<Rightarrow> addr \<Rightarrow> 'x kmem_scheme \<Rightarrow> ('x kmem_scheme \<times> int) option"

datatype fsdent_field = Dent_name_max | Dent_name | Dent_type

definition fsdent_layout :: "(fsdent_field \<times> nat \<times> nat) list" where
  "fsdent_layout = [(Dent_name_max, 8, 8), (Dent_name, 8, 8), (Dent_type, 4, 4)]"

definition dent_at :: "addr \<Rightarrow> fsdent_field \<Rightarrow> addr" where
  "dent_at dent f = dent + of_nat (offset_from 0 fsdent_layout f)"

section \<open>Paths\<close>

definition SLASH :: u8 where "SLASH = 0x2F"

partial_function (option) next_file_scan :: "mem \<Rightarrow> addr \<Rightarrow> addr option" where
  "next_file_scan m cur = (if m cur \<noteq> SLASH \<and> m cur \<noteq> 0 then next_file_scan m (cur + 1) else Some cur)"

declare next_file_scan.simps [code]

text \<open>The pointer behind the argument is state: the result has its new value and the name, or \<^const>\<open>NULL\<close>.\<close>

definition fs_next_file :: "addr \<Rightarrow> 'x kmem_scheme \<Rightarrow> ('x kmem_scheme \<times> addr \<times> addr) option" where
  "fs_next_file cur s =
     (if kmem_mem s cur = 0 then Some (s, cur, NULL)
      else do {
        e \<leftarrow> next_file_scan (kmem_mem s) cur;
        let was_null = (kmem_mem s e = 0);
        Some (put8 e 0 s, if was_null then e else e + 1, cur)
      })"

end
