(* ===== verification/Ext2_files.thy ===== *)
theory Ext2_files
  imports Fs
begin

unbundle bit_operations_syntax

text \<open>
  The ext2 driver as a file system (\<^verbatim>\<open>fs/ext2.c\<close> from line 578 on): paths, directory entries, open files,
  and the scan of \<^verbatim>\<open>fs/fs.c\<close> that finds it. Superblock and table of block groups are in the private
  data of the file system. The functions are those of \<^theory_text>\<open>Ext2\<close> composed as in the source; a
  \<^verbatim>\<open>while\<close> loop is a function of its own.
\<close>

section \<open>Structures\<close>

definition sizeof_bt :: nat where "sizeof_bt = pad 8 (struct_end 0 bt_layout)"
definition sizeof_dit :: nat where "sizeof_dit = pad 8 (struct_end 0 dit_layout)"

datatype gdata_field = Gd_sb | Gd_bt

definition gdata_layout :: "(gdata_field \<times> nat \<times> nat) list" where
  "gdata_layout = [(Gd_sb, sizeof_sb, 4), (Gd_bt, sizeof_bt, 8)]"

definition sizeof_gdata :: nat where "sizeof_gdata = pad 8 (struct_end 0 gdata_layout)"

definition fs_sb :: "('x, 'y) fs_handle_scheme \<Rightarrow> addr" where
  "fs_sb fs = fs_gdata fs + of_nat (offset_from 0 gdata_layout Gd_sb)"

definition fs_bt :: "('x, 'y) fs_handle_scheme \<Rightarrow> addr" where
  "fs_bt fs = fs_gdata fs + of_nat (offset_from 0 gdata_layout Gd_bt)"

datatype fd_field = Fd_inode_num | Fd_inode | Fd_blkbuf | Fd_blki | Fd_byteaddr | Fd_is_blk_valid | Fd_is_buf_init

definition fd_layout :: "(fd_field \<times> nat \<times> nat) list" where
  "fd_layout = [(Fd_inode_num, 4, 4), (Fd_inode, 8, 8), (Fd_blkbuf, 8, 8), (Fd_blki, 4, 4), (Fd_byteaddr, 4, 4),
                (Fd_is_blk_valid, 1, 1), (Fd_is_buf_init, 1, 1)]"

definition sizeof_fd :: nat where "sizeof_fd = pad 8 (struct_end 0 fd_layout)"

definition fd_at :: "addr \<Rightarrow> fd_field \<Rightarrow> addr" where
  "fd_at fd f = fd + of_nat (offset_from 0 fd_layout f)"

section \<open>Types of files\<close>

definition FS_EXT2_INODE_TYPE_FIFO :: u16 where "FS_EXT2_INODE_TYPE_FIFO = 0x1000"
definition FS_EXT2_INODE_TYPE_CHARDEV :: u16 where "FS_EXT2_INODE_TYPE_CHARDEV = 0x2000"
definition FS_EXT2_INODE_TYPE_DIR :: u16 where "FS_EXT2_INODE_TYPE_DIR = 0x4000"
definition FS_EXT2_INODE_TYPE_BLKDEV :: u16 where "FS_EXT2_INODE_TYPE_BLKDEV = 0x6000"
definition FS_EXT2_INODE_TYPE_FILE :: u16 where "FS_EXT2_INODE_TYPE_FILE = 0x8000"
definition FS_EXT2_INODE_TYPE_SYMLINK :: u16 where "FS_EXT2_INODE_TYPE_SYMLINK = 0xA000"
definition FS_EXT2_INODE_TYPE_UNIXSOCK :: u16 where "FS_EXT2_INODE_TYPE_UNIXSOCK = 0xC000"
definition FS_EXT2_INODE_PERM_EVERYTHING :: u16 where "FS_EXT2_INODE_PERM_EVERYTHING = 0x1FF"
definition FS_EXT2_ROOT_INODE :: u32 where "FS_EXT2_ROOT_INODE = 2"

definition fs_ext2_type_fs2ext2_inode :: "int \<Rightarrow> u16" where
  "fs_ext2_type_fs2ext2_inode t =
     (if t = FS_CREATE_TYPE_FILE then FS_EXT2_INODE_TYPE_FILE
      else if t = FS_CREATE_TYPE_DIR then FS_EXT2_INODE_TYPE_DIR
      else if t = FS_CREATE_TYPE_SYMLINK then FS_EXT2_INODE_TYPE_SYMLINK
      else if t = FS_CREATE_TYPE_FIFO then FS_EXT2_INODE_TYPE_FIFO
      else if t = FS_CREATE_TYPE_DEVCHAR then FS_EXT2_INODE_TYPE_CHARDEV
      else if t = FS_CREATE_TYPE_DEVBLK then FS_EXT2_INODE_TYPE_BLKDEV
      else if t = FS_CREATE_TYPE_UNIX_SOCK then FS_EXT2_INODE_TYPE_UNIXSOCK
      else 0)"

definition fs_ext2_type_fs2ext2_typebyte :: "int \<Rightarrow> u8" where
  "fs_ext2_type_fs2ext2_typebyte t =
     (if t = FS_CREATE_TYPE_FILE then 1
      else if t = FS_CREATE_TYPE_DIR then 2
      else if t = FS_CREATE_TYPE_SYMLINK then 7
      else if t = FS_CREATE_TYPE_FIFO then 5
      else if t = FS_CREATE_TYPE_DEVCHAR then 3
      else if t = FS_CREATE_TYPE_DEVBLK then 4
      else if t = FS_CREATE_TYPE_UNIX_SOCK then 6
      else 0)"

definition fs_ext2_type_ext22fs_inode :: "u16 \<Rightarrow> int" where
  "fs_ext2_type_ext22fs_inode tp =
     (if tp AND FS_EXT2_INODE_TYPE_FILE \<noteq> 0 then FS_CREATE_TYPE_FILE
      else if tp AND FS_EXT2_INODE_TYPE_DIR \<noteq> 0 then FS_CREATE_TYPE_DIR
      else if tp AND FS_EXT2_INODE_TYPE_SYMLINK \<noteq> 0 then FS_CREATE_TYPE_SYMLINK
      else if tp AND FS_EXT2_INODE_TYPE_FIFO \<noteq> 0 then FS_CREATE_TYPE_FIFO
      else if tp AND FS_EXT2_INODE_TYPE_CHARDEV \<noteq> 0 then FS_CREATE_TYPE_DEVCHAR
      else if tp AND FS_EXT2_INODE_TYPE_BLKDEV \<noteq> 0 then FS_CREATE_TYPE_DEVBLK
      else if tp AND FS_EXT2_INODE_TYPE_UNIXSOCK \<noteq> 0 then FS_CREATE_TYPE_UNIX_SOCK
      else 0)"

section \<open>Memory\<close>

definition strlen_s :: "addr \<Rightarrow> 'x kmem_scheme \<Rightarrow> u64 option" where
  "strlen_s p s = strlen (kmem_mem s) p"

definition strcpy_s :: "addr \<Rightarrow> addr \<Rightarrow> 'x kmem_scheme \<Rightarrow> 'x kmem_scheme option" where
  "strcpy_s dest src s = do { (m, _) \<leftarrow> strcpy (kmem_mem s) dest src; Some (s\<lparr>kmem_mem := m\<rparr>) }"

text \<open>Assignment of a structure of \<open>n\<close> bytes.\<close>

definition assign_struct :: "addr \<Rightarrow> addr \<Rightarrow> nat \<Rightarrow> 'x kmem_scheme \<Rightarrow> 'x kmem_scheme" where
  "assign_struct dest src n s = s\<lparr>kmem_mem := copied (kmem_mem s) dest src n\<rparr>"

text \<open>A string literal, which a function that uses one finds in its frame.\<close>

fun put_lit :: "addr \<Rightarrow> u8 list \<Rightarrow> 'x kmem_scheme \<Rightarrow> 'x kmem_scheme" where
  "put_lit a [] s = put8 a 0 s"
| "put_lit a (b # bs) s = put_lit (a + 1) bs (put8 a b s)"

section \<open>Finding a file\<close>

partial_function (option) find_entry ::
  "'x drive_ops \<Rightarrow> addr \<Rightarrow> addr \<Rightarrow> addr \<Rightarrow> 'x kmem_scheme \<Rightarrow> ('x kmem_scheme \<times> u32) option" where
  "find_entry drive sb it fcur s =
     do {
       (s1, r) \<leftarrow> fs_ext2_iterate_dir_next drive sb it s;
       if r = 0 then Some (s1, 0)
       else do {
         c \<leftarrow> strcmp (kmem_mem s1) (cur_at it De_name) fcur;
         if c = 0 then Some (s1, get32 (cur_at it De_inode_num) s1) else find_entry drive sb it fcur s1
       }
     }"

declare find_entry.simps [code]

text \<open>The walk over the names of a path; the result has no number when a name was not found.\<close>

partial_function (option) walk_path ::
  "('x, 'y) fs_handle_scheme \<Rightarrow> addr \<Rightarrow> addr \<Rightarrow> addr \<Rightarrow> addr \<Rightarrow> u32 \<Rightarrow> 'x kmem_scheme \<Rightarrow>
    ('x kmem_scheme \<times> u32 option) option" where
  "walk_path fs it cur_dir it_buf path_buf num s =
     do {
       (s1, path_buf1, fcur) \<leftarrow> fs_next_file path_buf s;
       if fcur = NULL then Some (s1, Some num)
       else do {
         s2 \<leftarrow> fs_ext2_read_inode (fs_hooks fs) (fs_drive fs) (fs_sb fs) (fs_bt fs) num cur_dir s1;
         s3 \<leftarrow> fs_ext2_iterate_dir_start (fs_drive fs) (fs_sb fs) cur_dir it it_buf s2;
         (s4, num1) \<leftarrow> find_entry (fs_drive fs) (fs_sb fs) it fcur s3;
         if num1 = 0 then Some (s4, None) else walk_path fs it cur_dir it_buf path_buf1 num1 s4
       }
     }"

declare walk_path.simps [code]

definition fs_ext2_find_final_inode ::
  "('x, 'y) fs_handle_scheme \<Rightarrow> addr \<Rightarrow> addr \<Rightarrow> addr \<Rightarrow> 'x kmem_scheme \<Rightarrow> ('x kmem_scheme \<times> (int + u32)) option" where
  "fs_ext2_find_final_inode fs sp path out s =
     do {
       let it = sp;
       let cur_dir = sp + of_nat sizeof_dit;
       n \<leftarrow> strlen_s path s;
       (s1, path_buf) \<leftarrow> kmalloc (fs_hooks fs) (n + 1) s;
       s2 \<leftarrow> strcpy_s path_buf path s1;
       (s3, it_buf) \<leftarrow> kmalloc (fs_hooks fs) (ucast (blocksize (fs_sb fs) s2)) s2;
       (s4, r) \<leftarrow> walk_path fs it cur_dir it_buf path_buf FS_EXT2_ROOT_INODE s3;
       case r of
         None \<Rightarrow> do {
           s5 \<leftarrow> kfree it_buf s4;
           s6 \<leftarrow> kfree path_buf s5;
           Some (s6, Inl FS_ERR_DOESNT_EXIST)
         }
       | Some num \<Rightarrow> do {
           s5 \<leftarrow> fs_ext2_read_inode (fs_hooks fs) (fs_drive fs) (fs_sb fs) (fs_bt fs) num out s4;
           s6 \<leftarrow> kfree it_buf s5;
           s7 \<leftarrow> kfree path_buf s6;
           Some (s7, Inr num)
         }
     }"

text \<open>The last slash at or before \<open>i\<close>.\<close>

partial_function (option) last_slash :: "mem \<Rightarrow> addr \<Rightarrow> addr \<Rightarrow> addr option option" where
  "last_slash m path_buf i =
     (if i \<ge> path_buf then if m i = SLASH then Some (Some i) else last_slash m path_buf (i - 1)
      else Some None)"

declare last_slash.simps [code]

definition fs_ext2_sep_fname_and_dir :: "addr \<Rightarrow> addr \<Rightarrow> 'x kmem_scheme \<Rightarrow> ('x kmem_scheme \<times> addr) option" where
  "fs_ext2_sep_fname_and_dir path path_buf s =
     do {
       s1 \<leftarrow> strcpy_s path_buf path s;
       n \<leftarrow> strlen_s path s1;
       r \<leftarrow> last_slash (kmem_mem s1) path_buf (path_buf + n);
       case r of
         Some i \<Rightarrow> Some (put8 i 0 s1, i + 1)
       | None \<Rightarrow> Some (put8 path_buf 0 s1, path)
     }"

section \<open>Directory entries\<close>

text \<open>
  The stores of the macro \<^verbatim>\<open>SET_DIRENT_NAMELN\<close> to the entry \<open>de\<close>; the high byte of the length and the byte of
  the type are one byte of the structure.
\<close>

definition set_dirent_nameln :: "addr \<Rightarrow> u16 \<Rightarrow> addr \<Rightarrow> 'x kmem_scheme \<Rightarrow> 'x kmem_scheme \<times> u16" where
  "set_dirent_nameln sb nameln de s =
     (if get32 (sb_at sb Req_features) s AND FS_EXT2_SB_RWFEATURE_DIRS_HAVE_TYPE_FIELD \<noteq> 0 then
        let n = (if nameln \<le> 255 then nameln else 255)
        in (put8 (dirent_at de De_name_length_lo) (ucast n) s, n)
      else
        (put8 (dirent_at de De_type_byte) (ucast (drop_bit 8 nameln AND 0xFF))
           (put8 (dirent_at de De_name_length_lo) (ucast (nameln AND 0xFF)) s), nameln))"

text \<open>Smallest size of an entry with a name of length \<open>nameln\<close>, and the room behind it in an entry of size \<open>esz\<close>.\<close>

definition shrink_size :: "u16 \<Rightarrow> u16" where
  "shrink_size nameln = (let n = ucast (DIRENT_SZ_WO_NAME + ucast nameln) in n + (4 - n mod 4))"

definition dirent_gap :: "u16 \<Rightarrow> u16 \<Rightarrow> u64" where
  "dirent_gap esz nameln = ucast esz - ucast (shrink_size nameln)"

text \<open>
  The macro \<^verbatim>\<open>FS_EXT2_INODE_SET_SIZE\<close> applied to the size plus \<open>n\<close>: its argument is evaluated for each of the
  two stores.
\<close>

definition inode_grow :: "addr \<Rightarrow> u64 \<Rightarrow> 'x kmem_scheme \<Rightarrow> 'x kmem_scheme" where
  "inode_grow ino n s =
     (let s1 = put32 (inode_at ino Size_lo) (ucast ((inode_get_size ino s + n) AND 0xFFFFFFFF)) s
      in put32 (inode_at ino Size_hi) (ucast (drop_bit 32 (inode_get_size ino s1 + n) AND 0xFFFFFFFF)) s1)"

text \<open>Entering a file into an entry that is marked as free.\<close>

definition fill_free_entry ::
  "('x, 'y) fs_handle_scheme \<Rightarrow> addr \<Rightarrow> addr \<Rightarrow> u32 \<Rightarrow> addr \<Rightarrow> int \<Rightarrow> 'x kmem_scheme \<Rightarrow> 'x kmem_scheme option" where
  "fill_free_entry fs it dir de_inode de_name type s =
     do {
       let s1 = put8 (cur_at it De_type_byte) (fs_ext2_type_fs2ext2_typebyte type)
                  (put32 (cur_at it De_inode_num) de_inode s);
       n \<leftarrow> strlen_s de_name s1;
       let (s2, de_nameln) = set_dirent_nameln (fs_sb fs) (ucast n) (it_at it It_cur) s1;
       let pos = (\<lambda>s. get64 (it_at it It_blkbuf) s + ucast (get32 (it_at it It_byteaddr) s)
                        - ucast (get16 (cur_at it De_entry_sz) s));
       s3 \<leftarrow> memcpy_s (pos s2) (it_at it It_cur) DIRENT_SZ_WO_NAME s2;
       s4 \<leftarrow> memcpy_s (pos s3 + DIRENT_SZ_WO_NAME) de_name (ucast de_nameln) s3;
       (s5, _) \<leftarrow> fs_ext2_write_inode_data (fs_drive fs) (fs_sb fs) dir (get32 (it_at it It_blki) s4)
                   (get64 (it_at it It_blkbuf) s4) s4;
       Some s5
     }"

text \<open>Splitting the current entry, whose room behind the name is \<open>gap\<close>.\<close>

definition split_entry ::
  "('x, 'y) fs_handle_scheme \<Rightarrow> addr \<Rightarrow> addr \<Rightarrow> addr \<Rightarrow> u16 \<Rightarrow> u32 \<Rightarrow> addr \<Rightarrow> int \<Rightarrow> 'x kmem_scheme \<Rightarrow> 'x kmem_scheme option" where
  "split_entry fs it de_in dir nameln de_inode de_name type s =
     do {
       let it_prevesz = get16 (cur_at it De_entry_sz) s;
       let gap = dirent_gap it_prevesz nameln;
       let s1 = put16 (cur_at it De_entry_sz) (shrink_size nameln) s;
       let byteaddr = get32 (it_at it It_byteaddr) s1;
       let de_addr = (if byteaddr < ucast it_prevesz then byteaddr else byteaddr - ucast it_prevesz);
       let blkbuf = (\<lambda>s. get64 (it_at it It_blkbuf) s);
       s2 \<leftarrow> memcpy_s (blkbuf s1 + ucast de_addr) (it_at it It_cur) DIRENT_SZ_WO_NAME s1;
       s3 \<leftarrow> memcpy_s (blkbuf s2 + ucast de_addr + DIRENT_SZ_WO_NAME) (cur_at it De_name) (ucast nameln) s2;
       let s4 = put8 (dirent_at de_in De_type_byte) (fs_ext2_type_fs2ext2_typebyte type)
                  (put32 (dirent_at de_in De_inode_num) de_inode s3);
       n \<leftarrow> strlen_s de_name s4;
       let (s5, de_nameln) = set_dirent_nameln (fs_sb fs) (ucast n) de_in s4;
       let s6 = put16 (dirent_at de_in De_entry_sz) (ucast gap) s5;
       let de_addr1 = de_addr + ucast (get16 (cur_at it De_entry_sz) s6);
       s7 \<leftarrow> memcpy_s (blkbuf s6 + ucast de_addr1) de_in DIRENT_SZ_WO_NAME s6;
       s8 \<leftarrow> memcpy_s (blkbuf s7 + ucast de_addr1 + DIRENT_SZ_WO_NAME) de_name (ucast de_nameln) s7;
       (s9, _) \<leftarrow> fs_ext2_write_inode_data (fs_drive fs) (fs_sb fs) dir (get32 (it_at it It_blki) s8) (blkbuf s8) s8;
       Some s9
     }"

text \<open>The search for a place; the result says whether the entry was written.\<close>

partial_function (option) occupy_loop ::
  "('x, 'y) fs_handle_scheme \<Rightarrow> addr \<Rightarrow> addr \<Rightarrow> addr \<Rightarrow> u32 \<Rightarrow> addr \<Rightarrow> int \<Rightarrow> 'x kmem_scheme \<Rightarrow>
    ('x kmem_scheme \<times> bool) option" where
  "occupy_loop fs it de_in dir de_inode de_name type s =
     do {
       (s1, r) \<leftarrow> fs_ext2_iterate_dir_next (fs_drive fs) (fs_sb fs) it s;
       if r = 0 then Some (s1, False)
       else do {
         n \<leftarrow> strlen_s de_name s1;
         if get32 (cur_at it De_inode_num) s1 = 0 \<and> ucast (get16 (cur_at it De_entry_sz) s1) \<ge> DIRENT_SZ_WO_NAME + n
         then do { s2 \<leftarrow> fill_free_entry fs it dir de_inode de_name type s1; Some (s2, True) }
         else do {
           let lo = ucast (kmem_mem s1 (cur_at it De_name_length_lo));
           let nameln = (if get32 (sb_at (fs_sb fs) Req_features) s1 AND FS_EXT2_SB_RWFEATURE_DIRS_HAVE_TYPE_FIELD = 0
                         then lo OR push_bit 8 (ucast (kmem_mem s1 (cur_at it De_type_byte))) else lo :: u16);
           if dirent_gap (get16 (cur_at it De_entry_sz) s1) nameln \<ge> DIRENT_SZ_WO_NAME + n
           then do { s2 \<leftarrow> split_entry fs it de_in dir nameln de_inode de_name type s1; Some (s2, True) }
           else occupy_loop fs it de_in dir de_inode de_name type s1
         }
       }
     }"

declare occupy_loop.simps [code]

definition fs_ext2_occupy_vacant_dirent ::
  "('x, 'y) fs_handle_scheme \<Rightarrow> addr \<Rightarrow> addr \<Rightarrow> u32 \<Rightarrow> u32 \<Rightarrow> addr \<Rightarrow> int \<Rightarrow> 'x kmem_scheme \<Rightarrow>
    ('x kmem_scheme \<times> int) option" where
  "fs_ext2_occupy_vacant_dirent fs sp dir dir_num de_inode de_name type s =
     do {
       let it = sp;
       let de_in = sp + of_nat sizeof_dit;
       let (hooks, drive, sb, bt) = (fs_hooks fs, fs_drive fs, fs_sb fs, fs_bt fs);
       (s1, it_buf) \<leftarrow> kmalloc hooks (ucast (blocksize sb s)) s;
       s2 \<leftarrow> fs_ext2_iterate_dir_start drive sb dir it it_buf s1;
       (s3, found) \<leftarrow> occupy_loop fs it de_in dir de_inode de_name type s2;
       if found then do { s4 \<leftarrow> kfree it_buf s3; Some (s4, 1) }
       else do {
         (s4, ptr) \<leftarrow> fs_ext2_get_inode_pointer drive sb dir (get32 (it_at it It_blki) s3) (get64 (it_at it It_blkbuf) s3) s3;
         new_blk_grp \<leftarrow> udiv ptr (get32 (sb_at sb Blocks_per_group) s4);
         (s5, new_blk) \<leftarrow> fs_ext2_find_unalloc_block hooks drive sb bt new_blk_grp s4;
         if new_blk = 0 then Some (s5, 0)
         else do {
           s6 \<leftarrow> fs_ext2_mark_alloc_block hooks drive sb bt new_blk s5;
           (s7, _) \<leftarrow> fs_ext2_write_inode_block_pointer hooks drive sb bt dir dir_num (get32 (it_at it It_blki) s6) new_blk s6;
           s8 \<leftarrow> fs_ext2_write_inode hooks drive sb bt dir_num dir (inode_grow dir (ucast (blocksize sb s7)) s7);
           let s9 = put8 (dirent_at it_buf De_type_byte) (fs_ext2_type_fs2ext2_typebyte type)
                      (put32 (dirent_at it_buf De_inode_num) de_inode s8);
           let s10 = put16 (dirent_at it_buf De_entry_sz) (ucast (blocksize sb s9)) s9;
           n \<leftarrow> strlen_s de_name s10;
           let (s11, de_nameln) = set_dirent_nameln sb (ucast n) it_buf s10;
           n \<leftarrow> strlen_s de_name s11;
           s12 \<leftarrow> memcpy_s (it_buf + DIRENT_SZ_WO_NAME) de_name n s11;
           (s13, _) \<leftarrow> fs_ext2_write_inode_data drive sb dir (get32 (it_at it It_blki) s12) (get64 (it_at it It_blkbuf) s12) s12;
           s14 \<leftarrow> kfree it_buf s13;
           Some (s14, 1)
         }
       }
     }"

end
