(* ===== verification/Ext2_ops.thy ===== *)
theory Ext2_ops
  imports Ext2_files
begin

unbundle bit_operations_syntax

text \<open>
  The functions that \<^verbatim>\<open>fs_ext2_gfs_init\<close> enters into a file system (\<^verbatim>\<open>fs/ext2.c\<close>), and the scan of
  \<^verbatim>\<open>fs/fs.c\<close> that calls it.
\<close>

section \<open>Creating files\<close>

definition inode_groups :: "('x, 'y) fs_handle_scheme \<Rightarrow> u32 \<Rightarrow> 'x kmem_scheme \<Rightarrow> u32 option" where
  "inode_groups fs num s = udiv (num - 1) (get32 (sb_at (fs_sb fs) Inodes_per_group) s)"

text \<open>The inode of a new file.\<close>

definition new_inode :: "('x, 'y) fs_handle_scheme \<Rightarrow> addr \<Rightarrow> int \<Rightarrow> 'x kmem_scheme \<Rightarrow> 'x kmem_scheme option" where
  "new_inode fs ino type s =
     do {
       s1 \<leftarrow> memset_s ino 0 (of_nat sizeof_inode) s;
       let s2 = put16 (inode_at ino Type_perms) FS_EXT2_INODE_PERM_EVERYTHING s1;
       let s3 = put16 (inode_at ino Type_perms) (get16 (inode_at ino Type_perms) s2 OR fs_ext2_type_fs2ext2_inode type) s2;
       Some (if type = FS_CREATE_TYPE_DIR
             then put32 (inode_at ino Sector_cnt) (blocksectors (fs_sb fs) s3) (put16 (inode_at ino Hard_links) 2 s3)
             else put16 (inode_at ino Hard_links) 1 s3)
     }"

text \<open>The entries \<^verbatim>\<open>.\<close> and \<^verbatim>\<open>..\<close> of a new directory.\<close>

definition dot_entries ::
  "('x, 'y) fs_handle_scheme \<Rightarrow> addr \<Rightarrow> addr \<Rightarrow> addr \<Rightarrow> u32 \<Rightarrow> int \<Rightarrow> 'x kmem_scheme \<Rightarrow> ('x kmem_scheme \<times> int) option" where
  "dot_entries fs sp lits de_inode de_inode_num type s =
     do {
       let s1 = put_lit (lits + 2) [0x2E, 0x2E] (put_lit lits [0x2E] s);
       (s2, r) \<leftarrow> fs_ext2_occupy_vacant_dirent fs sp de_inode de_inode_num de_inode_num lits type s1;
       if r = 0 then Some (s2, FS_ERR_NO_SPACE)
       else do {
         (s3, r) \<leftarrow> fs_ext2_occupy_vacant_dirent fs sp de_inode de_inode_num de_inode_num (lits + 2) type s2;
         Some (s3, if r = 0 then FS_ERR_NO_SPACE else 0)
       }
     }"

definition fs_ext2_create ::
  "'x fs_handle \<Rightarrow> addr \<Rightarrow> addr \<Rightarrow> int \<Rightarrow> 'x kmem_scheme \<Rightarrow> ('x kmem_scheme \<times> int) option" where
  "fs_ext2_create fs sp path type s =
     do {
       let fnode = sp;
       let de_inode = sp + of_nat sizeof_inode;
       let lits = de_inode + of_nat sizeof_inode;
       let frame = lits + 5;
       let (hooks, drive, sb, bt) = (fs_hooks fs, fs_drive fs, fs_sb fs, fs_bt fs);
       n \<leftarrow> strlen_s path s;
       (s1, path_buf) \<leftarrow> kmalloc hooks (n + 1) s;
       (s2, de_name) \<leftarrow> fs_ext2_sep_fname_and_dir path path_buf s1;
       if kmem_mem s2 de_name = 0 then Some (s2, FS_ERR_INVALID_FILENAME)
       else do {
         (s3, res) \<leftarrow> fs_ext2_find_final_inode fs frame path_buf fnode s2;
         s4 \<leftarrow> kfree path_buf s3;
         case res of
           Inl err \<Rightarrow> Some (s4, err)
         | Inr fnode_num \<Rightarrow> do {
             grp \<leftarrow> inode_groups fs fnode_num s4;
             (s5, de_inode_num) \<leftarrow> fs_ext2_find_unalloc_inode hooks drive sb bt grp s4;
             if de_inode_num = 0 then Some (s5, FS_ERR_NO_SPACE)
             else do {
               s6 \<leftarrow> new_inode fs de_inode type s5;
               s7 \<leftarrow> fs_ext2_mark_alloc_inode hooks drive sb bt de_inode_num s6;
               s8 \<leftarrow> fs_ext2_write_inode hooks drive sb bt de_inode_num de_inode s7;
               (s9, r) \<leftarrow> fs_ext2_occupy_vacant_dirent fs frame fnode fnode_num de_inode_num de_name type s8;
               if r = 0 then Some (s9, FS_ERR_NO_SPACE)
               else do {
                 let s10 = put16 (inode_at fnode Hard_links) (get16 (inode_at fnode Hard_links) s9 + 1) s9;
                 s11 \<leftarrow> fs_ext2_write_inode hooks drive sb bt fnode_num fnode s10;
                 if type = FS_CREATE_TYPE_DIR then dot_entries fs frame lits de_inode de_inode_num type s11
                 else Some (s11, 0)
               }
             }
           }
       }
     }"

section \<open>Removing files\<close>

text \<open>An entry of the file is joined to the entry before it in the block.\<close>

definition join_entry ::
  "('x, 'y) fs_handle_scheme \<Rightarrow> addr \<Rightarrow> addr \<Rightarrow> addr \<Rightarrow> 'x kmem_scheme \<Rightarrow> 'x kmem_scheme option" where
  "join_entry fs dir it it_prev s =
     do {
       let prev_esz = get16 (cur_at it_prev De_entry_sz) s;
       let s1 = put16 (cur_at it_prev De_entry_sz) (prev_esz + get16 (cur_at it De_entry_sz) s) s;
       s2 \<leftarrow> memcpy_s (get64 (it_at it_prev It_blkbuf) s1 + ucast (get32 (it_at it_prev It_byteaddr) s1) - ucast prev_esz)
               (it_at it_prev It_cur) DIRENT_SZ_WO_NAME s1;
       (s3, _) \<leftarrow> fs_ext2_write_inode_data (fs_drive fs) (fs_sb fs) dir (get32 (it_at it_prev It_blki) s2)
                   (get64 (it_at it_prev It_blkbuf) s2) s2;
       Some s3
     }"

text \<open>An entry of the file with none before it is marked as free; a block that it fills is given back.\<close>

definition free_entry ::
  "('x, 'y) fs_handle_scheme \<Rightarrow> addr \<Rightarrow> u32 \<Rightarrow> addr \<Rightarrow> 'x kmem_scheme \<Rightarrow> 'x kmem_scheme option" where
  "free_entry fs dir dir_num it s =
     do {
       let (hooks, drive, sb, bt) = (fs_hooks fs, fs_drive fs, fs_sb fs, fs_bt fs);
       let s1 = put32 (cur_at it De_inode_num) 0 s;
       s2 \<leftarrow> memcpy_s (get64 (it_at it It_blkbuf) s1 + ucast (get32 (it_at it It_byteaddr) s1)
                        - ucast (get16 (cur_at it De_entry_sz) s1))
               (it_at it It_cur) DIRENT_SZ_WO_NAME s1;
       (s3, _) \<leftarrow> fs_ext2_write_inode_data drive sb dir (get32 (it_at it It_blki) s2) (get64 (it_at it It_blkbuf) s2) s2;
       (s4, tbuf) \<leftarrow> kmalloc hooks (ucast (blocksize sb s3)) s3;
       (s5, last) \<leftarrow> (if ucast (get16 (cur_at it De_entry_sz) s4) = blocksize sb s4
                     then do {
                       (s5, ptr) \<leftarrow> fs_ext2_get_inode_pointer drive sb dir (get32 (it_at it It_blki) s4 + 1) tbuf s4;
                       Some (s5, ptr = 0)
                     } else Some (s4, False));
       s6 \<leftarrow> (if last then do {
               (s6, ptr) \<leftarrow> fs_ext2_get_inode_pointer drive sb dir (get32 (it_at it It_blki) s5) tbuf s5;
               s7 \<leftarrow> fs_ext2_mark_unalloc_block hooks drive sb bt ptr s6;
               (s8, _) \<leftarrow> fs_ext2_write_inode_block_pointer hooks drive sb bt dir dir_num (get32 (it_at it It_blki) s7) 0 s7;
               Some s8
             } else Some s5);
       kfree tbuf s6
     }"

partial_function (option) remove_loop ::
  "('x, 'y) fs_handle_scheme \<Rightarrow> addr \<Rightarrow> u32 \<Rightarrow> u32 \<Rightarrow> addr \<Rightarrow> addr \<Rightarrow> 'x kmem_scheme \<Rightarrow> 'x kmem_scheme option" where
  "remove_loop fs dir dir_num de_inode it it_prev s =
     do {
       (s1, r) \<leftarrow> fs_ext2_iterate_dir_next (fs_drive fs) (fs_sb fs) it s;
       if r = 0 then Some s1
       else if get32 (cur_at it De_inode_num) s1 = de_inode then
         if kmem_mem s1 (it_at it_prev It_is_valid) \<noteq> 0 \<and> get32 (it_at it_prev It_blki) s1 = get32 (it_at it It_blki) s1
         then do {
           s2 \<leftarrow> join_entry fs dir it it_prev s1;
           remove_loop fs dir dir_num de_inode it it_prev s2
         }
         else do {
           s2 \<leftarrow> free_entry fs dir dir_num it s1;
           remove_loop fs dir dir_num de_inode it it_prev (assign_struct it_prev it sizeof_dit s2)
         }
       else remove_loop fs dir dir_num de_inode it it_prev (assign_struct it_prev it sizeof_dit s1)
     }"

declare remove_loop.simps [code]

definition fs_ext2_remove_dirent ::
  "('x, 'y) fs_handle_scheme \<Rightarrow> addr \<Rightarrow> addr \<Rightarrow> u32 \<Rightarrow> u32 \<Rightarrow> 'x kmem_scheme \<Rightarrow> 'x kmem_scheme option" where
  "fs_ext2_remove_dirent fs sp dir dir_num de_inode s =
     do {
       let it = sp;
       let it_prev = sp + of_nat sizeof_dit;
       let s1 = put8 (it_at it_prev It_is_valid) 0 s;
       (s2, it_buf) \<leftarrow> kmalloc (fs_hooks fs) (ucast (blocksize (fs_sb fs) s1)) s1;
       s3 \<leftarrow> fs_ext2_iterate_dir_start (fs_drive fs) (fs_sb fs) dir it it_buf s2;
       s4 \<leftarrow> remove_loop fs dir dir_num de_inode it it_prev s3;
       kfree it_buf s4
     }"

partial_function (option) free_blocks ::
  "('x, 'y) fs_handle_scheme \<Rightarrow> addr \<Rightarrow> addr \<Rightarrow> u32 \<Rightarrow> 'x kmem_scheme \<Rightarrow> 'x kmem_scheme option" where
  "free_blocks fs file it_buf blki s =
     do {
       (s1, ptr) \<leftarrow> fs_ext2_get_inode_pointer (fs_drive fs) (fs_sb fs) file blki it_buf s;
       if ptr = 0 then Some s1
       else do {
         s2 \<leftarrow> fs_ext2_mark_unalloc_block (fs_hooks fs) (fs_drive fs) (fs_sb fs) (fs_bt fs) ptr s1;
         free_blocks fs file it_buf (blki + 1) s2
       }
     }"

declare free_blocks.simps [code]

definition fs_ext2_free_file :: "('x, 'y) fs_handle_scheme \<Rightarrow> addr \<Rightarrow> u32 \<Rightarrow> 'x kmem_scheme \<Rightarrow> 'x kmem_scheme option" where
  "fs_ext2_free_file fs file file_num s =
     do {
       (s1, it_buf) \<leftarrow> kmalloc (fs_hooks fs) (ucast (blocksize (fs_sb fs) s)) s;
       s2 \<leftarrow> free_blocks fs file it_buf 0 s1;
       s3 \<leftarrow> fs_ext2_mark_unalloc_inode (fs_hooks fs) (fs_drive fs) (fs_sb fs) (fs_bt fs) file_num s2;
       kfree it_buf s3
     }"

definition fs_ext2_unlink ::
  "'x fs_handle \<Rightarrow> addr \<Rightarrow> addr \<Rightarrow> 'x kmem_scheme \<Rightarrow> ('x kmem_scheme \<times> int) option" where
  "fs_ext2_unlink fs sp path s =
     do {
       let fnode = sp;
       let dirnode = sp + of_nat sizeof_inode;
       let frame = dirnode + of_nat sizeof_inode;
       let (hooks, drive, sb, bt) = (fs_hooks fs, fs_drive fs, fs_sb fs, fs_bt fs);
       (s1, res) \<leftarrow> fs_ext2_find_final_inode fs frame path fnode s;
       case res of
         Inl err \<Rightarrow> Some (s1, err)
       | Inr fnode_num \<Rightarrow> do {
           n \<leftarrow> strlen_s path s1;
           (s2, path_buf) \<leftarrow> kmalloc hooks (n + 1) s1;
           (s3, _) \<leftarrow> fs_ext2_sep_fname_and_dir path path_buf s2;
           (s4, res) \<leftarrow> fs_ext2_find_final_inode fs frame path_buf dirnode s3;
           s5 \<leftarrow> kfree path_buf s4;
           case res of
             Inl err \<Rightarrow> Some (s5, err)
           | Inr dirnode_num \<Rightarrow> do {
               s6 \<leftarrow> fs_ext2_remove_dirent fs frame dirnode dirnode_num fnode_num s5;
               let s7 = put16 (inode_at dirnode Hard_links) (get16 (inode_at dirnode Hard_links) s6 - 1) s6;
               s8 \<leftarrow> fs_ext2_write_inode hooks drive sb bt dirnode_num dirnode s7;
               let s9 = put16 (inode_at fnode Hard_links) (get16 (inode_at fnode Hard_links) s8 - 1) s8;
               let links = get16 (inode_at fnode Hard_links) s9;
               s10 \<leftarrow> (if links = 0 \<or> get16 (inode_at fnode Type_perms) s9 AND FS_EXT2_INODE_TYPE_DIR \<noteq> 0 \<and> links = 1
                      then fs_ext2_free_file fs fnode fnode_num s9
                      else fs_ext2_write_inode hooks drive sb bt fnode_num fnode s9);
               Some (s10, 0)
             }
         }
     }"

definition fs_ext2_rename ::
  "'x fs_handle \<Rightarrow> addr \<Rightarrow> addr \<Rightarrow> addr \<Rightarrow> 'x kmem_scheme \<Rightarrow> ('x kmem_scheme \<times> int) option" where
  "fs_ext2_rename fs sp old new s =
     do {
       let old_dir_node = sp;
       let new_dir_node = sp + of_nat sizeof_inode;
       let fnode = new_dir_node + of_nat sizeof_inode;
       let frame = fnode + of_nat sizeof_inode;
       n \<leftarrow> strlen_s old s;
       (s1, old_buf) \<leftarrow> kmalloc (fs_hooks fs) (n + 1) s;
       n \<leftarrow> strlen_s new s1;
       (s2, new_buf) \<leftarrow> kmalloc (fs_hooks fs) (n + 1) s1;
       (s3, _) \<leftarrow> fs_ext2_sep_fname_and_dir old old_buf s2;
       (s4, new_fname) \<leftarrow> fs_ext2_sep_fname_and_dir new new_buf s3;
       (s5, res) \<leftarrow> fs_ext2_find_final_inode fs frame old_buf old_dir_node s4;
       s6 \<leftarrow> kfree old_buf s5;
       case res of
         Inl err \<Rightarrow> do { s7 \<leftarrow> kfree new_buf s6; Some (s7, err) }
       | Inr old_dir_num \<Rightarrow> do {
           (s7, res) \<leftarrow> fs_ext2_find_final_inode fs frame new_buf new_dir_node s6;
           case res of
             Inl err \<Rightarrow> do { s8 \<leftarrow> kfree new_buf s7; Some (s8, err) }
           | Inr new_dir_num \<Rightarrow> do {
               (s8, res) \<leftarrow> fs_ext2_find_final_inode fs frame old fnode s7;
               case res of
                 Inl err \<Rightarrow> do { s9 \<leftarrow> kfree new_buf s8; Some (s9, err) }
               | Inr fnode_num \<Rightarrow> do {
                   s9 \<leftarrow> fs_ext2_remove_dirent fs frame old_dir_node old_dir_num fnode_num s8;
                   (s10, r) \<leftarrow> fs_ext2_occupy_vacant_dirent fs frame new_dir_node new_dir_num fnode_num new_fname
                               (fs_ext2_type_ext22fs_inode (get16 (inode_at fnode Type_perms) s9)) s9;
                   s11 \<leftarrow> kfree new_buf s10;
                   Some (s11, if r = 0 then FS_ERR_NO_SPACE else 0)
                 }
             }
         }
     }"

section \<open>Open files\<close>

text \<open>Number of blocks before the first one that is not allocated.\<close>

partial_function (option) count_blocks ::
  "'x drive_ops \<Rightarrow> addr \<Rightarrow> addr \<Rightarrow> addr \<Rightarrow> u32 \<Rightarrow> 'x kmem_scheme \<Rightarrow> ('x kmem_scheme \<times> u32) option" where
  "count_blocks drive sb ino buf blki s =
     do {
       (s1, ptr) \<leftarrow> fs_ext2_get_inode_pointer drive sb ino blki buf s;
       if ptr = 0 then Some (s1, blki) else count_blocks drive sb ino buf (blki + 1) s1
     }"

declare count_blocks.simps [code]

partial_function (option) drop_blocks ::
  "('x, 'y) fs_handle_scheme \<Rightarrow> addr \<Rightarrow> u32 \<Rightarrow> 'x kmem_scheme \<Rightarrow> 'x kmem_scheme option" where
  "drop_blocks fs fd blki s =
     do {
       let (hooks, drive, sb, bt) = (fs_hooks fs, fs_drive fs, fs_sb fs, fs_bt fs);
       (s1, ptr) \<leftarrow> fs_ext2_get_inode_pointer drive sb (get64 (fd_at fd Fd_inode) s) blki (get64 (fd_at fd Fd_blkbuf) s) s;
       if ptr = 0 then Some s1
       else do {
         (s2, _) \<leftarrow> fs_ext2_write_inode_block_pointer hooks drive sb bt (get64 (fd_at fd Fd_inode) s1)
                     (get32 (fd_at fd Fd_inode_num) s1) blki 0 s1;
         s3 \<leftarrow> fs_ext2_mark_unalloc_block hooks drive sb bt ptr s2;
         drop_blocks fs fd (blki + 1) s3
       }
     }"

declare drop_blocks.simps [code]

text \<open>The part of \<^verbatim>\<open>fs_ext2_open\<close> that looks the file up and creates it if it may.\<close>

definition open_inode ::
  "'x fs_handle \<Rightarrow> addr \<Rightarrow> addr \<Rightarrow> addr \<Rightarrow> int \<Rightarrow> 'x kmem_scheme \<Rightarrow> ('x kmem_scheme \<times> int) option" where
  "open_inode fs sp fd path flags s =
     do {
       let store_num = (\<lambda>r s. case r of Inl _ \<Rightarrow> s | Inr num \<Rightarrow> put32 (fd_at fd Fd_inode_num) num s);
       (s1, res) \<leftarrow> fs_ext2_find_final_inode fs sp path (get64 (fd_at fd Fd_inode) s) s;
       case res of
         Inr num \<Rightarrow> Some (store_num res s1, 0)
       | Inl err \<Rightarrow>
           if err = FS_ERR_DOESNT_EXIST \<and> flags AND FS_OPEN_CREATE \<noteq> 0 \<and> flags AND FS_OPEN_WRITE \<noteq> 0
           then do {
             (s2, err) \<leftarrow> fs_ext2_create fs sp path FS_CREATE_TYPE_FILE s1;
             if err \<noteq> 0 then do { s3 \<leftarrow> kfree (get64 (fd_at fd Fd_inode) s2) s2; Some (s3, err) }
             else do {
               (s3, res) \<leftarrow> fs_ext2_find_final_inode fs sp path (get64 (fd_at fd Fd_inode) s2) s2;
               case res of
                 Inr num \<Rightarrow> Some (store_num res s3, 0)
               | Inl err \<Rightarrow> do { s4 \<leftarrow> kfree (get64 (fd_at fd Fd_inode) s3) s3; Some (s4, err) }
             }
           }
           else do { s2 \<leftarrow> kfree (get64 (fd_at fd Fd_inode) s1) s1; Some (s2, err) }
     }"

definition fs_ext2_open ::
  "'x fs_handle \<Rightarrow> addr \<Rightarrow> addr \<Rightarrow> addr \<Rightarrow> int \<Rightarrow> 'x kmem_scheme \<Rightarrow> ('x kmem_scheme \<times> int) option" where
  "fs_ext2_open fs sp fd path flags s =
     do {
       let (hooks, drive, sb, bt) = (fs_hooks fs, fs_drive fs, fs_sb fs, fs_bt fs);
       let inode = get64 (fd_at fd Fd_inode);
       let blkbuf = get64 (fd_at fd Fd_blkbuf);
       let s1 = put8 (fd_at fd Fd_is_buf_init) 0 s;
       (s2, p) \<leftarrow> kmalloc hooks (ucast (get16 (sb_at sb Inode_size) s1)) s1;
       (s3, err) \<leftarrow> open_inode fs sp fd path flags (put64 (fd_at fd Fd_inode) p s2);
       if err \<noteq> 0 then Some (s3, err)
       else do {
         (s4, p) \<leftarrow> kmalloc hooks (ucast (blocksize sb s3)) s3;
         let s5 = put64 (fd_at fd Fd_blkbuf) p s4;
         s6 \<leftarrow> (if flags AND FS_OPEN_RECREATE \<noteq> 0 \<and> flags AND FS_OPEN_WRITE \<noteq> 0 then do {
                 t \<leftarrow> drop_blocks fs fd 0 s5;
                 let t1 = inode_set_size (inode t) 0 t;
                 fs_ext2_write_inode hooks drive sb bt (get32 (fd_at fd Fd_inode_num) t1) (inode t1) t1
               } else Some s5);
         let s7 = put8 (fd_at fd Fd_is_blk_valid) 1 s6;
         if flags AND FS_OPEN_ENDPTR \<noteq> 0 then do {
           (s8, blki) \<leftarrow> count_blocks drive sb (inode s7) (blkbuf s7) 0 s7;
           let s9 = (if blki = 0 then put8 (fd_at fd Fd_is_blk_valid) 0 s8 else s8);
           let s10 = put32 (fd_at fd Fd_blki) (if blki = 0 then 0 else blki - 1) s9;
           let s11 = put32 (fd_at fd Fd_byteaddr) (ucast (inode_get_size (inode s10) s10 mod ucast (blocksize sb s10))) s10;
           if blocksize sb s10 = 0 then None
           else Some (if get32 (fd_at fd Fd_byteaddr) s11 = 0 then put8 (fd_at fd Fd_is_blk_valid) 0 s11 else s11, 0)
         }
         else do {
           let s8 = put32 (fd_at fd Fd_byteaddr) 0 (put32 (fd_at fd Fd_blki) 0 s7);
           (s9, ptr) \<leftarrow> fs_ext2_get_inode_pointer drive sb (inode s8) 0 (blkbuf s8) s8;
           Some (if ptr = 0 then put8 (fd_at fd Fd_is_blk_valid) 0 s9 else s9, 0)
         }
       }
     }"

definition fs_ext2_close :: "'x fs_handle \<Rightarrow> addr \<Rightarrow> 'x kmem_scheme \<Rightarrow> 'x kmem_scheme option" where
  "fs_ext2_close fs fd s =
     do { s1 \<leftarrow> kfree (get64 (fd_at fd Fd_blkbuf) s) s; kfree (get64 (fd_at fd Fd_inode) s1) s1 }"

definition fs_ext2_get_size :: "'x fs_handle \<Rightarrow> addr \<Rightarrow> 'x kmem_scheme \<Rightarrow> u64" where
  "fs_ext2_get_size fs fd s = inode_get_size (get64 (fd_at fd Fd_inode) s) s"

text \<open>The place that a seek by \<open>offset\<close> from place \<open>bytes\<close> leads to, in a file of size \<open>sz\<close>.\<close>

definition seek_target :: "u64 \<Rightarrow> u32 \<Rightarrow> u64 \<Rightarrow> u32" where
  "seek_target sz bytes offset =
     (let off =
        (if 0 < sint offset then
           let o1 = (if uint bytes > 0xFFFFFFFF - sint offset then ucast (0xFFFFFFFF - bytes) else offset)
           in if ucast bytes > sz - o1 then sz - ucast bytes else o1
         else if sint offset < 0 then
           if ucast (- offset) > bytes then ucast (- bytes) else offset
         else offset)
      in ucast (ucast bytes + off))"

definition fs_ext2_seek :: "'x fs_handle \<Rightarrow> addr \<Rightarrow> u64 \<Rightarrow> int \<Rightarrow> 'x kmem_scheme \<Rightarrow> ('x kmem_scheme \<times> u64) option" where
  "fs_ext2_seek fs fd offset whence s =
     do {
       let sb = fs_sb fs;
       let inode = get64 (fd_at fd Fd_inode);
       (s1, blki, byteaddr) \<leftarrow>
         (if whence AND FS_SEEK_CUR \<noteq> 0 then Some (s, get32 (fd_at fd Fd_blki) s, get32 (fd_at fd Fd_byteaddr) s)
          else if whence AND FS_SEEK_END \<noteq> 0 then do {
            (s1, blki) \<leftarrow> count_blocks (fs_drive fs) sb (inode s) (get64 (fd_at fd Fd_blkbuf) s) 0 s;
            if blocksize sb s1 = 0 then None
            else Some (s1, if blki = 0 then 0 else blki - 1,
                       ucast (inode_get_size (inode s1) s1 mod ucast (blocksize sb s1)))
          }
          else Some (s, 0, 0));
       let bytes = seek_target (inode_get_size (inode s1) s1) (blki * blocksize sb s1 + byteaddr) offset;
       q \<leftarrow> udiv bytes (blocksize sb s1);
       r \<leftarrow> umod bytes (blocksize sb s1);
       Some (put32 (fd_at fd Fd_byteaddr) r (put32 (fd_at fd Fd_blki) q s1), ucast bytes)
     }"

section \<open>Reading and writing\<close>

text \<open>The block of the file that the pointer of the open file is in, read into the buffer.\<close>

definition read_current :: "('x, 'y) fs_handle_scheme \<Rightarrow> addr \<Rightarrow> 'x kmem_scheme \<Rightarrow> ('x kmem_scheme \<times> int) option" where
  "read_current fs fd s =
     fs_ext2_read_inode_data (fs_drive fs) (fs_sb fs) (get64 (fd_at fd Fd_inode) s) (get32 (fd_at fd Fd_blki) s)
       (get64 (fd_at fd Fd_blkbuf) s) s"

definition write_current :: "('x, 'y) fs_handle_scheme \<Rightarrow> addr \<Rightarrow> 'x kmem_scheme \<Rightarrow> 'x kmem_scheme option" where
  "write_current fs fd s =
     do {
       (s1, _) \<leftarrow> fs_ext2_write_inode_data (fs_drive fs) (fs_sb fs) (get64 (fd_at fd Fd_inode) s) (get32 (fd_at fd Fd_blki) s)
                   (get64 (fd_at fd Fd_blkbuf) s) s;
       Some s1
     }"

definition next_block :: "addr \<Rightarrow> 'x kmem_scheme \<Rightarrow> 'x kmem_scheme" where
  "next_block fd s =
     put32 (fd_at fd Fd_byteaddr) 0 (put32 (fd_at fd Fd_blki) (get32 (fd_at fd Fd_blki) s + 1) s)"

definition chunk :: "('x, 'y) fs_handle_scheme \<Rightarrow> addr \<Rightarrow> u64 \<Rightarrow> 'x kmem_scheme \<Rightarrow> u64" where
  "chunk fs fd left s =
     (let rest = ucast (blocksize (fs_sb fs) s - get32 (fd_at fd Fd_byteaddr) s) in if left \<le> rest then left else rest)"

definition advance :: "addr \<Rightarrow> u64 \<Rightarrow> 'x kmem_scheme \<Rightarrow> 'x kmem_scheme" where
  "advance fd n s = put32 (fd_at fd Fd_byteaddr) (ucast (ucast (get32 (fd_at fd Fd_byteaddr) s) + n)) s"

definition blk_pos :: "addr \<Rightarrow> 'x kmem_scheme \<Rightarrow> addr" where
  "blk_pos fd s = get64 (fd_at fd Fd_blkbuf) s + ucast (get32 (fd_at fd Fd_byteaddr) s)"

partial_function (option) read_loop ::
  "('x, 'y) fs_handle_scheme \<Rightarrow> addr \<Rightarrow> addr \<Rightarrow> u64 \<Rightarrow> u64 \<Rightarrow> 'x kmem_scheme \<Rightarrow> ('x kmem_scheme \<times> u64) option" where
  "read_loop fs fd buf count left s =
     (if left = 0 then Some (s, count)
      else if kmem_mem s (fd_at fd Fd_is_blk_valid) = 0 then Some (s, count - left)
      else do {
        (s1, r) \<leftarrow> (if get32 (fd_at fd Fd_byteaddr) s = blocksize (fs_sb fs) s
                   then read_current fs fd (next_block fd s) else Some (s, 1));
        if r = 0 then read_loop fs fd buf count left (put8 (fd_at fd Fd_is_blk_valid) 0 s1)
        else do {
          let n = chunk fs fd left s1;
          s2 \<leftarrow> memcpy_s buf (blk_pos fd s1) n s1;
          read_loop fs fd (buf + n) count (left - n) (advance fd n s2)
        }
      })"

declare read_loop.simps [code]

definition fs_ext2_read ::
  "'x fs_handle \<Rightarrow> addr \<Rightarrow> addr \<Rightarrow> u64 \<Rightarrow> 'x kmem_scheme \<Rightarrow> ('x kmem_scheme \<times> u64) option" where
  "fs_ext2_read fs fd buf count s =
     do {
       let bytes = get32 (fd_at fd Fd_blki) s * blocksize (fs_sb fs) s + get32 (fd_at fd Fd_byteaddr) s;
       let rest = inode_get_size (get64 (fd_at fd Fd_inode) s) s - ucast bytes;
       let count1 = (if count > rest then rest else count);
       (s1, r) \<leftarrow> (if kmem_mem s (fd_at fd Fd_is_buf_init) = 0 then read_current fs fd s else Some (s, 1));
       if r = 0 then Some (put8 (fd_at fd Fd_is_blk_valid) 0 s1, 0)
       else read_loop fs fd buf count1 count1 s1
     }"

text \<open>A block for a place of the file that has none yet; the result says whether there was one.\<close>

definition alloc_current :: "('x, 'y) fs_handle_scheme \<Rightarrow> addr \<Rightarrow> 'x kmem_scheme \<Rightarrow> ('x kmem_scheme \<times> bool) option" where
  "alloc_current fs fd s =
     do {
       let (hooks, drive, sb, bt) = (fs_hooks fs, fs_drive fs, fs_sb fs, fs_bt fs);
       grp \<leftarrow> inode_groups fs (get32 (fd_at fd Fd_inode_num) s) s;
       (s1, new_ptr) \<leftarrow> fs_ext2_find_unalloc_block hooks drive sb bt grp s;
       if new_ptr = - 1 then Some (s1, False)
       else do {
         s2 \<leftarrow> fs_ext2_mark_alloc_block hooks drive sb bt new_ptr s1;
         (s3, _) \<leftarrow> fs_ext2_write_inode_block_pointer hooks drive sb bt (get64 (fd_at fd Fd_inode) s2)
                     (get32 (fd_at fd Fd_inode_num) s2) (get32 (fd_at fd Fd_blki) s2) new_ptr s2;
         Some (put8 (fd_at fd Fd_is_blk_valid) 1 s3, True)
       }
     }"

definition store_grown_inode :: "('x, 'y) fs_handle_scheme \<Rightarrow> addr \<Rightarrow> u64 \<Rightarrow> 'x kmem_scheme \<Rightarrow> 'x kmem_scheme option" where
  "store_grown_inode fs fd n s =
     do {
       let s1 = inode_grow (get64 (fd_at fd Fd_inode) s) n s;
       fs_ext2_write_inode (fs_hooks fs) (fs_drive fs) (fs_sb fs) (fs_bt fs) (get32 (fd_at fd Fd_inode_num) s1)
         (get64 (fd_at fd Fd_inode) s1) s1
     }"

text \<open>The loop of \<^verbatim>\<open>fs_ext2_write\<close>; it has a value when the function returns from within.\<close>

partial_function (option) write_loop ::
  "('x, 'y) fs_handle_scheme \<Rightarrow> addr \<Rightarrow> addr \<Rightarrow> u64 \<Rightarrow> u64 \<Rightarrow> 'x kmem_scheme \<Rightarrow> ('x kmem_scheme \<times> u64 option) option" where
  "write_loop fs fd buf count left s =
     (if left = 0 then Some (s, None)
      else do {
        (s1, ok) \<leftarrow> (if kmem_mem s (fd_at fd Fd_is_blk_valid) = 0 then alloc_current fs fd s else Some (s, True));
        if \<not> ok then do { s2 \<leftarrow> store_grown_inode fs fd (count - left) s1; Some (s2, Some (count - left)) }
        else do {
          (s2, r) \<leftarrow> (if get32 (fd_at fd Fd_byteaddr) s1 = blocksize (fs_sb fs) s1
                     then do { t \<leftarrow> write_current fs fd s1; read_current fs fd (next_block fd t) } else Some (s1, 1));
          if r = 0 then write_loop fs fd buf count left (put8 (fd_at fd Fd_is_blk_valid) 0 s2)
          else do {
            let n = chunk fs fd left s2;
            s3 \<leftarrow> memcpy_s (blk_pos fd s2) buf n s2;
            write_loop fs fd (buf + n) count (left - n) (advance fd n s3)
          }
        }
      })"

declare write_loop.simps [code]

definition fs_ext2_write ::
  "'x fs_handle \<Rightarrow> addr \<Rightarrow> addr \<Rightarrow> u64 \<Rightarrow> 'x kmem_scheme \<Rightarrow> ('x kmem_scheme \<times> u64) option" where
  "fs_ext2_write fs fd buf count s =
     do {
       (s1, early) \<leftarrow> write_loop fs fd buf count count s;
       case early of
         Some n \<Rightarrow> Some (s1, n)
       | None \<Rightarrow> do {
           s2 \<leftarrow> write_current fs fd s1;
           s3 \<leftarrow> store_grown_inode fs fd count s2;
           Some (s3, count)
         }
     }"

section \<open>Listing a directory\<close>

definition fs_ext2_dir_iter_start ::
  "'x fs_handle \<Rightarrow> addr \<Rightarrow> addr \<Rightarrow> addr \<Rightarrow> 'x kmem_scheme \<Rightarrow> ('x kmem_scheme \<times> int) option" where
  "fs_ext2_dir_iter_start fs sp it path s =
     do {
       let it_inode = sp;
       (s1, res) \<leftarrow> fs_ext2_find_final_inode fs (sp + of_nat sizeof_inode) path it_inode s;
       case res of
         Inl err \<Rightarrow> Some (s1, err)
       | Inr num \<Rightarrow> do {
           (s2, it_buf) \<leftarrow> kmalloc (fs_hooks fs) (ucast (blocksize (fs_sb fs) s1)) s1;
           s3 \<leftarrow> fs_ext2_iterate_dir_start (fs_drive fs) (fs_sb fs) it_inode it it_buf s2;
           Some (s3, 0)
         }
     }"

definition dent_type :: "addr \<Rightarrow> addr \<Rightarrow> 'x kmem_scheme \<Rightarrow> int" where
  "dent_type sb it s =
     (if get32 (sb_at sb Req_features) s AND FS_EXT2_SB_RWFEATURE_DIRS_HAVE_TYPE_FIELD \<noteq> 0
      then fs_ext2_type_ext22fs_inode (ucast (kmem_mem s (cur_at it De_type_byte)))
      else FS_CREATE_TYPE_UNKNOWN)"

definition fs_ext2_dir_iter_next ::
  "'x fs_handle \<Rightarrow> addr \<Rightarrow> addr \<Rightarrow> 'x kmem_scheme \<Rightarrow> ('x kmem_scheme \<times> int) option" where
  "fs_ext2_dir_iter_next fs it dent s =
     do {
       (s1, ret) \<leftarrow> fs_ext2_iterate_dir_next (fs_drive fs) (fs_sb fs) it s;
       (m, _) \<leftarrow> strncpy (kmem_mem s1) (get64 (dent_at dent Dent_name) s1) (cur_at it De_name) (get64 (dent_at dent Dent_name_max) s1);
       let s2 = s1\<lparr>kmem_mem := m\<rparr>;
       let s3 = put32 (dent_at dent Dent_type) (of_int (dent_type (fs_sb fs) it s2)) s2;
       if ret = 0 then do { s4 \<leftarrow> kfree (get64 (it_at it It_blkbuf) s3) s3; Some (s4, ret) }
       else Some (s3, ret)
     }"

section \<open>Detecting the file system\<close>

definition fs_ext2_gfs_detect :: "'x drive_ops \<Rightarrow> addr \<Rightarrow> 'x kmem_scheme \<Rightarrow> ('x kmem_scheme \<times> int) option" where
  "fs_ext2_gfs_detect drive sp s =
     do {
       let sb = sp;
       s1 \<leftarrow> fs_ext2_read_sb drive (sp + of_nat sizeof_sb) sb (put16 (sb_at sb Ext2_sig) 0 s);
       Some (s1, if get16 (sb_at sb Ext2_sig) s1 = 0xEF53 then 1 else 0)
     }"

definition fs_ext2_gfs_init ::
  "'x map_hooks \<Rightarrow> 'x drive_ops \<Rightarrow> addr \<Rightarrow> 'x kmem_scheme \<Rightarrow> ('x kmem_scheme \<times> 'x file_system) option" where
  "fs_ext2_gfs_init hooks drive sp s =
     do {
       (s1, gdat) \<leftarrow> kmalloc hooks (of_nat sizeof_gdata) s;
       let h = \<lparr>fs_hooks = hooks, fs_drive = drive, fs_gdata = gdat\<rparr>;
       let sb = fs_sb h;
       let bt = fs_bt h;
       s2 \<leftarrow> fs_ext2_read_sb drive sp sb s1;
       total \<leftarrow> blockgroups_total sb s2;
       (s3, groups) \<leftarrow> kmalloc hooks (ucast total * of_nat sizeof_blkgrp) s2;
       total \<leftarrow> blockgroups_total sb s3;
       let s4 = put32 (bt_at bt Bt_length) total (put64 (bt_at bt Bt_groups) groups s3);
       s5 \<leftarrow> fs_ext2_read_blkgrp_table hooks drive sb bt s4;
       Some (s5, \<lparr>fs_hooks = hooks, fs_drive = drive, fs_gdata = gdat, fs_name = ''ext2'',
         fd_size = of_nat sizeof_fd, dit_size = of_nat sizeof_dit,
         fs_create = fs_ext2_create, fs_unlink = fs_ext2_unlink, fs_rename = fs_ext2_rename, fs_open = fs_ext2_open,
         fs_close = fs_ext2_close, fs_get_size = fs_ext2_get_size, fs_seek = fs_ext2_seek, fs_read = fs_ext2_read,
         fs_write = fs_ext2_write, dir_iter_start = fs_ext2_dir_iter_start, dir_iter_next = fs_ext2_dir_iter_next\<rparr>)
     }"

text \<open>The result has no file system when the name is set to \<^verbatim>\<open>none\<close> and nothing else is initialised.\<close>

definition fs_scan ::
  "'x map_hooks \<Rightarrow> 'x drive_ops \<Rightarrow> addr \<Rightarrow> 'x kmem_scheme \<Rightarrow> ('x kmem_scheme \<times> 'x file_system option) option" where
  "fs_scan hooks drive sp s =
     do {
       (s1, r) \<leftarrow> fs_ext2_gfs_detect drive sp s;
       if r \<noteq> 0 then do { (s2, fs) \<leftarrow> fs_ext2_gfs_init hooks drive sp s1; Some (s2, Some fs) }
       else Some (s1, None)
     }"

end
