(* ===== verification/File_read.thy ===== *)
theory File_read
  imports Ext2_ops Ext2_disk
begin

unbundle bit_operations_syntax

text \<open>
  Reading an open file: \<^verbatim>\<open>fs_ext2_read\<close> of \<^verbatim>\<open>fs/ext2.c\<close> against the bytes of the file, which the reference
  of \<^theory_text>\<open>Ext2_disk\<close> finds on the disk, for every drive with the contract \<open>block_drive\<close>.
\<close>

section \<open>Stores to fields\<close>

lemma get32_put32_same [simp]: "get32 a (put32 a v s) = v"
  by (simp add: get32_def put32_def load32_store32_same)

lemma get32_put32_other: "ranges_disjoint a 4 b 4 \<Longrightarrow> get32 b (put32 a v s) = get32 b s"
  by (simp add: get32_def put32_def load32_store32_disjoint)

lemma put32_mem: "\<not> in_range a 4 x \<Longrightarrow> kmem_mem (put32 a v s) x = kmem_mem s x"
  by (simp add: put32_def store32_other)

lemma put32_more [simp]: "kmem.more (put32 a v s) = kmem.more s"
  by (cases s) (simp add: put32_def)

lemma put8_more [simp]: "kmem.more (put8 a v s) = kmem.more s"
  by (cases s) (simp add: put8_def)

lemma put8_mem [simp]: "kmem_mem (put8 a v s) = (kmem_mem s)(a := v)"
  by (simp add: put8_def)

text \<open>The parts of a state other than its memory.\<close>

definition rest_of :: "'x kmem_scheme \<Rightarrow> addr \<times> u32 \<times> 'x" where
  "rest_of s = (occupied_to s, kmem_spinlock s, kmem.more s)"

lemma rest_of_put [simp]:
  "rest_of (put8 a b s) = rest_of s" "rest_of (put32 a w s) = rest_of s" "rest_of (put64 a v s) = rest_of s"
  "rest_of (s\<lparr>kmem_mem := m\<rparr>) = rest_of s"
  by (cases s, simp add: rest_of_def put8_def put32_def put64_def)+

lemma rest_of_eq: "rest_of s' = rest_of s \<Longrightarrow> s' = s\<lparr>kmem_mem := kmem_mem s'\<rparr>"
  by (cases s; cases s') (simp add: rest_of_def)

lemma get32_cong: "(\<And>x. in_range a 4 x \<Longrightarrow> kmem_mem s' x = kmem_mem s x) \<Longrightarrow> get32 a s' = get32 a s"
  unfolding get32_def by (rule load32_cong)

lemma get64_cong: "(\<And>x. in_range a 8 x \<Longrightarrow> kmem_mem s' x = kmem_mem s x) \<Longrightarrow> get64 a s' = get64 a s"
  unfolding get64_def by (rule load64_cong)

lemma memcpy_s_copied:
  "ranges_disjoint d (unat n) a (unat n) \<Longrightarrow> memcpy_s d a n s = Some (s\<lparr>kmem_mem := copied (kmem_mem s) d a (unat n)\<rparr>)"
  by (simp add: memcpy_s_def memcpy_copied)

section \<open>Open files\<close>

lemma fd_offsets:
  "fd_at fd Fd_inode_num = fd" "fd_at fd Fd_inode = fd + 8" "fd_at fd Fd_blkbuf = fd + 16" "fd_at fd Fd_blki = fd + 24"
  "fd_at fd Fd_byteaddr = fd + 28" "fd_at fd Fd_is_blk_valid = fd + 32" "fd_at fd Fd_is_buf_init = fd + 33"
  by (simp_all add: fd_at_def fd_layout_def pad_def)

text \<open>The fields that reading moves, and the bytes it may change: these, the block buffer and the buffer of the caller.\<close>

definition touched :: "addr \<Rightarrow> addr \<Rightarrow> nat \<Rightarrow> addr \<Rightarrow> nat \<Rightarrow> addr \<Rightarrow> bool" where
  "touched fd bbuf k buf n x \<longleftrightarrow> in_range (fd + 24) 9 x \<or> in_range bbuf (512 * k) x \<or> in_range buf n x"

definition apart_from_fd :: "('x, 'y) fs_handle_scheme \<Rightarrow> addr \<Rightarrow> addr \<Rightarrow> addr \<Rightarrow> nat \<Rightarrow> bool" where
  "apart_from_fd fs fd ino buf n \<longleftrightarrow>
     ranges_disjoint buf n fd 40 \<and> ranges_disjoint buf n ino 128 \<and> ranges_disjoint buf n (sb_at (fs_sb fs) Block_logsz) 4"

definition open_file :: "('x, 'y) fs_handle_scheme \<Rightarrow> addr \<Rightarrow> addr \<Rightarrow> addr \<Rightarrow> nat \<Rightarrow> 'x kmem_scheme \<Rightarrow> bool" where
  "open_file fs fd ino bbuf k s \<longleftrightarrow>
     geom (fs_sb fs) k s \<and> get64 (fd_at fd Fd_inode) s = ino \<and> get64 (fd_at fd Fd_blkbuf) s = bbuf \<and>
     kmem_mem s (fd_at fd Fd_is_buf_init) = 0 \<and> apart_from_fd fs fd ino bbuf (512 * k) \<and>
     ranges_disjoint fd 40 ino 128 \<and> ranges_disjoint fd 40 (sb_at (fs_sb fs) Block_logsz) 4"

text \<open>Byte \<open>p\<close> of the file, and its size.\<close>

definition file_byte :: "(nat \<Rightarrow> u8) \<Rightarrow> nat \<Rightarrow> addr \<Rightarrow> 'x kmem_scheme \<Rightarrow> nat \<Rightarrow> u8" where
  "file_byte D k ino s p =
     D (512 * k * unat (file_block D k ino (of_nat (p div (512 * k))) s) + p mod (512 * k))"

text \<open>All blocks up to the size \<open>sz\<close> are allocated and within the range of sector numbers.\<close>

definition blocks_ok :: "(nat \<Rightarrow> u8) \<Rightarrow> nat \<Rightarrow> addr \<Rightarrow> nat \<Rightarrow> 'x kmem_scheme \<Rightarrow> bool" where
  "blocks_ok D k ino sz s \<longleftrightarrow> ptrs_ok D k ino s \<and> sz < 2 ^ 32 \<and>
     (\<forall>j. 512 * k * j < sz \<longrightarrow> j < 12 + 128 * k + 128 * k * (128 * k) \<and> file_block D k ino (of_nat j) s \<noteq> 0 \<and>
        unat (file_block D k ino (of_nat j) s) * k < 2 ^ 32)"

lemma fd_range: "in_range (fd + of_nat j) n x \<Longrightarrow> j + n \<le> 40 \<Longrightarrow> in_range fd 40 x"
  using in_range_inner [of fd j n x 40] by simp

lemma touched_fd: "in_range (fd + 24) 9 x \<Longrightarrow> in_range fd 40 x"
  using fd_range [of fd 24 9 x] by simp

lemma ranges_disjoint_notin: "ranges_disjoint a n b k \<Longrightarrow> in_range b k x \<Longrightarrow> \<not> in_range a n x"
  using ranges_disjoint_not_both by blast

lemma ino_field_in: "offset_from 0 inode_layout f + n \<le> 128 \<Longrightarrow> in_range (inode_at ino f) n x \<Longrightarrow> in_range ino 128 x"
  unfolding inode_at_def by (erule in_range_inner) simp_all

lemma file_block_agree:
  assumes "\<And>x. in_range ino 128 x \<Longrightarrow> kmem_mem s' x = kmem_mem s x"
  shows "file_block D k ino b s' = file_block D k ino b s" "ptrs_ok D k ino s' = ptrs_ok D k ino s"
    "inode_get_size ino s' = inode_get_size ino s"
proof -
  have f: "get32 (inode_at ino f) s' = get32 (inode_at ino f) s" if "f \<in> {Sibp, Dibp, Size_lo, Size_hi}" for f
    using that by (intro get32_cong assms ino_field_in [of f 4]) (auto simp: inode_layout_def pad_def)
  have d: "get32 (dbp_at ino (of_nat j)) s' = get32 (dbp_at ino (of_nat j)) s" if "j < 12" for j
  proof (rule get32_cong, rule assms)
    fix x
    assume x: "in_range (dbp_at ino (of_nat j)) 4 x"
    have "ucast (of_nat j :: u32) = (of_nat j :: u64)"
      using that unat_of_nat_32 [of j] unat_of_nat_64 [of j] by (simp add: word_unat_eq_iff unat_ucast_up)
    then have "dbp_at ino (of_nat j) = ino + of_nat (40 + 4 * j)"
      by (simp add: dbp_at_def inode_at_def inode_layout_def pad_def add.assoc)
    with x that show "in_range ino 128 x" using in_range_inner [of ino "40 + 4 * j" 4 x 128] by simp
  qed
  show "inode_get_size ino s' = inode_get_size ino s" by (simp add: inode_get_size_def f)
  show "file_block D k ino b s' = file_block D k ino b s" using d [of "unat b"] by (simp add: file_block_def block_ref_def f Let_def)
  show "ptrs_ok D k ino s' = ptrs_ok D k ino s" by (simp add: ptrs_ok_def f)
qed

lemma open_frame:
  assumes op: "open_file fs fd ino bbuf k s" and ap: "apart_from_fd fs fd ino buf n"
    and fr: "\<And>x. \<not> touched fd bbuf k buf n x \<Longrightarrow> kmem_mem s' x = kmem_mem s x"
  shows "open_file fs fd ino bbuf k s'" "file_block D k ino b s' = file_block D k ino b s"
    "file_byte D k ino s' p = file_byte D k ino s p"
    "blocks_ok D k ino sz s' = blocks_ok D k ino sz s" "inode_get_size ino s' = inode_get_size ino s"
    "blocksize (fs_sb fs) s' = blocksize (fs_sb fs) s"
proof -
  note dj = op [unfolded open_file_def apart_from_fd_def] ap [unfolded apart_from_fd_def]
  have ino: "kmem_mem s' x = kmem_mem s x" if "in_range ino 128 x" for x
  proof (rule fr)
    show "\<not> touched fd bbuf k buf n x"
      using that dj ranges_disjoint_notin touched_fd unfolding touched_def by blast
  qed
  have sb: "kmem_mem s' x = kmem_mem s x" if "in_range (sb_at (fs_sb fs) Block_logsz) 4 x" for x
  proof (rule fr)
    show "\<not> touched fd bbuf k buf n x"
      using that dj ranges_disjoint_notin touched_fd unfolding touched_def by blast
  qed
  have fd: "kmem_mem s' x = kmem_mem s x" if "in_range fd 40 x" "\<not> in_range (fd + 24) 9 x" for x
  proof (rule fr)
    show "\<not> touched fd bbuf k buf n x"
      using that dj ranges_disjoint_notin unfolding touched_def by blast
  qed
  show "file_block D k ino b s' = file_block D k ino b s" "file_byte D k ino s' p = file_byte D k ino s p"
    "blocks_ok D k ino sz s' = blocks_ok D k ino sz s" "inode_get_size ino s' = inode_get_size ino s"
    using file_block_agree [OF ino] by (simp_all add: file_byte_def blocks_ok_def)
  show "blocksize (fs_sb fs) s' = blocksize (fs_sb fs) s" using geom_cong(1) sb by blast
  have g: "geom (fs_sb fs) k s'" using geom_cong(3) [of "fs_sb fs" s' s k] sb dj(1) by blast
  have low: "\<not> in_range (fd + 24) 9 x" if "in_range fd 24 x" for x
    using that ranges_disjoint_notin [of fd 24 "fd + 24" 9 x] by (auto simp: ranges_disjoint_def)
  have "get64 (fd_at fd f) s' = get64 (fd_at fd f) s" if "f \<in> {Fd_inode, Fd_blkbuf}" for f
  proof (rule get64_cong)
    fix x
    assume x: "in_range (fd_at fd f) 8 x"
    have "in_range fd 24 x"
      using that x in_range_inner [of fd 8 8 x 24] in_range_inner [of fd 16 8 x 24] by (auto simp: fd_offsets)
    then show "kmem_mem s' x = kmem_mem s x" using fd low in_range_mono [of fd 24 x 40] by simp
  qed
  moreover have "kmem_mem s' (fd_at fd Fd_is_buf_init) = kmem_mem s (fd_at fd Fd_is_buf_init)"
    by (rule fd) (simp_all add: fd_offsets in_range_def)
  ultimately show "open_file fs fd ino bbuf k s'" using g dj(1) by (simp add: open_file_def apart_from_fd_def)
qed

section \<open>The loop over the blocks\<close>

lemma ranges_disjoint_iff: "ranges_disjoint a n b k \<longleftrightarrow> (\<forall>x. \<not> (in_range a n x \<and> in_range b k x))"
proof
  assume "ranges_disjoint a n b k"
  then show "\<forall>x. \<not> (in_range a n x \<and> in_range b k x)" using ranges_disjoint_not_both by blast
next
  assume r: "\<forall>x. \<not> (in_range a n x \<and> in_range b k x)"
  have "n \<le> unat (b - a)" if "0 < k" using r [rule_format, of b] that by (simp add: in_range_def)
  moreover have "k \<le> unat (a - b)" if "0 < n" using r [rule_format, of a] that by (simp add: in_range_def)
  ultimately show "ranges_disjoint a n b k" by (auto simp: ranges_disjoint_def)
qed

lemma ranges_disjoint_inner:
  assumes "ranges_disjoint a n b k" "i + p \<le> n" "j + q \<le> k" "n \<le> 2 ^ 64" "k \<le> 2 ^ 64"
  shows "ranges_disjoint (a + of_nat i) p (b + of_nat j) q"
  using assms(1) in_range_inner [OF _ assms(2,4), of a] in_range_inner [OF _ assms(3,5), of b]
  unfolding ranges_disjoint_iff by blast

lemma apart_inner: "apart_from_fd fs fd ino buf n \<Longrightarrow> i + p \<le> n \<Longrightarrow> n \<le> 2 ^ 64 \<Longrightarrow> apart_from_fd fs fd ino (buf + of_nat i) p"
  using ranges_disjoint_inner [of buf n fd 40 i p 0 40] ranges_disjoint_inner [of buf n ino 128 i p 0 128]
    ranges_disjoint_inner [of buf n "sb_at (fs_sb fs) Block_logsz" 4 i p 0 4]
  by (simp add: apart_from_fd_def)

lemma apart_head: "apart_from_fd fs fd ino buf n \<Longrightarrow> p \<le> n \<Longrightarrow> n \<le> 2 ^ 64 \<Longrightarrow> apart_from_fd fs fd ino buf p"
  using apart_inner [of fs fd ino buf n 0 p] by simp

text \<open>The pointer is in block \<open>b\<close> at byte \<open>a\<close>, and the buffer holds this block.\<close>

definition at_page ::
  "('x, 'y) fs_handle_scheme \<Rightarrow> addr \<Rightarrow> addr \<Rightarrow> addr \<Rightarrow> nat \<Rightarrow> (nat \<Rightarrow> u8) \<Rightarrow> nat \<Rightarrow> nat \<Rightarrow> 'x kmem_scheme \<Rightarrow> bool" where
  "at_page fs fd ino bbuf k D b a s \<longleftrightarrow>
     open_file fs fd ino bbuf k s \<and> unat (get32 (fd_at fd Fd_blki) s) = b \<and> unat (get32 (fd_at fd Fd_byteaddr) s) = a \<and>
     a \<le> 512 * k \<and> kmem_mem s (fd_at fd Fd_is_blk_valid) \<noteq> 0 \<and>
     (\<forall>i < 512 * k. kmem_mem s (bbuf + of_nat i) = file_byte D k ino s (512 * k * b + i))"

lemma fd_part: "j + n \<le> 40 \<Longrightarrow> in_range (fd + of_nat j) n x \<Longrightarrow> ranges_disjoint buf m fd 40 \<Longrightarrow> \<not> in_range buf m x"
  using fd_range ranges_disjoint_notin by blast

lemma fd_fields_apart:
  assumes "ranges_disjoint buf n fd 40"
  shows "ranges_disjoint buf n (fd + 24) 4" "ranges_disjoint buf n (fd + 28) 4" "\<not> in_range buf n (fd + 32)"
  using fd_part [of 24 4 fd _ buf n] fd_part [of 28 4 fd _ buf n] fd_part [of 32 1 fd "fd + 32" buf n] assms
  by (auto simp: ranges_disjoint_iff in_range_def)

lemma fd_field_disjoint: "ranges_disjoint (fd + 28) 4 (fd + 24) 4" "ranges_disjoint (fd + 24) 4 (fd + 28) 4"
  by (simp_all add: ranges_disjoint_def)

lemma advance_mem: "\<not> in_range (fd + 24) 9 x \<Longrightarrow> kmem_mem (advance fd n s) x = kmem_mem s x"
proof -
  assume "\<not> in_range (fd + 24) 9 x"
  then have "\<not> in_range (fd + 28) 4 x" using in_range_inner [of "fd + 24" 4 4 x 9] by (auto simp: add.assoc)
  then show ?thesis by (simp add: advance_def fd_offsets put32_mem)
qed

lemma copied_frame: "\<not> in_range d n x \<Longrightarrow> kmem_mem (s\<lparr>kmem_mem := copied (kmem_mem s) d a n\<rparr>) x = kmem_mem s x"
  by (simp add: copied_def)

lemma get32_copied: "ranges_disjoint d n a 4 \<Longrightarrow> get32 a (s\<lparr>kmem_mem := copied (kmem_mem s) d b n\<rparr>) = get32 a s"
  by (rule get32_cong) (auto simp: copied_def dest: ranges_disjoint_notin)

text \<open>One chunk.\<close>

lemma copy_step:
  assumes pg: "at_page fs fd ino bbuf k D b a s" and "a < 512 * k" "0 < unat left"
    and ap: "apart_from_fd fs fd ino buf (unat left)" and bb: "ranges_disjoint buf (unat left) bbuf (512 * k)"
    and n: "n = min (unat left) (512 * k - a)"
  obtains s' where "chunk fs fd left s = of_nat n" "memcpy_s buf (blk_pos fd s) (of_nat n) s = Some s'"
    "at_page fs fd ino bbuf k D b (a + n) (advance fd (of_nat n) s')"
    "\<And>x. \<not> touched fd bbuf k buf n x \<Longrightarrow> kmem_mem (advance fd (of_nat n) s') x = kmem_mem s x"
    "\<And>i. i < n \<Longrightarrow> kmem_mem (advance fd (of_nat n) s') (buf + of_nat i) = file_byte D k ino s (512 * k * b + a + i)"
    "rest_of (advance fd (of_nat n) s') = rest_of s"
proof -
  have op: "open_file fs fd ino bbuf k s" and ba: "unat (get32 (fd_at fd Fd_blki) s) = b" "unat (get32 (fd_at fd Fd_byteaddr) s) = a"
    and v: "kmem_mem s (fd_at fd Fd_is_blk_valid) \<noteq> 0"
    and page: "\<And>i. i < 512 * k \<Longrightarrow> kmem_mem s (bbuf + of_nat i) = file_byte D k ino s (512 * k * b + i)"
    using pg by (simp_all add: at_page_def)
  have g: "unat (blocksize (fs_sb fs) s) = 512 * k" "k < 65536" and bp: "get64 (fd_at fd Fd_blkbuf) s = bbuf"
    and bfd: "ranges_disjoint bbuf (512 * k) fd 40"
    using op by (simp_all add: open_file_def geom_def apart_from_fd_def)
  have le: "n \<le> unat left" "a + n \<le> 512 * k" "n < 2 ^ 64" "unat left \<le> 2 ^ 64" using n assms(2) g(2) unat_lt_2p64 [of left] by simp_all
  have un: "unat (of_nat n :: u64) = n" using le(3) by (rule unat_of_nat_64)
  have "get32 (fd_at fd Fd_byteaddr) s \<le> blocksize (fs_sb fs) s" using ba(2) g(1) assms(2) by (simp add: word_le_nat_alt)
  then have rest: "unat (ucast (blocksize (fs_sb fs) s - get32 (fd_at fd Fd_byteaddr) s) :: u64) = 512 * k - a"
    using ba(2) g(1) by (simp add: unat_ucast_up unat_sub)
  then have ch: "chunk fs fd left s = of_nat n"
    using g(2) unat_of_nat_64 [of "512 * k - a"] by (simp add: chunk_def Let_def word_le_nat_alt n min_def word_unat_eq_iff)
  have "ucast (get32 (fd_at fd Fd_byteaddr) s) = (of_nat a :: u64)"
    using ba(2) assms(2) g(2) unat_of_nat_64 [of a] by (simp add: word_unat_eq_iff unat_ucast_up)
  then have pos: "blk_pos fd s = bbuf + of_nat a" by (simp add: blk_pos_def bp)
  have apn: "apart_from_fd fs fd ino buf n" using apart_head [OF ap le(1,4)] .
  have bbn: "ranges_disjoint buf n bbuf (512 * k)"
    using ranges_disjoint_inner [OF bb, of 0 n 0 "512 * k"] le(1,4) g(2) by simp
  have "ranges_disjoint buf n (bbuf + of_nat a) n"
    using ranges_disjoint_inner [OF bbn, of 0 n a n] le g(2) by simp
  then have cp: "memcpy_s buf (blk_pos fd s) (of_nat n) s = Some (s\<lparr>kmem_mem := copied (kmem_mem s) buf (bbuf + of_nat a) n\<rparr>)"
    using memcpy_s_copied [of buf "of_nat n" "bbuf + of_nat a" s] by (simp add: pos un)
  let ?s = "s\<lparr>kmem_mem := copied (kmem_mem s) buf (bbuf + of_nat a) n\<rparr>" and ?t = "advance fd (of_nat n) (s\<lparr>kmem_mem := copied (kmem_mem s) buf (bbuf + of_nat a) n\<rparr>)"
  have fr: "kmem_mem ?t x = kmem_mem s x" if "\<not> in_range (fd + 24) 9 x" "\<not> in_range buf n x" for x
    using that advance_mem copied_frame by metis
  have fr': "kmem_mem ?t x = kmem_mem s x" if "\<not> touched fd bbuf k buf n x" for x
    using fr that by (simp add: touched_def)
  note of = open_frame [OF op apn fr']
  have bfn: "ranges_disjoint buf n fd 40" using apn by (simp add: apart_from_fd_def)
  note fa = fd_fields_apart [OF bfn]
  have b1: "get32 (fd + 24) ?s = get32 (fd + 24) s" "get32 (fd + 28) ?s = get32 (fd + 28) s" by (rule get32_copied, rule fa)+
  have b2: "get32 (fd_at fd Fd_blki) ?t = get32 (fd_at fd Fd_blki) s"
    using b1(1) fd_field_disjoint by (simp add: advance_def fd_offsets get32_put32_other)
  have "unat (ucast (ucast (get32 (fd + 28) s) + of_nat n :: u64) :: u32) = a + n"
  proof -
    have "unat (ucast (get32 (fd + 28) s) + of_nat n :: u64) = a + n"
      using ba(2) le(2) g(2) by (subst unat_plus_nowrap) (simp_all add: unat_ucast_up un fd_offsets)
    then show ?thesis using le(2) g(2) by (simp add: unat_ucast_down)
  qed
  then have b3: "unat (get32 (fd_at fd Fd_byteaddr) ?t) = a + n" by (simp add: advance_def fd_offsets b1(2))
  have b4: "kmem_mem ?t (fd_at fd Fd_is_blk_valid) = kmem_mem s (fd_at fd Fd_is_blk_valid)"
    using fa(3) by (simp add: advance_def fd_offsets put32_mem in_range_def copied_def)
  have inb: "in_range bbuf (512 * k) (bbuf + of_nat i)" if "i < 512 * k" for i
    using that g(2) unat_of_nat_64 [of i] by (simp add: in_range_def)
  have b5: "kmem_mem ?t (bbuf + of_nat i) = kmem_mem s (bbuf + of_nat i)" if "i < 512 * k" for i
    using inb [OF that] bbn bfd touched_fd ranges_disjoint_notin ranges_disjoint_not_both by (intro fr) blast+
  have pg': "at_page fs fd ino bbuf k D b (a + n) ?t"
    using of(1,3) b2 b3 b4 b5 ba v le(2) page by (simp add: at_page_def)
  moreover have "kmem_mem ?t (buf + of_nat i) = file_byte D k ino s (512 * k * b + a + i)" if i: "i < n" for i
  proof -
    have inbuf: "in_range buf n (buf + of_nat i)" using i le(3) unat_of_nat_64 [of i] by (simp add: in_range_def)
    then have "\<not> in_range (fd + 24) 9 (buf + of_nat i)" using bfn touched_fd ranges_disjoint_not_both by blast
    then have "kmem_mem ?t (buf + of_nat i) = kmem_mem s (bbuf + of_nat a + of_nat i)"
      using inbuf by (simp add: advance_mem copied_def)
    also have "\<dots> = kmem_mem s (bbuf + of_nat (a + i))" by (simp add: add.assoc)
    also have "\<dots> = file_byte D k ino s (512 * k * b + (a + i))" using i le(2) by (intro page) simp
    finally show ?thesis by (simp add: add.assoc)
  qed
  moreover have "rest_of ?t = rest_of s" by (simp add: advance_def)
  ultimately show thesis using that ch cp fr' by blast
qed

lemma next_block_mem: "\<not> in_range (fd + 24) 9 x \<Longrightarrow> kmem_mem (next_block fd s) x = kmem_mem s x"
proof -
  assume "\<not> in_range (fd + 24) 9 x"
  then have "\<not> in_range (fd + 24) 4 x" "\<not> in_range (fd + 28) 4 x"
    using in_range_inner [of "fd + 24" 4 4 x 9] in_range_mono [of "fd + 24" 4 x 9] by (auto simp: add.assoc)
  then show ?thesis by (simp add: next_block_def fd_offsets put32_mem)
qed

lemma next_block_fields:
  "get32 (fd_at fd Fd_blki) (next_block fd s) = get32 (fd_at fd Fd_blki) s + 1" "get32 (fd_at fd Fd_byteaddr) (next_block fd s) = 0"
  "kmem_mem (next_block fd s) (fd_at fd Fd_is_blk_valid) = kmem_mem s (fd_at fd Fd_is_blk_valid)"
  "rest_of (next_block fd s) = rest_of s"
  by (simp_all add: next_block_def fd_offsets get32_put32_other fd_field_disjoint put32_mem in_range_def)

context mem_drive
begin

lemma rest_frame:
  assumes "rest_of s' = rest_of s"
  shows "ok s' = ok s" "dsk s' = dsk s"
  using mem_frame [where s = s and m = "kmem_mem s'"] rest_of_eq [OF assms] by simp_all

text \<open>Reading the block that the pointer is in.\<close>

lemma read_current_page:
  assumes "fs_drive fs = drv" "ok s" "open_file fs fd ino bbuf k s" "blocks_ok (dsk s) k ino sz s"
    and b: "unat (get32 (fd_at fd Fd_blki) s) = b" "512 * k * b < sz"
    and a: "unat (get32 (fd_at fd Fd_byteaddr) s) = a" "a \<le> 512 * k" "kmem_mem s (fd_at fd Fd_is_blk_valid) \<noteq> 0"
  obtains s' where "read_current fs fd s = Some (s', 1)" "ok s'" "dsk s' = dsk s"
    "at_page fs fd ino bbuf k (dsk s) b a s'" "\<And>x. \<not> in_range bbuf (512 * k) x \<Longrightarrow> kmem_mem s' x = kmem_mem s x"
proof -
  let ?bl = "get32 (fd_at fd Fd_blki) s"
  have bl: "?bl = of_nat b" by (simp add: b(1) [symmetric])
  have op: "geom (fs_sb fs) k s" "get64 (fd_at fd Fd_inode) s = ino" "get64 (fd_at fd Fd_blkbuf) s = bbuf"
    and bfd: "ranges_disjoint bbuf (512 * k) fd 40" and bsb: "ranges_disjoint bbuf (512 * k) (sb_at (fs_sb fs) Block_logsz) 4"
    using assms(3) by (simp_all add: open_file_def apart_from_fd_def)
  have blk: "ptrs_ok (dsk s) k ino s" "unat ?bl < 12 + 128 * k + 128 * k * (128 * k)"
    "file_block (dsk s) k ino ?bl s \<noteq> 0" "unat (file_block (dsk s) k ino ?bl s) * k < 2 ^ 32"
    using assms(4) b bl by (auto simp: blocks_ok_def)
  have k: "0 < k" "k < 65536" using op(1) by (simp_all add: geom_def)
  obtain s' where s': "fs_ext2_read_inode_data drv (fs_sb fs) ino ?bl bbuf s = Some (s', 1)" "ok s'" "dsk s' = dsk s"
    "\<And>x. \<not> in_range bbuf (512 * k) x \<Longrightarrow> kmem_mem s' x = kmem_mem s x"
    "\<And>i. i < 512 * k \<Longrightarrow> kmem_mem s' (bbuf + of_nat i) = dsk s (512 * k * unat (file_block (dsk s) k ino ?bl s) + i)"
    using read_inode_data_ref [OF assms(2) op(1) blk(1,2) bsb blk(4)] blk(3) by auto
  have ap: "apart_from_fd fs fd ino bbuf 0" by (simp add: apart_from_fd_def ranges_disjoint_def)
  have fr: "kmem_mem s' x = kmem_mem s x" if "\<not> touched fd bbuf k bbuf 0 x" for x
    using that s'(4) by (simp add: touched_def)
  note of = open_frame [OF assms(3) ap fr]
  note fa = fd_fields_apart [OF bfd]
  have f: "get32 (fd + 24) s' = get32 (fd + 24) s" "get32 (fd + 28) s' = get32 (fd + 28) s" "kmem_mem s' (fd + 32) = kmem_mem s (fd + 32)"
    using fa s'(4) ranges_disjoint_notin by (blast intro: get32_cong)+
  have "file_byte (dsk s) k ino s (512 * k * b + i) = dsk s (512 * k * unat (file_block (dsk s) k ino ?bl s) + i)"
    if "i < 512 * k" for i
    using that k by (simp add: file_byte_def bl)
  then have "at_page fs fd ino bbuf k (dsk s) b a s'"
    using of(1,3) f b(1) a s'(5) by (simp add: at_page_def fd_offsets)
  with s' op(2,3) assms(1) show thesis by (intro that [of s']) (simp_all add: read_current_def)
qed

lemma turn_page:
  assumes "fs_drive fs = drv" "ok s" "at_page fs fd ino bbuf k (dsk s) b (512 * k) s" "blocks_ok (dsk s) k ino sz s"
    and "512 * k * (b + 1) < sz"
  obtains s' where "read_current fs fd (next_block fd s) = Some (s', 1)" "ok s'" "dsk s' = dsk s"
    "at_page fs fd ino bbuf k (dsk s) (b + 1) 0 s'"
    "\<And>x. \<not> touched fd bbuf k bbuf 0 x \<Longrightarrow> kmem_mem s' x = kmem_mem s x"
proof -
  let ?s = "next_block fd s"
  have op: "open_file fs fd ino bbuf k s" and b: "unat (get32 (fd_at fd Fd_blki) s) = b" and k: "0 < k"
    and v: "kmem_mem s (fd_at fd Fd_is_blk_valid) \<noteq> 0"
    using assms(3) by (auto simp: at_page_def open_file_def geom_def)
  have ap: "apart_from_fd fs fd ino bbuf 0" by (simp add: apart_from_fd_def ranges_disjoint_def)
  have fr: "kmem_mem ?s x = kmem_mem s x" if "\<not> touched fd bbuf k bbuf 0 x" for x
    using that unfolding touched_def by (blast intro: next_block_mem)
  note of = open_frame [OF op ap fr]
  have okd: "ok ?s" "dsk ?s = dsk s" using rest_frame [OF next_block_fields(4)] assms(2) by simp_all
  have "1 * (b + 1) \<le> 512 * k * (b + 1)" using k by (intro mult_right_mono) simp_all
  then have "b + 1 \<le> 512 * k * (b + 1)" by simp
  also have "\<dots> < 2 ^ 32" using assms(4,5) by (simp add: blocks_ok_def)
  finally have "unat (get32 (fd_at fd Fd_blki) s + 1) = b + 1" using b by (simp add: unat_word_ariths)
  then have "unat (get32 (fd_at fd Fd_blki) ?s) = b + 1" by (simp add: next_block_fields)
  moreover have "unat (get32 (fd_at fd Fd_byteaddr) ?s) = 0" "kmem_mem ?s (fd_at fd Fd_is_blk_valid) \<noteq> 0"
    using v by (simp_all add: next_block_fields)
  moreover have "blocks_ok (dsk ?s) k ino sz ?s" using assms(4) okd of(4) by simp
  ultimately obtain s' where s': "read_current fs fd ?s = Some (s', 1)" "ok s'" "dsk s' = dsk s"
    "at_page fs fd ino bbuf k (dsk s) (b + 1) 0 s'" "\<And>x. \<not> in_range bbuf (512 * k) x \<Longrightarrow> kmem_mem s' x = kmem_mem ?s x"
    using read_current_page [OF assms(1) okd(1) of(1), where b = "b + 1" and a = 0 and sz = sz] assms(5) okd(2) by auto
  have "kmem_mem s' x = kmem_mem s x" if "\<not> touched fd bbuf k bbuf 0 x" for x
    using that s'(5) fr by (simp add: touched_def)
  with s' that show thesis by blast
qed

text \<open>At most one block is turned before a chunk.\<close>

lemma enter_page:
  assumes "fs_drive fs = drv" "ok s" "at_page fs fd ino bbuf k (dsk s) b a s" "blocks_ok (dsk s) k ino sz s"
    and "512 * k * b + a < sz"
  obtains s' b' a' where
    "(if get32 (fd_at fd Fd_byteaddr) s = blocksize (fs_sb fs) s then read_current fs fd (next_block fd s) else Some (s, 1)) = Some (s', 1)"
    "ok s'" "dsk s' = dsk s" "at_page fs fd ino bbuf k (dsk s) b' a' s'" "a' < 512 * k" "512 * k * b' + a' = 512 * k * b + a"
    "\<And>x. \<not> touched fd bbuf k bbuf 0 x \<Longrightarrow> kmem_mem s' x = kmem_mem s x"
proof -
  have g: "unat (blocksize (fs_sb fs) s) = 512 * k" "0 < k" and a: "unat (get32 (fd_at fd Fd_byteaddr) s) = a" "a \<le> 512 * k"
    using assms(3) by (auto simp: at_page_def open_file_def geom_def)
  then have eq: "(get32 (fd_at fd Fd_byteaddr) s = blocksize (fs_sb fs) s) = (a = 512 * k)" by (simp add: word_unat_eq_iff)
  show thesis
  proof (cases "a = 512 * k")
    case True
    then have lt: "512 * k * (b + 1) < sz" using assms(5) by simp
    obtain s' where "read_current fs fd (next_block fd s) = Some (s', 1)" "ok s'" "dsk s' = dsk s"
      "at_page fs fd ino bbuf k (dsk s) (b + 1) 0 s'" "\<And>x. \<not> touched fd bbuf k bbuf 0 x \<Longrightarrow> kmem_mem s' x = kmem_mem s x"
      using turn_page [OF assms(1,2) assms(3) [unfolded True] assms(4) lt] by metis
    with True g eq show thesis by (intro that [of s' "b + 1" 0]) simp_all
  next
    case False
    with a(2) assms(2,3) eq show thesis by (intro that [of s b a]) simp_all
  qed
qed

lemma read_loop_ref:
  assumes fs: "fs_drive fs = drv" and "ok s" "at_page fs fd ino bbuf k (dsk s) b a s" "blocks_ok (dsk s) k ino sz s"
    and "512 * k * b + a + unat left \<le> sz" "apart_from_fd fs fd ino buf (unat left)"
    and "ranges_disjoint buf (unat left) bbuf (512 * k)" "512 * k * b < sz"
  shows "\<exists>s' b' a'. read_loop fs fd buf count left s = Some (s', count) \<and> ok s' \<and> dsk s' = dsk s \<and>
    at_page fs fd ino bbuf k (dsk s) b' a' s' \<and> 512 * k * b' + a' = 512 * k * b + a + unat left \<and> 512 * k * b' < sz \<and>
    (\<forall>x. \<not> touched fd bbuf k buf (unat left) x \<longrightarrow> kmem_mem s' x = kmem_mem s x) \<and>
    (\<forall>i < unat left. kmem_mem s' (buf + of_nat i) = file_byte (dsk s) k ino s (512 * k * b + a + i))"
  using assms(2-)
proof (induction "unat left" arbitrary: left buf b a s rule: less_induct)
  case less
  note run = read_loop.simps [of fs fd buf count left s]
  show ?case
  proof (cases "left = 0")
    case True
    with less.prems show ?thesis unfolding run by auto
  next
    case False
    then have pos: "0 < unat left" by (simp add: unat_gt_0)
    have l64: "unat left < 2 ^ 64" by (rule unat_lt_2p64)
    have v: "kmem_mem s (fd_at fd Fd_is_blk_valid) \<noteq> 0" and op: "open_file fs fd ino bbuf k s"
      using less.prems(2) by (simp_all add: at_page_def)
    have k: "k < 65536" using op by (simp add: open_file_def geom_def)
    have "512 * k * b + a < sz" using less.prems(4) pos by simp
    from enter_page [OF fs less.prems(1-3) this] obtain s1 b1 a1 where s1:
      "(if get32 (fd_at fd Fd_byteaddr) s = blocksize (fs_sb fs) s then read_current fs fd (next_block fd s) else Some (s, 1)) = Some (s1, 1)"
      "ok s1" "dsk s1 = dsk s" "at_page fs fd ino bbuf k (dsk s) b1 a1 s1" "a1 < 512 * k" "512 * k * b1 + a1 = 512 * k * b + a"
      and fr1: "\<And>x. \<not> touched fd bbuf k bbuf 0 x \<Longrightarrow> kmem_mem s1 x = kmem_mem s x"
      by metis
    have ap0: "apart_from_fd fs fd ino bbuf 0" by (simp add: apart_from_fd_def ranges_disjoint_def)
    note of1 = open_frame [OF op ap0 fr1]
    define n where "n = min (unat left) (512 * k - a1)"
    have n: "0 < n" "n \<le> unat left" "unat (of_nat n :: u64) = n"
      using pos s1(5) l64 unat_of_nat_64 [of n] by (simp_all add: n_def)
    obtain s2 where s2: "chunk fs fd left s1 = of_nat n" "memcpy_s buf (blk_pos fd s1) (of_nat n) s1 = Some s2"
      "at_page fs fd ino bbuf k (dsk s) b1 (a1 + n) (advance fd (of_nat n) s2)"
      and fr2: "\<And>x. \<not> touched fd bbuf k buf n x \<Longrightarrow> kmem_mem (advance fd (of_nat n) s2) x = kmem_mem s1 x"
      and by2: "\<And>i. i < n \<Longrightarrow> kmem_mem (advance fd (of_nat n) s2) (buf + of_nat i) = file_byte (dsk s) k ino s1 (512 * k * b1 + a1 + i)"
      and mo: "rest_of (advance fd (of_nat n) s2) = rest_of s1"
      using copy_step [OF s1(4,5) pos less.prems(5,6) n_def] by metis
    let ?t = "advance fd (of_nat n) s2" and ?l = "left - of_nat n"
    have t: "ok ?t" "dsk ?t = dsk s" using rest_frame [OF mo] s1(2,3) by simp_all
    have l: "unat ?l = unat left - n" using n by (simp add: unat_sub word_le_nat_alt)
    have apn: "apart_from_fd fs fd ino buf n" using apart_head [OF less.prems(5) n(2)] l64 by simp
    have op1: "open_file fs fd ino bbuf k s1" using s1(4) by (simp add: at_page_def)
    note of2 = open_frame [OF op1 apn fr2]
    have bl: "blocks_ok (dsk ?t) k ino sz ?t" using less.prems(3) of1(4) of2(4) t(2) by simp
    have lt: "unat ?l < unat left" using l n pos by simp
    have b1: "512 * k * b1 < sz" using less.prems(4) s1(6) pos by simp
    have sz: "512 * k * b1 + (a1 + n) + unat ?l \<le> sz" using less.prems(4) s1(6) l n(2) by simp
    have ap': "apart_from_fd fs fd ino (buf + of_nat n) (unat ?l)"
      using apart_inner [OF less.prems(5), of n "unat ?l"] l n(2) l64 by simp
    have bb': "ranges_disjoint (buf + of_nat n) (unat ?l) bbuf (512 * k)"
      using ranges_disjoint_inner [OF less.prems(6), of n "unat ?l" 0 "512 * k"] l n(2) l64 k by simp
    obtain s' b' a' where s': "read_loop fs fd (buf + of_nat n) count ?l ?t = Some (s', count)" "ok s'" "dsk s' = dsk s"
      "at_page fs fd ino bbuf k (dsk s) b' a' s'" "512 * k * b' + a' = 512 * k * b1 + (a1 + n) + unat ?l" "512 * k * b' < sz"
      and fr3: "\<And>x. \<not> touched fd bbuf k (buf + of_nat n) (unat ?l) x \<Longrightarrow> kmem_mem s' x = kmem_mem ?t x"
      and by3: "\<And>i. i < unat ?l \<Longrightarrow> kmem_mem s' (buf + of_nat n + of_nat i) = file_byte (dsk s) k ino ?t (512 * k * b1 + (a1 + n) + i)"
      using less.hyps [OF lt t(1) s2(3) [folded t(2)] bl sz ap' bb' b1] t(2) by auto
    have "read_loop fs fd buf count left s = Some (s', count)"
      unfolding run using False v s1(1) s2(1,2) s'(1) by simp
    moreover have "512 * k * b' + a' = 512 * k * b + a + unat left" using s'(5) s1(6) l n(2) by simp
    moreover have "kmem_mem s' x = kmem_mem s x" if "\<not> touched fd bbuf k buf (unat left) x" for x
    proof -
      have r: "\<not> in_range buf n x" "\<not> in_range (buf + of_nat n) (unat ?l) x"
        using that in_range_add [of n "unat ?l" buf x] l n(2) l64 by (auto simp: touched_def)
      with that fr3 fr2 fr1 show ?thesis by (simp add: touched_def range_simps)
    qed
    moreover have "kmem_mem s' (buf + of_nat i) = file_byte (dsk s) k ino s (512 * k * b + a + i)" if i: "i < unat left" for i
    proof (cases "i < n")
      case True
      have ui: "unat (of_nat i :: u64) = i" using i l64 by (intro unat_of_nat_64) simp
      have inb: "in_range buf (unat left) (buf + of_nat i)" using i ui by (simp add: in_range_def)
      have "buf + of_nat i - (buf + of_nat n) = of_nat i - (of_nat n :: u64)" by simp
      then have "unat (buf + of_nat i - (buf + of_nat n)) = 2 ^ 64 - (n - i)"
        using unat_diff_lt [of "of_nat i" "of_nat n"] True ui n(3) by simp
      then have "\<not> in_range (buf + of_nat n) (unat ?l) (buf + of_nat i)" using l l64 n(2) True by (simp add: in_range_def)
      moreover have "\<not> in_range (fd + 24) 9 (buf + of_nat i)" "\<not> in_range bbuf (512 * k) (buf + of_nat i)"
        using inb less.prems(5,6) touched_fd ranges_disjoint_not_both unfolding apart_from_fd_def by blast+
      ultimately have "kmem_mem s' (buf + of_nat i) = kmem_mem ?t (buf + of_nat i)" by (intro fr3) (simp add: touched_def)
      with by2 [OF True] s1(6) of1(3) show ?thesis by simp
    next
      case False
      then obtain j where j: "i = n + j" by (metis le_Suc_ex not_less)
      with i l have jl: "j < unat ?l" by simp
      have "file_byte (dsk s) k ino ?t p = file_byte (dsk s) k ino s p" for p using of2(3) of1(3) by simp
      moreover have "512 * k * b1 + (a1 + n) + j = 512 * k * b + a + i" using s1(6) j by simp
      moreover have "buf + of_nat n + of_nat j = buf + of_nat i" by (simp add: j add.assoc)
      ultimately show ?thesis using by3 [OF jl] by metis
    qed
    ultimately show ?thesis using s'(2-4,6) by blast
  qed
qed

end

section \<open>The whole operation\<close>

text \<open>
  The abstract state of an open file is its contents and a position. The descriptor holds position \<open>pos\<close>
  of a file with \<open>sz\<close> bytes when its block number and byte give it and the block is one of the file.
\<close>

definition file_at ::
  "('x, 'y) fs_handle_scheme \<Rightarrow> addr \<Rightarrow> addr \<Rightarrow> addr \<Rightarrow> nat \<Rightarrow> (nat \<Rightarrow> u8) \<Rightarrow> nat \<Rightarrow> nat \<Rightarrow> 'x kmem_scheme \<Rightarrow> bool" where
  "file_at fs fd ino bbuf k D sz pos s \<longleftrightarrow>
     open_file fs fd ino bbuf k s \<and> blocks_ok D k ino sz s \<and> unat (inode_get_size ino s) = sz \<and>
     kmem_mem s (fd_at fd Fd_is_blk_valid) \<noteq> 0 \<and> unat (get32 (fd_at fd Fd_byteaddr) s) \<le> 512 * k \<and>
     512 * k * unat (get32 (fd_at fd Fd_blki) s) < sz \<and>
     512 * k * unat (get32 (fd_at fd Fd_blki) s) + unat (get32 (fd_at fd Fd_byteaddr) s) = pos \<and> pos \<le> sz"

lemma file_pos_words:
  assumes "file_at fs fd ino bbuf k D sz pos s"
  shows "unat (get32 (fd_at fd Fd_blki) s * blocksize (fs_sb fs) s + get32 (fd_at fd Fd_byteaddr) s) = pos"
    "unat (inode_get_size ino s - ucast (get32 (fd_at fd Fd_blki) s * blocksize (fs_sb fs) s + get32 (fd_at fd Fd_byteaddr) s)) = sz - pos"
proof -
  let ?b = "get32 (fd_at fd Fd_blki) s" and ?a = "get32 (fd_at fd Fd_byteaddr) s" and ?z = "blocksize (fs_sb fs) s"
  have op: "open_file fs fd ino bbuf k s" and bo: "blocks_ok D k ino sz s"
    and pos: "pos \<le> sz" "512 * k * unat ?b + unat ?a = pos" "unat (inode_get_size ino s) = sz"
    using assms by (simp_all add: file_at_def)
  have z: "unat ?z = 512 * k" using op by (simp add: open_file_def geom_def)
  have "sz < 2 ^ 32" using bo by (simp add: blocks_ok_def)
  note sz = this pos
  have "unat ?b * unat ?z + unat ?a = pos" using sz(3) by (simp add: z mult.commute)
  moreover have lt: "pos < 2 ^ 32" using sz by simp
  ultimately have "unat (?b * ?z) = unat ?b * unat ?z" "unat (?b * ?z + ?a) = pos"
    by (auto simp: unat_word_ariths)
  then show "unat (?b * ?z + ?a) = pos" by simp
  then have "unat (ucast (?b * ?z + ?a) :: u64) = pos" by (simp add: unat_ucast_up)
  with sz show "unat (inode_get_size ino s - ucast (?b * ?z + ?a)) = sz - pos" by (subst unat_sub) (simp_all add: word_le_nat_alt)
qed

context mem_drive
begin

lemma read_ref:
  assumes fs: "fs_drive fs = drv" and ok: "ok s" and fl: "file_at fs fd ino bbuf k (dsk s) sz pos s"
    and n: "n = min (unat count) (sz - pos)"
    and ap: "apart_from_fd fs fd ino buf n" "ranges_disjoint buf n bbuf (512 * k)"
  shows "\<exists>s'. fs_ext2_read fs fd buf count s = Some (s', of_nat n) \<and> ok s' \<and> dsk s' = dsk s \<and>
    file_at fs fd ino bbuf k (dsk s) sz (pos + n) s' \<and>
    (\<forall>p. file_byte (dsk s) k ino s' p = file_byte (dsk s) k ino s p) \<and>
    (\<forall>x. \<not> touched fd bbuf k buf n x \<longrightarrow> kmem_mem s' x = kmem_mem s x) \<and>
    (\<forall>i < n. kmem_mem s' (buf + of_nat i) = file_byte (dsk s) k ino s (pos + i))"
proof -
  define b a where "b = unat (get32 (fd_at fd Fd_blki) s)" and "a = unat (get32 (fd_at fd Fd_byteaddr) s)"
  have op: "open_file fs fd ino bbuf k s" and bo: "blocks_ok (dsk s) k ino sz s" and size: "unat (inode_get_size ino s) = sz"
    and v: "kmem_mem s (fd_at fd Fd_is_blk_valid) \<noteq> 0"
    and pos: "a \<le> 512 * k" "512 * k * b < sz" "512 * k * b + a = pos" "pos \<le> sz"
    using fl by (simp_all add: file_at_def a_def b_def)
  have ni: "get64 (fd_at fd Fd_inode) s = ino" "kmem_mem s (fd_at fd Fd_is_buf_init) = 0" and k: "k < 65536"
    using op by (simp_all add: open_file_def geom_def)
  obtain s1 where s1: "read_current fs fd s = Some (s1, 1)" "ok s1" "dsk s1 = dsk s"
    "at_page fs fd ino bbuf k (dsk s) b a s1" and fr1: "\<And>x. \<not> in_range bbuf (512 * k) x \<Longrightarrow> kmem_mem s1 x = kmem_mem s x"
    using read_current_page [OF fs ok op bo b_def [symmetric] pos(2) a_def [symmetric] pos(1) v] by metis
  have fr1': "kmem_mem s1 x = kmem_mem s x" if "\<not> touched fd bbuf k buf n x" for x
    using fr1 that by (simp add: touched_def)
  note of1 = open_frame [OF op ap(1) fr1']
  have un: "unat (of_nat n :: u64) = n" by (rule unat_of_nat_64) (use n unat_lt_2p64 [of count] in simp)
  have c: "(if count > inode_get_size (get64 (fd_at fd Fd_inode) s) s - ucast (get32 (fd_at fd Fd_blki) s * blocksize (fs_sb fs) s + get32 (fd_at fd Fd_byteaddr) s)
      then inode_get_size (get64 (fd_at fd Fd_inode) s) s - ucast (get32 (fd_at fd Fd_blki) s * blocksize (fs_sb fs) s + get32 (fd_at fd Fd_byteaddr) s)
      else count) = of_nat n" (is "?c = _")
    using file_pos_words(2) [OF fl] un by (auto simp: n ni word_less_nat_alt min_def word_unat_eq_iff)
  have le: "pos + n \<le> sz" using n pos(4) by simp
  have bl: "blocks_ok (dsk s1) k ino sz s1" using bo of1(4) s1(3) by simp
  obtain s' b' a' where s': "read_loop fs fd buf (of_nat n) (of_nat n) s1 = Some (s', of_nat n)" "ok s'" "dsk s' = dsk s1"
    "at_page fs fd ino bbuf k (dsk s1) b' a' s'" "512 * k * b' + a' = pos + n" "512 * k * b' < sz"
    and fr2: "\<And>x. \<not> touched fd bbuf k buf n x \<Longrightarrow> kmem_mem s' x = kmem_mem s1 x"
    and by2: "\<And>i. i < n \<Longrightarrow> kmem_mem s' (buf + of_nat i) = file_byte (dsk s1) k ino s1 (pos + i)"
    using read_loop_ref [OF fs s1(2) s1(4) [folded s1(3)] bl, of "of_nat n" buf "of_nat n", unfolded un pos(3), OF le ap pos(2)]
    by metis
  have fr: "kmem_mem s' x = kmem_mem s x" if "\<not> touched fd bbuf k buf n x" for x
    using fr2 fr1' that by simp
  note of = open_frame [OF op ap(1) fr]
  have "fs_ext2_read fs fd buf count s = Some (s', of_nat n)"
    using s1(1) s'(1) ni(2) unfolding fs_ext2_read_def Let_def c by simp
  moreover have "file_at fs fd ino bbuf k (dsk s) sz (pos + n) s'"
    using of bo size s'(4-6) n pos by (auto simp: file_at_def at_page_def)
  ultimately show ?thesis using s'(2,3) s1(3) of(3) fr by2 of1(3) by auto
qed

end

text \<open>
  C12: Reading from an open file refines reading from a byte sequence with a position: the result is the
  smaller of the count and the bytes that are left, the buffer of the caller then holds exactly the
  bytes of the file from the position on, across block boundaries, the position moves behind them, and
  disk, file contents and all other memory outside descriptor and block buffer are unchanged.
\<close>

theorem read_returns_the_bytes_of_the_file:
  assumes "fs_drive fs = pio_ops (ata_hw d0) dp drive" "drives d0 drive" "sel_ok d0 dp s"
    and "file_at fs fd ino bbuf k (disk_of d0 s) sz pos s" and n: "n = min (unat count) (sz - pos)"
    and "apart_from_fd fs fd ino buf n" "ranges_disjoint buf n bbuf (512 * k)"
  shows "\<exists>s'. fs_ext2_read fs fd buf count s = Some (s', of_nat n) \<and> disk_of d0 s' = disk_of d0 s \<and> sel_ok d0 dp s' \<and>
    file_at fs fd ino bbuf k (disk_of d0 s') sz (pos + n) s' \<and>
    (\<forall>p. file_byte (disk_of d0 s') k ino s' p = file_byte (disk_of d0 s) k ino s p) \<and>
    (\<forall>x. \<not> touched fd bbuf k buf n x \<longrightarrow> kmem_mem s' x = kmem_mem s x) \<and>
    (\<forall>i < n. kmem_mem s' (buf + of_nat i) = file_byte (disk_of d0 s) k ino s (pos + i))"
  using pio.read_ref [OF assms(1) conjI [OF assms(2,3)] assms(4) n assms(6,7)] by auto

text \<open>An open file of 1500 bytes in the blocks 5 and 7 of the small file system, at position 1000.\<close>

definition demo_handle :: "_ fs_handle" where
  "demo_handle = \<lparr>fs_hooks = None, fs_drive = pio_ops (ata_hw demo_dev) 0x8000 demo_drive, fs_gdata = demo_sb\<rparr>"

definition demo_open :: machine where
  "demo_open = demo_fs\<lparr>kmem_mem := demo_mem(0x200304 := 0xDC, 0x200305 := 5, 0x20032C := 7,
     0x400009 := 3, 0x40000A := 0x20, 0x400012 := 0x30, 0x40001C := 0xE8, 0x40001D := 3, 0x400020 := 1)\<rparr>"

lemma demo_open_fields:
  "fs_sb demo_handle = demo_sb" "get32 (sb_at demo_sb Block_logsz) demo_open = 0"
  "get64 (fd_at 0x400000 Fd_inode) demo_open = demo_ino" "get64 (fd_at 0x400000 Fd_blkbuf) demo_open = 0x300000"
  "get32 (fd_at 0x400000 Fd_blki) demo_open = 0" "get32 (fd_at 0x400000 Fd_byteaddr) demo_open = 1000"
  "kmem_mem demo_open (fd_at 0x400000 Fd_is_buf_init) = 0" "kmem_mem demo_open (fd_at 0x400000 Fd_is_blk_valid) = 1"
  "inode_get_size demo_ino demo_open = 1500" "get32 (dbp_at demo_ino 0) demo_open = 5" "get32 (dbp_at demo_ino 1) demo_open = 7"
  "get32 (inode_at demo_ino Sibp) demo_open = 6" "get32 (inode_at demo_ino Dibp) demo_open = 0"
  by (simp_all add: fs_sb_def gdata_layout_def pad_def demo_handle_def fd_offsets sb_at_def sb_offsets dbp_at_def inode_get_size_def
      inode_at_def inode_layout_def get32_def get64_def load32_def load64_def load_numeral demo_sb_def demo_ino_def demo_open_def demo_mem_def)

lemma demo_open_disk: "disk_of demo_dev demo_open p = of_nat p" "sel_ok demo_dev 0x8000 demo_open"
  using demo_disk demo_drive_ok(2) by (simp_all add: disk_of_def sel_ok_def demo_open_def demo_fs_def)

lemma demo_open_file: "file_at demo_handle 0x400000 demo_ino 0x300000 2 (disk_of demo_dev demo_open) 1500 1000 demo_open"
proof -
  have op: "open_file demo_handle 0x400000 demo_ino 0x300000 2 demo_open"
    unfolding open_file_def geom_def blocksize_def demo_open_fields
    by (simp add: apart_from_fd_def demo_open_fields(1) ranges_disjoint_def demo_ino_def demo_sb_def sb_at_def sb_offsets)
  have blocks: "j < 12 + 128 * 2 + 128 * 2 * (128 * 2) \<and> file_block (disk_of demo_dev demo_open) 2 demo_ino (of_nat j) demo_open \<noteq> 0 \<and>
      unat (file_block (disk_of demo_dev demo_open) 2 demo_ino (of_nat j) demo_open) * 2 < 2 ^ 32" if "512 * 2 * j < 1500" for j
  proof -
    have "j = 0 \<or> j = 1" using that by auto
    then show ?thesis by (rule disjE) (simp_all add: file_block_def block_ref_def demo_open_fields)
  qed
  have "ptrs_ok (disk_of demo_dev demo_open) 2 demo_ino demo_open"
    by (simp add: ptrs_ok_def ptr_in_def demo_open_fields)
  with blocks have "blocks_ok (disk_of demo_dev demo_open) 2 demo_ino 1500 demo_open" unfolding blocks_ok_def by simp
  with op show ?thesis by (simp add: file_at_def demo_open_fields)
qed

theorem read_returns_the_bytes_of_the_file_witness:
  "\<exists>s'. fs_ext2_read demo_handle 0x400000 0x500000 100 demo_open = Some (s', 100) \<and>
    kmem_mem s' 0x500000 = of_nat (5 * 1024 + 1000) \<and> kmem_mem s' 0x500018 = of_nat (7 * 1024)"
proof -
  have h: "fs_drive demo_handle = pio_ops (ata_hw demo_dev) 0x8000 demo_drive" "100 = min (unat (100 :: u64)) (1500 - 1000)"
    "apart_from_fd demo_handle 0x400000 demo_ino 0x500000 100" "ranges_disjoint 0x500000 100 0x300000 (512 * 2)"
    by (simp add: demo_handle_def, simp, simp_all add: apart_from_fd_def demo_open_fields(1) ranges_disjoint_def demo_ino_def demo_sb_def
        sb_at_def sb_offsets)
  have b: "file_byte (disk_of demo_dev demo_open) 2 demo_ino demo_open (1000 + 0) = of_nat (5 * 1024 + 1000)"
    "file_byte (disk_of demo_dev demo_open) 2 demo_ino demo_open (1000 + 24) = of_nat (7 * 1024)"
    by (simp_all add: file_byte_def file_block_def block_ref_def demo_open_fields demo_open_disk)
  obtain s' where s': "fs_ext2_read demo_handle 0x400000 0x500000 100 demo_open = Some (s', of_nat 100)"
    and bytes: "\<forall>i < 100. kmem_mem s' (0x500000 + of_nat i) = file_byte (disk_of demo_dev demo_open) 2 demo_ino demo_open (1000 + i)"
    using read_returns_the_bytes_of_the_file [OF h(1) demo_drive_ok(1) demo_open_disk(2) demo_open_file h(2-4)] by blast
  have "kmem_mem s' 0x500000 = of_nat (5 * 1024 + 1000)" "kmem_mem s' 0x500018 = of_nat (7 * 1024)"
    using bytes [rule_format, of 0] bytes [rule_format, of 24] b by simp_all
  with s' show ?thesis by simp
qed

end
