(* ===== verification/File_seek.thy ===== *)
theory File_seek
  imports File_read
begin

unbundle bit_operations_syntax

text \<open>
  Moving the position of an open file (\<^verbatim>\<open>fs_ext2_seek\<close> of \<^verbatim>\<open>fs/ext2.c\<close>) on the abstract state of
  \<^theory_text>\<open>File_read\<close>: offsets up to the size of the file are clipped to its ends, larger ones are not.
\<close>

section \<open>The target\<close>

lemma sint_64: "sint (w :: u64) = (if unat w < 2 ^ 63 then int (unat w) else int (unat w) - 2 ^ 64)"
proof -
  have u: "uint w < 2 ^ 64" "0 \<le> uint w" using uint_lt2p [of w] by simp_all
  have "sint w = (uint w + 2 ^ 63) mod 2 ^ 64 - 2 ^ 63"
    by (simp add: sint_uint signed_take_bit_eq_take_bit_shift take_bit_eq_mod)
  also have "\<dots> = (if uint w < 2 ^ 63 then uint w else uint w - 2 ^ 64)"
  proof (cases "uint w < 2 ^ 63")
    case True
    with u show ?thesis by simp
  next
    case False
    then have "(uint w + 2 ^ 63) mod 2 ^ 64 = (uint w + 2 ^ 63 - 2 ^ 64) mod 2 ^ 64"
      by (metis minus_mod_self2)
    with False u show ?thesis by simp
  qed
  finally show ?thesis by (simp add: uint_nat nat_less_iff del: of_nat_unat split: if_splits)
qed

lemma unat_sint:
  "0 \<le> sint (w :: u64) \<Longrightarrow> unat w = nat (sint w)"
  "sint (w :: u64) < 0 \<Longrightarrow> unat (- w) = nat (- sint w)"
proof -
  define n where "n = unat w"
  have n: "n < 2 ^ 64" unfolding n_def by (rule unat_lt_2p64)
  have st: "sint w = (if n < 2 ^ 63 then int n else int n - 2 ^ 64)" unfolding n_def by (rule sint_64)
  show "unat w = nat (sint w)" if "0 \<le> sint w"
    using that n unfolding st n_def [symmetric] by (simp split: if_splits)
  show "unat (- w) = nat (- sint w)" if "sint w < 0"
  proof -
    have b: "\<not> n < 2 ^ 63" using that unfolding st by (auto split: if_splits)
    then have "w \<noteq> 0" by (auto simp: n_def)
    then have "unat (- w) = 2 ^ 64 - n" using unat_diff_lt [of 0 w] by (simp add: n_def unat_gt_0)
    with b n show ?thesis unfolding st by simp
  qed
qed

lemma uint_unat_lt: "unat (w :: u32) < 2 ^ 32"
  using unsigned_less [of w, where ?'a = nat] by simp

lemma seek_target_forward:
  assumes "sz < 2 ^ 32" "unat bytes \<le> unat s" "unat s = sz" "0 < sint off" "sint off \<le> int sz"
  shows "unat (seek_target s bytes off) = min sz (unat bytes + unat off)"
proof -
  have un: "unat off = nat (sint off)" using assms(4) by (intro unat_sint(1)) simp
  have off: "unat off \<le> sz" "sint off = int (unat off)" using assms(4,5) unfolding un by simp_all
  have bu: "unat (ucast bytes :: u64) = unat bytes" by (simp add: unat_ucast_up)
  have c: "(uint bytes > 0xFFFFFFFF - sint off) = (unat bytes + unat off > 0xFFFFFFFF)"
    unfolding off(2) uint_nat by linarith
  define o1 where "o1 = (if unat bytes + unat off > 0xFFFFFFFF then ucast (0xFFFFFFFF - bytes) else off)"
  have o1: "unat o1 = min (unat off) (0xFFFFFFFF - unat bytes)"
  proof -
    have "unat (0xFFFFFFFF - bytes) = 0xFFFFFFFF - unat bytes" using uint_unat_lt [of bytes]
      by (subst unat_sub) (simp_all add: word_le_nat_alt)
    then show ?thesis by (auto simp: o1_def unat_ucast_up)
  qed
  have st: "seek_target s bytes off = ucast (ucast bytes + (if ucast bytes > s - o1 then s - ucast bytes else o1))"
    using assms(4) unfolding seek_target_def Let_def c o1_def by simp
  have "unat (s - o1) = sz - unat o1" using off(1) o1 assms(3) by (subst unat_sub) (simp_all add: word_le_nat_alt)
  moreover have "unat (s - ucast bytes) = sz - unat bytes" using assms bu by (subst unat_sub) (simp_all add: word_le_nat_alt)
  ultimately have "unat (ucast bytes + (if ucast bytes > s - o1 then s - ucast bytes else o1)) = min sz (unat bytes + unat off)"
    using bu o1 off(1) assms(1-3) by (subst unat_plus_nowrap) (auto simp: word_less_nat_alt min_def)
  with assms(1) show ?thesis unfolding st by (simp add: unat_ucast_down)
qed

lemma seek_target_past:
  assumes "sz < 2 ^ 32" "unat s = sz" "int sz < sint off" "unat bytes + unat off < 2 ^ 32"
  shows "unat (seek_target s bytes off) = unat bytes + unat off"
proof -
  have un: "unat off = nat (sint off)" using assms(3) by (intro unat_sint(1)) simp
  have off: "sz < unat off" "sint off = int (unat off)" "0 < sint off" using assms(3) unfolding un by simp_all
  have c: "\<not> uint bytes > 0xFFFFFFFF - sint off"
  proof -
    have "unat bytes + unat off \<le> 0xFFFFFFFF" using assms(4) by simp
    then show ?thesis unfolding off(2) uint_nat by linarith
  qed
  have "unat (s - off) = 2 ^ 64 - (unat off - sz)" using off(1) assms(2) unat_diff_lt [of s off] by simp
  then have d: "\<not> ucast bytes > s - off" using assms(4) by (simp add: word_less_nat_alt unat_ucast_up)
  have "seek_target s bytes off = ucast (ucast bytes + off)"
    using c d off(3) unfolding seek_target_def Let_def by simp
  moreover have "unat (ucast bytes + off) = unat bytes + unat off"
    using assms(4) by (subst unat_plus_nowrap) (simp_all add: unat_ucast_up)
  ultimately show ?thesis using assms(4) by (simp add: unat_ucast_down)
qed

lemma seek_target_backward:
  assumes "sint off \<le> 0" "- sint off < 2 ^ 32"
  shows "unat (seek_target s bytes off) = unat bytes - nat (- sint off)"
proof (cases "sint off = 0")
  case True
  then have "unat off = 0" using unat_sint(1) [of off] by simp
  then have "off = 0" by (simp add: unat_eq_zero)
  moreover have "ucast (ucast bytes :: u64) = bytes" using uint_unat_lt [of bytes]
    by (simp add: word_unat_eq_iff unat_ucast_down unat_ucast_up)
  ultimately show ?thesis by (simp add: seek_target_def)
next
  case False
  with assms(1) have neg: "sint off < 0" by simp
  have un: "unat (- off) = nat (- sint off)" using neg by (rule unat_sint)
  define d where "d = nat (- sint off)"
  have d: "d < 2 ^ 32" "unat (- off) = d" using assms(2) un by (simp_all add: d_def)
  have uc: "unat (ucast (- off) :: u32) = d" using d by (simp add: unat_ucast_down)
  have st: "seek_target s bytes off = ucast (ucast bytes + (if ucast (- off) > bytes then ucast (- bytes) else off))"
    using neg unfolding seek_target_def Let_def by simp
  show ?thesis
  proof (cases "ucast (- off) > bytes")
    case True
    have "uint (ucast (ucast bytes + ucast (- bytes) :: u64) :: u32) = (uint bytes + - uint bytes) mod 2 ^ 32"
      by (simp only: unsigned_ucast_eq take_bit_eq_mod uint_word_ariths) (simp add: mod_mod_cancel mod_simps)
    then have "(ucast (ucast bytes + ucast (- bytes) :: u64) :: u32) = 0" by (simp add: word_uint_eq_iff)
    then show ?thesis using True uc unfolding st d_def [symmetric] by (simp add: word_less_nat_alt)
  next
    case False
    then have "d \<le> unat bytes" using uc by (simp add: word_less_nat_alt)
    moreover have "ucast bytes + off = ucast bytes - (- off)" by simp
    ultimately have "unat (ucast bytes + off) = unat bytes - d"
      by (simp only: unat_sub word_le_nat_alt unat_ucast_up d)
    with False uint_unat_lt [of bytes] show ?thesis unfolding st d_def [symmetric] by (simp add: unat_ucast_down)
  qed
qed

text \<open>With an offset up to the size of the file, the target is clipped to the two ends.\<close>

definition clipped :: "nat \<Rightarrow> nat \<Rightarrow> int \<Rightarrow> nat" where
  "clipped sz pos d = nat (max 0 (min (int sz) (int pos + d)))"

lemma seek_target_clipped:
  assumes "sz < 2 ^ 32" "unat s = sz" "unat bytes \<le> sz" "sint off \<le> int sz" "- sint off < 2 ^ 32"
  shows "unat (seek_target s bytes off) = clipped sz (unat bytes) (sint off)"
proof (cases "0 < sint off")
  case True
  then have un: "unat off = nat (sint off)" by (intro unat_sint(1)) simp
  have "unat (seek_target s bytes off) = min sz (unat bytes + unat off)"
    using seek_target_forward [OF assms(1) _ assms(2) True, of bytes] assms by simp
  with True show ?thesis unfolding un clipped_def by linarith
next
  case False
  then have "unat (seek_target s bytes off) = unat bytes - nat (- sint off)"
    using assms(5) by (intro seek_target_backward) simp_all
  with False assms(3) show ?thesis unfolding clipped_def by linarith
qed

section \<open>The operation\<close>

definition fd_pos :: "addr \<Rightarrow> nat \<Rightarrow> 'x kmem_scheme \<Rightarrow> nat" where
  "fd_pos fd k s = 512 * k * unat (get32 (fd_at fd Fd_blki) s) + unat (get32 (fd_at fd Fd_byteaddr) s)"

lemma file_at_pos: "file_at fs fd ino bbuf k D sz pos s \<Longrightarrow> fd_pos fd k s = pos"
  by (simp add: file_at_def fd_pos_def)

lemma seek_stores:
  assumes op: "open_file fs fd ino bbuf k s" and w: "whence = FS_SEEK_BEGIN \<or> whence = FS_SEEK_CUR"
    and t: "t = unat (seek_target (inode_get_size ino s) (if whence = FS_SEEK_CUR
      then get32 (fd_at fd Fd_blki) s * blocksize (fs_sb fs) s + get32 (fd_at fd Fd_byteaddr) s else 0) off)"
  obtains s' where "fs_ext2_seek fs fd off whence s = Some (s', of_nat t)" "kmem.more s' = kmem.more s" "kmem_spinlock s' = kmem_spinlock s"
    "unat (get32 (fd_at fd Fd_blki) s') = t div (512 * k)" "unat (get32 (fd_at fd Fd_byteaddr) s') = t mod (512 * k)"
    "\<And>x. \<not> in_range (fd + 24) 8 x \<Longrightarrow> kmem_mem s' x = kmem_mem s x"
proof -
  let ?z = "blocksize (fs_sb fs) s" and ?t = "seek_target (inode_get_size ino s) (if whence = FS_SEEK_CUR
      then get32 (fd_at fd Fd_blki) s * blocksize (fs_sb fs) s + get32 (fd_at fd Fd_byteaddr) s else 0) off"
  define s' where "s' = put32 (fd_at fd Fd_byteaddr) (?t mod ?z) (put32 (fd_at fd Fd_blki) (?t div ?z) s)"
  have z: "unat ?z = 512 * k" "0 < k" and i: "get64 (fd_at fd Fd_inode) s = ino"
    using op by (simp_all add: open_file_def geom_def)
  then have z0: "?z \<noteq> 0" by auto
  have "ucast ?t = (of_nat t :: u64)" unfolding t by simp
  then have "fs_ext2_seek fs fd off whence s = Some (s', of_nat t)"
    using w z0 i unfolding fs_ext2_seek_def s'_def
    by (auto simp: Let_def FS_SEEK_BEGIN_def FS_SEEK_CUR_def FS_SEEK_END_def udiv_def umod_def)
  moreover have "unat (get32 (fd_at fd Fd_blki) s') = t div (512 * k)" "unat (get32 (fd_at fd Fd_byteaddr) s') = t mod (512 * k)"
    by (simp_all add: s'_def fd_offsets get32_put32_other fd_field_disjoint unat_div unat_mod z t)
  moreover have "kmem_mem s' x = kmem_mem s x" if "\<not> in_range (fd + 24) 8 x" for x
  proof -
    have "\<not> in_range (fd + 24) 4 x" "\<not> in_range (fd + 28) 4 x"
      using that in_range_inner [of "fd + 24" 4 4 x 8] in_range_mono [of "fd + 24" 4 x 8] by (auto simp: add.assoc)
    then show ?thesis by (simp add: s'_def fd_offsets put32_mem)
  qed
  moreover have "kmem.more s' = kmem.more s" "kmem_spinlock s' = kmem_spinlock s" by (simp_all add: s'_def put32_def)
  ultimately show thesis using that by blast
qed

lemma seek_base:
  assumes "file_at fs fd ino bbuf k D sz pos s"
  shows "unat (if whence = FS_SEEK_CUR then get32 (fd_at fd Fd_blki) s * blocksize (fs_sb fs) s + get32 (fd_at fd Fd_byteaddr) s else 0)
    = (if whence = FS_SEEK_CUR then pos else 0)"
  using file_pos_words(1) [OF assms] by simp

text \<open>The place that a seek by \<open>d\<close> from \<open>base\<close> leads to: clipped, unless \<open>d\<close> is larger than the file.\<close>

definition sought :: "nat \<Rightarrow> nat \<Rightarrow> int \<Rightarrow> nat" where
  "sought sz base d = (if d \<le> int sz then clipped sz base d else base + nat d)"

lemma seek_target_sought:
  assumes "sz < 2 ^ 32" "unat s = sz" "unat bytes \<le> sz" "- sint off < 2 ^ 32" "sought sz (unat bytes) (sint off) < 2 ^ 32"
  shows "unat (seek_target s bytes off) = sought sz (unat bytes) (sint off)"
proof (cases "sint off \<le> int sz")
  case True
  with seek_target_clipped [OF assms(1-3) True assms(4)] show ?thesis by (simp add: sought_def)
next
  case False
  then have "unat off = nat (sint off)" by (intro unat_sint(1)) simp
  with False assms(5) seek_target_past [OF assms(1,2), of off bytes] show ?thesis by (simp add: sought_def)
qed

lemma seek_position:
  assumes fl: "file_at fs fd ino bbuf k D sz pos s" and w: "whence = FS_SEEK_BEGIN \<or> whence = FS_SEEK_CUR"
    and off: "- (2 ^ 32) < sint off"
    and t: "t = sought sz (if whence = FS_SEEK_CUR then pos else 0) (sint off)" "t < 2 ^ 32"
  shows "\<exists>s'. fs_ext2_seek fs fd off whence s = Some (s', of_nat t) \<and> kmem.more s' = kmem.more s \<and>
    kmem_spinlock s' = kmem_spinlock s \<and> fd_pos fd k s' = t \<and>
    (t < sz \<or> t = sz \<and> sz mod (512 * k) \<noteq> 0 \<longrightarrow> file_at fs fd ino bbuf k D sz t s') \<and>
    (\<forall>p. file_byte D k ino s' p = file_byte D k ino s p) \<and>
    (\<forall>x. \<not> in_range (fd + 24) 8 x \<longrightarrow> kmem_mem s' x = kmem_mem s x)"
proof -
  have op: "open_file fs fd ino bbuf k s" and bo: "blocks_ok D k ino sz s" and size: "unat (inode_get_size ino s) = sz" "0 < sz" "pos \<le> sz"
    and v: "kmem_mem s (fd_at fd Fd_is_blk_valid) \<noteq> 0"
    using fl by (simp_all add: file_at_def)
  have k: "0 < 512 * k" using op by (simp add: open_file_def geom_def)
  have sz: "sz < 2 ^ 32" using bo by (simp add: blocks_ok_def)
  have "t = unat (seek_target (inode_get_size ino s) (if whence = FS_SEEK_CUR
      then get32 (fd_at fd Fd_blki) s * blocksize (fs_sb fs) s + get32 (fd_at fd Fd_byteaddr) s else 0) off)"
    using off size(3) t
    by (subst seek_target_sought [OF sz size(1)]) (simp_all only: seek_base [OF fl], simp_all)
  from seek_stores [OF op w this] obtain s' where s': "fs_ext2_seek fs fd off whence s = Some (s', of_nat t)" "kmem.more s' = kmem.more s"
    "kmem_spinlock s' = kmem_spinlock s"
    "unat (get32 (fd_at fd Fd_blki) s') = t div (512 * k)" "unat (get32 (fd_at fd Fd_byteaddr) s') = t mod (512 * k)"
    and fr: "\<And>x. \<not> in_range (fd + 24) 8 x \<Longrightarrow> kmem_mem s' x = kmem_mem s x" by blast
  have ap: "apart_from_fd fs fd ino bbuf 0" by (simp add: apart_from_fd_def ranges_disjoint_def)
  have "kmem_mem s' x = kmem_mem s x" if "\<not> touched fd bbuf k bbuf 0 x" for x
    using that fr in_range_mono [of "fd + 24" 8 x 9] by (auto simp: touched_def)
  note of = open_frame [OF op ap this]
  have pos': "fd_pos fd k s' = t" by (simp add: fd_pos_def s')
  have v': "kmem_mem s' (fd_at fd Fd_is_blk_valid) \<noteq> 0" using v fr [of "fd + 32"] by (simp add: fd_offsets in_range_def)
  have "file_at fs fd ino bbuf k D sz t s'" if "t < sz \<or> t = sz \<and> sz mod (512 * k) \<noteq> 0"
  proof -
    have "512 * k * (t div (512 * k)) < sz"
    proof (cases "t < sz")
      case True
      have "512 * k * (t div (512 * k)) \<le> t" by (rule times_div_less_eq_dividend)
      from this True show ?thesis by (rule le_less_trans)
    next
      case False
      with that have "t = sz" "t mod (512 * k) \<noteq> 0" by simp_all
      with mult_div_mod_eq [of "512 * k" t] show ?thesis by linarith
    qed
    moreover have "t mod (512 * k) \<le> 512 * k" using k mod_less_divisor less_imp_le by blast
    moreover have "t \<le> sz" using that by auto
    ultimately show ?thesis using of bo size(1) v' by (simp add: file_at_def s')
  qed
  with s' of pos' fr show ?thesis by blast
qed


text \<open>
  An offset larger than the file is not clipped: the comparison that should do so is made modulo \<open>2^64\<close>,
  and the position ends up behind the end of the file.
\<close>

theorem seek_past_the_end:
  assumes fl: "file_at fs fd ino bbuf k D sz pos s" and w: "whence = FS_SEEK_BEGIN \<or> whence = FS_SEEK_CUR"
    and off: "int sz < sint off" and t: "t = (if whence = FS_SEEK_CUR then pos else 0) + unat off" "t < 2 ^ 32"
  shows "\<exists>s'. fs_ext2_seek fs fd off whence s = Some (s', of_nat t) \<and> fd_pos fd k s' = t \<and> sz < t"
proof -
  have op: "open_file fs fd ino bbuf k s" and bo: "blocks_ok D k ino sz s" and size: "unat (inode_get_size ino s) = sz"
    using fl by (simp_all add: file_at_def)
  have sz: "sz < 2 ^ 32" using bo by (simp add: blocks_ok_def)
  have "t = unat (seek_target (inode_get_size ino s) (if whence = FS_SEEK_CUR
      then get32 (fd_at fd Fd_blki) s * blocksize (fs_sb fs) s + get32 (fd_at fd Fd_byteaddr) s else 0) off)"
    using seek_target_past [OF sz size off] t unfolding t(1) seek_base [OF fl, symmetric] by simp
  from seek_stores [OF op w this] obtain s' where s': "fs_ext2_seek fs fd off whence s = Some (s', of_nat t)"
    "unat (get32 (fd_at fd Fd_blki) s') = t div (512 * k)" "unat (get32 (fd_at fd Fd_byteaddr) s') = t mod (512 * k)" by blast
  moreover have "unat off = nat (sint off)" using off by (intro unat_sint(1)) simp
  ultimately show ?thesis using off t(1) by (auto simp: fd_pos_def)
qed


theorem seek_past_the_end_witness:
  "\<exists>s'. fs_ext2_seek demo_handle 0x400000 2000 FS_SEEK_BEGIN demo_open = Some (s', 2000) \<and> fd_pos 0x400000 2 s' = 2000"
  using seek_past_the_end [OF demo_open_file, of FS_SEEK_BEGIN 2000 2000] by (auto simp: FS_SEEK_BEGIN_def FS_SEEK_CUR_def)

end
