(* ===== verification/Dir_search.thy ===== *)
theory Dir_search
  imports File_read
begin

unbundle bit_operations_syntax

text \<open>
  Searching a directory (\<^verbatim>\<open>fs_ext2_iterate_dir_start\<close>, \<^verbatim>\<open>fs_ext2_iterate_dir_next\<close> and the inner loop of
  \<^verbatim>\<open>fs_ext2_find_final_inode\<close> in \<^verbatim>\<open>fs/ext2.c\<close>) against the list of the entries that the blocks of the
  directory hold on the disk, for every drive with the contract \<open>block_drive\<close>.
\<close>

section \<open>The entries of a directory\<close>

lemma unat_ucast_short: "unat (ucast (x :: u8) :: u32) = unat x" "unat (ucast (y :: u16) :: u32) = unat y"
  "unat (ucast (x :: u8) :: u64) = unat x"
  using unsigned_less [of x, where ?'a = nat] unsigned_less [of y, where ?'a = nat]
  by (simp_all add: unsigned_ucast_eq take_bit_eq_mod)

lemma ucast_twice: "ucast (ucast (x :: u8) :: u32) = (ucast x :: u64)"
  by (simp add: word_unat_eq_iff unat_ucast_up unat_ucast_short)

definition disk16 :: "(nat \<Rightarrow> u8) \<Rightarrow> nat \<Rightarrow> u16" where
  "disk16 D p = load16 (\<lambda>x. D (p + unat x)) 0"

text \<open>
  From byte \<open>p\<close> on, a block of \<open>n\<close> bytes is filled exactly by the entries. An entry is the number of an inode, 0
  when it is not used, and a name; it starts with its size and the length of the name.
\<close>

fun dir_chain :: "(nat \<Rightarrow> u8) \<Rightarrow> nat \<Rightarrow> nat \<Rightarrow> (u32 \<times> u8 list) list \<Rightarrow> bool" where
  "dir_chain f n p [] \<longleftrightarrow> p = n"
| "dir_chain f n p ((i, w) # es) \<longleftrightarrow>
     i = disk32 f p \<and> w = map f [p + 8..<p + 8 + unat (f (p + 6))] \<and> (i \<noteq> 0 \<longrightarrow> 0 \<notin> set w) \<and>
     8 + length w \<le> unat (disk16 f (p + 4)) \<and> p + unat (disk16 f (p + 4)) \<le> n \<and> dir_chain f n (p + unat (disk16 f (p + 4))) es"

definition dir_lookup :: "u8 list \<Rightarrow> (u32 \<times> u8 list) list \<Rightarrow> u32" where
  "dir_lookup name es = (case find (\<lambda>(i, w). i \<noteq> 0 \<and> w = name) es of None \<Rightarrow> 0 | Some (i, w) \<Rightarrow> i)"

definition dir_block :: "(nat \<Rightarrow> u8) \<Rightarrow> nat \<Rightarrow> addr \<Rightarrow> 'x kmem_scheme \<Rightarrow> nat \<Rightarrow> nat \<Rightarrow> u8" where
  "dir_block D k ino s b i = D (512 * k * unat (file_block D k ino (of_nat b) s) + i)"

text \<open>The directory has a block for each element of \<open>ess\<close>, with these entries, and a hole behind them.\<close>

definition directory :: "(nat \<Rightarrow> u8) \<Rightarrow> nat \<Rightarrow> addr \<Rightarrow> (u32 \<times> u8 list) list list \<Rightarrow> 'x kmem_scheme \<Rightarrow> bool" where
  "directory D k ino ess s \<longleftrightarrow> ptrs_ok D k ino s \<and> length ess < 12 + 128 * k + 128 * k * (128 * k) \<and> length ess < 2 ^ 31 \<and>
     file_block D k ino (of_nat (length ess)) s = 0 \<and>
     (\<forall>b < length ess. file_block D k ino (of_nat b) s \<noteq> 0 \<and> unat (file_block D k ino (of_nat b) s) * k < 2 ^ 32 \<and>
        dir_chain (dir_block D k ino s b) (512 * k) 0 (ess ! b))"

section \<open>The iterator\<close>

lemma it_offsets:
  "it_at it It_dir = it" "it_at it It_byteaddr = it + 8" "it_at it It_blki = it + 12" "it_at it It_blkbuf = it + 16"
  "it_at it It_cur = it + 24" "it_at it It_is_valid = it + 288" "cur_at it De_inode_num = it + 24" "cur_at it De_entry_sz = it + 28"
  "cur_at it De_name_length_lo = it + 30" "cur_at it De_type_byte = it + 31" "cur_at it De_name = it + 32" "DIRENT_SZ_WO_NAME = 8"
  by (simp_all add: it_at_def dit_layout_def pad_def cur_at_def dirent_at_def dirent_layout_def sizeof_dirent_def DIRENT_SZ_WO_NAME_def)

definition dir_own :: "addr \<Rightarrow> addr \<Rightarrow> nat \<Rightarrow> addr \<Rightarrow> bool" where
  "dir_own it bbuf k x \<longleftrightarrow> in_range it 296 x \<or> in_range bbuf (512 * k) x"

definition dir_apart :: "addr \<Rightarrow> addr \<Rightarrow> nat \<Rightarrow> addr \<Rightarrow> nat \<Rightarrow> bool" where
  "dir_apart it bbuf k a n \<longleftrightarrow> ranges_disjoint it 296 a n \<and> ranges_disjoint bbuf (512 * k) a n"

definition dir_env :: "addr \<Rightarrow> addr \<Rightarrow> addr \<Rightarrow> addr \<Rightarrow> nat \<Rightarrow> 'x kmem_scheme \<Rightarrow> bool" where
  "dir_env sb ino it bbuf k s \<longleftrightarrow>
     geom sb k s \<and> get32 (sb_at sb Req_features) s AND FS_EXT2_SB_RWFEATURE_DIRS_HAVE_TYPE_FIELD \<noteq> 0 \<and>
     ranges_disjoint it 296 bbuf (512 * k) \<and> dir_apart it bbuf k ino 128 \<and>
     dir_apart it bbuf k (sb_at sb Block_logsz) 4 \<and> dir_apart it bbuf k (sb_at sb Req_features) 4"

definition dir_at :: "addr \<Rightarrow> addr \<Rightarrow> addr \<Rightarrow> addr \<Rightarrow> nat \<Rightarrow> (nat \<Rightarrow> u8) \<Rightarrow> nat \<Rightarrow> nat \<Rightarrow> 'x kmem_scheme \<Rightarrow> bool" where
  "dir_at sb ino it bbuf k D b p s \<longleftrightarrow>
     dir_env sb ino it bbuf k s \<and> get64 (it_at it It_dir) s = ino \<and> get64 (it_at it It_blkbuf) s = bbuf \<and>
     unat (get32 (it_at it It_blki) s) = b \<and> unat (get32 (it_at it It_byteaddr) s) = p \<and> kmem_mem s (it_at it It_is_valid) \<noteq> 0 \<and>
     (\<forall>i < 512 * k. kmem_mem s (bbuf + of_nat i) = dir_block D k ino s b i)"

lemma dir_apart_own: "dir_apart it bbuf k a n \<Longrightarrow> in_range a n x \<Longrightarrow> \<not> dir_own it bbuf k x"
  using ranges_disjoint_not_both by (auto simp: dir_apart_def dir_own_def)

lemma dir_frame:
  assumes env: "dir_env sb ino it bbuf k s" and fr: "\<And>x. \<not> dir_own it bbuf k x \<Longrightarrow> kmem_mem s' x = kmem_mem s x"
  shows "dir_env sb ino it bbuf k s'" "dir_block D k ino s' = dir_block D k ino s" "directory D k ino ess s' = directory D k ino ess s"
    "blocksize sb s' = blocksize sb s"
proof -
  note ap = env [unfolded dir_env_def]
  have ino: "kmem_mem s' x = kmem_mem s x" if "in_range ino 128 x" for x
    using ap that dir_apart_own by (intro fr) blast
  have sb: "kmem_mem s' x = kmem_mem s x" if "in_range (sb_at sb Block_logsz) 4 x" for x
    using ap that dir_apart_own by (intro fr) blast
  have "get32 (sb_at sb Req_features) s' = get32 (sb_at sb Req_features) s"
    using ap dir_apart_own by (intro get32_cong fr) blast
  then show "dir_env sb ino it bbuf k s'" using ap geom_cong(3) [of sb s' s k] sb by (simp add: dir_env_def)
  show "blocksize sb s' = blocksize sb s" using geom_cong(1) sb by blast
  have f: "file_block D k ino b s' = file_block D k ino b s" for b using file_block_agree(1) [OF ino] by simp
  then have d: "dir_block D k ino s' b = dir_block D k ino s b" for b by (simp add: dir_block_def fun_eq_iff)
  then show "dir_block D k ino s' = dir_block D k ino s" by (simp add: fun_eq_iff)
  show "directory D k ino ess s' = directory D k ino ess s"
    using file_block_agree(2) [OF ino] by (simp add: directory_def f d)
qed

lemma load32_bytes: "(\<And>i. i < 4 \<Longrightarrow> m (a + of_nat i) = f (p + i)) \<Longrightarrow> load32 m a = disk32 f p"
  unfolding disk32_def load32_shift [of m a]
proof (rule load32_cong)
  fix x :: addr
  assume h: "\<And>i. i < 4 \<Longrightarrow> m (a + of_nat i) = f (p + i)" and "in_range 0 4 x"
  then show "m (a + x) = f (p + unat x)" using h [of "unat x"] by (simp add: in_range_def)
qed

lemma load16_at_disk:
  assumes "\<And>i. i < 2 \<Longrightarrow> m (a + of_nat i) = f (p + i)"
  shows "load16 m a = disk16 f p"
proof -
  have "load_le 2 m a = load_le 2 (\<lambda>x. m (a + x)) 0" using load_le_shift [of 2 m a 0] by (simp del: load_le.simps)
  also have "\<dots> = load_le 2 (\<lambda>x. f (p + unat x)) 0"
  proof (rule load_le_cong)
    fix x :: addr
    assume "in_range 0 2 x"
    then show "m (a + x) = f (p + unat x)" using assms [of "unat x"] by (simp add: in_range_def)
  qed
  finally show ?thesis by (simp add: disk16_def load16_def del: load_le.simps)
qed

lemma get_apart:
  assumes "\<And>x. \<not> in_range a n x \<Longrightarrow> kmem_mem s' x = kmem_mem s x"
  shows "ranges_disjoint a n c 4 \<Longrightarrow> get32 c s' = get32 c s" "ranges_disjoint a n c 8 \<Longrightarrow> get64 c s' = get64 c s"
  using assms ranges_disjoint_not_both by (blast intro: get32_cong get64_cong)+

lemma get64_put32_other: "ranges_disjoint a 4 c 8 \<Longrightarrow> get64 c (put32 a v s) = get64 c s"
  using put32_mem ranges_disjoint_not_both by (blast intro: get64_cong)

lemma put64_mem: "\<not> in_range a 8 x \<Longrightarrow> kmem_mem (put64 a v s) x = kmem_mem s x"
  by (simp add: put64_def store64_other)

lemma get_put64:
  "get64 a (put64 a v s) = v" "ranges_disjoint a 8 c 8 \<Longrightarrow> get64 c (put64 a v s) = get64 c s"
  "ranges_disjoint a 8 c 4 \<Longrightarrow> get32 c (put64 a v s) = get32 c s"
  using get_apart [OF put64_mem] by (simp_all add: get64_def put64_def load64_store64_same)

lemma cstr_at_nth:
  "(\<And>j. j < length w \<Longrightarrow> m (a + of_nat j) = w ! j) \<Longrightarrow> m (a + of_nat (length w)) = 0 \<Longrightarrow> 0 \<notin> set w \<Longrightarrow> cstr_at m a w"
proof (induction w arbitrary: a)
  case (Cons c w)
  have "cstr_at m (a + 1) w"
  proof (rule Cons.IH)
    show "m (a + 1 + of_nat j) = w ! j" if "j < length w" for j using Cons.prems(1) [of "Suc j"] that by (simp add: add_ac)
  qed (use Cons.prems in \<open>simp_all add: add_ac\<close>)
  with Cons.prems(1) [of 0] Cons.prems(3) show ?case by simp
qed simp

section \<open>Copying an entry\<close>

text \<open>What \<^verbatim>\<open>fs_ext2_iterate_dir_next\<close> does after it has copied an entry and moved behind it.\<close>

definition dir_turn :: "'x drive_ops \<Rightarrow> addr \<Rightarrow> addr \<Rightarrow> 'x kmem_scheme \<Rightarrow> ('x kmem_scheme \<times> int) option" where
  "dir_turn drive sb it s3 =
     (if get32 (it_at it It_byteaddr) s3 \<ge> blocksize sb s3 then do {
        let s4 = put32 (it_at it It_blki) (get32 (it_at it It_blki) s3 + 1) s3;
        (s5, r) \<leftarrow> fs_ext2_read_inode_data drive sb (get64 (it_at it It_dir) s4) (get32 (it_at it It_blki) s4)
                    (get64 (it_at it It_blkbuf) s4) s4;
        if r = 0 then
          let s6 = put32 (it_at it It_blki) (get32 (it_at it It_blki) s5 - 1) s5;
              s7 = put32 (it_at it It_byteaddr) (get32 (it_at it It_byteaddr) s6 - ucast (get16 (cur_at it De_entry_sz) s6)) s6
          in Some (put8 (it_at it It_is_valid) 0 s7, 1)
        else Some (put32 (it_at it It_byteaddr) 0 s5, 1)
      } else Some (s3, 1))"

definition entry_head :: "addr \<Rightarrow> addr \<Rightarrow> 'x kmem_scheme \<Rightarrow> 'x kmem_scheme" where
  "entry_head it a s = s\<lparr>kmem_mem := copied (kmem_mem s) (it + 24) a 8\<rparr>"

definition entry_name :: "addr \<Rightarrow> addr \<Rightarrow> nat \<Rightarrow> 'x kmem_scheme \<Rightarrow> 'x kmem_scheme" where
  "entry_name it a l s = put8 (it + 32 + of_nat l) 0 (s\<lparr>kmem_mem := copied (kmem_mem s) (it + 32) a l\<rparr>)"

definition entry_skip :: "addr \<Rightarrow> 'x kmem_scheme \<Rightarrow> 'x kmem_scheme" where
  "entry_skip it s = put32 (it + 8) (get32 (it + 8) s + ucast (get16 (it + 28) s)) s"

text \<open>The name that goes with an entry.\<close>

definition name_step :: "addr \<Rightarrow> addr \<Rightarrow> 'x kmem_scheme \<Rightarrow> 'x kmem_scheme option" where
  "name_step sb it s1 =
     (if get32 (it + 24) s1 \<noteq> 0 then do {
        let lo = ucast (kmem_mem s1 (it + 30));
        let bcpy = (if get32 (sb_at sb Req_features) s1 AND FS_EXT2_SB_RWFEATURE_DIRS_HAVE_TYPE_FIELD = 0
                    then lo OR push_bit 8 (ucast (kmem_mem s1 (it + 31))) else lo :: u32);
        let name_bcpy = (if bcpy \<le> 256 then bcpy else 256);
        s2 \<leftarrow> memcpy_s (it + 32) (get64 (it + 16) s1 + ucast (get32 (it + 8) s1) + 8) (ucast name_bcpy) s1;
        Some (put8 (it + 32 + ucast name_bcpy) 0 s2)
      } else Some s1)"

lemma iterate_dir_next_steps:
  "fs_ext2_iterate_dir_next drive sb it s =
     (if kmem_mem s (it + 288) = 0 then Some (s, 0)
      else do {
        s1 \<leftarrow> memcpy_s (it + 24) (get64 (it + 16) s + ucast (get32 (it + 8) s)) 8 s;
        s2 \<leftarrow> name_step sb it s1;
        dir_turn drive sb it (entry_skip it s2)
      })"
  unfolding fs_ext2_iterate_dir_next_def name_step_def dir_turn_def entry_skip_def it_offsets Let_def by (rule refl)

lemma entry_head_mem:
  assumes "ranges_disjoint it 296 bbuf (512 * k)" "p + 8 \<le> 512 * k" "k < 65536"
    and buf: "\<And>i. i < 512 * k \<Longrightarrow> kmem_mem s (bbuf + of_nat i) = f i"
  shows "memcpy_s (it + 24) (bbuf + of_nat p) 8 s = Some (entry_head it (bbuf + of_nat p) s)"
    "i < 8 \<Longrightarrow> kmem_mem (entry_head it (bbuf + of_nat p) s) (it + 24 + of_nat i) = f (p + i)"
    "\<not> in_range (it + 24) 8 x \<Longrightarrow> kmem_mem (entry_head it (bbuf + of_nat p) s) x = kmem_mem s x"
proof -
  have "ranges_disjoint (it + of_nat 24) 8 (bbuf + of_nat p) 8"
    using assms(2,3) by (intro ranges_disjoint_inner [OF assms(1)]) simp_all
  then show "memcpy_s (it + 24) (bbuf + of_nat p) 8 s = Some (entry_head it (bbuf + of_nat p) s)"
    using memcpy_s_copied [of "it + 24" 8 "bbuf + of_nat p" s] by (simp add: entry_head_def)
  show "kmem_mem (entry_head it (bbuf + of_nat p) s) (it + 24 + of_nat i) = f (p + i)" if "i < 8"
    using that buf [of "p + i"] assms(2) unat_of_nat_64 [of i] by (simp add: entry_head_def copied_def in_range_def add.assoc)
  show "\<not> in_range (it + 24) 8 x \<Longrightarrow> kmem_mem (entry_head it (bbuf + of_nat p) s) x = kmem_mem s x"
    by (simp add: entry_head_def copied_def)
qed

lemma entry_name_mem:
  assumes "ranges_disjoint it 296 bbuf (512 * k)" "q + l \<le> 512 * k" "k < 65536" "l < 256"
    and buf: "\<And>i. i < 512 * k \<Longrightarrow> kmem_mem s (bbuf + of_nat i) = f i"
  shows "memcpy_s (it + 32) (bbuf + of_nat q) (of_nat l) s = Some (s\<lparr>kmem_mem := copied (kmem_mem s) (it + 32) (bbuf + of_nat q) l\<rparr>)"
    "i < l \<Longrightarrow> kmem_mem (entry_name it (bbuf + of_nat q) l s) (it + 32 + of_nat i) = f (q + i)"
    "kmem_mem (entry_name it (bbuf + of_nat q) l s) (it + 32 + of_nat l) = 0"
    "\<not> in_range (it + 32) 256 x \<Longrightarrow> kmem_mem (entry_name it (bbuf + of_nat q) l s) x = kmem_mem s x"
proof -
  have l: "unat (of_nat l :: u64) = l" using assms(4) by (intro unat_of_nat_64) simp
  have "ranges_disjoint (it + of_nat 32) l (bbuf + of_nat q) l"
    using assms(2-4) by (intro ranges_disjoint_inner [OF assms(1)]) simp_all
  then show "memcpy_s (it + 32) (bbuf + of_nat q) (of_nat l) s = Some (s\<lparr>kmem_mem := copied (kmem_mem s) (it + 32) (bbuf + of_nat q) l\<rparr>)"
    using memcpy_s_copied [of "it + 32" "of_nat l" "bbuf + of_nat q" s] by (simp add: l)
  show "kmem_mem (entry_name it (bbuf + of_nat q) l s) (it + 32 + of_nat i) = f (q + i)" if "i < l"
  proof -
    have "unat (of_nat i :: u64) = i" using that assms(4) by (intro unat_of_nat_64) simp
    with l that have "(of_nat i :: u64) \<noteq> of_nat l" by (metis less_irrefl)
    with that buf [of "q + i"] assms(2) \<open>unat (of_nat i :: u64) = i\<close> show ?thesis
      by (simp add: entry_name_def copied_def in_range_def add.assoc)
  qed
  show "kmem_mem (entry_name it (bbuf + of_nat q) l s) (it + 32 + of_nat l) = 0" by (simp add: entry_name_def)
  assume x: "\<not> in_range (it + 32) 256 x"
  then have "\<not> in_range (it + 32) l x" "x \<noteq> it + 32 + of_nat l"
    using in_range_mono [of "it + 32" l x 256] assms(4) l by (auto simp: in_range_def)
  then show "kmem_mem (entry_name it (bbuf + of_nat q) l s) x = kmem_mem s x" by (simp add: entry_name_def copied_def)
qed

text \<open>The whole step up to \<open>dir_turn\<close>: the entry is in the iterator, which has moved behind it.\<close>

lemma entry_step:
  assumes at: "dir_at sb ino it bbuf k D b p s" and chain: "dir_chain (dir_block D k ino s b) (512 * k) p ((i, w) # es)"
  obtains s3 z where "fs_ext2_iterate_dir_next drive sb it s = dir_turn drive sb it s3"
    "get32 (it + 24) s3 = i" "unat (get16 (it + 28) s3) = z" "unat (get32 (it + 8) s3) = p + z"
    "8 \<le> z" "p + z \<le> 512 * k" "dir_chain (dir_block D k ino s b) (512 * k) (p + z) es"
    "i \<noteq> 0 \<Longrightarrow> cstr_at (kmem_mem s3) (it + 32) w" "\<And>x. i = 0 \<Longrightarrow> in_range (it + 32) 256 x \<Longrightarrow> kmem_mem s3 x = kmem_mem s x"
    "\<And>x. \<not> in_range (it + 24) 264 x \<Longrightarrow> \<not> in_range (it + 8) 4 x \<Longrightarrow> kmem_mem s3 x = kmem_mem s x"
    "rest_of s3 = rest_of s" "length w < 256"
proof -
  let ?f = "dir_block D k ino s b" and ?a = "bbuf + of_nat p"
  let ?l = "unat (?f (p + 6))" and ?z = "unat (disk16 ?f (p + 4))"
  have env: "ranges_disjoint it 296 bbuf (512 * k)" "k < 65536"
    "get32 (sb_at sb Req_features) s AND FS_EXT2_SB_RWFEATURE_DIRS_HAVE_TYPE_FIELD \<noteq> 0"
    "dir_apart it bbuf k (sb_at sb Req_features) 4"
    using at by (simp_all add: dir_at_def dir_env_def geom_def)
  have fld: "get64 (it + 16) s = bbuf" "unat (get32 (it + 8) s) = p" "kmem_mem s (it + 288) \<noteq> 0"
    and buf: "\<And>j. j < 512 * k \<Longrightarrow> kmem_mem s (bbuf + of_nat j) = ?f j"
    using at by (simp_all add: dir_at_def it_offsets)
  have w: "i = disk32 ?f p" "w = map ?f [p + 8..<p + 8 + ?l]" "i \<noteq> 0 \<longrightarrow> 0 \<notin> set w" "8 + length w \<le> ?z" "p + ?z \<le> 512 * k"
    and rest: "dir_chain ?f (512 * k) (p + ?z) es"
    using chain unfolding dir_chain.simps by blast+
  have l: "?l < 256" "length w = ?l" using unsigned_less [of "?f (p + 6)", where ?'a = nat] by (simp, subst w(2), simp)
  have p8: "p + 8 \<le> 512 * k" "p + 8 + ?l \<le> 512 * k" using w(4,5) l(2) by simp_all
  have up: "ucast (get32 (it + 8) s) = (of_nat p :: u64)"
    using fld(2) p8(1) env(2) unat_of_nat_64 [of p] by (simp add: word_unat_eq_iff unat_ucast_up)
  let ?s1 = "entry_head it ?a s"
  note hd = entry_head_mem [OF env(1) p8(1) env(2) buf]
  have far: "\<not> in_range (it + 24) 264 x" if "in_range (bbuf + of_nat q) m x" "q + m \<le> 512 * k" for q m x
    using that in_range_inner [of bbuf q m x "512 * k"] in_range_inner [of it 24 264 x 296] env(1,2) ranges_disjoint_not_both by auto
  have buf1: "kmem_mem ?s1 (bbuf + of_nat j) = ?f j" if "j < 512 * k" for j
  proof -
    have "\<not> in_range (it + 24) 264 (bbuf + of_nat j)" by (rule far [of j 1]) (use that in \<open>simp_all add: in_range_def\<close>)
    then have "\<not> in_range (it + 24) 8 (bbuf + of_nat j)" using in_range_mono [of "it + 24" 8 "bbuf + of_nat j" 264] by auto
    with hd(3) buf [OF that] show ?thesis by simp
  qed
  have i1: "get32 (it + 24) ?s1 = i"
    unfolding w(1) get32_def
  proof (rule load32_bytes)
    show "kmem_mem ?s1 (it + 24 + of_nat j) = ?f (p + j)" if "j < 4" for j using hd(2) [of j] that by simp
  qed
  have z1: "get16 (it + 28) ?s1 = disk16 ?f (p + 4)"
    unfolding get16_def
  proof (rule load16_at_disk)
    show "kmem_mem ?s1 (it + 28 + of_nat j) = ?f (p + 4 + j)" if "j < 2" for j
      using hd(2) [of "4 + j"] that by (simp add: add_ac)
  qed
  have l1: "kmem_mem ?s1 (it + 30) = ?f (p + 6)" using hd(2) [of 6] by (simp add: add_ac)
  have e1: "get64 (it + 16) ?s1 = bbuf" "ucast (get32 (it + 8) ?s1) = (of_nat p :: u64)"
    using fld(1) up get_apart [OF hd(3)] by (simp_all add: ranges_disjoint_def)
  have feat: "get32 (sb_at sb Req_features) ?s1 AND FS_EXT2_SB_RWFEATURE_DIRS_HAVE_TYPE_FIELD \<noteq> 0"
  proof -
    have "ranges_disjoint (it + of_nat 24) 8 (sb_at sb Req_features + of_nat 0) 4"
      using env(4) by (intro ranges_disjoint_inner [of it 296 _ 4]) (simp_all add: dir_apart_def)
    then have "get32 (sb_at sb Req_features) ?s1 = get32 (sb_at sb Req_features) s"
      using get_apart(1) [OF hd(3)] by simp
    with env(3) show ?thesis by simp
  qed
  let ?q = "bbuf + of_nat (p + 8)"
  define s2 where "s2 = (if i = 0 then ?s1 else entry_name it ?q ?l ?s1)"
  define s3 where "s3 = entry_skip it s2"
  note nm = entry_name_mem [OF env(1) p8(2) env(2) l(1) buf1]
  have s2o: "kmem_mem s2 x = kmem_mem ?s1 x" if "\<not> in_range (it + 32) 256 x" for x
    using nm(4) [OF _ that] that by (simp add: s2_def)
  have s3o: "kmem_mem s3 x = kmem_mem s2 x" if "\<not> in_range (it + 8) 4 x" for x
    using that by (simp add: s3_def entry_skip_def put32_mem)
  have "(ucast (?f (p + 6)) :: u32) \<le> 256"
    using l(1) by (simp add: word_le_nat_alt unat_ucast_short)
  moreover have "bbuf + of_nat p + 8 = ?q" by (simp add: add_ac)
  ultimately have "name_step sb it ?s1 = Some s2"
    using nm(1) feat by (simp add: name_step_def i1 e1 l1 s2_def entry_name_def Let_def add.assoc ucast_twice)
  then have run: "fs_ext2_iterate_dir_next drive sb it s = dir_turn drive sb it s3"
    using fld(3) hd(1) by (simp add: iterate_dir_next_steps fld(1) up s3_def)
  have in1: "\<not> in_range (it + 32) 256 x \<and> \<not> in_range (it + 8) 4 x" if "in_range (it + 24) 8 x" for x
  proof -
    have "ranges_disjoint (it + 24) 8 (it + 32) 256" "ranges_disjoint (it + 24) 8 (it + 8) 4"
      by (simp_all add: ranges_disjoint_def)
    with that show ?thesis using ranges_disjoint_not_both by blast
  qed
  have hd3: "kmem_mem s3 x = kmem_mem ?s1 x" if "in_range (it + 24) 8 x" for x
    using in1 [OF that] s2o s3o by simp
  have i3: "get32 (it + 24) s3 = i"
    using get32_cong [of "it + 24" s3 ?s1] hd3 in_range_mono [of "it + 24" 4 _ 8] i1 by simp
  have z2: "get16 (it + 28) t = disk16 ?f (p + 4)" if "\<And>x. in_range (it + 24) 8 x \<Longrightarrow> kmem_mem t x = kmem_mem ?s1 x" for t :: "'a kmem_scheme"
  proof -
    have "in_range (it + 28) 2 x \<Longrightarrow> in_range (it + 24) 8 x" for x using in_range_inner [of "it + 24" 4 2 x 8] by (simp add: add.assoc)
    then have "load_le 2 (kmem_mem t) (it + 28) = load_le 2 (kmem_mem ?s1) (it + 28)" by (intro load_le_cong that)
    with z1 show ?thesis by (simp add: get16_def load16_def del: load_le.simps)
  qed
  have p2: "get32 (it + 8) s2 = get32 (it + 8) s"
  proof (rule get32_cong)
    fix x
    assume x: "in_range (it + 8) 4 x"
    have "ranges_disjoint (it + 8) 4 (it + 32) 256" "ranges_disjoint (it + 8) 4 (it + 24) 8" by (simp_all add: ranges_disjoint_def)
    with x show "kmem_mem s2 x = kmem_mem s x" using s2o hd(3) ranges_disjoint_not_both by metis
  qed
  have adv: "unat (get32 (it + 8) s3) = p + ?z"
  proof -
    have "get16 (it + 28) s2 = disk16 ?f (p + 4)" using in1 s2o by (intro z2) blast
    moreover have "unat (ucast (disk16 ?f (p + 4)) :: u32) = ?z" by (simp add: unat_ucast_short)
    ultimately show ?thesis using w(5) env(2) fld(2) by (simp add: s3_def entry_skip_def p2 unat_word_ariths)
  qed
  have nm3: "kmem_mem s3 x = kmem_mem s2 x" if "in_range (it + 32) 256 x" for x
  proof -
    have "ranges_disjoint (it + 32) 256 (it + 8) 4" by (simp add: ranges_disjoint_def)
    with that s3o show ?thesis using ranges_disjoint_not_both by blast
  qed
  have inn: "in_range (it + 32) 256 (it + 32 + of_nat j)" if "j \<le> ?l" for j
    using that l(1) unat_of_nat_64 [of j] by (simp add: in_range_def)
  have name: "cstr_at (kmem_mem s3) (it + 32) w" if "i \<noteq> 0"
  proof (rule cstr_at_nth)
    show "kmem_mem s3 (it + 32 + of_nat j) = w ! j" if j: "j < length w" for j
    proof -
      have "kmem_mem s3 (it + 32 + of_nat j) = ?f (p + 8 + j)"
        using nm3 [OF inn, of j] nm(2) [of j] j l(2) \<open>i \<noteq> 0\<close> by (simp add: s2_def)
      also have "\<dots> = w ! j" using j l(2) by (subst w(2)) simp
      finally show ?thesis .
    qed
    show "kmem_mem s3 (it + 32 + of_nat (length w)) = 0"
      using nm3 [OF inn, of ?l] nm(3) \<open>i \<noteq> 0\<close> by (simp add: s2_def l(2))
  qed (use w(3) that in blast)
  have stale: "kmem_mem s3 x = kmem_mem s x" if "i = 0" "in_range (it + 32) 256 x" for x
    using nm3 [OF that(2)] in1 that hd(3) by (auto simp: s2_def)
  have frame: "kmem_mem s3 x = kmem_mem s x" if "\<not> in_range (it + 24) 264 x" "\<not> in_range (it + 8) 4 x" for x
  proof -
    have n: "\<not> in_range (it + 24) 8 x" "\<not> in_range (it + 32) 256 x"
      using that(1) in_range_mono [of "it + 24" 8 x 264] in_range_inner [of "it + 24" 8 256 x 264] by (auto simp: add.assoc)
    show ?thesis using s3o [OF that(2)] s2o [OF n(2)] hd(3) [OF _ n(1)] by simp
  qed
  have "rest_of s3 = rest_of s"
    by (simp add: s3_def entry_skip_def s2_def entry_name_def entry_head_def)
  moreover have "unat (get16 (it + 28) s3) = ?z" using z2 [OF hd3] by simp
  ultimately show thesis
    using that [OF run i3 _ adv _ w(5) rest name stale frame] w(4) l by simp
qed

section \<open>Moving on to the next block\<close>

text \<open>The iterator is in block \<open>b\<close>, whose contents are in its buffer, whatever byte it has reached.\<close>

definition in_block :: "addr \<Rightarrow> addr \<Rightarrow> addr \<Rightarrow> addr \<Rightarrow> nat \<Rightarrow> (nat \<Rightarrow> u8) \<Rightarrow> nat \<Rightarrow> 'x kmem_scheme \<Rightarrow> bool" where
  "in_block sb ino it bbuf k D b s \<longleftrightarrow> dir_at sb ino it bbuf k D b (unat (get32 (it + 8) s)) s"

definition moved :: "addr \<Rightarrow> addr \<Rightarrow> nat \<Rightarrow> 'x kmem_scheme \<Rightarrow> 'x kmem_scheme \<Rightarrow> bool" where
  "moved it bbuf k s s' \<longleftrightarrow>
     (\<forall>x. \<not> in_range (it + 8) 8 x \<longrightarrow> x \<noteq> it + 288 \<longrightarrow> \<not> in_range bbuf (512 * k) x \<longrightarrow> kmem_mem s' x = kmem_mem s x)"

lemma moved_own: "moved it bbuf k s s' \<Longrightarrow> \<not> dir_own it bbuf k x \<Longrightarrow> kmem_mem s' x = kmem_mem s x"
proof -
  assume m: "moved it bbuf k s s'" and x: "\<not> dir_own it bbuf k x"
  have "\<not> in_range (it + 8) 8 x" using x in_range_inner [of it 8 8 x 296] by (auto simp: dir_own_def)
  moreover have "x \<noteq> it + 288" using x by (auto simp: dir_own_def in_range_def)
  ultimately show ?thesis using m x by (simp add: moved_def dir_own_def)
qed

lemma moved_cur:
  assumes "moved it bbuf k s s'" "ranges_disjoint it 296 bbuf (512 * k)" "in_range (it + 24) 264 x"
  shows "kmem_mem s' x = kmem_mem s x"
proof -
  have d: "ranges_disjoint (it + 24) 264 (it + 8) 8" "ranges_disjoint (it + 24) 264 (it + 288) 1" by (simp_all add: ranges_disjoint_def)
  have "\<not> in_range (it + 8) 8 x" "\<not> in_range (it + 288) 1 x" using assms(3) d ranges_disjoint_not_both by blast+
  moreover have "in_range it 296 x" using assms(3) in_range_inner [of it 24 264 x 296] by simp
  then have "\<not> in_range bbuf (512 * k) x" using assms(2) ranges_disjoint_not_both by blast
  ultimately show ?thesis using assms(1) by (auto simp: moved_def in_range_def)
qed

context mem_drive
begin

lemma turn_stays:
  assumes "in_block sb ino it bbuf k D b s" "unat (get32 (it + 8) s) < 512 * k"
  shows "dir_turn drv sb it s = Some (s, 1)"
  using assms by (simp add: dir_turn_def it_offsets in_block_def dir_at_def dir_env_def geom_def word_le_nat_alt)

lemma turn_reads:
  assumes ok: "ok s" and inb: "in_block sb ino it bbuf k (dsk s) b s" and p: "unat (get32 (it + 8) s) = 512 * k"
    and dir: "directory (dsk s) k ino ess s" and b: "b < length ess"
  obtains s5 where "fs_ext2_read_inode_data drv sb ino (of_nat (b + 1)) bbuf (put32 (it + 12) (of_nat (b + 1)) s) =
      Some (s5, if b + 1 = length ess then 0 else 1)"
    "get32 (it + 12) s + 1 = of_nat (b + 1)" "ok s5" "dsk s5 = dsk s"
    "\<And>x. \<not> in_range (it + 12) 4 x \<Longrightarrow> \<not> in_range bbuf (512 * k) x \<Longrightarrow> kmem_mem s5 x = kmem_mem s x"
    "get32 (it + 12) s5 = of_nat (b + 1)"
    "b + 1 < length ess \<Longrightarrow> \<forall>i < 512 * k. kmem_mem s5 (bbuf + of_nat i) = dir_block (dsk s) k ino s (b + 1) i"
proof -
  let ?s4 = "put32 (it + 12) (of_nat (b + 1)) s"
  have env: "dir_env sb ino it bbuf k s" and bi: "unat (get32 (it + 12) s) = b"
    using inb by (simp_all add: in_block_def dir_at_def it_offsets)
  have dj: "ranges_disjoint it 296 bbuf (512 * k)" "ranges_disjoint bbuf (512 * k) (sb_at sb Block_logsz) 4"
    using env by (simp_all add: dir_env_def dir_apart_def)
  have N: "length ess < 2 ^ 31" "length ess < 12 + 128 * k + 128 * k * (128 * k)" using dir by (simp_all add: directory_def)
  have ub: "unat (of_nat (b + 1) :: u32) = b + 1" using N b by (intro unat_of_nat_32) simp
  have in12: "in_range it 296 x" if "in_range (it + 12) 4 x" for x using that in_range_inner [of it 12 4 x 296] by simp
  have fr4: "kmem_mem ?s4 x = kmem_mem s x" if "\<not> dir_own it bbuf k x" for x
    using that in12 [of x] by (intro put32_mem) (auto simp: dir_own_def)
  note f4 = dir_frame [OF env fr4]
  have okd: "ok ?s4" "dsk ?s4 = dsk s" using rest_frame [OF rest_of_put(2)] ok by simp_all
  have dir4: "directory (dsk s) k ino ess ?s4" using f4(3) dir by simp
  let ?fb = "file_block (dsk s) k ino (of_nat (b + 1)) ?s4"
  have blk: "((?fb = 0) = (b + 1 = length ess)) \<and> unat ?fb * k < 2 ^ 32"
  proof -
    define fb where "fb = ?fb"
    have "fb = 0" if "b + 1 = length ess" using dir4 unfolding fb_def by (simp only: directory_def that)
    moreover have "fb \<noteq> 0 \<and> unat fb * k < 2 ^ 32" if "b + 1 < length ess"
      using dir4 that unfolding fb_def directory_def by blast
    moreover have "b + 1 = length ess \<or> b + 1 < length ess" using b by linarith
    ultimately show ?thesis unfolding fb_def [symmetric] by auto
  qed
  have pre: "geom sb k ?s4" "ptrs_ok (dsk ?s4) k ino ?s4" "unat (of_nat (b + 1) :: u32) < 12 + 128 * k + 128 * k * (128 * k)"
    "unat (file_block (dsk ?s4) k ino (of_nat (b + 1)) ?s4) * k < 2 ^ 32"
    using f4(1) dir4 blk ub N b okd(2) by (simp_all add: dir_env_def directory_def)
  obtain s5 where s5: "fs_ext2_read_inode_data drv sb ino (of_nat (b + 1)) bbuf ?s4 = Some (s5, if b + 1 = length ess then 0 else 1)"
    "ok s5" "dsk s5 = dsk s" "\<And>x. \<not> in_range bbuf (512 * k) x \<Longrightarrow> kmem_mem s5 x = kmem_mem ?s4 x"
    "b + 1 \<noteq> length ess \<Longrightarrow> \<forall>i < 512 * k. kmem_mem s5 (bbuf + of_nat i) = dir_block (dsk s) k ino ?s4 (b + 1) i"
    using read_inode_data_ref [OF okd(1) pre(1-3) dj(2) pre(4)] unfolding okd(2) conjunct1 [OF blk] dir_block_def by blast
  show thesis
  proof (rule that [OF s5(1) _ s5(2,3)])
    show "get32 (it + 12) s + 1 = of_nat (b + 1)" using bi by auto
    show "kmem_mem s5 x = kmem_mem s x" if "\<not> in_range (it + 12) 4 x" "\<not> in_range bbuf (512 * k) x" for x
      using s5(4) that by (simp add: put32_mem)
    show "get32 (it + 12) s5 = of_nat (b + 1)"
    proof -
      have "ranges_disjoint bbuf (512 * k) (it + of_nat 12) 4"
        using ranges_disjoint_inner [of bbuf "512 * k" it 296 0 "512 * k" 12 4] dj(1) env
        by (simp add: ranges_disjoint_sym dir_env_def geom_def)
      then show ?thesis using get_apart(1) [OF s5(4)] by simp
    qed
    show "\<forall>i < 512 * k. kmem_mem s5 (bbuf + of_nat i) = dir_block (dsk s) k ino s (b + 1) i" if "b + 1 < length ess"
      using s5(5) f4(2) that by simp
  qed
qed

lemma turn_next:
  assumes ok: "ok s" and inb: "in_block sb ino it bbuf k (dsk s) b s" and p: "unat (get32 (it + 8) s) = 512 * k"
    and dir: "directory (dsk s) k ino ess s" and b: "b < length ess"
  shows "\<exists>s'. dir_turn drv sb it s = Some (s', 1) \<and> ok s' \<and> dsk s' = dsk s \<and> moved it bbuf k s s' \<and>
    (if b + 1 < length ess then dir_at sb ino it bbuf k (dsk s) (b + 1) 0 s' else kmem_mem s' (it + 288) = 0)"
proof -
  have env: "dir_env sb ino it bbuf k s" and fld: "get64 it s = ino" "get64 (it + 16) s = bbuf" "kmem_mem s (it + 288) \<noteq> 0"
    using inb by (simp_all add: in_block_def dir_at_def it_offsets)
  have dj: "ranges_disjoint it 296 bbuf (512 * k)" and z: "unat (blocksize sb s) = 512 * k" "k < 65536"
    using env by (simp_all add: dir_env_def geom_def)
  obtain s5 where s5: "fs_ext2_read_inode_data drv sb ino (of_nat (b + 1)) bbuf (put32 (it + 12) (of_nat (b + 1)) s) =
      Some (s5, if b + 1 = length ess then 0 else 1)"
    "get32 (it + 12) s + 1 = of_nat (b + 1)" "ok s5" "dsk s5 = dsk s"
    and fr5: "\<And>x. \<not> in_range (it + 12) 4 x \<Longrightarrow> \<not> in_range bbuf (512 * k) x \<Longrightarrow> kmem_mem s5 x = kmem_mem s x"
    and b5: "get32 (it + 12) s5 = of_nat (b + 1)"
    "b + 1 < length ess \<Longrightarrow> \<forall>i < 512 * k. kmem_mem s5 (bbuf + of_nat i) = dir_block (dsk s) k ino s (b + 1) i"
    using turn_reads [OF ok inb p dir b] by metis
  let ?s4 = "put32 (it + 12) (of_nat (b + 1)) s"
  have g4: "get64 it ?s4 = ino" "get64 (it + 16) ?s4 = bbuf" "get32 (it + 12) ?s4 = of_nat (b + 1)"
    using fld by (simp_all add: get64_put32_other ranges_disjoint_def)
  have full: "blocksize sb s \<le> get32 (it + 8) s" using p z(1) by (simp add: word_le_nat_alt)
  have out8: "\<not> in_range (it + 12) 4 x" "\<not> in_range (it + 8) 4 x" if "\<not> in_range (it + 8) 8 x" for x
    using that in_range_inner [of "it + 8" 4 4 x 8] in_range_mono [of "it + 8" 4 x 8] by (auto simp: add.assoc)
  have turn: "dir_turn drv sb it s = (if b + 1 = length ess
      then Some (put8 (it + 288) 0 (put32 (it + 8) (get32 (it + 8) (put32 (it + 12) (of_nat b) s5) -
             ucast (get16 (it + 28) (put32 (it + 12) (of_nat b) s5))) (put32 (it + 12) (of_nat b) s5)), 1)
      else Some (put32 (it + 8) 0 s5, 1))"
    using full s5(1,2) g4 b5(1) by (simp add: dir_turn_def it_offsets Let_def add.commute [of 1 "of_nat b"])
  show ?thesis
  proof (cases "b + 1 = length ess")
    case True
    let ?t = "put8 (it + 288) 0 (put32 (it + 8) (get32 (it + 8) (put32 (it + 12) (of_nat b) s5) -
             ucast (get16 (it + 28) (put32 (it + 12) (of_nat b) s5))) (put32 (it + 12) (of_nat b) s5))"
    have mo: "rest_of ?t = rest_of s5" by simp
    have "moved it bbuf k s ?t"
      unfolding moved_def by (simp add: put32_mem out8 fr5)
    with True turn rest_frame [OF mo] s5(3,4) show ?thesis by (intro exI [of _ ?t]) simp
  next
    case False
    let ?t = "put32 (it + 8) 0 s5"
    have m: "moved it bbuf k s ?t" unfolding moved_def by (simp add: put32_mem out8 fr5)
    note f = dir_frame [OF env moved_own [OF m]]
    have "ranges_disjoint (it + of_nat 8) 4 (bbuf + of_nat 0) (512 * k)"
      using z(2) by (intro ranges_disjoint_inner [OF dj]) simp_all
    then have buf: "kmem_mem ?t (bbuf + of_nat i) = kmem_mem s5 (bbuf + of_nat i)" if "i < 512 * k" for i
      using that z(2) unat_of_nat_64 [of i] by (intro put32_mem ranges_disjoint_notin [of _ _ bbuf "512 * k"]) (simp_all add: in_range_def)
    have keep: "kmem_mem s5 x = kmem_mem s x"
      if "in_range (it + of_nat j) n x" "j + n \<le> 296" "ranges_disjoint (it + of_nat j) n (it + 12) 4" for x j n
      using that in_range_inner [of it j n x 296] dj ranges_disjoint_not_both by (intro fr5) auto
    have s5f: "get64 it s5 = ino" "get64 (it + 16) s5 = bbuf" "kmem_mem s5 (it + 288) \<noteq> 0"
      using fld get64_cong [of it s5 s] get64_cong [of "it + 16" s5 s] keep [of 0 8] keep [of 16 8] keep [of 288 1 "it + 288"]
      by (simp_all add: ranges_disjoint_def in_range_def)
    have f5: "get64 it ?t = ino" "get64 (it + 16) ?t = bbuf" "get32 (it + 12) ?t = of_nat (b + 1)" "get32 (it + 8) ?t = 0"
      "kmem_mem ?t (it + 288) \<noteq> 0"
      using s5f b5(1) by (simp_all add: get64_put32_other get32_put32_other ranges_disjoint_def put32_mem in_range_def)
    have ub: "unat (of_nat (b + 1) :: u32) = b + 1" using dir b by (intro unat_of_nat_32) (simp add: directory_def)
    have "dir_at sb ino it bbuf k (dsk s) (b + 1) 0 ?t"
      using f(1,2) f5 ub b5(2) buf False b by (simp add: dir_at_def it_offsets)
    with False b turn rest_frame [OF rest_of_put(2)] s5(3,4) m show ?thesis by (intro exI [of _ ?t]) simp
  qed
qed

text \<open>One call of \<^verbatim>\<open>fs_ext2_iterate_dir_next\<close>, with the entries \<open>es\<close> left in the block behind the one it delivers.\<close>

definition dir_after ::
  "addr \<Rightarrow> addr \<Rightarrow> addr \<Rightarrow> addr \<Rightarrow> nat \<Rightarrow> (nat \<Rightarrow> u8) \<Rightarrow> nat \<Rightarrow> (u32 \<times> u8 list) list \<Rightarrow> nat \<Rightarrow> 'x kmem_scheme \<Rightarrow> bool" where
  "dir_after sb ino it bbuf k D b es n s \<longleftrightarrow>
     (if es \<noteq> [] then \<exists>p. dir_at sb ino it bbuf k D b p s \<and> dir_chain (dir_block D k ino s b) (512 * k) p es
      else if b + 1 < n then dir_at sb ino it bbuf k D (b + 1) 0 s else kmem_mem s (it + 288) = 0)"

lemma next_entry:
  assumes ok: "ok s" and at: "dir_at sb ino it bbuf k (dsk s) b p s"
    and chain: "dir_chain (dir_block (dsk s) k ino s b) (512 * k) p ((i, w) # es)"
    and dir: "directory (dsk s) k ino ess s" and b: "b < length ess"
  obtains s' where "fs_ext2_iterate_dir_next drv sb it s = Some (s', 1)" "ok s'" "dsk s' = dsk s"
    "\<And>x. \<not> dir_own it bbuf k x \<Longrightarrow> kmem_mem s' x = kmem_mem s x" "get32 (it + 24) s' = i"
    "i \<noteq> 0 \<Longrightarrow> cstr_at (kmem_mem s') (it + 32) w" "\<And>x. i = 0 \<Longrightarrow> in_range (it + 32) 256 x \<Longrightarrow> kmem_mem s' x = kmem_mem s x"
    "dir_after sb ino it bbuf k (dsk s) b es (length ess) s'" "length w < 256"
proof -
  have env: "dir_env sb ino it bbuf k s" and fld: "get64 it s = ino" "get64 (it + 16) s = bbuf" "kmem_mem s (it + 288) \<noteq> 0"
    "unat (get32 (it + 12) s) = b" and buf: "\<And>j. j < 512 * k \<Longrightarrow> kmem_mem s (bbuf + of_nat j) = dir_block (dsk s) k ino s b j"
    using at by (simp_all add: dir_at_def it_offsets)
  have dj: "ranges_disjoint it 296 bbuf (512 * k)" and k: "k < 65536" using env by (simp_all add: dir_env_def geom_def)
  obtain s3 z where run: "fs_ext2_iterate_dir_next drv sb it s = dir_turn drv sb it s3"
    and s3: "get32 (it + 24) s3 = i" "unat (get32 (it + 8) s3) = p + z" "8 \<le> z" "p + z \<le> 512 * k"
    "dir_chain (dir_block (dsk s) k ino s b) (512 * k) (p + z) es"
    "i \<noteq> 0 \<Longrightarrow> cstr_at (kmem_mem s3) (it + 32) w" "\<And>x. i = 0 \<Longrightarrow> in_range (it + 32) 256 x \<Longrightarrow> kmem_mem s3 x = kmem_mem s x" "length w < 256"
    and fr3: "\<And>x. \<not> in_range (it + 24) 264 x \<Longrightarrow> \<not> in_range (it + 8) 4 x \<Longrightarrow> kmem_mem s3 x = kmem_mem s x"
    and mo: "rest_of s3 = rest_of s"
    using entry_step [OF at chain] by metis
  have okd: "ok s3" "dsk s3 = dsk s" using rest_frame [OF mo] ok by simp_all
  have parts: "in_range it 296 x" if "in_range (it + 24) 264 x \<or> in_range (it + 8) 4 x" for x
    using that in_range_inner [of it 24 264 x 296] in_range_inner [of it 8 4 x 296] by auto
  have fro: "kmem_mem s3 x = kmem_mem s x" if "\<not> dir_own it bbuf k x" for x
    using that parts by (intro fr3) (auto simp: dir_own_def)
  note f3 = dir_frame [OF env fro]
  have keep: "kmem_mem s3 x = kmem_mem s x"
    if "in_range (it + of_nat j) n x" "ranges_disjoint (it + of_nat j) n (it + 24) 264" "ranges_disjoint (it + of_nat j) n (it + 8) 4" for x j n
    using that ranges_disjoint_not_both by (intro fr3) blast+
  have f: "get64 it s3 = ino" "get64 (it + 16) s3 = bbuf" "unat (get32 (it + 12) s3) = b" "kmem_mem s3 (it + 288) \<noteq> 0"
    using fld get64_cong [of it s3 s] get64_cong [of "it + 16" s3 s] get32_cong [of "it + 12" s3 s]
      keep [of 0 8] keep [of 16 8] keep [of 12 4] keep [of 288 1 "it + 288"]
    by (simp_all add: ranges_disjoint_def in_range_def)
  have buf3: "kmem_mem s3 (bbuf + of_nat j) = kmem_mem s (bbuf + of_nat j)" if "j < 512 * k" for j
  proof -
    have "in_range bbuf (512 * k) (bbuf + of_nat j)" using that k unat_of_nat_64 [of j] by (simp add: in_range_def)
    then show ?thesis using dj parts ranges_disjoint_not_both by (intro fr3) blast+
  qed
  have inb: "dir_at sb ino it bbuf k (dsk s) b (p + z) s3"
    using f3(1,2) f s3(2) buf buf3 by (simp add: dir_at_def it_offsets)
  then have inb': "in_block sb ino it bbuf k (dsk s3) b s3" using s3(2) okd(2) by (simp add: in_block_def)
  have dir3: "directory (dsk s3) k ino ess s3" using dir f3(3) okd(2) by simp
  show thesis
  proof (cases "p + z < 512 * k")
    case True
    then have "es \<noteq> []" using s3(5) by auto
    then have "dir_after sb ino it bbuf k (dsk s) b es (length ess) s3" using inb s3(5) f3(2) by (auto simp: dir_after_def)
    with that [OF _ okd fro s3(1,6,7)] run turn_stays [OF inb'] s3(2,8) True show thesis by simp
  next
    case False
    then have full: "unat (get32 (it + 8) s3) = 512 * k" using s3(2,4) by simp
    have "es = []" using s3(4,5) False by (cases es) auto
    from turn_next [OF okd(1) inb' full dir3 b] obtain s' where s': "dir_turn drv sb it s3 = Some (s', 1)" "ok s'" "dsk s' = dsk s3"
      "moved it bbuf k s3 s'" and aft: "if b + 1 < length ess then dir_at sb ino it bbuf k (dsk s3) (b + 1) 0 s' else kmem_mem s' (it + 288) = 0"
      by blast
    have cur: "kmem_mem s' x = kmem_mem s3 x" if "in_range (it + 24) 264 x" for x by (rule moved_cur [OF s'(4) dj that])
    have nm: "in_range (it + 24) 264 x" if "in_range (it + 32) 256 x" for x
      using that in_range_inner [of "it + 24" 8 256 x 264] by (simp add: add.assoc)
    show thesis
    proof (rule that [of s'])
      show "fs_ext2_iterate_dir_next drv sb it s = Some (s', 1)" using run s'(1) by simp
      show "ok s'" "dsk s' = dsk s" "length w < 256" using s'(2,3) okd(2) s3(8) by simp_all
      show "kmem_mem s' x = kmem_mem s x" if "\<not> dir_own it bbuf k x" for x using moved_own [OF s'(4) that] fro [OF that] by simp
      show "get32 (it + 24) s' = i"
        using get32_cong [of "it + 24" s' s3] cur in_range_mono [of "it + 24" 4 _ 264] s3(1) by simp
      show "kmem_mem s' x = kmem_mem s x" if "i = 0" "in_range (it + 32) 256 x" for x using cur [OF nm [OF that(2)]] s3(7) that by simp
      show "dir_after sb ino it bbuf k (dsk s) b es (length ess) s'" using aft \<open>es = []\<close> okd(2) by (auto simp: dir_after_def split: if_splits)
      show "cstr_at (kmem_mem s') (it + 32) w" if "i \<noteq> 0"
      proof (rule cstr_at_transport [OF s3(6) [OF that]])
        show "kmem_mem s' (it + 32 + of_nat j) = kmem_mem s3 (it + 32 + of_nat j)" if "j \<le> length w" for j
          using that s3(8) unat_of_nat_64 [of j] by (intro cur nm) (simp add: in_range_def)
      qed
    qed
  qed
qed

lemma dir_lookup_Cons: "dir_lookup t ((i, w) # es) = (if i \<noteq> 0 \<and> w = t then i else dir_lookup t es)"
  by (simp add: dir_lookup_def)

lemma apart_cstr:
  assumes "cstr_at (kmem_mem s) p t" "dir_apart it bbuf k p (length t + 1)" "length t < 2 ^ 63"
    and "\<And>x. \<not> dir_own it bbuf k x \<Longrightarrow> kmem_mem s' x = kmem_mem s x"
  shows "cstr_at (kmem_mem s') p t"
proof (rule cstr_at_transport [OF assms(1)])
  fix j
  assume "j \<le> length t"
  then have "in_range p (length t + 1) (p + of_nat j)" using assms(3) unat_of_nat_64 [of j] by (simp add: in_range_def)
  then show "kmem_mem s' (p + of_nat j) = kmem_mem s (p + of_nat j)" using assms(2,4) dir_apart_own by blast
qed

lemma find_entry_ref:
  assumes "ok s" "dir_at sb ino it bbuf k (dsk s) b p s" "dir_chain (dir_block (dsk s) k ino s b) (512 * k) p es" "es \<noteq> []"
    and "directory (dsk s) k ino ess s" "b < length ess"
    and "cstr_at (kmem_mem s) fcur t" and t: "dir_apart it bbuf k fcur (length t + 1)" "length t < 2 ^ 63"
    and "fst (hd es) \<noteq> 0 \<or> (\<exists>v. cstr_at (kmem_mem s) (it + 32) v \<and> length v < 256 \<and> v \<noteq> t)"
  shows "\<exists>s'. find_entry drv sb it fcur s = Some (s', dir_lookup t (es @ concat (drop (b + 1) ess))) \<and> ok s' \<and> dsk s' = dsk s \<and>
    (\<forall>x. \<not> dir_own it bbuf k x \<longrightarrow> kmem_mem s' x = kmem_mem s x)"
  using assms(1-7,10)
proof (induction "length (es @ concat (drop (b + 1) ess))" arbitrary: es b p s rule: less_induct)
  case less
  obtain i w es' where es: "es = (i, w) # es'" using less.prems(4) by (cases es) auto
  have env: "dir_env sb ino it bbuf k s" using less.prems(2) by (simp add: dir_at_def)
  obtain s1 where s1: "fs_ext2_iterate_dir_next drv sb it s = Some (s1, 1)" "ok s1" "dsk s1 = dsk s"
    and fr1: "\<And>x. \<not> dir_own it bbuf k x \<Longrightarrow> kmem_mem s1 x = kmem_mem s x"
    and num: "get32 (it + 24) s1 = i" and nm: "i \<noteq> 0 \<Longrightarrow> cstr_at (kmem_mem s1) (it + 32) w"
    and old: "\<And>x. i = 0 \<Longrightarrow> in_range (it + 32) 256 x \<Longrightarrow> kmem_mem s1 x = kmem_mem s x"
    and aft: "dir_after sb ino it bbuf k (dsk s) b es' (length ess) s1" and l: "length w < 256"
    using next_entry [OF less.prems(1,2) less.prems(3) [unfolded es] less.prems(5,6)] by metis
  note f1 = dir_frame [OF env fr1]
  have str1: "cstr_at (kmem_mem s1) fcur t" using apart_cstr [OF less.prems(7) t fr1] by blast
  obtain v where v: "cstr_at (kmem_mem s1) (it + 32) v" "length v < 256" "i \<noteq> 0 \<and> v = w \<or> i = 0 \<and> v \<noteq> t"
  proof (cases "i = 0")
    case True
    then obtain v where v: "cstr_at (kmem_mem s) (it + 32) v" "length v < 256" "v \<noteq> t" using less.prems(8) es by auto
    have "cstr_at (kmem_mem s1) (it + 32) v"
    proof (rule cstr_at_transport [OF v(1)])
      fix j
      assume "j \<le> length v"
      then show "kmem_mem s1 (it + 32 + of_nat j) = kmem_mem s (it + 32 + of_nat j)"
        using v(2) unat_of_nat_64 [of j] by (intro old True) (simp add: in_range_def)
    qed
    with True v that show thesis by blast
  next
    case False
    with nm l that show thesis by blast
  qed
  have cmp: "strcmp (kmem_mem s1) (it + 32) fcur = Some (cmp_bytes (v @ [0]) (t @ [0]))" by (rule strcmp_cstr [OF v(1) str1])
  have eq: "cmp_bytes (v @ [0]) (t @ [0]) = 0 \<longleftrightarrow> v = t"
    using cmp_bytes_cstr_eq_0 cstr_at_nonzero [OF v(1)] cstr_at_nonzero [OF str1] by blast
  have run: "find_entry drv sb it fcur s = (if v = t then Some (s1, i) else find_entry drv sb it fcur s1)"
    by (subst find_entry.simps) (simp add: s1(1) it_offsets cmp eq num)
  show ?case
  proof (cases "v = t")
    case True
    then have "i \<noteq> 0" "w = t" using v(3) by auto
    with run True s1(2,3) fr1 es show ?thesis by (simp add: dir_lookup_Cons)
  next
    case False
    then have skip: "dir_lookup t (es @ concat (drop (b + 1) ess)) = dir_lookup t (es' @ concat (drop (b + 1) ess))"
      using v(3) es by (auto simp: dir_lookup_Cons)
    have dir1: "directory (dsk s1) k ino ess s1" using less.prems(5) f1(3) s1(3) by simp
    have stale: "fst (hd xs) \<noteq> 0 \<or> (\<exists>v. cstr_at (kmem_mem s1) (it + 32) v \<and> length v < 256 \<and> v \<noteq> t)" for xs :: "(u32 \<times> u8 list) list"
      using v(1,2) False by blast
    have fin: ?thesis if "\<exists>s'. find_entry drv sb it fcur s1 = Some (s', dir_lookup t (es' @ concat (drop (b + 1) ess))) \<and> ok s' \<and>
        dsk s' = dsk s1 \<and> (\<forall>x. \<not> dir_own it bbuf k x \<longrightarrow> kmem_mem s' x = kmem_mem s1 x)"
      using that run False skip s1(3) fr1 by auto
    consider (same) "es' \<noteq> []" | (turned) "es' = []" "b + 1 < length ess" | (ended) "es' = []" "\<not> b + 1 < length ess" by blast
    then show ?thesis
    proof cases
      case same
      then obtain q where "dir_at sb ino it bbuf k (dsk s1) b q s1" "dir_chain (dir_block (dsk s1) k ino s1 b) (512 * k) q es'"
        using aft s1(3) by (auto simp: dir_after_def)
      from less.hyps [OF _ s1(2) this same dir1 less.prems(6) str1 stale] es show ?thesis by (intro fin) simp
    next
      case turned
      have at1: "dir_at sb ino it bbuf k (dsk s1) (b + 1) 0 s1" using aft turned s1(3) by (simp add: dir_after_def)
      have ch1: "dir_chain (dir_block (dsk s1) k ino s1 (b + 1)) (512 * k) 0 (ess ! (b + 1))"
        using dir1 turned(2) by (simp add: directory_def)
      have ne: "ess ! (b + 1) \<noteq> []"
      proof
        assume "ess ! (b + 1) = []"
        with ch1 have "512 * k = 0" by simp
        with env show False by (simp add: dir_env_def geom_def)
      qed
      have cc: "concat (drop (b + 1) ess) = ess ! (b + 1) @ concat (drop (b + 1 + 1) ess)"
        using turned(2) by (simp flip: Cons_nth_drop_Suc)
      from less.hyps [OF _ s1(2) at1 ch1 ne dir1 turned(2) str1 stale] es turned(1) cc show ?thesis by (intro fin) simp
    next
      case ended
      then have "kmem_mem s1 (it + 288) = 0" using aft by (simp add: dir_after_def)
      then have "find_entry drv sb it fcur s1 = Some (s1, 0)"
        by (subst find_entry.simps) (simp add: iterate_dir_next_steps)
      with ended s1(2,3) less.prems(6) show ?thesis by (intro fin) (simp add: dir_lookup_def)
    qed
  qed
qed

lemma start_dir:
  assumes ok: "ok s" and env: "dir_env sb ino it bbuf k s" and dir: "directory (dsk s) k ino ess s" and ne: "ess \<noteq> []"
  obtains s1 where "fs_ext2_iterate_dir_start drv sb ino it bbuf s = Some s1" "ok s1" "dsk s1 = dsk s"
    "dir_at sb ino it bbuf k (dsk s1) 0 0 s1" "\<And>x. \<not> dir_own it bbuf k x \<Longrightarrow> kmem_mem s1 x = kmem_mem s x"
proof -
  let ?t = "put64 (it + 16) bbuf (put32 (it + 12) 0 (put32 (it + 8) 0 (put64 it ino s)))"
  have dj: "ranges_disjoint it 296 bbuf (512 * k)" "ranges_disjoint bbuf (512 * k) (sb_at sb Block_logsz) 4" and k: "k < 65536"
    using env by (simp_all add: dir_env_def dir_apart_def geom_def)
  have parts: "in_range it 296 x" if "in_range it 8 x \<or> in_range (it + 8) 4 x \<or> in_range (it + 12) 4 x \<or> in_range (it + 16) 8 x" for x
    using that in_range_mono [of it 8 x 296] in_range_inner [of it 8 4 x 296] in_range_inner [of it 12 4 x 296]
      in_range_inner [of it 16 8 x 296] by auto
  have frt: "kmem_mem ?t x = kmem_mem s x" if "\<not> in_range it 296 x" for x
  proof -
    have "\<not> in_range it 8 x" "\<not> in_range (it + 8) 4 x" "\<not> in_range (it + 12) 4 x" "\<not> in_range (it + 16) 8 x"
      using that parts by blast+
    then show ?thesis by (simp add: put64_mem put32_mem)
  qed
  have frt': "kmem_mem ?t x = kmem_mem s x" if "\<not> dir_own it bbuf k x" for x
    using that frt by (simp add: dir_own_def)
  note ft = dir_frame [OF env frt']
  have okd: "ok ?t" "dsk ?t = dsk s" using rest_frame [of ?t s] ok by simp_all
  have dirt: "directory (dsk ?t) k ino ess ?t" using ft(3) dir okd(2) by simp
  then have f0: "ptrs_ok (dsk ?t) k ino ?t" "file_block (dsk ?t) k ino 0 ?t \<noteq> 0" "unat (file_block (dsk ?t) k ino 0 ?t) * k < 2 ^ 32"
    using ne by (auto simp: directory_def dest: spec [of _ 0])
  have pre: "geom sb k ?t" "unat (0 :: u32) < 12 + 128 * k + 128 * k * (128 * k)" using ft(1) by (simp_all add: dir_env_def)
  obtain s2 where s2: "fs_ext2_read_inode_data drv sb ino 0 bbuf ?t = Some (s2, 1)" "ok s2" "dsk s2 = dsk ?t"
    and fr2: "\<And>x. \<not> in_range bbuf (512 * k) x \<Longrightarrow> kmem_mem s2 x = kmem_mem ?t x"
    and by2: "\<And>i. i < 512 * k \<Longrightarrow> kmem_mem s2 (bbuf + of_nat i) = dir_block (dsk ?t) k ino ?t 0 i"
    using read_inode_data_ref [OF okd(1) pre(1) f0(1) pre(2) dj(2) f0(3)] f0(2) by (auto simp: dir_block_def)
  let ?s1 = "put8 (it + 288) 1 s2"
  have run: "fs_ext2_iterate_dir_start drv sb ino it bbuf s = Some ?s1"
    using s2(1) by (simp add: fs_ext2_iterate_dir_start_def it_offsets Let_def)
  have fr: "kmem_mem ?s1 x = kmem_mem s x" if "\<not> dir_own it bbuf k x" for x
    using that fr2 frt by (auto simp: dir_own_def in_range_def)
  note f1 = dir_frame [OF env fr]
  have out: "kmem_mem ?s1 x = kmem_mem ?t x" if "in_range it 24 x" for x
  proof -
    have "in_range it 296 x" "x \<noteq> it + 288" using that in_range_mono [of it 24 x 296] by (auto simp: in_range_def)
    moreover from this(1) have "\<not> in_range bbuf (512 * k) x" using dj(1) ranges_disjoint_not_both by blast
    ultimately show ?thesis using fr2 by simp
  qed
  have f: "get64 it ?s1 = get64 it ?t" "get64 (it + 16) ?s1 = get64 (it + 16) ?t" "get32 (it + 12) ?s1 = get32 (it + 12) ?t"
    "get32 (it + 8) ?s1 = get32 (it + 8) ?t"
    using out in_range_mono [of it 8 _ 24] in_range_inner [of it 16 8 _ 24] in_range_inner [of it 12 4 _ 24] in_range_inner [of it 8 4 _ 24]
    by (intro get64_cong get32_cong; simp)+
  have t: "get64 it ?t = ino" "get64 (it + 16) ?t = bbuf" "get32 (it + 12) ?t = 0" "get32 (it + 8) ?t = 0"
    by (simp_all add: get_put64 get64_put32_other get32_put32_other ranges_disjoint_def)
  have buf: "kmem_mem ?s1 (bbuf + of_nat i) = kmem_mem s2 (bbuf + of_nat i)" if "i < 512 * k" for i
  proof -
    have "in_range bbuf (512 * k) (bbuf + of_nat i)" using that k unat_of_nat_64 [of i] by (simp add: in_range_def)
    then have "\<not> in_range it 296 (bbuf + of_nat i)" using dj(1) ranges_disjoint_not_both by blast
    then have "bbuf + of_nat i \<noteq> it + 288" by (auto simp: in_range_def)
    then show ?thesis by simp
  qed
  have "dir_at sb ino it bbuf k (dsk s) 0 0 ?s1"
    using f1(1,2) ft(2) f t buf by2 okd(2) by (simp add: dir_at_def it_offsets)
  with that [OF run] rest_frame [OF rest_of_put(1)] s2(2,3) okd(2) fr show thesis by simp
qed

lemma search_ref:
  assumes "ok s" "dir_env sb ino it bbuf k s" "directory (dsk s) k ino ess s" "ess \<noteq> []" "fst (hd (hd ess)) \<noteq> 0"
    and "cstr_at (kmem_mem s) fcur t" "dir_apart it bbuf k fcur (length t + 1)" "length t < 2 ^ 63"
  shows "\<exists>s1 s'. fs_ext2_iterate_dir_start drv sb ino it bbuf s = Some s1 \<and>
    find_entry drv sb it fcur s1 = Some (s', dir_lookup t (concat ess)) \<and> ok s' \<and> dsk s' = dsk s \<and>
    (\<forall>x. \<not> dir_own it bbuf k x \<longrightarrow> kmem_mem s' x = kmem_mem s x)"
proof -
  obtain s1 where s1: "fs_ext2_iterate_dir_start drv sb ino it bbuf s = Some s1" "ok s1" "dsk s1 = dsk s"
    "dir_at sb ino it bbuf k (dsk s1) 0 0 s1" and fr: "\<And>x. \<not> dir_own it bbuf k x \<Longrightarrow> kmem_mem s1 x = kmem_mem s x"
    using start_dir [OF assms(1-4)] by metis
  note f = dir_frame [OF assms(2) fr]
  have dir1: "directory (dsk s1) k ino ess s1" using assms(3) f(3) s1(3) by simp
  have b: "0 < length ess" using assms(4) by simp
  then have ch: "dir_chain (dir_block (dsk s1) k ino s1 0) (512 * k) 0 (ess ! 0)"
    using dir1 unfolding directory_def by (metis of_nat_0)
  have hd: "hd ess = ess ! 0" using assms(4) by (simp add: hd_conv_nth)
  have ne: "ess ! 0 \<noteq> []"
  proof
    assume "ess ! 0 = []"
    with ch have "512 * k = 0" by simp
    with assms(2) show False by (simp add: dir_env_def geom_def)
  qed
  have str: "cstr_at (kmem_mem s1) fcur t" using apart_cstr [OF assms(6-8) fr] by blast
  obtain s' where s': "find_entry drv sb it fcur s1 = Some (s', dir_lookup t (ess ! 0 @ concat (drop (0 + 1) ess)))" "ok s'" "dsk s' = dsk s1"
    "\<forall>x. \<not> dir_own it bbuf k x \<longrightarrow> kmem_mem s' x = kmem_mem s1 x"
    using find_entry_ref [OF s1(2,4) ch ne dir1 b str assms(7,8)] assms(5) hd by metis
  have "ess ! 0 @ concat (drop (0 + 1) ess) = concat ess"
    using assms(4) by (cases ess) simp_all
  with s1(1,3) s' fr show ?thesis by auto
qed

end

section \<open>Properties\<close>

text \<open>
  Searching an ext2 directory for a name: after the iterator has been started, the search loop of the
  path resolution returns the inode number of the first used entry of the directory, over all its blocks
  on the disk and in their order, whose name is the one looked for, and 0 if there is none. It skips unused
  entries, reads the next block when one is used up, always ends, leaves the disk as it is and writes to the
  iterator and to the block buffer only.
\<close>

theorem directory_search_finds_name:
  assumes "drives d0 drive" "sel_ok d0 dp s" "dir_env sb ino it bbuf k s"
    and "directory (disk_of d0 s) k ino ess s" "ess \<noteq> []" "fst (hd (hd ess)) \<noteq> 0"
    and "cstr_at (kmem_mem s) fcur t" "dir_apart it bbuf k fcur (length t + 1)" "length t < 2 ^ 63"
  shows "\<exists>s1 s'. fs_ext2_iterate_dir_start (pio_ops (ata_hw d0) dp drive) sb ino it bbuf s = Some s1 \<and>
    find_entry (pio_ops (ata_hw d0) dp drive) sb it fcur s1 = Some (s', dir_lookup t (concat ess)) \<and>
    disk_of d0 s' = disk_of d0 s \<and> (\<forall>x. \<not> dir_own it bbuf k x \<longrightarrow> kmem_mem s' x = kmem_mem s x)"
  using pio.search_ref [OF conjI [OF assms(1,2)] assms(3-9)] by blast

text \<open>A directory with the names \<open>.\<close>, an unused entry and \<open>x\<close> in block 5, and \<open>ab\<close> in block 7.\<close>

definition demo_dir_data :: "nat \<Rightarrow> u8" where
  "demo_dir_data = (\<lambda>_. 0)(5120 := 2, 5124 := 12, 5126 := 1, 5128 := 0x2E,
     5136 := 0xF4, 5137 := 1, 5138 := 1, 5140 := 0x61, 5632 := 11, 5637 := 2, 5638 := 1, 5640 := 0x78,
     7168 := 12, 7173 := 4, 7174 := 2, 7176 := 0x61, 7177 := 0x62)"

definition demo_dir_dev :: ata_dev where
  "demo_dir_dev = demo_dev\<lparr>disk := demo_dir_data\<rparr>"

definition demo_dir :: machine where
  "demo_dir = demo_fs\<lparr>kmem_mem := demo_mem(0x200078 := 2, 0x20032C := 7, 0x600000 := 0x61, 0x600001 := 0x62)\<rparr>"

definition demo_entries :: "(u32 \<times> u8 list) list list" where
  "demo_entries = [[(2, [0x2E]), (0, [0x61]), (11, [0x78])], [(12, [0x61, 0x62])]]"

lemma demo_req: "sb_at demo_sb Req_features = 0x200078"
  by (simp add: sb_at_def demo_sb_def sb_layout_def sb_base_layout_def sb_ext_layout_def pad_def)

lemma demo_dir_fields:
  "get32 (sb_at demo_sb Block_logsz) demo_dir = 0" "get32 (sb_at demo_sb Req_features) demo_dir = 2"
  "get32 (dbp_at demo_ino 0) demo_dir = 5" "get32 (dbp_at demo_ino 1) demo_dir = 7" "get32 (dbp_at demo_ino 2) demo_dir = 0"
  "get32 (inode_at demo_ino Sibp) demo_dir = 6" "get32 (inode_at demo_ino Dibp) demo_dir = 0"
  "cstr_at (kmem_mem demo_dir) 0x600000 [0x61, 0x62]"
proof -
  show "get32 (sb_at demo_sb Block_logsz) demo_dir = 0" "get32 (sb_at demo_sb Req_features) demo_dir = 2"
    unfolding demo_req by (simp_all add: sb_at_def sb_offsets get32_def load32_def load_numeral demo_sb_def demo_dir_def demo_mem_def)
  show "get32 (dbp_at demo_ino 0) demo_dir = 5" "get32 (dbp_at demo_ino 1) demo_dir = 7" "get32 (dbp_at demo_ino 2) demo_dir = 0"
    "get32 (inode_at demo_ino Sibp) demo_dir = 6" "get32 (inode_at demo_ino Dibp) demo_dir = 0"
    by (simp_all add: dbp_at_def inode_at_def inode_layout_def pad_def get32_def load32_def load_numeral demo_ino_def demo_dir_def
        demo_mem_def)
  show "cstr_at (kmem_mem demo_dir) 0x600000 [0x61, 0x62]" by (simp add: demo_dir_def demo_mem_def)
qed

lemma demo_dir_disk: "disk_of demo_dir_dev demo_dir = demo_dir_data" "drives demo_dir_dev demo_drive"
  "sel_ok demo_dir_dev 0x8000 demo_dir"
  by (simp_all add: disk_of_def demo_dir_def demo_fs_def demo_machine_def dev_at_def drives_def demo_dir_dev_def demo_dev_def
      demo_drive_def sel_ok_def)

lemma demo_dir_env: "dir_env demo_sb demo_ino 0x400000 0x300000 2 demo_dir"
  unfolding dir_env_def geom_def blocksize_def demo_dir_fields unfolding demo_req
  by (simp add: dir_apart_def ranges_disjoint_def demo_ino_def demo_sb_def
      sb_at_def sb_offsets FS_EXT2_SB_RWFEATURE_DIRS_HAVE_TYPE_FIELD_def)

lemma disk_bytes:
  "disk32 f p = ucast (f p) + 256 * (ucast (f (p + 1)) + 256 * (ucast (f (p + 2)) + 256 * ucast (f (p + 3))))"
  "disk16 f p = ucast (f p) + 256 * ucast (f (p + 1))"
  by (simp_all add: disk32_def disk16_def load32_def load16_def load_numeral distrib_left)

definition demo_blk :: "nat \<Rightarrow> nat \<Rightarrow> u8" where
  "demo_blk b i = demo_dir_data (1024 * b + i)"

lemma demo_entry_bytes:
  "disk32 (demo_blk 5) 0 = 2" "disk16 (demo_blk 5) 4 = 12" "demo_blk 5 6 = 1" "demo_blk 5 8 = 0x2E"
  "disk32 (demo_blk 5) 12 = 0" "disk16 (demo_blk 5) 16 = 500" "demo_blk 5 18 = 1" "demo_blk 5 20 = 0x61"
  "disk32 (demo_blk 5) 512 = 11" "disk16 (demo_blk 5) 516 = 512" "demo_blk 5 518 = 1" "demo_blk 5 520 = 0x78"
  "disk32 (demo_blk 7) 0 = 12" "disk16 (demo_blk 7) 4 = 1024" "demo_blk 7 6 = 2" "demo_blk 7 8 = 0x61" "demo_blk 7 9 = 0x62"
  by (simp_all add: disk_bytes demo_blk_def demo_dir_data_def)

lemma demo_directory: "directory demo_dir_data 2 demo_ino demo_entries demo_dir"
proof -
  have f: "file_block demo_dir_data 2 demo_ino 0 demo_dir = 5" "file_block demo_dir_data 2 demo_ino 1 demo_dir = 7" "file_block demo_dir_data 2 demo_ino 2 demo_dir = 0"
    by (simp_all add: file_block_def block_ref_def demo_dir_fields)
  have p: "ptrs_ok demo_dir_data 2 demo_ino demo_dir" by (simp add: ptrs_ok_def ptr_in_def demo_dir_fields)
  have d: "dir_block demo_dir_data 2 demo_ino demo_dir 0 = demo_blk 5" "dir_block demo_dir_data 2 demo_ino demo_dir 1 = demo_blk 7"
    by (simp_all add: fun_eq_iff dir_block_def demo_blk_def f)
  have c: "dir_chain (demo_blk 5) (512 * 2) 0 (demo_entries ! 0)" "dir_chain (demo_blk 7) (512 * 2) 0 (demo_entries ! 1)"
    by (simp_all add: demo_entries_def demo_entry_bytes)
  have "b = 0 \<or> b = 1" if "b < length demo_entries" for b using that by (auto simp: demo_entries_def)
  then have "file_block demo_dir_data 2 demo_ino (of_nat b) demo_dir \<noteq> 0 \<and> unat (file_block demo_dir_data 2 demo_ino (of_nat b) demo_dir) * 2 < 2 ^ 32 \<and>
      dir_chain (dir_block demo_dir_data 2 demo_ino demo_dir b) (512 * 2) 0 (demo_entries ! b)" if "b < length demo_entries" for b
    using that f c d by fastforce
  moreover have "length demo_entries = 2" by (simp add: demo_entries_def)
  ultimately show ?thesis using p f(3) by (simp add: directory_def)
qed

theorem directory_search_finds_name_witness:
  "\<exists>s1 s'. fs_ext2_iterate_dir_start (pio_ops (ata_hw demo_dir_dev) 0x8000 demo_drive) demo_sb demo_ino 0x400000 0x300000 demo_dir =
      Some s1 \<and> find_entry (pio_ops (ata_hw demo_dir_dev) 0x8000 demo_drive) demo_sb 0x400000 0x600000 s1 = Some (s', 12)"
proof -
  have h: "demo_entries \<noteq> []" "fst (hd (hd demo_entries)) \<noteq> 0" "dir_apart 0x400000 0x300000 2 0x600000 (length [0x61, 0x62 :: u8] + 1)"
    "length [0x61, 0x62 :: u8] < 2 ^ 63" "dir_lookup [0x61, 0x62] (concat demo_entries) = 12"
    by (simp_all add: demo_entries_def dir_apart_def ranges_disjoint_def dir_lookup_def)
  show ?thesis
    using directory_search_finds_name [OF demo_dir_disk(2,3) demo_dir_env demo_directory [folded demo_dir_disk(1)] h(1,2) demo_dir_fields(8) h(3,4)]
    unfolding h(5) by blast
qed

end
