(* ===== verification/Fs_paths.thy ===== *)
theory Fs_paths
  imports Ext2_ops
begin

unbundle bit_operations_syntax

text \<open>
  Paths and file types: the walk over the names of a path (\<^verbatim>\<open>fs_next_file\<close> of \<^verbatim>\<open>fs/fs.c\<close>), the split of a
  path into directory and name and the conversion of file types (\<^verbatim>\<open>fs_ext2_sep_fname_and_dir\<close> and
  \<^verbatim>\<open>fs_ext2_type_*\<close> of \<^verbatim>\<open>fs/ext2.c\<close>), each against a definition on lists of characters.
\<close>

section \<open>The names of a path\<close>

text \<open>The parts between slashes; a slash at the end does not start another name.\<close>

function split_slash :: "u8 list \<Rightarrow> u8 list list" where
  "split_slash [] = []"
| "split_slash (x # xs) =
     (let w = takeWhile (\<lambda>c. c \<noteq> SLASH) (x # xs) in w # split_slash (drop (length w) xs))"
  by pat_completeness auto

termination by (relation "measure length") auto

text \<open>A client that asks for names until there is none, and the names it gets.\<close>

inductive walks :: "'x kmem_scheme \<Rightarrow> addr \<Rightarrow> addr list \<Rightarrow> 'x kmem_scheme \<Rightarrow> bool" where
  stop: "fs_next_file cur s = Some (s', cur', NULL) \<Longrightarrow> walks s cur [] s'"
| step: "fs_next_file cur s = Some (s', cur', q) \<Longrightarrow> q \<noteq> NULL \<Longrightarrow> walks s' cur' qs t \<Longrightarrow> walks s cur (q # qs) t"

lemma next_file_scan_end:
  "cstr_at m c (w @ r) \<Longrightarrow> SLASH \<notin> set w \<Longrightarrow> r = [] \<or> hd r = SLASH \<Longrightarrow> next_file_scan m c = Some (c + of_nat (length w))"
proof (induction w arbitrary: c)
  case Nil
  then show ?case by (cases r) (auto simp: next_file_scan.simps [of m c])
next
  case (Cons x w)
  then have "next_file_scan m (c + 1) = Some (c + 1 + of_nat (length w))" by simp
  with Cons.prems show ?case by (auto simp: next_file_scan.simps [of m c] add.assoc)
qed

lemma cstr_at_cong:
  assumes "cstr_at m p w" "\<And>x. unat p \<le> unat x \<Longrightarrow> unat x \<le> unat p + length w \<Longrightarrow> m' x = m x" "unat p + length w < 2 ^ 64"
  shows "cstr_at m' p w"
proof (rule cstr_at_transport [OF assms(1)])
  fix i
  assume "i \<le> length w"
  then have "unat (p + of_nat i) = unat p + i"
    using assms(3) by (subst unat_plus_nowrap) (simp_all add: unat_of_nat_64)
  with \<open>i \<le> length w\<close> show "m' (p + of_nat i) = m (p + of_nat i)" by (intro assms(2)) simp_all
qed

text \<open>One call: the first name is closed by a null byte, the rest of the path is as before.\<close>

lemma next_file_step:
  assumes str: "cstr_at (kmem_mem s) p (x # xs)" and fit: "unat p + length (x # xs) < 2 ^ 64"
    and w: "w = takeWhile (\<lambda>c. c \<noteq> SLASH) (x # xs)"
  obtains s' q where "fs_next_file p s = Some (s', q, p)" "cstr_at (kmem_mem s') p w" "cstr_at (kmem_mem s') q (drop (length w) xs)"
    "unat q + length (drop (length w) xs) \<le> unat p + length (x # xs)" "unat p + length w \<le> unat q"
    "unat p + length w < unat q \<or> drop (length w) xs = []"
    "\<And>a. unat a < unat p + length w \<or> unat p + length (x # xs) \<le> unat a \<Longrightarrow> kmem_mem s' a = kmem_mem s a"
    "kmem.more s' = kmem.more s"
proof -
  define r where "r = dropWhile (\<lambda>c. c \<noteq> SLASH) (x # xs)"
  have split: "x # xs = w @ r" by (simp add: w r_def del: takeWhile.simps dropWhile.simps)
  have ns: "SLASH \<notin> set w" unfolding w using set_takeWhileD [of SLASH "\<lambda>c. c \<noteq> SLASH" "x # xs"] by blast
  have hd: "r = [] \<or> hd r = SLASH" unfolding r_def using hd_dropWhile [of "\<lambda>c. c \<noteq> SLASH" "x # xs"] by blast
  let ?e = "p + of_nat (length w)"
  have len: "length (x # xs) = length w + length r" unfolding split by simp
  have ue: "unat ?e = unat p + length w"
    using fit len by (subst unat_plus_nowrap) (simp_all add: unat_of_nat_64)
  have scan: "next_file_scan (kmem_mem s) p = Some ?e" using str ns hd unfolding split by (rule next_file_scan_end)
  have nz: "kmem_mem s p \<noteq> 0" using str by simp
  have tl: "drop (length w) xs = drop 1 r"
    using split by (metis One_nat_def drop_Suc_Cons drop_drop append_eq_conv_conj plus_1_eq_Suc)
  define s' where "s' = put8 ?e 0 s"
  have mem: "kmem_mem s' = (kmem_mem s)(?e := 0)" "kmem.more s' = kmem.more s" by (cases s, simp_all add: s'_def put8_def)
  have parts: "cstr_at (kmem_mem s) ?e r" "\<forall>i < length w. kmem_mem s (p + of_nat i) = w ! i" "0 \<notin> set w"
    using str unfolding split cstr_at_append by simp_all
  have low: "kmem_mem s' (p + of_nat i) = w ! i" if "i < length w" for i
  proof -
    have "unat (p + of_nat i) = unat p + i" using that fit len by (subst unat_plus_nowrap) (simp_all add: unat_of_nat_64)
    then have "p + of_nat i \<noteq> ?e" using ue that by auto
    with that parts(2) mem show ?thesis by simp
  qed
  then have name: "cstr_at (kmem_mem s') p w" using parts(3) mem cstr_at_append [of "kmem_mem s'" p w "[]"] by simp
  show thesis
  proof (cases r)
    case Nil
    then have z: "kmem_mem s ?e = 0" using parts(1) by simp
    then have "kmem_mem s' = kmem_mem s" using mem(1) by auto
    moreover have "fs_next_file p s = Some (s', ?e, p)" using scan z nz by (simp add: fs_next_file_def s'_def Let_def)
    ultimately show thesis using name z mem(2) ue Nil tl len by (intro that [of s' ?e]) simp_all
  next
    case (Cons c r')
    with hd parts(1) have c: "kmem_mem s ?e = SLASH" "SLASH \<noteq> 0" "cstr_at (kmem_mem s) (?e + 1) r'" by simp_all
    have uq: "unat (?e + 1) = unat p + length w + 1"
      using ue fit len Cons by (subst unat_plus_nowrap) simp_all
    have "cstr_at (kmem_mem s') (?e + 1) r'"
      using c(3) uq ue fit len Cons by (intro cstr_at_cong [OF c(3)]) (auto simp: mem(1))
    moreover have "fs_next_file p s = Some (s', ?e + 1, p)"
      using scan c nz by (simp add: fs_next_file_def s'_def Let_def)
    moreover have "kmem_mem s' a = kmem_mem s a" if "unat a < unat p + length w \<or> unat p + length (x # xs) \<le> unat a" for a
    proof -
      have "a \<noteq> ?e" using that ue len Cons by auto
      then show ?thesis by (simp add: mem(1))
    qed
    moreover have "drop (length w) xs = r'" using tl Cons by simp
    moreover have "unat (?e + 1) + length r' \<le> unat p + length (x # xs)" using uq len Cons by simp
    ultimately show thesis using name mem(2) uq by (intro that [of s' "?e + 1"]) simp_all
  qed
qed

lemma walk_splits:
  assumes "cstr_at (kmem_mem s) p path" "unat p + length path < 2 ^ 64" "p \<noteq> NULL"
  shows "\<exists>qs t. walks s p qs t \<and> list_all2 (cstr_at (kmem_mem t)) qs (split_slash path) \<and> kmem.more t = kmem.more s \<and>
    (\<forall>a. unat a < unat p \<or> unat p + length path \<le> unat a \<longrightarrow> kmem_mem t a = kmem_mem s a)"
  using assms
proof (induction path arbitrary: s p rule: split_slash.induct)
  case 1
  then have "fs_next_file p s = Some (s, p, NULL)" by (simp add: fs_next_file_def)
  then have "walks s p [] s" by (rule walks.stop)
  then show ?case by (intro exI [of _ "[]"] exI [of _ s]) simp
next
  case (2 x xs)
  define w where "w = takeWhile (\<lambda>c. c \<noteq> SLASH) (x # xs)"
  obtain s1 q where s1: "fs_next_file p s = Some (s1, q, p)" "cstr_at (kmem_mem s1) p w" "cstr_at (kmem_mem s1) q (drop (length w) xs)"
    "unat q + length (drop (length w) xs) \<le> unat p + length (x # xs)" "unat p + length w \<le> unat q"
    "unat p + length w < unat q \<or> drop (length w) xs = []"
    "\<And>a. unat a < unat p + length w \<or> unat p + length (x # xs) \<le> unat a \<Longrightarrow> kmem_mem s1 a = kmem_mem s a" "kmem.more s1 = kmem.more s"
    using next_file_step [OF 2(2,3) w_def] by metis
  have q: "unat q + length (drop (length w) xs) < 2 ^ 64" "q \<noteq> NULL"
    using s1(4,5) 2(3,4) by (auto simp: unat_gt_0 [symmetric])
  obtain qs t where t: "walks s1 q qs t" "list_all2 (cstr_at (kmem_mem t)) qs (split_slash (drop (length w) xs))" "kmem.more t = kmem.more s1"
    and fr: "\<And>a. unat a < unat q \<or> unat q + length (drop (length w) xs) \<le> unat a \<Longrightarrow> kmem_mem t a = kmem_mem s1 a"
    using 2(1) [OF w_def s1(3) q] by blast
  have "walks s p (p # qs) t" using s1(1) 2(4) t(1) by (rule walks.step)
  moreover have "cstr_at (kmem_mem t) p w"
  proof (rule cstr_at_cong [OF s1(2)])
    fix a :: addr
    assume "unat p \<le> unat a" "unat a \<le> unat p + length w"
    with s1(5,6) show "kmem_mem t a = kmem_mem s1 a" by (intro fr) auto
  qed (use q s1(4,5) in linarith)
  moreover have "split_slash (x # xs) = w # split_slash (drop (length w) xs)" by (simp only: split_slash.simps w_def Let_def)
  moreover have "kmem_mem t a = kmem_mem s a" if "unat a < unat p \<or> unat p + length (x # xs) \<le> unat a" for a
  proof -
    have "kmem_mem t a = kmem_mem s1 a" using that s1(4,5) by (intro fr) linarith
    also have "\<dots> = kmem_mem s a" using that by (intro s1(7)) linarith
    finally show ?thesis .
  qed
  ultimately show ?case using t(2,3) s1(8) by (intro exI [of _ "p # qs"] exI [of _ t]) simp
qed

text \<open>
  Asking \<open>fs_next_file\<close> for names until there is none gives exactly the parts of the path between its
  slashes, each as a string of its own, and changes no memory outside the path.
\<close>

theorem next_file_walks_the_path:
  assumes "cstr_at (kmem_mem s) p path" "unat p + length path < 2 ^ 64" "p \<noteq> NULL"
  shows "\<exists>qs t. walks s p qs t \<and> list_all2 (cstr_at (kmem_mem t)) qs (split_slash path) \<and>
    (\<forall>a. unat a < unat p \<or> unat p + length path \<le> unat a \<longrightarrow> kmem_mem t a = kmem_mem s a)"
  using walk_splits [OF assms] by blast

section \<open>Directory and name\<close>

definition file_name :: "u8 list \<Rightarrow> u8 list" where
  "file_name xs = rev (takeWhile (\<lambda>c. c \<noteq> SLASH) (rev xs))"

definition dir_name :: "u8 list \<Rightarrow> u8 list" where
  "dir_name xs = take (length xs - Suc (length (file_name xs))) xs"

lemma name_parts:
  obtains "SLASH \<notin> set xs" "file_name xs = xs" "dir_name xs = []"
  | "xs = dir_name xs @ SLASH # file_name xs" "SLASH \<notin> set (file_name xs)"
proof (cases "SLASH \<in> set xs")
  case False
  then have "takeWhile (\<lambda>c. c \<noteq> SLASH) (rev xs) = rev xs" by (auto simp: takeWhile_eq_all_conv)
  then have "file_name xs = xs" by (simp only: file_name_def rev_rev_ident)
  with False that(1) show thesis by (simp add: dir_name_def)
next
  case True
  then obtain ys zs where xs: "xs = ys @ SLASH # zs" "SLASH \<notin> set zs" by (meson split_list_last)
  then have "file_name xs = zs" by (simp add: file_name_def takeWhile_append takeWhile_eq_all_conv)
  with xs that(2) show thesis by (simp add: dir_name_def)
qed

lemma last_slash_found:
  "m (p + of_nat j) = SLASH \<Longrightarrow> (\<And>i. j < i \<Longrightarrow> i \<le> n \<Longrightarrow> m (p + of_nat i) \<noteq> SLASH) \<Longrightarrow> j \<le> n \<Longrightarrow>
    unat p + n < 2 ^ 64 \<Longrightarrow> last_slash m p (p + of_nat n) = Some (Some (p + of_nat j))"
proof (induction n)
  case 0
  then show ?case by (simp add: last_slash.simps [of m p p])
next
  case (Suc n)
  have "unat (p + of_nat (Suc n)) = unat p + Suc n" using Suc.prems(4)
    by (subst unat_plus_nowrap) (simp_all add: unat_of_nat_64 del: of_nat_Suc)
  then have ge: "p + of_nat (Suc n) \<ge> p" by (simp add: word_le_nat_alt)
  have dec: "p + of_nat (Suc n) - 1 = p + of_nat n" by simp
  show ?case
  proof (cases "j = Suc n")
    case True
    with Suc.prems(1) ge show ?thesis by (subst last_slash.simps) simp
  next
    case False
    with Suc have "last_slash m p (p + of_nat n) = Some (Some (p + of_nat j))" by simp
    moreover have "m (p + of_nat (Suc n)) \<noteq> SLASH" using False Suc.prems(2) [of "Suc n"] Suc.prems(3) by simp
    ultimately show ?thesis using ge by (subst last_slash.simps) (simp only: dec if_True if_False)
  qed
qed

lemma last_slash_none:
  "(\<And>i. i \<le> n \<Longrightarrow> m (p + of_nat i) \<noteq> SLASH) \<Longrightarrow> unat p + n < 2 ^ 64 \<Longrightarrow> p \<noteq> NULL \<Longrightarrow> last_slash m p (p + of_nat n) = Some None"
proof (induction n)
  case 0
  have "p - 1 < p" using 0(3) by (simp add: word_less_nat_alt unat_minus_one unat_gt_0)
  then have "\<not> p - 1 \<ge> p" by simp
  then have "last_slash m p (p - 1) = Some None" by (subst last_slash.simps) simp
  with 0(1) [of 0] show ?case by (subst last_slash.simps) simp
next
  case (Suc n)
  have "unat (p + of_nat (Suc n)) = unat p + Suc n" using Suc.prems(2)
    by (subst unat_plus_nowrap) (simp_all add: unat_of_nat_64 del: of_nat_Suc)
  then have ge: "p + of_nat (Suc n) \<ge> p" by (simp add: word_le_nat_alt)
  have dec: "p + of_nat (Suc n) - 1 = p + of_nat n" by simp
  have "last_slash m p (p + of_nat n) = Some None" using Suc by simp
  with Suc.prems(1) [of "Suc n"] ge show ?case by (subst last_slash.simps) (simp only: dec if_True if_False order_refl)
qed

lemma copied_cstr:
  assumes str: "cstr_at m src xs" and dis: "ranges_disjoint dest (length xs + 1) src (length xs + 1)"
  shows "cstr_at (copied m dest src (length xs + 1)) dest xs" "cstr_at (copied m dest src (length xs + 1)) src xs"
proof -
  have len: "length xs + 1 < 2 ^ 64" by (rule ranges_disjoint_lt [OF dis])
  show "cstr_at (copied m dest src (length xs + 1)) dest xs"
    by (rule cstr_at_transport [OF str]) (rule copied_offset [OF _ len], simp)
  show "cstr_at (copied m dest src (length xs + 1)) src xs"
  proof (rule cstr_at_transport [OF str])
    fix i
    assume "i \<le> length xs"
    then have "in_range src (length xs + 1) (src + of_nat i)" using len by (simp add: in_range_def unat_of_nat_64)
    with dis show "copied m dest src (length xs + 1) (src + of_nat i) = m (src + of_nat i)"
      using ranges_disjoint_not_both by (intro copied_other) blast
  qed
qed

text \<open>
  \<open>fs_ext2_sep_fname_and_dir\<close> splits a path at its last slash: the buffer then holds the directory, the
  pointer that is returned leads to the name, and the path itself is unchanged. Without a slash the
  directory is the empty path, which is the root directory.
\<close>

theorem sep_fname_splits_at_last_slash:
  assumes str: "cstr_at (kmem_mem s) path xs" and dis: "ranges_disjoint path_buf (length xs + 1) path (length xs + 1)"
    and fit: "unat path_buf + length xs < 2 ^ 64" "path_buf \<noteq> NULL"
  shows "\<exists>s' q. fs_ext2_sep_fname_and_dir path path_buf s = Some (s', q) \<and> cstr_at (kmem_mem s') path_buf (dir_name xs) \<and>
    cstr_at (kmem_mem s') q (file_name xs) \<and> cstr_at (kmem_mem s') path xs"
proof -
  let ?m = "copied (kmem_mem s) path_buf path (length xs + 1)" and ?s = "s\<lparr>kmem_mem := copied (kmem_mem s) path_buf path (length xs + 1)\<rparr>"
  have cp: "strcpy_s path_buf path s = Some ?s" by (simp add: strcpy_s_def strcpy_cstr [OF str dis])
  note cs = copied_cstr [OF str dis]
  have len: "strlen_s path ?s = Some (of_nat (length xs))" using strlen_cstr [OF cs(2)] by (simp add: strlen_s_def)
  have bytes: "?m (path_buf + of_nat i) = xs ! i" if "i < length xs" for i
    using cs(1) cstr_at_append [of ?m path_buf xs "[]"] that by simp
  have zero: "?m (path_buf + of_nat (length xs)) = 0" using cs(1) cstr_at_append [of ?m path_buf xs "[]"] by simp
  have keep: "cstr_at (?m(path_buf + of_nat i := v)) path xs" if "i \<le> length xs" for i v
  proof (rule cstr_at_transport [OF cs(2)])
    fix j
    assume j: "j \<le> length xs"
    have l: "length xs + 1 < 2 ^ 64" by (rule ranges_disjoint_lt [OF dis])
    then have "in_range path_buf (length xs + 1) (path_buf + of_nat i)" "in_range path (length xs + 1) (path + of_nat j)"
      using that j by (simp_all add: in_range_def unat_of_nat_64)
    then have "path + of_nat j \<noteq> path_buf + of_nat i" using ranges_disjoint_not_both [OF dis] by metis
    then show "(?m(path_buf + of_nat i := v)) (path + of_nat j) = ?m (path + of_nat j)" by simp
  qed
  from name_parts [of xs] show ?thesis
  proof cases
    case 1
    have "last_slash ?m path_buf (path_buf + of_nat (length xs)) = Some None"
    proof (rule last_slash_none [OF _ fit])
      fix i
      assume "i \<le> length xs"
      with bytes [of i] zero 1(1) show "?m (path_buf + of_nat i) \<noteq> SLASH"
        by (cases "i = length xs") (auto simp: SLASH_def in_set_conv_nth)
    qed
    then have "fs_ext2_sep_fname_and_dir path path_buf s = Some (put8 path_buf 0 ?s, path)"
      by (simp add: fs_ext2_sep_fname_and_dir_def cp [simplified] len [simplified])
    with 1(2,3) keep [of 0 0] show ?thesis by (simp add: put8_def)
  next
    case 2
    define d f where "d = dir_name xs" and "f = file_name xs"
    have xs: "xs = d @ SLASH # f" and f: "SLASH \<notin> set f" using 2 by (simp_all add: d_def f_def)
    let ?i = "length d"
    have lt: "?i < length xs" by (simp add: xs)
    have sl: "last_slash ?m path_buf (path_buf + of_nat (length xs)) = Some (Some (path_buf + of_nat ?i))"
    proof (rule last_slash_found [OF _ _ _ fit(1)])
      show "?m (path_buf + of_nat ?i) = SLASH" using bytes [OF lt] by (simp add: xs)
    next
      fix i
      assume i: "?i < i" "i \<le> length xs"
      show "?m (path_buf + of_nat i) \<noteq> SLASH"
      proof (cases "i = length xs")
        case True
        with zero show ?thesis by (simp add: SLASH_def)
      next
        case False
        with i have "xs ! i = f ! (i - Suc ?i)" "i - Suc ?i < length f" by (simp_all add: xs nth_append nth_Cons')
        with f bytes [of i] i False show ?thesis by (metis le_neq_implies_less nth_mem)
      qed
    qed (use lt in simp)
    let ?e = "path_buf + of_nat ?i"
    have ue: "unat (path_buf + of_nat i) = unat path_buf + i" if "i \<le> length xs" for i
      using that fit by (subst unat_plus_nowrap) (simp_all add: unat_of_nat_64)
    have "fs_ext2_sep_fname_and_dir path path_buf s = Some (put8 ?e 0 ?s, ?e + 1)"
      using sl by (simp add: fs_ext2_sep_fname_and_dir_def cp [simplified] len [simplified])
    moreover have parts: "0 \<notin> set d" "\<forall>i < ?i. ?m (path_buf + of_nat i) = d ! i" "cstr_at ?m ?e (SLASH # f)"
      using cs(1) unfolding cstr_at_append xs by simp_all
    moreover have "cstr_at (?m(?e := 0)) path_buf d"
    proof -
      have "(?m(?e := 0)) (path_buf + of_nat i) = d ! i" if "i < ?i" for i
        using that parts(2) ue [of i] ue [of ?i] lt by auto
      with parts(1) show ?thesis using cstr_at_append [of "?m(?e := 0)" path_buf d "[]"] by simp
    qed
    moreover have "cstr_at (?m(?e := 0)) (?e + 1) f"
    proof (rule cstr_at_cong)
      show "cstr_at ?m (?e + 1) f" using parts(3) by simp
      have "unat (?e + 1) = unat path_buf + Suc ?i" using ue [of "Suc ?i"] lt by (simp add: add_ac)
      then show "unat (?e + 1) + length f < 2 ^ 64" using fit by (simp add: xs)
      fix a :: addr
      assume "unat (?e + 1) \<le> unat a"
      with \<open>unat (?e + 1) = unat path_buf + Suc ?i\<close> ue [of ?i] lt show "(?m(?e := 0)) a = ?m a" by auto
    qed
    ultimately show ?thesis using keep [of ?i 0] lt by (simp add: put8_def d_def f_def)
  qed
qed

section \<open>Types of files\<close>

lemma type_and_zero: "p AND 0xF000 = 0 \<Longrightarrow> c AND 0xF000 = c \<Longrightarrow> p AND c = (0 :: u16)"
proof -
  assume p: "p AND 0xF000 = 0" and c: "c AND 0xF000 = c"
  have "p AND c = (p AND 0xF000) AND c" using c by (metis and.assoc and.commute)
  with p show "p AND c = 0" by simp
qed

lemmas type_codes =
  FS_EXT2_INODE_TYPE_FIFO_def FS_EXT2_INODE_TYPE_CHARDEV_def FS_EXT2_INODE_TYPE_DIR_def FS_EXT2_INODE_TYPE_BLKDEV_def
  FS_EXT2_INODE_TYPE_FILE_def FS_EXT2_INODE_TYPE_SYMLINK_def FS_EXT2_INODE_TYPE_UNIXSOCK_def FS_CREATE_TYPE_FILE_def
  FS_CREATE_TYPE_DIR_def FS_CREATE_TYPE_SYMLINK_def FS_CREATE_TYPE_FIFO_def FS_CREATE_TYPE_DEVCHAR_def
  FS_CREATE_TYPE_DEVBLK_def FS_CREATE_TYPE_UNIX_SOCK_def FS_CREATE_TYPE_UNKNOWN_def

text \<open>
  The type of a file is written to the disk as a value but read back as a set of bits: with any
  permissions, plain files, directories and pipes keep their type, while links and sockets come back
  as plain files, block devices as directories and character devices as links.
\<close>

theorem file_type_read_back:
  assumes "perms AND 0xF000 = 0"
  shows "fs_ext2_type_ext22fs_inode (fs_ext2_type_fs2ext2_inode t OR perms) =
    (if t \<in> {FS_CREATE_TYPE_FILE, FS_CREATE_TYPE_DIR, FS_CREATE_TYPE_FIFO} then t
     else if t \<in> {FS_CREATE_TYPE_SYMLINK, FS_CREATE_TYPE_UNIX_SOCK} then FS_CREATE_TYPE_FILE
     else if t = FS_CREATE_TYPE_DEVBLK then FS_CREATE_TYPE_DIR
     else if t = FS_CREATE_TYPE_DEVCHAR then FS_CREATE_TYPE_SYMLINK
     else FS_CREATE_TYPE_UNKNOWN)"
proof -
  have m: "perms AND 0x8000 = 0" "perms AND 0x4000 = 0" "perms AND 0xA000 = 0" "perms AND 0x1000 = 0" "perms AND 0x2000 = 0"
    "perms AND 0x6000 = 0" "perms AND 0xC000 = 0"
    by (rule type_and_zero [OF assms], simp)+
  show ?thesis
    by (simp add: fs_ext2_type_ext22fs_inode_def fs_ext2_type_fs2ext2_inode_def word_ao_dist m type_codes)
qed

theorem file_type_read_back_witness:
  "fs_ext2_type_ext22fs_inode (fs_ext2_type_fs2ext2_inode FS_CREATE_TYPE_SYMLINK OR FS_EXT2_INODE_PERM_EVERYTHING) = FS_CREATE_TYPE_FILE"
  using file_type_read_back [of FS_EXT2_INODE_PERM_EVERYTHING FS_CREATE_TYPE_SYMLINK]
  by (simp add: FS_EXT2_INODE_PERM_EVERYTHING_def FS_CREATE_TYPE_FILE_def FS_CREATE_TYPE_DIR_def FS_CREATE_TYPE_SYMLINK_def
      FS_CREATE_TYPE_FIFO_def)

text \<open>The path \<^verbatim>\<open>d/f\<close> in memory.\<close>

definition demo_path :: "unit kmem_scheme" where
  "demo_path = \<lparr>kmem_mem = (\<lambda>_. 0)(0x10 := 0x64, 0x11 := SLASH, 0x12 := 0x66), occupied_to = 0, kmem_spinlock = 0, \<dots> = ()\<rparr>"

lemma demo_path_str: "cstr_at (kmem_mem demo_path) 0x10 [0x64, SLASH, 0x66]"
  by (simp add: demo_path_def SLASH_def)

theorem next_file_walks_the_path_witness:
  "\<exists>q1 q2 t. walks demo_path 0x10 [q1, q2] t \<and> cstr_at (kmem_mem t) q1 [0x64] \<and> cstr_at (kmem_mem t) q2 [0x66]"
proof -
  have "split_slash [0x64, SLASH, 0x66] = [[0x64], [0x66]]" by (simp add: SLASH_def)
  then show ?thesis using next_file_walks_the_path [OF demo_path_str] by (auto simp: list_all2_Cons2)
qed

theorem sep_fname_splits_at_last_slash_witness:
  "\<exists>s' q. fs_ext2_sep_fname_and_dir 0x10 0x20 demo_path = Some (s', q) \<and> cstr_at (kmem_mem s') 0x20 [0x64] \<and> cstr_at (kmem_mem s') q [0x66]"
  using sep_fname_splits_at_last_slash [OF demo_path_str, of "0x20"]
  by (auto simp: ranges_disjoint_def dir_name_def file_name_def SLASH_def)

end
