(* ===== verification/Path_walk.thy ===== *)
theory Path_walk
  imports Dir_search Fs_paths
begin

unbundle bit_operations_syntax

text \<open>
  Resolving a path (\<^verbatim>\<open>fs_ext2_find_final_inode\<close> of \<^verbatim>\<open>fs/ext2.c\<close>) against the tree of directories on the disk,
  for every drive with the contract \<open>block_drive\<close>: the heap, the paths, the inode table and the search of
  directories put together.
\<close>

section \<open>The tree on the disk\<close>

text \<open>The inode starts at byte \<open>p\<close> of the disk; its pointers are at 40, 88 and 92.\<close>

definition inode_block :: "(nat \<Rightarrow> u8) \<Rightarrow> nat \<Rightarrow> nat \<Rightarrow> nat \<Rightarrow> u32" where
  "inode_block D k p b = block_ref D k (\<lambda>j. disk32 D (p + 40 + 4 * j)) (disk32 D (p + 88)) (disk32 D (p + 92)) b"

definition disk_directory :: "(nat \<Rightarrow> u8) \<Rightarrow> nat \<Rightarrow> nat \<Rightarrow> (u32 \<times> u8 list) list list \<Rightarrow> bool" where
  "disk_directory D k p ess \<longleftrightarrow>
     unat (disk32 D (p + 88)) * k < 2 ^ 32 \<and> unat (disk32 D (p + 92)) * k < 2 ^ 32 \<and>
     (\<forall>i < 128 * k. unat (ptr_in D k (disk32 D (p + 92)) i) * k < 2 ^ 32) \<and>
     length ess < 12 + 128 * k + 128 * k * (128 * k) \<and> length ess < 2 ^ 31 \<and> inode_block D k p (length ess) = 0 \<and>
     (\<forall>b < length ess. inode_block D k p b \<noteq> 0 \<and> unat (inode_block D k p b) * k < 2 ^ 32 \<and>
        dir_chain (\<lambda>i. D (512 * k * unat (inode_block D k p b) + i)) (512 * k) 0 (ess ! b))"

text \<open>The directories are given by the number of their inode; following the names of a path, and the directories met.\<close>

type_synonym dir_tree = "u32 \<Rightarrow> (u32 \<times> u8 list) list list"

fun resolve :: "dir_tree \<Rightarrow> u32 \<Rightarrow> u8 list list \<Rightarrow> u32 option" where
  "resolve dirs n [] = Some n"
| "resolve dirs n (w # ws) =
     (let m = dir_lookup w (concat (dirs n)) in if m = 0 then None else resolve dirs m ws)"

fun dirs_read :: "dir_tree \<Rightarrow> u32 \<Rightarrow> u8 list list \<Rightarrow> u32 list" where
  "dirs_read dirs n [] = []"
| "dirs_read dirs n (w # ws) =
     (let m = dir_lookup w (concat (dirs n)) in n # (if m = 0 then [] else dirs_read dirs m ws))"

section \<open>An inode in memory and on the disk\<close>

lemma inode_field_bytes:
  assumes "\<And>i. i < 128 \<Longrightarrow> kmem_mem s (ino + of_nat i) = D (p + i)"
  shows "j < 12 \<Longrightarrow> get32 (dbp_at ino (of_nat j)) s = disk32 D (p + 40 + 4 * j)"
    "get32 (inode_at ino Sibp) s = disk32 D (p + 88)" "get32 (inode_at ino Dibp) s = disk32 D (p + 92)"
proof -
  have g: "get32 (ino + of_nat q) s = disk32 D (p + q)" if "q + 4 \<le> 128" for q
    unfolding get32_def
  proof (rule load32_bytes)
    show "kmem_mem s (ino + of_nat q + of_nat i) = D (p + q + i)" if "i < 4" for i
      using assms [of "q + i"] that \<open>q + 4 \<le> 128\<close> by (simp add: add.assoc)
  qed
  show "get32 (inode_at ino Sibp) s = disk32 D (p + 88)" "get32 (inode_at ino Dibp) s = disk32 D (p + 92)"
    using g [of 88] g [of 92] by (simp_all add: inode_at_def inode_layout_def pad_def)
  assume j: "j < 12"
  have "ucast (of_nat j :: u32) = (of_nat j :: u64)"
    using j unat_of_nat_32 [of j] unat_of_nat_64 [of j] by (simp add: word_unat_eq_iff unat_ucast_up)
  then have "dbp_at ino (of_nat j) = ino + of_nat (40 + 4 * j)"
    by (simp add: dbp_at_def inode_at_def inode_layout_def pad_def)
  then show "get32 (dbp_at ino (of_nat j)) s = disk32 D (p + 40 + 4 * j)"
    using g [of "40 + 4 * j"] j by (simp add: add.assoc)
qed

lemma directory_on_disk:
  assumes "\<And>i. i < 128 \<Longrightarrow> kmem_mem s (ino + of_nat i) = D (p + i)" and dir: "disk_directory D k p ess"
  shows "directory D k ino ess s"
proof -
  note f = inode_field_bytes [where s = s and ino = ino and D = D and p = p, OF assms(1)]
  have fb: "file_block D k ino (of_nat b) s = inode_block D k p b" if "b \<le> length ess" for b
  proof -
    have "unat (of_nat b :: u32) = b" using that dir by (intro unat_of_nat_32) (simp add: disk_directory_def)
    then show ?thesis by (simp add: file_block_def inode_block_def block_ref_def f Let_def)
  qed
  then have db: "dir_block D k ino s b = (\<lambda>i. D (512 * k * unat (inode_block D k p b) + i))" if "b < length ess" for b
    using that by (simp add: dir_block_def fun_eq_iff)
  have "ptrs_ok D k ino s" using dir by (simp add: ptrs_ok_def disk_directory_def f)
  then show ?thesis using dir by (simp add: directory_def disk_directory_def fb db)
qed

section \<open>Buffers on the heap\<close>

definition headers :: "blk list \<Rightarrow> addr \<Rightarrow> bool" where
  "headers bs x \<longleftrightarrow> (\<exists>b \<in> set bs. in_range (fst b) 24 x)"

text \<open>What changes when the heap grows from \<open>bs\<close> to \<open>bs'\<close> and the new blocks are used.\<close>

definition heap_own :: "blk list \<Rightarrow> blk list \<Rightarrow> addr \<Rightarrow> bool" where
  "heap_own bs bs' x \<longleftrightarrow> headers bs' x \<or> (\<exists>b \<in> set bs' - set bs. in_range (fst b + 24) (unat (snd b)) x)"

lemma heap_own_place:
  assumes "heap_ok bs" "room z 1 bs" "place z 1 bs = (bs', g, gap)"
  shows "heap_own bs bs' x \<longleftrightarrow> headers bs' x \<or> in_range (g + 24) (unat z) x"
    "headers bs' x \<longleftrightarrow> headers bs x \<or> in_range g 24 x" "heap_ok bs'"
    "in_range (g + 24) (unat z) x \<Longrightarrow> \<not> headers bs' x"
proof -
  note r = place_release [OF assms]
  have "set bs' - set bs = {(g, z)}" using r(3,4) by blast
  then show "heap_own bs bs' x \<longleftrightarrow> headers bs' x \<or> in_range (g + 24) (unat z) x" by (simp add: heap_own_def)
  show "headers bs' x \<longleftrightarrow> headers bs x \<or> in_range g 24 x" using r(3) by (auto simp: headers_def)
  show ok: "heap_ok bs'" using place_heap_ok [OF assms] by metis
  assume "in_range (g + 24) (unat z) x"
  then show "\<not> headers bs' x"
    using hdr_payload_apart [of bs' "(g, z)" _ x] ok r(3) by (auto simp: headers_def heap_ok_def)
qed

lemma kmem_inv_cong: "kmem_inv bs s \<Longrightarrow> (\<And>x. headers bs x \<Longrightarrow> kmem_mem s' x = kmem_mem s x) \<Longrightarrow> kmem_inv bs s'"
  using heap_at_frame [of "kmem_mem s" bs "kmem_mem s'"] by (auto simp: kmem_inv_def headers_def)

lemma buffer_alloc:
  assumes "kmem_inv bs s" "kmem_spinlock s = 0" "room z 1 bs" "place z 1 bs = (bs', g, False)"
  obtains s1 where "kmalloc None z s = Some (s1, g + 24)" "kmem.more s1 = kmem.more s" "kmem_spinlock s1 = 0"
    "kmem_inv bs' s1" "\<And>x. \<not> headers bs' x \<Longrightarrow> kmem_mem s1 x = kmem_mem s x"
proof -
  obtain s1 where s1: "kmalloc_align None z 1 s = Some (s1, g + 24)" "kmem_inv bs' s1" "kmem_spinlock s1 = 0"
    "keeps_payload bs' (kmem_mem s) (kmem_mem s1)"
    using kmalloc_align_place [OF assms(2,1,3) _ assms(4), of None] by (auto simp: hooks_ok_def)
  with that kmalloc_more [OF s1(1)] show thesis by (simp add: kmalloc_def keeps_payload_def headers_def)
qed

lemma buffer_free:
  assumes "heap_ok bs" "room z 1 bs" "place z 1 bs = (bs', g, False)" "kmem_inv bs' s" "kmem_spinlock s = 0"
  obtains s1 where "kfree (g + 24) s = Some s1" "kmem.more s1 = kmem.more s" "kmem_spinlock s1 = 0"
    "kmem_inv bs s1" "\<And>x. \<not> headers bs' x \<Longrightarrow> kmem_mem s1 x = kmem_mem s x"
proof -
  note r = place_release [OF assms(1-3)]
  obtain s1 where s1: "kfree (g + 24) s = Some s1" "kmem_inv bs s1" "kmem_spinlock s1 = 0" "keeps_payload bs' (kmem_mem s) (kmem_mem s1)"
    using kfree_release [OF assms(5,4) r(2)] r(1) by auto
  with that kfree_more [OF s1(1)] show thesis by (simp add: keeps_payload_def headers_def)
qed

text \<open>Three blocks that are allocated one after the other.\<close>

definition three_blocks ::
  "blk list \<Rightarrow> u64 \<Rightarrow> u64 \<Rightarrow> u64 \<Rightarrow> (blk list \<times> addr) \<Rightarrow> (blk list \<times> addr) \<Rightarrow> (blk list \<times> addr) \<Rightarrow> bool" where
  "three_blocks bs z1 z2 z3 = (\<lambda>(bs1, g1) (bs2, g2) (bs3, g3).
     room z1 1 bs \<and> place z1 1 bs = (bs1, g1, False) \<and> room z2 1 bs1 \<and> place z2 1 bs1 = (bs2, g2, False) \<and>
     room z3 1 bs2 \<and> place z3 1 bs2 = (bs3, g3, False))"

lemma three_blocks_own:
  assumes "heap_ok bs" "three_blocks bs z1 z2 z3 (bs1, g1) (bs2, g2) (bs3, g3)"
  shows "heap_own bs bs3 x \<longleftrightarrow> heap_own bs2 bs3 x \<or> in_range (g1 + 24) (unat z1) x \<or> in_range (g2 + 24) (unat z2) x"
    "headers bs1 x \<Longrightarrow> headers bs2 x" "headers bs2 x \<Longrightarrow> headers bs3 x"
    "in_range (g1 + 24) (unat z1) x \<Longrightarrow> \<not> heap_own bs2 bs3 x \<and> \<not> in_range (g2 + 24) (unat z2) x"
    "in_range (g2 + 24) (unat z2) x \<Longrightarrow> \<not> heap_own bs2 bs3 x" "heap_ok bs1" "heap_ok bs2"
    "g1 + 24 \<noteq> NULL" "unat (g1 + 24) + unat z1 \<le> 2 ^ 64"
proof -
  have p: "room z1 1 bs" "place z1 1 bs = (bs1, g1, False)" "room z2 1 bs1" "place z2 1 bs1 = (bs2, g2, False)"
    "room z3 1 bs2" "place z3 1 bs2 = (bs3, g3, False)"
    using assms(2) by (simp_all add: three_blocks_def)
  show ok1: "heap_ok bs1" and ok2: "heap_ok bs2" using heap_own_place(3) assms(1) p by blast+
  have ok3: "blks_ordered bs3" using heap_own_place(3) [OF ok2 p(5,6)] by (simp add: heap_ok_def)
  note r1 = place_release [OF assms(1) p(1,2)] and r2 = place_release [OF ok1 p(3,4)] and r3 = place_release [OF ok2 p(5,6)]
  have "set bs3 - set bs = {(g1, z1), (g2, z2), (g3, z3)}" using r1(3,4) r2(3,4) r3(3,4) by blast
  moreover have "set bs3 - set bs2 = {(g3, z3)}" using r3(3,4) by blast
  ultimately show "heap_own bs bs3 x \<longleftrightarrow> heap_own bs2 bs3 x \<or> in_range (g1 + 24) (unat z1) x \<or> in_range (g2 + 24) (unat z2) x"
    by (auto simp: heap_own_def)
  show "headers bs1 x \<Longrightarrow> headers bs2 x" "headers bs2 x \<Longrightarrow> headers bs3 x" using r2(3) r3(3) by (auto simp: headers_def)
  have mem: "(g1, z1) \<in> set bs3" "(g2, z2) \<in> set bs3" "(g3, z3) \<in> set bs3" using r1(3) r2(3) r3(3) by simp_all
  have "(g1, z1) \<noteq> (g2, z2)" "(g1, z1) \<noteq> (g3, z3)" "(g2, z2) \<noteq> (g3, z3)"
    using r1(3) r2(3,4) r3(4) by (metis insertI1 insertI2)+
  then have dj: "ranges_disjoint (g1 + 24) (unat z1) (g2 + 24) (unat z2)" "ranges_disjoint (g1 + 24) (unat z1) (g3 + 24) (unat z3)"
    "ranges_disjoint (g2 + 24) (unat z2) (g3 + 24) (unat z3)"
    using payload_disjoint [OF ok3 mem(1,2)] payload_disjoint [OF ok3 mem(1,3)] payload_disjoint [OF ok3 mem(2,3)] by simp_all
  have h: "\<not> headers bs3 x" if "(g, z) \<in> set bs3" "in_range (g + 24) (unat z) x" for g z
    using hdr_payload_apart [OF ok3 that(1)] that(2) by (auto simp: headers_def)
  note own = heap_own_place(1) [OF ok2 p(5,6)]
  show "in_range (g1 + 24) (unat z1) x \<Longrightarrow> \<not> heap_own bs2 bs3 x \<and> \<not> in_range (g2 + 24) (unat z2) x"
    unfolding own using h [OF mem(1)] dj(1,2) ranges_disjoint_not_both by blast
  show "in_range (g2 + 24) (unat z2) x \<Longrightarrow> \<not> heap_own bs2 bs3 x"
    unfolding own using h [OF mem(2)] dj(3) ranges_disjoint_not_both by blast
  have "blk_end (g1, z1) < 2 ^ 64" using ok3 mem(1) by (auto simp: blks_ordered_def)
  then have "unat (g1 + 24) = unat g1 + 24" "unat g1 + 24 + unat z1 < 2 ^ 64" by (simp_all add: unat_plus_nowrap blk_end_def)
  then show "unat (g1 + 24) + unat z1 \<le> 2 ^ 64" "g1 + 24 \<noteq> NULL" by (simp, auto)
qed

section \<open>Reading an inode\<close>

text \<open>Superblock and group table: what \<^verbatim>\<open>fs_ext2_read_inode\<close> reads of them, and where it finds an inode.\<close>

definition fs_meta :: "addr \<Rightarrow> addr \<Rightarrow> nat \<Rightarrow> 'x kmem_scheme \<Rightarrow> addr \<Rightarrow> bool" where
  "fs_meta sb bt ng s x \<longleftrightarrow> in_range sb 236 x \<or> in_range bt 8 x \<or> in_range (get64 bt s) (32 * ng) x"

definition inode_params :: "addr \<Rightarrow> nat \<Rightarrow> nat \<Rightarrow> 'x kmem_scheme \<Rightarrow> bool" where
  "inode_params sb ng k s \<longleftrightarrow> geom sb k s \<and> inode_size sb s = 128 \<and> get32 (sb_at sb Inodes_per_group) s \<noteq> 0 \<and> 32 * ng \<le> 2 ^ 64"

definition inode_group :: "addr \<Rightarrow> u32 \<Rightarrow> 'x kmem_scheme \<Rightarrow> u32" where
  "inode_group sb n s = (n - 1) div get32 (sb_at sb Inodes_per_group) s"

definition inode_index :: "addr \<Rightarrow> u32 \<Rightarrow> 'x kmem_scheme \<Rightarrow> nat" where
  "inode_index sb n s = unat ((n - 1) mod get32 (sb_at sb Inodes_per_group) s)"

definition inode_table :: "addr \<Rightarrow> addr \<Rightarrow> u32 \<Rightarrow> 'x kmem_scheme \<Rightarrow> nat" where
  "inode_table sb bt n s = unat (get32 (group_at bt (inode_group sb n s) Inode_table_addr s) s)"

definition inode_pos :: "addr \<Rightarrow> addr \<Rightarrow> nat \<Rightarrow> u32 \<Rightarrow> 'x kmem_scheme \<Rightarrow> nat" where
  "inode_pos sb bt k n s = 512 * k * inode_table sb bt n s + 128 * inode_index sb n s"

definition inode_there :: "addr \<Rightarrow> addr \<Rightarrow> nat \<Rightarrow> nat \<Rightarrow> u32 \<Rightarrow> 'x kmem_scheme \<Rightarrow> bool" where
  "inode_there sb bt ng k n s \<longleftrightarrow> unat (inode_group sb n s) < ng \<and> 128 * inode_index sb n s < 2 ^ 32 \<and>
     (inode_table sb bt n s + 128 * inode_index sb n s div (512 * k)) * k < 2 ^ 32"

lemma more_sb_offsets:
  "sb_at sb Block_logsz = sb + of_nat 24" "sb_at sb Inodes_per_group = sb + of_nat 40" "sb_at sb Inode_size = sb + of_nat 88"
  "sb_at sb Req_features = sb + of_nat 96"
  by (simp_all add: sb_at_def sb_layout_def sb_base_layout_def sb_ext_layout_def pad_def)

lemma fs_meta_agree:
  fixes s s' :: "'x kmem_scheme"
  assumes "\<forall>x. fs_meta sb bt ng s x \<longrightarrow> kmem_mem s' x = kmem_mem s x"
  shows "blocksize sb s' = blocksize sb s" "get32 (sb_at sb Inodes_per_group) s' = get32 (sb_at sb Inodes_per_group) s"
    "inode_size sb s' = inode_size sb s" "get32 (sb_at sb Req_features) s' = get32 (sb_at sb Req_features) s"
    "fs_meta sb bt ng s' = fs_meta sb bt ng s" "inode_params sb ng k s' = inode_params sb ng k s"
    "32 * ng \<le> 2 ^ 64 \<Longrightarrow> unat i < ng \<Longrightarrow> get32 (group_at bt i Inode_table_addr s') s' = get32 (group_at bt i Inode_table_addr s) s"
proof -
  note a = assms [rule_format]
  have sb: "kmem_mem s' x = kmem_mem s x" if "in_range (sb + of_nat j) n x" "j + n \<le> 236" for j n x
    using in_range_inner [OF that] by (intro a) (simp add: fs_meta_def)
  show bs: "blocksize sb s' = blocksize sb s" by (rule geom_cong(1)) (use sb [of 24 4] in \<open>simp add: more_sb_offsets\<close>)
  show ipg: "get32 (sb_at sb Inodes_per_group) s' = get32 (sb_at sb Inodes_per_group) s"
    and "get32 (sb_at sb Req_features) s' = get32 (sb_at sb Req_features) s"
    unfolding more_sb_offsets by (rule get32_cong, erule sb, simp)+
  have "load_le 2 (kmem_mem s') (sb_at sb Inode_size) = load_le 2 (kmem_mem s) (sb_at sb Inode_size)"
    unfolding more_sb_offsets by (rule load_le_cong) (erule sb, simp)
  then show isz: "inode_size sb s' = inode_size sb s"
    by (simp add: inode_size_def get16_def load16_def del: load_le.simps)
  show gt: "fs_meta sb bt ng s' = fs_meta sb bt ng s"
  proof -
    have "get64 bt s' = get64 bt s" by (rule get64_cong, rule a) (simp add: fs_meta_def)
    then show ?thesis by (simp add: fs_meta_def fun_eq_iff)
  qed
  show "inode_params sb ng k s' = inode_params sb ng k s" by (simp add: inode_params_def geom_def bs isz ipg)
  assume ng: "32 * ng \<le> 2 ^ 64" "unat i < ng"
  have g: "get64 bt s' = get64 bt s" by (rule get64_cong, rule a) (simp add: fs_meta_def)
  have at: "group_at bt i Inode_table_addr t = get64 bt t + of_nat (32 * unat i + 8)" for t :: "'x kmem_scheme"
    using sizeof_blkgrp_eq by (simp add: group_at_def bt_groups_at blkgrp_layout_def pad_def unsigned_ucast_eq)
  show "get32 (group_at bt i Inode_table_addr s') s' = get32 (group_at bt i Inode_table_addr s) s"
    unfolding at g
  proof (rule get32_cong)
    fix x
    assume x: "in_range (get64 bt s + of_nat (32 * unat i + 8)) 4 x"
    have "in_range (get64 bt s) (32 * ng) x" by (rule in_range_inner [OF x]) (use ng in simp_all)
    then show "kmem_mem s' x = kmem_mem s x" by (intro a) (simp add: fs_meta_def)
  qed
qed

section \<open>The state of a walk\<close>

text \<open>
  The iterator at \<open>it\<close> with the inode of the directory behind it, the block buffer \<open>bbuf\<close>, the copy of the path
  in \<open>pn\<close> bytes at \<open>pb\<close>, and the heap with the buffer that reading an inode will get.
\<close>

definition dir_area :: "blk list \<Rightarrow> blk list \<Rightarrow> addr \<Rightarrow> addr \<Rightarrow> nat \<Rightarrow> addr \<Rightarrow> bool" where
  "dir_area bs bs' it bbuf k x \<longleftrightarrow> heap_own bs bs' x \<or> in_range it 424 x \<or> in_range bbuf (512 * k) x"

definition walk_env ::
  "addr \<Rightarrow> addr \<Rightarrow> nat \<Rightarrow> nat \<Rightarrow> blk list \<Rightarrow> blk list \<Rightarrow> addr \<Rightarrow> addr \<Rightarrow> addr \<Rightarrow> nat \<Rightarrow> 'x kmem_scheme \<Rightarrow> bool" where
  "walk_env sb bt ng k bs bs' it bbuf pb pn s \<longleftrightarrow>
     kmem_inv bs s \<and> kmem_spinlock s = 0 \<and> room (of_nat (512 * k)) 1 bs \<and> (\<exists>g. place (of_nat (512 * k)) 1 bs = (bs', g, False)) \<and>
     inode_params sb ng k s \<and> get32 (sb_at sb Req_features) s AND FS_EXT2_SB_RWFEATURE_DIRS_HAVE_TYPE_FIELD \<noteq> 0 \<and>
     (\<forall>x. fs_meta sb bt ng s x \<longrightarrow> \<not> dir_area bs bs' it bbuf k x \<and> \<not> in_range pb pn x) \<and>
     (\<forall>x. in_range pb pn x \<longrightarrow> \<not> dir_area bs bs' it bbuf k x) \<and>
     (\<forall>x. in_range it 424 x \<longrightarrow> \<not> heap_own bs bs' x \<and> \<not> in_range bbuf (512 * k) x) \<and>
     (\<forall>x. in_range bbuf (512 * k) x \<longrightarrow> \<not> heap_own bs bs' x) \<and> pb \<noteq> NULL \<and> unat pb + pn \<le> 2 ^ 64"

lemma walk_env_keep:
  fixes s s' :: "'x kmem_scheme"
  assumes "walk_env sb bt ng k bs bs' it bbuf pb pn s" "kmem_inv bs s'" "kmem_spinlock s' = 0"
    and "\<forall>x. \<not> dir_area bs bs' it bbuf k x \<longrightarrow> \<not> in_range pb pn x \<longrightarrow> kmem_mem s' x = kmem_mem s x"
  shows "walk_env sb bt ng k bs bs' it bbuf pb pn s'" "\<forall>x. fs_meta sb bt ng s x \<longrightarrow> kmem_mem s' x = kmem_mem s x"
proof -
  show m: "\<forall>x. fs_meta sb bt ng s x \<longrightarrow> kmem_mem s' x = kmem_mem s x" using assms(1,4) unfolding walk_env_def by blast
  note f = fs_meta_agree [where s = s and s' = s' and sb = sb and bt = bt and ng = ng, OF m]
  show "walk_env sb bt ng k bs bs' it bbuf pb pn s'"
    using assms(1-3) unfolding walk_env_def f(4-6) by blast
qed

lemma inode_agree:
  fixes s s' :: "'x kmem_scheme"
  assumes "\<forall>x. fs_meta sb bt ng s x \<longrightarrow> kmem_mem s' x = kmem_mem s x" "inode_params sb ng k s" "inode_there sb bt ng k n s"
  shows "inode_there sb bt ng k n s'" "inode_pos sb bt k n s' = inode_pos sb bt k n s"
proof -
  note f = fs_meta_agree [where s = s and s' = s' and sb = sb and bt = bt and ng = ng, OF assms(1)]
  have g: "inode_group sb n s' = inode_group sb n s" "inode_index sb n s' = inode_index sb n s"
    by (simp_all add: inode_group_def inode_index_def f(2))
  have "32 * ng \<le> 2 ^ 64" "unat (inode_group sb n s) < ng" using assms(2,3) by (simp_all add: inode_params_def inode_there_def)
  then have t: "inode_table sb bt n s' = inode_table sb bt n s" using f(7) by (simp add: inode_table_def g)
  show "inode_there sb bt ng k n s'" "inode_pos sb bt k n s' = inode_pos sb bt k n s"
    using assms(3) by (simp_all add: inode_there_def inode_pos_def g t)
qed

text \<open>A directory of the tree, as the search needs it; \<open>D\<close> is the disk.\<close>

definition dir_node ::
  "(nat \<Rightarrow> u8) \<Rightarrow> addr \<Rightarrow> addr \<Rightarrow> nat \<Rightarrow> nat \<Rightarrow> dir_tree \<Rightarrow> 'x kmem_scheme \<Rightarrow> u32 \<Rightarrow> bool" where
  "dir_node D sb bt ng k dirs s n \<longleftrightarrow> inode_there sb bt ng k n s \<and> disk_directory D k (inode_pos sb bt k n s) (dirs n) \<and>
     dirs n \<noteq> [] \<and> fst (hd (hd (dirs n))) \<noteq> 0"

lemma dir_node_agree:
  fixes s s' :: "'x kmem_scheme"
  shows "\<forall>x. fs_meta sb bt ng s x \<longrightarrow> kmem_mem s' x = kmem_mem s x \<Longrightarrow> inode_params sb ng k s \<Longrightarrow>
     dir_node D sb bt ng k dirs s n \<Longrightarrow> dir_node D sb bt ng k dirs s' n"
  using inode_agree [of sb bt ng s s' k n] by (simp add: dir_node_def)

text \<open>
  The heap with the three buffers of the call (the path of \<open>n\<close> bytes with its end, a block, and the block that
  reading an inode uses), apart from the frame at \<open>sp\<close>, the result at \<open>out\<close> and what describes the file system.
\<close>

definition find_own :: "blk list \<Rightarrow> blk list \<Rightarrow> addr \<Rightarrow> addr \<Rightarrow> addr \<Rightarrow> bool" where
  "find_own bs bs3 sp out x \<longleftrightarrow> heap_own bs bs3 x \<or> in_range sp 424 x \<or> in_range out 128 x"

definition find_env ::
  "('x, 'y) fs_handle_scheme \<Rightarrow> nat \<Rightarrow> nat \<Rightarrow> blk list \<Rightarrow> (blk list \<times> addr) \<Rightarrow> (blk list \<times> addr) \<Rightarrow> (blk list \<times> addr) \<Rightarrow>
     addr \<Rightarrow> addr \<Rightarrow> addr \<Rightarrow> nat \<Rightarrow> 'x kmem_scheme \<Rightarrow> bool" where
  "find_env fs ng k bs b1 b2 b3 sp out path n s \<longleftrightarrow>
     kmem_inv bs s \<and> kmem_spinlock s = 0 \<and> three_blocks bs (of_nat n) (of_nat (512 * k)) (of_nat (512 * k)) b1 b2 b3 \<and>
     inode_params (fs_sb fs) ng k s \<and> get32 (sb_at (fs_sb fs) Req_features) s AND FS_EXT2_SB_RWFEATURE_DIRS_HAVE_TYPE_FIELD \<noteq> 0 \<and>
     (\<forall>x. fs_meta (fs_sb fs) (fs_bt fs) ng s x \<longrightarrow> \<not> find_own bs (fst b3) sp out x) \<and>
     (\<forall>x. in_range sp 424 x \<or> in_range out 128 x \<or> in_range path n x \<longrightarrow> \<not> heap_own bs (fst b3) x) \<and> n < 2 ^ 63"

lemma sizeof_dit_eq: "sizeof_dit = 296"
  by (simp add: sizeof_dit_def dit_layout_def pad_def sizeof_dirent_def dirent_layout_def)

context block_drive
begin

lemma read_inode_ref:
  assumes "ok s" and hp: "kmem_inv bs s" "kmem_spinlock s = 0" "room (of_nat (512 * k)) 1 bs" "place (of_nat (512 * k)) 1 bs = (bs', g, False)"
    and pm: "inode_params sb ng k s" "inode_there sb bt ng k n s"
    and meta: "\<And>x. fs_meta sb bt ng s x \<Longrightarrow> \<not> heap_own bs bs' x" and out: "\<And>x. in_range out 128 x \<Longrightarrow> \<not> heap_own bs bs' x"
  obtains s' where "fs_ext2_read_inode None drv sb bt n out s = Some s'" "ok s'" "dsk s' = dsk s" "kmem_inv bs s'" "kmem_spinlock s' = 0"
    "\<And>i. i < 128 \<Longrightarrow> kmem_mem s' (out + of_nat i) = dsk s (inode_pos sb bt k n s + i)"
    "\<And>x. \<not> heap_own bs bs' x \<Longrightarrow> \<not> in_range out 128 x \<Longrightarrow> kmem_mem s' x = kmem_mem s x"
proof -
  let ?z = "of_nat (512 * k) :: u64" and ?i = "inode_group sb n s" and ?T = "inode_table sb bt n s" and ?t = "inode_index sb n s"
  have ok0: "heap_ok bs" using hp(1) by (simp add: kmem_inv_def)
  have k: "unat (blocksize sb s) = 512 * k" "0 < k" "k < 65536" and isz: "inode_size sb s = 128" and ng: "32 * ng \<le> 2 ^ 64"
    and ipg: "get32 (sb_at sb Inodes_per_group) s \<noteq> 0" and gm: "geom sb k s"
    using pm(1) by (simp_all add: inode_params_def geom_def)
  have z: "ucast (blocksize sb s) = ?z" "unat ?z = 512 * k" using k unat_of_nat_64 [of "512 * k"] by (simp_all add: word_unat_eq_iff unat_ucast_up)
  have th: "unat ?i < ng" "128 * ?t < 2 ^ 32" "(?T + 128 * ?t div (512 * k)) * k < 2 ^ 32" using pm(2) by (simp_all add: inode_there_def)
  note hw = heap_own_place [OF ok0 hp(3,4), unfolded z(2)]
  obtain s1 where s1: "kmalloc None ?z s = Some (s1, g + 24)" "kmem.more s1 = kmem.more s" "kmem_spinlock s1 = 0" "kmem_inv bs' s1"
    and fr1: "\<And>x. \<not> headers bs' x \<Longrightarrow> kmem_mem s1 x = kmem_mem s x"
    using buffer_alloc [OF hp] by metis
  have ok1: "ok s1" "dsk s1 = dsk s" using more_frame [OF s1(2)] assms(1) by simp_all
  have "\<forall>x. fs_meta sb bt ng s x \<longrightarrow> kmem_mem s1 x = kmem_mem s x" using meta hw(1) fr1 by blast
  note m1 = fs_meta_agree [where s = s and s' = s1 and sb = sb and bt = bt and ng = ng, OF this]
  let ?q = "128 * ?t div (512 * k)" and ?r = "128 * ?t mod (512 * k)"
  let ?tind = "(n - 1) mod get32 (sb_at sb Inodes_per_group) s"
  have t128: "unat (?tind * 128) = 128 * ?t" using th(2) by (simp add: unat_word_ariths inode_index_def mult.commute)
  let ?blk = "get32 (group_at bt ?i Inode_table_addr s1) s1 + ?tind * 128 div blocksize sb s"
  have bu: "unat (?tind * 128 div blocksize sb s) = ?q" unfolding unat_div t128 k(1) by simp
  have ub: "unat ?blk = ?T + ?q"
  proof -
    have "?T + ?q \<le> (?T + ?q) * k" using k(2) by simp
    then have "?T + ?q < 2 ^ 32" using th(3) by (rule le_less_trans)
    then show ?thesis unfolding m1(7) [OF ng th(1)] by (simp add: unat_word_ariths(1) bu flip: inode_table_def)
  qed
  have gm1: "geom sb k s1" using gm m1(1) by (simp add: geom_def)
  have "unat ?blk * k < 2 ^ 32" using th(3) unfolding ub .
  then obtain s2 where s2: "read_block drv sb ?blk (g + 24) s1 = Some s2" "ok s2" "dsk s2 = dsk s1"
    "kmem_mem s2 = filled (kmem_mem s1) (g + 24) (512 * k) (\<lambda>i. dsk s1 (512 * k * unat ?blk + i))" "kmem_spinlock s2 = kmem_spinlock s1"
    using read_block_law [OF ok1(1) gm1] by metis
  have fr2: "kmem_mem s2 x = kmem_mem s x" if "\<not> heap_own bs bs' x" for x
    using that hw(1) fr1 by (simp add: s2(4) filled_def)
  have "\<forall>x. fs_meta sb bt ng s x \<longrightarrow> kmem_mem s2 x = kmem_mem s x" using meta fr2 by blast
  note m2 = fs_meta_agree [where s = s and s' = s2 and sb = sb and bt = bt and ng = ng, OF this]
  have off: "unat (128 * ?tind mod blocksize sb s) = ?r" unfolding unat_mod k(1) using t128 by (simp add: mult.commute)
  have r: "?r + 128 \<le> 512 * k"
  proof -
    have "?r = 128 * (?t mod (4 * k))" by (simp add: mult_mod_right)
    moreover have "?t mod (4 * k) < 4 * k" using k(2) by simp
    ultimately show ?thesis by linarith
  qed
  let ?src = "g + 24 + of_nat ?r"
  have src: "in_range (g + 24) (512 * k) x" if "in_range ?src 128 x" for x
    by (rule in_range_inner [OF that r]) (use k(3) in simp)
  have "ranges_disjoint out (unat (128 :: u64)) ?src (unat (128 :: u64))"
    unfolding ranges_disjoint_iff using out src hw(1) by auto
  note cp = memcpy_s_copied [OF this, of s2]
  define s3 where "s3 = s2\<lparr>kmem_mem := copied (kmem_mem s2) out ?src 128\<rparr>"
  have ok3: "ok s3" "dsk s3 = dsk s" "kmem_spinlock s3 = 0"
    using mem_frame [where s = s2] s2(2,3,5) ok1(2) s1(3) by (simp_all add: s3_def)
  have fr3: "kmem_mem s3 x = kmem_mem s2 x" if "\<not> in_range out 128 x" for x using that by (simp add: s3_def copied_def)
  have "kmem_inv bs' s3"
  proof (rule kmem_inv_cong [OF s1(4)])
    fix x
    assume h: "headers bs' x"
    then have "\<not> in_range out 128 x" "\<not> in_range (g + 24) (512 * k) x" using out hw(1,4) by blast+
    then show "kmem_mem s3 x = kmem_mem s1 x" by (simp add: fr3 s2(4) filled_def)
  qed
  from buffer_free [OF ok0 hp(3,4) this ok3(3)] obtain s4 where s4: "kfree (g + 24) s3 = Some s4" "kmem.more s4 = kmem.more s3"
    "kmem_spinlock s4 = 0" "kmem_inv bs s4" "\<And>x. \<not> headers bs' x \<Longrightarrow> kmem_mem s4 x = kmem_mem s3 x"
    by metis
  have uo: "ucast (128 * ?tind mod blocksize sb s) = (of_nat ?r :: u64)"
    using off r k(3) unat_of_nat_64 [of ?r] by (simp add: word_unat_eq_iff unat_ucast_up)
  have nz: "blocksize sb s \<noteq> 0" using k by auto
  have run: "fs_ext2_read_inode None drv sb bt n out s = Some s4"
    using s1(1) s2(1) s4(1) cp ipg nz isz m2(1,3) uo unfolding fs_ext2_read_inode_def s3_def inode_group_def
    by (simp add: udiv_def umod_def z(1))
  have bytes: "kmem_mem s4 (out + of_nat i) = dsk s (inode_pos sb bt k n s + i)" if i: "i < 128" for i
  proof -
    have io: "in_range out 128 (out + of_nat i)" using i unat_of_nat_64 [of i] by (simp add: in_range_def)
    then have "kmem_mem s4 (out + of_nat i) = kmem_mem s3 (out + of_nat i)" using out hw(1) by (intro s4(5)) blast
    also have "\<dots> = kmem_mem s2 (g + 24 + of_nat (?r + i))" using io by (simp add: s3_def copied_def add.assoc)
    also have "\<dots> = dsk s (512 * k * (?T + ?q) + (?r + i))"
    proof -
      have "unat (of_nat (?r + i) :: u64) = ?r + i" using r i k(3) by (intro unat_of_nat_64) simp
      moreover from this have "in_range (g + 24) (512 * k) (g + 24 + of_nat (?r + i))" using r i by (simp add: in_range_def)
      ultimately show ?thesis using ok1(2) by (simp add: s2(4) filled_def ub)
    qed
    also have "512 * k * (?T + ?q) + (?r + i) = inode_pos sb bt k n s + i"
      using mult_div_mod_eq [of "512 * k" "128 * ?t"] by (simp add: inode_pos_def add_mult_distrib2)
    finally show ?thesis .
  qed
  have "kmem_mem s4 x = kmem_mem s x" if "\<not> heap_own bs bs' x" "\<not> in_range out 128 x" for x
    using that s4(5) [of x] fr3 fr2 hw(1) by simp
  with that [OF run] more_frame [OF s4(2)] ok3(1,2) s4(3,4) bytes show thesis by simp
qed

lemma walk_step:
  assumes "ok s" and env: "walk_env sb bt ng k bs bs' it bbuf pb pn s" and node: "dir_node (dsk s) sb bt ng k dirs s n"
    and str: "cstr_at (kmem_mem s) p w" and area: "unat pb \<le> unat p" "unat p + length w + 1 \<le> unat pb + pn" "length w < 2 ^ 63"
  obtains s2 s3 s4 where "fs_ext2_read_inode None drv sb bt n (it + 296) s = Some s2"
    "fs_ext2_iterate_dir_start drv sb (it + 296) it bbuf s2 = Some s3"
    "find_entry drv sb it p s3 = Some (s4, dir_lookup w (concat (dirs n)))" "ok s4" "dsk s4 = dsk s"
    "walk_env sb bt ng k bs bs' it bbuf pb pn s4" "\<forall>x. \<not> dir_area bs bs' it bbuf k x \<longrightarrow> kmem_mem s4 x = kmem_mem s x"
proof -
  let ?cur = "it + 296"
  obtain g where hp: "kmem_inv bs s" "kmem_spinlock s = 0" "room (of_nat (512 * k)) 1 bs" "place (of_nat (512 * k)) 1 bs = (bs', g, False)"
    and pm: "inode_params sb ng k s" and ft: "get32 (sb_at sb Req_features) s AND FS_EXT2_SB_RWFEATURE_DIRS_HAVE_TYPE_FIELD \<noteq> 0"
    using env unfolding walk_env_def by blast
  have mt: "\<not> dir_area bs bs' it bbuf k x" if "fs_meta sb bt ng s x" for x using env that unfolding walk_env_def by blast
  have pa: "\<not> dir_area bs bs' it bbuf k x" if "in_range pb pn x" for x using env that unfolding walk_env_def by blast
  have fa: "\<not> heap_own bs bs' x" "\<not> in_range bbuf (512 * k) x" if "in_range it 424 x" for x
    using env that unfolding walk_env_def by blast+
  have ba: "\<not> heap_own bs bs' x" if "in_range bbuf (512 * k) x" for x using env that unfolding walk_env_def by blast
  have cur: "in_range it 424 x" if "in_range ?cur 128 x" for x using that in_range_inner [of it 296 128 x 424] by simp
  have itr: "in_range it 424 x" if "in_range it 296 x" for x using that by (rule in_range_mono) simp
  have th: "inode_there sb bt ng k n s" and dd: "disk_directory (dsk s) k (inode_pos sb bt k n s) (dirs n)" "dirs n \<noteq> []"
    "fst (hd (hd (dirs n))) \<noteq> 0"
    using node by (simp_all add: dir_node_def)
  have meta': "\<not> heap_own bs bs' x" if "fs_meta sb bt ng s x" for x using mt [OF that] by (simp add: dir_area_def)
  obtain s2 where s2: "fs_ext2_read_inode None drv sb bt n ?cur s = Some s2" "ok s2" "dsk s2 = dsk s" "kmem_inv bs s2" "kmem_spinlock s2 = 0"
    and by2: "\<And>i. i < 128 \<Longrightarrow> kmem_mem s2 (?cur + of_nat i) = dsk s (inode_pos sb bt k n s + i)"
    and fr2: "\<And>x. \<not> heap_own bs bs' x \<Longrightarrow> \<not> in_range ?cur 128 x \<Longrightarrow> kmem_mem s2 x = kmem_mem s x"
    using read_inode_ref [OF assms(1) hp pm th meta' fa(1) [OF cur]] by metis
  have fr2': "\<forall>x. \<not> dir_area bs bs' it bbuf k x \<longrightarrow> kmem_mem s2 x = kmem_mem s x"
    using fr2 cur by (auto simp: dir_area_def)
  have env2: "walk_env sb bt ng k bs bs' it bbuf pb pn s2" and ag2: "\<forall>x. fs_meta sb bt ng s x \<longrightarrow> kmem_mem s2 x = kmem_mem s x"
    using walk_env_keep [OF env s2(4,5)] fr2' by blast+
  note f2 = fs_meta_agree [where s = s and s' = s2 and sb = sb and bt = bt and ng = ng, OF ag2]
  have dir2: "directory (dsk s2) k ?cur (dirs n) s2" unfolding s2(3) by (rule directory_on_disk [OF by2 dd(1)])
  have far: "ranges_disjoint it 296 c m \<and> ranges_disjoint bbuf (512 * k) c m" if "\<And>x. in_range c m x \<Longrightarrow> \<not> dir_area bs bs' it bbuf k x" for c m
    unfolding ranges_disjoint_iff using that itr by (auto simp: dir_area_def)
  have sbf: "in_range (sb + of_nat j) 4 x \<Longrightarrow> j + 4 \<le> 236 \<Longrightarrow> \<not> dir_area bs bs' it bbuf k x" for j x
    using in_range_inner [of sb j 4 x 236] by (intro mt) (simp add: fs_meta_def)
  have sbd: "ranges_disjoint it 296 (sb + of_nat j) 4" "ranges_disjoint bbuf (512 * k) (sb + of_nat j) 4" if "j + 4 \<le> 236" for j
    using far [of "sb + of_nat j" 4] sbf [OF _ that] by blast+
  have "ranges_disjoint it 296 ?cur 128" by (simp add: ranges_disjoint_def)
  moreover have "ranges_disjoint bbuf (512 * k) ?cur 128" "ranges_disjoint it 296 bbuf (512 * k)"
    unfolding ranges_disjoint_iff using fa(2) cur itr by blast+
  moreover have "geom sb k s2" using pm f2(1) by (simp add: inode_params_def geom_def)
  ultimately have denv: "dir_env sb ?cur it bbuf k s2"
    unfolding dir_env_def dir_apart_def using sbd [of 24] sbd [of 96] ft f2(4) by (simp add: more_sb_offsets)
  have pin: "in_range pb pn x" if "in_range p (length w + 1) x" for x
  proof -
    have e: "unat pb + pn \<le> 2 ^ 64" using env by (simp add: walk_env_def)
    then have "unat p + (length w + 1) \<le> 2 ^ 64" using area(2) by linarith
    with that e area show ?thesis by (simp add: in_range_unat)
  qed
  have dap: "dir_apart it bbuf k p (length w + 1)" using far [of p "length w + 1"] pa pin by (auto simp: dir_apart_def)
  have str2: "cstr_at (kmem_mem s2) p w"
  proof (rule cstr_at_transport [OF str])
    fix j
    assume "j \<le> length w"
    then have "in_range p (length w + 1) (p + of_nat j)" using area(3) unat_of_nat_64 [of j] by (simp add: in_range_def)
    then show "kmem_mem s2 (p + of_nat j) = kmem_mem s (p + of_nat j)" using fr2' pa pin by blast
  qed
  obtain s3 s4 where s4: "fs_ext2_iterate_dir_start drv sb ?cur it bbuf s2 = Some s3"
    "find_entry drv sb it p s3 = Some (s4, dir_lookup w (concat (dirs n)))" "ok s4" "kmem_spinlock s4 = 0" "dsk s4 = dsk s2"
    and fr4: "\<forall>x. \<not> dir_own it bbuf k x \<longrightarrow> kmem_mem s4 x = kmem_mem s2 x"
    using locked.search_ref [OF conjI [OF s2(2,5)] denv dir2 dd(2,3) str2 dap area(3)] by blast
  have inv4: "kmem_inv bs s4"
  proof (rule kmem_inv_cong [OF s2(4)])
    fix x
    assume "headers bs x"
    moreover have "heap_ok bs" using hp(1) by (simp add: kmem_inv_def)
    ultimately have "heap_own bs bs' x" using heap_own_place [OF _ hp(3,4)] by blast
    then have "\<not> dir_own it bbuf k x" using fa(1) itr ba by (auto simp: dir_own_def)
    with fr4 show "kmem_mem s4 x = kmem_mem s2 x" by blast
  qed
  have fr4': "\<forall>x. \<not> dir_area bs bs' it bbuf k x \<longrightarrow> kmem_mem s4 x = kmem_mem s2 x"
    using fr4 itr by (auto simp: dir_area_def dir_own_def)
  then have "walk_env sb bt ng k bs bs' it bbuf pb pn s4" using walk_env_keep(1) [OF env2 inv4 s4(4)] by blast
  moreover have "\<forall>x. \<not> dir_area bs bs' it bbuf k x \<longrightarrow> kmem_mem s4 x = kmem_mem s x" using fr2' fr4' by simp
  ultimately show thesis using that [OF s2(1) s4(1,2,3)] s4(5) s2(3) by simp
qed

lemma walk_path_ref:
  assumes fs: "fs_hooks fs = None" "fs_drive fs = drv" and "ok s"
    and "walk_env (fs_sb fs) (fs_bt fs) ng k bs bs' it bbuf pb pn s" "cstr_at (kmem_mem s) p path"
    and "unat pb \<le> unat p" "unat p + length path + 1 \<le> unat pb + pn" "pn < 2 ^ 63"
    and "\<forall>m \<in> set (dirs_read dirs n (split_slash path)). dir_node (dsk s) (fs_sb fs) (fs_bt fs) ng k dirs s m"
  shows "\<exists>s'. walk_path fs it (it + 296) bbuf p n s = Some (s', resolve dirs n (split_slash path)) \<and> ok s' \<and> dsk s' = dsk s \<and>
    walk_env (fs_sb fs) (fs_bt fs) ng k bs bs' it bbuf pb pn s' \<and>
    (\<forall>x. \<not> dir_area bs bs' it bbuf k x \<longrightarrow> \<not> in_range pb pn x \<longrightarrow> kmem_mem s' x = kmem_mem s x)"
  using assms(3-9)
proof (induction path arbitrary: n s p rule: split_slash.induct)
  case 1
  then have "walk_path fs it (it + 296) bbuf p n s = Some (s, Some n)" by (subst walk_path.simps) (simp add: fs_next_file_def)
  with 1 show ?case by auto
next
  case (2 x xs)
  let ?env = "walk_env (fs_sb fs) (fs_bt fs) ng k bs bs' it bbuf pb pn"
  define w where "w = takeWhile (\<lambda>c. c \<noteq> SLASH) (x # xs)"
  let ?r = "drop (length w) xs" and ?m = "dir_lookup w (concat (dirs n))"
  have sp: "split_slash (x # xs) = w # split_slash ?r" by (simp only: split_slash.simps w_def Let_def)
  have e: "unat pb + pn \<le> 2 ^ 64" "pb \<noteq> NULL" and pm: "inode_params (fs_sb fs) ng k s" and inv: "kmem_inv bs s" and lk: "kmem_spinlock s = 0"
    using 2(3) by (simp_all add: walk_env_def)
  have hd: "\<not> in_range pb pn a" if "headers bs a" for a
    using 2(3) that heap_own_place(1,2) [of bs "of_nat (512 * k)" bs'] by (auto simp: walk_env_def dir_area_def kmem_inv_def)
  have fit: "unat p + length (x # xs) < 2 ^ 64" using 2(6) e(1) by linarith
  obtain s1 q where s1: "fs_next_file p s = Some (s1, q, p)" "cstr_at (kmem_mem s1) p w" "cstr_at (kmem_mem s1) q ?r"
    "unat q + length ?r \<le> unat p + length (x # xs)" "unat p + length w \<le> unat q"
    "\<And>a. unat a < unat p + length w \<or> unat p + length (x # xs) \<le> unat a \<Longrightarrow> kmem_mem s1 a = kmem_mem s a" "kmem.more s1 = kmem.more s"
    using next_file_step [OF 2(4) fit w_def] by metis
  have fr1: "kmem_mem s1 a = kmem_mem s a" if "\<not> in_range pb pn a" for a
  proof (rule s1(6))
    have "unat a < unat pb \<or> unat pb + pn \<le> unat a" using that e(1) by (auto simp: in_range_unat)
    then show "unat a < unat p + length w \<or> unat p + length (x # xs) \<le> unat a" using 2(5,6) by linarith
  qed
  have "kmem_spinlock s1 = 0" using s1(1) lk by (auto simp: fs_next_file_def put8_def bind_eq_Some_conv Let_def split: if_splits)
  then have env1: "?env s1" and ag1: "\<forall>x. fs_meta (fs_sb fs) (fs_bt fs) ng s x \<longrightarrow> kmem_mem s1 x = kmem_mem s x"
    using walk_env_keep [OF 2(3) kmem_inv_cong [OF inv fr1 [OF hd]]] fr1 by blast+
  have ok1: "ok s1" "dsk s1 = dsk s" using more_frame [OF s1(7)] 2(2) by simp_all
  have nodes: "dir_node (dsk s) (fs_sb fs) (fs_bt fs) ng k dirs s m"
    if "m = n \<or> ?m \<noteq> 0 \<and> m \<in> set (dirs_read dirs ?m (split_slash ?r))" for m
    using 2(8) that unfolding sp by (auto simp: Let_def)
  have nd1: "dir_node (dsk s1) (fs_sb fs) (fs_bt fs) ng k dirs s1 n"
    using dir_node_agree [OF ag1 pm nodes] ok1(2) by simp
  have lw: "length w \<le> length (x # xs)" unfolding w_def by (rule length_takeWhile_le)
  have ar: "unat p + length w + 1 \<le> unat pb + pn" "length w < 2 ^ 63"
    using lw 2(5,6,7) by linarith+
  obtain s2 s3 s4 where s4: "fs_ext2_read_inode None drv (fs_sb fs) (fs_bt fs) n (it + 296) s1 = Some s2"
    "fs_ext2_iterate_dir_start drv (fs_sb fs) (it + 296) it bbuf s2 = Some s3"
    "find_entry drv (fs_sb fs) it p s3 = Some (s4, ?m)" "ok s4" "dsk s4 = dsk s1" "?env s4"
    and fr4: "\<forall>x. \<not> dir_area bs bs' it bbuf k x \<longrightarrow> kmem_mem s4 x = kmem_mem s1 x"
    using walk_step [OF ok1(1) env1 nd1 s1(2) 2(5) ar] by metis
  have pz: "p \<noteq> NULL" using e(2) 2(5) by (auto simp: unat_eq_zero)
  have run: "walk_path fs it (it + 296) bbuf p n s = (if ?m = 0 then Some (s4, None) else walk_path fs it (it + 296) bbuf q ?m s4)"
    using s1(1) s4(1-3) pz by (subst walk_path.simps) (simp add: fs)
  have fr: "\<forall>x. \<not> dir_area bs bs' it bbuf k x \<longrightarrow> \<not> in_range pb pn x \<longrightarrow> kmem_mem s4 x = kmem_mem s x" using fr1 fr4 by simp
  show ?case
  proof (cases "?m = 0")
    case True
    with run s4(4-6) ok1(2) fr show ?thesis unfolding sp by auto
  next
    case False
    have in_area: "\<not> dir_area bs bs' it bbuf k a" if "unat q \<le> unat a" "unat a \<le> unat q + length ?r" for a
    proof -
      have "unat pb \<le> unat a" "unat a < unat pb + pn" using that s1(4,5) 2(5,6) by linarith+
      then have "in_range pb pn a" using e(1) by (simp add: in_range_unat)
      with env1 show ?thesis by (simp add: walk_env_def)
    qed
    have qf: "unat q + length ?r < 2 ^ 64" using s1(4) fit by linarith
    have str4: "cstr_at (kmem_mem s4) q ?r" using fr4 in_area by (intro cstr_at_cong [OF s1(3) _ qf]) blast
    have qa: "unat pb \<le> unat q" "unat q + length ?r + 1 \<le> unat pb + pn" using s1(4,5) 2(5,6) by linarith+
    have ag4: "\<forall>x. fs_meta (fs_sb fs) (fs_bt fs) ng s x \<longrightarrow> kmem_mem s4 x = kmem_mem s x"
      using fr 2(3) unfolding walk_env_def by blast
    have "\<forall>m \<in> set (dirs_read dirs ?m (split_slash ?r)). dir_node (dsk s4) (fs_sb fs) (fs_bt fs) ng k dirs s4 m"
      using dir_node_agree [OF ag4 pm nodes] False s4(5) ok1(2) by simp
    from 2(1) [OF w_def s4(4,6) str4 qa 2(7) this] obtain s' where s': "walk_path fs it (it + 296) bbuf q ?m s4 = Some (s', resolve dirs ?m (split_slash ?r))"
      "ok s'" "dsk s' = dsk s4" "?env s'" "\<forall>x. \<not> dir_area bs bs' it bbuf k x \<longrightarrow> \<not> in_range pb pn x \<longrightarrow> kmem_mem s' x = kmem_mem s4 x"
      by blast
    with run False s4(5) ok1(2) fr show ?thesis unfolding sp by (intro exI [of _ s']) simp
  qed
qed

text \<open>The two allocations and the copy of the path.\<close>

lemma find_setup:
  assumes "ok s" and env: "find_env fs ng k bs (bs1, g1) (bs2, g2) (bs3, g3) sp out path (length t + 1) s"
    and str: "cstr_at (kmem_mem s) path t"
  obtains s1 s2 s3 where "strlen_s path s = Some (of_nat (length t))" "kmalloc None (of_nat (length t) + 1) s = Some (s1, g1 + 24)"
    "strcpy_s (g1 + 24) path s1 = Some s2" "kmalloc None (ucast (blocksize (fs_sb fs) s2)) s2 = Some (s3, g2 + 24)"
    "ok s3" "dsk s3 = dsk s" "walk_env (fs_sb fs) (fs_bt fs) ng k bs2 bs3 sp (g2 + 24) (g1 + 24) (length t + 1) s3"
    "cstr_at (kmem_mem s3) (g1 + 24) t" "\<forall>x. \<not> heap_own bs bs3 x \<longrightarrow> kmem_mem s3 x = kmem_mem s x"
proof -
  let ?n = "length t + 1" and ?z = "of_nat (512 * k) :: u64" and ?p = "g1 + 24"
  have inv: "kmem_inv bs s" "kmem_spinlock s = 0" and tb: "three_blocks bs (of_nat ?n) ?z ?z (bs1, g1) (bs2, g2) (bs3, g3)"
    and pm: "inode_params (fs_sb fs) ng k s" and ft: "get32 (sb_at (fs_sb fs) Req_features) s AND FS_EXT2_SB_RWFEATURE_DIRS_HAVE_TYPE_FIELD \<noteq> 0"
    and mt: "\<And>x. fs_meta (fs_sb fs) (fs_bt fs) ng s x \<Longrightarrow> \<not> heap_own bs bs3 x \<and> \<not> in_range sp 424 x"
    and ap: "\<And>x. in_range sp 424 x \<or> in_range path ?n x \<Longrightarrow> \<not> heap_own bs bs3 x" and n: "?n < 2 ^ 63"
    using env unfolding find_env_def find_own_def fst_conv by blast+
  have ok0: "heap_ok bs" using inv(1) by (simp add: kmem_inv_def)
  have k: "unat (blocksize (fs_sb fs) s) = 512 * k" "k < 65536" using pm by (simp_all add: inode_params_def geom_def)
  have un: "unat (of_nat ?n :: u64) = ?n" "unat ?z = 512 * k" using n k(2) unat_of_nat_64 [of ?n] unat_of_nat_64 [of "512 * k"] by simp_all
  note own = three_blocks_own [OF ok0 tb, unfolded un]
  have p: "room (of_nat ?n) 1 bs" "place (of_nat ?n) 1 bs = (bs1, g1, False)" "room ?z 1 bs1" "place ?z 1 bs1 = (bs2, g2, False)"
    "room ?z 1 bs2" "place ?z 1 bs2 = (bs3, g3, False)"
    using tb by (simp_all add: three_blocks_def)
  have hd: "headers bs3 x \<Longrightarrow> heap_own bs2 bs3 x" for x by (simp add: heap_own_def)
  obtain s1 where s1: "kmalloc None (of_nat ?n) s = Some (s1, ?p)" "kmem.more s1 = kmem.more s" "kmem_spinlock s1 = 0" "kmem_inv bs1 s1"
    and fr1: "\<And>x. \<not> headers bs1 x \<Longrightarrow> kmem_mem s1 x = kmem_mem s x"
    using buffer_alloc [OF inv p(1,2)] by metis
  have h13: "headers bs1 x \<Longrightarrow> heap_own bs bs3 x" for x using own(1-3) hd by blast
  have path: "in_range path ?n (path + of_nat j)" if "j \<le> length t" for j
    using that n unat_of_nat_64 [of j] by (simp add: in_range_def)
  have str1: "cstr_at (kmem_mem s1) path t"
    by (rule cstr_at_transport [OF str]) (use fr1 h13 ap path in blast)
  have "ranges_disjoint ?p ?n path ?n" unfolding ranges_disjoint_iff using own(1) ap by blast
  note cp = strcpy_cstr [OF str1 this]
  define s2 where "s2 = s1\<lparr>kmem_mem := copied (kmem_mem s1) ?p path ?n\<rparr>"
  have run2: "strcpy_s ?p path s1 = Some s2" using cp by (simp add: strcpy_s_def s2_def)
  have fr2: "kmem_mem s2 x = kmem_mem s1 x" if "\<not> in_range ?p ?n x" for x using that by (simp add: s2_def copied_def)
  have str2: "cstr_at (kmem_mem s2) ?p t"
  proof (rule cstr_at_transport [OF str1])
    fix j
    assume "j \<le> length t"
    then show "kmem_mem s2 (?p + of_nat j) = kmem_mem s1 (path + of_nat j)" unfolding s2_def using n by (simp add: copied_offset)
  qed
  have inv2: "kmem_inv bs1 s2" by (rule kmem_inv_cong [OF s1(4)]) (use own(2-4) hd fr2 in blast)
  have fr02: "kmem_mem s2 x = kmem_mem s x" if "\<not> heap_own bs bs3 x" for x
    using that fr1 [of x] fr2 [of x] h13 own(1) by auto
  have "\<forall>x. fs_meta (fs_sb fs) (fs_bt fs) ng s x \<longrightarrow> kmem_mem s2 x = kmem_mem s x" using fr02 mt by blast
  note m2 = fs_meta_agree [where s = s and s' = s2 and ng = ng, OF this]
  have bz: "ucast (blocksize (fs_sb fs) s2) = ?z"
    using m2(1) k unat_of_nat_64 [of "512 * k"] by (simp add: word_unat_eq_iff unat_ucast_up)
  have l2: "kmem_spinlock s2 = 0" using s1(3) by (simp add: s2_def)
  obtain s3 where s3: "kmalloc None ?z s2 = Some (s3, g2 + 24)" "kmem.more s3 = kmem.more s2" "kmem_spinlock s3 = 0" "kmem_inv bs2 s3"
    and fr3: "\<And>x. \<not> headers bs2 x \<Longrightarrow> kmem_mem s3 x = kmem_mem s2 x"
    using buffer_alloc [OF inv2 l2 p(3,4)] by metis
  have fr03: "\<forall>x. \<not> heap_own bs bs3 x \<longrightarrow> kmem_mem s3 x = kmem_mem s x"
    using fr3 fr02 own(1,3) hd by metis
  have okd: "ok s3" "dsk s3 = dsk s"
    using more_frame [of s3 s] assms(1) s1(2) s3(2) by (simp_all add: s2_def)
  have str3: "cstr_at (kmem_mem s3) ?p t"
  proof (rule cstr_at_transport [OF str2])
    fix j
    assume "j \<le> length t"
    then have "in_range ?p ?n (?p + of_nat j)" using n unat_of_nat_64 [of j] by (simp add: in_range_def)
    then show "kmem_mem s3 (?p + of_nat j) = kmem_mem s2 (?p + of_nat j)" using own(3,4) hd by (intro fr3) blast
  qed
  have "\<forall>x. fs_meta (fs_sb fs) (fs_bt fs) ng s x \<longrightarrow> kmem_mem s3 x = kmem_mem s x" using fr03 mt by blast
  note m3 = fs_meta_agree [where s = s and s' = s3 and ng = ng, OF this]
  have "walk_env (fs_sb fs) (fs_bt fs) ng k bs2 bs3 sp (g2 + 24) ?p ?n s3"
    unfolding walk_env_def m3(4-6) dir_area_def
    using s3(3,4) p(5,6) pm ft mt ap own(1,4,5,8,9) by (intro conjI) blast+
  with that [OF _ _ run2 _ okd] str str3 fr03 s1(1) s3(1) bz show thesis
    by (simp add: strlen_s_def strlen_cstr add.commute [of 1 "of_nat (length t)"])
qed

text \<open>Giving the two buffers back.\<close>

lemma find_release:
  assumes "heap_ok bs" "three_blocks bs z1 z2 z3 (bs1, g1) (bs2, g2) (bs3, g3)" "kmem_inv bs2 s" "kmem_spinlock s = 0"
  obtains s1 s2 where "kfree (g2 + 24) s = Some s1" "kfree (g1 + 24) s1 = Some s2" "kmem.more s2 = kmem.more s" "kmem_inv bs s2"
    "kmem_spinlock s2 = 0" "\<forall>x. \<not> heap_own bs bs3 x \<longrightarrow> kmem_mem s2 x = kmem_mem s x"
proof -
  have p: "room z1 1 bs" "place z1 1 bs = (bs1, g1, False)" "room z2 1 bs1" "place z2 1 bs1 = (bs2, g2, False)"
    using assms(2) by (simp_all add: three_blocks_def)
  note own = three_blocks_own [OF assms(1,2)]
  obtain s1 where s1: "kfree (g2 + 24) s = Some s1" "kmem.more s1 = kmem.more s" "kmem_spinlock s1 = 0" "kmem_inv bs1 s1"
    "\<And>x. \<not> headers bs2 x \<Longrightarrow> kmem_mem s1 x = kmem_mem s x"
    using buffer_free [OF own(6) p(3,4) assms(3,4)] by metis
  obtain s2 where s2: "kfree (g1 + 24) s1 = Some s2" "kmem.more s2 = kmem.more s1" "kmem_spinlock s2 = 0" "kmem_inv bs s2"
    "\<And>x. \<not> headers bs1 x \<Longrightarrow> kmem_mem s2 x = kmem_mem s1 x"
    using buffer_free [OF assms(1) p(1,2) s1(4,3)] by metis
  have "headers bs2 x \<Longrightarrow> heap_own bs bs3 x" for x using own(3) by (simp add: heap_own_def)
  with that [OF s1(1) s2(1) _ s2(4,3)] s1(2,5) s2(2,5) own(2) show thesis by metis
qed

lemma find_final_inode_ref:
  assumes fs: "fs_hooks fs = None" "fs_drive fs = drv" and "ok s"
    and env: "find_env fs ng k bs (bs1, g1) (bs2, g2) (bs3, g3) sp out path (length t + 1) s"
    and str: "cstr_at (kmem_mem s) path t"
    and nodes: "\<forall>m \<in> set (dirs_read dirs FS_EXT2_ROOT_INODE (split_slash t)). dir_node (dsk s) (fs_sb fs) (fs_bt fs) ng k dirs s m"
    and fin: "\<And>m. resolve dirs FS_EXT2_ROOT_INODE (split_slash t) = Some m \<Longrightarrow> inode_there (fs_sb fs) (fs_bt fs) ng k m s"
  shows "\<exists>s'. fs_ext2_find_final_inode fs sp path out s = Some (s', case resolve dirs FS_EXT2_ROOT_INODE (split_slash t) of
      None \<Rightarrow> Inl FS_ERR_DOESNT_EXIST | Some m \<Rightarrow> Inr m) \<and> ok s' \<and> dsk s' = dsk s \<and> kmem_inv bs s' \<and> kmem_spinlock s' = 0 \<and>
    (\<forall>m i. resolve dirs FS_EXT2_ROOT_INODE (split_slash t) = Some m \<longrightarrow> i < 128 \<longrightarrow>
       kmem_mem s' (out + of_nat i) = dsk s (inode_pos (fs_sb fs) (fs_bt fs) k m s + i)) \<and>
    (\<forall>x. \<not> find_own bs bs3 sp out x \<longrightarrow> kmem_mem s' x = kmem_mem s x)"
proof -
  let ?n = "length t + 1" and ?z = "of_nat (512 * k) :: u64" and ?b = "g2 + 24" and ?p = "g1 + 24"
  let ?sb = "fs_sb fs" and ?bt = "fs_bt fs" and ?res = "resolve dirs FS_EXT2_ROOT_INODE (split_slash t)"
  have inv: "kmem_inv bs s" and tb: "three_blocks bs (of_nat ?n) ?z ?z (bs1, g1) (bs2, g2) (bs3, g3)"
    and pm: "inode_params ?sb ng k s" and mt: "\<And>x. fs_meta ?sb ?bt ng s x \<Longrightarrow> \<not> find_own bs bs3 sp out x"
    and ap: "\<And>x. in_range out 128 x \<Longrightarrow> \<not> heap_own bs bs3 x" and n: "?n < 2 ^ 63"
    using env unfolding find_env_def fst_conv by blast+
  have ok0: "heap_ok bs" using inv by (simp add: kmem_inv_def)
  have k: "k < 65536" using pm by (simp add: inode_params_def geom_def)
  have un: "unat (of_nat ?n :: u64) = ?n" "unat ?z = 512 * k"
    using n k unat_of_nat_64 [of ?n] unat_of_nat_64 [of "512 * k"] by simp_all
  note own = three_blocks_own [OF ok0 tb, unfolded un]
  obtain s1 s2 s3 where s3: "strlen_s path s = Some (of_nat (length t))" "kmalloc None (of_nat (length t) + 1) s = Some (s1, ?p)"
    "strcpy_s ?p path s1 = Some s2" "kmalloc None (ucast (blocksize ?sb s2)) s2 = Some (s3, ?b)"
    "ok s3" "dsk s3 = dsk s" "walk_env ?sb ?bt ng k bs2 bs3 sp ?b ?p ?n s3" "cstr_at (kmem_mem s3) ?p t"
    and fr3: "\<forall>x. \<not> heap_own bs bs3 x \<longrightarrow> kmem_mem s3 x = kmem_mem s x"
    using find_setup [OF assms(3) env str] by metis
  have ag3: "\<forall>x. fs_meta ?sb ?bt ng s x \<longrightarrow> kmem_mem s3 x = kmem_mem s x" using fr3 mt by (auto simp: find_own_def)
  have "\<forall>m \<in> set (dirs_read dirs FS_EXT2_ROOT_INODE (split_slash t)). dir_node (dsk s3) ?sb ?bt ng k dirs s3 m"
    using dir_node_agree [OF ag3 pm] nodes s3(6) by simp
  moreover have "unat ?p + length t + 1 \<le> unat ?p + ?n" by simp
  ultimately obtain s4 where s4: "walk_path fs sp (sp + 296) ?b ?p FS_EXT2_ROOT_INODE s3 = Some (s4, ?res)" "ok s4" "dsk s4 = dsk s3"
    "walk_env ?sb ?bt ng k bs2 bs3 sp ?b ?p ?n s4"
    and fr4: "\<forall>x. \<not> dir_area bs2 bs3 sp ?b k x \<longrightarrow> \<not> in_range ?p ?n x \<longrightarrow> kmem_mem s4 x = kmem_mem s3 x"
    using walk_path_ref [OF fs s3(5,7,8) order_refl _ n] by blast
  have fr04: "kmem_mem s4 x = kmem_mem s x" if "\<not> find_own bs bs3 sp out x" for x
    using that fr3 fr4 own(1) by (auto simp: find_own_def dir_area_def)
  have run: "fs_ext2_find_final_inode fs sp path out s = (case ?res of
      None \<Rightarrow> do { s5 \<leftarrow> kfree ?b s4; s6 \<leftarrow> kfree ?p s5; Some (s6, Inl FS_ERR_DOESNT_EXIST) }
    | Some m \<Rightarrow> do { s5 \<leftarrow> fs_ext2_read_inode None drv ?sb ?bt m out s4; s6 \<leftarrow> kfree ?b s5; s7 \<leftarrow> kfree ?p s6; Some (s7, Inr m) })"
    using s3(1-4) s4(1) by (simp add: fs_ext2_find_final_inode_def fs sizeof_dit_eq)
  show ?thesis
  proof (cases ?res)
    case None
    obtain s5 s6 where s6: "kfree ?b s4 = Some s5" "kfree ?p s5 = Some s6" "kmem.more s6 = kmem.more s4" "kmem_inv bs s6" "kmem_spinlock s6 = 0"
      "\<forall>x. \<not> heap_own bs bs3 x \<longrightarrow> kmem_mem s6 x = kmem_mem s4 x"
      using find_release [OF ok0 tb, of s4] s4(4) unfolding walk_env_def by metis
    with None run more_frame [OF s6(3)] s4(2,3) s3(6) fr04 show ?thesis by (intro exI [of _ s6]) (simp add: find_own_def)
  next
    case (Some m)
    have inv4: "kmem_inv bs2 s4" "kmem_spinlock s4 = 0" and pm4: "inode_params ?sb ng k s4" using s4(4) by (simp_all add: walk_env_def)
    have p3: "room ?z 1 bs2" "place ?z 1 bs2 = (bs3, g3, False)" using tb by (simp_all add: three_blocks_def)
    have ag4: "\<forall>x. fs_meta ?sb ?bt ng s x \<longrightarrow> kmem_mem s4 x = kmem_mem s x" using fr04 mt by blast
    note ia = inode_agree [OF ag4 pm fin [OF Some]]
    note m4 = fs_meta_agree [where s = s and s' = s4 and ng = ng, OF ag4]
    have mt4: "\<not> heap_own bs2 bs3 x" if "fs_meta ?sb ?bt ng s4 x" for x
      using mt [of x] that own(1) by (simp add: m4(5) find_own_def)
    have out4: "\<not> heap_own bs2 bs3 x" if "in_range out 128 x" for x using ap [OF that] own(1) by blast
    obtain s5 where s5: "fs_ext2_read_inode None drv ?sb ?bt m out s4 = Some s5" "ok s5" "dsk s5 = dsk s4" "kmem_inv bs2 s5" "kmem_spinlock s5 = 0"
      and by5: "\<And>i. i < 128 \<Longrightarrow> kmem_mem s5 (out + of_nat i) = dsk s4 (inode_pos ?sb ?bt k m s4 + i)"
      and fr5: "\<And>x. \<not> heap_own bs2 bs3 x \<Longrightarrow> \<not> in_range out 128 x \<Longrightarrow> kmem_mem s5 x = kmem_mem s4 x"
      using read_inode_ref [OF s4(2) inv4 p3 pm4 ia(1) mt4 out4] by metis
    obtain s6 s7 where s7: "kfree ?b s5 = Some s6" "kfree ?p s6 = Some s7" "kmem.more s7 = kmem.more s5" "kmem_inv bs s7" "kmem_spinlock s7 = 0"
      and fr7: "\<forall>x. \<not> heap_own bs bs3 x \<longrightarrow> kmem_mem s7 x = kmem_mem s5 x"
      using find_release [OF ok0 tb s5(4,5)] by metis
    have "kmem_mem s7 (out + of_nat i) = dsk s (inode_pos ?sb ?bt k m s + i)" if "i < 128" for i
    proof -
      have "in_range out 128 (out + of_nat i)" using that unat_of_nat_64 [of i] by (simp add: in_range_def)
      then have "kmem_mem s7 (out + of_nat i) = kmem_mem s5 (out + of_nat i)" using fr7 ap by blast
      then show ?thesis using by5 [OF that] ia(2) s4(3) s3(6) by simp
    qed
    moreover have "kmem_mem s7 x = kmem_mem s x" if "\<not> find_own bs bs3 sp out x" for x
      using that fr7 fr5 [of x] fr04 [OF that] own(1) by (simp add: find_own_def)
    ultimately show ?thesis using Some run s5(1-3) s7(1-2,4,5) more_frame [OF s7(3)] s4(3) s3(6)
      by (intro exI [of _ s7]) simp
  qed
qed

end

section \<open>Properties\<close>

text \<open>
  C14: Resolving a path: with the heap, the inode table and the directories of the disk as the code expects them,
  \<open>fs_ext2_find_final_inode\<close> returns, and its result is the one of following the names of the path through the
  directories from the root: the number of the inode, whose 128 bytes it has copied from the disk, or
  the error for a file that does not exist. It gives all its buffers back, leaves the heap unlocked and the disk as
  it is, and changes nothing outside its frame, the result and the new blocks of the heap. The heap is unlocked at the
  start, no mapping functions are installed and each buffer finds its place behind the last block and not in a gap.
\<close>

theorem path_resolution_follows_the_tree:
  assumes fs: "fs_hooks fs = None" "fs_drive fs = pio_ops (ata_hw d0) dp drive" and drive: "drives d0 drive" "sel_ok d0 dp s"
    and env: "find_env fs ng k bs (bs1, g1) (bs2, g2) (bs3, g3) sp out path (length t + 1) s" and str: "cstr_at (kmem_mem s) path t"
    and nodes: "\<forall>m \<in> set (dirs_read dirs FS_EXT2_ROOT_INODE (split_slash t)).
      dir_node (disk_of d0 s) (fs_sb fs) (fs_bt fs) ng k dirs s m"
    and fin: "\<And>m. resolve dirs FS_EXT2_ROOT_INODE (split_slash t) = Some m \<Longrightarrow> inode_there (fs_sb fs) (fs_bt fs) ng k m s"
  shows "\<exists>s'. fs_ext2_find_final_inode fs sp path out s = Some (s', case resolve dirs FS_EXT2_ROOT_INODE (split_slash t) of
      None \<Rightarrow> Inl FS_ERR_DOESNT_EXIST | Some m \<Rightarrow> Inr m) \<and> disk_of d0 s' = disk_of d0 s \<and> kmem_inv bs s' \<and> kmem_spinlock s' = 0 \<and>
    (\<forall>m i. resolve dirs FS_EXT2_ROOT_INODE (split_slash t) = Some m \<longrightarrow> i < 128 \<longrightarrow>
       kmem_mem s' (out + of_nat i) = disk_of d0 s (inode_pos (fs_sb fs) (fs_bt fs) k m s + i)) \<and>
    (\<forall>x. \<not> find_own bs bs3 sp out x \<longrightarrow> kmem_mem s' x = kmem_mem s x)"
  using pio.find_final_inode_ref [OF fs conjI [OF drive] env str nodes fin] by blast

text \<open>A disk with the directory \<open>d\<close> in the root and the file \<open>ab\<close> of 100 bytes in it, and the path \<open>d/ab\<close>.\<close>

definition tree_data :: "nat \<Rightarrow> u8" where
  "tree_data = (\<lambda>_. 0)(3240 := 5, 3368 := 7, 4484 := 100, 4520 := 9, 9216 := 0x48, 9217 := 0x69,
     5120 := 2, 5124 := 12, 5126 := 1, 5128 := 0x2E, 5132 := 3, 5136 := 0xF4, 5137 := 3, 5138 := 1, 5140 := 0x64,
     7168 := 3, 7172 := 12, 7174 := 1, 7176 := 0x2E, 7180 := 12, 7184 := 0xF4, 7185 := 3, 7186 := 2, 7188 := 0x61, 7189 := 0x62)"

definition tree_dev :: ata_dev where
  "tree_dev = demo_dev\<lparr>disk := tree_data\<rparr>"

definition tree_handle :: "_ fs_handle" where
  "tree_handle = \<lparr>fs_hooks = None, fs_drive = pio_ops (ata_hw tree_dev) 0x8000 demo_drive, fs_gdata = demo_sb\<rparr>"

definition tree_mem :: mem where
  "tree_mem = (\<lambda>_. 0)(0x200001 := 0x10, 0x200040 := 16, 0x200070 := 128, 0x200078 := 2, 0x200109 := 2, 0x20010A := 0x20,
     0x200208 := 3, 0x200800 := 0x64, 0x200801 := 0x2F, 0x200802 := 0x61, 0x200803 := 0x62)"

definition tree_state :: machine where
  "tree_state = demo_machine\<lparr>kmem_mem := tree_mem\<rparr>"

definition tree_dirs :: dir_tree where
  "tree_dirs = (\<lambda>_. [])(2 := [[(2, [0x2E]), (3, [0x64])]], 3 := [[(3, [0x2E]), (12, [0x61, 0x62])]])"

abbreviation tree_heap :: "blk list" where
  "tree_heap \<equiv> [(KMEM_HEAP_BASE, 4096)]"

lemma tree_addresses: "fs_sb tree_handle = 0x200018" "fs_bt tree_handle = 0x200108"
  by (simp_all add: fs_sb_def fs_bt_def gdata_layout_def tree_handle_def demo_sb_def pad_def sizeof_sb_def sb_layout_def sb_base_layout_def
      sb_ext_layout_def)

lemma tree_fields:
  "get32 0x200030 tree_state = 0" "get32 0x200040 tree_state = 16" "get16 0x200070 tree_state = 128" "get32 0x200078 tree_state = 2"
  "get64 0x200108 tree_state = 0x200200" "get32 0x200208 tree_state = 3" "cstr_at (kmem_mem tree_state) 0x200800 [0x64, 0x2F, 0x61, 0x62]"
  by (simp_all add: get16_def get32_def get64_def load16_def load32_def load64_def load_numeral tree_state_def tree_mem_def)

lemma tree_params: "inode_params 0x200018 1 2 tree_state"
  by (simp add: inode_params_def geom_def blocksize_def inode_size_def more_sb_offsets tree_fields)

lemma tree_inode:
  assumes "0 < unat n" "unat n \<le> 16"
  shows "inode_there 0x200018 0x200108 1 2 n tree_state" "inode_pos 0x200018 0x200108 2 n tree_state = 3072 + 128 * (unat n - 1)"
proof -
  have n: "unat (n - 1) = unat n - 1" using assms(1) by (intro unat_minus_one) auto
  have g: "inode_group 0x200018 n tree_state = 0"
    using n assms by (simp add: inode_group_def more_sb_offsets tree_fields word_unat_eq_iff unat_div)
  have i: "inode_index 0x200018 n tree_state = unat n - 1"
    using n assms by (simp add: inode_index_def more_sb_offsets tree_fields unat_mod)
  have t: "inode_table 0x200018 0x200108 n tree_state = 3"
    by (simp add: inode_table_def g group_at_def bt_groups_at tree_fields blkgrp_layout_def pad_def)
  have "unat n - 1 < 16" using assms(2) by simp
  moreover from this have "(unat n - 1) div 8 < 2" by (simp add: less_mult_imp_div_less)
  ultimately show "inode_there 0x200018 0x200108 1 2 n tree_state" unfolding inode_there_def g i t by simp
  show "inode_pos 0x200018 0x200108 2 n tree_state = 3072 + 128 * (unat n - 1)" by (simp add: inode_pos_def i t)
qed

lemma tree_disk: "disk_of tree_dev tree_state = tree_data" "drives tree_dev demo_drive" "sel_ok tree_dev 0x8000 tree_state"
  by (simp_all add: disk_of_def tree_state_def demo_machine_def dev_at_def drives_def tree_dev_def demo_dev_def demo_drive_def sel_ok_def)

lemma tree_directories:
  "disk_directory tree_data 2 3200 [[(2, [0x2E]), (3, [0x64])]]" "disk_directory tree_data 2 3328 [[(3, [0x2E]), (12, [0x61, 0x62])]]"
proof -
  have p: "disk32 tree_data 3240 = 5" "disk32 tree_data 3244 = 0" "disk32 tree_data 3288 = 0" "disk32 tree_data 3292 = 0"
    "disk32 tree_data 3368 = 7" "disk32 tree_data 3372 = 0" "disk32 tree_data 3416 = 0" "disk32 tree_data 3420 = 0"
    by (simp_all add: disk_bytes tree_data_def)
  define f where "f b i = tree_data (1024 * b + i)" for b i
  have e: "disk32 (f 5) 0 = 2" "disk16 (f 5) 4 = 12" "f 5 6 = 1" "f 5 8 = 0x2E"
    "disk32 (f 5) 12 = 3" "disk16 (f 5) 16 = 1012" "f 5 18 = 1" "f 5 20 = 0x64"
    "disk32 (f 7) 0 = 3" "disk16 (f 7) 4 = 12" "f 7 6 = 1" "f 7 8 = 0x2E"
    "disk32 (f 7) 12 = 12" "disk16 (f 7) 16 = 1012" "f 7 18 = 2" "f 7 20 = 0x61" "f 7 21 = 0x62"
    by (simp_all add: disk_bytes f_def tree_data_def)
  have c: "dir_chain (f 5) 1024 0 [(2, [0x2E]), (3, [0x64])]" "dir_chain (f 7) 1024 0 [(3, [0x2E]), (12, [0x61, 0x62])]"
    by (simp_all add: e)
  have d: "(\<lambda>i. tree_data (5120 + i)) = f 5" "(\<lambda>i. tree_data (7168 + i)) = f 7" by (simp_all add: f_def fun_eq_iff)
  show "disk_directory tree_data 2 3200 [[(2, [0x2E]), (3, [0x64])]]"
    using c(1) by (simp add: disk_directory_def inode_block_def block_ref_def ptr_in_def p d del: dir_chain.simps)
  show "disk_directory tree_data 2 3328 [[(3, [0x2E]), (12, [0x61, 0x62])]]"
    using c(2) by (simp add: disk_directory_def inode_block_def block_ref_def ptr_in_def p d del: dir_chain.simps)
qed

lemma tree_walk:
  "split_slash [0x64, 0x2F, 0x61, 0x62] = [[0x64], [0x61, 0x62]]"
  "dirs_read tree_dirs FS_EXT2_ROOT_INODE [[0x64], [0x61, 0x62]] = [2, 3]"
  "resolve tree_dirs FS_EXT2_ROOT_INODE [[0x64], [0x61, 0x62]] = Some 12"
  by (simp_all add: SLASH_def tree_dirs_def dir_lookup_def FS_EXT2_ROOT_INODE_def)

lemma tree_blocks:
  "three_blocks tree_heap 5 1024 1024 (tree_heap @ [(0x201018, 5)], 0x201018)
     (tree_heap @ [(0x201018, 5), (0x201035, 1024)], 0x201035)
     (tree_heap @ [(0x201018, 5), (0x201035, 1024), (0x20144D, 1024)], 0x20144D)"
  by (simp add: three_blocks_def place_def fit_pos_def align_up_def blk_end_def KMEM_HEAP_BASE_def room_def)

lemma tree_own:
  "find_own tree_heap (tree_heap @ [(0x201018, 5), (0x201035, 1024), (0x20144D, 1024)]) 0x400000 0x401000 x \<longleftrightarrow>
     unat x \<in> {0x200000..<0x200018} \<union> {0x201018..<0x201865} \<union> {0x400000..<0x4001A8} \<union> {0x401000..<0x401080}"
  "heap_own tree_heap (tree_heap @ [(0x201018, 5), (0x201035, 1024), (0x20144D, 1024)]) x \<longleftrightarrow>
     unat x \<in> {0x200000..<0x200018} \<union> {0x201018..<0x201865}"
  by (auto simp: find_own_def heap_own_def headers_def in_range_unat KMEM_HEAP_BASE_def)

lemma tree_env:
  "find_env tree_handle 1 2 tree_heap (tree_heap @ [(0x201018, 5)], 0x201018) (tree_heap @ [(0x201018, 5), (0x201035, 1024)], 0x201035)
     (tree_heap @ [(0x201018, 5), (0x201035, 1024), (0x20144D, 1024)], 0x20144D) 0x400000 0x401000 0x200800 5 tree_state"
proof -
  have "kmem_inv tree_heap tree_state"
    by (simp add: kmem_inv_def heap_at_def heap_ok_def blks_ordered_def blk_end_def kn_sz_def kn_next_def kn_prev_def
        load64_def load_numeral tree_state_def tree_mem_def KMEM_HEAP_BASE_def)
  moreover have "\<not> find_own tree_heap (tree_heap @ [(0x201018, 5), (0x201035, 1024), (0x20144D, 1024)]) 0x400000 0x401000 x"
    if "fs_meta 0x200018 0x200108 1 tree_state x" for x
    using that unfolding tree_own by (auto simp: fs_meta_def tree_fields in_range_unat)
  moreover have "\<not> heap_own tree_heap (tree_heap @ [(0x201018, 5), (0x201035, 1024), (0x20144D, 1024)]) x"
    if "in_range 0x400000 424 x \<or> in_range 0x401000 128 x \<or> in_range 0x200800 5 x" for x
    using that unfolding tree_own by (auto simp: in_range_unat)
  moreover have "kmem_spinlock tree_state = 0" by (simp add: tree_state_def demo_machine_def)
  ultimately show ?thesis
    unfolding find_env_def tree_addresses more_sb_offsets fst_conv
    using tree_blocks tree_params by (simp add: tree_fields FS_EXT2_SB_RWFEATURE_DIRS_HAVE_TYPE_FIELD_def)
qed

theorem path_resolution_follows_the_tree_witness:
  "\<exists>s'. fs_ext2_find_final_inode tree_handle 0x400000 0x200800 0x401000 tree_state = Some (s', Inr 12) \<and> kmem_mem s' 0x401004 = 100"
proof -
  let ?t = "[0x64, 0x2F, 0x61, 0x62] :: u8 list"
  have fs: "fs_hooks tree_handle = None" "fs_drive tree_handle = pio_ops (ata_hw tree_dev) 0x8000 demo_drive" by (simp_all add: tree_handle_def)
  have n: "length ?t + 1 = 5" by simp
  have nodes: "\<forall>m \<in> set (dirs_read tree_dirs FS_EXT2_ROOT_INODE (split_slash ?t)).
      dir_node (disk_of tree_dev tree_state) (fs_sb tree_handle) (fs_bt tree_handle) 1 2 tree_dirs tree_state m"
    unfolding tree_walk tree_disk tree_addresses
    using tree_inode [of 2] tree_inode [of 3] tree_directories by (simp add: dir_node_def tree_dirs_def)
  have fin: "inode_there (fs_sb tree_handle) (fs_bt tree_handle) 1 2 m tree_state"
    if "resolve tree_dirs FS_EXT2_ROOT_INODE (split_slash ?t) = Some m" for m
    using that tree_inode(1) [of 12] unfolding tree_walk tree_addresses by simp
  obtain s' where s': "fs_ext2_find_final_inode tree_handle 0x400000 0x200800 0x401000 tree_state = Some (s', Inr 12)"
    and b: "\<And>i. i < 128 \<Longrightarrow> kmem_mem s' (0x401000 + of_nat i) = tree_data (inode_pos 0x200018 0x200108 2 12 tree_state + i)"
    using path_resolution_follows_the_tree [OF fs tree_disk(2,3) tree_env [folded n] tree_fields(7) nodes fin]
    unfolding tree_walk tree_disk(1) tree_addresses by auto
  have "kmem_mem s' 0x401004 = 100" using b [of 4] tree_inode(2) [of 12] by (simp add: tree_data_def)
  with s' show ?thesis by blast
qed

end
