(* ===== verification/File_open.thy ===== *)
theory File_open
  imports Path_walk
begin

unbundle bit_operations_syntax

text \<open>
  Opening a file by its path and reading from it (\<^verbatim>\<open>fs_ext2_open\<close> and \<^verbatim>\<open>fs_ext2_read\<close> of \<^verbatim>\<open>fs/ext2.c\<close>), from the
  tree of directories on the disk to the bytes in the buffer of the caller.
\<close>

section \<open>A file on the disk\<close>

definition disk_size :: "(nat \<Rightarrow> u8) \<Rightarrow> nat \<Rightarrow> u64" where
  "disk_size D p = ucast (disk32 D (p + 4)) OR push_bit 32 (ucast (disk32 D (p + 108)))"

definition disk_byte :: "(nat \<Rightarrow> u8) \<Rightarrow> nat \<Rightarrow> nat \<Rightarrow> nat \<Rightarrow> u8" where
  "disk_byte D k p q = D (512 * k * unat (inode_block D k p (q div (512 * k))) + q mod (512 * k))"

text \<open>A file that is not empty, with all its blocks allocated.\<close>

definition disk_file :: "(nat \<Rightarrow> u8) \<Rightarrow> nat \<Rightarrow> nat \<Rightarrow> nat \<Rightarrow> bool" where
  "disk_file D k p sz \<longleftrightarrow> unat (disk_size D p) = sz \<and> 0 < sz \<and> sz < 2 ^ 32 \<and>
     unat (disk32 D (p + 88)) * k < 2 ^ 32 \<and> unat (disk32 D (p + 92)) * k < 2 ^ 32 \<and>
     (\<forall>i < 128 * k. unat (ptr_in D k (disk32 D (p + 92)) i) * k < 2 ^ 32) \<and>
     (\<forall>j < sz. 512 * k * j < sz \<longrightarrow> j < 12 + 128 * k + 128 * k * (128 * k) \<and> inode_block D k p j \<noteq> 0 \<and>
        unat (inode_block D k p j) * k < 2 ^ 32)"

lemma inode_size_bytes:
  assumes "\<And>i. i < 128 \<Longrightarrow> kmem_mem s (ino + of_nat i) = D (p + i)"
  shows "inode_get_size ino s = disk_size D p"
proof -
  have g: "get32 (ino + of_nat q) s = disk32 D (p + q)" if "q + 4 \<le> 128" for q
    unfolding get32_def
  proof (rule load32_bytes)
    show "kmem_mem s (ino + of_nat q + of_nat i) = D (p + q + i)" if "i < 4" for i
      using assms [of "q + i"] that \<open>q + 4 \<le> 128\<close> by (simp add: add.assoc)
  qed
  show ?thesis using g [of 4] g [of 108] by (simp add: inode_get_size_def disk_size_def inode_at_def inode_layout_def pad_def)
qed

lemma file_on_disk:
  assumes bts: "\<And>i. i < 128 \<Longrightarrow> kmem_mem s (ino + of_nat i) = D (p + i)" and fl: "disk_file D k p sz" and k: "0 < k"
  shows "blocks_ok D k ino sz s" "unat (inode_get_size ino s) = sz" "q < sz \<Longrightarrow> file_byte D k ino s q = disk_byte D k p q"
proof -
  note f = inode_field_bytes [where s = s and ino = ino and D = D and p = p, OF bts]
  have sz: "sz < 2 ^ 32" using fl by (simp add: disk_file_def)
  have le: "j \<le> 512 * k * j" for j using k by simp
  have fb: "file_block D k ino (of_nat b) s = inode_block D k p b" if "b < sz" for b
  proof -
    have "unat (of_nat b :: u32) = b" using that sz by (intro unat_of_nat_32) simp
    then show ?thesis by (simp add: file_block_def inode_block_def block_ref_def f Let_def)
  qed
  show "unat (inode_get_size ino s) = sz" using inode_size_bytes [OF bts] fl by (simp add: disk_file_def)
  have "ptrs_ok D k ino s" using fl by (simp add: ptrs_ok_def disk_file_def f)
  moreover have "j < 12 + 128 * k + 128 * k * (128 * k) \<and> file_block D k ino (of_nat j) s \<noteq> 0 \<and> unat (file_block D k ino (of_nat j) s) * k < 2 ^ 32"
    if "512 * k * j < sz" for j
  proof -
    have j: "j < sz" using le [of j] that by (rule le_less_trans)
    with that fl show ?thesis unfolding fb [OF j] by (simp add: disk_file_def)
  qed
  ultimately show "blocks_ok D k ino sz s" using sz by (simp add: blocks_ok_def)
  assume "q < sz"
  then have "q div (512 * k) < sz" using div_le_dividend by (rule le_less_trans [rotated])
  then show "file_byte D k ino s q = disk_byte D k p q" by (simp add: file_byte_def disk_byte_def fb)
qed

section \<open>Areas of the heap\<close>

lemma headers_mono: "set bs \<subseteq> set bs' \<Longrightarrow> headers bs x \<Longrightarrow> headers bs' x"
  by (auto simp: headers_def)

lemma heap_own_mono:
  "set bs \<subseteq> set bs' \<Longrightarrow> set bs' \<subseteq> set bs'' \<Longrightarrow> heap_own bs' bs'' x \<Longrightarrow> heap_own bs bs'' x"
  "set bs' \<subseteq> set bs'' \<Longrightarrow> heap_own bs bs' x \<Longrightarrow> heap_own bs bs'' x"
  by (auto simp: heap_own_def headers_def)

lemma old_payload_apart:
  assumes "heap_ok bs'" "set bs \<subseteq> set bs'" "b \<in> set bs" "in_range (fst b + 24) (unat (snd b)) x"
  shows "\<not> heap_own bs bs' x"
proof -
  have ord: "blks_ordered bs'" using assms(1) by (simp add: heap_ok_def)
  have b: "b \<in> set bs'" using assms(2,3) by blast
  have "\<not> headers bs' x" using hdr_payload_apart [OF ord b _ assms(4)] by (auto simp: headers_def)
  moreover have "\<not> in_range (fst c + 24) (unat (snd c)) x" if "c \<in> set bs' - set bs" for c
    using payload_disjoint [OF ord b] that assms(3,4) ranges_disjoint_not_both by blast
  ultimately show ?thesis by (auto simp: heap_own_def)
qed

lemma place_grows: "heap_ok bs \<Longrightarrow> room z 1 bs \<Longrightarrow> place z 1 bs = (bs', g, gap) \<Longrightarrow> set bs \<subseteq> set bs' \<and> (g, z) \<in> set bs' - set bs \<and> heap_ok bs'"
  using place_release(3,4) [of bs z 1 bs' g gap] heap_own_place(3) [of bs z bs' g gap] by auto

lemma three_blocks_grow:
  assumes "heap_ok bs" "three_blocks bs z1 z2 z3 (bs1, g1) (bs2, g2) (bs3, g3)"
  shows "set bs \<subseteq> set bs3" "heap_ok bs3"
  using assms place_grows [of bs z1 bs1 g1 False] place_grows [of bs1 z2 bs2 g2 False] place_grows [of bs2 z3 bs3 g3 False]
  by (auto simp: three_blocks_def)

section \<open>Opening\<close>

text \<open>
  The heap with a block for the inode, behind it the three of the search, and in their place afterwards the block
  buffer; frame, descriptor, path and what describes the file system are apart from it.
\<close>

definition open_area :: "blk list \<Rightarrow> blk list \<Rightarrow> blk list \<Rightarrow> addr \<Rightarrow> bool" where
  "open_area bs bs3 bs4 x \<longleftrightarrow> heap_own bs bs3 x \<or> heap_own bs bs4 x"

definition open_env ::
  "('x, 'y) fs_handle_scheme \<Rightarrow> nat \<Rightarrow> nat \<Rightarrow> blk list \<Rightarrow> (blk list \<times> addr) \<Rightarrow> (blk list \<times> addr) \<Rightarrow> (blk list \<times> addr) \<Rightarrow> (blk list \<times> addr) \<Rightarrow>
     (blk list \<times> addr) \<Rightarrow> addr \<Rightarrow> addr \<Rightarrow> addr \<Rightarrow> nat \<Rightarrow> 'x kmem_scheme \<Rightarrow> bool" where
  "open_env fs ng k bs b0 b1 b2 b3 b4 sp fd path n s \<longleftrightarrow>
     kmem_inv bs s \<and> kmem_spinlock s = 0 \<and> room 128 1 bs \<and> place 128 1 bs = (fst b0, snd b0, False) \<and>
     three_blocks (fst b0) (of_nat n) (of_nat (512 * k)) (of_nat (512 * k)) b1 b2 b3 \<and>
     room (of_nat (512 * k)) 1 (fst b0) \<and> place (of_nat (512 * k)) 1 (fst b0) = (fst b4, snd b4, False) \<and>
     inode_params (fs_sb fs) ng k s \<and> get32 (sb_at (fs_sb fs) Req_features) s AND FS_EXT2_SB_RWFEATURE_DIRS_HAVE_TYPE_FIELD \<noteq> 0 \<and>
     (\<forall>x. fs_meta (fs_sb fs) (fs_bt fs) ng s x \<longrightarrow> \<not> open_area bs (fst b3) (fst b4) x \<and> \<not> in_range sp 424 x \<and> \<not> in_range fd 40 x) \<and>
     (\<forall>x. in_range sp 424 x \<or> in_range fd 40 x \<or> in_range path n x \<longrightarrow> \<not> open_area bs (fst b3) (fst b4) x) \<and>
     (\<forall>x. in_range fd 40 x \<longrightarrow> \<not> in_range sp 424 x \<and> \<not> in_range path n x) \<and> n < 2 ^ 63"

lemma get64_put8_other: "\<not> in_range c 8 a \<Longrightarrow> get64 c (put8 a b s) = get64 c s"
  by (rule get64_cong) auto

lemma open_areas:
  assumes "heap_ok bs" "room 128 1 bs" "place 128 1 bs = (bs0, g0, False)" "three_blocks bs0 z1 z2 z3 (bs1, g1) (bs2, g2) (bs3, g3)"
    and "room z4 1 bs0" "place z4 1 bs0 = (bs4, g4, False)"
  shows "headers bs x \<Longrightarrow> open_area bs bs3 bs4 x" "headers bs0 x \<Longrightarrow> open_area bs bs3 bs4 x" "heap_own bs0 bs3 x \<Longrightarrow> open_area bs bs3 bs4 x"
    "heap_own bs0 bs4 x \<Longrightarrow> open_area bs bs3 bs4 x" "in_range (g0 + 24) 128 x \<Longrightarrow> open_area bs bs3 bs4 x \<and> \<not> heap_own bs0 bs3 x \<and> \<not> heap_own bs0 bs4 x"
    "in_range (g4 + 24) (unat z4) x \<Longrightarrow> open_area bs bs3 bs4 x \<and> heap_own bs0 bs4 x" "headers bs4 x \<Longrightarrow> open_area bs bs3 bs4 x" "heap_ok bs0"
proof -
  have g0: "set bs \<subseteq> set bs0" "(g0, 128) \<in> set bs0 - set bs" and ok0: "heap_ok bs0" using place_grows [OF assms(1-3)] by blast+
  note t = three_blocks_grow [OF ok0 assms(4)]
  have g4: "set bs0 \<subseteq> set bs4" "(g4, z4) \<in> set bs4 - set bs0" "heap_ok bs4" using place_grows [OF ok0 assms(5,6)] by blast+
  show "headers bs x \<Longrightarrow> open_area bs bs3 bs4 x" "headers bs0 x \<Longrightarrow> open_area bs bs3 bs4 x" "headers bs4 x \<Longrightarrow> open_area bs bs3 bs4 x"
    using headers_mono [of bs bs4] headers_mono [of bs0 bs4] g0 g4 by (auto simp: open_area_def heap_own_def)
  show "heap_own bs0 bs3 x \<Longrightarrow> open_area bs bs3 bs4 x" "heap_own bs0 bs4 x \<Longrightarrow> open_area bs bs3 bs4 x"
    using heap_own_mono(1) g0(1) t(1) g4(1) by (auto simp: open_area_def)
  show "open_area bs bs3 bs4 x \<and> \<not> heap_own bs0 bs3 x \<and> \<not> heap_own bs0 bs4 x" if x: "in_range (g0 + 24) 128 x"
  proof -
    have "in_range (fst (g0, 128 :: u64) + 24) (unat (snd (g0, 128 :: u64))) x" using x by simp
    moreover from this have "heap_own bs bs4 x" unfolding heap_own_def using g0(2) g4(1) by blast
    ultimately show ?thesis
      using old_payload_apart [OF t(2,1)] old_payload_apart [OF g4(3,1)] g0(2) unfolding open_area_def by blast
  qed
  show "in_range (g4 + 24) (unat z4) x \<Longrightarrow> open_area bs bs3 bs4 x \<and> heap_own bs0 bs4 x"
    using heap_own_place(1) [OF ok0 assms(5,6)] g0(1) g4(1) heap_own_mono(1) unfolding open_area_def by blast
  show "heap_ok bs0" by (rule ok0)
qed

context block_drive
begin

text \<open>The block for the inode: what \<^verbatim>\<open>fs_ext2_open\<close> does before it looks the path up.\<close>

lemma open_setup:
  assumes "ok s" and env: "open_env fs ng k bs (bs0, g0) (bs1, g1) (bs2, g2) (bs3, g3) (bs4, g4) sp fd path (length t + 1) s"
    and str: "cstr_at (kmem_mem s) path t"
  obtains s2 where "kmalloc None (ucast (get16 (sb_at (fs_sb fs) Inode_size) (put8 (fd + 33) 0 s))) (put8 (fd + 33) 0 s) = Some (s2, g0 + 24)"
    "ok s2" "dsk s2 = dsk s"
    "find_env fs ng k bs0 (bs1, g1) (bs2, g2) (bs3, g3) sp (g0 + 24) path (length t + 1) (put64 (fd + 8) (g0 + 24) s2)"
    "cstr_at (kmem_mem (put64 (fd + 8) (g0 + 24) s2)) path t" "kmem_mem s2 (fd + 33) = 0"
    "\<forall>x. \<not> open_area bs bs3 bs4 x \<longrightarrow> \<not> in_range fd 40 x \<longrightarrow> kmem_mem (put64 (fd + 8) (g0 + 24) s2) x = kmem_mem s x"
proof -
  let ?n = "length t + 1" and ?z = "of_nat (512 * k) :: u64" and ?s1 = "put8 (fd + 33) 0 s"
  have hp: "kmem_inv bs s" "kmem_spinlock s = 0" "room 128 1 bs" "place 128 1 bs = (bs0, g0, False)"
    "three_blocks bs0 (of_nat ?n) ?z ?z (bs1, g1) (bs2, g2) (bs3, g3)" "room ?z 1 bs0" "place ?z 1 bs0 = (bs4, g4, False)"
    and pm: "inode_params (fs_sb fs) ng k s" and ft: "get32 (sb_at (fs_sb fs) Req_features) s AND FS_EXT2_SB_RWFEATURE_DIRS_HAVE_TYPE_FIELD \<noteq> 0"
    and mt: "\<And>x. fs_meta (fs_sb fs) (fs_bt fs) ng s x \<Longrightarrow> \<not> open_area bs bs3 bs4 x \<and> \<not> in_range sp 424 x \<and> \<not> in_range fd 40 x"
    and ap: "\<And>x. in_range sp 424 x \<or> in_range fd 40 x \<or> in_range path ?n x \<Longrightarrow> \<not> open_area bs bs3 bs4 x"
    and fd: "\<And>x. in_range fd 40 x \<Longrightarrow> \<not> in_range sp 424 x \<and> \<not> in_range path ?n x" and n: "?n < 2 ^ 63"
    using env unfolding open_env_def fst_conv snd_conv by blast+
  have ok0: "heap_ok bs" using hp(1) by (simp add: kmem_inv_def)
  note ar = open_areas [OF ok0 hp(3-7)]
  have f33: "in_range fd 40 (fd + 33)" and f8: "in_range (fd + 8) 8 x \<Longrightarrow> in_range fd 40 x" for x
    using fd_range [of fd 8 8 x] by (simp_all add: in_range_def)
  have inv1: "kmem_inv bs ?s1" by (rule kmem_inv_cong [OF hp(1)]) (use ar(1) ap f33 in auto)
  have fr1: "kmem_mem ?s1 x = kmem_mem s x" if "\<not> in_range fd 40 x" for x using that f33 by auto
  have m1: "\<forall>x. fs_meta (fs_sb fs) (fs_bt fs) ng s x \<longrightarrow> kmem_mem ?s1 x = kmem_mem s x" using mt fr1 by blast
  have "unat (inode_size (fs_sb fs) ?s1) = 128" using fs_meta_agree(3) [OF m1] pm by (simp add: inode_params_def)
  then have "unat (get16 (sb_at (fs_sb fs) Inode_size) ?s1) = 128" by (simp only: inode_size_def unat_ucast_short)
  then have isz: "ucast (get16 (sb_at (fs_sb fs) Inode_size) ?s1) = (128 :: u64)" by (simp add: word_unat_eq_iff unsigned_ucast_eq take_bit_eq_mod)
  have l1: "kmem_spinlock ?s1 = 0" using hp(2) by (simp add: put8_def)
  obtain s2 where s2: "kmalloc None 128 ?s1 = Some (s2, g0 + 24)" "kmem.more s2 = kmem.more ?s1" "kmem_spinlock s2 = 0" "kmem_inv bs0 s2"
    and fr2: "\<And>x. \<not> headers bs0 x \<Longrightarrow> kmem_mem s2 x = kmem_mem ?s1 x"
    using buffer_alloc [OF inv1 l1 hp(3,4)] by metis
  let ?s3 = "put64 (fd + 8) (g0 + 24) s2"
  have fr3: "\<forall>x. \<not> open_area bs bs3 bs4 x \<longrightarrow> \<not> in_range fd 40 x \<longrightarrow> kmem_mem ?s3 x = kmem_mem s x"
    using fr1 fr2 ar(2) f8 put64_mem by metis
  have m3: "\<forall>x. fs_meta (fs_sb fs) (fs_bt fs) ng s x \<longrightarrow> kmem_mem ?s3 x = kmem_mem s x" using mt fr3 by blast
  note g = fs_meta_agree [where s = s and s' = ?s3 and sb = "fs_sb fs" and bt = "fs_bt fs" and ng = ng, OF m3]
  have inv3: "kmem_inv bs0 ?s3" by (rule kmem_inv_cong [OF s2(4)]) (use ar(2) ap f8 put64_mem in blast)
  have own: "find_own bs0 bs3 sp (g0 + 24) x \<Longrightarrow> open_area bs bs3 bs4 x \<or> in_range sp 424 x" for x
    using ar(3,5) unfolding find_own_def by blast
  have l3: "kmem_spinlock ?s3 = 0" using s2(3) by (simp add: put64_def)
  have fe: "find_env fs ng k bs0 (bs1, g1) (bs2, g2) (bs3, g3) sp (g0 + 24) path ?n ?s3"
    unfolding find_env_def g(4-6) fst_conv
    using inv3 l3 hp(5) pm ft mt own ap ar(3,5) n by (intro conjI) blast+
  have st: "cstr_at (kmem_mem ?s3) path t"
  proof (rule cstr_at_transport [OF str])
    fix j
    assume "j \<le> length t"
    then have "in_range path ?n (path + of_nat j)" using n unat_of_nat_64 [of j] by (simp add: in_range_def)
    then show "kmem_mem ?s3 (path + of_nat j) = kmem_mem s (path + of_nat j)" using fr3 ap fd by blast
  qed
  have z: "kmem_mem s2 (fd + 33) = 0" using fr2 [of "fd + 33"] ar(2) ap f33 by auto
  have "ok s2" "dsk s2 = dsk s" using more_frame [OF s2(2)] rest_frame [OF rest_of_put(1), of "fd + 33" 0 s] assms(1) by simp_all
  then show thesis using s2(1) isz fe st z fr3 by (intro that [of s2]) simp_all
qed

text \<open>The block buffer and the position: what \<^verbatim>\<open>fs_ext2_open\<close> does with the inode it has found.\<close>

lemma open_finish:
  assumes s3: "ok s3" "kmem_inv bs0 s3" "kmem_spinlock s3 = 0" and pl: "room (of_nat (512 * k)) 1 bs0" "place (of_nat (512 * k)) 1 bs0 = (bs4, g4, False)"
    and gm: "geom (fs_sb fs) k s3" and fld: "get64 (fd + 8) s3 = ino" "kmem_mem s3 (fd + 33) = 0"
    and bts: "\<And>i. i < 128 \<Longrightarrow> kmem_mem s3 (ino + of_nat i) = D (p + i)" and fl: "disk_file D k p sz"
    and fd: "\<And>x. in_range fd 40 x \<Longrightarrow> \<not> heap_own bs0 bs4 x \<and> \<not> in_range ino 128 x"
    and ino: "\<And>x. in_range ino 128 x \<Longrightarrow> \<not> heap_own bs0 bs4 x"
    and sb: "\<And>x. in_range (sb_at (fs_sb fs) Block_logsz) 4 x \<Longrightarrow> \<not> in_range fd 40 x \<and> \<not> heap_own bs0 bs4 x"
  obtains s4 s8 where "kmalloc None (of_nat (512 * k)) s3 = Some (s4, g4 + 24)"
    "s8 = put32 (fd + 28) 0 (put32 (fd + 24) 0 (put8 (fd + 32) 1 (put64 (fd + 16) (g4 + 24) s4)))"
    "get64 (fd + 8) s8 = ino" "fs_ext2_get_inode_pointer drv (fs_sb fs) ino 0 (get64 (fd + 16) s8) s8 = Some (s8, inode_block D k p 0)"
    "ok s8" "dsk s8 = dsk s3" "kmem_inv bs4 s8" "kmem_spinlock s8 = 0" "file_at fs fd ino (g4 + 24) k D sz 0 s8"
    "\<And>q. q < sz \<Longrightarrow> file_byte D k ino s8 q = disk_byte D k p q"
    "\<And>x. \<not> heap_own bs0 bs4 x \<Longrightarrow> \<not> in_range fd 40 x \<Longrightarrow> kmem_mem s8 x = kmem_mem s3 x"
proof -
  let ?z = "of_nat (512 * k) :: u64"
  have k: "0 < k" "k < 65536" using gm by (simp_all add: geom_def)
  have uz: "unat ?z = 512 * k" using k unat_of_nat_64 [of "512 * k"] by simp
  have ok0: "heap_ok bs0" using s3(2) by (simp add: kmem_inv_def)
  note hw = heap_own_place [OF ok0 pl, unfolded uz]
  obtain s4 where s4: "kmalloc None ?z s3 = Some (s4, g4 + 24)" "kmem.more s4 = kmem.more s3" "kmem_spinlock s4 = 0" "kmem_inv bs4 s4"
    and fr4: "\<And>x. \<not> headers bs4 x \<Longrightarrow> kmem_mem s4 x = kmem_mem s3 x"
    using buffer_alloc [OF s3(2,3) pl] by metis
  define s8 where "s8 = put32 (fd + 28) 0 (put32 (fd + 24) 0 (put8 (fd + 32) 1 (put64 (fd + 16) (g4 + 24) s4)))"
  have sub: "in_range fd 40 x" if "in_range (fd + 28) 4 x \<or> in_range (fd + 24) 4 x \<or> in_range (fd + 16) 8 x \<or> x = fd + 32" for x
    using that fd_range [of fd 28 4 x] fd_range [of fd 24 4 x] fd_range [of fd 16 8 x] by (auto simp: in_range_def)
  have fr48: "kmem_mem s8 x = kmem_mem s4 x" if "\<not> in_range fd 40 x" for x
  proof -
    have "\<not> in_range (fd + 28) 4 x" "\<not> in_range (fd + 24) 4 x" "\<not> in_range (fd + 16) 8 x" "x \<noteq> fd + 32"
      using that sub by blast+
    then show ?thesis by (simp add: s8_def put32_mem put64_mem)
  qed
  have fr: "kmem_mem s8 x = kmem_mem s3 x" if "\<not> heap_own bs0 bs4 x" "\<not> in_range fd 40 x" for x
    using that fr48 fr4 hw(1) by simp
  have f4: "get64 (fd + 8) s4 = ino" "kmem_mem s4 (fd + 33) = 0"
  proof -
    have in8: "in_range (fd + 8) 8 x \<Longrightarrow> in_range fd 40 x" and in33: "in_range fd 40 (fd + 33)" for x
      using fd_range [of fd 8 8 x] by (simp_all add: in_range_def)
    show "get64 (fd + 8) s4 = ino" using get64_cong [of "fd + 8" s4 s3] fr4 fd in8 hw(1) fld(1) by metis
    show "kmem_mem s4 (fd + 33) = 0" using fr4 fd [OF in33] hw(1) fld(2) by metis
  qed
  have f8: "get64 (fd + 8) s8 = ino" "get64 (fd + 16) s8 = g4 + 24" "get32 (fd + 24) s8 = 0" "get32 (fd + 28) s8 = 0"
    "kmem_mem s8 (fd + 32) = 1" "kmem_mem s8 (fd + 33) = 0"
    using f4 by (simp_all add: s8_def get64_put32_other get32_put32_other get64_put8_other get_put64 ranges_disjoint_def put32_mem put64_mem in_range_def)
  have b8: "kmem_mem s8 (ino + of_nat i) = D (p + i)" if "i < 128" for i
  proof -
    have "in_range ino 128 (ino + of_nat i)" using that unat_of_nat_64 [of i] by (simp add: in_range_def)
    then show ?thesis using fr ino fd bts [OF that] by metis
  qed
  have gm8: "geom (fs_sb fs) k s8" using gm geom_cong(3) [of "fs_sb fs" s8 s3 k] fr sb by blast
  have buf: "in_range (g4 + 24) (512 * k) x \<Longrightarrow> heap_own bs0 bs4 x" for x using hw(1) by blast
  have dj: "ranges_disjoint (g4 + 24) (512 * k) fd 40" "ranges_disjoint (g4 + 24) (512 * k) ino 128"
    "ranges_disjoint (g4 + 24) (512 * k) (sb_at (fs_sb fs) Block_logsz) 4" "ranges_disjoint fd 40 ino 128"
    "ranges_disjoint fd 40 (sb_at (fs_sb fs) Block_logsz) 4"
    unfolding ranges_disjoint_iff using buf fd ino sb by blast+
  note fo = file_on_disk [where s = s8 and ino = ino and D = D and p = p, OF b8 fl k(1)]
  have fa: "file_at fs fd ino (g4 + 24) k D sz 0 s8"
    using f8 fo(1,2) dj gm8 fl by (simp add: file_at_def open_file_def apart_from_fd_def fd_offsets disk_file_def)
  have "get32 (dbp_at ino 0) s8 = inode_block D k p 0"
    using inode_field_bytes(1) [where s = s8 and ino = ino and D = D and p = p and j = 0, OF b8] by (simp add: inode_block_def block_ref_def)
  then have ptr: "fs_ext2_get_inode_pointer drv (fs_sb fs) ino 0 (get64 (fd + 16) s8) s8 = Some (s8, inode_block D k p 0)"
    by (simp add: fs_ext2_get_inode_pointer_def)
  have "kmem.more s8 = kmem.more s3" using s4(2) rest_of_put by (simp add: s8_def put64_def)
  note ok8 = more_frame [OF this]
  have inv8: "kmem_inv bs4 s8" by (rule kmem_inv_cong [OF s4(4)]) (use fr48 fd hw(1) in blast)
  have "kmem_spinlock s8 = 0" using s4(3) by (simp add: s8_def put32_def put8_def put64_def)
  with that [OF s4(1) s8_def f8(1) ptr _ ok8(2) inv8 _ fa fo(3) fr] ok8(1) s3(1) show thesis by simp
qed

lemma open_ref:
  assumes fs: "fs_hooks fs = None" "fs_drive fs = drv" and "ok s"
    and env: "open_env fs ng k bs (bs0, g0) (bs1, g1) (bs2, g2) (bs3, g3) (bs4, g4) sp fd path (length t + 1) s"
    and str: "cstr_at (kmem_mem s) path t"
    and nodes: "\<forall>m \<in> set (dirs_read dirs FS_EXT2_ROOT_INODE (split_slash t)). dir_node (dsk s) (fs_sb fs) (fs_bt fs) ng k dirs s m"
    and res: "resolve dirs FS_EXT2_ROOT_INODE (split_slash t) = Some m" and th: "inode_there (fs_sb fs) (fs_bt fs) ng k m s"
    and fl: "disk_file (dsk s) k (inode_pos (fs_sb fs) (fs_bt fs) k m s) sz"
  shows "\<exists>s'. fs_ext2_open fs sp fd path FS_OPEN_READ s = Some (s', 0) \<and> ok s' \<and> dsk s' = dsk s \<and> kmem_inv bs4 s' \<and> kmem_spinlock s' = 0 \<and>
    file_at fs fd (g0 + 24) (g4 + 24) k (dsk s) sz 0 s' \<and>
    (\<forall>q < sz. file_byte (dsk s) k (g0 + 24) s' q = disk_byte (dsk s) k (inode_pos (fs_sb fs) (fs_bt fs) k m s) q) \<and>
    (\<forall>x. \<not> open_area bs bs3 bs4 x \<longrightarrow> \<not> in_range sp 424 x \<longrightarrow> \<not> in_range fd 40 x \<longrightarrow> kmem_mem s' x = kmem_mem s x)"
proof -
  let ?n = "length t + 1" and ?z = "of_nat (512 * k) :: u64" and ?sb = "fs_sb fs" and ?bt = "fs_bt fs" and ?ino = "g0 + 24"
  let ?p = "inode_pos ?sb ?bt k m s"
  have hp: "kmem_inv bs s" "room 128 1 bs" "place 128 1 bs = (bs0, g0, False)"
    "three_blocks bs0 (of_nat ?n) ?z ?z (bs1, g1) (bs2, g2) (bs3, g3)" "room ?z 1 bs0" "place ?z 1 bs0 = (bs4, g4, False)"
    and pm: "inode_params ?sb ng k s"
    and mt: "\<And>x. fs_meta ?sb ?bt ng s x \<Longrightarrow> \<not> open_area bs bs3 bs4 x \<and> \<not> in_range sp 424 x \<and> \<not> in_range fd 40 x"
    and ap: "\<And>x. in_range sp 424 x \<or> in_range fd 40 x \<Longrightarrow> \<not> open_area bs bs3 bs4 x"
    and fd: "\<And>x. in_range fd 40 x \<Longrightarrow> \<not> in_range sp 424 x"
    using env unfolding open_env_def fst_conv snd_conv by blast+
  have k: "unat (blocksize ?sb s) = 512 * k" "k < 65536" using pm by (simp_all add: inode_params_def geom_def)
  have ok0: "heap_ok bs" using hp(1) by (simp add: kmem_inv_def)
  note ar = open_areas [OF ok0 hp(2-6)]
  obtain s2 where s2: "kmalloc None (ucast (get16 (sb_at ?sb Inode_size) (put8 (fd + 33) 0 s))) (put8 (fd + 33) 0 s) = Some (s2, ?ino)"
    "ok s2" "dsk s2 = dsk s" "find_env fs ng k bs0 (bs1, g1) (bs2, g2) (bs3, g3) sp ?ino path ?n (put64 (fd + 8) ?ino s2)"
    "cstr_at (kmem_mem (put64 (fd + 8) ?ino s2)) path t" "kmem_mem s2 (fd + 33) = 0"
    and fr2: "\<forall>x. \<not> open_area bs bs3 bs4 x \<longrightarrow> \<not> in_range fd 40 x \<longrightarrow> kmem_mem (put64 (fd + 8) ?ino s2) x = kmem_mem s x"
    using open_setup [OF assms(3) env str] by metis
  define s3 where "s3 = put64 (fd + 8) ?ino s2"
  note s2 = s2 [folded s3_def] and fr2 = fr2 [folded s3_def]
  have okd3: "ok s3" "dsk s3 = dsk s" using rest_frame [OF rest_of_put(3), of "fd + 8" ?ino s2] s2(2,3) by (simp_all add: s3_def)
  have m3: "\<forall>x. fs_meta ?sb ?bt ng s x \<longrightarrow> kmem_mem s3 x = kmem_mem s x" using mt fr2 by blast
  note i3 = inode_agree [OF m3 pm th]
  have nd3: "\<forall>m \<in> set (dirs_read dirs FS_EXT2_ROOT_INODE (split_slash t)). dir_node (dsk s3) ?sb ?bt ng k dirs s3 m"
    using dir_node_agree [OF m3 pm] nodes okd3(2) by simp
  have th3: "inode_there ?sb ?bt ng k m' s3" if "resolve dirs FS_EXT2_ROOT_INODE (split_slash t) = Some m'" for m'
    using that res i3(1) by simp
  obtain s4 where s4: "fs_ext2_find_final_inode fs sp path ?ino s3 = Some (s4, Inr m)" "ok s4" "dsk s4 = dsk s" "kmem_inv bs0 s4" "kmem_spinlock s4 = 0"
    and b4: "\<And>i. i < 128 \<Longrightarrow> kmem_mem s4 (?ino + of_nat i) = dsk s (?p + i)"
    and fr4: "\<And>x. \<not> find_own bs0 bs3 sp ?ino x \<Longrightarrow> kmem_mem s4 x = kmem_mem s3 x"
    using find_final_inode_ref [OF fs okd3(1) s2(4,5) nd3 th3] unfolding res okd3(2) by (auto simp: i3(2))
  have own: "find_own bs0 bs3 sp ?ino x \<Longrightarrow> open_area bs bs3 bs4 x \<or> in_range sp 424 x" for x
    using ar(3,5) unfolding find_own_def by blast
  have fd4: "kmem_mem s4 x = kmem_mem s3 x" if "in_range fd 40 x" for x using that own ap fd by (intro fr4) blast
  define s5 where "s5 = put32 fd m s4"
  have f4: "in_range fd 4 x \<Longrightarrow> in_range fd 40 x" and f8: "in_range (fd + 8) 8 x \<Longrightarrow> in_range fd 40 x" and f33: "in_range fd 40 (fd + 33)" for x
    using in_range_mono [of fd 4 x 40] fd_range [of fd 8 8 x] by (simp_all add: in_range_def)
  have fr5: "kmem_mem s5 x = kmem_mem s4 x" if "\<not> in_range fd 40 x" for x using that f4 put32_mem unfolding s5_def by blast
  have fr05: "kmem_mem s5 x = kmem_mem s x" if "\<not> open_area bs bs3 bs4 x" "\<not> in_range sp 424 x" "\<not> in_range fd 40 x" for x
    using that fr5 fr4 own fr2 by metis
  have okd5: "ok s5" "dsk s5 = dsk s" "kmem_spinlock s5 = 0"
    using rest_frame [OF rest_of_put(2), of fd m s4] s4(2,3,5) by (simp_all add: s5_def put32_def)
  have inv5: "kmem_inv bs0 s5" by (rule kmem_inv_cong [OF s4(4)]) (use fr5 ar(2) ap in blast)
  have m5: "\<forall>x. fs_meta ?sb ?bt ng s x \<longrightarrow> kmem_mem s5 x = kmem_mem s x" using mt fr05 by blast
  note a5 = fs_meta_agree [where s = s and s' = s5 and sb = ?sb and bt = ?bt and ng = ng, OF m5]
  have gm5: "geom ?sb k s5" using pm a5(1) by (simp add: inode_params_def geom_def)
  have g4f: "get64 (fd + 8) s4 = ?ino" using get64_cong [of "fd + 8" s4 s3] fd4 f8 by (simp add: s3_def get_put64)
  then have fld5: "get64 (fd + 8) s5 = ?ino" by (simp add: s5_def get64_put32_other ranges_disjoint_def)
  have z5: "kmem_mem s5 (fd + 33) = 0"
    using fd4 [OF f33] s2(6) by (simp add: s5_def s3_def put32_mem put64_mem in_range_def)
  have ino: "\<And>x. in_range ?ino 128 x \<Longrightarrow> \<not> heap_own bs0 bs4 x" and fdi: "\<And>x. in_range fd 40 x \<Longrightarrow> \<not> heap_own bs0 bs4 x \<and> \<not> in_range ?ino 128 x"
    using ar(4,5) ap by blast+
  have b5: "kmem_mem s5 (?ino + of_nat i) = dsk s (?p + i)" if "i < 128" for i
  proof -
    have "in_range ?ino 128 (?ino + of_nat i)" using that unat_of_nat_64 [of i] by (simp add: in_range_def)
    then show ?thesis using fr5 fdi b4 [OF that] by metis
  qed
  have sbl: "\<not> in_range fd 40 x \<and> \<not> heap_own bs0 bs4 x" if "in_range (sb_at ?sb Block_logsz) 4 x" for x
  proof -
    have "in_range ?sb 236 x" using in_range_inner [of ?sb 24 4 x 236] that by (simp add: more_sb_offsets)
    then show ?thesis using mt ar(4) unfolding fs_meta_def by blast
  qed
  obtain s6 s7 where s7: "kmalloc None ?z s5 = Some (s6, g4 + 24)"
    "s7 = put32 (fd + 28) 0 (put32 (fd + 24) 0 (put8 (fd + 32) 1 (put64 (fd + 16) (g4 + 24) s6)))"
    "get64 (fd + 8) s7 = ?ino" "fs_ext2_get_inode_pointer drv ?sb ?ino 0 (get64 (fd + 16) s7) s7 = Some (s7, inode_block (dsk s) k ?p 0)"
    "ok s7" "dsk s7 = dsk s5" "kmem_inv bs4 s7" "kmem_spinlock s7 = 0" "file_at fs fd ?ino (g4 + 24) k (dsk s) sz 0 s7"
    and by7: "\<And>q. q < sz \<Longrightarrow> file_byte (dsk s) k ?ino s7 q = disk_byte (dsk s) k ?p q"
    and fr7: "\<And>x. \<not> heap_own bs0 bs4 x \<Longrightarrow> \<not> in_range fd 40 x \<Longrightarrow> kmem_mem s7 x = kmem_mem s5 x"
    using open_finish [OF okd5(1) inv5 okd5(3) hp(5,6) gm5 fld5 z5 b5 fl fdi ino sbl] by metis
  have bz: "ucast (blocksize ?sb s5) = ?z" using a5(1) k unat_of_nat_64 [of "512 * k"] by (simp add: word_unat_eq_iff unat_ucast_up)
  have nz: "inode_block (dsk s) k ?p 0 \<noteq> 0" using fl by (auto simp: disk_file_def dest: spec [of _ 0])
  have oi: "open_inode fs sp fd path FS_OPEN_READ s3 = Some (s5, 0)"
    using s4(1) by (simp add: open_inode_def fd_offsets s3_def get_put64 s5_def)
  have "fs_ext2_open fs sp fd path FS_OPEN_READ s = Some (s7, 0)"
    unfolding fs_ext2_open_def fs fd_offsets Let_def prod.case
    using s2(1) oi s7(1,3,4) bz nz by (simp add: s3_def FS_OPEN_READ_def FS_OPEN_RECREATE_def FS_OPEN_WRITE_def FS_OPEN_ENDPTR_def s7(2) [symmetric])
  moreover have "kmem_mem s7 x = kmem_mem s x" if "\<not> open_area bs bs3 bs4 x" "\<not> in_range sp 424 x" "\<not> in_range fd 40 x" for x
    using fr7 [of x] fr05 [OF that] ar(4) that by auto
  ultimately show ?thesis using s7(5-9) okd5(2) by7 by auto
qed

text \<open>Opening, reading and closing.\<close>

lemma open_read_close:
  assumes fs: "fs_hooks fs = None" "fs_drive fs = drv" and "ok s"
    and env: "open_env fs ng k bs (bs0, g0) (bs1, g1) (bs2, g2) (bs3, g3) (bs4, g4) sp fd path (length t + 1) s"
    and str: "cstr_at (kmem_mem s) path t"
    and nodes: "\<forall>m \<in> set (dirs_read dirs FS_EXT2_ROOT_INODE (split_slash t)). dir_node (dsk s) (fs_sb fs) (fs_bt fs) ng k dirs s m"
    and res: "resolve dirs FS_EXT2_ROOT_INODE (split_slash t) = Some m" and th: "inode_there (fs_sb fs) (fs_bt fs) ng k m s"
    and fl: "disk_file (dsk s) k (inode_pos (fs_sb fs) (fs_bt fs) k m s) sz" and n: "n = min (unat count) sz"
    and buf: "\<And>x. in_range buf n x \<Longrightarrow> \<not> open_area bs bs3 bs4 x \<and> \<not> in_range fd 40 x \<and> \<not> fs_meta (fs_sb fs) (fs_bt fs) ng s x"
  shows "\<exists>s1 s2 s3. fs_ext2_open fs sp fd path FS_OPEN_READ s = Some (s1, 0) \<and> fs_ext2_read fs fd buf count s1 = Some (s2, of_nat n) \<and>
    fs_ext2_close fs fd s2 = Some s3 \<and> ok s3 \<and> dsk s3 = dsk s \<and> kmem_inv bs s3 \<and> kmem_spinlock s3 = 0 \<and>
    (\<forall>i < n. kmem_mem s3 (buf + of_nat i) = disk_byte (dsk s) k (inode_pos (fs_sb fs) (fs_bt fs) k m s) i)"
proof -
  let ?ino = "g0 + 24" and ?b = "g4 + 24" and ?z = "of_nat (512 * k) :: u64" and ?p = "inode_pos (fs_sb fs) (fs_bt fs) k m s"
  have hp: "kmem_inv bs s" "room 128 1 bs" "place 128 1 bs = (bs0, g0, False)"
    "three_blocks bs0 (of_nat (length t + 1)) ?z ?z (bs1, g1) (bs2, g2) (bs3, g3)" "room ?z 1 bs0" "place ?z 1 bs0 = (bs4, g4, False)"
    and pm: "inode_params (fs_sb fs) ng k s" and ap: "\<And>x. in_range fd 40 x \<Longrightarrow> \<not> open_area bs bs3 bs4 x"
    using env unfolding open_env_def fst_conv snd_conv by blast+
  have k: "0 < k" "k < 65536" using pm by (simp_all add: inode_params_def geom_def)
  have uz: "unat ?z = 512 * k" using k unat_of_nat_64 [of "512 * k"] by simp
  have ok0: "heap_ok bs" using hp(1) by (simp add: kmem_inv_def)
  note ar = open_areas [OF ok0 hp(2-6), unfolded uz]
  obtain s1 where s1: "fs_ext2_open fs sp fd path FS_OPEN_READ s = Some (s1, 0)" "ok s1" "dsk s1 = dsk s" "kmem_inv bs4 s1" "kmem_spinlock s1 = 0"
    "file_at fs fd ?ino ?b k (dsk s) sz 0 s1" and by1: "\<forall>q < sz. file_byte (dsk s) k ?ino s1 q = disk_byte (dsk s) k ?p q"
    using open_ref [OF fs assms(3) env str nodes res th fl] by blast
  have bsb: "\<not> in_range (sb_at (fs_sb fs) Block_logsz) 4 x" if "in_range buf n x" for x
    using buf [OF that] in_range_inner [of "fs_sb fs" 24 4 x 236] by (auto simp: more_sb_offsets fs_meta_def)
  have dj: "apart_from_fd fs fd ?ino buf n" "ranges_disjoint buf n ?b (512 * k)"
    unfolding apart_from_fd_def ranges_disjoint_iff using buf bsb ar(5,6) by blast+
  have n0: "n = min (unat count) (sz - 0)" using n by simp
  obtain s2 where s2: "fs_ext2_read fs fd buf count s1 = Some (s2, of_nat n)" "ok s2" "kmem_spinlock s2 = 0" "dsk s2 = dsk s1"
    "file_at fs fd ?ino ?b k (dsk s1) sz (0 + n) s2" and fr2: "\<forall>x. \<not> touched fd ?b k buf n x \<longrightarrow> kmem_mem s2 x = kmem_mem s1 x"
    and by2: "\<forall>i < n. kmem_mem s2 (buf + of_nat i) = file_byte (dsk s1) k ?ino s1 (0 + i)"
    using locked.read_ref [OF fs(2) conjI [OF s1(2,5)] s1(6) [folded s1(3)] n0 dj] by blast
  have inv2: "kmem_inv bs4 s2"
  proof (rule kmem_inv_cong [OF s1(4)])
    fix x
    assume h: "headers bs4 x"
    have "\<not> in_range ?b (512 * k) x" using heap_own_place(4) [OF ar(8) hp(5,6)] h uz by auto
    then have "\<not> touched fd ?b k buf n x" using ar(7) [OF h] ap buf touched_fd unfolding touched_def by blast
    with fr2 show "kmem_mem s2 x = kmem_mem s1 x" by blast
  qed
  have f2: "get64 (fd + 16) s2 = ?b" "get64 (fd + 8) s2 = ?ino" using s2(5) by (simp_all add: file_at_def open_file_def fd_offsets)
  obtain s3 where s3: "kfree ?b s2 = Some s3" "kmem.more s3 = kmem.more s2" "kmem_spinlock s3 = 0" "kmem_inv bs0 s3"
    "\<And>x. \<not> headers bs4 x \<Longrightarrow> kmem_mem s3 x = kmem_mem s2 x"
    using buffer_free [OF ar(8) hp(5,6) inv2 s2(3)] by metis
  obtain s4 where s4: "kfree ?ino s3 = Some s4" "kmem.more s4 = kmem.more s3" "kmem_spinlock s4 = 0" "kmem_inv bs s4"
    "\<And>x. \<not> headers bs0 x \<Longrightarrow> kmem_mem s4 x = kmem_mem s3 x"
    using buffer_free [OF ok0 hp(2,3) s3(4,3)] by metis
  have "in_range (fd + 8) 8 x \<Longrightarrow> in_range fd 40 x" for x using fd_range [of fd 8 8 x] by simp
  then have "get64 (fd + 8) s3 = ?ino" using f2(2) get64_cong [of "fd + 8" s3 s2] s3(5) ap ar(7) by metis
  then have cl: "fs_ext2_close fs fd s2 = Some s4" using f2(1) s3(1) s4(1) by (simp add: fs_ext2_close_def fd_offsets)
  have "kmem_mem s4 (buf + of_nat i) = disk_byte (dsk s) k ?p i" if "i < n" for i
  proof -
    have "n < 2 ^ 64" using n unat_lt_2p64 [of count] by simp
    then have "in_range buf n (buf + of_nat i)" using that unat_of_nat_64 [of i] by (simp add: in_range_def)
    then have "\<not> open_area bs bs3 bs4 (buf + of_nat i)" using buf by blast
    then have "kmem_mem s4 (buf + of_nat i) = kmem_mem s2 (buf + of_nat i)" using s3(5) s4(5) ar(2,7) by metis
    then show ?thesis using by2 by1 that n s1(3) by simp
  qed
  with s1(1) s2(1) cl more_frame [OF s3(2)] more_frame [OF s4(2)] s2(2,4) s1(3) s4(3,4) show ?thesis by auto
qed

end

section \<open>Properties\<close>

text \<open>
  C1: Opening a file by its path, reading from it and closing it: the calls return, the buffer of the caller then
  holds the first bytes of the file that the path names in the tree of directories on the disk, across the
  blocks of the file, as many as were asked for or as there are, and the number of them is the result; the
  disk is as before and the heap has exactly the blocks it had before, unlocked. The heap is unlocked at the start and
  each buffer finds its place behind the last block and not in a gap, no mapping functions are installed, and the file and
  the directories on the way have no holes.
\<close>

theorem open_read_close_returns_the_file:
  assumes fs: "fs_hooks fs = None" "fs_drive fs = pio_ops (ata_hw d0) dp drive" and drive: "drives d0 drive" "sel_ok d0 dp s"
    and env: "open_env fs ng k bs (bs0, g0) (bs1, g1) (bs2, g2) (bs3, g3) (bs4, g4) sp fd path (length t + 1) s"
    and str: "cstr_at (kmem_mem s) path t"
    and nodes: "\<forall>m \<in> set (dirs_read dirs FS_EXT2_ROOT_INODE (split_slash t)).
      dir_node (disk_of d0 s) (fs_sb fs) (fs_bt fs) ng k dirs s m"
    and res: "resolve dirs FS_EXT2_ROOT_INODE (split_slash t) = Some m" and th: "inode_there (fs_sb fs) (fs_bt fs) ng k m s"
    and fl: "disk_file (disk_of d0 s) k (inode_pos (fs_sb fs) (fs_bt fs) k m s) sz" and n: "n = min (unat count) sz"
    and buf: "\<And>x. in_range buf n x \<Longrightarrow> \<not> open_area bs bs3 bs4 x \<and> \<not> in_range fd 40 x \<and> \<not> fs_meta (fs_sb fs) (fs_bt fs) ng s x"
  shows "\<exists>s1 s2 s3. fs_ext2_open fs sp fd path FS_OPEN_READ s = Some (s1, 0) \<and> fs_ext2_read fs fd buf count s1 = Some (s2, of_nat n) \<and>
    fs_ext2_close fs fd s2 = Some s3 \<and> disk_of d0 s3 = disk_of d0 s \<and> kmem_inv bs s3 \<and> kmem_spinlock s3 = 0 \<and>
    (\<forall>i < n. kmem_mem s3 (buf + of_nat i) = disk_byte (disk_of d0 s) k (inode_pos (fs_sb fs) (fs_bt fs) k m s) i)"
  using pio.open_read_close [OF fs conjI [OF drive] env str nodes res th fl n buf] by blast

text \<open>The file \<open>d/ab\<close> of the small disk, which begins with \<open>Hi\<close>.\<close>

abbreviation opened_heap :: "blk list" where
  "opened_heap \<equiv> tree_heap @ [(0x201018, 128)]"

lemma opened_blocks:
  "room 128 1 tree_heap \<and> place 128 1 tree_heap = (opened_heap, 0x201018, False)"
  "three_blocks opened_heap 5 1024 1024 (opened_heap @ [(0x2010B0, 5)], 0x2010B0) (opened_heap @ [(0x2010B0, 5), (0x2010CD, 1024)], 0x2010CD)
     (opened_heap @ [(0x2010B0, 5), (0x2010CD, 1024), (0x2014E5, 1024)], 0x2014E5)"
  "room 1024 1 opened_heap \<and> place 1024 1 opened_heap = (opened_heap @ [(0x2010B0, 1024)], 0x2010B0, False)"
  by (simp_all add: three_blocks_def place_def fit_pos_def align_up_def blk_end_def KMEM_HEAP_BASE_def room_def)

lemma opened_area:
  "open_area tree_heap (opened_heap @ [(0x2010B0, 5), (0x2010CD, 1024), (0x2014E5, 1024)]) (opened_heap @ [(0x2010B0, 1024)]) x \<Longrightarrow>
     unat x \<in> {0x200000..<0x200018} \<union> {0x201018..<0x2018FD}"
  by (auto simp: open_area_def heap_own_def headers_def in_range_unat KMEM_HEAP_BASE_def)

lemma opened_env:
  "open_env tree_handle 1 2 tree_heap (opened_heap, 0x201018) (opened_heap @ [(0x2010B0, 5)], 0x2010B0)
     (opened_heap @ [(0x2010B0, 5), (0x2010CD, 1024)], 0x2010CD) (opened_heap @ [(0x2010B0, 5), (0x2010CD, 1024), (0x2014E5, 1024)], 0x2014E5)
     (opened_heap @ [(0x2010B0, 1024)], 0x2010B0) 0x400000 0x402000 0x200800 5 tree_state"
proof -
  let ?area = "open_area tree_heap (opened_heap @ [(0x2010B0, 5), (0x2010CD, 1024), (0x2014E5, 1024)]) (opened_heap @ [(0x2010B0, 1024)])"
  have inv: "kmem_inv tree_heap tree_state" "kmem_spinlock tree_state = 0" using tree_env by (simp_all add: find_env_def)
  moreover have "\<not> ?area x \<and> \<not> in_range 0x400000 424 x \<and> \<not> in_range 0x402000 40 x" if "fs_meta 0x200018 0x200108 1 tree_state x" for x
    using that opened_area [of x] by (auto simp: fs_meta_def tree_fields in_range_unat)
  moreover have "\<not> ?area x" if "in_range 0x400000 424 x \<or> in_range 0x402000 40 x \<or> in_range 0x200800 5 x" for x
    using that opened_area [of x] by (auto simp: in_range_unat)
  moreover have "\<not> in_range 0x400000 424 x \<and> \<not> in_range 0x200800 5 x" if "in_range 0x402000 40 x" for x
    using that by (auto simp: in_range_unat)
  ultimately show ?thesis
    unfolding open_env_def tree_addresses more_sb_offsets fst_conv snd_conv
    using opened_blocks tree_params by (simp add: tree_fields FS_EXT2_SB_RWFEATURE_DIRS_HAVE_TYPE_FIELD_def)
qed

lemma tree_file: "disk_file tree_data 2 4480 100"
proof -
  have p: "disk32 tree_data 4484 = 100" "disk32 tree_data 4588 = 0" "disk32 tree_data 4520 = 9" "disk32 tree_data 4568 = 0" "disk32 tree_data 4572 = 0"
    by (simp_all add: disk_bytes tree_data_def)
  have "j < 12 + 128 * 2 + 128 * 2 * (128 * 2) \<and> inode_block tree_data 2 4480 j \<noteq> 0 \<and> unat (inode_block tree_data 2 4480 j) * 2 < 2 ^ 32"
    if "512 * 2 * j < 100" for j
  proof -
    have "j = 0" using that by (cases j) simp_all
    then show ?thesis by (simp add: inode_block_def block_ref_def p)
  qed
  then show ?thesis unfolding disk_file_def by (simp add: disk_size_def ptr_in_def p)
qed

theorem open_read_close_returns_the_file_witness:
  "\<exists>s1 s2 s3. fs_ext2_open tree_handle 0x400000 0x402000 0x200800 FS_OPEN_READ tree_state = Some (s1, 0) \<and>
    fs_ext2_read tree_handle 0x402000 0x500000 10 s1 = Some (s2, 10) \<and> fs_ext2_close tree_handle 0x402000 s2 = Some s3 \<and>
    kmem_inv tree_heap s3 \<and> kmem_mem s3 0x500000 = 0x48 \<and> kmem_mem s3 0x500001 = 0x69"
proof -
  let ?t = "[0x64, 0x2F, 0x61, 0x62] :: u8 list"
  have fs: "fs_hooks tree_handle = None" "fs_drive tree_handle = pio_ops (ata_hw tree_dev) 0x8000 demo_drive" by (simp_all add: tree_handle_def)
  have n: "length ?t + 1 = 5" by simp
  have nodes: "\<forall>m \<in> set (dirs_read tree_dirs FS_EXT2_ROOT_INODE (split_slash ?t)).
      dir_node (disk_of tree_dev tree_state) (fs_sb tree_handle) (fs_bt tree_handle) 1 2 tree_dirs tree_state m"
    unfolding tree_walk tree_disk tree_addresses
    using tree_inode [of 2] tree_inode [of 3] tree_directories by (simp add: dir_node_def tree_dirs_def)
  have res: "resolve tree_dirs FS_EXT2_ROOT_INODE (split_slash ?t) = Some 12" by (simp only: tree_walk)
  have th: "inode_there (fs_sb tree_handle) (fs_bt tree_handle) 1 2 12 tree_state" using tree_inode(1) [of 12] by (simp add: tree_addresses)
  have pos: "inode_pos 0x200018 0x200108 2 12 tree_state = 4480" using tree_inode(2) [of 12] by simp
  have fl: "disk_file (disk_of tree_dev tree_state) 2 (inode_pos (fs_sb tree_handle) (fs_bt tree_handle) 2 12 tree_state) 100"
    unfolding tree_addresses pos tree_disk by (rule tree_file)
  have c: "10 = min (unat (10 :: u64)) 100" by simp
  have buf: "\<not> open_area tree_heap (opened_heap @ [(0x2010B0, 5), (0x2010CD, 1024), (0x2014E5, 1024)]) (opened_heap @ [(0x2010B0, 1024)]) x \<and>
      \<not> in_range 0x402000 40 x \<and> \<not> fs_meta (fs_sb tree_handle) (fs_bt tree_handle) 1 tree_state x" if "in_range 0x500000 10 x" for x
    using that opened_area [of x] by (auto simp: fs_meta_def tree_addresses tree_fields in_range_unat)
  obtain s1 s2 s3 where r: "fs_ext2_open tree_handle 0x400000 0x402000 0x200800 FS_OPEN_READ tree_state = Some (s1, 0)"
    "fs_ext2_read tree_handle 0x402000 0x500000 10 s1 = Some (s2, of_nat 10)" "fs_ext2_close tree_handle 0x402000 s2 = Some s3" "kmem_inv tree_heap s3"
    and b: "\<forall>i < 10. kmem_mem s3 (0x500000 + of_nat i) = disk_byte tree_data 2 4480 i"
    using open_read_close_returns_the_file [OF fs tree_disk(2,3) opened_env [folded n] tree_fields(7) nodes res th fl c buf]
    unfolding tree_addresses pos tree_disk(1) by blast
  have "inode_block tree_data 2 4480 0 = 9" by (simp add: inode_block_def block_ref_def disk_bytes tree_data_def)
  then have "kmem_mem s3 0x500000 = 0x48" "kmem_mem s3 0x500001 = 0x69"
    using b [rule_format, of 0] b [rule_format, of 1] by (simp_all add: disk_byte_def tree_data_def)
  with r show ?thesis by auto
qed

end
