(* ===== verification/Elf.thy ===== *)
theory Elf
  imports Fs
begin

unbundle bit_operations_syntax

text \<open>
  The ELF loader (\<^verbatim>\<open>bin/elf.c\<close>, \<^verbatim>\<open>bin/elf.h\<close>): section headers, symbols and relocations of a file that is in
  memory as a whole. All structures are in memory, given by their addresses. The tables of the module
  loader that symbols are looked up in are global variables in the source and the record \<open>loader\<close> here.
\<close>

section \<open>Structures\<close>

datatype ehdr_field =
    Eh_magic | Eh_file_class | Eh_encoding | Eh_ident_version | Eh_pad | Eh_type | Eh_machine | Eh_version | Eh_entry
  | Eh_pht_off | Eh_sht_off | Eh_flags | Eh_header_size | Eh_pht_entry_size | Eh_pht_entry_count | Eh_sht_entry_size
  | Eh_sht_entry_count | Eh_nst_sht_index

definition elf_header_layout :: "(ehdr_field \<times> nat \<times> nat) list" where
  "elf_header_layout =
     [(Eh_magic, 4, 1), (Eh_file_class, 1, 1), (Eh_encoding, 1, 1), (Eh_ident_version, 1, 1), (Eh_pad, 9, 1),
      (Eh_type, 2, 2), (Eh_machine, 2, 2), (Eh_version, 4, 4), (Eh_entry, 8, 8), (Eh_pht_off, 8, 8), (Eh_sht_off, 8, 8),
      (Eh_flags, 4, 4), (Eh_header_size, 2, 2), (Eh_pht_entry_size, 2, 2), (Eh_pht_entry_count, 2, 2),
      (Eh_sht_entry_size, 2, 2), (Eh_sht_entry_count, 2, 2), (Eh_nst_sht_index, 2, 2)]"

definition sizeof_elf_header :: nat where "sizeof_elf_header = pad 8 (struct_end 0 elf_header_layout)"

definition ehdr_at :: "addr \<Rightarrow> ehdr_field \<Rightarrow> addr" where
  "ehdr_at header f = header + of_nat (offset_from 0 elf_header_layout f)"

datatype shdr_field =
  Sh_name | Sh_type | Sh_flags | Sh_address | Sh_offset | Sh_size | Sh_link | Sh_info | Sh_addralign | Sh_entry_size

definition elf_section_header_layout :: "(shdr_field \<times> nat \<times> nat) list" where
  "elf_section_header_layout =
     [(Sh_name, 4, 4), (Sh_type, 4, 4), (Sh_flags, 8, 8), (Sh_address, 8, 8), (Sh_offset, 8, 8), (Sh_size, 8, 8),
      (Sh_link, 4, 4), (Sh_info, 4, 4), (Sh_addralign, 8, 8), (Sh_entry_size, 8, 8)]"

definition sizeof_elf_section_header :: nat where
  "sizeof_elf_section_header = pad 8 (struct_end 0 elf_section_header_layout)"

definition shdr_at :: "addr \<Rightarrow> shdr_field \<Rightarrow> addr" where
  "shdr_at sect f = sect + of_nat (offset_from 0 elf_section_header_layout f)"

datatype sym_field = Sy_name | Sy_value | Sy_size | Sy_info | Sy_other | Sy_hdt_index

definition elf_symbol_layout :: "(sym_field \<times> nat \<times> nat) list" where
  "elf_symbol_layout =
     [(Sy_name, 4, 4), (Sy_value, 8, 8), (Sy_size, 4, 4), (Sy_info, 1, 1), (Sy_other, 1, 1), (Sy_hdt_index, 2, 2)]"

definition sizeof_elf_symbol :: nat where "sizeof_elf_symbol = pad 8 (struct_end 0 elf_symbol_layout)"

definition sym_at :: "addr \<Rightarrow> sym_field \<Rightarrow> addr" where
  "sym_at sy f = sy + of_nat (offset_from 0 elf_symbol_layout f)"

datatype rel_field = Re_offset | Re_info | Re_addend

definition elf_reloc_addend_layout :: "(rel_field \<times> nat \<times> nat) list" where
  "elf_reloc_addend_layout = [(Re_offset, 8, 8), (Re_info, 8, 8), (Re_addend, 8, 8)]"

definition rel_at :: "addr \<Rightarrow> rel_field \<Rightarrow> addr" where
  "rel_at rel f = rel + of_nat (offset_from 0 elf_reloc_addend_layout f)"

datatype module_field = Mo_name | Mo_dependencies | Mo_elf_data | Mo_elf_data_size

definition module_layout :: "(module_field \<times> nat \<times> nat) list" where
  "module_layout = [(Mo_name, 8, 8), (Mo_dependencies, 8, 8), (Mo_elf_data, 8, 8), (Mo_elf_data_size, 8, 8)]"

definition sizeof_module :: nat where "sizeof_module = pad 8 (struct_end 0 module_layout)"

definition mod_at :: "addr \<Rightarrow> module_field \<Rightarrow> addr" where
  "mod_at md f = md + of_nat (offset_from 0 module_layout f)"

record loader =
  gmt_modules :: addr
  gmt_count :: u64
  gmapi_symbols :: addr
  gmapi_names :: addr
  gmapi_length :: u64

definition ELF_SECT_TYPE_SYMTAB :: u32 where "ELF_SECT_TYPE_SYMTAB = 2"
definition ELF_SECT_TYPE_RELA :: u32 where "ELF_SECT_TYPE_RELA = 4"
definition ELF_SECT_TYPE_NOBITS :: u32 where "ELF_SECT_TYPE_NOBITS = 8"
definition ELF_SECT_TYPE_REL :: u32 where "ELF_SECT_TYPE_REL = 9"
definition ELF_SECT_TYPE_DYNSYM :: u32 where "ELF_SECT_TYPE_DYNSYM = 11"
definition ELF_SECT_FLAG_ALLOC :: u64 where "ELF_SECT_FLAG_ALLOC = 2"
definition ELF_SECT_INDEX_ABSOLUTE :: u16 where "ELF_SECT_INDEX_ABSOLUTE = 0xFFF1"
definition ELF_SYMBOL_BIND_WEAK :: u8 where "ELF_SYMBOL_BIND_WEAK = 2"

definition ELF_RELOC_TYPE_NONE :: u64 where "ELF_RELOC_TYPE_NONE = 0"
definition ELF_RELOC_TYPE_32 :: u64 where "ELF_RELOC_TYPE_32 = 1"
definition ELF_RELOC_TYPE_PC32 :: u64 where "ELF_RELOC_TYPE_PC32 = 2"
definition ELF_RELOC_TYPE_GLOB_DAT :: u64 where "ELF_RELOC_TYPE_GLOB_DAT = 6"
definition ELF_RELOC_TYPE_JMP_SLOT :: u64 where "ELF_RELOC_TYPE_JMP_SLOT = 7"
definition ELF_RELOC_TYPE_RELATIVE :: u64 where "ELF_RELOC_TYPE_RELATIVE = 8"

definition ELF_ERR_INCORRECT_MAGIC :: int where "ELF_ERR_INCORRECT_MAGIC = - 1"
definition ELF_ERR_UNSUPPORTED_BITNESS :: int where "ELF_ERR_UNSUPPORTED_BITNESS = - 2"
definition ELF_ERR_UNSUPPORTED_ENDIANESS :: int where "ELF_ERR_UNSUPPORTED_ENDIANESS = - 3"
definition ELF_ERR_UNSUPPORTED_VERSION :: int where "ELF_ERR_UNSUPPORTED_VERSION = - 4"
definition ELF_ERR_EXTERN_SYMBOL_NOT_DEFINED :: int where "ELF_ERR_EXTERN_SYMBOL_NOT_DEFINED = - 5"
definition ELF_ERR_UNSUPPORTED_RELOCATION_TYPE :: int where "ELF_ERR_UNSUPPORTED_RELOCATION_TYPE = - 6"
definition ELF_HINT_MLOADER_API :: int where "ELF_HINT_MLOADER_API = - 100"
definition ELF_HINT_OTHER_MODULE :: int where "ELF_HINT_OTHER_MODULE = - 101"

section \<open>Sections and symbols\<close>

definition elf_get_section_header_table :: "mem \<Rightarrow> addr \<Rightarrow> addr" where
  "elf_get_section_header_table m header = header + load64 m (ehdr_at header Eh_sht_off)"

definition elf_get_section :: "mem \<Rightarrow> addr \<Rightarrow> u64 \<Rightarrow> addr" where
  "elf_get_section m header index = elf_get_section_header_table m header + of_nat sizeof_elf_section_header * index"

definition elf_get_strtable :: "mem \<Rightarrow> addr \<Rightarrow> u64 \<Rightarrow> addr" where
  "elf_get_strtable m header table = header + load64 m (shdr_at (elf_get_section m header table) Sh_offset)"

definition elf_get_section_strtable :: "mem \<Rightarrow> addr \<Rightarrow> addr" where
  "elf_get_section_strtable m header =
     (let i = load16 m (ehdr_at header Eh_nst_sht_index) in
      if i = 0 then NULL else header + load64 m (shdr_at (elf_get_section m header (ucast i)) Sh_offset))"

definition elf_get_symbol :: "mem \<Rightarrow> addr \<Rightarrow> u64 \<Rightarrow> u64 \<Rightarrow> addr" where
  "elf_get_symbol m header table ind =
     header + load64 m (shdr_at (elf_get_section m header table) Sh_offset) + of_nat sizeof_elf_symbol * ind"

text \<open>The loop over the symbols of one table and the loop over the sections.\<close>

partial_function (option) symbol_loop ::
  "mem \<Rightarrow> addr \<Rightarrow> addr \<Rightarrow> u64 \<Rightarrow> u64 \<Rightarrow> u64 \<Rightarrow> addr \<Rightarrow> addr option option" where
  "symbol_loop m name stb esz cnt j sy =
     (if j < cnt then do {
        c \<leftarrow> strcmp m (stb + ucast (load32 m (sym_at sy Sy_name))) name;
        if c = 0 then Some (Some sy) else symbol_loop m name stb esz cnt (j + 1) (sy + esz)
      } else Some None)"

declare symbol_loop.simps [code]

definition search_section :: "mem \<Rightarrow> addr \<Rightarrow> addr \<Rightarrow> addr \<Rightarrow> addr option option" where
  "search_section m name header sect =
     (let ty = load32 m (shdr_at sect Sh_type) in
      if ty = ELF_SECT_TYPE_SYMTAB \<or> ty = ELF_SECT_TYPE_DYNSYM then
        let stb = elf_get_strtable m header (ucast (load32 m (shdr_at sect Sh_link)));
            esz = load64 m (shdr_at sect Sh_entry_size) in
        if esz = 0 then None
        else symbol_loop m name stb esz (load64 m (shdr_at sect Sh_size) div esz) 0
               (header + load64 m (shdr_at sect Sh_offset))
      else Some None)"

definition sht_count :: "mem \<Rightarrow> addr \<Rightarrow> u64" where
  "sht_count m header = ucast (load16 m (ehdr_at header Eh_sht_entry_count))"

definition sht_step :: "mem \<Rightarrow> addr \<Rightarrow> u64" where
  "sht_step m header = ucast (load16 m (ehdr_at header Eh_sht_entry_size))"

partial_function (option) section_loop ::
  "mem \<Rightarrow> addr \<Rightarrow> addr \<Rightarrow> u64 \<Rightarrow> addr \<Rightarrow> (addr \<times> addr) option option" where
  "section_loop m name header i sect =
     (if i < sht_count m header then do {
        r \<leftarrow> search_section m name header sect;
        case r of
          Some sy \<Rightarrow> Some (Some (sy, sect))
        | None \<Rightarrow> section_loop m name header (i + 1) (sect + sht_step m header)
      } else Some None)"

declare section_loop.simps [code]

definition elf_lookup_symbol_in_elf :: "mem \<Rightarrow> addr \<Rightarrow> addr \<Rightarrow> (addr \<times> addr) option option" where
  "elf_lookup_symbol_in_elf m name header = section_loop m name header 0 (elf_get_section_header_table m header)"

partial_function (option) is_dependency :: "mem \<Rightarrow> addr \<Rightarrow> addr \<Rightarrow> bool option" where
  "is_dependency m dep_it mname =
     (if load64 m dep_it = NULL then Some False
      else do {
        c \<leftarrow> strcmp m (load64 m dep_it) mname;
        if c = 0 then Some True else is_dependency m (dep_it + 8) mname
      })"

declare is_dependency.simps [code]

partial_function (option) module_loop ::
  "mem \<Rightarrow> loader \<Rightarrow> addr \<Rightarrow> addr \<Rightarrow> u64 \<Rightarrow> (addr \<times> addr \<times> addr) option option" where
  "module_loop m g name dependencies i =
     (if i < gmt_count g then do {
        let md = gmt_modules g + of_nat sizeof_module * i;
        use \<leftarrow> (if dependencies \<noteq> NULL then is_dependency m dependencies (load64 m (mod_at md Mo_name)) else Some True);
        r \<leftarrow> (if use then elf_lookup_symbol_in_elf m name (load64 m (mod_at md Mo_elf_data)) else Some None);
        case r of
          Some (sy, sect) \<Rightarrow> Some (Some (sy, sect, md))
        | None \<Rightarrow> module_loop m g name dependencies (i + 1)
      } else Some None)"

declare module_loop.simps [code]

text \<open>The result is symbol, symbol table and module, in which \<^const>\<open>NULL\<close> stands for the given file.\<close>

definition elf_lookup_symbol ::
  "mem \<Rightarrow> loader \<Rightarrow> addr \<Rightarrow> addr \<Rightarrow> addr \<Rightarrow> (addr \<times> addr \<times> addr) option option" where
  "elf_lookup_symbol m g name dependencies header =
     do {
       r \<leftarrow> (if dependencies \<noteq> NULL \<or> header = NULL then module_loop m g name dependencies 0 else Some None);
       case r of
         Some x \<Rightarrow> Some (Some x)
       | None \<Rightarrow>
           if header \<noteq> NULL then do {
             r \<leftarrow> elf_lookup_symbol_in_elf m name header;
             Some (map_option (\<lambda>(sy, sect). (sy, sect, NULL)) r)
           } else Some None
     }"

partial_function (option) api_loop :: "mem \<Rightarrow> loader \<Rightarrow> addr \<Rightarrow> u64 \<Rightarrow> u64 option option" where
  "api_loop m g name i =
     (if i < gmapi_length g then do {
        c \<leftarrow> strcmp m (load64 m (gmapi_names g + 8 * i)) name;
        if c = 0 then Some (Some (load64 m (gmapi_symbols g + 8 * i))) else api_loop m g name (i + 1)
      } else Some None)"

declare api_loop.simps [code]

text \<open>
  Value and error code. \<open>junk\<close> is what the local variable \<^verbatim>\<open>val_mod\<close>, which has no initial value, contains:
  the code tests it also when the symbol was not found.
\<close>

definition elf_get_symbol_value ::
  "mem \<Rightarrow> loader \<Rightarrow> addr \<Rightarrow> addr \<Rightarrow> addr \<Rightarrow> addr \<Rightarrow> addr \<Rightarrow> int \<Rightarrow> (u64 \<times> int) option" where
  "elf_get_symbol_value m g junk header dependencies symtable symbol error =
     (let hdt_index = load16 m (sym_at symbol Sy_hdt_index) in
      if hdt_index = 0 then do {
        let name = elf_get_strtable m header (ucast (load32 m (shdr_at symtable Sh_link)))
                   + ucast (load32 m (sym_at symbol Sy_name));
        api \<leftarrow> api_loop m g name 0;
        case api of
          Some v \<Rightarrow> Some (v, ELF_HINT_MLOADER_API)
        | None \<Rightarrow> do {
            r \<leftarrow> elf_lookup_symbol m g name dependencies header;
            case r of
              Some (val_sym, _, val_mod) \<Rightarrow>
                Some (load64 m (sym_at val_sym Sy_value)
                        + (if val_mod \<noteq> NULL then load64 m (mod_at val_mod Mo_elf_data) else 0),
                      if val_mod \<noteq> NULL then ELF_HINT_OTHER_MODULE else error)
            | None \<Rightarrow>
                if drop_bit 4 (m (sym_at symbol Sy_info)) AND ELF_SYMBOL_BIND_WEAK \<noteq> 0
                then Some (0, if junk \<noteq> NULL then ELF_HINT_OTHER_MODULE else error)
                else Some (0, ELF_ERR_EXTERN_SYMBOL_NOT_DEFINED)
          }
      }
      else if hdt_index = ELF_SECT_INDEX_ABSOLUTE then Some (load64 m (sym_at symbol Sy_value), error)
      else Some (header + load64 m (sym_at symbol Sy_value), error))"

section \<open>Relocation\<close>

definition reloc_sym :: "u64 \<Rightarrow> u64" where "reloc_sym info = drop_bit 32 info"
definition reloc_type :: "u64 \<Rightarrow> u64" where "reloc_type info = info AND 0xFFFFFFFF"

text \<open>The value of the symbol that a relocation names, zero when it names none.\<close>

definition reloc_value :: "mem \<Rightarrow> loader \<Rightarrow> addr \<Rightarrow> addr \<Rightarrow> addr \<Rightarrow> addr \<Rightarrow> addr \<Rightarrow> (u64 \<times> int) option" where
  "reloc_value m g junk header dependencies rel reltb =
     (let ind = reloc_sym (load64 m (rel_at rel Re_info)); link = ucast (load32 m (shdr_at reltb Sh_link)) in
      if ind = 0 then Some (0, 0)
      else elf_get_symbol_value m g junk header dependencies (elf_get_section m header link)
             (elf_get_symbol m header link ind) 0)"

definition elf_relocate_symbol ::
  "loader \<Rightarrow> addr \<Rightarrow> addr \<Rightarrow> addr \<Rightarrow> addr \<Rightarrow> addr \<Rightarrow> mem \<Rightarrow> (mem \<times> int) option" where
  "elf_relocate_symbol g junk header dependencies rel reltb m =
     do {
       let target = elf_get_section m header (ucast (load32 m (shdr_at reltb Sh_info)));
       let target_rel = header + load64 m (shdr_at target Sh_offset) + load64 m (rel_at rel Re_offset);
       (symval, err) \<leftarrow> reloc_value m g junk header dependencies rel reltb;
       if err = ELF_ERR_EXTERN_SYMBOL_NOT_DEFINED then Some (m, ELF_ERR_EXTERN_SYMBOL_NOT_DEFINED)
       else do {
         let old = load64 m target_rel;
         let store = (\<lambda>v. Some (store64 m target_rel v, 0));
         let ty = reloc_type (load64 m (rel_at rel Re_info));
         if ty = ELF_RELOC_TYPE_NONE then Some (m, 0)
         else if ty = ELF_RELOC_TYPE_32 then store (old + symval)
         else if ty = ELF_RELOC_TYPE_PC32 then store (old + symval - target_rel)
         else if ty = ELF_RELOC_TYPE_GLOB_DAT then store (old + symval)
         else if ty = ELF_RELOC_TYPE_JMP_SLOT then store (old + symval)
         else if ty = ELF_RELOC_TYPE_RELATIVE then store (old + header)
         else Some (m, ELF_ERR_UNSUPPORTED_RELOCATION_TYPE)
       }
     }"

definition elf_relocate_symbol_addend ::
  "loader \<Rightarrow> addr \<Rightarrow> addr \<Rightarrow> addr \<Rightarrow> addr \<Rightarrow> addr \<Rightarrow> mem \<Rightarrow> (mem \<times> int) option" where
  "elf_relocate_symbol_addend g junk header dependencies rela reltb m =
     do {
       let target_rel = header + load64 m (rel_at rela Re_offset);
       (symval, err) \<leftarrow> reloc_value m g junk header dependencies rela reltb;
       if err = ELF_ERR_EXTERN_SYMBOL_NOT_DEFINED then Some (m, ELF_ERR_EXTERN_SYMBOL_NOT_DEFINED)
       else do {
         let old = load64 m target_rel;
         let addend = load64 m (rel_at rela Re_addend);
         let store = (\<lambda>v. Some (store64 m target_rel v, 0));
         let ty = reloc_type (load64 m (rel_at rela Re_info));
         if ty = ELF_RELOC_TYPE_NONE then Some (m, 0)
         else if ty = ELF_RELOC_TYPE_32 then store (old + symval + addend)
         else if ty = ELF_RELOC_TYPE_PC32 then store (old + symval + addend - target_rel)
         else if ty = ELF_RELOC_TYPE_GLOB_DAT then
           store (if err = ELF_HINT_OTHER_MODULE then old + symval else old + symval + header)
         else if ty = ELF_RELOC_TYPE_JMP_SLOT then
           store (if err = ELF_HINT_MLOADER_API \<or> err = ELF_HINT_OTHER_MODULE then symval else symval + header)
         else if ty = ELF_RELOC_TYPE_RELATIVE then store (header + addend)
         else Some (m, ELF_ERR_UNSUPPORTED_RELOCATION_TYPE)
       }
     }"

section \<open>Public interface\<close>

definition check_header :: "mem \<Rightarrow> addr \<Rightarrow> int" where
  "check_header m header =
     (let magic = ehdr_at header Eh_magic in
      if m magic \<noteq> 0x7F \<or> m (magic + 1) \<noteq> 0x45 \<or> m (magic + 2) \<noteq> 0x4C \<or> m (magic + 3) \<noteq> 0x46
      then ELF_ERR_INCORRECT_MAGIC
      else if m (ehdr_at header Eh_file_class) \<noteq> 2 then ELF_ERR_UNSUPPORTED_BITNESS
      else if m (ehdr_at header Eh_encoding) \<noteq> 1 then ELF_ERR_UNSUPPORTED_ENDIANESS
      else if m (ehdr_at header Eh_ident_version) \<noteq> 1 then ELF_ERR_UNSUPPORTED_VERSION
      else 0)"

definition elf_read_header ::
  "'x file_system \<Rightarrow> addr \<Rightarrow> addr \<Rightarrow> 'x kmem_scheme \<Rightarrow> ('x kmem_scheme \<times> int) option" where
  "elf_read_header fs fd header s =
     do {
       (s1, _) \<leftarrow> fs_read fs (fs_handle.truncate fs) fd header (of_nat sizeof_elf_header) s;
       Some (s1, check_header (kmem_mem s1) header)
     }"

partial_function (option) max_addr_loop :: "mem \<Rightarrow> addr \<Rightarrow> u64 \<Rightarrow> addr \<Rightarrow> u64 \<Rightarrow> u64 option" where
  "max_addr_loop m header i sect max_addr =
     (if i < sht_count m header then
        let e = load64 m (shdr_at sect Sh_address) + load64 m (shdr_at sect Sh_size)
        in max_addr_loop m header (i + 1) (sect + sht_step m header) (if e > max_addr then e else max_addr)
      else Some max_addr)"

declare max_addr_loop.simps [code]

partial_function (option) move_sections_loop ::
  "addr \<Rightarrow> u64 \<Rightarrow> addr \<Rightarrow> 'x kmem_scheme \<Rightarrow> 'x kmem_scheme option" where
  "move_sections_loop header i sect s =
     (let m = kmem_mem s; address = load64 m (shdr_at sect Sh_address); offset = load64 m (shdr_at sect Sh_offset) in
      if i < sht_count m header then do {
        s1 \<leftarrow> (if address \<noteq> 0 \<and> address \<noteq> offset
               then memcpy_s (header + address) (header + offset) (load64 m (shdr_at sect Sh_size)) s else Some s);
        move_sections_loop header (i + 1) (sect + sht_step (kmem_mem s1) header) s1
      } else Some s)"

declare move_sections_loop.simps [code]

text \<open>The two output parameters, file and size, are arguments and results.\<close>

definition elf_init_addresses ::
  "'x map_hooks \<Rightarrow> addr \<Rightarrow> 'x kmem_scheme \<Rightarrow> ('x kmem_scheme \<times> addr \<times> u64) option" where
  "elf_init_addresses hooks elf_file s =
     do {
       max_addr \<leftarrow> max_addr_loop (kmem_mem s) elf_file 0 (elf_get_section_header_table (kmem_mem s) elf_file) 0;
       (s1, header) \<leftarrow> krealloc hooks elf_file max_addr s;
       s2 \<leftarrow> move_sections_loop header 0 (elf_get_section_header_table (kmem_mem s1) header) s1;
       Some (s2, header, max_addr)
     }"

definition is_nobits :: "mem \<Rightarrow> addr \<Rightarrow> bool" where
  "is_nobits m sect \<longleftrightarrow>
     load32 m (shdr_at sect Sh_type) = ELF_SECT_TYPE_NOBITS \<and> load64 m (shdr_at sect Sh_size) \<noteq> 0 \<and>
     load64 m (shdr_at sect Sh_flags) AND ELF_SECT_FLAG_ALLOC \<noteq> 0"

partial_function (option) nobits_size_loop :: "mem \<Rightarrow> addr \<Rightarrow> u32 \<Rightarrow> addr \<Rightarrow> u32 \<Rightarrow> u32 option" where
  "nobits_size_loop m header i sect add_memory =
     (if i < ucast (load16 m (ehdr_at header Eh_sht_entry_count)) then
        nobits_size_loop m header (i + 1) (sect + sht_step m header)
          (if is_nobits m sect then ucast (ucast add_memory + load64 m (shdr_at sect Sh_size)) else add_memory)
      else Some add_memory)"

declare nobits_size_loop.simps [code]

partial_function (option) place_nobits_loop :: "addr \<Rightarrow> u32 \<Rightarrow> addr \<Rightarrow> addr \<Rightarrow> mem \<Rightarrow> mem option" where
  "place_nobits_loop header i sect cur_off m =
     (if i < ucast (load16 m (ehdr_at header Eh_sht_entry_count)) then
        if is_nobits m sect then
          let m1 = store64 m (shdr_at sect Sh_offset) cur_off
          in place_nobits_loop header (i + 1) (sect + sht_step m1 header) (cur_off + load64 m1 (shdr_at sect Sh_size)) m1
        else place_nobits_loop header (i + 1) (sect + sht_step m header) cur_off m
      else Some m)"

declare place_nobits_loop.simps [code]

definition elf_init_nobits ::
  "'x map_hooks \<Rightarrow> addr \<Rightarrow> u64 \<Rightarrow> 'x kmem_scheme \<Rightarrow> ('x kmem_scheme \<times> addr \<times> u64) option" where
  "elf_init_nobits hooks elf_file elf_file_size s =
     do {
       add_memory \<leftarrow> nobits_size_loop (kmem_mem s) elf_file 0 (elf_get_section_header_table (kmem_mem s) elf_file) 0;
       (s1, header) \<leftarrow> krealloc hooks elf_file (elf_file_size + ucast add_memory) s;
       let m = kmem_mem s1;
       let sect = header + load64 m (shdr_at (elf_get_section_header_table m header) Sh_offset);
       m1 \<leftarrow> place_nobits_loop header 0 sect (header + elf_file_size) m;
       Some (s1\<lparr>kmem_mem := m1\<rparr>, header, elf_file_size + ucast add_memory)
     }"

text \<open>The relocations of one section; \<open>relocate\<close> is one of the two functions above.\<close>

partial_function (option) reloc_loop ::
  "(addr \<Rightarrow> addr \<Rightarrow> mem \<Rightarrow> (mem \<times> int) option) \<Rightarrow> addr \<Rightarrow> u64 \<Rightarrow> addr \<Rightarrow> mem \<Rightarrow> (mem \<times> int) option" where
  "reloc_loop relocate sect j rel m =
     (let esz = load64 m (shdr_at sect Sh_entry_size) in
      if esz = 0 then None
      else if j < load64 m (shdr_at sect Sh_size) div esz then do {
        (m1, err) \<leftarrow> relocate rel sect m;
        if err \<noteq> 0 then Some (m1, err)
        else reloc_loop relocate sect (j + 1) (rel + load64 m1 (shdr_at sect Sh_entry_size)) m1
      } else Some (m, 0))"

declare reloc_loop.simps [code]

partial_function (option) relocate_sections_loop ::
  "loader \<Rightarrow> addr \<Rightarrow> addr \<Rightarrow> addr \<Rightarrow> u64 \<Rightarrow> addr \<Rightarrow> mem \<Rightarrow> (mem \<times> int) option" where
  "relocate_sections_loop g junk header dependencies i sect m =
     (if i < sht_count m header then do {
        let ty = load32 m (shdr_at sect Sh_type);
        let first = header + load64 m (shdr_at sect Sh_offset);
        (m1, err) \<leftarrow>
          (if ty = ELF_SECT_TYPE_REL then reloc_loop (elf_relocate_symbol g junk header dependencies) sect 0 first m
           else if ty = ELF_SECT_TYPE_RELA
           then reloc_loop (elf_relocate_symbol_addend g junk header dependencies) sect 0 first m
           else Some (m, 0));
        if err \<noteq> 0 then Some (m1, err)
        else relocate_sections_loop g junk header dependencies (i + 1) (sect + sht_step m1 header) m1
      } else Some (m, 0))"

declare relocate_sections_loop.simps [code]

definition elf_init_relocate ::
  "loader \<Rightarrow> addr \<Rightarrow> addr \<Rightarrow> addr \<Rightarrow> 'x kmem_scheme \<Rightarrow> ('x kmem_scheme \<times> int) option" where
  "elf_init_relocate g junk elf_file dependencies s =
     do {
       let m = kmem_mem s;
       (m1, err) \<leftarrow> relocate_sections_loop g junk elf_file dependencies 0 (elf_get_section_header_table m elf_file) m;
       Some (s\<lparr>kmem_mem := m1\<rparr>, err)
     }"

definition elf_get_function_gmt :: "mem \<Rightarrow> loader \<Rightarrow> addr \<Rightarrow> addr \<Rightarrow> addr option" where
  "elf_get_function_gmt m g junk name =
     do {
       r \<leftarrow> elf_lookup_symbol m g name NULL NULL;
       case r of
         None \<Rightarrow> Some NULL
       | Some (sy, sect, md) \<Rightarrow> do {
           let elf_data = load64 m (mod_at md Mo_elf_data);
           (v, _) \<leftarrow> elf_get_symbol_value m g junk elf_data NULL sect sy 0;
           Some (elf_data + v)
         }
     }"

definition elf_get_function_module :: "mem \<Rightarrow> loader \<Rightarrow> addr \<Rightarrow> addr \<Rightarrow> addr \<Rightarrow> addr option" where
  "elf_get_function_module m g junk md name =
     do {
       let elf_data = load64 m (mod_at md Mo_elf_data);
       r \<leftarrow> elf_lookup_symbol_in_elf m name elf_data;
       case r of
         None \<Rightarrow> Some NULL
       | Some (sy, sect) \<Rightarrow> do {
           (v, _) \<leftarrow> elf_get_symbol_value m g junk elf_data NULL sect sy 0;
           Some (elf_data + v)
         }
     }"

end
