(* ===== verification/Elf_lookup.thy ===== *)
theory Elf_lookup
  imports Elf
begin

unbundle bit_operations_syntax

text \<open>
  Symbol look-up of the ELF loader (\<^verbatim>\<open>bin/elf.c\<close>) against the list of all symbols of a file, and what the
  declared layout of symbols does to the look-up of values.
\<close>

section \<open>The symbols of a file\<close>

definition elf_sections :: "mem \<Rightarrow> addr \<Rightarrow> addr list" where
  "elf_sections m header =
     map (\<lambda>i. elf_get_section_header_table m header + of_nat i * sht_step m header) [0..<unat (sht_count m header)]"

definition symbol_table :: "mem \<Rightarrow> addr \<Rightarrow> bool" where
  "symbol_table m sect \<longleftrightarrow> load32 m (shdr_at sect Sh_type) \<in> {ELF_SECT_TYPE_SYMTAB, ELF_SECT_TYPE_DYNSYM}"

definition table_symbols :: "mem \<Rightarrow> addr \<Rightarrow> addr \<Rightarrow> addr list" where
  "table_symbols m header sect =
     (if symbol_table m sect then
        map (\<lambda>j. header + load64 m (shdr_at sect Sh_offset) + of_nat j * load64 m (shdr_at sect Sh_entry_size))
          [0..<unat (load64 m (shdr_at sect Sh_size) div load64 m (shdr_at sect Sh_entry_size))]
      else [])"

definition elf_symbols :: "mem \<Rightarrow> addr \<Rightarrow> (addr \<times> addr) list" where
  "elf_symbols m header = concat (map (\<lambda>sect. map (\<lambda>sy. (sy, sect)) (table_symbols m header sect)) (elf_sections m header))"

definition symbol_name :: "mem \<Rightarrow> addr \<Rightarrow> addr \<times> addr \<Rightarrow> addr" where
  "symbol_name m header = (\<lambda>(sy, sect).
     elf_get_strtable m header (ucast (load32 m (shdr_at sect Sh_link))) + ucast (load32 m (sym_at sy Sy_name)))"

text \<open>The file can be searched: tables have entries of some size and names end.\<close>

definition searchable :: "mem \<Rightarrow> addr \<Rightarrow> bool" where
  "searchable m header \<longleftrightarrow>
     (\<forall>sect \<in> set (elf_sections m header). symbol_table m sect \<longrightarrow> load64 m (shdr_at sect Sh_entry_size) \<noteq> 0) \<and>
     (\<forall>sy \<in> set (elf_symbols m header). \<exists>w. cstr_at m (symbol_name m header sy) w)"

lemma cstr_at_unique: "cstr_at m p w \<Longrightarrow> cstr_at m p v \<Longrightarrow> w = v"
proof (induction w arbitrary: p v)
  case Nil
  then show ?case by (cases v) auto
next
  case (Cons x w)
  then show ?case by (cases v) auto
qed

lemma strcmp_names:
  assumes "cstr_at m p w" "cstr_at m q nm"
  obtains c where "strcmp m p q = Some c" "c = 0 \<longleftrightarrow> cstr_at m p nm"
proof -
  have "cmp_bytes (w @ [0]) (nm @ [0]) = 0 \<longleftrightarrow> cstr_at m p nm"
    using cmp_bytes_cstr_eq_0 [of w nm] assms assms [THEN cstr_at_nonzero] cstr_at_unique by blast
  with strcmp_cstr [OF assms] that show thesis by blast
qed

lemma of_nat_less_word: "j < unat (cnt :: u64) \<Longrightarrow> of_nat j < cnt"
  using unat_lt_2p64 [of cnt] by (simp add: word_less_nat_alt unat_of_nat_64)

lemma symbol_loop_find:
  assumes nm: "cstr_at m name nm" and na: "\<And>sy. nm_at sy = stb + ucast (load32 m (sym_at sy Sy_name))"
    and ws: "\<And>i. j \<le> i \<Longrightarrow> i < unat cnt \<Longrightarrow> \<exists>w. cstr_at m (nm_at (sy0 + of_nat i * esz)) w" and j: "j \<le> unat cnt"
  shows "symbol_loop m name stb esz cnt (of_nat j) (sy0 + of_nat j * esz) =
    Some (find (\<lambda>sy. cstr_at m (nm_at sy) nm) (map (\<lambda>i. sy0 + of_nat i * esz) [j..<unat cnt]))"
  using ws j
proof (induction "unat cnt - j" arbitrary: j)
  case 0
  then have "unat cnt = j" by simp
  from this [symmetric] have "of_nat j = cnt" by simp
  with 0 show ?case by (simp add: symbol_loop.simps)
next
  case (Suc d)
  then have lt: "j < unat cnt" by simp
  let ?sy = "sy0 + of_nat j * esz"
  obtain w where w: "cstr_at m (nm_at ?sy) w" using Suc.prems(1) [of j] lt by auto
  obtain c where c: "strcmp m (nm_at ?sy) name = Some c" "c = 0 \<longleftrightarrow> cstr_at m (nm_at ?sy) nm"
    using strcmp_names [OF w nm] .
  have "symbol_loop m name stb esz cnt (of_nat (Suc j)) (sy0 + of_nat (Suc j) * esz) =
      Some (find (\<lambda>sy. cstr_at m (nm_at sy) nm) (map (\<lambda>i. sy0 + of_nat i * esz) [Suc j..<unat cnt]))"
    using Suc.hyps(2) Suc.prems(1) lt by (intro Suc.hyps(1)) simp_all
  moreover have nx: "of_nat (Suc j) = of_nat j + (1 :: u64)" "sy0 + (of_nat j + 1) * esz = ?sy + esz" by (simp_all add: algebra_simps)
  ultimately have "symbol_loop m name stb esz cnt (of_nat j + 1) (?sy + esz) =
      Some (find (\<lambda>sy. cstr_at m (nm_at sy) nm) (map (\<lambda>i. sy0 + of_nat i * esz) [Suc j..<unat cnt]))"
    unfolding nx by blast
  then show ?case
    using c lt of_nat_less_word [OF lt] na upt_conv_Cons [OF lt]
    by (subst symbol_loop.simps) (simp del: of_nat_Suc upt_Suc)
qed

lemma search_section_find:
  assumes nm: "cstr_at m name nm" and ez: "symbol_table m sect \<longrightarrow> load64 m (shdr_at sect Sh_entry_size) \<noteq> 0"
    and ws: "\<And>sy. sy \<in> set (table_symbols m header sect) \<Longrightarrow> \<exists>w. cstr_at m (symbol_name m header (sy, sect)) w"
  shows "search_section m name header sect =
    Some (find (\<lambda>sy. cstr_at m (symbol_name m header (sy, sect)) nm) (table_symbols m header sect))"
proof (cases "symbol_table m sect")
  case False
  then show ?thesis by (auto simp: search_section_def table_symbols_def symbol_table_def Let_def)
next
  case True
  let ?esz = "load64 m (shdr_at sect Sh_entry_size)" and ?sy0 = "header + load64 m (shdr_at sect Sh_offset)"
  let ?cnt = "load64 m (shdr_at sect Sh_size) div ?esz"
    and ?stb = "elf_get_strtable m header (ucast (load32 m (shdr_at sect Sh_link)))"
  have ts: "table_symbols m header sect = map (\<lambda>i. ?sy0 + of_nat i * ?esz) [0..<unat ?cnt]"
    using True by (simp add: table_symbols_def)
  have "symbol_loop m name ?stb ?esz ?cnt (of_nat 0) (?sy0 + of_nat 0 * ?esz) =
      Some (find (\<lambda>sy. cstr_at m (symbol_name m header (sy, sect)) nm) (map (\<lambda>i. ?sy0 + of_nat i * ?esz) [0..<unat ?cnt]))"
    using ws by (intro symbol_loop_find [OF nm]) (auto simp: symbol_name_def ts)
  moreover have "search_section m name header sect = symbol_loop m name ?stb ?esz ?cnt 0 ?sy0"
    using True ez unfolding search_section_def Let_def by (auto simp: symbol_table_def)
  ultimately show ?thesis unfolding ts by simp
qed

lemma find_map_pair: "find P (map (\<lambda>sy. (sy, sect)) ys) = map_option (\<lambda>sy. (sy, sect)) (find (\<lambda>sy. P (sy, sect)) ys)"
  by (induction ys) auto

lemma section_loop_find:
  assumes nm: "cstr_at m name nm"
    and ez: "\<And>sect. sect \<in> set sects \<Longrightarrow> symbol_table m sect \<longrightarrow> load64 m (shdr_at sect Sh_entry_size) \<noteq> 0"
    and ws: "\<And>sect sy. sect \<in> set sects \<Longrightarrow> sy \<in> set (table_symbols m header sect) \<Longrightarrow> \<exists>w. cstr_at m (symbol_name m header (sy, sect)) w"
    and sects: "sects = map (\<lambda>i. sht + of_nat i * sht_step m header) [j..<unat (sht_count m header)]" and j: "j \<le> unat (sht_count m header)"
  shows "section_loop m name header (of_nat j) (sht + of_nat j * sht_step m header) =
    Some (find (\<lambda>sy. cstr_at m (symbol_name m header sy) nm)
      (concat (map (\<lambda>sect. map (\<lambda>sy. (sy, sect)) (table_symbols m header sect)) sects)))"
  using ez ws sects j
proof (induction sects arbitrary: j)
  case Nil
  then have "unat (sht_count m header) = j" by auto
  from this [symmetric] have "of_nat j = sht_count m header" by simp
  then show ?case by (simp add: section_loop.simps)
next
  case (Cons a sects)
  then have lt: "j < unat (sht_count m header)" by (cases "j < unat (sht_count m header)") auto
  let ?sect = "sht + of_nat j * sht_step m header"
  have a: "a = ?sect" "sects = map (\<lambda>i. sht + of_nat i * sht_step m header) [Suc j..<unat (sht_count m header)]"
    using Cons.prems(3) upt_conv_Cons [OF lt] by simp_all
  have ss: "search_section m name header ?sect =
      Some (find (\<lambda>sy. cstr_at m (symbol_name m header (sy, ?sect)) nm) (table_symbols m header ?sect))"
    using Cons.prems(1,2) a(1) by (intro search_section_find [OF nm]) auto
  have "section_loop m name header (of_nat (Suc j)) (sht + of_nat (Suc j) * sht_step m header) =
      Some (find (\<lambda>sy. cstr_at m (symbol_name m header sy) nm)
        (concat (map (\<lambda>sect. map (\<lambda>sy. (sy, sect)) (table_symbols m header sect)) sects)))"
    using Cons.prems(1,2) a(2) lt by (intro Cons.IH) auto
  moreover have nx: "of_nat (Suc j) = of_nat j + (1 :: u64)"
    "sht + (of_nat j + 1) * sht_step m header = ?sect + sht_step m header" by (simp_all add: algebra_simps)
  ultimately have "section_loop m name header (of_nat j + 1) (?sect + sht_step m header) =
      Some (find (\<lambda>sy. cstr_at m (symbol_name m header sy) nm)
        (concat (map (\<lambda>sect. map (\<lambda>sy. (sy, sect)) (table_symbols m header sect)) sects)))"
    unfolding nx by blast
  then show ?case
    using ss of_nat_less_word [OF lt] a(1)
    by (subst section_loop.simps) (simp add: find_append find_map_pair split: option.splits del: of_nat_Suc)
qed

lemma lookup_in_elf_find:
  assumes "cstr_at m name nm" "searchable m header"
  shows "elf_lookup_symbol_in_elf m name header =
    Some (find (\<lambda>sy. cstr_at m (symbol_name m header sy) nm) (elf_symbols m header))"
proof -
  let ?sht = "elf_get_section_header_table m header"
  have "section_loop m name header (of_nat 0) (?sht + of_nat 0 * sht_step m header) =
    Some (find (\<lambda>sy. cstr_at m (symbol_name m header sy) nm)
      (concat (map (\<lambda>sect. map (\<lambda>sy. (sy, sect)) (table_symbols m header sect)) (elf_sections m header))))"
    using assms(2) by (intro section_loop_find [OF assms(1)]) (auto simp: searchable_def elf_symbols_def elf_sections_def)
  then show ?thesis by (simp add: elf_lookup_symbol_in_elf_def elf_symbols_def)
qed

section \<open>Modules and dependencies\<close>

primrec deps_at :: "mem \<Rightarrow> addr \<Rightarrow> addr list \<Rightarrow> bool" where
  "deps_at m d [] \<longleftrightarrow> load64 m d = NULL"
| "deps_at m d (p # ps) \<longleftrightarrow> load64 m d = p \<and> p \<noteq> NULL \<and> (\<exists>w. cstr_at m p w) \<and> deps_at m (d + 8) ps"

definition mod_name :: "mem \<Rightarrow> addr \<Rightarrow> addr" where "mod_name m md = load64 m (mod_at md Mo_name)"
definition mod_file :: "mem \<Rightarrow> addr \<Rightarrow> addr" where "mod_file m md = load64 m (mod_at md Mo_elf_data)"

definition all_modules :: "loader \<Rightarrow> addr list" where
  "all_modules g = map (\<lambda>i. gmt_modules g + of_nat sizeof_module * of_nat i) [0..<unat (gmt_count g)]"

text \<open>The modules that are searched: all without a list of dependencies, otherwise those it names.\<close>

definition searched :: "mem \<Rightarrow> addr \<Rightarrow> addr list \<Rightarrow> addr \<Rightarrow> bool" where
  "searched m dependencies ps md \<longleftrightarrow>
     dependencies = NULL \<or> (\<exists>p \<in> set ps. \<exists>w. cstr_at m p w \<and> cstr_at m (mod_name m md) w)"

definition module_symbols :: "mem \<Rightarrow> addr \<Rightarrow> (addr \<times> addr \<times> addr) list" where
  "module_symbols m md = map (\<lambda>(sy, sect). (sy, sect, md)) (elf_symbols m (mod_file m md))"

definition visible_symbols :: "mem \<Rightarrow> loader \<Rightarrow> addr \<Rightarrow> addr list \<Rightarrow> addr \<Rightarrow> (addr \<times> addr \<times> addr) list" where
  "visible_symbols m g dependencies ps header =
     (if dependencies \<noteq> NULL \<or> header = NULL
      then concat (map (module_symbols m) (filter (searched m dependencies ps) (all_modules g))) else []) @
     (if header \<noteq> NULL then map (\<lambda>(sy, sect). (sy, sect, NULL)) (elf_symbols m header) else [])"

definition visible_name :: "mem \<Rightarrow> addr \<Rightarrow> addr \<times> addr \<times> addr \<Rightarrow> addr" where
  "visible_name m header = (\<lambda>(sy, sect, md). symbol_name m (if md = NULL then header else mod_file m md) (sy, sect))"

definition modules_searchable :: "mem \<Rightarrow> loader \<Rightarrow> bool" where
  "modules_searchable m g \<longleftrightarrow>
     (\<forall>md \<in> set (all_modules g). md \<noteq> NULL \<and> searchable m (mod_file m md) \<and> (\<exists>w. cstr_at m (mod_name m md) w))"

lemma is_dependency_iff:
  "deps_at m d ps \<Longrightarrow> cstr_at m mname w \<Longrightarrow>
     is_dependency m d mname = Some (\<exists>p \<in> set ps. \<exists>w. cstr_at m p w \<and> cstr_at m mname w)"
proof (induction ps arbitrary: d)
  case Nil
  then show ?case by (simp add: is_dependency.simps)
next
  case (Cons p ps)
  then obtain v where v: "cstr_at m p v" by auto
  obtain c where "strcmp m p mname = Some c" "c = 0 \<longleftrightarrow> cstr_at m p w"
    using strcmp_names [OF v Cons.prems(2)] .
  moreover have "is_dependency m (d + 8) mname = Some (\<exists>p \<in> set ps. \<exists>w. cstr_at m p w \<and> cstr_at m mname w)"
    using Cons by simp
  moreover have "cstr_at m p w \<longleftrightarrow> (\<exists>w. cstr_at m p w \<and> cstr_at m mname w)"
    using Cons.prems(2) cstr_at_unique by blast
  ultimately show ?case using Cons.prems(1) by (subst is_dependency.simps) auto
qed

lemma find_map_triple:
  "find P (map (\<lambda>(sy, sect). (sy, sect, md)) ys) =
     map_option (\<lambda>(sy, sect). (sy, sect, md)) (find (\<lambda>sy. P (fst sy, snd sy, md)) ys)"
  by (induction ys) auto

lemma visible_name_simps [simp]:
  "visible_name m header (fst sy, snd sy, NULL) = symbol_name m header sy"
  "md \<noteq> NULL \<Longrightarrow> visible_name m header (fst sy, snd sy, md) = symbol_name m (mod_file m md) sy"
  by (simp_all add: visible_name_def)

lemma module_loop_find:
  assumes nm: "cstr_at m name nm" and deps: "dependencies \<noteq> NULL \<Longrightarrow> deps_at m dependencies ps"
    and ok: "\<And>md. md \<in> set mds \<Longrightarrow> md \<noteq> NULL \<and> searchable m (mod_file m md) \<and> (\<exists>w. cstr_at m (mod_name m md) w)"
    and mds: "mds = map (\<lambda>i. gmt_modules g + of_nat sizeof_module * of_nat i) [j..<unat (gmt_count g)]" and j: "j \<le> unat (gmt_count g)"
  shows "module_loop m g name dependencies (of_nat j) =
    Some (find (\<lambda>sy. cstr_at m (visible_name m header sy) nm)
      (concat (map (module_symbols m) (filter (searched m dependencies ps) mds))))"
  using ok mds j
proof (induction mds arbitrary: j)
  case Nil
  then have "unat (gmt_count g) = j" by auto
  from this [symmetric] have "of_nat j = gmt_count g" by simp
  then show ?case by (simp add: module_loop.simps)
next
  case (Cons md mds)
  then have lt: "j < unat (gmt_count g)" by (cases "j < unat (gmt_count g)") auto
  have md: "md = gmt_modules g + of_nat sizeof_module * of_nat j" "mds = map (\<lambda>i. gmt_modules g + of_nat sizeof_module * of_nat i) [Suc j..<unat (gmt_count g)]"
    using Cons.prems(2) upt_conv_Cons [OF lt] by simp_all
  obtain w where ok: "md \<noteq> NULL" "searchable m (mod_file m md)" and w: "cstr_at m (mod_name m md) w"
    using Cons.prems(1) [of md] by auto
  have use: "dependencies = NULL \<Longrightarrow> searched m dependencies ps md"
    "dependencies \<noteq> NULL \<Longrightarrow> is_dependency m dependencies (load64 m (mod_at md Mo_name)) = Some (searched m dependencies ps md)"
    using is_dependency_iff [OF deps w] by (auto simp: searched_def mod_name_def)
  have lk: "elf_lookup_symbol_in_elf m name (load64 m (mod_at md Mo_elf_data)) =
      Some (find (\<lambda>sy. cstr_at m (symbol_name m (mod_file m md) sy) nm) (elf_symbols m (mod_file m md)))"
    using lookup_in_elf_find [OF nm ok(2)] by (simp add: mod_file_def)
  have fm: "find (\<lambda>sy. cstr_at m (visible_name m header sy) nm) (module_symbols m md) =
      map_option (\<lambda>(sy, sect). (sy, sect, md)) (find (\<lambda>sy. cstr_at m (symbol_name m (mod_file m md) sy) nm) (elf_symbols m (mod_file m md)))"
    using ok(1) by (simp add: module_symbols_def find_map_triple)
  have "module_loop m g name dependencies (of_nat (Suc j)) =
    Some (find (\<lambda>sy. cstr_at m (visible_name m header sy) nm)
      (concat (map (module_symbols m) (filter (searched m dependencies ps) mds))))"
    using Cons.prems(1) md(2) lt by (intro Cons.IH) auto
  moreover have "of_nat (Suc j) = of_nat j + (1 :: u64)" by simp
  ultimately have "module_loop m g name dependencies (of_nat j + 1) =
    Some (find (\<lambda>sy. cstr_at m (visible_name m header sy) nm)
      (concat (map (module_symbols m) (filter (searched m dependencies ps) mds))))" by (simp only:)
  then show ?case
    using use lk fm of_nat_less_word [OF lt] md(1)
    by (cases "dependencies = NULL"; cases "searched m dependencies ps md"; subst module_loop.simps)
      (simp_all add: find_append split: option.splits)
qed

text \<open>
  C17: The look-up of a symbol finds the first one of that name among the symbols that are visible. With a list of
  dependencies these are the symbols of the loaded modules that it names, in the order of the module table,
  followed by those of the file itself; without a list they are those of the file alone when a file is given, and
  those of all loaded modules, in the order of the table, when none is. When no visible symbol has the name,
  none is returned. The tables of all files concerned have entries of some size and all names end.
\<close>

theorem lookup_symbol_finds_first:
  assumes nm: "cstr_at m name nm" and deps: "dependencies \<noteq> NULL \<longrightarrow> deps_at m dependencies ps"
    and ok: "modules_searchable m g" and hd: "header \<noteq> NULL \<longrightarrow> searchable m header"
  shows "elf_lookup_symbol m g name dependencies header =
    Some (find (\<lambda>sy. cstr_at m (visible_name m header sy) nm) (visible_symbols m g dependencies ps header))"
proof -
  have ml: "module_loop m g name dependencies (of_nat 0) =
    Some (find (\<lambda>sy. cstr_at m (visible_name m header sy) nm)
      (concat (map (module_symbols m) (filter (searched m dependencies ps) (all_modules g)))))"
    using deps ok by (intro module_loop_find [OF nm]) (auto simp: modules_searchable_def all_modules_def)
  have own: "find (\<lambda>sy. cstr_at m (visible_name m header sy) nm) (map (\<lambda>(sy, sect). (sy, sect, NULL)) (elf_symbols m header)) =
      map_option (\<lambda>(sy, sect). (sy, sect, NULL)) (find (\<lambda>sy. cstr_at m (symbol_name m header sy) nm) (elf_symbols m header))"
    by (simp add: find_map_triple)
  show ?thesis
    using ml own hd lookup_in_elf_find [OF nm, of header]
    by (cases "header = NULL") (auto simp: elf_lookup_symbol_def visible_symbols_def find_append split: option.splits)
qed

section \<open>The layout of symbols\<close>

text \<open>
  A symbol of a 64-bit ELF file: name, info, other, the index of its section, value and size. The
  declaration of the loader has the last fields in another order.
\<close>

datatype elf64_field = St_name | St_info | St_other | St_shndx | St_value | St_size

definition elf64_layout :: "(elf64_field \<times> nat \<times> nat) list" where
  "elf64_layout = [(St_name, 4, 4), (St_info, 1, 1), (St_other, 1, 1), (St_shndx, 2, 2), (St_value, 8, 8), (St_size, 8, 8)]"

definition elf64_at :: "addr \<Rightarrow> elf64_field \<Rightarrow> addr" where
  "elf64_at sy f = sy + of_nat (offset_from 0 elf64_layout f)"

lemma elf64_overlap:
  "sym_at sy Sy_name = elf64_at sy St_name" "sym_at sy Sy_value = elf64_at sy St_value" "sizeof_elf_symbol = 24"
  "sym_at sy Sy_hdt_index = elf64_at sy St_size + 6"
  by (simp_all add: sym_at_def elf64_at_def elf_symbol_layout_def elf64_layout_def sizeof_elf_symbol_def pad_def)

lemma hdt_index_small:
  assumes "load64 m (elf64_at sy St_size) < 2 ^ 48"
  shows "load16 m (sym_at sy Sy_hdt_index) = 0"
proof -
  let ?a = "elf64_at sy St_size"
  have "load_le 8 m ?a < 256 ^ 8" by (rule load_le_lt)
  then have "unat (load64 m ?a) = load_le 8 m ?a" by (simp add: load64_def unat_of_nat_64)
  moreover have "unat (load64 m ?a) < 2 ^ 48" using assms by (simp add: word_less_nat_alt)
  ultimately have "load_le 8 m ?a < 2 ^ 48" by simp
  then have "load_le 2 m (?a + 6) = 0" by (simp add: load_numeral add.assoc)
  then show ?thesis by (simp add: load16_def elf64_overlap)
qed

text \<open>
  In a 64-bit ELF file the loader takes the upper two bytes of the size of a symbol for the index of its
  section. So every symbol, also one that is defined in the file or absolute, counts as an external
  one: its value is looked up by name, first among the functions offered to modules, then among the
  visible symbols; the section index in the file is never read.
\<close>

theorem elf64_symbols_are_external:
  assumes "load64 m (elf64_at sy St_size) < 2 ^ 48"
    and name: "name = elf_get_strtable m header (ucast (load32 m (shdr_at symtable Sh_link))) + ucast (load32 m (elf64_at sy St_name))"
  shows "elf_get_symbol_value m g junk header dependencies symtable sy error =
    do {
      api \<leftarrow> api_loop m g name 0;
      case api of
        Some v \<Rightarrow> Some (v, ELF_HINT_MLOADER_API)
      | None \<Rightarrow> do {
          r \<leftarrow> elf_lookup_symbol m g name dependencies header;
          Some (case r of
            Some (val_sym, _, md) \<Rightarrow>
              if md = NULL then (load64 m (elf64_at val_sym St_value), error)
              else (load64 m (elf64_at val_sym St_value) + mod_file m md, ELF_HINT_OTHER_MODULE)
          | None \<Rightarrow>
              if drop_bit 4 (m (elf64_at sy St_size + 4)) AND ELF_SYMBOL_BIND_WEAK \<noteq> 0
              then (0, if junk \<noteq> NULL then ELF_HINT_OTHER_MODULE else error)
              else (0, ELF_ERR_EXTERN_SYMBOL_NOT_DEFINED))
        }
    }"
proof -
  have info: "sym_at sy Sy_info = elf64_at sy St_size + 4"
    by (simp add: sym_at_def elf64_at_def elf_symbol_layout_def elf64_layout_def pad_def)
  note gv = elf_get_symbol_value_def [of m g junk header dependencies symtable sy error, unfolded elf64_overlap(1) name [symmetric]]
  note h = hdt_index_small [OF assms(1)]
  show ?thesis
  proof (cases "api_loop m g name 0")
    case None
    with h show ?thesis by (simp add: gv)
  next
    case (Some api)
    show ?thesis
    proof (cases api)
      case None
      note api = Some [unfolded None]
      show ?thesis
      proof (cases "elf_lookup_symbol m g name dependencies header")
        case None
        with api h show ?thesis by (simp add: gv)
      next
        case (Some r)
        with api h show ?thesis by (cases r) (auto simp: gv info elf64_overlap mod_file_def)
      qed
    next
      case (Some v)
      with \<open>api_loop m g name 0 = Some api\<close> h show ?thesis by (simp add: gv)
    qed
  qed
qed

section \<open>A file with one symbol\<close>

text \<open>
  A file with a table of two symbols, the second of which is \<^verbatim>\<open>f\<close>, and the same name elsewhere. Two modules \<^verbatim>\<open>A\<close> and
  \<^verbatim>\<open>B\<close> are loaded from this file, and there is a list of dependencies that names \<^verbatim>\<open>B\<close>.
\<close>

definition demo_elf :: mem where
  "demo_elf = (\<lambda>_. 0)(0x1028 := 0x40, 0x103A := 64, 0x103C := 2, 0x1044 := 2, 0x1059 := 1, 0x1060 := 48, 0x1068 := 1,
     0x1078 := 24, 0x1099 := 2, 0x1118 := 1, 0x1120 := 0x34, 0x1201 := 0x66, 0x2000 := 0x66,
     0x2100 := 0x41, 0x2110 := 0x42, 0x2120 := 0x42, 0x3001 := 0x21, 0x3011 := 0x10, 0x3020 := 0x10, 0x3021 := 0x21,
     0x3031 := 0x10, 0x4000 := 0x20, 0x4001 := 0x21)"

definition demo_loader :: loader where
  "demo_loader = \<lparr>gmt_modules = 0, gmt_count = 0, gmapi_symbols = 0, gmapi_names = 0, gmapi_length = 0\<rparr>"

definition demo_modules :: loader where
  "demo_modules = demo_loader\<lparr>gmt_modules := 0x3000, gmt_count := 2\<rparr>"

lemma demo_elf_symbols:
  "elf_sections demo_elf 0x1000 = [0x1040, 0x1080]" "elf_symbols demo_elf 0x1000 = [(0x1100, 0x1040), (0x1118, 0x1040)]"
  "load64 demo_elf (shdr_at 0x1040 Sh_entry_size) \<noteq> 0" "\<not> symbol_table demo_elf 0x1080"
proof -
  have h: "elf_get_section_header_table demo_elf 0x1000 = 0x1040" "sht_step demo_elf 0x1000 = 64" "sht_count demo_elf 0x1000 = 2"
    by (simp_all add: elf_get_section_header_table_def sht_step_def sht_count_def ehdr_at_def elf_header_layout_def pad_def
        load16_def load64_def load_numeral demo_elf_def)
  show s: "elf_sections demo_elf 0x1000 = [0x1040, 0x1080]"
    by (simp add: elf_sections_def h upt_rec)
  have t: "symbol_table demo_elf 0x1040" "\<not> symbol_table demo_elf 0x1080" "load64 demo_elf (shdr_at 0x1040 Sh_offset) = 0x100"
    "load64 demo_elf (shdr_at 0x1040 Sh_size) = 48" "load64 demo_elf (shdr_at 0x1040 Sh_entry_size) = 24"
    by (simp_all add: symbol_table_def shdr_at_def elf_section_header_layout_def pad_def ELF_SECT_TYPE_SYMTAB_def
        ELF_SECT_TYPE_DYNSYM_def load32_def load64_def load_numeral demo_elf_def)
  show "elf_symbols demo_elf 0x1000 = [(0x1100, 0x1040), (0x1118, 0x1040)]"
    by (simp add: elf_symbols_def s table_symbols_def t upt_rec)
  show "load64 demo_elf (shdr_at 0x1040 Sh_entry_size) \<noteq> 0" "\<not> symbol_table demo_elf 0x1080"
    by (simp_all add: t)
qed

lemma demo_elf_names:
  "symbol_name demo_elf 0x1000 (0x1100, 0x1040) = 0x1200" "symbol_name demo_elf 0x1000 (0x1118, 0x1040) = 0x1201"
  by (simp_all add: symbol_name_def elf_get_strtable_def elf_get_section_def elf_get_section_header_table_def shdr_at_def
      elf_section_header_layout_def sizeof_elf_section_header_def sym_at_def elf_symbol_layout_def ehdr_at_def elf_header_layout_def
      pad_def load32_def load64_def load_numeral demo_elf_def)

lemma demo_elf_str: "cstr_at demo_elf 0x1200 []" "cstr_at demo_elf 0x1201 [0x66]" "cstr_at demo_elf 0x2000 [0x66]"
  by (simp_all add: demo_elf_def)

lemma demo_elf_ends: "\<exists>w. cstr_at demo_elf 0x1200 w" "\<exists>w. cstr_at demo_elf 0x1201 w"
  using demo_elf_str by blast+

lemma demo_elf_bytes: "demo_elf 0x1200 = 0" "demo_elf 0x1201 = 0x66" "demo_elf 0x1202 = 0"
  by (simp_all add: demo_elf_def)

lemma demo_elf_searchable: "searchable demo_elf 0x1000"
  using demo_elf_symbols demo_elf_names demo_elf_ends by (auto simp: searchable_def)

lemma demo_elf_lookup: "elf_lookup_symbol demo_elf demo_loader 0x1201 NULL 0x1000 = Some (Some (0x1118, 0x1040, NULL))"
  using lookup_in_elf_find [OF demo_elf_str(2) demo_elf_searchable]
  by (simp add: elf_lookup_symbol_def demo_elf_symbols demo_elf_names demo_elf_bytes)

lemma demo_module_table:
  "all_modules demo_modules = [0x3000, 0x3020]" "mod_file demo_elf 0x3000 = 0x1000" "mod_file demo_elf 0x3020 = 0x1000"
  "mod_name demo_elf 0x3000 = 0x2100" "mod_name demo_elf 0x3020 = 0x2110"
  by (simp_all add: all_modules_def demo_modules_def sizeof_module_def upt_rec mod_file_def mod_name_def mod_at_def module_layout_def pad_def
      load64_def load_numeral demo_elf_def)

lemma demo_module_names: "cstr_at demo_elf 0x2100 [0x41]" "cstr_at demo_elf 0x2110 [0x42]" "cstr_at demo_elf 0x2120 [0x42]"
  by (simp_all add: demo_elf_def)

lemma demo_deps: "deps_at demo_elf 0x4000 [0x2120]"
proof -
  have "\<exists>w. cstr_at demo_elf 0x2120 w" using demo_module_names(3) by blast
  then show ?thesis by (simp del: cstr_at.simps) (simp add: load64_def load_numeral demo_elf_def)
qed

lemma demo_modules_searchable: "modules_searchable demo_elf demo_modules"
  using demo_elf_searchable demo_module_names by (auto simp: modules_searchable_def demo_module_table simp del: cstr_at.simps)

lemma demo_searched: "\<not> searched demo_elf 0x4000 [0x2120] 0x3000" "searched demo_elf 0x4000 [0x2120] 0x3020"
proof -
  have "cstr_at demo_elf 0x2100 w \<longleftrightarrow> w = [0x41]" "cstr_at demo_elf 0x2110 w \<longleftrightarrow> w = [0x42]"
    "cstr_at demo_elf 0x2120 w \<longleftrightarrow> w = [0x42]" for w
    using demo_module_names cstr_at_unique by blast+
  then show "\<not> searched demo_elf 0x4000 [0x2120] 0x3000" "searched demo_elf 0x4000 [0x2120] 0x3020"
    by (simp_all add: searched_def demo_module_table)
qed

theorem lookup_symbol_finds_first_witness:
  "elf_lookup_symbol demo_elf demo_modules 0x2000 0x4000 0x1000 = Some (Some (0x1118, 0x1040, 0x3020)) \<and>
   elf_lookup_symbol demo_elf demo_modules 0x2000 NULL NULL = Some (Some (0x1118, 0x1040, 0x3000)) \<and>
   elf_lookup_symbol demo_elf demo_modules 0x2000 NULL 0x1000 = Some (Some (0x1118, 0x1040, NULL))"
proof -
  note syms = module_symbols_def demo_module_table demo_elf_symbols
  have v: "visible_symbols demo_elf demo_modules 0x4000 [0x2120] 0x1000 =
      [(0x1100, 0x1040, 0x3020), (0x1118, 0x1040, 0x3020), (0x1100, 0x1040, NULL), (0x1118, 0x1040, NULL)]"
    "visible_symbols demo_elf demo_modules NULL [] NULL =
      [(0x1100, 0x1040, 0x3000), (0x1118, 0x1040, 0x3000), (0x1100, 0x1040, 0x3020), (0x1118, 0x1040, 0x3020)]"
    "visible_symbols demo_elf demo_modules NULL [] 0x1000 = [(0x1100, 0x1040, NULL), (0x1118, 0x1040, NULL)]"
    using demo_searched by (simp_all add: visible_symbols_def syms searched_def [of _ NULL])
  note names = visible_name_def demo_elf_names demo_elf_bytes demo_module_table
  note lookup = lookup_symbol_finds_first [OF demo_elf_str(3) _ demo_modules_searchable]
  from lookup [of "0x4000" "[0x2120]" "0x1000"] lookup [of NULL "[]" NULL] lookup [of NULL "[]" "0x1000"] demo_deps demo_elf_searchable
  show ?thesis unfolding v by (simp add: names)
qed

theorem elf64_symbols_are_external_witness:
  "elf_get_symbol_value demo_elf demo_loader NULL 0x1000 NULL 0x1040 0x1118 7 = Some (0x34, 7)"
proof -
  have sz: "load64 demo_elf (elf64_at 0x1118 St_size) < 2 ^ 48"
    by (simp add: elf64_at_def elf64_layout_def pad_def load64_def load_numeral demo_elf_def)
  have nm: "0x1201 = elf_get_strtable demo_elf 0x1000 (ucast (load32 demo_elf (shdr_at 0x1040 Sh_link))) + ucast (load32 demo_elf (elf64_at 0x1118 St_name))"
    using demo_elf_names(2) by (simp add: symbol_name_def elf64_overlap)
  show ?thesis
    using demo_elf_lookup elf64_symbols_are_external [OF sz nm, of demo_loader NULL NULL 7]
    by (simp add: api_loop.simps demo_loader_def elf64_at_def elf64_layout_def pad_def load64_def load_numeral demo_elf_def)
qed

end
