(* ===== verification/Module_loader.thy ===== *)
theory Module_loader
  imports Elf Ext2_files
begin

unbundle bit_operations_syntax

text \<open>
  The module loader (\<^verbatim>\<open>bin/module.c\<close>, \<^verbatim>\<open>bin/module.h\<close>): reading a module with its description into the
  heap, the parser of descriptions, and the table of the functions that modules may call. A file system
  is any record of operations; the frame of a function is at \<open>sp\<close>, as in \<^theory_text>\<open>Fs\<close>.
\<close>

section \<open>Descriptions\<close>

definition read1 :: "'x file_system \<Rightarrow> addr \<Rightarrow> addr \<Rightarrow> 'x kmem_scheme \<Rightarrow> ('x kmem_scheme \<times> u64) option" where
  "read1 fs fd buf s = fs_read fs (fs_handle.truncate fs) fd buf 1 s"

definition mdesc_wspaces :: "u8 list" where
  "mdesc_wspaces = [0x20, 0x2C, 0x09, 0x0D, 0x0A]"

definition QUOTE :: u8 where "QUOTE = 0x22"

partial_function (option) skip_spaces ::
  "'x file_system \<Rightarrow> addr \<Rightarrow> addr \<Rightarrow> addr \<Rightarrow> 'x kmem_scheme \<Rightarrow> ('x kmem_scheme \<times> u64) option" where
  "skip_spaces fs fd c ws s =
     do {
       (s1, rd) \<leftarrow> read1 fs fd c s;
       if rd = 0 then Some (s1, rd)
       else do {
         p \<leftarrow> strchr (kmem_mem s1) ws (kmem_mem s1 c);
         if p \<noteq> NULL then skip_spaces fs fd c ws s1 else Some (s1, rd)
       }
     }"

declare skip_spaces.simps [code]

partial_function (option) lexem_loop ::
  "'x file_system \<Rightarrow> addr \<Rightarrow> addr \<Rightarrow> addr \<Rightarrow> bool \<Rightarrow> addr \<Rightarrow> u64 \<Rightarrow> 'x kmem_scheme \<Rightarrow>
    ('x kmem_scheme \<times> addr \<times> u64) option" where
  "lexem_loop fs fd ws buf_end is_quote buf_it rd s =
     (if buf_it = buf_end then Some (s, buf_it, rd)
      else do {
        (s1, rd) \<leftarrow> read1 fs fd buf_it s;
        if rd = 0 then Some (s1, buf_it, rd)
        else do {
          p \<leftarrow> (if is_quote then Some NULL else strchr (kmem_mem s1) ws (kmem_mem s1 buf_it));
          if p \<noteq> NULL then Some (s1, buf_it, rd)
          else if kmem_mem s1 buf_it = QUOTE
          then lexem_loop fs fd ws buf_end (\<not> is_quote) buf_it rd (put8 buf_it (hd mdesc_wspaces) s1)
          else lexem_loop fs fd ws buf_end is_quote (buf_it + 1) rd s1
        }
      })"

declare lexem_loop.simps [code]

text \<open>The character, the buffer of 256 bytes and the literal of separators are in the frame.\<close>

definition mdesc_get_lexem ::
  "'x file_system \<Rightarrow> addr \<Rightarrow> addr \<Rightarrow> 'x kmem_scheme \<Rightarrow> ('x kmem_scheme \<times> addr) option" where
  "mdesc_get_lexem fs sp fd s =
     do {
       let c = sp;
       let buf = sp + 1;
       let ws = sp + 257;
       (s1, rd) \<leftarrow> skip_spaces fs fd c ws (put_lit ws mdesc_wspaces s);
       if rd = 0 then Some (s1, NULL)
       else do {
         let ch = kmem_mem s1 c;
         let s2 = put8 buf (if ch = QUOTE then hd mdesc_wspaces else ch) s1;
         let buf_it = (if ch \<noteq> QUOTE then buf + 1 else buf);
         (s3, buf_it, rd) \<leftarrow> lexem_loop fs fd ws (buf + 255) (ch = QUOTE) buf_it rd s2;
         if rd = 0 then Some (s3, NULL)
         else do {
           p \<leftarrow> strchr (kmem_mem s3) ws (kmem_mem s3 buf_it);
           let s4 = put8 (if p \<noteq> NULL then buf_it else buf_it + 1) 0 s3;
           n \<leftarrow> strlen_s buf s4;
           (s5, ret) \<leftarrow> kmalloc (fs_hooks fs) (n + 1) s4;
           s6 \<leftarrow> strcpy_s ret buf s5;
           Some (s6, ret)
         }
       }
     }"

partial_function (option) free_list :: "addr \<Rightarrow> u64 \<Rightarrow> u64 \<Rightarrow> 'x kmem_scheme \<Rightarrow> 'x kmem_scheme option" where
  "free_list list n i s =
     (if i < n then do { s1 \<leftarrow> kfree (get64 (list + 8 * i) s) s; free_list list n (i + 1) s1 } else Some s)"

declare free_list.simps [code]

text \<open>One more place in the list; the result has no list when there was no memory and the old list was freed.\<close>

definition grow_list ::
  "'x map_hooks \<Rightarrow> addr \<Rightarrow> u64 \<Rightarrow> addr \<Rightarrow> 'x kmem_scheme \<Rightarrow> ('x kmem_scheme \<times> addr option) option" where
  "grow_list hooks list list_ln entry s =
     do {
       (s1, list1) \<leftarrow> krealloc hooks list ((list_ln + 1) * 8) s;
       if list1 = NULL then do {
         s2 \<leftarrow> free_list list list_ln 0 s1;
         s3 \<leftarrow> kfree list s2;
         Some (s3, None)
       }
       else Some (put64 (list1 + 8 * list_ln) entry s1, Some list1)
     }"

partial_function (option) parse_list_loop ::
  "'x file_system \<Rightarrow> addr \<Rightarrow> addr \<Rightarrow> addr \<Rightarrow> u64 \<Rightarrow> 'x kmem_scheme \<Rightarrow>
    ('x kmem_scheme \<times> (addr \<times> u64) option) option" where
  "parse_list_loop fs sp fd list list_ln s =
     do {
       let lit = sp;
       (s1, lx) \<leftarrow> mdesc_get_lexem fs (sp + 2) fd (put_lit lit [0x7D] s);
       if lx = NULL then Some (s1, Some (list, list_ln))
       else do {
         c \<leftarrow> strcmp (kmem_mem s1) lx lit;
         if c = 0 then do { s2 \<leftarrow> kfree lx s1; Some (s2, Some (list, list_ln)) }
         else do {
           (s2, r) \<leftarrow> grow_list (fs_hooks fs) list list_ln lx s1;
           case r of
             None \<Rightarrow> Some (s2, None)
           | Some list1 \<Rightarrow> parse_list_loop fs sp fd list1 (list_ln + 1) s2
         }
       }
     }"

declare parse_list_loop.simps [code]

definition mdesc_parse_list ::
  "'x file_system \<Rightarrow> addr \<Rightarrow> addr \<Rightarrow> 'x kmem_scheme \<Rightarrow> ('x kmem_scheme \<times> addr) option" where
  "mdesc_parse_list fs sp fd s =
     do {
       (s1, r) \<leftarrow> parse_list_loop fs sp fd NULL 0 s;
       case r of
         None \<Rightarrow> Some (s1, NULL)
       | Some (list, list_ln) \<Rightarrow> do {
           (s2, r) \<leftarrow> grow_list (fs_hooks fs) list list_ln NULL s1;
           Some (s2, case r of None \<Rightarrow> NULL | Some list1 \<Rightarrow> list1)
         }
     }"

text \<open>The bytes of the word \<^verbatim>\<open>dependencies\<close>.\<close>

definition lit_dependencies :: "u8 list" where
  "lit_dependencies = [0x64, 0x65, 0x70, 0x65, 0x6E, 0x64, 0x65, 0x6E, 0x63, 0x69, 0x65, 0x73]"

partial_function (option) parse_loop ::
  "'x file_system \<Rightarrow> addr \<Rightarrow> addr \<Rightarrow> addr \<Rightarrow> addr \<Rightarrow> 'x kmem_scheme \<Rightarrow> ('x kmem_scheme \<times> addr \<times> addr) option" where
  "parse_loop fs sp fd prop_name deps s =
     do {
       let lits = sp;
       let frame = sp + 15;
       (s1, lx) \<leftarrow> mdesc_get_lexem fs frame fd (put_lit (lits + 13) [0x7B] (put_lit lits lit_dependencies s));
       if lx = NULL then Some (s1, prop_name, deps)
       else if prop_name = NULL then parse_loop fs sp fd lx deps s1
       else do {
         c1 \<leftarrow> strcmp (kmem_mem s1) prop_name lits;
         c2 \<leftarrow> (if c1 = 0 then strcmp (kmem_mem s1) lx (lits + 13) else Some 1);
         (s2, deps1) \<leftarrow> (if c2 = 0 then mdesc_parse_list fs frame fd s1 else Some (s1, deps));
         s3 \<leftarrow> kfree lx s2;
         s4 \<leftarrow> kfree prop_name s3;
         parse_loop fs sp fd NULL deps1 s4
       }
     }"

declare parse_loop.simps [code]

text \<open>A description has one field, the list of dependencies, which is the result.\<close>

definition mdesc_parse ::
  "'x file_system \<Rightarrow> addr \<Rightarrow> addr \<Rightarrow> 'x kmem_scheme \<Rightarrow> ('x kmem_scheme \<times> addr) option" where
  "mdesc_parse fs sp fd s =
     do {
       (s1, prop_name, deps) \<leftarrow> parse_loop fs sp fd NULL NULL s;
       s2 \<leftarrow> (if prop_name \<noteq> NULL then kfree prop_name s1 else Some s1);
       Some (s2, deps)
     }"

section \<open>Loading\<close>

definition module_load_kernmem ::
  "'x file_system \<Rightarrow> loader \<Rightarrow> addr \<Rightarrow> addr \<Rightarrow> addr \<Rightarrow> addr \<Rightarrow> addr \<Rightarrow> 'x kmem_scheme \<Rightarrow>
    ('x kmem_scheme \<times> int) option" where
  "module_load_kernmem fs g junk sp md bin_fd desc_fd s =
     do {
       let ehd = sp;
       let frame = sp + of_nat sizeof_elf_header;
       let h = fs_handle.truncate fs;
       (s1, err) \<leftarrow> elf_read_header fs bin_fd ehd s;
       if err \<noteq> 0 then Some (s1, err)
       else do {
         let s2 = put64 (mod_at md Mo_elf_data_size) (fs_get_size fs h bin_fd s1) s1;
         (s3, elf_data) \<leftarrow> kmalloc (fs_hooks fs) (get64 (mod_at md Mo_elf_data_size) s2) s2;
         let s4 = put64 (mod_at md Mo_elf_data) elf_data s3;
         (s5, _) \<leftarrow> fs_seek fs h bin_fd 0 FS_SEEK_BEGIN s4;
         (s6, _) \<leftarrow> fs_read fs h bin_fd (get64 (mod_at md Mo_elf_data) s5) (get64 (mod_at md Mo_elf_data_size) s5) s5;
         (s7, file, sz) \<leftarrow> elf_init_addresses (fs_hooks fs) (get64 (mod_at md Mo_elf_data) s6) s6;
         let s8 = put64 (mod_at md Mo_elf_data) file (put64 (mod_at md Mo_elf_data_size) sz s7);
         (s9, file, sz) \<leftarrow> elf_init_nobits (fs_hooks fs) (get64 (mod_at md Mo_elf_data) s8)
                             (get64 (mod_at md Mo_elf_data_size) s8) s8;
         let s10 = put64 (mod_at md Mo_elf_data_size) sz (put64 (mod_at md Mo_elf_data) file s9);
         (s11, deps) \<leftarrow> mdesc_parse fs frame desc_fd s10;
         let s12 = put64 (mod_at md Mo_dependencies) deps s11;
         elf_init_relocate g junk (get64 (mod_at md Mo_elf_data) s12) (get64 (mod_at md Mo_dependencies) s12) s12
       }
     }"

definition module_add_to_gmt ::
  "'x map_hooks \<Rightarrow> addr \<Rightarrow> loader \<Rightarrow> 'x kmem_scheme \<Rightarrow> ('x kmem_scheme \<times> loader) option" where
  "module_add_to_gmt hooks md g s =
     do {
       let g1 = g\<lparr>gmt_count := gmt_count g + 1\<rparr>;
       (s1, p) \<leftarrow> (if gmt_modules g1 = NULL then kmalloc hooks (of_nat sizeof_module) s
                  else krealloc hooks (gmt_modules g1) (gmt_count g1 * of_nat sizeof_module) s);
       let g2 = g1\<lparr>gmt_modules := p\<rparr>;
       Some (assign_struct (gmt_modules g2 + of_nat sizeof_module * (gmt_count g2 - 1)) md sizeof_module s1, g2)
     }"

section \<open>Functions for modules\<close>

definition gmapi_entries :: "string list" where
  "gmapi_entries =
     [''uart_putchar'', ''uart_write'', ''uart_puts'', ''uart_printf'',
      ''ata_probe'', ''ata_wait'', ''ata_poll'', ''ata_soft_reset'', ''ata_select_drive'',
      ''pio_setup_drive'', ''pio_read'', ''pio_write'', ''cpu_interrupt_set_gate'',
      ''pci_set_ioaddr'', ''pci_scan_for_device'', ''pci_read_bar'',
      ''gdt_add_desc'', ''gdt_add_tss_desc'', ''gdt_reload'', ''gdt_init'',
      ''pic_send_eoi'', ''pic_remap_irqs'', ''pic_set_mask'', ''pic_clear_mask'', ''pic_get_irr'', ''pic_get_isr'',
      ''cpuid_check'', ''cpuid'', ''apic_check'', ''lapic_read'', ''lapic_write'', ''apic_enable_spurious_ints'',
      ''apic_set_timer'', ''pit_sleep_ms'', ''find_rsdp'', ''hpet_get_timer_blocks'',
      ''memcpy'', ''memmove'', ''memset'', ''memcmp'', ''strlen'', ''strcpy'', ''strncpy'', ''strcat'', ''strncat'',
      ''strcmp'', ''strncmp'', ''strchr'',
      ''kmalloc'', ''kmalloc_align'', ''krealloc'', ''krealloc_align'', ''kfree'', ''print_kmem_llist'',
      ''boot_log_putchar'', ''boot_log_write'', ''boot_log_puts'', ''boot_log_printf'', ''boot_log_print_nest_padding'',
      ''boot_log_increase_nest_level'', ''boot_log_decrease_nest_level'']"

fun enter_api :: "(string \<Rightarrow> u64) \<Rightarrow> (string \<Rightarrow> addr) \<Rightarrow> loader \<Rightarrow> nat \<Rightarrow> string list \<Rightarrow> 'x kmem_scheme \<Rightarrow> 'x kmem_scheme" where
  "enter_api sy lit g i [] s = s"
| "enter_api sy lit g i (n # ns) s =
     enter_api sy lit g (i + 1) ns
       (put64 (gmapi_names g + 8 * of_nat i) (lit n) (put64 (gmapi_symbols g + 8 * of_nat i) (sy n) s))"

text \<open>The linker gives the addresses of the functions, the compiler those of the literals with their names.\<close>

definition module_init_api ::
  "'x map_hooks \<Rightarrow> (string \<Rightarrow> u64) \<Rightarrow> (string \<Rightarrow> addr) \<Rightarrow> loader \<Rightarrow> 'x kmem_scheme \<Rightarrow> ('x kmem_scheme \<times> loader) option" where
  "module_init_api hooks sy lit g s =
     do {
       let g1 = g\<lparr>gmapi_length := 61\<rparr>;
       (s1, p) \<leftarrow> kmalloc hooks (8 * gmapi_length g1) s;
       let g2 = g1\<lparr>gmapi_symbols := p\<rparr>;
       (s2, q) \<leftarrow> kmalloc hooks (8 * gmapi_length g2) s1;
       let g3 = g2\<lparr>gmapi_names := q\<rparr>;
       Some (enter_api sy lit g3 0 gmapi_entries s2, g3)
     }"

end
