(* ===== verification/Module_load.thy ===== *)
theory Module_load
  imports Module_loader
begin

unbundle bit_operations_syntax

text \<open>
  Loading a module (\<^verbatim>\<open>module_load_kernmem\<close> of \<^verbatim>\<open>bin/module.c\<close>) on the heap of \<^theory_text>\<open>Kernmem\<close>: the file is read
  into a fresh block, and the first thing that is done to it is to resize this block.
\<close>

section \<open>Resizing a fresh block\<close>

lemma fresh_block_stuck:
  assumes inv: "kmem_inv bs s" "room z align bs" "place z align bs = (bs', g, gap)"
    and t: "kmem_inv bs' t" "kmem_spinlock t = (if gap then 1 else 0)"
  shows "g + 24 \<noteq> NULL" "krealloc hooks (g + 24) n t = None"
proof -
  have ok: "heap_ok bs" using inv(1) by (simp add: kmem_inv_def)
  obtain xs ys where d: "bs' = xs @ (g, z) # ys" "gap = (ys \<noteq> [])" "heap_ok bs'"
    using place_heap_ok [OF ok inv(2,3)] by metis
  then have "blk_end (g, z) < 2 ^ 64" by (auto simp: heap_ok_def blks_ordered_def)
  then have "unat (g + 24) = unat g + 24" by (simp add: unat_plus_nowrap blk_end_def)
  then show nn: "g + 24 \<noteq> NULL" by auto
  have at: "heap_at (kmem_mem t) (xs @ (g, z) # ys)" using t(1) d(1) by (simp add: kmem_inv_def)
  show "krealloc hooks (g + 24) n t = None"
  proof (cases gap)
    case True
    with t(2) show ?thesis by (simp add: krealloc_def krealloc_align_cases [OF nn])
  next
    case False
    with d(2) at have "kn_next (kmem_mem t) g = NULL" by (simp add: heap_at_def dll_append)
    then show ?thesis by (simp add: krealloc_def krealloc_align_cases [OF nn])
  qed
qed

lemma init_addresses_stuck:
  "(\<And>z. krealloc hooks file z s = None) \<Longrightarrow> elf_init_addresses hooks file s = None"
  by (cases "max_addr_loop (kmem_mem s) file 0 (elf_get_section_header_table (kmem_mem s) file) 0") (simp_all add: elf_init_addresses_def)

text \<open>
  C18: A module with a valid header is never loaded: the block for the file is the last of the heap, or lies
  in a gap and leaves the lock of the heap taken, so the resizing in \<open>elf_init_addresses\<close> never returns,
  whatever the file contains.
\<close>

theorem module_load_never_returns:
  assumes h: "h = fs_handle.truncate fs" and hd: "elf_read_header fs bin_fd sp s = Some (s1, 0)"
    and s2: "s2 = put64 (mod_at md Mo_elf_data_size) (fs_get_size fs h bin_fd s1) s1"
    and z: "z = get64 (mod_at md Mo_elf_data_size) s2"
    and heap: "kmem_spinlock s2 = 0" "kmem_inv bs s2" "room z 1 bs" "hooks_ok (fs_hooks fs)" "place z 1 bs = (bs', g, gap)"
    and files: "\<And>s3. kmalloc (fs_hooks fs) z s2 = Some (s3, g + 24) \<Longrightarrow> kmem_inv bs' s3 \<Longrightarrow> \<exists>s5 x s6 y.
      fs_seek fs h bin_fd 0 FS_SEEK_BEGIN (put64 (mod_at md Mo_elf_data) (g + 24) s3) = Some (s5, x) \<and>
      fs_read fs h bin_fd (get64 (mod_at md Mo_elf_data) s5) (get64 (mod_at md Mo_elf_data_size) s5) s5 = Some (s6, y) \<and>
      kmem_inv bs' s6 \<and> kmem_spinlock s6 = kmem_spinlock s3 \<and> get64 (mod_at md Mo_elf_data) s6 = g + 24"
  shows "module_load_kernmem fs g' junk sp md bin_fd desc_fd s = None"
proof -
  obtain s3 where s3: "kmalloc (fs_hooks fs) z s2 = Some (s3, g + 24)" "kmem_inv bs' s3" "kmem_spinlock s3 = (if gap then 1 else 0)"
    using kmalloc_align_place [OF heap] unfolding kmalloc_def by metis
  obtain s5 x s6 y where s6: "fs_seek fs h bin_fd 0 FS_SEEK_BEGIN (put64 (mod_at md Mo_elf_data) (g + 24) s3) = Some (s5, x)"
    "fs_read fs h bin_fd (get64 (mod_at md Mo_elf_data) s5) (get64 (mod_at md Mo_elf_data_size) s5) s5 = Some (s6, y)"
    "kmem_inv bs' s6" "kmem_spinlock s6 = kmem_spinlock s3" "get64 (mod_at md Mo_elf_data) s6 = g + 24"
    using files [OF s3(1,2)] by blast
  have "krealloc (fs_hooks fs) (g + 24) n s6 = None" for n
    using fresh_block_stuck [OF heap(2,3,5) s6(3)] s3(3) s6(4) by simp
  then have "elf_init_addresses (fs_hooks fs) (g + 24) s6 = None" by (intro init_addresses_stuck)
  then show ?thesis
    using hd s3(1) s6(1,2,5) by (simp add: module_load_kernmem_def h [symmetric] Let_def s2 [symmetric] z [symmetric])
qed

text \<open>A file system whose only file is an ELF header, and a heap without blocks.\<close>

definition put_magic :: "addr \<Rightarrow> mem \<Rightarrow> mem" where
  "put_magic a m = m(a := 0x7F, a + 1 := 0x45, a + 2 := 0x4C, a + 3 := 0x46, a + 4 := 2, a + 5 := 1, a + 6 := 1)"

definition demo_files :: "unit file_system" where
  "demo_files = \<lparr>fs_hooks = None, fs_drive = \<lparr>dr_read = \<lambda>_ _ _ _. None, dr_write = \<lambda>_ _ _ _. None\<rparr>, fs_gdata = 0,
     fs_name = [], fd_size = 0, dit_size = 0, fs_create = \<lambda>_ _ _ _ _. None, fs_unlink = \<lambda>_ _ _ _. None,
     fs_rename = \<lambda>_ _ _ _ _. None, fs_open = \<lambda>_ _ _ _ _ _. None, fs_close = \<lambda>_ _ _. None, fs_get_size = \<lambda>_ _ _. 128,
     fs_seek = \<lambda>_ _ _ _ s. Some (s, 0), fs_read = \<lambda>_ _ buf n s. Some (s\<lparr>kmem_mem := put_magic buf (kmem_mem s)\<rparr>, n),
     fs_write = \<lambda>_ _ _ _ s. None, dir_iter_start = \<lambda>_ _ _ _ _. None, dir_iter_next = \<lambda>_ _ _ _. None\<rparr>"

definition no_modules :: loader where
  "no_modules = \<lparr>gmt_modules = 0, gmt_count = 0, gmapi_symbols = 0, gmapi_names = 0, gmapi_length = 0\<rparr>"

lemma put_magic_other: "\<not> in_range a 7 x \<Longrightarrow> put_magic a m x = m x"
proof -
  assume n: "\<not> in_range a 7 x"
  have "x \<noteq> a + of_nat i" if "i < 7" for i using n that by (auto simp: in_range_def unat_of_nat_64)
  from this [of 0] this [of 1] this [of 2] this [of 3] this [of 4] this [of 5] this [of 6]
  show ?thesis by (simp add: put_magic_def)
qed

lemma demo_header: "elf_read_header demo_files 0 0x1000 fresh_heap = Some (fresh_heap\<lparr>kmem_mem := put_magic 0x1000 (kmem_mem fresh_heap)\<rparr>, 0)"
  by (simp add: elf_read_header_def demo_files_def check_header_def put_magic_def ehdr_at_def elf_header_layout_def pad_def)

lemma kmem_inv_frame:
  assumes "kmem_inv bs s" "\<And>b x. b \<in> set bs \<Longrightarrow> in_range (fst b) 24 x \<Longrightarrow> kmem_mem t x = kmem_mem s x"
  shows "kmem_inv bs t"
  using assms dll_frame [of "kmem_mem s" NULL bs NULL "kmem_mem t"] by (simp add: kmem_inv_def heap_at_def)

theorem module_load_never_returns_witness:
  "module_load_kernmem demo_files no_modules 0 0x1000 0x2000 0 0 fresh_heap = None"
proof -
  let ?s1 = "fresh_heap\<lparr>kmem_mem := put_magic 0x1000 (kmem_mem fresh_heap)\<rparr>" and ?h = "fs_handle.truncate demo_files"
  let ?s2 = "put64 (mod_at 0x2000 Mo_elf_data_size) 128 ?s1" and ?bs = "[(KMEM_HEAP_BASE, 0), (0x200018, 128)]"
  have md: "mod_at 0x2000 Mo_elf_data_size = 0x2018" "mod_at 0x2000 Mo_elf_data = 0x2010"
    by (simp_all add: mod_at_def module_layout_def pad_def)
  have far: "\<not> in_range 0x2018 8 x" "\<not> in_range 0x2010 8 x" "\<not> in_range 0x1000 7 x" if "0x200000 \<le> unat x" for x :: addr
    using that by (auto simp: in_range_unat)
  have heap: "kmem_inv [(KMEM_HEAP_BASE, 0)] ?s2"
  proof (rule kmem_inv_frame [OF fresh_heap_inv(1)])
    fix b x
    assume "b \<in> set [(KMEM_HEAP_BASE, 0 :: u64)]" "in_range (fst b) 24 x"
    then have "0x200000 \<le> unat x" by (auto simp: in_range_unat KMEM_HEAP_BASE_def)
    from far [OF this] show "kmem_mem ?s2 x = kmem_mem fresh_heap x"
      by (simp add: put64_def md store64_other put_magic_other)
  qed
  have z: "128 = get64 (mod_at 0x2000 Mo_elf_data_size) ?s2" by (simp add: get64_def put64_def load64_store64_same)
  have pl: "place 128 1 [(KMEM_HEAP_BASE, 0)] = (?bs, 0x200018, False)" "room 128 1 [(KMEM_HEAP_BASE, 0)]"
    by (simp_all add: place_def fit_pos_def align_up_def blk_end_def KMEM_HEAP_BASE_def room_def)
  have s2: "?s2 = put64 (mod_at 0x2000 Mo_elf_data_size) (fs_get_size demo_files ?h 0 ?s1) ?s1"
    "kmem_spinlock ?s2 = 0" "hooks_ok (fs_hooks demo_files)"
    using fresh_heap_inv(2) by (simp_all add: demo_files_def put64_def hooks_ok_def)
  show ?thesis
  proof (rule module_load_never_returns [OF refl demo_header s2(1) z s2(2) heap pl(2) s2(3) pl(1)])
    fix s3 :: kmem
    assume inv: "kmem_inv ?bs s3"
    let ?s5 = "put64 (mod_at 0x2000 Mo_elf_data) (0x200018 + 24) s3"
    let ?s6 = "?s5\<lparr>kmem_mem := put_magic (get64 (mod_at 0x2000 Mo_elf_data) ?s5) (kmem_mem ?s5)\<rparr>"
    have p: "get64 (mod_at 0x2000 Mo_elf_data) ?s5 = 0x200030" by (simp add: get64_def put64_def load64_store64_same)
    have "kmem_inv ?bs ?s6"
    proof (rule kmem_inv_frame [OF inv])
      fix b x
      assume "b \<in> set ?bs" "in_range (fst b) 24 x"
      then have x: "0x200000 \<le> unat x" "\<not> in_range 0x200030 7 x" by (auto simp: in_range_unat KMEM_HEAP_BASE_def)
      from far [OF this(1)] x(2) show "kmem_mem ?s6 x = kmem_mem s3 x"
        unfolding p by (simp add: put_magic_other put64_def md store64_other)
    qed
    moreover have "get64 (mod_at 0x2000 Mo_elf_data) ?s6 = 0x200018 + 24"
    proof -
      have "get64 0x2010 ?s6 = get64 0x2010 ?s5"
        unfolding p by (auto simp: get64_def in_range_unat intro!: load64_cong put_magic_other)
      then show ?thesis using p by (simp add: md)
    qed
    ultimately show "\<exists>s5 x s6 y. fs_seek demo_files ?h 0 0 FS_SEEK_BEGIN ?s5 = Some (s5, x) \<and>
        fs_read demo_files ?h 0 (get64 (mod_at 0x2000 Mo_elf_data) s5) (get64 (mod_at 0x2000 Mo_elf_data_size) s5) s5 = Some (s6, y) \<and>
        kmem_inv ?bs s6 \<and> kmem_spinlock s6 = kmem_spinlock s3 \<and> get64 (mod_at 0x2000 Mo_elf_data) s6 = 0x200018 + 24"
      by (intro exI [of _ ?s5] exI [of _ 0] exI [of _ ?s6] exI [of _ "get64 (mod_at 0x2000 Mo_elf_data_size) ?s5"])
        (simp add: demo_files_def put64_def)
  qed
qed

end
