(* ===== verification/Module_lexer.thy ===== *)
theory Module_lexer
  imports Module_loader File_seek
begin

unbundle bit_operations_syntax

text \<open>
  The parser of module descriptions (\<^verbatim>\<open>mdesc_get_lexem\<close> of \<^verbatim>\<open>bin/module.c\<close>) against a lexer on lists of
  characters. What it needs of the file system is the contract \<open>byte_stream\<close>; at the end, reading from an
  open file of the ext2 driver is shown to provide it.
\<close>

section \<open>The reference\<close>

fun lex_word :: "bool \<Rightarrow> u8 list \<Rightarrow> (u8 list \<times> u8 list) option" where
  "lex_word q [] = None"
| "lex_word q (c # cs) =
     (if \<not> q \<and> c \<in> set mdesc_wspaces then Some ([], cs)
      else if c = QUOTE then lex_word (\<not> q) cs
      else map_option (\<lambda>(w, r). (c # w, r)) (lex_word q cs))"

definition lexem :: "u8 list \<Rightarrow> (u8 list \<times> u8 list) option" where
  "lexem cs =
     (case dropWhile (\<lambda>c. c \<in> set mdesc_wspaces) cs of
        [] \<Rightarrow> None
      | c # cs \<Rightarrow>
          if c = QUOTE then lex_word True cs else map_option (\<lambda>(w, r). (c # w, r)) (lex_word False cs))"

section \<open>Files read byte by byte\<close>

locale byte_stream =
  fixes fs :: "'x file_system" and fd :: addr and left :: "'x kmem_scheme \<Rightarrow> u8 list" and okb :: "'x kmem_scheme \<Rightarrow> bool"
    and own :: "addr set"
  assumes read_some: "okb s \<Longrightarrow> left s = c # cs \<Longrightarrow> a \<notin> own \<Longrightarrow>
      \<exists>s'. read1 fs fd a s = Some (s', 1) \<and> okb s' \<and> left s' = cs \<and> kmem_mem s' a = c \<and>
        (\<forall>x. x \<notin> own \<longrightarrow> x \<noteq> a \<longrightarrow> kmem_mem s' x = kmem_mem s x)"
    and read_end: "okb s \<Longrightarrow> left s = [] \<Longrightarrow> a \<notin> own \<Longrightarrow>
      \<exists>s'. read1 fs fd a s = Some (s', 0) \<and> okb s' \<and> left s' = [] \<and>
        (\<forall>x. x \<notin> own \<longrightarrow> kmem_mem s' x = kmem_mem s x)"
    and other_stores: "okb s \<Longrightarrow> (\<And>x. x \<in> own \<Longrightarrow> kmem_mem s' x = kmem_mem s x) \<Longrightarrow> kmem.more s' = kmem.more s \<Longrightarrow>
      kmem_spinlock s' = kmem_spinlock s \<Longrightarrow> okb s' \<and> left s' = left s"
begin

lemma put8_ok:
  assumes "okb s" "a \<notin> own"
  shows "okb (put8 a v s)" "left (put8 a v s) = left s"
proof -
  have "kmem_mem (put8 a v s) x = kmem_mem s x" if "x \<in> own" for x using that assms(2) by auto
  from other_stores [OF assms(1) this] show "okb (put8 a v s)" "left (put8 a v s) = left s" by (simp_all add: put8_def)
qed

definition spaces_at :: "addr \<Rightarrow> 'x kmem_scheme \<Rightarrow> bool" where
  "spaces_at ws s \<longleftrightarrow> cstr_at (kmem_mem s) ws mdesc_wspaces \<and> ws \<noteq> NULL \<and> unat ws + 5 < 2 ^ 64"

lemma space_test:
  assumes "spaces_at ws s"
  shows "\<exists>p. strchr (kmem_mem s) ws c = Some p \<and> (p \<noteq> NULL \<longleftrightarrow> c \<in> set mdesc_wspaces)"
proof -
  have str: "cstr_at (kmem_mem s) ws mdesc_wspaces" using assms by (simp add: spaces_at_def)
  show ?thesis
proof (cases "c \<in> set mdesc_wspaces")
  case False
  with strchr_cstr [OF str, of c] show ?thesis by simp
next
  case True
  let ?n = "length (takeWhile (\<lambda>x. x \<noteq> c) mdesc_wspaces)"
  have "?n \<le> 5" using length_takeWhile_le [of "\<lambda>x. x \<noteq> c" mdesc_wspaces] by (simp add: mdesc_wspaces_def)
  then have "unat (ws + of_nat ?n) = unat ws + ?n"
    using assms by (subst unat_plus_nowrap) (simp_all add: spaces_at_def unat_of_nat_64)
  moreover have "0 < unat ws" using assms by (simp add: spaces_at_def unat_gt_0)
  ultimately have "ws + of_nat ?n \<noteq> NULL" by (metis add_is_0 less_irrefl unat_0)
  with strchr_cstr [OF str, of c] True show ?thesis by simp
qed
qed

lemma spaces_frame:
  assumes "spaces_at ws s" "\<And>x. in_range ws 6 x \<Longrightarrow> kmem_mem s' x = kmem_mem s x"
  shows "spaces_at ws s'"
proof -
  have "cstr_at (kmem_mem s') ws mdesc_wspaces"
  proof (rule cstr_at_transport)
    show "cstr_at (kmem_mem s) ws mdesc_wspaces" using assms(1) by (simp add: spaces_at_def)
    fix i
    assume "i \<le> length mdesc_wspaces"
    then have "i < 6" by (simp add: mdesc_wspaces_def)
    then show "kmem_mem s' (ws + of_nat i) = kmem_mem s (ws + of_nat i)"
      by (intro assms(2)) (simp add: in_range_def unat_of_nat_64)
  qed
  with assms(1) show ?thesis by (simp add: spaces_at_def)
qed

lemma skip_spaces_ref:
  assumes "okb s" "c \<notin> own" "spaces_at ws s" "\<And>x. in_range ws 6 x \<Longrightarrow> x \<notin> own" "\<not> in_range ws 6 c"
  shows "\<exists>s' rd. skip_spaces fs fd c ws s = Some (s', rd) \<and> okb s' \<and> spaces_at ws s' \<and>
    (\<forall>x. x \<notin> own \<longrightarrow> x \<noteq> c \<longrightarrow> kmem_mem s' x = kmem_mem s x) \<and>
    (case dropWhile (\<lambda>c. c \<in> set mdesc_wspaces) (left s) of
       [] \<Rightarrow> rd = 0 \<and> left s' = []
     | ch # cs \<Rightarrow> rd = 1 \<and> kmem_mem s' c = ch \<and> left s' = cs)"
  using assms(1,3)
proof (induction "left s" arbitrary: s)
  case Nil
  obtain s' where "read1 fs fd c s = Some (s', 0)" "okb s'" "left s' = []"
    and fr: "\<And>x. x \<notin> own \<Longrightarrow> kmem_mem s' x = kmem_mem s x"
    using read_end [OF Nil(2) Nil(1) [symmetric] assms(2)] by blast
  moreover have "spaces_at ws s'" using assms(4) fr by (intro spaces_frame [OF Nil(3)]) simp
  ultimately show ?case using Nil(1) [symmetric] by (subst skip_spaces.simps) simp
next
  case (Cons ch cs)
  obtain s1 where s1: "read1 fs fd c s = Some (s1, 1)" "okb s1" "left s1 = cs" "kmem_mem s1 c = ch"
    and fr: "\<And>x. x \<notin> own \<Longrightarrow> x \<noteq> c \<Longrightarrow> kmem_mem s1 x = kmem_mem s x"
    using read_some [OF Cons(3) Cons(2) [symmetric] assms(2)] by blast
  have sp: "spaces_at ws s1" using assms(4,5) fr by (intro spaces_frame [OF Cons(4)]) auto
  obtain p where p: "strchr (kmem_mem s1) ws ch = Some p" "p \<noteq> NULL \<longleftrightarrow> ch \<in> set mdesc_wspaces"
    using space_test [OF sp] by blast
  show ?case
  proof (cases "ch \<in> set mdesc_wspaces")
    case False
    with s1 p sp fr Cons(2) [symmetric] show ?thesis by (subst skip_spaces.simps) auto
  next
    case True
    have run: "skip_spaces fs fd c ws s = skip_spaces fs fd c ws s1"
      using s1 p True by (subst skip_spaces.simps) simp
    from Cons(1) [OF s1(3) [symmetric] s1(2) sp] obtain s' rd where s': "skip_spaces fs fd c ws s1 = Some (s', rd)" "okb s'" "spaces_at ws s'"
      "\<And>x. x \<notin> own \<Longrightarrow> x \<noteq> c \<Longrightarrow> kmem_mem s' x = kmem_mem s1 x"
      "case dropWhile (\<lambda>c. c \<in> set mdesc_wspaces) (left s1) of [] \<Rightarrow> rd = 0 \<and> left s' = []
       | ch # cs \<Rightarrow> rd = 1 \<and> kmem_mem s' c = ch \<and> left s' = cs" by blast
    with True fr s1(3) Cons(2) [symmetric] show ?thesis unfolding run by simp
  qed
qed

text \<open>The rest of a word, stored from \<open>it\<close> on.\<close>

definition room_at :: "addr \<Rightarrow> addr \<Rightarrow> nat \<Rightarrow> addr \<Rightarrow> bool" where
  "room_at ws it n e \<longleftrightarrow> e = it + of_nat n \<and> n < 256 \<and> ranges_disjoint it n ws 6 \<and> (\<forall>x. in_range it n x \<longrightarrow> x \<notin> own)"

lemma room_next:
  assumes "room_at ws it n e" "0 < n"
  shows "room_at ws (it + 1) (n - 1) e" "it \<notin> own" "\<not> in_range ws 6 it" "it \<noteq> e" "\<not> in_range (it + 1) (n - 1) it"
    "in_range it n x \<longleftrightarrow> x = it \<or> in_range (it + 1) (n - 1) x"
proof -
  have it: "in_range it n it" using assms(2) by (simp add: in_range_def)
  then show "it \<notin> own" "\<not> in_range ws 6 it" using assms(1) ranges_disjoint_not_both unfolding room_at_def by blast+
  have n: "n < 2 ^ 64" using assms(1) by (simp add: room_at_def)
  show sp: "in_range it n x \<longleftrightarrow> x = it \<or> in_range (it + 1) (n - 1) x" for x
    using in_range_add [of 1 "n - 1" it x] assms(2) n by (auto simp: in_range_def unat_eq_zero)
  have "ranges_disjoint (it + of_nat 1) (n - 1) (ws + of_nat 0) 6"
    using assms n by (intro ranges_disjoint_inner [where n = n and k = 6]) (simp_all add: room_at_def)
  moreover have "e = it + 1 + of_nat (n - 1)" using assms by (cases n) (simp_all add: room_at_def)
  ultimately show "room_at ws (it + 1) (n - 1) e" using assms sp by (auto simp: room_at_def)
  show "it \<noteq> e"
  proof
    assume "it = e"
    then have "of_nat n = (0 :: u64)" using assms(1) by (simp add: room_at_def)
    with assms(2) n show False using unat_of_nat_64 [of n] by simp
  qed
  show "\<not> in_range (it + 1) (n - 1) it"
  proof -
    have "it - (it + 1) = (- 1 :: u64)" by simp
    moreover have "n - 1 < 256" using assms(1) by (auto simp: room_at_def)
    ultimately show ?thesis
      by (simp add: in_range_def unsigned_minus_1_eq_mask mask_eq_exp_minus_1)
  qed
qed

text \<open>The test of the loop on the character that was read.\<close>

lemma quote_test:
  assumes "spaces_at ws s"
  obtains p where "(if q then Some NULL else strchr (kmem_mem s) ws c) = Some p" "p \<noteq> NULL \<longleftrightarrow> \<not> q \<and> c \<in> set mdesc_wspaces"
  using space_test [OF assms, of c] by (cases q) auto

lemma read_into:
  assumes "okb s" "left s = c # cs" "spaces_at ws s" "room_at ws it n e" "0 < n" "\<And>x. in_range ws 6 x \<Longrightarrow> x \<notin> own"
  obtains s1 where "read1 fs fd it s = Some (s1, 1)" "okb s1" "left s1 = cs" "kmem_mem s1 it = c" "spaces_at ws s1"
    "\<And>x. x \<notin> own \<Longrightarrow> x \<noteq> it \<Longrightarrow> kmem_mem s1 x = kmem_mem s x"
proof -
  note nx = room_next [OF assms(4,5)]
  obtain s1 where s1: "read1 fs fd it s = Some (s1, 1)" "okb s1" "left s1 = cs" "kmem_mem s1 it = c"
    and fr: "\<And>x. x \<notin> own \<Longrightarrow> x \<noteq> it \<Longrightarrow> kmem_mem s1 x = kmem_mem s x"
    using read_some [OF assms(1,2) nx(2)] by blast
  have "spaces_at ws s1"
    using nx(3) assms(6) fr by (intro spaces_frame [OF assms(3)]) auto
  with s1 fr that show thesis by blast
qed

lemma lexem_loop_word:
  assumes "okb s" "spaces_at ws s" "room_at ws it n e" "lex_word q (left s) = Some (w, r)" "length w < n"
    and "\<And>x. in_range ws 6 x \<Longrightarrow> x \<notin> own"
  shows "\<exists>s'. lexem_loop fs fd ws e q it rd s = Some (s', it + of_nat (length w), 1) \<and> okb s' \<and> left s' = r \<and> spaces_at ws s' \<and>
    (\<forall>i < length w. kmem_mem s' (it + of_nat i) = w ! i) \<and> kmem_mem s' (it + of_nat (length w)) \<in> set mdesc_wspaces \<and>
    (\<forall>x. x \<notin> own \<longrightarrow> \<not> in_range it n x \<longrightarrow> kmem_mem s' x = kmem_mem s x)"
  using assms(1-5)
proof (induction "left s" arbitrary: s it n q w rd)
  case Nil
  then show ?case by (simp add: Nil.hyps [symmetric])
next
  case (Cons c cs)
  note lw = Cons.prems(4) [unfolded Cons.hyps(2) [symmetric]]
  have n: "0 < n" using Cons.prems(5) by simp
  note nx = room_next [OF Cons.prems(3) n]
  obtain s1 where s1: "read1 fs fd it s = Some (s1, 1)" "okb s1" "left s1 = cs" "kmem_mem s1 it = c" "spaces_at ws s1"
    and fr: "\<And>x. x \<notin> own \<Longrightarrow> x \<noteq> it \<Longrightarrow> kmem_mem s1 x = kmem_mem s x"
    using read_into [OF Cons.prems(1) Cons.hyps(2) [symmetric] Cons.prems(2,3) n assms(6)] by metis
  obtain p where p: "(if q then Some NULL else strchr (kmem_mem s1) ws c) = Some p" "p \<noteq> NULL \<longleftrightarrow> \<not> q \<and> c \<in> set mdesc_wspaces"
    using quote_test [OF s1(5)] by blast
  have run: "lexem_loop fs fd ws e q it rd s =
      (if p \<noteq> NULL then Some (s1, it, 1)
       else if c = QUOTE then lexem_loop fs fd ws e (\<not> q) it 1 (put8 it (hd mdesc_wspaces) s1)
       else lexem_loop fs fd ws e q (it + 1) 1 s1)"
    using s1(1,4) p(1) nx(4) by (subst lexem_loop.simps, cases q) simp_all
  have fr': "kmem_mem s1 x = kmem_mem s x" if "x \<notin> own" "\<not> in_range it n x" for x
    using fr that nx(6) [of x] by auto
  consider (space) "p \<noteq> NULL" | (quote) "p = NULL" "c = QUOTE" | (char) "p = NULL" "c \<noteq> QUOTE" by blast
  then show ?case
  proof cases
    case space
    with p(2) lw have "w = []" "r = cs" "c \<in> set mdesc_wspaces" by auto
    with space run s1 fr' show ?thesis by simp
  next
    case quote
    let ?s2 = "put8 it (hd mdesc_wspaces) s1"
    have s2: "okb ?s2" "left ?s2 = cs" using put8_ok [OF s1(2) nx(2)] s1(3) by simp_all
    have sp: "spaces_at ws ?s2" using nx(3) by (intro spaces_frame [OF s1(5)]) auto
    have "lex_word (\<not> q) (left ?s2) = Some (w, r)" using lw quote p(2) s2(2) by (auto simp: QUOTE_def mdesc_wspaces_def)
    from Cons.hyps(1) [OF s2(2) [symmetric] s2(1) sp Cons.prems(3) this Cons.prems(5), of 1]
    show ?thesis using run quote fr' nx(6) by auto
  next
    case char
    then obtain w' where w: "w = c # w'" "lex_word q cs = Some (w', r)" using lw p(2) by (auto split: if_splits)
    have "length w' < n - 1" using w(1) Cons.prems(5) by simp
    from Cons.hyps(1) [OF s1(3) [symmetric] s1(2) s1(5) nx(1) w(2) [folded s1(3)] this, of 1]
    obtain s' where s': "lexem_loop fs fd ws e q (it + 1) 1 s1 = Some (s', it + 1 + of_nat (length w'), 1)" "okb s'" "left s' = r"
      "spaces_at ws s'" "kmem_mem s' (it + 1 + of_nat (length w')) \<in> set mdesc_wspaces"
      and bytes: "\<And>i. i < length w' \<Longrightarrow> kmem_mem s' (it + 1 + of_nat i) = w' ! i"
      and fr2: "\<And>x. x \<notin> own \<Longrightarrow> \<not> in_range (it + 1) (n - 1) x \<Longrightarrow> kmem_mem s' x = kmem_mem s1 x"
      by blast
    have "kmem_mem s' (it + of_nat i) = w ! i" if "i < length w" for i
    proof (cases i)
      case 0
      with fr2 [OF nx(2,5)] s1(4) w(1) show ?thesis by simp
    next
      case (Suc j)
      with that bytes [of j] w(1) show ?thesis by (simp add: add.assoc)
    qed
    moreover have "kmem_mem s' x = kmem_mem s x" if "x \<notin> own" "\<not> in_range it n x" for x
      using fr2 [OF that(1)] fr' [OF that] nx(6) [of x] that(2) by simp
    ultimately show ?thesis using run char s' w(1) by (simp add: add.assoc)
  qed
qed

lemma lexem_loop_end:
  assumes "okb s" "spaces_at ws s" "room_at ws it n e" "lex_word q (left s) = None" "length (left s) < n"
    and "\<And>x. in_range ws 6 x \<Longrightarrow> x \<notin> own"
  shows "\<exists>s' it'. lexem_loop fs fd ws e q it rd s = Some (s', it', 0) \<and> okb s' \<and> left s' = []"
  using assms(1-5)
proof (induction "left s" arbitrary: s it n q rd)
  case Nil
  then have n: "0 < n" by simp
  note nx = room_next [OF Nil.prems(3) n]
  obtain s' where "read1 fs fd it s = Some (s', 0)" "okb s'" "left s' = []"
    using read_end [OF Nil.prems(1) Nil.hyps [symmetric] nx(2)] by blast
  then show ?case using nx(4) by (subst lexem_loop.simps) simp
next
  case (Cons c cs)
  note lw = Cons.prems(4) [unfolded Cons.hyps(2) [symmetric]] and ln = Cons.prems(5) [unfolded Cons.hyps(2) [symmetric]]
  have n: "0 < n" using ln by simp
  note nx = room_next [OF Cons.prems(3) n]
  obtain s1 where s1: "read1 fs fd it s = Some (s1, 1)" "okb s1" "left s1 = cs" "kmem_mem s1 it = c" "spaces_at ws s1"
    using read_into [OF Cons.prems(1) Cons.hyps(2) [symmetric] Cons.prems(2,3) n assms(6)] by metis
  obtain p where p: "(if q then Some NULL else strchr (kmem_mem s1) ws c) = Some p" "p \<noteq> NULL \<longleftrightarrow> \<not> q \<and> c \<in> set mdesc_wspaces"
    using quote_test [OF s1(5)] by blast
  have p0: "p = NULL" using p(2) lw by (auto split: if_splits)
  have run: "lexem_loop fs fd ws e q it rd s =
      (if c = QUOTE then lexem_loop fs fd ws e (\<not> q) it 1 (put8 it (hd mdesc_wspaces) s1)
       else lexem_loop fs fd ws e q (it + 1) 1 s1)"
    using s1(1,4) p(1) p0 nx(4) by (subst lexem_loop.simps, cases q) simp_all
  show ?case
  proof (cases "c = QUOTE")
    case True
    let ?s2 = "put8 it (hd mdesc_wspaces) s1"
    have s2: "okb ?s2" "left ?s2 = cs" using put8_ok [OF s1(2) nx(2)] s1(3) by simp_all
    have sp: "spaces_at ws ?s2" using nx(3) by (intro spaces_frame [OF s1(5)]) auto
    have "lex_word (\<not> q) (left ?s2) = None" using lw True p0 p(2) s2(2) by (auto split: if_splits)
    from Cons.hyps(1) [OF s2(2) [symmetric] s2(1) sp Cons.prems(3) this, of 1] ln s2(2)
    show ?thesis using run True by simp
  next
    case False
    then have "lex_word q (left s1) = None" using lw p0 p(2) s1(3) by (auto split: if_splits)
    from Cons.hyps(1) [OF s1(3) [symmetric] s1(2) s1(5) nx(1) this, of 1] ln s1(3)
    show ?thesis using run False by simp
  qed
qed

text \<open>The frame: the character, the buffer and the literal of separators.\<close>

definition scratch_ok :: "addr \<Rightarrow> bool" where
  "scratch_ok sp \<longleftrightarrow> unat sp + 263 < 2 ^ 64 \<and> (\<forall>x. in_range sp 263 x \<longrightarrow> x \<notin> own)"

lemma frame_parts:
  assumes "scratch_ok sp"
  shows "sp \<notin> own" "\<And>x. in_range (sp + 257) 6 x \<Longrightarrow> x \<notin> own" "\<not> in_range (sp + 257) 6 sp" "room_at (sp + 257) (sp + 1) 255 (sp + 256)"
    "sp + 257 \<noteq> NULL" "unat (sp + 257) + 5 < 2 ^ 64" "sp + 1 \<notin> own" "\<not> in_range (sp + 257) 6 (sp + 1)"
proof -
  have own: "\<And>x. in_range sp 263 x \<Longrightarrow> x \<notin> own" and sp: "unat sp + 263 < 2 ^ 64" using assms by (auto simp: scratch_ok_def)
  have u: "unat (sp + of_nat i) = unat sp + i" if "i \<le> 263" for i
    using sp that by (subst unat_plus_nowrap) (simp_all add: unat_of_nat_64)
  have r: "in_range (sp + of_nat i) n x \<longleftrightarrow> unat sp + i \<le> unat x \<and> unat x < unat sp + i + n" if "i + n \<le> 263" for i n x
    using that u [of i] sp by (subst in_range_unat) simp_all
  have in263: "in_range sp 263 x \<longleftrightarrow> unat sp \<le> unat x \<and> unat x < unat sp + 263" for x using r [of 0 263 x] by simp
  show "sp \<notin> own" by (intro own) (simp add: in263)
  show "sp + 1 \<notin> own" using u [of 1] by (intro own) (simp add: in263)
  show "x \<notin> own" if "in_range (sp + 257) 6 x" for x using that r [of 257 6 x] by (intro own) (simp add: in263)
  show "\<not> in_range (sp + 257) 6 sp" "\<not> in_range (sp + 257) 6 (sp + 1)"
    using r [of 257 6 sp] r [of 257 6 "sp + 1"] u [of 1] by simp_all
  have "ranges_disjoint (sp + 1) 255 (sp + 257) 6"
    using r [of 1 255] r [of 257 6] by (auto simp: ranges_disjoint_iff)
  moreover have "x \<notin> own" if "in_range (sp + 1) 255 x" for x using that r [of 1 255 x] by (intro own) (simp add: in263)
  ultimately show "room_at (sp + 257) (sp + 1) 255 (sp + 256)" by (simp add: room_at_def)
  show "unat (sp + 257) + 5 < 2 ^ 64" using u [of 257] sp by simp
  show "sp + 257 \<noteq> NULL" using u [of 257] by (auto simp: unat_eq_zero [symmetric])
qed

end

lemma put_lit_mem:
  "length bs + 1 < 2 ^ 64 \<Longrightarrow>
     kmem_mem (put_lit a bs s) x = (if in_range a (length bs + 1) x then (bs @ [0]) ! unat (x - a) else kmem_mem s x)"
proof (induction bs arbitrary: a s)
  case Nil
  have "x = a \<longleftrightarrow> unat (x - a) = 0" by (simp add: unat_eq_zero)
  then show ?case by (auto simp: in_range_def)
next
  case (Cons b bs)
  have sp: "in_range a (Suc (length bs) + 1) x \<longleftrightarrow> x = a \<or> in_range (a + 1) (length bs + 1) x"
    using in_range_add [of 1 "length bs + 1" a x] Cons.prems by (auto simp: in_range_def unat_eq_zero)
  show ?case
  proof (cases "in_range (a + 1) (length bs + 1) x")
    case True
    then have "unat (x - (a + 1)) + 1 < 2 ^ 64" using Cons.prems by (simp add: in_range_def)
    then have "unat (x - (a + 1) + 1) = unat (x - (a + 1)) + unat (1 :: u64)" by (intro unat_plus_nowrap) simp
    moreover have "x - (a + 1) + 1 = x - a" by simp
    ultimately have "unat (x - a) = Suc (unat (x - (a + 1)))" by (simp only: unat_1 add_Suc_right add_0_right One_nat_def)
    with True Cons sp show ?thesis by simp
  next
    case False
    with Cons sp show ?thesis by simp
  qed
qed

lemma put_lit_more: "kmem.more (put_lit a bs s) = kmem.more s" "kmem_spinlock (put_lit a bs s) = kmem_spinlock s"
  by (induction bs arbitrary: a s) (simp_all add: put8_def)

lemma wspaces_length: "length mdesc_wspaces + 1 = 6"
  by (simp add: mdesc_wspaces_def)

context byte_stream
begin

lemma spaces_put:
  assumes "okb s" "scratch_ok sp"
  shows "okb (put_lit (sp + 257) mdesc_wspaces s)" "left (put_lit (sp + 257) mdesc_wspaces s) = left s"
    "spaces_at (sp + 257) (put_lit (sp + 257) mdesc_wspaces s)"
proof -
  note fp = frame_parts [OF assms(2)]
  let ?s = "put_lit (sp + 257) mdesc_wspaces s"
  have mem: "kmem_mem ?s x = (if in_range (sp + 257) 6 x then (mdesc_wspaces @ [0]) ! unat (x - (sp + 257)) else kmem_mem s x)" for x
    using put_lit_mem [of mdesc_wspaces "sp + 257" s x, unfolded wspaces_length] by simp
  have "kmem_mem ?s x = kmem_mem s x" if "x \<in> own" for x using fp(2) [of x] that mem by auto
  from other_stores [OF assms(1) this put_lit_more] show "okb ?s" "left ?s = left s" by simp_all
  have at: "kmem_mem ?s (sp + 257 + of_nat i) = (mdesc_wspaces @ [0]) ! i" if "i < 6" for i
  proof -
    have "unat (sp + 257 + of_nat i - (sp + 257)) = i" using that by (simp add: unat_of_nat_64)
    with that show ?thesis unfolding mem by (simp only: in_range_def) simp
  qed
  have "cstr_at (kmem_mem ?s) (sp + 257) (mdesc_wspaces @ [])"
    unfolding cstr_at_append
  proof (intro conjI allI impI)
    show "0 \<notin> set mdesc_wspaces" by (simp add: mdesc_wspaces_def)
    have len: "length mdesc_wspaces = 5" by (simp add: mdesc_wspaces_def)
    show "kmem_mem ?s (sp + 257 + of_nat i) = mdesc_wspaces ! i" if "i < length mdesc_wspaces" for i
      using at [of i] that by (simp add: nth_append len)
    show "cstr_at (kmem_mem ?s) (sp + 257 + of_nat (length mdesc_wspaces)) []"
      using at [of 5] by (simp only: len cstr_at.simps nth_append) simp
  qed
  with fp(5,6) show "spaces_at (sp + 257) ?s" by (simp add: spaces_at_def)
qed

text \<open>
  A word that is found ends in the buffer as a string; what remains to be done is to copy it to the
  heap.
\<close>

lemma get_lexem_found:
  assumes "okb s" "scratch_ok sp" "lexem (left s) = Some (w, r)" "length w < 255" "0 \<notin> set w"
  obtains s' where "okb s'" "left s' = r" "cstr_at (kmem_mem s') (sp + 1) w"
    "\<And>x. x \<notin> own \<Longrightarrow> \<not> in_range sp 263 x \<Longrightarrow> kmem_mem s' x = kmem_mem s x"
    "mdesc_get_lexem fs sp fd s =
       do { (s5, ret) \<leftarrow> kmalloc (fs_hooks fs) (of_nat (length w) + 1) s'; s6 \<leftarrow> strcpy_s ret (sp + 1) s5; Some (s6, ret) }"
proof -
  note fp = frame_parts [OF assms(2)]
  let ?ws = "sp + 257" and ?s0 = "put_lit (sp + 257) mdesc_wspaces s"
  note s0 = spaces_put [OF assms(1,2)]
  have fr0: "kmem_mem ?s0 x = kmem_mem s x" if "\<not> in_range sp 263 x" for x
  proof -
    have "\<not> in_range (sp + of_nat 257) 6 x" using that in_range_inner [of sp 257 6 x 263] by auto
    then show ?thesis using put_lit_mem [of mdesc_wspaces "sp + 257" s x, unfolded wspaces_length] by simp
  qed
  obtain c0 cs where dw: "dropWhile (\<lambda>c. c \<in> set mdesc_wspaces) (left s) = c0 # cs"
    and lx: "(if c0 = QUOTE then lex_word True cs else map_option (\<lambda>(w, r). (c0 # w, r)) (lex_word False cs)) = Some (w, r)"
    using assms(3) by (auto simp: lexem_def split: list.splits)
  obtain s1 where s1: "skip_spaces fs fd sp ?ws ?s0 = Some (s1, 1)" "okb s1" "spaces_at ?ws s1" "kmem_mem s1 sp = c0" "left s1 = cs"
    and fr1: "\<And>x. x \<notin> own \<Longrightarrow> x \<noteq> sp \<Longrightarrow> kmem_mem s1 x = kmem_mem ?s0 x"
    using skip_spaces_ref [OF s0(1) fp(1) s0(3) fp(2,3)] unfolding s0(2) dw by auto
  let ?s2 = "put8 (sp + 1) (if c0 = QUOTE then hd mdesc_wspaces else c0) s1"
  have s2: "okb ?s2" "left ?s2 = cs" using put8_ok [OF s1(2) fp(7)] s1(5) by simp_all
  have sp2: "spaces_at ?ws ?s2" using fp(8) by (intro spaces_frame [OF s1(3)]) auto
  obtain s3 where s3: "lexem_loop fs fd ?ws (sp + 256) (c0 = QUOTE) (if c0 \<noteq> QUOTE then sp + 1 + 1 else sp + 1) 1 ?s2 =
      Some (s3, sp + 1 + of_nat (length w), 1)" "okb s3" "left s3 = r" "spaces_at ?ws s3"
      "kmem_mem s3 (sp + 1 + of_nat (length w)) \<in> set mdesc_wspaces"
    and bytes: "\<And>i. i < length w \<Longrightarrow> kmem_mem s3 (sp + 1 + of_nat i) = w ! i"
    and fr3: "\<And>x. x \<notin> own \<Longrightarrow> \<not> in_range (sp + 1) 255 x \<Longrightarrow> kmem_mem s3 x = kmem_mem ?s2 x"
  proof (cases "c0 = QUOTE")
    case True
    then have "lex_word True (left ?s2) = Some (w, r)" using lx s2(2) by simp
    from lexem_loop_word [OF s2(1) sp2 fp(4) this assms(4) fp(2), of 1] obtain s3 where
      "lexem_loop fs fd ?ws (sp + 256) True (sp + 1) 1 ?s2 = Some (s3, sp + 1 + of_nat (length w), 1)" "okb s3" "left s3 = r"
      "spaces_at ?ws s3" "kmem_mem s3 (sp + 1 + of_nat (length w)) \<in> set mdesc_wspaces"
      "\<And>i. i < length w \<Longrightarrow> kmem_mem s3 (sp + 1 + of_nat i) = w ! i"
      "\<And>x. x \<notin> own \<Longrightarrow> \<not> in_range (sp + 1) 255 x \<Longrightarrow> kmem_mem s3 x = kmem_mem ?s2 x" by blast
    with True that show thesis by simp
  next
    case False
    then obtain w' where w': "w = c0 # w'" "lex_word False (left ?s2) = Some (w', r)" using lx s2(2) by auto
    note nx = room_next [OF fp(4)]
    have "length w' < 255 - 1" using w'(1) assms(4) by simp
    from lexem_loop_word [OF s2(1) sp2 nx(1) w'(2) this fp(2), of 1]
    obtain s3 where s3: "lexem_loop fs fd ?ws (sp + 256) False (sp + 1 + 1) 1 ?s2 = Some (s3, sp + 1 + 1 + of_nat (length w'), 1)" "okb s3"
      "left s3 = r" "spaces_at ?ws s3" "kmem_mem s3 (sp + 1 + 1 + of_nat (length w')) \<in> set mdesc_wspaces"
      and bytes: "\<And>i. i < length w' \<Longrightarrow> kmem_mem s3 (sp + 1 + 1 + of_nat i) = w' ! i"
      and fr3: "\<And>x. x \<notin> own \<Longrightarrow> \<not> in_range (sp + 1 + 1) (255 - 1) x \<Longrightarrow> kmem_mem s3 x = kmem_mem ?s2 x"
      by auto
    have first: "kmem_mem s3 (sp + 1) = c0" using fr3 [OF fp(7)] nx(5) False by simp
    have "kmem_mem s3 (sp + 1 + of_nat i) = w ! i" if "i < length w" for i
    proof (cases i)
      case 0
      with first w'(1) show ?thesis by simp
    next
      case (Suc j)
      with that bytes [of j] w'(1) show ?thesis by (simp add: add.assoc)
    qed
    moreover have "kmem_mem s3 x = kmem_mem ?s2 x" if "x \<notin> own" "\<not> in_range (sp + 1) 255 x" for x
      using that nx(6) [of x] by (intro fr3) auto
    ultimately show thesis using that [of s3] s3 w'(1) False by (simp add: add.assoc)
  qed
  let ?e = "sp + 1 + of_nat (length w)"
  have e: "in_range (sp + 1) 255 ?e" using assms(4) by (simp add: in_range_def unat_of_nat_64)
  let ?s4 = "put8 ?e 0 s3"
  have s4: "okb ?s4" "left ?s4 = r" using put8_ok [OF s3(2), of ?e] e fp(4) s3(3) by (auto simp: room_at_def)
  have "kmem_mem ?s4 (sp + 1 + of_nat i) = w ! i" if "i < length w" for i
  proof -
    have "unat (of_nat i :: u64) = i" "unat (of_nat (length w) :: u64) = length w"
      using that assms(4) by (simp_all add: unat_of_nat_64)
    with that have "of_nat i \<noteq> (of_nat (length w) :: u64)" by (metis less_irrefl)
    then show ?thesis using bytes [OF that] by simp
  qed
  then have str: "cstr_at (kmem_mem ?s4) (sp + 1) w"
    using assms(5) cstr_at_append [of "kmem_mem ?s4" "sp + 1" w "[]"] by simp
  have fr: "kmem_mem ?s4 x = kmem_mem s x" if "x \<notin> own" "\<not> in_range sp 263 x" for x
  proof -
    have n: "\<not> in_range (sp + 1) 255 x" "x \<noteq> sp" using that in_range_inner [of sp 1 255 x 263] by (auto simp: in_range_def)
    then have "x \<noteq> ?e" "x \<noteq> sp + 1" using e by (auto simp: in_range_def)
    with n fr0 [OF that(2)] fr1 [OF that(1)] fr3 [OF that(1)] show ?thesis by simp
  qed
  obtain p where p: "strchr (kmem_mem s3) ?ws (kmem_mem s3 ?e) = Some p" "p \<noteq> NULL"
    using space_test [OF s3(4)] s3(5) by blast
  have len: "strlen_s (sp + 1) ?s4 = Some (of_nat (length w))" using strlen_cstr [OF str] by (simp add: strlen_s_def)
  have "mdesc_get_lexem fs sp fd s =
       do { (s5, ret) \<leftarrow> kmalloc (fs_hooks fs) (of_nat (length w) + 1) ?s4; s6 \<leftarrow> strcpy_s ret (sp + 1) s5; Some (s6, ret) }"
  proof -
    have e1: "sp + 1 + 255 = sp + 256" by simp
    show ?thesis
      using s1(1,4) s3(1) p len unfolding mdesc_get_lexem_def Let_def e1 by (cases "c0 = QUOTE") simp_all
  qed
  with that s4 str fr show thesis by blast
qed

text \<open>At the end of the file there is no word, also when one had begun.\<close>

lemma get_lexem_end:
  assumes "okb s" "scratch_ok sp" "lexem (left s) = None" "length (left s) < 255"
  shows "\<exists>s'. mdesc_get_lexem fs sp fd s = Some (s', NULL) \<and> okb s' \<and> left s' = []"
proof -
  note fp = frame_parts [OF assms(2)]
  let ?ws = "sp + 257" and ?s0 = "put_lit (sp + 257) mdesc_wspaces s"
  note s0 = spaces_put [OF assms(1,2)]
  note sk = skip_spaces_ref [OF s0(1) fp(1) s0(3) fp(2,3)]
  have e1: "sp + 1 + 255 = sp + 256" by simp
  show ?thesis
  proof (cases "dropWhile (\<lambda>c. c \<in> set mdesc_wspaces) (left s)")
    case Nil
    with sk obtain s1 where "skip_spaces fs fd sp ?ws ?s0 = Some (s1, 0)" "okb s1" "left s1 = []" unfolding s0(2) by auto
    then show ?thesis by (simp add: mdesc_get_lexem_def Let_def)
  next
    case (Cons c0 cs)
    then obtain s1 where s1: "skip_spaces fs fd sp ?ws ?s0 = Some (s1, 1)" "okb s1" "spaces_at ?ws s1" "kmem_mem s1 sp = c0" "left s1 = cs"
      using sk unfolding s0(2) by auto
    have len: "length cs < 254"
      using assms(4) Cons length_dropWhile_le [of "\<lambda>c. c \<in> set mdesc_wspaces" "left s"] by simp
    let ?s2 = "put8 (sp + 1) (if c0 = QUOTE then hd mdesc_wspaces else c0) s1"
    have s2: "okb ?s2" "left ?s2 = cs" using put8_ok [OF s1(2) fp(7)] s1(5) by simp_all
    have sp2: "spaces_at ?ws ?s2" using fp(8) by (intro spaces_frame [OF s1(3)]) auto
    have lx: "lex_word (c0 = QUOTE) (left ?s2) = None" using assms(3) Cons s2(2) by (auto simp: lexem_def split: if_splits)
    have "\<exists>s3 it'. lexem_loop fs fd ?ws (sp + 256) (c0 = QUOTE) (if c0 \<noteq> QUOTE then sp + 1 + 1 else sp + 1) 1 ?s2 = Some (s3, it', 0) \<and>
      okb s3 \<and> left s3 = []"
    proof (cases "c0 = QUOTE")
      case True
      with lexem_loop_end [OF s2(1) sp2 fp(4) lx _ fp(2), of 1] len s2(2) show ?thesis by simp
    next
      case False
      with lexem_loop_end [OF s2(1) sp2 room_next(1) [OF fp(4)] lx _ fp(2), of 1] len s2(2) show ?thesis by simp
    qed
    then show ?thesis
      using s1(1,4) unfolding mdesc_get_lexem_def Let_def e1 by (cases "c0 = QUOTE") auto
  qed
qed

end

section \<open>Files of the ext2 driver\<close>

text \<open>The bytes that an open file depends on.\<close>

definition file_own :: "('x, 'y) fs_handle_scheme \<Rightarrow> addr \<Rightarrow> addr \<Rightarrow> addr \<Rightarrow> nat \<Rightarrow> addr set" where
  "file_own fs fd ino bbuf k = {x. in_range fd 40 x \<or> in_range bbuf (512 * k) x \<or> in_range ino 128 x \<or> in_range (sb_at (fs_sb fs) Block_logsz) 4 x}"

lemma one_apart: "\<not> in_range b n a \<Longrightarrow> ranges_disjoint a 1 b n"
  by (auto simp: ranges_disjoint_iff in_range_def unat_eq_zero)

lemma fd_word_agree:
  assumes "\<And>x. in_range fd 40 x \<Longrightarrow> kmem_mem s' x = kmem_mem s x"
  shows "get32 (fd_at fd Fd_blki) s' = get32 (fd_at fd Fd_blki) s" "get32 (fd_at fd Fd_byteaddr) s' = get32 (fd_at fd Fd_byteaddr) s"
    "get64 (fd_at fd Fd_inode) s' = get64 (fd_at fd Fd_inode) s" "get64 (fd_at fd Fd_blkbuf) s' = get64 (fd_at fd Fd_blkbuf) s"
    "kmem_mem s' (fd_at fd Fd_is_blk_valid) = kmem_mem s (fd_at fd Fd_is_blk_valid)"
    "kmem_mem s' (fd_at fd Fd_is_buf_init) = kmem_mem s (fd_at fd Fd_is_buf_init)"
  using fd_range [of fd 24 4] fd_range [of fd 28 4] fd_range [of fd 8 8] fd_range [of fd 16 8]
  by (auto simp: fd_offsets in_range_def intro!: get32_cong get64_cong assms)

lemma file_at_agree:
  assumes fl: "file_at fs fd ino bbuf k D sz pos s"
    and own: "\<And>x. x \<in> file_own fs fd ino bbuf k \<Longrightarrow> kmem_mem s' x = kmem_mem s x"
  shows "file_at fs fd ino bbuf k D sz pos s'" "fd_pos fd k s' = fd_pos fd k s" "file_byte D k ino s' p = file_byte D k ino s p"
proof -
  have "kmem_mem s' x = kmem_mem s x" if "in_range fd 40 x" for x using own that by (simp add: file_own_def)
  note fd = fd_word_agree [OF this]
  have "kmem_mem s' x = kmem_mem s x" if "in_range ino 128 x" for x using own that by (simp add: file_own_def)
  note ino = file_block_agree [OF this]
  have "kmem_mem s' x = kmem_mem s x" if "in_range (sb_at (fs_sb fs) Block_logsz) 4 x" for x using own that by (simp add: file_own_def)
  note sb = geom_cong(3) [OF this]
  show "fd_pos fd k s' = fd_pos fd k s" by (simp add: fd_pos_def fd)
  show "file_byte D k ino s' p = file_byte D k ino s p" by (simp add: file_byte_def ino)
  show "file_at fs fd ino bbuf k D sz pos s'"
    using fl sb by (simp add: file_at_def open_file_def blocks_ok_def fd ino)
qed

text \<open>The file system \<open>fs\<close> reads from the descriptor \<open>fd\<close> through the ext2 driver on an ATA drive.\<close>

definition ext2_reader ::
  "ata_dev \<Rightarrow> addr \<Rightarrow> ata_drive \<Rightarrow> unit machine_ext file_system \<Rightarrow> addr \<Rightarrow> addr \<Rightarrow> addr \<Rightarrow> nat \<Rightarrow> nat \<Rightarrow> machine \<Rightarrow> bool" where
  "ext2_reader d0 dp drive fs fd ino bbuf k sz s \<longleftrightarrow>
     fs_read fs = fs_ext2_read \<and> fs_drive fs = pio_ops (ata_hw d0) dp drive \<and> drives d0 drive \<and> sel_ok d0 dp s \<and>
     file_at (fs_handle.truncate fs) fd ino bbuf k (disk_of d0 s) sz (fd_pos fd k s) s"

definition ext2_left :: "ata_dev \<Rightarrow> addr \<Rightarrow> addr \<Rightarrow> nat \<Rightarrow> nat \<Rightarrow> machine \<Rightarrow> u8 list" where
  "ext2_left d0 fd ino k sz s = map (file_byte (disk_of d0 s) k ino s) [fd_pos fd k s..<sz]"

lemma truncate_sels [simp]: "fs_drive (fs_handle.truncate fs) = fs_drive fs" "fs_sb (fs_handle.truncate fs) = fs_sb fs"
  by (simp_all add: fs_handle.defs fs_sb_def)

lemma file_own_truncate [simp]: "file_own (fs_handle.truncate fs) fd ino bbuf k = file_own fs fd ino bbuf k"
  by (simp add: file_own_def)

lemma ext2_read_one:
  assumes rd: "ext2_reader d0 dp drive fs fd ino bbuf k sz s" and a: "a \<notin> file_own fs fd ino bbuf k"
  obtains s' n where "read1 fs fd a s = Some (s', of_nat n)" "n = min 1 (sz - fd_pos fd k s)" "ext2_reader d0 dp drive fs fd ino bbuf k sz s'"
    "kmem_spinlock s' = kmem_spinlock s"
    "fd_pos fd k s' = fd_pos fd k s + n" "file_byte (disk_of d0 s') k ino s' = file_byte (disk_of d0 s) k ino s"
    "n = 1 \<Longrightarrow> kmem_mem s' a = file_byte (disk_of d0 s) k ino s (fd_pos fd k s)"
    "\<And>x. x \<notin> file_own fs fd ino bbuf k \<Longrightarrow> x \<noteq> a \<or> n = 0 \<Longrightarrow> kmem_mem s' x = kmem_mem s x"
proof -
  let ?h = "fs_handle.truncate fs"
  have h: "fs_read fs = fs_ext2_read" "fs_drive ?h = pio_ops (ata_hw d0) dp drive"
    "(drives d0 drive \<and> sel_ok d0 dp s) \<and> kmem_spinlock s = kmem_spinlock s"
    "file_at ?h fd ino bbuf k (disk_of d0 s) sz (fd_pos fd k s) s"
    using rd by (simp_all add: ext2_reader_def)
  define n where "n = min (unat (1 :: u64)) (sz - fd_pos fd k s)"
  have n1: "n \<le> 1" "n = min 1 (sz - fd_pos fd k s)" by (simp_all add: n_def)
  have na: "\<not> in_range fd 40 a" "\<not> in_range bbuf (512 * k) a" "\<not> in_range ino 128 a" "\<not> in_range (sb_at (fs_sb fs) Block_logsz) 4 a"
    using a by (simp_all add: file_own_def)
  have r1: "ranges_disjoint a 1 b m \<Longrightarrow> ranges_disjoint a n b m" for b m
    using n1(1) in_range_mono [of a n _ 1] unfolding ranges_disjoint_iff by blast
  have ap: "apart_from_fd ?h fd ino a n" "ranges_disjoint a n bbuf (512 * k)"
    using na r1 one_apart by (simp_all add: apart_from_fd_def)
  obtain s' where s': "fs_ext2_read ?h fd a 1 s = Some (s', of_nat n)" "drives d0 drive \<and> sel_ok d0 dp s'" "kmem_spinlock s' = kmem_spinlock s"
    "disk_of d0 s' = disk_of d0 s" "file_at ?h fd ino bbuf k (disk_of d0 s) sz (fd_pos fd k s + n) s'"
    and fb: "\<And>p. file_byte (disk_of d0 s) k ino s' p = file_byte (disk_of d0 s) k ino s p"
    and fr: "\<And>x. \<not> touched fd bbuf k a n x \<Longrightarrow> kmem_mem s' x = kmem_mem s x"
    and bytes: "\<And>i. i < n \<Longrightarrow> kmem_mem s' (a + of_nat i) = file_byte (disk_of d0 s) k ino s (fd_pos fd k s + i)"
    using pio.locked.read_ref [OF h(2-4) n_def ap] by blast
  have pos: "fd_pos fd k s' = fd_pos fd k s + n" using file_at_pos [OF s'(5)] .
  have "kmem_mem s' x = kmem_mem s x" if "x \<notin> file_own fs fd ino bbuf k" "x \<noteq> a \<or> n = 0" for x
  proof (rule fr)
    have "\<not> in_range a n x" using that(2) n1(1) in_range_mono [of a n x 1] unat_eq_zero [of "x - a"] by (auto simp: in_range_def)
    with that(1) touched_fd show "\<not> touched fd bbuf k a n x" by (auto simp: touched_def file_own_def)
  qed
  moreover have "read1 fs fd a s = Some (s', of_nat n)" using h(1) s'(1) by (simp add: read1_def)
  moreover have "ext2_reader d0 dp drive fs fd ino bbuf k sz s'" using h s' pos by (simp add: ext2_reader_def)
  moreover have "file_byte (disk_of d0 s') k ino s' = file_byte (disk_of d0 s) k ino s" unfolding s'(4) using fb by (rule ext)
  moreover have "kmem_mem s' a = file_byte (disk_of d0 s) k ino s (fd_pos fd k s)" if "n = 1" using bytes [of 0] that by simp
  ultimately show thesis using that [of s' n] n1(2) pos s'(3) by blast
qed

text \<open>The file is not affected by what happens to the heap outside its bytes.\<close>

lemma ext2_reader_frame:
  assumes rd: "ext2_reader d0 dp drive fs fd ino bbuf k sz s" and own: "\<And>x. x \<in> file_own fs fd ino bbuf k \<Longrightarrow> kmem_mem s' x = kmem_mem s x"
    and more: "kmem.more s' = kmem.more s"
  shows "ext2_reader d0 dp drive fs fd ino bbuf k sz s'" "ext2_left d0 fd ino k sz s' = ext2_left d0 fd ino k sz s"
proof -
  have fl: "file_at (fs_handle.truncate fs) fd ino bbuf k (disk_of d0 s) sz (fd_pos fd k s) s" using rd by (simp add: ext2_reader_def)
  note ag = file_at_agree [OF fl, unfolded file_own_truncate, OF own]
  note mf = pio.more_frame [OF more]
  have d: "disk_of d0 s' = disk_of d0 s" by (rule mf)
  have "drives d0 drive \<and> sel_ok d0 dp s'" using rd mf(1) [of d0 drive dp] by (simp add: ext2_reader_def)
  with rd ag d show "ext2_reader d0 dp drive fs fd ino bbuf k sz s'" "ext2_left d0 fd ino k sz s' = ext2_left d0 fd ino k sz s"
    by (simp_all add: ext2_reader_def ext2_left_def)
qed

interpretation ext2_bytes: byte_stream fs fd "ext2_left d0 fd ino k sz"
    "\<lambda>s. ext2_reader d0 dp drive fs fd ino bbuf k sz s \<and> kmem_spinlock s = l" "file_own fs fd ino bbuf k"
  for fs fd d0 dp drive ino bbuf k sz l
proof unfold_locales
  fix s :: machine and c cs a
  assume rd: "ext2_reader d0 dp drive fs fd ino bbuf k sz s \<and> kmem_spinlock s = l"
    and left: "ext2_left d0 fd ino k sz s = c # cs" and a: "a \<notin> file_own fs fd ino bbuf k"
  have lt: "fd_pos fd k s < sz" using left by (cases "fd_pos fd k s < sz") (simp_all add: ext2_left_def)
  have c: "c = file_byte (disk_of d0 s) k ino s (fd_pos fd k s)" "cs = map (file_byte (disk_of d0 s) k ino s) [Suc (fd_pos fd k s)..<sz]"
    using left upt_conv_Cons [OF lt] by (simp_all add: ext2_left_def)
  obtain s' n where "read1 fs fd a s = Some (s', of_nat n)" "n = min 1 (sz - fd_pos fd k s)" "ext2_reader d0 dp drive fs fd ino bbuf k sz s'"
    "kmem_spinlock s' = kmem_spinlock s"
    "fd_pos fd k s' = fd_pos fd k s + n" "file_byte (disk_of d0 s') k ino s' = file_byte (disk_of d0 s) k ino s"
    "n = 1 \<Longrightarrow> kmem_mem s' a = file_byte (disk_of d0 s) k ino s (fd_pos fd k s)"
    "\<And>x. x \<notin> file_own fs fd ino bbuf k \<Longrightarrow> x \<noteq> a \<or> n = 0 \<Longrightarrow> kmem_mem s' x = kmem_mem s x"
    using ext2_read_one [OF conjunct1 [OF rd] a] by metis
  with lt c rd show "\<exists>s'. read1 fs fd a s = Some (s', 1) \<and> (ext2_reader d0 dp drive fs fd ino bbuf k sz s' \<and> kmem_spinlock s' = l) \<and>
      ext2_left d0 fd ino k sz s' = cs \<and>
      kmem_mem s' a = c \<and> (\<forall>x. x \<notin> file_own fs fd ino bbuf k \<longrightarrow> x \<noteq> a \<longrightarrow> kmem_mem s' x = kmem_mem s x)"
    by (intro exI [of _ s']) (simp add: ext2_left_def)
next
  fix s :: machine and a
  assume rd: "ext2_reader d0 dp drive fs fd ino bbuf k sz s \<and> kmem_spinlock s = l"
    and left: "ext2_left d0 fd ino k sz s = []" and a: "a \<notin> file_own fs fd ino bbuf k"
  have ge: "sz \<le> fd_pos fd k s" using left by (auto simp: ext2_left_def)
  obtain s' n where "read1 fs fd a s = Some (s', of_nat n)" "n = min 1 (sz - fd_pos fd k s)" "ext2_reader d0 dp drive fs fd ino bbuf k sz s'"
    "kmem_spinlock s' = kmem_spinlock s" "fd_pos fd k s' = fd_pos fd k s + n"
    "\<And>x. x \<notin> file_own fs fd ino bbuf k \<Longrightarrow> x \<noteq> a \<or> n = 0 \<Longrightarrow> kmem_mem s' x = kmem_mem s x"
    using ext2_read_one [OF conjunct1 [OF rd] a] by metis
  with ge rd show "\<exists>s'. read1 fs fd a s = Some (s', 0) \<and> (ext2_reader d0 dp drive fs fd ino bbuf k sz s' \<and> kmem_spinlock s' = l) \<and>
      ext2_left d0 fd ino k sz s' = [] \<and>
      (\<forall>x. x \<notin> file_own fs fd ino bbuf k \<longrightarrow> kmem_mem s' x = kmem_mem s x)"
    by (intro exI [of _ s']) (simp add: ext2_left_def)
next
  fix s s' :: machine
  assume "ext2_reader d0 dp drive fs fd ino bbuf k sz s \<and> kmem_spinlock s = l" "\<And>x. x \<in> file_own fs fd ino bbuf k \<Longrightarrow> kmem_mem s' x = kmem_mem s x"
    "kmem.more s' = kmem.more s" "kmem_spinlock s' = kmem_spinlock s"
  then show "(ext2_reader d0 dp drive fs fd ino bbuf k sz s' \<and> kmem_spinlock s' = l) \<and> ext2_left d0 fd ino k sz s' = ext2_left d0 fd ino k sz s"
    using ext2_reader_frame [of d0 dp drive fs fd ino bbuf k sz s s'] by blast
qed

section \<open>The lexer of module descriptions\<close>

lemma reader_frame:
  "unat sp + 263 < 2 ^ 64 \<Longrightarrow> \<forall>x. in_range sp 263 x \<longrightarrow> x \<notin> file_own fs fd ino bbuf k \<Longrightarrow>
     byte_stream.scratch_ok (file_own (fs :: unit machine_ext file_system) fd ino bbuf k) sp"
  unfolding ext2_bytes.scratch_ok_def by blast

lemma heap_unchanged:
  assumes "kmem_inv bs s" "\<And>c x. c \<in> set bs \<Longrightarrow> in_range (fst c) 24 x \<Longrightarrow> kmem_mem s' x = kmem_mem s x"
  shows "kmem_inv bs s'"
  using assms heap_at_frame [of "kmem_mem s" bs "kmem_mem s'"] by (auto simp: kmem_inv_def)

text \<open>The bytes that handing out a new block of \<open>n\<close> bytes at \<open>g\<close> and filling it can change.\<close>

definition new_block :: "blk list \<Rightarrow> addr \<Rightarrow> nat \<Rightarrow> addr set" where
  "new_block bs' g n = {x. (\<exists>c \<in> set bs'. in_range (fst c) 24 x) \<or> in_range (g + 24) n x}"

text \<open>Copying a string to a new block of the heap.\<close>

lemma copy_to_heap:
  fixes s :: "'x kmem_scheme"
  assumes n_def: "n = length w + 1" and str: "cstr_at (kmem_mem s) src w" and n: "n < 2 ^ 64" and lock: "kmem_spinlock s = 0" and inv: "kmem_inv bs s"
    and room: "room (of_nat (length w) + 1) 1 bs" and pl: "place (of_nat (length w) + 1) 1 bs = (bs', g, gap)"
    and src: "\<And>x. in_range src n x \<Longrightarrow> x \<notin> new_block bs' g n"
  obtains s2 s3 where "kmalloc None (of_nat (length w) + 1) s = Some (s2, g + 24)" "strcpy_s (g + 24) src s2 = Some s3"
    "cstr_at (kmem_mem s3) (g + 24) w" "kmem_inv bs' s3" "kmem_spinlock s3 = (if gap then 1 else 0)" "kmem.more s3 = kmem.more s"
    "\<And>x. x \<notin> new_block bs' g n \<Longrightarrow> kmem_mem s3 x = kmem_mem s x"
proof -
  let ?z = "of_nat (length w) + 1 :: u64"
  have z: "unat ?z = n" using unat_of_nat_64 [OF n] by (simp add: n_def add.commute)
  obtain s2 where s2: "kmalloc_align None ?z 1 s = Some (s2, g + 24)" "kmem_inv bs' s2" "kmem_spinlock s2 = (if gap then 1 else 0)"
    "keeps_payload bs' (kmem_mem s) (kmem_mem s2)"
    using kmalloc_align_place [OF lock inv room _ pl, of None] by (auto simp: hooks_ok_def)
  have m2: "kmem_mem s2 x = kmem_mem s x" if "x \<notin> new_block bs' g n" for x
    using that s2(4) by (auto simp: keeps_payload_def new_block_def)
  have offs: "in_range src n (src + of_nat i)" if "i \<le> length w" for i
    using that n unat_of_nat_64 [of i] by (simp add: in_range_def n_def)
  have str2: "cstr_at (kmem_mem s2) src w"
    by (rule cstr_at_transport [OF str]) (intro m2 src offs)
  have dis: "ranges_disjoint (g + 24) (length w + 1) src (length w + 1)"
    using src by (auto simp: ranges_disjoint_iff new_block_def n_def)
  let ?m = "copied (kmem_mem s2) (g + 24) src n" and ?s3 = "s2\<lparr>kmem_mem := copied (kmem_mem s2) (g + 24) src n\<rparr>"
  have cp: "strcpy_s (g + 24) src s2 = Some ?s3"
    using strcpy_cstr [OF str2 dis] by (simp add: strcpy_s_def n_def)
  have "cstr_at ?m (g + 24) w"
    by (rule cstr_at_transport [OF str2], rule copied_offset [OF _ n]) (simp add: n_def)
  moreover have "kmem_inv bs' ?s3"
  proof (rule heap_unchanged [OF s2(2)])
    fix c x
    assume c: "c \<in> set bs'" "in_range (fst c) 24 x"
    have ord: "blks_ordered bs'" using s2(2) by (simp add: kmem_inv_def heap_ok_def)
    have "(g, ?z) \<in> set bs'" using place_release(3) [OF _ room pl] inv by (simp add: kmem_inv_def)
    from hdr_payload_apart [OF ord this c(1), of x] c(2) have "\<not> in_range (g + 24) n x" using z by auto
    then show "kmem_mem ?s3 x = kmem_mem s2 x" by (simp add: copied_other)
  qed
  moreover have "kmem_mem ?s3 x = kmem_mem s x" if "x \<notin> new_block bs' g n" for x
    using m2 [OF that] that by (simp add: copied_other new_block_def)
  ultimately show thesis
    using that [of s2 ?s3] s2(1,3) cp kmalloc_more [OF s2(1)] by (simp add: kmalloc_def)
qed

text \<open>
  C19: On an open file of an ext2 drive, with a consistent, unlocked heap that has room for the word, \<open>mdesc_get_lexem\<close>
  returns. Its result is a new block of the heap, placed by first fit, that holds exactly the word which the
  reference lexer finds (the separators before it are skipped and quoted parts are taken as they are), as a string
  with its terminator; the file is then open at the position behind the separator that ended the word. No
  other byte changes than those of the open file, the frame of the function, the headers of heap blocks
  and the new block. The heap is left unlocked unless the block went into a gap. The word has less than 255
  characters and none of them is zero; the block and the heap's headers lie apart from file and frame.
\<close>

theorem get_lexem_finds_the_word:
  assumes "ext2_reader d0 dp drive fs fd ino bbuf k sz s" "fs_hooks fs = None"
    and "unat sp + 263 < 2 ^ 64" "\<forall>x. in_range sp 263 x \<longrightarrow> x \<notin> file_own fs fd ino bbuf k"
    and "lexem (ext2_left d0 fd ino k sz s) = Some (w, r)" "length w < 255" "0 \<notin> set w"
    and "kmem_spinlock s = 0" "kmem_inv bs s" "room (of_nat (length w) + 1) 1 bs" "place (of_nat (length w) + 1) 1 bs = (bs', g, gap)"
    and "\<forall>x \<in> new_block bs' g (length w + 1). x \<notin> file_own fs fd ino bbuf k \<and> \<not> in_range sp 263 x"
  shows "\<exists>s'. mdesc_get_lexem fs sp fd s = Some (s', g + 24) \<and> cstr_at (kmem_mem s') (g + 24) w \<and>
    ext2_reader d0 dp drive fs fd ino bbuf k sz s' \<and> ext2_left d0 fd ino k sz s' = r \<and>
    kmem_inv bs' s' \<and> kmem_spinlock s' = (if gap then 1 else 0) \<and>
    (\<forall>x. x \<notin> file_own fs fd ino bbuf k \<longrightarrow> \<not> in_range sp 263 x \<longrightarrow> x \<notin> new_block bs' g (length w + 1) \<longrightarrow>
       kmem_mem s' x = kmem_mem s x)"
proof -
  let ?own = "file_own fs fd ino bbuf k" and ?new = "new_block bs' g (length w + 1)"
  obtain s1 where s1: "ext2_reader d0 dp drive fs fd ino bbuf k sz s1" "kmem_spinlock s1 = 0" "ext2_left d0 fd ino k sz s1 = r"
    "cstr_at (kmem_mem s1) (sp + 1) w"
    and fr1: "\<And>x. x \<notin> ?own \<Longrightarrow> \<not> in_range sp 263 x \<Longrightarrow> kmem_mem s1 x = kmem_mem s x"
    and run: "mdesc_get_lexem fs sp fd s =
      do { (s5, ret) \<leftarrow> kmalloc (fs_hooks fs) (of_nat (length w) + 1) s1; s6 \<leftarrow> strcpy_s ret (sp + 1) s5; Some (s6, ret) }"
    using ext2_bytes.get_lexem_found [OF conjI [OF assms(1,8)] reader_frame [OF assms(3,4)] assms(5-7)] by blast
  have sub: "set bs \<subseteq> set bs'" using place_release(3) [OF _ assms(10,11)] assms(9) by (auto simp: kmem_inv_def)
  have inv1: "kmem_inv bs s1"
    using assms(12) sub by (intro heap_unchanged [OF assms(9)] fr1) (auto simp: new_block_def)
  have src: "x \<notin> ?new" if "in_range (sp + 1) (length w + 1) x" for x
    using that assms(6,12) in_range_inner [of sp 1 "length w + 1" x 263] by auto
  have lt: "length w + 1 < 2 ^ 64" using assms(6) by simp
  obtain s2 s3 where s3: "kmalloc None (of_nat (length w) + 1) s1 = Some (s2, g + 24)" "strcpy_s (g + 24) (sp + 1) s2 = Some s3"
    "cstr_at (kmem_mem s3) (g + 24) w" "kmem_inv bs' s3" "kmem_spinlock s3 = (if gap then 1 else 0)" "kmem.more s3 = kmem.more s1"
    and fr3: "\<And>x. x \<notin> ?new \<Longrightarrow> kmem_mem s3 x = kmem_mem s1 x"
    using copy_to_heap [OF refl s1(4) lt s1(2) inv1 assms(10,11) src] by metis
  have "kmem_mem s3 x = kmem_mem s1 x" if "x \<in> ?own" for x using that assms(12) by (intro fr3) auto
  note rd = ext2_reader_frame [OF s1(1) this s3(6)]
  have "mdesc_get_lexem fs sp fd s = Some (s3, g + 24)" using run s3(1,2) assms(2) by simp
  with rd s1(3) s3(3-5) fr1 fr3 show ?thesis by (intro exI [of _ s3]) simp
qed

text \<open>
  C20: When the reference finds no further word, the result is \<^const>\<open>NULL\<close> and the file has been read to its end.
  In particular, a last word without a separator behind it is lost.
\<close>

theorem get_lexem_loses_last_word:
  assumes "ext2_reader d0 dp drive fs fd ino bbuf k sz s"
    and "unat sp + 263 < 2 ^ 64" "\<forall>x. in_range sp 263 x \<longrightarrow> x \<notin> file_own fs fd ino bbuf k"
    and "ext2_left d0 fd ino k sz s = w" "length w < 255" "set w \<inter> set (QUOTE # mdesc_wspaces) = {}"
  shows "\<exists>s'. mdesc_get_lexem fs sp fd s = Some (s', NULL) \<and> ext2_left d0 fd ino k sz s' = []"
proof -
  have "lex_word q u = None" if "set u \<inter> set (QUOTE # mdesc_wspaces) = {}" for q u
    using that by (induction u) auto
  moreover have "dropWhile (\<lambda>c. c \<in> set mdesc_wspaces) w = w" using assms(6) by (cases w) auto
  ultimately have "lexem w = None" using assms(6) by (cases w) (auto simp: lexem_def)
  then show ?thesis
    using ext2_bytes.get_lexem_end [OF conjI [OF assms(1) refl] reader_frame [OF assms(2,3)]] unfolding assms(4) using assms(5) by blast
qed

text \<open>The small file system again, and a file in which the bytes count up from zero.\<close>

definition demo_ext2 :: "unit machine_ext file_system" where
  "demo_ext2 = \<lparr>fs_hooks = None, fs_drive = pio_ops (ata_hw demo_dev) 0x8000 demo_drive, fs_gdata = demo_sb,
     fs_name = [], fd_size = 40, dit_size = 0, fs_create = \<lambda>_ _ _ _ _. None, fs_unlink = \<lambda>_ _ _ _. None,
     fs_rename = \<lambda>_ _ _ _ _. None, fs_open = \<lambda>_ _ _ _ _ _. None, fs_close = \<lambda>_ _ _. None, fs_get_size = \<lambda>_ _ _. 0,
     fs_seek = fs_ext2_seek, fs_read = fs_ext2_read,
     fs_write = \<lambda>_ _ _ _ s. None, dir_iter_start = \<lambda>_ _ _ _ _. None, dir_iter_next = \<lambda>_ _ _ _. None\<rparr>"

lemma demo_truncate: "fs_handle.truncate demo_ext2 = demo_handle"
  by (simp add: fs_handle.defs demo_ext2_def demo_handle_def)

lemma demo_file_byte: "p < 1500 \<Longrightarrow> file_byte (disk_of demo_dev demo_open) 2 demo_ino demo_open p = of_nat p"
proof -
  assume p: "p < 1500"
  show "file_byte (disk_of demo_dev demo_open) 2 demo_ino demo_open p = of_nat p"
  proof (cases "p < 1024")
    case True
    then have "p div 1024 = 0" by simp
    with True show ?thesis by (simp add: file_byte_def file_block_def block_ref_def demo_open_fields demo_open_disk)
  next
    case False
    with p have "p div 1024 = 1" "p mod 1024 = p - 1024" by (simp_all add: div_nat_eqI mod_if)
    moreover have "(of_nat (7168 + (p - 1024)) :: u8) = of_nat p"
    proof -
      have "7168 + (p - 1024) = p + 24 * 256" using False by simp
      moreover have "(of_nat (24 * 256) :: u8) = 0" by simp
      ultimately show ?thesis by (metis of_nat_add add.right_neutral)
    qed
    ultimately show ?thesis by (simp add: file_byte_def file_block_def block_ref_def demo_open_fields demo_open_disk)
  qed
qed

lemma demo_reading:
  assumes "pos < 1500"
  obtains s where "ext2_reader demo_dev 0x8000 demo_drive demo_ext2 0x400000 demo_ino 0x300000 2 1500 s"
    "ext2_left demo_dev 0x400000 demo_ino 2 1500 s = map of_nat [pos..<1500]"
    "kmem_inv [(KMEM_HEAP_BASE, 4096)] s" "kmem_spinlock s = 0"
proof -
  have u: "sint (of_nat pos :: u64) = int pos" using assms by (simp add: sint_64 unat_of_nat_64)
  obtain s where s: "kmem.more s = kmem.more demo_open" "fd_pos 0x400000 2 s = pos"
    "file_at demo_handle 0x400000 demo_ino 0x300000 2 (disk_of demo_dev demo_open) 1500 pos s"
    "\<And>p. file_byte (disk_of demo_dev demo_open) 2 demo_ino s p = file_byte (disk_of demo_dev demo_open) 2 demo_ino demo_open p"
    "kmem_spinlock s = kmem_spinlock demo_open" "\<And>x. \<not> in_range 0x400018 8 x \<Longrightarrow> kmem_mem s x = kmem_mem demo_open x"
    using seek_position [OF demo_open_file, of FS_SEEK_BEGIN "of_nat pos" pos] assms u
    by (auto simp: sought_def clipped_def FS_SEEK_BEGIN_def FS_SEEK_CUR_def)
  note mf = pio.more_frame [OF s(1)]
  have d: "disk_of demo_dev s = disk_of demo_dev demo_open" by (rule mf)
  have "drives demo_dev demo_drive \<and> sel_ok demo_dev 0x8000 s"
    using mf(1) [of demo_dev demo_drive "0x8000"] demo_drive_ok(1) demo_open_disk(2) by simp
  then have "ext2_reader demo_dev 0x8000 demo_drive demo_ext2 0x400000 demo_ino 0x300000 2 1500 s"
    using s(2,3) by (simp add: ext2_reader_def demo_truncate d) (simp add: demo_ext2_def)
  moreover have "ext2_left demo_dev 0x400000 demo_ino 2 1500 s = map of_nat [pos..<1500]"
    by (simp add: ext2_left_def s(2,4) d demo_file_byte)
  moreover have "kmem_inv [(KMEM_HEAP_BASE, 4096)] s"
  proof (rule heap_unchanged)
    show "kmem_inv [(KMEM_HEAP_BASE, 4096)] demo_fs" using demo_ready by (simp add: fs_ready_def)
    fix c :: blk and x
    assume "c \<in> set [(KMEM_HEAP_BASE, 4096)]" "in_range (fst c) 24 x"
    then have x: "0x200000 \<le> unat x" "unat x < 0x200018" by (simp_all add: KMEM_HEAP_BASE_def in_range_unat)
    then have "x \<notin> {0x200304, 0x200305, 0x20032C, 0x400009, 0x40000A, 0x400012, 0x40001C, 0x40001D, 0x400020}" by auto
    moreover have "\<not> in_range 0x400018 8 x" using x by (simp add: in_range_unat)
    ultimately show "kmem_mem s x = kmem_mem demo_fs x" using s(6) by (simp add: demo_open_def demo_fs_def)
  qed
  moreover have "kmem_spinlock s = 0" using s(5) by (simp add: demo_open_def demo_fs_def demo_machine_def)
  ultimately show thesis by (rule that)
qed

lemma demo_frame: "unat (0x600000 :: u64) + 263 < 2 ^ 64"
  "\<forall>x. in_range 0x600000 263 x \<longrightarrow> x \<notin> file_own demo_ext2 0x400000 demo_ino 0x300000 2"
  by (auto simp: file_own_def in_range_unat demo_ino_def demo_sb_def sb_at_def sb_offsets fs_sb_def gdata_layout_def pad_def demo_ext2_def)

lemma demo_place: "place 3 1 [(KMEM_HEAP_BASE, 4096)] = ([(KMEM_HEAP_BASE, 4096), (0x201018, 3)], 0x201018, False)"
  "room 3 1 [(KMEM_HEAP_BASE, 4096)]"
  by (simp_all add: place_def fit_pos_def align_up_def blk_end_def KMEM_HEAP_BASE_def room_def)

lemma demo_new_block:
  "\<forall>x \<in> new_block [(KMEM_HEAP_BASE, 4096), (0x201018, 3)] 0x201018 3. x \<notin> file_own demo_ext2 0x400000 demo_ino 0x300000 2 \<and> \<not> in_range 0x600000 263 x"
  by (auto simp: new_block_def file_own_def in_range_unat demo_ino_def demo_sb_def sb_at_def sb_offsets fs_sb_def gdata_layout_def pad_def
      demo_ext2_def KMEM_HEAP_BASE_def)

theorem get_lexem_finds_the_word_witness:
  "\<exists>s s'. ext2_left demo_dev 0x400000 demo_ino 2 1500 s = map of_nat [779..<1500] \<and>
    mdesc_get_lexem demo_ext2 0x600000 0x400000 s = Some (s', 0x201030) \<and> cstr_at (kmem_mem s') 0x201030 [11, 12] \<and>
    ext2_left demo_dev 0x400000 demo_ino 2 1500 s' = map of_nat [782..<1500]"
proof -
  have l: "(779 :: nat) < 1500" by simp
  obtain s where s: "ext2_reader demo_dev 0x8000 demo_drive demo_ext2 0x400000 demo_ino 0x300000 2 1500 s"
    "ext2_left demo_dev 0x400000 demo_ino 2 1500 s = map of_nat [779..<1500]"
    "kmem_inv [(KMEM_HEAP_BASE, 4096)] s" "kmem_spinlock s = 0"
    using demo_reading [OF l] .
  have "[779..<1500] = 779 # 780 # 781 # [782..<1500 :: nat]" by (simp add: upt_conv_Cons)
  then have w: "lexem (ext2_left demo_dev 0x400000 demo_ino 2 1500 s) = Some ([11, 12], map of_nat [782..<1500])"
    unfolding s(2) by (simp add: lexem_def mdesc_wspaces_def QUOTE_def)
  have h: "fs_hooks demo_ext2 = None" by (simp add: demo_ext2_def)
  have n: "of_nat (length [11, 12 :: u8]) + 1 = (3 :: u64)" "length [11, 12 :: u8] + 1 = 3" by simp_all
  from get_lexem_finds_the_word [OF s(1) h demo_frame w _ _ s(4,3), unfolded n, OF _ _ demo_place(2,1) demo_new_block]
  obtain s' where "mdesc_get_lexem demo_ext2 0x600000 0x400000 s = Some (s', 0x201018 + 24)" "cstr_at (kmem_mem s') (0x201018 + 24) [11, 12]"
    "ext2_left demo_dev 0x400000 demo_ino 2 1500 s' = map of_nat [782..<1500]" by fastforce
  moreover have "(0x201018 :: u64) + 24 = 0x201030" by simp
  ultimately show ?thesis using s(2) by metis
qed

theorem get_lexem_loses_last_word_witness:
  "\<exists>s s'. ext2_left demo_dev 0x400000 demo_ino 2 1500 s = [218, 219] \<and>
    mdesc_get_lexem demo_ext2 0x600000 0x400000 s = Some (s', NULL) \<and> ext2_left demo_dev 0x400000 demo_ino 2 1500 s' = []"
proof -
  have l: "(1498 :: nat) < 1500" by simp
  obtain s where s: "ext2_reader demo_dev 0x8000 demo_drive demo_ext2 0x400000 demo_ino 0x300000 2 1500 s"
    "ext2_left demo_dev 0x400000 demo_ino 2 1500 s = map of_nat [1498..<1500]"
    using demo_reading [OF l] by metis
  have "[1498..<1500] = [1498, 1499 :: nat]" by (simp add: upt_conv_Cons)
  then have w: "ext2_left demo_dev 0x400000 demo_ino 2 1500 s = [218, 219]" unfolding s(2) by simp
  from get_lexem_loses_last_word [OF s(1) demo_frame this] w show ?thesis
    by (auto simp: mdesc_wspaces_def QUOTE_def)
qed

end
