(* ===== verification/Descriptors.thy ===== *)
theory Descriptors
  imports Prelude
begin

unbundle bit_operations_syntax

text \<open>
  The descriptor tables of the processor: the GDT (\<^verbatim>\<open>cpu/x86/gdt.c\<close>, \<^verbatim>\<open>gdt.h\<close> and \<^verbatim>\<open>gdt.s\<close>), the IDT
  (\<^verbatim>\<open>cpu/x86/idt.c\<close>, \<^verbatim>\<open>idt.h\<close>) and the generic interface to it (\<^verbatim>\<open>cpu/cpu_int.c\<close>). The static tables are
  records; the addresses that the linker gives to them and to the interrupt stubs are arguments.
\<close>

section \<open>Global descriptor table\<close>

definition GDT_MAX_SIZE :: nat where "GDT_MAX_SIZE = 65536"

definition GDT_DESC_ACCESS :: u8 where "GDT_DESC_ACCESS = 0x01"
definition GDT_DESC_READWRITE :: u8 where "GDT_DESC_READWRITE = 0x02"
definition GDT_DESC_EXECUTABLE :: u8 where "GDT_DESC_EXECUTABLE = 0x08"
definition GDT_DESC_CODE_DATA :: u8 where "GDT_DESC_CODE_DATA = 0x10"
definition GDT_DESC_DPL :: u8 where "GDT_DESC_DPL = 0x60"
definition GDT_DESC_PRESENT :: u8 where "GDT_DESC_PRESENT = 0x80"
definition GDT_GRANULARITY_X64 :: u8 where "GDT_GRANULARITY_X64 = 0x20"
definition GDT_GRANULARITY_X32 :: u8 where "GDT_GRANULARITY_X32 = 0x40"
definition GDT_GRANULARITY_4K :: u8 where "GDT_GRANULARITY_4K = 0x80"

definition GDT_BASIC_DESC :: u8 where
  "GDT_BASIC_DESC = GDT_DESC_PRESENT OR GDT_DESC_READWRITE OR GDT_DESC_CODE_DATA"

definition GDT_BASIC_GRANULARITY :: u8 where
  "GDT_BASIC_GRANULARITY = GDT_GRANULARITY_X64 OR GDT_GRANULARITY_4K"

text \<open>A descriptor, and the structure behind a task state descriptor, with offset and size of each field.\<close>

datatype gdt_field = Gdt_limit | Gdt_base_low | Gdt_base_mid | Gdt_flags | Gdt_granularity | Gdt_base_high

definition gdt_desc_layout :: "(gdt_field \<times> nat \<times> nat) list" where
  "gdt_desc_layout =
     [(Gdt_limit, 2, 1), (Gdt_base_low, 2, 1), (Gdt_base_mid, 1, 1), (Gdt_flags, 1, 1), (Gdt_granularity, 1, 1), (Gdt_base_high, 1, 1)]"

definition sizeof_gdt_desc :: nat where "sizeof_gdt_desc = struct_end 0 gdt_desc_layout"

definition gdt_off :: "gdt_field \<Rightarrow> nat" where "gdt_off f = offset_from 0 gdt_desc_layout f"

datatype tss_field = Tss_resv0 | Tss_rsp | Tss_resv1 | Tss_ist | Tss_resv2 | Tss_resv3 | Tss_io_map

definition gdt_tss_layout :: "(tss_field \<times> nat \<times> nat) list" where
  "gdt_tss_layout =
     [(Tss_resv0, 4, 1), (Tss_rsp, 24, 1), (Tss_resv1, 8, 1), (Tss_ist, 56, 1), (Tss_resv2, 8, 1), (Tss_resv3, 2, 1), (Tss_io_map, 2, 1)]"

definition sizeof_tss :: nat where "sizeof_tss = struct_end 0 gdt_tss_layout"

record gdt_st =
  gdt_tab :: "nat \<Rightarrow> u8"
  gdt_last_off :: u32
  gdt_limit :: u16
  gdt_base :: addr
  gdtr :: "(u16 \<times> addr) option"
  code_sel :: u16
  data_sel :: u16

definition put_desc :: "nat \<Rightarrow> u64 \<Rightarrow> u16 \<Rightarrow> u8 \<Rightarrow> u8 \<Rightarrow> (nat \<Rightarrow> u8) \<Rightarrow> nat \<Rightarrow> u8" where
  "put_desc p base limit access granularity t =
     t(p + gdt_off Gdt_base_low := ucast (base AND 0xFFFF),
       p + gdt_off Gdt_base_low + 1 := ucast (drop_bit 8 (base AND 0xFFFF)),
       p + gdt_off Gdt_base_mid := ucast (drop_bit 16 base AND 0xFF),
       p + gdt_off Gdt_base_high := ucast (drop_bit 24 base AND 0xFF),
       p + gdt_off Gdt_limit := ucast limit,
       p + gdt_off Gdt_limit + 1 := ucast (drop_bit 8 limit),
       p + gdt_off Gdt_flags := access,
       p + gdt_off Gdt_granularity := granularity)"

definition gdt_add_desc :: "u64 \<Rightarrow> u16 \<Rightarrow> u8 \<Rightarrow> u8 \<Rightarrow> gdt_st \<Rightarrow> gdt_st \<times> u32" where
  "gdt_add_desc base limit access granularity g =
     (if ucast (gdt_last_off g) \<ge> (of_nat GDT_MAX_SIZE - of_nat sizeof_gdt_desc - 1 :: u64) then (g, - 1)
      else
        let g1 = g\<lparr>gdt_tab := put_desc (unat (gdt_last_off g)) base limit access granularity (gdt_tab g),
                   gdt_last_off := gdt_last_off g + of_nat sizeof_gdt_desc\<rparr>
        in (g1, gdt_last_off g1 - of_nat sizeof_gdt_desc))"

definition gdt_add_tss_desc :: "addr \<Rightarrow> gdt_st \<Rightarrow> gdt_st \<times> u32" where
  "gdt_add_tss_desc gd =
     gdt_add_desc gd (of_nat sizeof_tss) (GDT_DESC_PRESENT OR GDT_DESC_EXECUTABLE OR GDT_DESC_ACCESS) GDT_GRANULARITY_X32"

text \<open>The routine in assembler: the table register, the code segment by a far return and the data segments.\<close>

definition gdt_reload :: "u16 \<Rightarrow> u16 \<Rightarrow> gdt_st \<Rightarrow> gdt_st" where
  "gdt_reload code data g = g\<lparr>gdtr := Some (gdt_limit g, gdt_base g), code_sel := code, data_sel := data\<rparr>"

definition gdt_init :: "addr \<Rightarrow> gdt_st \<Rightarrow> gdt_st" where
  "gdt_init base g0 =
     (let X = GDT_DESC_EXECUTABLE; D = GDT_BASIC_DESC; g32 = GDT_GRANULARITY_X32 OR GDT_GRANULARITY_4K;
          g = g0\<lparr>gdt_limit := of_nat (GDT_MAX_SIZE - 1), gdt_base := base\<rparr>;
          (g, _) = gdt_add_desc 0 0 0 0 g;
          (g, _) = gdt_add_desc 0 0xFFFF (D OR X) 0 g;
          (g, _) = gdt_add_desc 0 0xFFFF D 0 g;
          (g, _) = gdt_add_desc 0 0xFFFF (D OR X) g32 g;
          (g, _) = gdt_add_desc 0 0xFFFF D g32 g;
          (g, kernel_code_off) = gdt_add_desc 0 0 (D OR X) GDT_BASIC_GRANULARITY g;
          (g, kernel_data_off) = gdt_add_desc 0 0 D GDT_BASIC_GRANULARITY g;
          (g, _) = gdt_add_desc 0 0 (D OR X OR GDT_DESC_DPL) GDT_BASIC_GRANULARITY g;
          (g, _) = gdt_add_desc 0 0 (D OR GDT_DESC_DPL) GDT_BASIC_GRANULARITY g
      in gdt_reload (ucast kernel_code_off) (ucast kernel_data_off) g)"

section \<open>Interrupt descriptor table\<close>

record idt_entry =
  offset_lo :: u16
  seg_select :: u16
  ist :: u8
  type_attributes :: u8
  offset_lo2 :: u16
  offset_hi :: u32
  idt_resv0 :: u32

definition IDT_VECTOR_SIZE :: nat where "IDT_VECTOR_SIZE = 256"
definition ISR_STUB_TABLE_SIZE :: nat where "ISR_STUB_TABLE_SIZE = 47"
definition sizeof_idt_entry :: nat where "sizeof_idt_entry = 16"

record idt_st =
  idt_main :: "idt_entry list"
  idtr :: "(u16 \<times> addr) option"

definition X86_IDT_GET_OFFSET :: "idt_entry \<Rightarrow> u64" where
  "X86_IDT_GET_OFFSET e = ucast (offset_lo e) OR push_bit 16 (ucast (offset_lo2 e)) OR push_bit 32 (ucast (offset_hi e))"

definition X86_IDT_SET_OFFSET :: "u64 \<Rightarrow> idt_entry \<Rightarrow> idt_entry" where
  "X86_IDT_SET_OFFSET offset e =
     e\<lparr>offset_lo := ucast (offset AND 0xFFFF), offset_lo2 := ucast (drop_bit 16 offset AND 0xFFFF),
       offset_hi := ucast (drop_bit 32 offset AND 0xFFFFFFFF)\<rparr>"

definition set_idt_gate :: "u64 \<Rightarrow> u64 \<Rightarrow> u8 \<Rightarrow> idt_st \<Rightarrow> idt_st \<times> int" where
  "set_idt_gate val gate attrs s =
     (if gate \<ge> of_nat IDT_VECTOR_SIZE then (s, 0)
      else (s\<lparr>idt_main := (idt_main s)[unat gate := (X86_IDT_SET_OFFSET val (idt_main s ! unat gate))
             \<lparr>seg_select := 0x28, type_attributes := attrs, ist := 1\<rparr>]\<rparr>, 1))"

definition null_gate :: idt_entry where
  "null_gate = \<lparr>offset_lo = 0, seg_select = 0, ist = 0, type_attributes = 0, offset_lo2 = 0, offset_hi = 0, idt_resv0 = 0\<rparr>"

text \<open>The addresses of the interrupt stubs are those of \<^verbatim>\<open>isr_stub_table\<close>, in assembler.\<close>

definition init_idt :: "addr \<Rightarrow> (nat \<Rightarrow> addr) \<Rightarrow> idt_st \<Rightarrow> idt_st" where
  "init_idt base isr_stub_table s =
     (let s1 = s\<lparr>idt_main := replicate IDT_VECTOR_SIZE null_gate\<rparr>;
          s2 = fold (\<lambda>i s. fst (set_idt_gate (isr_stub_table i) (of_nat i) 0x8E s)) [0..<ISR_STUB_TABLE_SIZE] s1
      in s2\<lparr>idtr := Some (of_nat (sizeof_idt_entry * IDT_VECTOR_SIZE - 1), base)\<rparr>)"

section \<open>Generic interrupts\<close>

definition X86_IDT_GATE_TYPE_TASK :: u8 where "X86_IDT_GATE_TYPE_TASK = 0x5"
definition X86_IDT_GATE_TYPE_INT32 :: u8 where "X86_IDT_GATE_TYPE_INT32 = 0xE"
definition X86_IDT_GATE_TYPE_TRAP32 :: u8 where "X86_IDT_GATE_TYPE_TRAP32 = 0xF"
definition X86_IDT_PRESENT :: u8 where "X86_IDT_PRESENT = 0x80"

definition CPU_INT_TYPE_INTERRUPT :: u8 where "CPU_INT_TYPE_INTERRUPT = 0"
definition CPU_INT_TYPE_TRAP :: u8 where "CPU_INT_TYPE_TRAP = 1"
definition CPU_INT_TYPE_TASK :: u8 where "CPU_INT_TYPE_TASK = 2"

definition cpu_interrupt_init :: "addr \<Rightarrow> (nat \<Rightarrow> addr) \<Rightarrow> idt_st \<Rightarrow> idt_st" where
  "cpu_interrupt_init = init_idt"

definition cpu_interrupt_set_gate :: "u64 \<Rightarrow> u32 \<Rightarrow> u8 \<Rightarrow> idt_st \<Rightarrow> idt_st \<times> int" where
  "cpu_interrupt_set_gate val slot type =
     set_idt_gate val (ucast slot)
       (if type = CPU_INT_TYPE_INTERRUPT then X86_IDT_PRESENT OR X86_IDT_GATE_TYPE_INT32
        else if type = CPU_INT_TYPE_TRAP then X86_IDT_PRESENT OR X86_IDT_GATE_TYPE_TRAP32
        else if type = CPU_INT_TYPE_TASK then X86_IDT_PRESENT OR X86_IDT_GATE_TYPE_TASK
        else X86_IDT_PRESENT)"

lemmas gdt_access_bits =
  GDT_DESC_ACCESS_def GDT_DESC_READWRITE_def GDT_DESC_EXECUTABLE_def GDT_DESC_CODE_DATA_def GDT_DESC_DPL_def
  GDT_DESC_PRESENT_def GDT_BASIC_DESC_def

lemmas gdt_granularity_bits =
  GDT_GRANULARITY_X64_def GDT_GRANULARITY_X32_def GDT_GRANULARITY_4K_def GDT_BASIC_GRANULARITY_def

lemmas interrupt_types =
  CPU_INT_TYPE_INTERRUPT_def CPU_INT_TYPE_TRAP_def CPU_INT_TYPE_TASK_def X86_IDT_PRESENT_def
  X86_IDT_GATE_TYPE_INT32_def X86_IDT_GATE_TYPE_TRAP32_def X86_IDT_GATE_TYPE_TASK_def

section \<open>What the processor reads from the GDT\<close>

text \<open>
  The processor reads base, limit, access byte and granularity of a descriptor from fixed places of its eight
  bytes. The table that \<^verbatim>\<open>gdt_add_desc\<close> has built is the list of the descriptors up to the offset of the next.
\<close>

definition desc_at :: "(nat \<Rightarrow> u8) \<Rightarrow> nat \<Rightarrow> u32 \<times> u16 \<times> u8 \<times> u8" where
  "desc_at t p =
     (ucast (t (p + 2)) OR push_bit 8 (ucast (t (p + 3))) OR push_bit 16 (ucast (t (p + 4))) OR push_bit 24 (ucast (t (p + 7))),
      ucast (t p) OR push_bit 8 (ucast (t (p + 1))), t (p + 5), t (p + 6))"

definition gdt_count :: "gdt_st \<Rightarrow> nat" where "gdt_count g = unat (gdt_last_off g) div 8"

definition descs :: "gdt_st \<Rightarrow> (u32 \<times> u16 \<times> u8 \<times> u8) list" where
  "descs g = map (\<lambda>i. desc_at (gdt_tab g) (8 * i)) [0..<gdt_count g]"

definition gdt_ok :: "gdt_st \<Rightarrow> bool" where
  "gdt_ok g \<longleftrightarrow> unat (gdt_last_off g) = 8 * gdt_count g \<and> gdt_count g \<le> 8191"

lemma sizeof_gdt_desc_8 [simp]: "sizeof_gdt_desc = 8"
  by code_simp

lemma sizeof_tss_104 [simp]: "sizeof_tss = 104"
  by code_simp

lemma gdt_offsets [simp]:
  "gdt_off Gdt_limit = 0" "gdt_off Gdt_base_low = 2" "gdt_off Gdt_base_mid = 4" "gdt_off Gdt_flags = 5"
  "gdt_off Gdt_granularity = 6" "gdt_off Gdt_base_high = 7"
  by code_simp+

lemma base_from_bytes:
  fixes b :: u64
  shows "ucast (ucast (b AND 0xFFFF) :: u8) OR push_bit 8 (ucast (ucast (drop_bit 8 b AND 0xFF) :: u8))
     OR push_bit 16 (ucast (ucast (drop_bit 16 b AND 0xFF) :: u8)) OR push_bit 24 (ucast (ucast (drop_bit 24 b AND 0xFF) :: u8))
     = (ucast b :: u32)"
proof -
  have m: "(0xFFFF :: u64) = mask 16" "(0xFF :: u64) = mask 8"
    by (simp_all add: mask_eq_exp_minus_1)
  show ?thesis
    unfolding m
  proof (rule bit_word_eqI)
    fix n :: nat
    consider "n < 8" | "8 \<le> n" "n < 16" | "16 \<le> n" "n < 24" | "24 \<le> n"
      by linarith
    then show "bit (ucast (ucast (b AND mask 16) :: u8) OR push_bit 8 (ucast (ucast (drop_bit 8 b AND mask 8) :: u8))
        OR push_bit 16 (ucast (ucast (drop_bit 16 b AND mask 8) :: u8))
        OR push_bit 24 (ucast (ucast (drop_bit 24 b AND mask 8) :: u8)) :: u32) n = bit (ucast b :: u32) n"
      by cases (auto simp: bit_simps)
  qed
qed

lemma limit_from_bytes:
  fixes l :: u16
  shows "ucast (ucast l :: u8) OR push_bit 8 (ucast (ucast (drop_bit 8 l) :: u8)) = l"
  by (rule bit_word_eqI) (auto simp: bit_simps)

lemma desc_at_put_desc:
  "desc_at (put_desc p b l a gr t) p = (ucast b, l, a, gr)"
  by (simp add: desc_at_def put_desc_def base_from_bytes limit_from_bytes)

lemma put_desc_other:
  "q < p \<or> p + 8 \<le> q \<Longrightarrow> put_desc p b l a gr t q = t q"
  by (auto simp: put_desc_def)

lemma desc_at_cong:
  assumes "\<And>i. i < 8 \<Longrightarrow> t (p + i) = t' (p + i)"
  shows "desc_at t p = desc_at t' p"
  using assms [of 0] assms [of 1] assms [of 2] assms [of 3] assms [of 4] assms [of 5] assms [of 6] assms [of 7]
  by (simp add: desc_at_def)


lemma desc_at_put_desc_other:
  assumes "q + 8 \<le> p"
  shows "desc_at (put_desc p b l a gr t) q = desc_at t q"
  using assms by (intro desc_at_cong) (simp add: put_desc_other)

section \<open>Properties of the GDT\<close>

lemma gdt_add_desc_room:
  assumes "gdt_ok g" "gdt_count g < 8191"
  shows "\<exists>g'. gdt_add_desc base limit access granularity g = (g', of_nat (8 * gdt_count g)) \<and> gdt_ok g' \<and>
           gdt_count g' = gdt_count g + 1 \<and> descs g' = descs g @ [(ucast base, limit, access, granularity)]"
proof -
  let ?n = "gdt_count g"
  have off: "unat (gdt_last_off g) = 8 * ?n"
    using assms(1) by (simp add: gdt_ok_def)
  have room: "\<not> ucast (gdt_last_off g) \<ge> (65527 :: u64)"
    using assms(2) off by (simp add: word_le_nat_alt unat_ucast_up)
  let ?g = "g\<lparr>gdt_tab := put_desc (8 * ?n) base limit access granularity (gdt_tab g), gdt_last_off := gdt_last_off g + 8\<rparr>"
  have add: "gdt_add_desc base limit access granularity g = (?g, gdt_last_off g)"
    using room by (simp add: gdt_add_desc_def GDT_MAX_SIZE_def off Let_def)
  have off': "unat (gdt_last_off g + 8) = 8 * (?n + 1)"
    using assms(2) off by (simp add: unat_word_ariths)
  have cnt: "gdt_count ?g = ?n + 1"
    by (simp add: gdt_count_def off')
  have "descs ?g = map (\<lambda>i. desc_at (gdt_tab g) (8 * i)) [0..<?n] @ [(ucast base, limit, access, granularity)]"
    unfolding descs_def cnt by (simp add: desc_at_put_desc desc_at_put_desc_other)
  moreover have "gdt_last_off g = of_nat (8 * ?n)"
    unfolding off [symmetric] by simp
  ultimately show ?thesis
    using assms(2) add cnt off' by (auto simp: gdt_ok_def descs_def)
qed

lemma gdt_add_desc_full:
  assumes "gdt_ok g" "\<not> gdt_count g < 8191"
  shows "gdt_add_desc base limit access granularity g = (g, - 1)"
proof -
  have "unat (gdt_last_off g) = 65528"
    using assms by (simp add: gdt_ok_def)
  then have "ucast (gdt_last_off g) \<ge> (65527 :: u64)"
    by (simp add: word_le_nat_alt unat_ucast_up)
  then show ?thesis
    by (simp add: gdt_add_desc_def GDT_MAX_SIZE_def)
qed

text \<open>
  C24: Adding a descriptor appends it, with the low 32 bits of its base, to the list of descriptors the
  processor sees and returns its offset in the table. The last of the 8192 places is never used: at 8191
  descriptors the result is -1 and the table is left as it was.
\<close>

theorem gdt_add_desc_appends:
  assumes "gdt_ok g"
  shows "if gdt_count g < 8191
         then \<exists>g'. gdt_add_desc base limit access granularity g = (g', of_nat (8 * gdt_count g)) \<and> gdt_ok g' \<and>
                gdt_count g' = gdt_count g + 1 \<and> descs g' = descs g @ [(ucast base, limit, access, granularity)]
         else gdt_add_desc base limit access granularity g = (g, - 1)"
  using assms gdt_add_desc_room gdt_add_desc_full by simp

definition gdt_0 :: gdt_st where
  "gdt_0 = \<lparr>gdt_tab = \<lambda>_. 0, gdt_last_off = 0, gdt_limit = 0, gdt_base = 0, gdtr = None, code_sel = 0, data_sel = 0\<rparr>"

theorem gdt_add_desc_appends_witness:
  "\<exists>g'. gdt_add_desc 0x123456789 0xFFFF 0x9A 0 gdt_0 = (g', 0) \<and> descs g' = [(0x23456789, 0xFFFF, 0x9A, 0)]"
  using gdt_add_desc_appends [of gdt_0 "0x123456789" "0xFFFF" "0x9A" 0]
  by (auto simp: gdt_ok_def gdt_count_def gdt_0_def descs_def)


lemma gdt_add_desc_keeps:
  "gdt_limit (fst (gdt_add_desc b l a gr g)) = gdt_limit g" "gdt_base (fst (gdt_add_desc b l a gr g)) = gdt_base g"
  by (simp_all add: gdt_add_desc_def Let_def)

lemma gdt_init_code_sel: "code_sel (gdt_init base gdt_0) = 0x28"
  by (simp add: gdt_init_def gdt_add_desc_def Let_def GDT_MAX_SIZE_def gdt_0_def gdt_reload_def)

text \<open>
  Starting from the empty static table, \<^verbatim>\<open>gdt_init\<close> builds nine descriptors, loads the table of 65536 bytes and
  leaves the processor on selector 0x28 for code and 0x30 for data. The selector that \<^verbatim>\<open>set_idt_gate\<close> writes into
  every gate is the one of the code descriptor; the comment in the source puts it on the data descriptor.
\<close>

theorem gdt_init_loads_flat_segments:
  "let g = gdt_init base gdt_0 in
     descs g = [(0, 0, 0, 0), (0, 0xFFFF, 0x9A, 0), (0, 0xFFFF, 0x92, 0), (0, 0xFFFF, 0x9A, 0xC0), (0, 0xFFFF, 0x92, 0xC0),
                (0, 0, 0x9A, 0xA0), (0, 0, 0x92, 0xA0), (0, 0, 0xFA, 0xA0), (0, 0, 0xF2, 0xA0)] \<and>
     gdt_ok g \<and> gdtr g = Some (0xFFFF, base) \<and> code_sel g = 0x28 \<and> data_sel g = 0x30 \<and>
     descs g ! 5 = (0, 0, GDT_BASIC_DESC OR GDT_DESC_EXECUTABLE, GDT_BASIC_GRANULARITY) \<and>
     seg_select (idt_main (fst (set_idt_gate val 0 attrs \<lparr>idt_main = replicate 256 null_gate, idtr = None\<rparr>)) ! 0) = code_sel g"
  by (simp add: gdt_init_def gdt_add_desc_def Let_def GDT_MAX_SIZE_def gdt_0_def gdt_reload_def descs_def gdt_count_def
      gdt_ok_def upt_rec desc_at_put_desc desc_at_put_desc_other gdt_access_bits gdt_granularity_bits
      set_idt_gate_def IDT_VECTOR_SIZE_def X86_IDT_SET_OFFSET_def)

text \<open>
  In long mode the descriptor of a task state segment takes sixteen bytes: the eight of an ordinary descriptor,
  the upper half of the base and four reserved bytes.
\<close>

definition tss_base :: "(nat \<Rightarrow> u8) \<Rightarrow> nat \<Rightarrow> u64" where
  "tss_base t p =
     ucast (fst (desc_at t p)) OR push_bit 32 (ucast (t (p + 8))) OR push_bit 40 (ucast (t (p + 9)))
       OR push_bit 48 (ucast (t (p + 10))) OR push_bit 56 (ucast (t (p + 11)))"

lemma gdt_add_desc_tab:
  assumes "gdt_ok g" "gdt_count g < 8191"
  shows "gdt_tab (fst (gdt_add_desc b l ac gr g)) = put_desc (8 * gdt_count g) b l ac gr (gdt_tab g)"
  using assms by (simp add: gdt_add_desc_def GDT_MAX_SIZE_def Let_def gdt_ok_def word_le_nat_alt unat_ucast_up)

lemma low_base_bits: "ucast (ucast (a :: u64) :: u32) = a AND mask 32"
  by (rule bit_word_eqI) (auto simp: bit_simps)

lemma next_slot_bits:
  fixes b :: u64
  shows "push_bit 32 104 OR push_bit 48 (ucast (ucast (b AND 0xFFFF) :: u8)) OR push_bit 56 (ucast (ucast (drop_bit 8 b AND 0xFF) :: u8))
     = (push_bit 32 (104 OR push_bit 16 (b AND mask 16)) :: u64)"
proof -
  have m: "(0xFFFF :: u64) = mask 16" "(0xFF :: u64) = mask 8"
    by (simp_all add: mask_eq_exp_minus_1)
  have "push_bit 48 (ucast (ucast (b AND mask 16) :: u8)) OR push_bit 56 (ucast (ucast (drop_bit 8 b AND mask 8) :: u8))
      = (push_bit 48 (b AND mask 16) :: u64)" (is "?l = ?r")
  proof (rule bit_word_eqI)
    fix n :: nat
    consider "n < 48" | "48 \<le> n" "n < 56" | "56 \<le> n"
      by linarith
    then show "bit ?l n = bit ?r n"
      by cases (auto simp: bit_simps)
  qed
  then show ?thesis
    unfolding m by (simp add: push_bit_or push_bit_push_bit or.assoc del: push_bit_numeral)
qed

text \<open>
  \<^verbatim>\<open>gdt_add_tss_desc\<close> reserves eight bytes only. The processor takes the upper half of the base from what
  follows in the table, and the next descriptor that is added writes its limit and the lower half of its base
  there. So after two task state segments in a row the base of the first one, if it is read again, has the size
  104 and the low bits of the address of the second one in its upper half.
\<close>

theorem tss_descriptor_overlaps_next:
  assumes "gdt_ok g" "gdt_count g < 8190"
    and "gdt_add_tss_desc a g = (g1, sel)" "gdt_add_tss_desc b g1 = (g2, sel2)"
  shows "sel2 = sel + 8 \<and>
     tss_base (gdt_tab g2) (unat sel) = (a AND mask 32) OR push_bit 32 (104 OR push_bit 16 (b AND mask 16))"
proof -
  let ?n = "gdt_count g"
  have g1: "gdt_ok g1" "gdt_count g1 = ?n + 1" "sel = of_nat (8 * ?n)" "gdt_tab g1 = put_desc (8 * ?n) a 104 0x89 0x40 (gdt_tab g)"
    using gdt_add_desc_room [OF assms(1), of a 104 "0x89" "0x40"] gdt_add_desc_tab [OF assms(1), of a 104 "0x89" "0x40"] assms(2,3)
    by (auto simp: gdt_add_tss_desc_def gdt_access_bits gdt_granularity_bits)
  have g2: "sel2 = of_nat (8 * (?n + 1))" "gdt_tab g2 = put_desc (8 * (?n + 1)) b 104 0x89 0x40 (gdt_tab g1)"
    using gdt_add_desc_room [OF g1(1), of b 104 "0x89" "0x40"] gdt_add_desc_tab [OF g1(1), of b 104 "0x89" "0x40"] assms(2,4) g1(2)
    by (auto simp: gdt_add_tss_desc_def gdt_access_bits gdt_granularity_bits)
  have sel: "unat sel = 8 * ?n"
    using assms(2) unfolding g1(3) unsigned_of_nat by (simp add: take_bit_nat_eq_self_iff)
  have "desc_at (gdt_tab g2) (8 * ?n) = (ucast a, 104, 0x89, 0x40)"
    by (simp add: g2(2) g1(4) desc_at_put_desc_other desc_at_put_desc)
  then have "tss_base (gdt_tab g2) (8 * ?n)
      = ucast (ucast a :: u32) OR (push_bit 32 104 OR push_bit 48 (ucast (ucast (b AND 0xFFFF) :: u8)) OR push_bit 56 (ucast (ucast (drop_bit 8 b AND 0xFF) :: u8)))"
    by (simp add: tss_base_def g2(2) put_desc_def or.assoc)
  then show ?thesis
    unfolding sel next_slot_bits low_base_bits by (simp add: g1(3) g2(1) algebra_simps)
qed

theorem tss_descriptor_overlaps_next_witness:
  "\<exists>g1 g2. gdt_add_tss_desc 0x200000 gdt_0 = (g1, 0) \<and> gdt_add_tss_desc 0x301000 g1 = (g2, 8) \<and>
     tss_base (gdt_tab g2) 0 = 0x1000006800200000"
proof -
  obtain g1 s1 where g1: "gdt_add_tss_desc 0x200000 gdt_0 = (g1, s1)" by force
  obtain g2 s2 where g2: "gdt_add_tss_desc 0x301000 g1 = (g2, s2)" by force
  have ok: "gdt_ok gdt_0" "gdt_count gdt_0 = 0"
    by (simp_all add: gdt_ok_def gdt_count_def gdt_0_def)
  have "s1 = 0"
    using g1 by (auto simp: gdt_add_tss_desc_def gdt_add_desc_def gdt_0_def GDT_MAX_SIZE_def Let_def)
  then show ?thesis
    using tss_descriptor_overlaps_next [OF ok(1) _ g1 g2] ok(2) g1 g2 by (simp add: mask_eq_exp_minus_1)
qed

section \<open>Properties of the IDT\<close>

lemma idt_offset_bits:
  fixes v :: u64
  shows "ucast (ucast (v AND 0xFFFF) :: u16) OR push_bit 16 (ucast (ucast (drop_bit 16 v AND 0xFFFF) :: u16))
     OR push_bit 32 (ucast (ucast (drop_bit 32 v AND 0xFFFFFFFF) :: u32)) = v"
proof -
  have m: "(0xFFFF :: u64) = mask 16" "(0xFFFFFFFF :: u64) = mask 32"
    by (simp_all add: mask_eq_exp_minus_1)
  show ?thesis
    unfolding m
  proof (rule bit_word_eqI)
    fix n :: nat
    assume "n < LENGTH(64)"
    then consider "n < 16" | "16 \<le> n" "n < 32" | "32 \<le> n" "n < 64"
      by force
    then show "bit (ucast (ucast (v AND mask 16) :: u16) OR push_bit 16 (ucast (ucast (drop_bit 16 v AND mask 16) :: u16))
        OR push_bit 32 (ucast (ucast (drop_bit 32 v AND mask 32) :: u32)) :: u64) n = bit v n"
      by cases (auto simp: bit_simps)
  qed
qed

lemma idt_offset_roundtrip [simp]: "X86_IDT_GET_OFFSET (X86_IDT_SET_OFFSET v e) = v"
  by (simp add: X86_IDT_GET_OFFSET_def X86_IDT_SET_OFFSET_def idt_offset_bits)

lemma idt_get_offset_other [simp]:
  "X86_IDT_GET_OFFSET (e\<lparr>seg_select := a, type_attributes := b, ist := c\<rparr>) = X86_IDT_GET_OFFSET e"
  by (simp add: X86_IDT_GET_OFFSET_def)

text \<open>What the processor takes from a gate: target address, selector, stack number and attributes.\<close>

definition gate_of :: "idt_entry \<Rightarrow> u64 \<times> u16 \<times> u8 \<times> u8" where
  "gate_of e = (X86_IDT_GET_OFFSET e, seg_select e, ist e, type_attributes e)"

definition gates :: "idt_st \<Rightarrow> (u64 \<times> u16 \<times> u8 \<times> u8) list" where "gates s = map gate_of (idt_main s)"

lemma set_idt_gate_gates:
  assumes "length (idt_main s) = 256"
  shows "if gate < 256
         then gates (fst (set_idt_gate v gate at s)) = (gates s)[unat gate := (v, 0x28, 1, at)] \<and>
              length (idt_main (fst (set_idt_gate v gate at s))) = 256 \<and> idtr (fst (set_idt_gate v gate at s)) = idtr s \<and>
              snd (set_idt_gate v gate at s) = 1
         else set_idt_gate v gate at s = (s, 0)"
  by (simp add: set_idt_gate_def IDT_VECTOR_SIZE_def gates_def gate_of_def map_update assms not_less)

text \<open>
  C25: \<^verbatim>\<open>cpu_interrupt_set_gate\<close> refuses a vector beyond the table and changes nothing; otherwise the gate holds
  the full 64-bit address, the kernel code selector, stack 1 and the attributes of its type, and every other
  gate is as before.
\<close>

theorem cpu_interrupt_set_gate_spec:
  assumes "length (idt_main s) = 256"
  shows "cpu_interrupt_set_gate v slot type s = (s, 0) \<and> slot \<ge> 256 \<or>
     (\<exists>s'. slot < 256 \<and> cpu_interrupt_set_gate v slot type s = (s', 1) \<and> length (idt_main s') = 256 \<and> idtr s' = idtr s \<and>
        gates s' = (gates s)[unat slot :=
          (v, 0x28, 1, if type = 0 then 0x8E else if type = 1 then 0x8F else if type = 2 then 0x85 else 0x80)])"
proof -
  have lt: "(ucast slot :: u64) < 256 \<longleftrightarrow> slot < 256" "unat (ucast slot :: u64) = unat slot"
    by (simp_all add: word_less_nat_alt unat_ucast_up)
  show ?thesis
    using set_idt_gate_gates [OF assms, of "ucast slot" v] unfolding cpu_interrupt_set_gate_def lt
    by (cases "slot < 256") (simp_all add: interrupt_types prod_eq_iff not_less)
qed

theorem cpu_interrupt_set_gate_spec_witness:
  "\<exists>s'. cpu_interrupt_set_gate 0xFFFFFFFF80001234 0x30 0 \<lparr>idt_main = replicate 256 null_gate, idtr = None\<rparr> = (s', 1) \<and>
     gates s' ! 0x30 = (0xFFFFFFFF80001234, 0x28, 1, 0x8E)"
  using cpu_interrupt_set_gate_spec [of "\<lparr>idt_main = replicate 256 null_gate, idtr = None\<rparr>" "0xFFFFFFFF80001234" "0x30" 0]
  by (auto simp: gates_def)

lemma init_loop_gates:
  assumes "k \<le> 256" "length (idt_main s) = 256" "gates s = replicate 256 (0, 0, 0, 0)"
    and "s' = fold (\<lambda>i s. fst (set_idt_gate (stubs i) (of_nat i) at s)) [0..<k] s"
  shows "length (idt_main s') = 256 \<and> gates s' = map (\<lambda>i. if i < k then (stubs i, 0x28, 1, at) else (0, 0, 0, 0)) [0..<256]"
  unfolding assms(4) using assms(1)
proof (induction k)
  case 0
  then show ?case
    using assms by (simp add: map_replicate_const)
next
  case (Suc k)
  let ?s = "fold (\<lambda>i s. fst (set_idt_gate (stubs i) (of_nat i) at s)) [0..<k] s"
  have IH: "length (idt_main ?s) = 256" "gates ?s = map (\<lambda>i. if i < k then (stubs i, 0x28, 1, at) else (0, 0, 0, 0)) [0..<256]"
    using Suc by simp_all
  have k: "unat (of_nat k :: u64) = k"
    using Suc.prems by (intro unat_of_nat_64) simp
  then have "of_nat k < (256 :: u64)"
    using Suc.prems by (simp only: word_less_nat_alt) simp
  note k = this k
  have "(map (\<lambda>i. if i < k then (stubs i, 0x28, 1, at) else (0, 0, 0, 0)) [0..<256])[k := (stubs k, 0x28, 1, at)]
      = map (\<lambda>i. if i < Suc k then (stubs i, 0x28, 1, at) else (0, 0, 0, 0)) [0..<256]"
    using Suc.prems by (intro nth_equalityI) (auto simp: nth_list_update less_Suc_eq)
  then show ?case
    using set_idt_gate_gates [OF IH(1), of "of_nat k" "stubs k" at] k IH by simp
qed

text \<open>
  After \<^verbatim>\<open>init_idt\<close> the first 47 vectors, the exceptions and the interrupt lines 0 to 14 of the two interrupt
  controllers, lead to their stubs as present interrupt gates; all other gates are not present. Line 15, vector
  47, has a stub in the assembler table but no gate.
\<close>

lemma init_idt_gates:
  "gates (init_idt base stubs s) = map (\<lambda>i. if i < 47 then (stubs i, 0x28, 1, 0x8E) else (0, 0, 0, 0)) [0..<256] \<and>
   idtr (init_idt base stubs s) = Some (4095, base)"
proof -
  let ?s = "s\<lparr>idt_main := replicate IDT_VECTOR_SIZE null_gate\<rparr>"
  have "gates ?s = replicate 256 (0, 0, 0, 0)"
    by (simp add: gates_def IDT_VECTOR_SIZE_def gate_of_def null_gate_def X86_IDT_GET_OFFSET_def)
  then have "gates (fold (\<lambda>i s. fst (set_idt_gate (stubs i) (of_nat i) 0x8E s)) [0..<47] ?s)
      = map (\<lambda>i. if i < 47 then (stubs i, 0x28, 1, 0x8E) else (0, 0, 0, 0)) [0..<256]"
    using init_loop_gates [of 47 ?s _ stubs "0x8E", OF _ _ _ refl] by (simp add: IDT_VECTOR_SIZE_def)
  then show ?thesis
    by (simp add: init_idt_def Let_def ISR_STUB_TABLE_SIZE_def gates_def sizeof_idt_entry_def IDT_VECTOR_SIZE_def del: upt_rec_numeral)
qed

end
