(* ===== verification/Interrupts.thy ===== *)
theory Interrupts
  imports Cpu_io Descriptors
begin

unbundle bit_operations_syntax

text \<open>
  The devices behind the interrupts: the two interrupt controllers (\<^verbatim>\<open>cpu/x86/pic.c\<close>), the interval timer
  (\<^verbatim>\<open>pit.c\<close>) and the local APIC with its timer (\<^verbatim>\<open>apic.c\<close>), and the start-up of a processor
  (\<^verbatim>\<open>cpu/cpu_init.c\<close>) that uses them. The devices are the parameter of \<^theory_text>\<open>Cpu_io\<close>; the \<^verbatim>\<open>cpuid\<close> instruction
  is a function from leaf and sub-leaf to the four registers.
\<close>

section \<open>Interrupt controllers\<close>

definition PIC1_PORT_COMMAND :: u32 where "PIC1_PORT_COMMAND = 0x20"
definition PIC1_PORT_DATA :: u32 where "PIC1_PORT_DATA = PIC1_PORT_COMMAND + 1"
definition PIC2_PORT_COMMAND :: u32 where "PIC2_PORT_COMMAND = 0xA0"
definition PIC2_PORT_DATA :: u32 where "PIC2_PORT_DATA = PIC2_PORT_COMMAND + 1"

definition PIC_COMMAND_EOI :: u8 where "PIC_COMMAND_EOI = 0x20"
definition PIC_ICW1_ICW4 :: u8 where "PIC_ICW1_ICW4 = 0x01"
definition PIC_ICW1_INIT :: u8 where "PIC_ICW1_INIT = 0x10"
definition PIC_ICW4_8086 :: u8 where "PIC_ICW4_8086 = 0x01"

definition pic_send_eoi :: "u8 \<Rightarrow> io_hist \<Rightarrow> io_hist" where
  "pic_send_eoi irq h =
     (let h1 = (if irq \<ge> 8 then cpu_out8 PIC2_PORT_COMMAND PIC_COMMAND_EOI h else h)
      in cpu_out8 PIC1_PORT_COMMAND PIC_COMMAND_EOI h1)"

definition pic_remap_irqs :: "device \<Rightarrow> u8 \<Rightarrow> u8 \<Rightarrow> io_hist \<Rightarrow> io_hist" where
  "pic_remap_irqs dev master_off slave_off h =
     (let (h, mask1) = cpu_in8 dev PIC1_PORT_DATA h;
          (h, mask2) = cpu_in8 dev PIC2_PORT_DATA h;
          h = cpu_io_wait (cpu_out8 PIC1_PORT_COMMAND (PIC_ICW1_INIT OR PIC_ICW1_ICW4) h);
          h = cpu_io_wait (cpu_out8 PIC2_PORT_COMMAND (PIC_ICW1_INIT OR PIC_ICW1_ICW4) h);
          h = cpu_io_wait (cpu_out8 PIC1_PORT_DATA master_off h);
          h = cpu_io_wait (cpu_out8 PIC2_PORT_DATA slave_off h);
          h = cpu_io_wait (cpu_out8 PIC1_PORT_DATA 4 h);
          h = cpu_io_wait (cpu_out8 PIC2_PORT_DATA 2 h);
          h = cpu_io_wait (cpu_out8 PIC1_PORT_DATA PIC_ICW4_8086 h);
          h = cpu_io_wait (cpu_out8 PIC2_PORT_DATA PIC_ICW4_8086 h);
          h = cpu_out8 PIC1_PORT_DATA mask1 h
      in cpu_out8 PIC2_PORT_DATA mask2 h)"

text \<open>The register and the line within its controller; shifts are those of an \<^verbatim>\<open>int\<close>, cut to a byte when written.\<close>

definition pic_line :: "u8 \<Rightarrow> u32 \<times> u8" where
  "pic_line irq = (if irq < 8 then (PIC1_PORT_DATA, irq) else (PIC2_PORT_DATA, irq - 8))"

definition pic_set_mask :: "device \<Rightarrow> u8 \<Rightarrow> io_hist \<Rightarrow> io_hist" where
  "pic_set_mask dev irq h =
     (let (port, irq) = pic_line irq; (h, v) = cpu_in8 dev port h
      in cpu_out8 port (ucast ((ucast v :: u32) OR push_bit (unat irq) 1)) h)"

definition pic_clear_mask :: "device \<Rightarrow> u8 \<Rightarrow> io_hist \<Rightarrow> io_hist" where
  "pic_clear_mask dev irq h =
     (let (port, irq) = pic_line irq; (h, v) = cpu_in8 dev port h
      in cpu_out8 port (ucast ((ucast v :: u32) AND NOT (push_bit (unat irq) 1))) h)"

text \<open>The order of the two reads in one expression is left open by the language; it is taken from left to right.\<close>

definition pic_get_irq_register :: "device \<Rightarrow> u8 \<Rightarrow> io_hist \<Rightarrow> io_hist \<times> u16" where
  "pic_get_irq_register dev ocw3 h =
     (let h = cpu_out8 PIC1_PORT_COMMAND ocw3 h;
          h = cpu_out8 PIC2_PORT_COMMAND ocw3 h;
          (h, slave) = cpu_in8 dev PIC2_PORT_COMMAND h;
          (h, master) = cpu_in8 dev PIC1_PORT_COMMAND h
      in (h, push_bit 8 (ucast slave) OR ucast master))"

definition pic_get_irr :: "device \<Rightarrow> io_hist \<Rightarrow> io_hist \<times> u16" where
  "pic_get_irr dev = pic_get_irq_register dev 0x0A"

definition pic_get_isr :: "device \<Rightarrow> io_hist \<Rightarrow> io_hist \<times> u16" where
  "pic_get_isr dev = pic_get_irq_register dev 0x0B"

section \<open>Interval timer\<close>

text \<open>Waiting for the output of counter 0; a timer whose output never rises gives \<^const>\<open>None\<close>.\<close>

partial_function (option) pit_wait :: "device \<Rightarrow> io_hist \<Rightarrow> io_hist option" where
  "pit_wait dev h =
     (let (h1, v) = cpu_in8 dev 0x40 (cpu_out8 0x43 0xE2 h)
      in if v AND 0x80 = 0 then pit_wait dev h1 else Some h1)"

declare pit_wait.simps [code]

definition pit_count :: "u64 \<Rightarrow> u16" where
  "pit_count total_count = (if total_count > 0xFFFF then 0xFFFF else ucast total_count)"

definition pit_load :: "u16 \<Rightarrow> io_hist \<Rightarrow> io_hist" where
  "pit_load count h =
     cpu_out8 0x40 (ucast (drop_bit 8 count)) (cpu_out8 0x40 (ucast (count AND 0xFF)) (cpu_out8 0x43 0x30 h))"

partial_function (option) pit_loop :: "device \<Rightarrow> u64 \<Rightarrow> io_hist \<Rightarrow> io_hist option" where
  "pit_loop dev total_count h =
     Option.bind (pit_wait dev (pit_load (pit_count total_count) h))
       (\<lambda>h1. let rest = total_count - ucast (pit_count total_count)
             in if rest AND NOT 0xFFFF \<noteq> 0 then pit_loop dev rest h1 else Some h1)"

declare pit_loop.simps [code]

definition pit_sleep_ms :: "device \<Rightarrow> u64 \<Rightarrow> io_hist \<Rightarrow> io_hist option" where
  "pit_sleep_ms dev ms h = pit_loop dev (0x4A9 * ms) h"

section \<open>Local APIC\<close>

type_synonym cpuid_insn = "u32 \<Rightarrow> u32 \<Rightarrow> u32 \<times> u32 \<times> u32 \<times> u32"

text \<open>The registers eax, ebx, ecx and edx of a leaf, or nothing when the leaf is beyond the largest one.\<close>

definition cpuid :: "cpuid_insn \<Rightarrow> u64 \<Rightarrow> u64 \<Rightarrow> (u32 \<times> u32 \<times> u32 \<times> u32) option" where
  "cpuid insn eax_in ecx_in =
     (if ucast (fst (insn 0 0)) < eax_in then None else Some (insn (ucast eax_in) (ucast ecx_in)))"

definition CPUID_FEAT_EDX_APIC :: u32 where "CPUID_FEAT_EDX_APIC = push_bit 9 1"

definition apic_check :: "cpuid_insn \<Rightarrow> bool" where
  "apic_check insn =
     (case cpuid insn 1 0 of None \<Rightarrow> False
      | Some (eax, ebx, ecx, edx) \<Rightarrow> edx AND CPUID_FEAT_EDX_APIC \<noteq> 0)"

definition APIC_BASE :: u64 where "APIC_BASE = 0xFEE00000"
definition LAPIC_REG_ID :: u32 where "LAPIC_REG_ID = 0x20"
definition LAPIC_REG_SPURIOUS_INT :: u32 where "LAPIC_REG_SPURIOUS_INT = 0xF0"
definition LAPIC_REG_ICR0 :: u32 where "LAPIC_REG_ICR0 = 0x300"
definition LAPIC_REG_ICR1 :: u32 where "LAPIC_REG_ICR1 = 0x310"
definition LAPIC_IPI_INIT :: u32 where "LAPIC_IPI_INIT = 0x4500"
definition LAPIC_IPI_STARTUP :: u32 where "LAPIC_IPI_STARTUP = 0x4600"
definition APIC_REG_TIMER_LVT :: u32 where "APIC_REG_TIMER_LVT = 0x320"
definition APIC_REG_TIMER_DIV :: u32 where "APIC_REG_TIMER_DIV = 0x3E0"
definition APIC_REG_TIMER_INIT_COUNT :: u32 where "APIC_REG_TIMER_INIT_COUNT = 0x380"
definition APIC_REG_TIMER_CUR_COUNT :: u32 where "APIC_REG_TIMER_CUR_COUNT = 0x390"
definition APIC_TIMER_DIV :: u32 where "APIC_TIMER_DIV = 0x3"
definition APIC_TIMER_MEASURE :: u64 where "APIC_TIMER_MEASURE = 10"
definition APIC_TIMER_PERIODIC :: u32 where "APIC_TIMER_PERIODIC = 1"

definition lapic_read :: "device \<Rightarrow> u32 \<Rightarrow> io_hist \<Rightarrow> io_hist \<times> u32" where
  "lapic_read dev reg h = mmio_in32 dev (APIC_BASE + ucast reg) h"

definition lapic_write :: "u32 \<Rightarrow> u32 \<Rightarrow> io_hist \<Rightarrow> io_hist" where
  "lapic_write reg val h = mmio_out32 (APIC_BASE + ucast reg) val h"

definition apic_enable_spurious_ints :: "device \<Rightarrow> io_hist \<Rightarrow> io_hist" where
  "apic_enable_spurious_ints dev h =
     (let (h, v) = lapic_read dev LAPIC_REG_SPURIOUS_INT h in lapic_write LAPIC_REG_SPURIOUS_INT (v OR 0x100) h)"

text \<open>The result is the new value of \<^verbatim>\<open>ticks_per_10ms\<close>.\<close>

definition apic_timer_init :: "device \<Rightarrow> io_hist \<Rightarrow> (io_hist \<times> u32) option" where
  "apic_timer_init dev h =
     (let h = lapic_write APIC_REG_TIMER_DIV APIC_TIMER_DIV h;
          h = lapic_write APIC_REG_TIMER_INIT_COUNT 0xFFFFFFFF h
      in Option.bind (pit_sleep_ms dev APIC_TIMER_MEASURE h)
           (\<lambda>h. let h = lapic_write APIC_REG_TIMER_LVT 0x10000 h;
                    (h, cur) = lapic_read dev APIC_REG_TIMER_CUR_COUNT h
                in Some (h, 0xFFFFFFFF - cur)))"

definition apic_set_timer :: "u32 \<Rightarrow> u32 \<Rightarrow> u64 \<Rightarrow> u8 \<Rightarrow> io_hist \<Rightarrow> io_hist" where
  "apic_set_timer ticks_per_10ms type ms int_gate h =
     (let h = lapic_write APIC_REG_TIMER_DIV APIC_TIMER_DIV h;
          h = lapic_write APIC_REG_TIMER_INIT_COUNT (ucast (ms div 10 * ucast ticks_per_10ms)) h
      in lapic_write APIC_REG_TIMER_LVT (push_bit 17 type OR ucast int_gate) h)"

section \<open>Start-up of the processor\<close>

definition CPU_INITERR_NOCPUID :: int where "CPU_INITERR_NOCPUID = - 1"
definition CPU_INITERR_NOAPIC :: int where "CPU_INITERR_NOAPIC = - 2"

record cpu_st =
  cpu_hist :: io_hist
  cpu_gdt :: gdt_st
  ticks_per_10ms :: u32

text \<open>Whether the processor has the instruction, the instruction itself and the address of the table are arguments.\<close>

definition cpu_init :: "bool \<Rightarrow> cpuid_insn \<Rightarrow> device \<Rightarrow> addr \<Rightarrow> cpu_st \<Rightarrow> (cpu_st \<times> int) option" where
  "cpu_init cpuid_check insn dev gdt s =
     (if \<not> cpuid_check then Some (s, CPU_INITERR_NOCPUID)
      else if \<not> apic_check insn then Some (s, CPU_INITERR_NOAPIC)
      else Option.bind (apic_timer_init dev (cpu_hist s))
        (\<lambda>(h, t). let s = s\<lparr>cpu_hist := h, ticks_per_10ms := t\<rparr>;
                      s = s\<lparr>cpu_hist := pic_remap_irqs dev 0x20 0x28 (cpu_hist s)\<rparr>;
                      s = s\<lparr>cpu_gdt := gdt_init gdt (cpu_gdt s)\<rparr>
                  in Some (s, 0)))"


section \<open>The interrupt controllers behave as documented\<close>

text \<open>
  A controller of type 8259 takes from its command port the start of an initialisation, which clears the mask,
  and from its data port three more initialisation words, the first of them the vector of its line 0; outside an
  initialisation a byte on the data port is the new mask, which can be read there.
\<close>

record pic =
  pic_vector :: u8
  pic_mask :: u8
  pic_icw :: nat

fun pic_step :: "u32 \<Rightarrow> io_event \<Rightarrow> pic \<Rightarrow> pic" where
  "pic_step cmd (Out8 p v) c =
     (if p = cmd \<and> v AND 0x10 \<noteq> 0 then c\<lparr>pic_mask := 0, pic_icw := 1\<rparr>
      else if p = cmd + 1 then
        (if pic_icw c = 1 then c\<lparr>pic_vector := v, pic_icw := 2\<rparr>
         else if pic_icw c = 2 then c\<lparr>pic_icw := 3\<rparr>
         else if pic_icw c = 3 then c\<lparr>pic_icw := 0\<rparr>
         else c\<lparr>pic_mask := v\<rparr>)
      else c)"
| "pic_step cmd _ c = c"

definition pic_of :: "u32 \<Rightarrow> io_hist \<Rightarrow> pic" where
  "pic_of cmd h = fold (pic_step cmd) h \<lparr>pic_vector = 0, pic_mask = 0, pic_icw = 0\<rparr>"

definition is_pic :: "device \<Rightarrow> bool" where
  "is_pic dev \<longleftrightarrow> (\<forall>h. ucast (dev (h @ [In8 0x21])) = pic_mask (pic_of 0x20 h) \<and> ucast (dev (h @ [In8 0xA1])) = pic_mask (pic_of 0xA0 h))"

definition pics_ready :: "io_hist \<Rightarrow> bool" where
  "pics_ready h \<longleftrightarrow> pic_icw (pic_of 0x20 h) = 0 \<and> pic_icw (pic_of 0xA0 h) = 0"

definition line_masked :: "io_hist \<Rightarrow> nat \<Rightarrow> bool" where
  "line_masked h l = (if l < 8 then bit (pic_mask (pic_of 0x20 h)) l else bit (pic_mask (pic_of 0xA0 h)) (l - 8))"

definition line_vector :: "io_hist \<Rightarrow> nat \<Rightarrow> nat" where
  "line_vector h l = (if l < 8 then unat (pic_vector (pic_of 0x20 h)) + l else unat (pic_vector (pic_of 0xA0 h)) + (l - 8))"

lemma pic_of_append [simp]: "pic_of cmd (h @ k) = fold (pic_step cmd) k (pic_of cmd h)"
  by (simp add: pic_of_def)

lemmas pic_ports = PIC1_PORT_COMMAND_def PIC1_PORT_DATA_def PIC2_PORT_COMMAND_def PIC2_PORT_DATA_def

lemmas port_ops = cpu_in8_def cpu_out8_def cpu_io_wait_def

lemma pic_remap_state:
  assumes "is_pic dev" "pics_ready h"
  shows "pic_of 0x20 (pic_remap_irqs dev m s h) = (pic_of 0x20 h)\<lparr>pic_vector := m\<rparr>"
    and "pic_of 0xA0 (pic_remap_irqs dev m s h) = (pic_of 0xA0 h)\<lparr>pic_vector := s\<rparr>"
  using assms
  by (cases "pic_of 0x20 h"; cases "pic_of 0xA0 h"; simp add: is_pic_def pics_ready_def pic_remap_irqs_def port_ops pic_ports
      PIC_ICW1_INIT_def PIC_ICW1_ICW4_def PIC_ICW4_8086_def Let_def)+

lemma set_line_bit:
  fixes v :: u8
  assumes "n < 8" "m < 8"
  shows "bit (ucast ((ucast v :: u32) OR 2 ^ n) :: u8) m \<longleftrightarrow> m = n \<or> bit v m"
    and "bit (ucast ((ucast v :: u32) AND NOT (2 ^ n)) :: u8) m \<longleftrightarrow> m \<noteq> n \<and> bit v m"
  using assms by (auto simp: bit_simps)

lemma pic_line_cases:
  assumes "irq < 16"
  obtains "irq < 8" "pic_line irq = (0x21, irq)" "unat irq < 8"
  | "\<not> irq < 8" "pic_line irq = (0xA1, irq - 8)" "unat (irq - 8) = unat irq - 8" "unat irq - 8 < 8" "\<not> unat irq < 8"
proof (cases "irq < 8")
  case True
  then show ?thesis
    using that(1) by (simp add: pic_line_def pic_ports word_less_nat_alt)
next
  case False
  then have "unat (irq - 8) = unat irq - 8"
    by (simp add: unat_sub word_le_nat_alt not_less)
  then show ?thesis
    using that(2) False assms by (simp add: pic_line_def pic_ports word_less_nat_alt)
qed

lemma pic_mask_state:
  assumes "is_pic dev" "pics_ready h" "irq < 8"
  shows "pic_of 0x20 (pic_set_mask dev irq h)
      = (pic_of 0x20 h)\<lparr>pic_mask := ucast ((ucast (pic_mask (pic_of 0x20 h)) :: u32) OR push_bit (unat irq) 1)\<rparr> \<and>
     pic_of 0xA0 (pic_set_mask dev irq h) = pic_of 0xA0 h"
    "pic_of 0x20 (pic_clear_mask dev irq h)
      = (pic_of 0x20 h)\<lparr>pic_mask := ucast ((ucast (pic_mask (pic_of 0x20 h)) :: u32) AND NOT (push_bit (unat irq) 1))\<rparr> \<and>
     pic_of 0xA0 (pic_clear_mask dev irq h) = pic_of 0xA0 h"
  using assms
  by (simp_all add: is_pic_def pics_ready_def pic_set_mask_def pic_clear_mask_def pic_line_def port_ops pic_ports)

lemma pic_mask_state_slave:
  assumes "is_pic dev" "pics_ready h" "\<not> irq < 8"
  shows "pic_of 0xA0 (pic_set_mask dev irq h)
      = (pic_of 0xA0 h)\<lparr>pic_mask := ucast ((ucast (pic_mask (pic_of 0xA0 h)) :: u32) OR push_bit (unat (irq - 8)) 1)\<rparr> \<and>
     pic_of 0x20 (pic_set_mask dev irq h) = pic_of 0x20 h"
    "pic_of 0xA0 (pic_clear_mask dev irq h)
      = (pic_of 0xA0 h)\<lparr>pic_mask := ucast ((ucast (pic_mask (pic_of 0xA0 h)) :: u32) AND NOT (push_bit (unat (irq - 8)) 1))\<rparr> \<and>
     pic_of 0x20 (pic_clear_mask dev irq h) = pic_of 0x20 h"
  using assms
  by (simp_all add: is_pic_def pics_ready_def pic_set_mask_def pic_clear_mask_def pic_line_def port_ops pic_ports)

lemma pic_mask_lines:
  assumes "is_pic dev" "pics_ready h" "irq < 16" "l < 16"
  shows "line_masked (pic_set_mask dev irq h) l \<longleftrightarrow> l = unat irq \<or> line_masked h l"
    and "line_masked (pic_clear_mask dev irq h) l \<longleftrightarrow> l \<noteq> unat irq \<and> line_masked h l"
proof -
  show "line_masked (pic_set_mask dev irq h) l \<longleftrightarrow> l = unat irq \<or> line_masked h l"
    using assms(3)
  proof (cases rule: pic_line_cases)
    case 1
    then show ?thesis
      using pic_mask_state(1) [OF assms(1,2) 1(1)] by (simp add: line_masked_def set_line_bit)
  next
    case 2
    then show ?thesis
      using pic_mask_state_slave(1) [OF assms(1,2) 2(1)] assms(4) by (auto simp: line_masked_def set_line_bit)
  qed
  show "line_masked (pic_clear_mask dev irq h) l \<longleftrightarrow> l \<noteq> unat irq \<and> line_masked h l"
    using assms(3)
  proof (cases rule: pic_line_cases)
    case 1
    then show ?thesis
      using pic_mask_state(2) [OF assms(1,2) 1(1)] by (simp add: line_masked_def set_line_bit)
  next
    case 2
    then show ?thesis
      using pic_mask_state_slave(2) [OF assms(1,2) 2(1)] assms(4) by (auto simp: line_masked_def set_line_bit)
  qed
qed

section \<open>The interval timer is loaded with the requested count\<close>

text \<open>The output of the timer rises: from every history, one of the following status reads shows it.\<close>

definition pit_polls :: "nat \<Rightarrow> io_hist" where
  "pit_polls n = concat (replicate n [Out8 0x43 0xE2, In8 0x40])"

definition pit_fires :: "device \<Rightarrow> bool" where
  "pit_fires dev \<longleftrightarrow> (\<forall>h. \<exists>n. (ucast (dev (h @ pit_polls (Suc n))) :: u8) AND 0x80 \<noteq> 0)"

lemma pit_polls_Suc: "pit_polls (Suc n) = Out8 0x43 0xE2 # In8 0x40 # pit_polls n"
  by (simp add: pit_polls_def)

lemma port_bytes_polls [simp]: "port_bytes 0x40 (pit_polls n) = []"
  by (induction n) (simp_all add: pit_polls_def)

lemma pit_wait_returns:
  assumes "(ucast (dev (h @ pit_polls (Suc n))) :: u8) AND 0x80 \<noteq> 0"
  shows "\<exists>k. pit_wait dev h = Some (h @ pit_polls k)"
  using assms
proof (induction n arbitrary: h)
  case 0
  then show ?case
    by (intro exI [of _ 1]) (subst pit_wait.simps, simp add: port_ops pit_polls_def)
next
  case (Suc n)
  let ?h = "h @ [Out8 0x43 0xE2, In8 0x40]"
  obtain k where k: "pit_wait dev ?h = Some (?h @ pit_polls k)"
    using Suc.IH [of ?h] Suc.prems by (auto simp: pit_polls_Suc)
  show ?case
  proof (cases "(ucast (dev ?h) :: u8) AND 0x80 = 0")
    case True
    with k show ?thesis
      by (intro exI [of _ "Suc k"]) (subst pit_wait.simps, simp add: port_ops pit_polls_Suc)
  next
    case False
    then show ?thesis
      by (intro exI [of _ 1]) (subst pit_wait.simps, simp add: port_ops pit_polls_def)
  qed
qed

text \<open>The history that an operation of the timers adds has no byte for the interrupt controllers.\<close>

definition no_pic :: "io_hist \<Rightarrow> bool" where
  "no_pic k \<longleftrightarrow> (\<forall>e\<in>set k. case e of Out8 p v \<Rightarrow> p \<notin> {0x20, 0x21, 0xA0, 0xA1} | _ \<Rightarrow> True)"

lemma no_pic_append [simp]: "no_pic (k @ k') \<longleftrightarrow> no_pic k \<and> no_pic k'"
  by (auto simp: no_pic_def)

lemma no_pic_polls [simp]: "no_pic (pit_polls n)"
  by (auto simp: no_pic_def pit_polls_def)

text \<open>The counts that are loaded one after the other, for a total of \<open>t\<close> ticks.\<close>

definition sleep_counts :: "nat \<Rightarrow> nat list" where
  "sleep_counts t = (if t < 65536 then [t] else replicate ((t - 1) div 65535) 65535)"

definition count_bytes :: "nat \<Rightarrow> u8 list" where
  "count_bytes c = [of_nat (c mod 256), of_nat (c div 256)]"

lemma sleep_counts_more: "t > 65535 + 65535 \<Longrightarrow> sleep_counts t = 65535 # sleep_counts (t - 65535)"
  by (simp add: sleep_counts_def le_div_geq)

lemma sleep_counts_once: "65535 < t \<Longrightarrow> t \<le> 65535 + 65535 \<Longrightarrow> sleep_counts t = [65535]"
  by (simp add: sleep_counts_def le_div_geq)

lemma masked_zero_iff:
  fixes t :: u64
  shows "t AND NOT 0xFFFF \<noteq> 0 \<longleftrightarrow> 65536 \<le> unat t"
proof -
  have m: "(0xFFFF :: u64) = mask 16"
    by (simp add: mask_eq_exp_minus_1)
  have "t AND NOT (mask 16) = 0 \<longleftrightarrow> t = take_bit 16 t"
    by (auto simp: bit_eq_iff bit_simps)
  also have "\<dots> \<longleftrightarrow> unat t < 65536"
    using word_unat_eq_iff [of t "take_bit 16 t"] take_bit_nat_eq_self_iff [of 16 "unat t"] by (auto simp: unsigned_take_bit_eq)
  finally show ?thesis
    unfolding m by auto
qed

lemma port_bytes_load:
  "port_bytes 0x40 (pit_load c h) = port_bytes 0x40 h @ [ucast (c AND 0xFF), ucast (drop_bit 8 c)]"
  by (simp add: pit_load_def port_ops)

lemma count_bytes_word: "[ucast (c AND 0xFF), ucast (drop_bit 8 c)] = count_bytes (unat (c :: u16))"
proof -
  have "c AND 0xFF = take_bit 8 c"
    by (simp add: take_bit_eq_mask mask_eq_exp_minus_1)
  then have "ucast (c AND 0xFF) = (of_nat (unat c mod 256) :: u8)"
    by (simp add: word_unat_eq_iff unsigned_ucast_eq unsigned_of_nat unsigned_take_bit_eq take_bit_eq_mod unat_mod)
  moreover have "ucast (drop_bit 8 c) = (of_nat (unat c div 256) :: u8)"
    by (simp add: word_unat_eq_iff unsigned_ucast_eq unsigned_of_nat take_bit_eq_mod unsigned_drop_bit_eq drop_bit_eq_div unat_div)
  ultimately show ?thesis
    by (simp add: count_bytes_def)
qed

lemma pit_count_unat:
  "unat (pit_count t) = min (unat t) 65535"
  by (auto simp: pit_count_def word_less_nat_alt unsigned_ucast_eq take_bit_eq_mod min_def)

lemma pit_loop_counts:
  assumes "pit_fires dev"
  shows "\<exists>k. pit_loop dev t h = Some (h @ k) \<and> port_bytes 0x40 k = concat (map count_bytes (sleep_counts (unat t))) \<and> no_pic k"
proof (induction "unat t" arbitrary: t h rule: less_induct)
  case less
  let ?c = "pit_count t"
  define load where "load = [Out8 0x43 0x30, Out8 0x40 (ucast (?c AND 0xFF)), Out8 0x40 (ucast (drop_bit 8 ?c))]"
  have ld: "pit_load ?c h = h @ load" "port_bytes 0x40 load = count_bytes (unat ?c)" "no_pic load"
    by (simp_all add: load_def pit_load_def port_ops no_pic_def flip: count_bytes_word)
  obtain j where "(ucast (dev ((h @ load) @ pit_polls (Suc j))) :: u8) AND 0x80 \<noteq> 0"
    using assms unfolding pit_fires_def by blast
  from pit_wait_returns [of dev "h @ load" j, OF this] obtain n where w: "pit_wait dev (h @ load) = Some (h @ load @ pit_polls n)"
    by auto
  define rest where "rest = t - ucast ?c"
  have u: "unat (ucast ?c :: u64) = min (unat t) 65535"
    using unsigned_less [of ?c, where ?'a = nat] by (simp add: unsigned_ucast_eq take_bit_eq_mod pit_count_unat)
  have r: "unat rest = unat t - 65535"
    unfolding rest_def by (subst unat_diff_le) (simp_all add: u min_def)
  have step: "pit_loop dev t h
      = (if 65536 \<le> unat rest then pit_loop dev rest (h @ load @ pit_polls n) else Some (h @ load @ pit_polls n))"
    using masked_zero_iff [of rest] by (subst pit_loop.simps) (simp add: ld(1) w rest_def [symmetric])
  consider "unat t < 65536" | "65536 \<le> unat t" "unat t \<le> 65535 + 65535" | "unat t > 65535 + 65535"
    by linarith
  then show ?case
  proof cases
    case 1
    then show ?thesis
      using step r by (auto simp: ld(2,3) sleep_counts_def pit_count_unat min_def)
  next
    case 2
    then show ?thesis
      using step r sleep_counts_once [of "unat t"] by (auto simp: ld(2,3) pit_count_unat min_def)
  next
    case 3
    then obtain k where "pit_loop dev rest (h @ load @ pit_polls n) = Some ((h @ load @ pit_polls n) @ k)"
        "port_bytes 0x40 k = concat (map count_bytes (sleep_counts (unat rest)))" "no_pic k"
      using less [of rest "h @ load @ pit_polls n"] r by auto
    then show ?thesis
      using 3 step r sleep_counts_more [of "unat t"] by (auto simp: ld(2,3) pit_count_unat min_def)
  qed
qed

text \<open>
  C28: \<^verbatim>\<open>pit_sleep_ms\<close> returns on every timer whose output rises, after having loaded it with counts that make up the
  1193 ticks of each millisecond when these are less than 65536 together. A longer sleep loads 65535 as often as
  it fits in what is left after one tick, and drops the rest of up to 65535 ticks, so it ends up to 55 ms early.
\<close>

theorem pit_sleep_ms_counts:
  fixes ms :: u64
  assumes "pit_fires dev" and "t = unat (0x4A9 * ms)"
  shows "(\<exists>k. pit_sleep_ms dev ms h = Some (h @ k) \<and> port_bytes 0x40 k = concat (map count_bytes (sleep_counts t))) \<and>
     (if t < 65536 then sum_list (sleep_counts t) = t
      else sum_list (sleep_counts t) < t \<and> t \<le> sum_list (sleep_counts t) + 65535)"
proof (rule conjI)
  show "\<exists>k. pit_sleep_ms dev ms h = Some (h @ k) \<and> port_bytes 0x40 k = concat (map count_bytes (sleep_counts t))"
    unfolding pit_sleep_ms_def assms(2) using pit_loop_counts [OF assms(1), of "0x4A9 * ms" h] by blast
  define d where "d = (t - 1) div 65535"
  have "d * 65535 \<le> t - 1" "t - 1 < d * 65535 + 65535"
    unfolding d_def using div_mult_mod_eq [of "t - 1" 65535] mod_less_divisor [of 65535 "t - 1"] by linarith+
  then have "\<not> t < 65536 \<Longrightarrow> d * 65535 < t \<and> t \<le> d * 65535 + 65535"
    by linarith
  then show "if t < 65536 then sum_list (sleep_counts t) = t
      else sum_list (sleep_counts t) < t \<and> t \<le> sum_list (sleep_counts t) + 65535"
    unfolding sleep_counts_def d_def by (simp add: sum_list_replicate)
qed

text \<open>A device with both controllers, a timer whose output is high and an APIC timer that has counted 1000 ticks.\<close>

definition demo_board :: device where
  "demo_board h =
     (case last h of
        In8 p \<Rightarrow> if p = 0x21 then ucast (pic_mask (pic_of 0x20 (butlast h)))
                 else if p = 0xA1 then ucast (pic_mask (pic_of 0xA0 (butlast h))) else 0x80
      | Mem_in32 a \<Rightarrow> 0xFFFFFFFF - 1000
      | _ \<Rightarrow> 0)"

lemma byte_through_u32: "ucast (ucast (v :: u8) :: u32) = v"
  by (rule bit_word_eqI) (auto simp: bit_simps)

lemma demo_board_ok: "pit_fires demo_board" "is_pic demo_board"
proof -
  have "(ucast (demo_board (h @ pit_polls (Suc 0))) :: u8) AND 0x80 \<noteq> 0" for h
    by (simp add: demo_board_def pit_polls_def)
  then show "pit_fires demo_board"
    unfolding pit_fires_def by blast
  show "is_pic demo_board"
    by (simp add: is_pic_def demo_board_def byte_through_u32)
qed

theorem pit_sleep_ms_counts_witness:
  "\<exists>k. pit_sleep_ms demo_board 100 [] = Some k \<and> port_bytes 0x40 k = [0xFF, 0xFF]"
  using pit_sleep_ms_counts [OF demo_board_ok(1) refl, of 100 "[]"] by (simp add: sleep_counts_def count_bytes_def)

section \<open>Start-up\<close>

lemma pic_of_other:
  assumes "\<forall>e\<in>set k. \<forall>p v. e = Out8 p v \<longrightarrow> p \<notin> {cmd, cmd + 1}"
  shows "fold (pic_step cmd) k c = c"
  using assms
proof (induction k arbitrary: c)
  case (Cons e k)
  then show ?case
    by (cases "(cmd, e, c)" rule: pic_step.cases) auto
qed simp

lemma no_pic_of:
  assumes "no_pic k"
  shows "pic_of 0x20 (h @ k) = pic_of 0x20 h" "pic_of 0xA0 (h @ k) = pic_of 0xA0 h"
  using assms unfolding pic_of_append no_pic_def by (intro pic_of_other; force)+

lemma pit_sleep_no_pic:
  assumes "pit_fires dev"
  shows "\<exists>k. pit_sleep_ms dev ms h = Some (h @ k) \<and> no_pic k"
  using pit_loop_counts [OF assms] by (fastforce simp: pit_sleep_ms_def)

lemma apic_timer_init_returns:
  assumes "pit_fires dev"
  shows "\<exists>k t. apic_timer_init dev h = Some (h @ k, t) \<and> no_pic k"
proof -
  let ?h = "lapic_write APIC_REG_TIMER_INIT_COUNT 0xFFFFFFFF (lapic_write APIC_REG_TIMER_DIV APIC_TIMER_DIV h)"
  obtain k where "pit_sleep_ms dev APIC_TIMER_MEASURE ?h = Some (?h @ k)" "no_pic k"
    using pit_sleep_no_pic [OF assms] by blast
  then show ?thesis
    by (simp add: apic_timer_init_def Let_def lapic_write_def lapic_read_def mmio_out32_def mmio_in32_def no_pic_def)
qed

text \<open>
  C23: On a processor with a local APIC whose timer and interrupt controllers work as documented, \<^verbatim>\<open>cpu_init\<close>
  returns 0; then the lines 0 to 15 of the controllers raise the vectors 32 to 47, no mask has changed and the
  code selector is the one in the gates. Together with \<^verbatim>\<open>init_idt\<close> every line but the last leads to its stub
  through a present gate; line 15, the second ATA channel, raises a vector whose gate is not present.
\<close>

theorem interrupt_lines_reach_stubs:
  assumes "pit_fires dev" "is_pic dev" "pics_ready (cpu_hist s)" "apic_check insn" "l < 16"
    and "cpu_gdt s = gdt_0"
  shows "\<exists>s'. cpu_init True insn dev gdt s = Some (s', 0) \<and> code_sel (cpu_gdt s') = 0x28 \<and>
     (line_masked (cpu_hist s') l \<longleftrightarrow> line_masked (cpu_hist s) l) \<and> line_vector (cpu_hist s') l = 32 + l \<and>
     gates (init_idt base stubs t) ! line_vector (cpu_hist s') l = (if l < 15 then (stubs (32 + l), 0x28, 1, 0x8E) else (0, 0, 0, 0))"
proof -
  obtain k n where k: "apic_timer_init dev (cpu_hist s) = Some (cpu_hist s @ k, n)" "no_pic k"
    using apic_timer_init_returns [OF assms(1)] by blast
  let ?h = "cpu_hist s @ k"
  let ?s = "s\<lparr>cpu_hist := pic_remap_irqs dev 0x20 0x28 ?h, ticks_per_10ms := n, cpu_gdt := gdt_init gdt (cpu_gdt s)\<rparr>"
  have "pics_ready ?h"
    unfolding pics_ready_def no_pic_of [OF k(2)] using assms(3) by (simp add: pics_ready_def)
  then have "pic_of 0x20 (cpu_hist ?s) = (pic_of 0x20 (cpu_hist s))\<lparr>pic_vector := 0x20\<rparr>"
      "pic_of 0xA0 (cpu_hist ?s) = (pic_of 0xA0 (cpu_hist s))\<lparr>pic_vector := 0x28\<rparr>"
    using pic_remap_state [OF assms(2), of ?h] no_pic_of [OF k(2), of "cpu_hist s"] by simp_all
  then have st: "line_masked (cpu_hist ?s) l \<longleftrightarrow> line_masked (cpu_hist s) l" "line_vector (cpu_hist ?s) l = 32 + l"
    by (auto simp: line_masked_def line_vector_def)
  have "cpu_init True insn dev gdt s = Some (?s, 0)"
    using assms(4) k(1) by (simp add: cpu_init_def)
  moreover have "code_sel (cpu_gdt ?s) = 0x28"
    by (simp add: assms(6) gdt_init_code_sel)
  moreover have "gates (init_idt base stubs t) ! (32 + l) = (if l < 15 then (stubs (32 + l), 0x28, 1, 0x8E) else (0, 0, 0, 0))"
    unfolding init_idt_gates [THEN conjunct1] using assms(5) by simp
  ultimately show ?thesis
    using st by (intro exI [of _ ?s]) simp
qed

theorem interrupt_lines_reach_stubs_witness:
  "\<exists>s'. cpu_init True (\<lambda>_ _. (1, 0, 0, 0x200)) demo_board 0x1000 \<lparr>cpu_hist = [], cpu_gdt = gdt_0, ticks_per_10ms = 0\<rparr> = Some (s', 0) \<and>
     line_vector (cpu_hist s') 15 = 47 \<and> gates (init_idt 0 (\<lambda>_. 0x5000) \<lparr>idt_main = [], idtr = None\<rparr>) ! 47 = (0, 0, 0, 0)"
  using interrupt_lines_reach_stubs [OF demo_board_ok, of "\<lparr>cpu_hist = [], cpu_gdt = gdt_0, ticks_per_10ms = 0\<rparr>"
      "\<lambda>_ _. (1, 0, 0, 0x200)" 15 "0x1000" 0 "\<lambda>_. 0x5000" "\<lparr>idt_main = [], idtr = None\<rparr>"]
  by (auto simp: pics_ready_def pic_of_def apic_check_def cpuid_def CPUID_FEAT_EDX_APIC_def)

text \<open>
  Masking an interrupt line masks this line and no other one, and clearing its mask undoes it: on controllers
  as documented the masks of the sixteen lines afterwards are those from before.
\<close>

theorem pic_mask_roundtrip:
  assumes "is_pic dev" "pics_ready h" "irq < 16" "l < 16"
  shows "(line_masked (pic_set_mask dev irq h) l \<longleftrightarrow> l = unat irq \<or> line_masked h l) \<and>
     (line_masked (pic_clear_mask dev irq h) l \<longleftrightarrow> l \<noteq> unat irq \<and> line_masked h l) \<and>
     (line_masked (pic_clear_mask dev irq (pic_set_mask dev irq h)) l \<longleftrightarrow> l \<noteq> unat irq \<and> line_masked h l)"
proof -
  have "pics_ready (pic_set_mask dev irq h)"
    using assms(2) pic_mask_state(1) [OF assms(1,2), of irq] pic_mask_state_slave(1) [OF assms(1,2), of irq]
    by (cases "irq < 8") (simp_all add: pics_ready_def)
  then show ?thesis
    using pic_mask_lines [OF assms] pic_mask_lines [OF assms(1) _ assms(3,4), of "pic_set_mask dev irq h"] by blast
qed

theorem pic_mask_roundtrip_witness:
  "line_masked (pic_set_mask demo_board 14 []) 14 \<and> \<not> line_masked (pic_set_mask demo_board 14 []) 15"
  using pic_mask_roundtrip [OF demo_board_ok(2), of "[]" 14 14] pic_mask_roundtrip [OF demo_board_ok(2), of "[]" 14 15]
  by (simp add: pics_ready_def pic_of_def line_masked_def)

end
