(* ===== verification/Acpi.thy ===== *)
theory Acpi
  imports Vmemory Interrupts Cstring
begin

unbundle bit_operations_syntax

text \<open>
  The firmware tables: the root pointer (\<^verbatim>\<open>cpu/x86/rsdp.c\<close>), the event timers (\<^verbatim>\<open>cpu/x86/hpet.c\<close>) and the list
  of processors (\<^verbatim>\<open>modules/mtask/acpi.c\<close>). The state is that of \<^theory_text>\<open>Vmemory\<close>, whose mapping function the
  source calls; where the source takes the function as a pointer it is an argument. String literals have the
  address that the compiler gives them. A null pointer that is followed gives \<^const>\<open>None\<close>.
\<close>

section \<open>Root pointer\<close>

datatype rsdp_field = Rsdp_sig | Rsdp_checksum | Rsdp_oem_id | Rsdp_revision | Rsdp_rsdt_addr | Rsdp_length | Rsdp_xsdt_addr
  | Rsdp_ext_checksum | Rsdp_resv

definition rsdp_layout :: "(rsdp_field \<times> nat \<times> nat) list" where
  "rsdp_layout =
     [(Rsdp_sig, 8, 1), (Rsdp_checksum, 1, 1), (Rsdp_oem_id, 6, 1), (Rsdp_revision, 1, 1), (Rsdp_rsdt_addr, 4, 4),
      (Rsdp_length, 4, 4), (Rsdp_xsdt_addr, 8, 8), (Rsdp_ext_checksum, 1, 1), (Rsdp_resv, 3, 1)]"

definition sizeof_rsdp :: nat where "sizeof_rsdp = pad 8 (struct_end 0 rsdp_layout)"

definition rsdp_at :: "addr \<Rightarrow> rsdp_field \<Rightarrow> addr" where
  "rsdp_at p f = p + of_nat (offset_from 0 rsdp_layout f)"

definition RSDP_GET_PTR :: "mem \<Rightarrow> addr \<Rightarrow> addr" where
  "RSDP_GET_PTR m p =
     (if m (rsdp_at p Rsdp_revision) < 2 then ucast (load32 m (rsdp_at p Rsdp_rsdt_addr))
      else load64 m (rsdp_at p Rsdp_xsdt_addr))"

definition RSDP_SEARCH_START :: addr where "RSDP_SEARCH_START = 0xE0000"
definition RSDP_SEARCH_END :: addr where "RSDP_SEARCH_END = 0xFFFFF"

definition calc_chksum :: "mem \<Rightarrow> addr \<Rightarrow> nat \<Rightarrow> u8" where
  "calc_chksum m bytes ln = fold (\<lambda>i sum. sum + m (bytes + of_nat i)) [0..<ln] 0"

type_synonym mapper = "addr \<Rightarrow> addr \<Rightarrow> u64 \<Rightarrow> u32 \<Rightarrow> vmem \<Rightarrow> (vmem \<times> int) option"

definition map_rsdp :: "mapper \<Rightarrow> u64 \<Rightarrow> vmem \<Rightarrow> (vmem \<times> int) option" where
  "map_rsdp map_fn mem_unit_size s =
     (if mem_unit_size = 0 then None
      else let rsdp_aligned = RSDP_SEARCH_START - RSDP_SEARCH_START mod mem_unit_size;
               rsdp_sz = (RSDP_SEARCH_END - RSDP_SEARCH_START) + RSDP_SEARCH_START mod mem_unit_size
           in map_fn rsdp_aligned rsdp_aligned ((rsdp_sz + (mem_unit_size - 1)) div mem_unit_size) 0 s)"

definition rsdp_accepted :: "mem \<Rightarrow> addr \<Rightarrow> bool" where
  "rsdp_accepted m p =
     (if m (rsdp_at p Rsdp_revision) = 0 then calc_chksum m p (sizeof_rsdp - 16) = 0
      else if m (rsdp_at p Rsdp_revision) = 2 then calc_chksum m p sizeof_rsdp = 0
      else False)"

partial_function (option) find_rsdp_loop :: "mem \<Rightarrow> addr \<Rightarrow> addr \<Rightarrow> addr option" where
  "find_rsdp_loop m lit p =
     (if p < RSDP_SEARCH_END then do {
        c \<leftarrow> memcmp m lit p 8;
        if c = 0 \<and> rsdp_accepted m p then Some p else find_rsdp_loop m lit (p + 16)
      } else Some NULL)"

declare find_rsdp_loop.simps [code]

definition find_rsdp :: "mem \<Rightarrow> addr \<Rightarrow> u64 \<Rightarrow> addr option" where
  "find_rsdp m lit mem_unit_size = (if mem_unit_size = 0 then None else find_rsdp_loop m lit RSDP_SEARCH_START)"

section \<open>Table of tables\<close>

text \<open>An entry is a pointer of eight bytes in an XSDT and of four in an RSDT; the first letter tells them apart.\<close>

definition entry_width :: "mem \<Rightarrow> addr \<Rightarrow> u64" where
  "entry_width m rsdt = (if m rsdt = 0x58 then 8 else 4)"

definition table_entry :: "mem \<Rightarrow> addr \<Rightarrow> addr \<Rightarrow> addr" where
  "table_entry m rsdt p = (if m rsdt = 0x58 then load64 m p else ucast (load32 m p))"

section \<open>Event timers\<close>

record hpet_st =
  hpet_timer_blocks :: addr
  hpet_timer_blocks_cnt :: u64

datatype hpet_field = Hpet_sig | Hpet_length | Hpet_head | Hpet_et_block_id | Hpet_space | Hpet_addr | Hpet_num
  | Hpet_min_tick | Hpet_attributes

definition hpet_desc_layout :: "(hpet_field \<times> nat \<times> nat) list" where
  "hpet_desc_layout =
     [(Hpet_sig, 4, 1), (Hpet_length, 4, 1), (Hpet_head, 28, 1), (Hpet_et_block_id, 4, 1), (Hpet_space, 4, 1), (Hpet_addr, 8, 1),
      (Hpet_num, 1, 1), (Hpet_min_tick, 2, 1), (Hpet_attributes, 1, 1)]"

definition hpet_at :: "addr \<Rightarrow> hpet_field \<Rightarrow> addr" where
  "hpet_at p f = p + of_nat (offset_from 0 hpet_desc_layout f)"

abbreviation vmem_bytes :: "vmem \<Rightarrow> mem" where "vmem_bytes s \<equiv> kmem_mem (vheap s)"

definition align_down :: "addr \<Rightarrow> u64 \<Rightarrow> addr" where "align_down p unit = p - p mod unit"

definition add_timer_block ::
  "unit map_hooks \<Rightarrow> addr \<Rightarrow> hpet_st \<times> vmem \<Rightarrow> (hpet_st \<times> vmem) option" where
  "add_timer_block hooks table = (\<lambda>(t, s). do {
     let cnt = hpet_timer_blocks_cnt t + 1;
     (h, p) \<leftarrow> krealloc hooks (hpet_timer_blocks t) (cnt * 8) (vheap s);
     let s1 = set_vheap h s;
     Some (t\<lparr>hpet_timer_blocks := p, hpet_timer_blocks_cnt := cnt\<rparr>, st64 (p + (cnt - 1) * 8) table s1)
   })"

partial_function (option) hpet_loop ::
  "unit map_hooks \<Rightarrow> mapper \<Rightarrow> u64 \<Rightarrow> addr \<Rightarrow> addr \<Rightarrow> addr \<Rightarrow> addr \<Rightarrow> hpet_st \<times> vmem \<Rightarrow> (hpet_st \<times> vmem) option" where
  "hpet_loop hooks map_fn unit lit rsdt stop ent_end st =
     (if ent_end < stop then do {
        let ent = table_entry (vmem_bytes (snd st)) rsdt ent_end;
        c \<leftarrow> memcmp (vmem_bytes (snd st)) ent lit 4;
        st1 \<leftarrow> (if c = 0 then do {
                  (t, s) \<leftarrow> add_timer_block hooks ent st;
                  let base = align_down (load64 (vmem_bytes s) (hpet_at ent Hpet_addr)) unit;
                  (s1, _) \<leftarrow> map_fn base base 1 0 s;
                  Some (t, s1)
                } else Some st);
        hpet_loop hooks map_fn unit lit rsdt stop (ent_end + entry_width (vmem_bytes (snd st1)) rsdt) st1
      } else Some st)"

declare hpet_loop.simps [code]

definition hpet_init ::
  "unit map_hooks \<Rightarrow> mapper \<Rightarrow> u64 \<Rightarrow> addr \<Rightarrow> addr \<Rightarrow> hpet_st \<times> vmem \<Rightarrow> (hpet_st \<times> vmem \<times> int) option" where
  "hpet_init hooks map_fn unit rsd_lit hpet_lit = (\<lambda>(t, s). do {
     p \<leftarrow> find_rsdp (vmem_bytes s) rsd_lit unit;
     if p = NULL then None
     else do {
       let rsdt = RSDP_GET_PTR (vmem_bytes s) p;
       (s1, _) \<leftarrow> map_fn (align_down rsdt unit) (align_down rsdt unit) 1 0 s;
       let ln = load32 (vmem_bytes s1) (rsdt + 4);
       (t2, s2) \<leftarrow> hpet_loop hooks map_fn unit hpet_lit rsdt (rsdt + ucast ln) (rsdt + 36) (t, s1);
       Some (t2, s2, 0)
     }
   })"

definition hpet_get_timer_blocks :: "hpet_st \<Rightarrow> u64 \<times> addr" where
  "hpet_get_timer_blocks t = (hpet_timer_blocks_cnt t, hpet_timer_blocks t)"

section \<open>Processors\<close>

text \<open>
  The entries of the table of interrupt controllers have a type and a length; the identifiers of enabled
  processors go to the array at \<open>lapic_ids\<close>. The addresses of the controllers are read but not used.
  Without leaf 1 of \<^verbatim>\<open>cpuid\<close> the registers would be read uninitialised, which is \<^const>\<open>None\<close>.
\<close>

partial_function (option) madt_loop :: "addr \<Rightarrow> addr \<Rightarrow> addr \<Rightarrow> u8 \<Rightarrow> mem \<Rightarrow> (mem \<times> u8) option" where
  "madt_loop lapic_ids ent ent_end core_num m =
     (if ent < ent_end then
        (let (m1, n1) = (if m ent = 0 \<and> m (ent + 4) AND 1 \<noteq> 0 then (m(lapic_ids + ucast core_num := m (ent + 3)), core_num + 1)
                         else (m, core_num))
         in madt_loop lapic_ids (ent + ucast (m1 (ent + 1))) ent_end n1 m1)
      else Some (m, core_num))"

declare madt_loop.simps [code]

partial_function (option) find_madt :: "mem \<Rightarrow> addr \<Rightarrow> addr \<Rightarrow> addr \<Rightarrow> addr \<Rightarrow> addr option option" where
  "find_madt m lit rsdt stop ent_end =
     (if ent_end < stop then do {
        let ent = table_entry m rsdt ent_end;
        c \<leftarrow> memcmp m ent lit 4;
        if c = 0 then Some (Some ent) else find_madt m lit rsdt stop (ent_end + entry_width m rsdt)
      } else Some None)"

declare find_madt.simps [code]

definition set_vmem_bytes :: "mem \<Rightarrow> vmem \<Rightarrow> vmem" where
  "set_vmem_bytes m s = set_vheap ((vheap s)\<lparr>kmem_mem := m\<rparr>) s"

definition scan_cpus :: "addr \<Rightarrow> addr \<Rightarrow> addr \<Rightarrow> mem \<Rightarrow> (mem \<times> u8) option" where
  "scan_cpus lit rsdt lapic_ids m = do {
     let ln = load32 m (rsdt + 4);
     found \<leftarrow> find_madt m lit rsdt (rsdt + ucast ln) (rsdt + 36);
     case found of
       None \<Rightarrow> Some (m, 0)
     | Some ent \<Rightarrow> madt_loop lapic_ids (ent + 44) (ent + ucast (load32 m (ent + 4))) 0 m
   }"

definition detect_cpus ::
  "unit map_hooks \<Rightarrow> cpuid_insn \<Rightarrow> addr \<Rightarrow> addr \<Rightarrow> addr \<Rightarrow> addr \<Rightarrow> vmem \<Rightarrow> (vmem \<times> u8) option" where
  "detect_cpus hooks insn lit rsdt lapic_ids bsp_lapic_id s = do {
     let rsdt_aligned = align_down rsdt get_mem_unit_size;
     let rsdt_sz = 4096 + rsdt mod get_mem_unit_size;
     (s1, _) \<leftarrow> map_phys hooks rsdt_aligned rsdt_aligned ((rsdt_sz + (get_mem_unit_size - 1)) div get_mem_unit_size) 0 s;
     (m1, core_num) \<leftarrow> scan_cpus lit rsdt lapic_ids (vmem_bytes s1);
     (eax, ebx, ecx, edx) \<leftarrow> cpuid insn 1 0;
     Some (set_vmem_bytes (m1(bsp_lapic_id := ucast (drop_bit 24 ebx))) s1, core_num)
   }"

section \<open>The search for the root pointer\<close>

lemma memcmp_result:
  "\<exists>c. memcmp m a b n = Some c \<and> (c = 0 \<longleftrightarrow> bytes_at m a (unat n) = bytes_at m b (unat n))"
  using memcmp_bytes_at [of "unat n" m a b] unat_lt_2p64 [of n] by (auto simp: cmp_bytes_eq_0)

definition is_rsdp :: "mem \<Rightarrow> u8 list \<Rightarrow> addr \<Rightarrow> bool" where
  "is_rsdp m sig p \<longleftrightarrow> bytes_at m p 8 = sig \<and> rsdp_accepted m p"

definition rsdp_places :: "addr list" where
  "rsdp_places = map (\<lambda>i. 0xE0000 + 16 * of_nat i) [0..<8192]"

lemma rsdp_places_from:
  "n < 8192 \<Longrightarrow> map (\<lambda>i. 0xE0000 + 16 * of_nat i :: u64) [n..<8192] = (0xE0000 + 16 * of_nat n) # map (\<lambda>i. 0xE0000 + 16 * of_nat i) [Suc n..<8192]"
  by (simp add: upt_conv_Cons)

lemma find_rsdp_loop_find:
  assumes "bytes_at m lit 8 = sig" "n \<le> 8192"
  shows "find_rsdp_loop m lit (0xE0000 + 16 * of_nat n)
     = Some (case find (is_rsdp m sig) (map (\<lambda>i. 0xE0000 + 16 * of_nat i) [n..<8192]) of None \<Rightarrow> NULL | Some p \<Rightarrow> p)"
  using assms(2)
proof (induction "8192 - n" arbitrary: n)
  case 0
  then show ?case
    by (subst find_rsdp_loop.simps) (simp add: RSDP_SEARCH_END_def)
next
  case (Suc k)
  let ?p = "0xE0000 + 16 * of_nat n :: u64"
  have n: "n < 8192"
    using Suc.hyps(2) by linarith
  have "unat ?p = 0xE0000 + 16 * n"
    using n by (simp add: unat_word_ariths unat_of_nat_64)
  then have lt: "?p < RSDP_SEARCH_END"
    using n by (simp add: RSDP_SEARCH_END_def word_less_nat_alt)
  obtain c where c: "memcmp m lit ?p 8 = Some c" "c = 0 \<longleftrightarrow> bytes_at m ?p 8 = sig"
    using memcmp_result [of m lit ?p 8] assms(1) by auto
  have IH: "find_rsdp_loop m lit (?p + 16)
      = Some (case find (is_rsdp m sig) (map (\<lambda>i. 0xE0000 + 16 * of_nat i) [Suc n..<8192]) of None \<Rightarrow> NULL | Some p \<Rightarrow> p)"
    using Suc.hyps(1) [of "Suc n"] Suc.hyps(2) n by (simp add: algebra_simps)
  show ?case
    unfolding rsdp_places_from [OF n]
    by (subst find_rsdp_loop.simps) (use lt c IH in \<open>simp add: is_rsdp_def\<close>)
qed

text \<open>
  C26: \<^verbatim>\<open>find_rsdp\<close> returns, and returns the first multiple of 16 in the BIOS area that has the signature and whose
  checksum is accepted, or the null pointer when there is none.
\<close>

theorem find_rsdp_first:
  assumes "unit \<noteq> 0"
  shows "find_rsdp m lit unit
     = Some (case find (is_rsdp m (bytes_at m lit 8)) rsdp_places of None \<Rightarrow> NULL | Some p \<Rightarrow> p)"
  using assms find_rsdp_loop_find [of m lit _ 0] by (simp add: find_rsdp_def RSDP_SEARCH_START_def rsdp_places_def)

lemma rsdp_sizes: "sizeof_rsdp - 16 = 24" "rsdp_at p Rsdp_revision = p + 15"
  by (simp_all add: sizeof_rsdp_def rsdp_at_def rsdp_layout_def pad_def)

definition demo_firmware :: mem where
  "demo_firmware =
     (\<lambda>_. 0)(0x1000 := 0x52, 0x1001 := 0x53, 0x1002 := 0x44, 0x1003 := 0x20, 0x1004 := 0x50, 0x1005 := 0x54, 0x1006 := 0x52, 0x1007 := 0x20,
       0xE0010 := 0x52, 0xE0011 := 0x53, 0xE0012 := 0x44, 0xE0013 := 0x20, 0xE0014 := 0x50, 0xE0015 := 0x54, 0xE0016 := 0x52, 0xE0017 := 0x20,
       0xE0018 := 225)"

theorem find_rsdp_first_witness:
  "find_rsdp demo_firmware 0x1000 4096 = Some 0xE0010"
proof -
  have n: "[0..<8192] = 0 # 1 # [2..<8192 :: nat]"
    using upt_conv_Cons [of 0 8192] upt_conv_Cons [of 1 8192] by (simp del: upt_rec_numeral add: numeral_2_eq_2)
  have "bytes_at demo_firmware 0x1000 8 = [0x52, 0x53, 0x44, 0x20, 0x50, 0x54, 0x52, 0x20]"
    by code_simp
  moreover have "bytes_at demo_firmware 0xE0010 8 = [0x52, 0x53, 0x44, 0x20, 0x50, 0x54, 0x52, 0x20]"
    by code_simp
  moreover have "bytes_at demo_firmware 0xE0000 8 ! 0 = 0"
    by code_simp
  moreover have "calc_chksum demo_firmware 0xE0010 24 = 0"
    by code_simp
  moreover have "demo_firmware (0xE0010 + 15) = 0"
    by (simp add: demo_firmware_def)
  ultimately
  have "\<not> is_rsdp demo_firmware (bytes_at demo_firmware 0x1000 8) 0xE0000" "is_rsdp demo_firmware (bytes_at demo_firmware 0x1000 8) 0xE0010"
    by (auto simp: is_rsdp_def rsdp_accepted_def rsdp_sizes)
  then have "find (is_rsdp demo_firmware (bytes_at demo_firmware 0x1000 8)) rsdp_places = Some 0xE0010"
    unfolding rsdp_places_def n by (simp del: upt_rec_numeral)
  then show ?thesis
    using find_rsdp_first [of 4096 demo_firmware "0x1000"] by simp
qed

text \<open>
  In version 0 the structure ends after 20 bytes and its checksum covers those. The code sums 24, since the
  compiler gives the structure 40 bytes, so a correct one is skipped unless the next four bytes add up to 0.
\<close>

lemma rsdp_checksum_too_long:
  assumes "m (p + 15) = 0" "calc_chksum m p 20 = 0"
  shows "rsdp_accepted m p \<longleftrightarrow> m (p + 20) + m (p + 21) + m (p + 22) + m (p + 23) = 0"
proof -
  have "[0..<24] = [0..<20] @ [20, 21, 22, 23 :: nat]"
    by (simp add: upt_rec)
  then have "calc_chksum m p 24 = calc_chksum m p 20 + m (p + 20) + m (p + 21) + m (p + 22) + m (p + 23)"
    unfolding calc_chksum_def by (simp del: upt_rec_numeral)
  then show ?thesis
    unfolding rsdp_accepted_def rsdp_sizes using assms by simp
qed

section \<open>The list of processors\<close>

text \<open>
  A table of interrupt controllers is the concatenation of its entries, each of which carries its length. The
  processors are the entries of type 0 whose enabled bit is set.
\<close>

definition madt_entry :: "u8 list \<Rightarrow> bool" where
  "madt_entry e \<longleftrightarrow> 2 \<le> length e \<and> length e < 256 \<and> e ! 1 = of_nat (length e) \<and> (e ! 0 = 0 \<longrightarrow> 8 \<le> length e)"

definition cpu_entry :: "u8 list \<Rightarrow> bool" where
  "cpu_entry e \<longleftrightarrow> e ! 0 = 0 \<and> e ! 4 AND 1 \<noteq> 0"

definition cpu_ids :: "u8 list list \<Rightarrow> u8 list" where
  "cpu_ids es = map (\<lambda>e. e ! 3) (filter cpu_entry es)"

primrec store_bytes :: "mem \<Rightarrow> addr \<Rightarrow> u8 list \<Rightarrow> mem" where
  "store_bytes m a [] = m"
| "store_bytes m a (x # xs) = store_bytes (m(a := x)) (a + 1) xs"

lemma store_bytes_other: "\<not> in_range a (length xs) x \<Longrightarrow> length xs < 2 ^ 64 \<Longrightarrow> store_bytes m a xs x = m x"
  by (induction xs arbitrary: m a) (auto simp: in_range_step)

lemma store_ids_other:
  "length xs < 256 \<Longrightarrow> \<not> in_range a 256 x \<Longrightarrow> store_bytes m a xs x = m x"
  using in_range_mono [of a "length xs" x 256] by (intro store_bytes_other) auto

lemma bytes_at_store_bytes: "length xs < 2 ^ 64 \<Longrightarrow> bytes_at (store_bytes m a xs) a (length xs) = xs"
proof (induction xs arbitrary: m a)
  case (Cons x xs)
  then have "store_bytes (m(a := x)) (a + 1) xs a = x"
    using store_bytes_other [of "a + 1" xs a] not_in_range_succ [of "length xs" a] by simp
  with Cons show ?case
    by simp
qed simp

lemma in_id_array: "in_range a 256 (a + ucast (n :: u8))"
proof -
  have n: "unat n < 256"
    using unsigned_less [of n, where ?'a = nat] by simp
  then have "unat (ucast n :: u64) = unat n"
    by (simp add: unsigned_ucast_eq take_bit_eq_mod)
  with n show ?thesis
    by (simp add: in_range_def)
qed

lemma madt_loop_step:
  assumes "madt_entry e" "bytes_at m p (length e) = e" "p < stop"
    and "\<forall>i<length e. \<not> in_range ids 256 (p + of_nat i)"
  shows "madt_loop ids p stop n m
     = (if cpu_entry e then madt_loop ids (p + of_nat (length e)) stop (n + 1) (m(ids + ucast n := e ! 3))
        else madt_loop ids (p + of_nat (length e)) stop n m)"
proof -
  have len: "2 \<le> length e" "length e < 256" "e ! 1 = of_nat (length e)"
    using assms(1) by (simp_all add: madt_entry_def)
  have m: "i < length e \<Longrightarrow> m (p + of_nat i) = e ! i" for i
    using nth_bytes_at [of i "length e" m p] assms(2) by simp
  have m01: "m p = e ! 0" "m (p + 1) = e ! 1"
    using m [of 0] m [of 1] len by (cases "e = []"; simp)+
  have "p + 1 \<noteq> ids + ucast n"
    using assms(4) len(1) in_id_array [of ids n] by (metis less_le_trans of_nat_1 one_less_numeral_iff semiring_norm(76))
  then have m1: "(m(ids + ucast n := v)) (p + 1) = e ! 1" for v
    using m01 by simp
  have adv: "ucast (e ! 1) = (of_nat (length e) :: u64)"
    unfolding len(3) using len(2) by (simp add: word_unat_eq_iff unsigned_ucast_eq unsigned_of_nat take_bit_eq_mod)
  have m34: "m (p + 3) = e ! 3 \<and> m (p + 4) = e ! 4" if "e ! 0 = 0"
    using that m [of 3] m [of 4] assms(1) by (simp add: madt_entry_def)
  have test: "m p = 0 \<and> m (p + 4) AND 1 \<noteq> 0 \<longleftrightarrow> cpu_entry e"
    using m34 m01(1) by (auto simp: cpu_entry_def)
  have next1: "ucast (m (p + 1)) = (of_nat (length e) :: u64)" "ucast ((m(ids + ucast n := v)) (p + 1)) = (of_nat (length e) :: u64)" for v
    using m1 m01(2) adv by simp_all
  have "madt_loop ids p stop n m
     = (let (m1, n1) = (if cpu_entry e then (m(ids + ucast n := m (p + 3)), n + 1) else (m, n))
        in madt_loop ids (p + ucast (m1 (p + 1))) stop n1 m1)"
    using assms(3) test by (subst madt_loop.simps) (simp only: if_True)
  then show ?thesis
    using m34 by (simp only: Let_def split: if_split) (auto simp only: case_prod_conv next1 cpu_entry_def)
qed

lemma madt_loop_entries:
  assumes "\<forall>e\<in>set es. madt_entry e" "bytes_at m p (length (concat es)) = concat es"
    and "unat p + length (concat es) \<le> unat stop" "unat n + length (cpu_ids es) < 256"
    and "\<forall>i<length (concat es). \<not> in_range ids 256 (p + of_nat i)"
  shows "madt_loop ids p stop n m
     = madt_loop ids (p + of_nat (length (concat es))) stop (n + of_nat (length (cpu_ids es)))
         (store_bytes m (ids + ucast n) (cpu_ids es))"
  using assms
proof (induction es arbitrary: p n m)
  case Nil
  then show ?case
    by (simp add: cpu_ids_def)
next
  case (Cons e es)
  let ?l = "length e" and ?r = "length (concat es)"
  have e: "madt_entry e" "2 \<le> ?l" "?l < 256"
    using Cons.prems(1) by (simp_all add: madt_entry_def)
  have split: "bytes_at m p ?l = e" "bytes_at m (p + of_nat ?l) ?r = concat es"
    using Cons.prems(2) by (simp_all add: bytes_at_add)
  have lt: "p < stop" "unat (p + of_nat ?l) = unat p + ?l"
    using Cons.prems(3) e(2) unat_lt_2p64 [of stop] by (simp_all add: word_less_nat_alt unat_word_ariths unat_of_nat_64)
  have D: "\<forall>i<?l. \<not> in_range ids 256 (p + of_nat i)" "\<forall>i<?r. \<not> in_range ids 256 (p + of_nat ?l + of_nat i)"
    using Cons.prems(5) by (auto simp: add.assoc simp flip: of_nat_add)
  note step = madt_loop_step [OF e(1) split(1) lt(1) D(1)]
  show ?case
  proof (cases "cpu_entry e")
    case True
    have n: "unat (n + 1) = unat n + 1" "ucast (n + 1) = (ucast n + 1 :: u64)"
      using Cons.prems(4) True unsigned_less [of n, where ?'a = nat]
      by (simp_all add: cpu_ids_def unat_word_ariths word_unat_eq_iff unsigned_ucast_eq take_bit_eq_mod)
    define m1 where "m1 = m(ids + ucast n := e ! 3)"
    have "bytes_at m1 (p + of_nat ?l) ?r = concat es"
      using split(2) D(2) in_id_array [of ids n] unfolding m1_def by (subst bytes_at_cong [of _ _ _ m]) auto
    then show ?thesis
      using Cons.IH [of m1 "p + of_nat ?l" "n + 1"] Cons.prems True lt n D step [of n] unfolding m1_def [symmetric]
      by (simp add: cpu_ids_def algebra_simps flip: m1_def)
  next
    case False
    then show ?thesis
      using Cons.IH [of m "p + of_nat ?l" n] Cons.prems split lt D step by (simp add: cpu_ids_def algebra_simps)
  qed
qed

text \<open>The tables that the root table points to.\<close>

definition table_count :: "mem \<Rightarrow> addr \<Rightarrow> nat" where
  "table_count m rsdt = (let w = unat (entry_width m rsdt) in (unat (load32 m (rsdt + 4)) - 36 + (w - 1)) div w)"

definition acpi_tables :: "mem \<Rightarrow> addr \<Rightarrow> addr list" where
  "acpi_tables m rsdt = map (\<lambda>i. table_entry m rsdt (rsdt + 36 + entry_width m rsdt * of_nat i)) [0..<table_count m rsdt]"

definition named :: "mem \<Rightarrow> addr \<Rightarrow> addr \<Rightarrow> bool" where
  "named m lit t \<longleftrightarrow> bytes_at m t 4 = bytes_at m lit 4"

lemma width_cases: "entry_width m rsdt = 8 \<or> entry_width m rsdt = 4"
  by (simp add: entry_width_def)

lemma ceiling_index:
  assumes "0 < w"
  shows "i < (n + (w - 1)) div w \<longleftrightarrow> w * i < (n :: nat)"
proof -
  have "i < (n + (w - 1)) div w \<longleftrightarrow> Suc i * w \<le> n + (w - 1)"
    unfolding Suc_le_eq [symmetric] by (rule less_eq_div_iff_mult_less_eq [OF assms])
  then show ?thesis
    using assms by (auto simp: algebra_simps)
qed

lemma table_places:
  assumes "unat rsdt + unat (load32 m (rsdt + 4)) + 44 < 2 ^ 64" "i \<le> table_count m rsdt"
  shows "rsdt + 36 + entry_width m rsdt * of_nat i < rsdt + ucast (load32 m (rsdt + 4)) \<longleftrightarrow> i < table_count m rsdt"
proof -
  let ?w = "unat (entry_width m rsdt)" and ?l = "unat (load32 m (rsdt + 4))"
  have w: "0 < ?w" "?w \<le> 8"
    using width_cases [of m rsdt] by auto
  have "table_count m rsdt * ?w \<le> ?l - 36 + (?w - 1)"
    unfolding table_count_def Let_def by (rule div_times_less_eq_dividend)
  moreover have "i * ?w \<le> table_count m rsdt * ?w"
    using assms(2) by (rule mult_le_mono1)
  ultimately have i: "?w * i \<le> ?l + 8"
    using w by (subst mult.commute) linarith
  have "?w * i < 2 ^ 64" "i \<le> ?w * i"
    using i assms(1) w(1) by simp_all
  then have "unat (entry_width m rsdt * of_nat i) = ?w * i"
    using unat_of_nat_64 [of i] le_less_trans [of i "?w * i"] by (simp add: unat_word_ariths)
  then have "unat (rsdt + 36 + entry_width m rsdt * of_nat i) = unat rsdt + 36 + ?w * i"
    using i assms(1) by (simp add: unat_word_ariths)
  moreover have "unat (rsdt + ucast (load32 m (rsdt + 4))) = unat rsdt + ?l"
    using assms(1) by (simp add: unat_word_ariths unat_ucast_up)
  ultimately show ?thesis
    using ceiling_index [OF w(1), of i "?l - 36"] by (auto simp: word_less_nat_alt table_count_def Let_def)
qed

lemma find_madt_find:
  assumes "unat rsdt + unat (load32 m (rsdt + 4)) + 44 < 2 ^ 64" "i \<le> table_count m rsdt"
  shows "find_madt m lit rsdt (rsdt + ucast (load32 m (rsdt + 4))) (rsdt + 36 + entry_width m rsdt * of_nat i)
     = Some (find (named m lit) (map (\<lambda>i. table_entry m rsdt (rsdt + 36 + entry_width m rsdt * of_nat i)) [i..<table_count m rsdt]))"
  using assms(2)
proof (induction "table_count m rsdt - i" arbitrary: i)
  case 0
  then have "\<not> rsdt + 36 + entry_width m rsdt * of_nat i < rsdt + ucast (load32 m (rsdt + 4))"
    using table_places [OF assms(1), of i] by simp
  with 0 show ?case
    by (subst find_madt.simps) simp
next
  case (Suc k)
  let ?p = "rsdt + 36 + entry_width m rsdt * of_nat i"
  have i: "i < table_count m rsdt"
    using Suc.hyps(2) by linarith
  then have lt: "?p < rsdt + ucast (load32 m (rsdt + 4))"
    using table_places [OF assms(1), of i] by simp
  obtain c where c: "memcmp m (table_entry m rsdt ?p) lit 4 = Some c" "c = 0 \<longleftrightarrow> named m lit (table_entry m rsdt ?p)"
    using memcmp_result [of m "table_entry m rsdt ?p" lit 4] by (auto simp: named_def)
  have IH: "find_madt m lit rsdt (rsdt + ucast (load32 m (rsdt + 4))) (?p + entry_width m rsdt)
     = Some (find (named m lit) (map (\<lambda>i. table_entry m rsdt (rsdt + 36 + entry_width m rsdt * of_nat i)) [Suc i..<table_count m rsdt]))"
    using Suc.hyps(1) [of "Suc i"] Suc.hyps(2) i by (simp add: algebra_simps)
  show ?case
    using i lt c IH by (subst find_madt.simps) (simp add: upt_conv_Cons)
qed

lemma scan_cpus_table:
  assumes "unat rsdt + unat (load32 m (rsdt + 4)) + 44 < 2 ^ 64"
    and "find (named m lit) (acpi_tables m rsdt) = Some t"
    and "unat t + unat (load32 m (t + 4)) < 2 ^ 64" "unat (load32 m (t + 4)) = 44 + n"
    and "\<forall>e\<in>set es. madt_entry e" "bytes_at m (t + 44) (length (concat es)) = concat es" "length (concat es) \<le> n"
    and "ranges_disjoint ids 256 (t + 44) n" "length (cpu_ids es) < 256"
  shows "scan_cpus lit rsdt ids m
     = madt_loop ids (t + 44 + of_nat (length (concat es))) (t + 44 + of_nat n) (of_nat (length (cpu_ids es)))
         (store_bytes m ids (cpu_ids es))"
    and "unat (t + 44 + of_nat n) = unat t + 44 + n"
proof -
  have n: "n < 2 ^ 64" "unat t + 44 + n < 2 ^ 64"
    using assms(3,4) by simp_all
  then have u: "unat (t + 44) = unat t + 44" "unat (of_nat n :: u64) = n"
    by (simp_all add: unat_word_ariths unat_of_nat_64)
  then show stop: "unat (t + 44 + of_nat n) = unat t + 44 + n"
    using n(2) by (simp add: unat_word_ariths)
  have "t + ucast (load32 m (t + 4)) = t + 44 + of_nat n"
    using stop assms(3,4) by (simp add: word_unat_eq_iff unat_word_ariths unat_ucast_up)
  moreover have "find_madt m lit rsdt (rsdt + ucast (load32 m (rsdt + 4))) (rsdt + 36) = Some (Some t)"
    using find_madt_find [OF assms(1), of 0 lit] assms(2) by (simp add: acpi_tables_def)
  moreover have "\<forall>i<length (concat es). \<not> in_range ids 256 (t + 44 + of_nat i)"
  proof (intro allI impI notI)
    fix i
    assume i: "i < length (concat es)" and r: "in_range ids 256 (t + 44 + of_nat i)"
    have "in_range (t + 44) n (t + 44 + of_nat i)"
      using i assms(7) n(1) unat_of_nat_64 [of i] by (simp add: in_range_def)
    with ranges_disjoint_not_both [OF assms(8) r] show False .
  qed
  ultimately show "scan_cpus lit rsdt ids m
     = madt_loop ids (t + 44 + of_nat (length (concat es))) (t + 44 + of_nat n) (of_nat (length (cpu_ids es)))
         (store_bytes m ids (cpu_ids es))"
    using madt_loop_entries [OF assms(5,6), of "t + 44 + of_nat n" 0 ids] assms(7,9) stop u(1) by (simp add: scan_cpus_def add.assoc)
qed

definition demo_tables :: "u8 \<Rightarrow> mem" where
  "demo_tables second =
     (\<lambda>_. 0)(0x1000 := 0x41, 0x1001 := 0x50, 0x1002 := 0x49, 0x1003 := 0x43, 0x2000 := 0x52, 0x2004 := 40, 0x2025 := 0x30,
       0x3000 := 0x41, 0x3001 := 0x50, 0x3002 := 0x49, 0x3003 := 0x43, 0x3004 := 60,
       0x302C := 0, 0x302D := 8, 0x302F := 7, 0x3030 := 1, 0x3034 := second, 0x3035 := (if second = 0 then 8 else 0), 0x3037 := 9)"

lemma demo_lengths:
  "load32 (demo_tables x) (0x2000 + 4) = 40" "load32 (demo_tables x) (0x3000 + 4) = 60"
  by (simp_all add: load32_def demo_tables_def load_numeral)

lemma demo_entries:
  "bytes_at (demo_tables 0) (0x3000 + 44) 16 = concat [[0, 8, 0, 7, 1, 0, 0, 0], [0, 8, 0, 9, 0, 0, 0, 0]]"
  "bytes_at (demo_tables 3) (0x3000 + 44) (8 + 2) = concat [[0, 8, 0, 7, 1, 0, 0, 0]] @ [3, 0]"
  by code_simp+

lemma bytes_at_4: "bytes_at m a 4 = [m a, m (a + 1), m (a + 2), m (a + 3)]"
proof -
  have n: "(4 :: nat) = Suc (Suc (Suc (Suc 0)))"
    by simp
  show ?thesis
    unfolding n by (simp add: add.assoc)
qed

lemma demo_named:
  "bytes_at (demo_tables x) 0x1000 4 = [0x41, 0x50, 0x49, 0x43]" "bytes_at (demo_tables x) 0x3000 4 = [0x41, 0x50, 0x49, 0x43]"
  unfolding bytes_at_4 by (simp_all add: demo_tables_def)

lemma demo_width: "entry_width (demo_tables x) 0x2000 = 4" "table_entry (demo_tables x) 0x2000 (0x2000 + 36) = 0x3000"
  by (simp_all add: entry_width_def table_entry_def load32_def demo_tables_def load_numeral)

lemma demo_find: "find (named (demo_tables x) 0x1000) (acpi_tables (demo_tables x) 0x2000) = Some 0x3000"
  using demo_lengths(1) [of x] demo_width [of x] demo_named [of x]
  by (simp add: acpi_tables_def table_count_def named_def)

text \<open>
  C27: \<^verbatim>\<open>detect_cpus\<close> finds the table of interrupt controllers among the tables of the root table and lists the
  identifiers of the enabled processors, in the order of their entries, for any well-formed table with fewer
  than 256 of them; nothing outside the array of identifiers is written.
\<close>

theorem scan_cpus_lists_enabled:
  assumes "unat rsdt + unat (load32 m (rsdt + 4)) + 44 < 2 ^ 64"
    and "find (named m lit) (acpi_tables m rsdt) = Some t"
    and "unat t + unat (load32 m (t + 4)) < 2 ^ 64" "unat (load32 m (t + 4)) = 44 + length (concat es)"
    and "\<forall>e\<in>set es. madt_entry e" "bytes_at m (t + 44) (length (concat es)) = concat es"
    and "ranges_disjoint ids 256 (t + 44) (length (concat es))" "length (cpu_ids es) < 256"
  shows "\<exists>m'. scan_cpus lit rsdt ids m = Some (m', of_nat (length (cpu_ids es))) \<and>
     bytes_at m' ids (length (cpu_ids es)) = cpu_ids es \<and> (\<forall>x. in_range ids 256 x \<or> m' x = m x)"
proof -
  note sc = scan_cpus_table [OF assms(1-6) order_refl assms(7,8)]
  have "scan_cpus lit rsdt ids m = Some (store_bytes m ids (cpu_ids es), of_nat (length (cpu_ids es)))"
    unfolding sc(1) by (subst madt_loop.simps) simp
  moreover have "bytes_at (store_bytes m ids (cpu_ids es)) ids (length (cpu_ids es)) = cpu_ids es"
    using assms(8) by (intro bytes_at_store_bytes) simp
  moreover have "in_range ids 256 x \<or> store_bytes m ids (cpu_ids es) x = m x" for x
    using assms(8) store_bytes_other [of ids "cpu_ids es" x m] in_range_mono [of ids "length (cpu_ids es)" x 256] by auto
  ultimately show ?thesis
    by blast
qed

theorem scan_cpus_lists_enabled_witness:
  "\<exists>m'. scan_cpus 0x1000 0x2000 0x5000 (demo_tables 0) = Some (m', 1) \<and> bytes_at m' 0x5000 1 = [7]"
proof -
  let ?es = "[[0, 8, 0, 7, 1, 0, 0, 0], [0, 8, 0, 9, 0, 0, 0, 0]] :: u8 list list"
  have ids: "cpu_ids ?es = [7]" "\<forall>e\<in>set ?es. madt_entry e" "length (concat ?es) = 16"
    by (simp_all add: cpu_ids_def cpu_entry_def madt_entry_def)
  have "ranges_disjoint 0x5000 256 (0x3000 + 44) (length (concat ?es))"
    by (simp add: ranges_disjoint_def)
  moreover have "bytes_at (demo_tables 0) (0x3000 + 44) (length (concat ?es)) = concat ?es"
    unfolding ids(3) by (rule demo_entries)
  ultimately show ?thesis
    using scan_cpus_lists_enabled [OF _ demo_find _ _ ids(2), of 0 "0x5000"]
    unfolding ids(1,3) demo_lengths by auto
qed

lemma madt_zero_length_loops:
  assumes "m (p + 1) = 0" "m p \<noteq> 0" "p < stop"
  shows "madt_loop ids p stop n m = None"
proof -
  let ?P = "\<lambda>ids' p' stop' (n' :: u8) m' (r :: mem \<times> u8). \<not> (p' < stop' \<and> m' (p' + 1) = 0 \<and> m' p' \<noteq> 0)"
  have "?P ids p stop n m r" if "madt_loop ids p stop n m = Some r" for r
  proof (rule madt_loop.raw_induct [where P = ?P, OF _ that])
    fix f ids' p' stop' n' m' r'
    assume IH: "\<And>ids p stop n m r. f ids p stop n m = Some r \<Longrightarrow> ?P ids p stop n m r"
      and eq: "(if p' < stop'
        then (let (m1, n1) = (if m' p' = 0 \<and> m' (p' + 4) AND 1 \<noteq> 0 then (m'(ids' + ucast n' := m' (p' + 3)), n' + 1) else (m', n'))
              in f ids' (p' + ucast (m1 (p' + 1))) stop' n1 m1)
        else Some (m', n')) = Some r'"
    show "?P ids' p' stop' n' m' r'"
    proof
      assume h: "p' < stop' \<and> m' (p' + 1) = 0 \<and> m' p' \<noteq> 0"
      then have "f ids' p' stop' n' m' = Some r'"
        using eq by simp
      with IH h show False
        by blast
    qed
  qed
  with assms show ?thesis
    by (cases "madt_loop ids p stop n m") auto
qed

text \<open>
  An entry of length 0 behind well-formed entries makes \<^verbatim>\<open>detect_cpus\<close> read it for ever: the table comes from the
  firmware and its lengths are not checked.
\<close>

theorem scan_cpus_zero_length_hangs:
  assumes "unat rsdt + unat (load32 m (rsdt + 4)) + 44 < 2 ^ 64"
    and "find (named m lit) (acpi_tables m rsdt) = Some t"
    and "unat t + unat (load32 m (t + 4)) < 2 ^ 64" "unat (load32 m (t + 4)) = 44 + n"
    and "\<forall>e\<in>set es. madt_entry e" "bytes_at m (t + 44) (length (concat es) + 2) = concat es @ [type, 0]"
    and "length (concat es) + 2 \<le> n" "type \<noteq> 0"
    and "ranges_disjoint ids 256 (t + 44) n" "length (cpu_ids es) < 256"
  shows "scan_cpus lit rsdt ids m = None"
proof -
  let ?q = "t + 44 + of_nat (length (concat es))" and ?l = "length (concat es)"
  have b: "bytes_at m (t + 44) ?l = concat es" "m ?q = type" "m (?q + 1) = 0"
  proof -
    have "bytes_at m (t + 44) ?l @ bytes_at m ?q 2 = concat es @ [type, 0]"
      using assms(6) by (simp only: bytes_at_add)
    moreover have "bytes_at m ?q 2 = [m ?q, m (?q + 1)]"
      by (simp add: numeral_2_eq_2)
    ultimately show "bytes_at m (t + 44) ?l = concat es" "m ?q = type" "m (?q + 1) = 0"
      by simp_all
  qed
  note sc = scan_cpus_table [OF assms(1-5) b(1) _ assms(9,10)]
  have l: "?l \<le> n" "unat (t + 44 + of_nat n) = unat t + 44 + n"
    using assms(7) sc(2) by simp_all
  have "\<not> in_range ids 256 (t + 44 + of_nat i)" if "i < n" for i
  proof
    assume r: "in_range ids 256 (t + 44 + of_nat i)"
    have "in_range (t + 44) n (t + 44 + of_nat i)"
      using that assms(3,4) unat_of_nat_64 [of i] by (simp add: in_range_def)
    with ranges_disjoint_not_both [OF assms(9) r] show False .
  qed
  from this [of ?l] this [of "?l + 1"] have "\<not> in_range ids 256 ?q" "\<not> in_range ids 256 (?q + 1)"
    using assms(7) by (simp_all add: algebra_simps)
  then have "store_bytes m ids (cpu_ids es) ?q = type" "store_bytes m ids (cpu_ids es) (?q + 1) = 0"
    using b(2,3) by (simp_all only: store_ids_other [OF assms(10)] not_False_eq_True)
  moreover have "?q < t + 44 + of_nat n"
  proof -
    have "unat ?q = unat t + 44 + ?l"
      using l assms(3,4) unat_of_nat_64 [of ?l] by (simp add: unat_word_ariths)
    then show ?thesis
      using l assms(7) by (simp add: word_less_nat_alt)
  qed
  ultimately show ?thesis
    unfolding sc(1) [OF l(1)] using assms(8) by (intro madt_zero_length_loops) simp_all
qed

theorem scan_cpus_zero_length_hangs_witness:
  "scan_cpus 0x1000 0x2000 0x5000 (demo_tables 3) = None"
proof -
  let ?es = "[[0, 8, 0, 7, 1, 0, 0, 0]] :: u8 list list"
  have ids: "cpu_ids ?es = [7]" "\<forall>e\<in>set ?es. madt_entry e" "length (concat ?es) = 8"
    by (simp_all add: cpu_ids_def cpu_entry_def madt_entry_def)
  have "ranges_disjoint 0x5000 256 (0x3000 + 44) 16"
    by (simp add: ranges_disjoint_def)
  moreover have "bytes_at (demo_tables 3) (0x3000 + 44) (length (concat ?es) + 2) = concat ?es @ [3, 0]"
    unfolding ids(3) by (rule demo_entries)
  ultimately show ?thesis
    using scan_cpus_zero_length_hangs [OF _ demo_find _ _ ids(2), of 3 16 3 "0x5000"]
    unfolding ids(1,3) demo_lengths by simp
qed

end
