(* ===== verification/Mtask.thy ===== *)
theory Mtask
  imports Acpi Scheduler Printf
begin

unbundle bit_operations_syntax

text \<open>
  The start of multitasking (\<^verbatim>\<open>modules/mtask/mtask.c\<close>) and processes (\<^verbatim>\<open>process.c\<close>): listing and starting the
  other processors, the task state segments, and the switch timer. The state puts those of the parts together;
  they share the kernel heap, which is the one in the state of \<^theory_text>\<open>Vmemory\<close>, and the history of device accesses.
  Addresses of functions, literals and static variables are in \<open>mtask_env\<close>, with the devices; what another
  processor has written to the boot flag is a function of the history, like the value of a device register.
\<close>

section \<open>Processes\<close>

definition get_mem_hndl_size :: u64 where "get_mem_hndl_size = 8"

datatype process_field = Pr_memory_hndl | Pr_thread_cnt | Pr_threads

definition process_layout :: "(process_field \<times> nat \<times> nat) list" where
  "process_layout = [(Pr_memory_hndl, 8, 8), (Pr_thread_cnt, 8, 8), (Pr_threads, 8, 8)]"

definition process_at :: "addr \<Rightarrow> process_field \<Rightarrow> addr" where
  "process_at p f = p + of_nat (offset_from 0 process_layout f)"

datatype thread_field = Th_regs | Th_fx | Th_flags | Th_vruntime | Th_weight | Th_sleep_until | Th_sleep_overflow
  | Th_parent_proc | Th_tree | Th_hndl

definition thread_layout :: "(thread_field \<times> nat \<times> nat) list" where
  "thread_layout =
     [(Th_regs, 224, 16), (Th_fx, 512, 16), (Th_flags, 4, 4), (Th_vruntime, 8, 8), (Th_weight, 8, 8), (Th_sleep_until, 8, 8),
      (Th_sleep_overflow, 4, 4), (Th_parent_proc, 8, 8), (Th_tree, 8, 8), (Th_hndl, 8, 8)]"

definition sizeof_thread :: nat where "sizeof_thread = pad 16 (struct_end 0 thread_layout)"

definition thread_at :: "addr \<Rightarrow> thread_field \<Rightarrow> addr" where
  "thread_at p f = p + of_nat (offset_from 0 thread_layout f)"

definition create_process :: "unit map_hooks \<Rightarrow> addr \<Rightarrow> vmem \<Rightarrow> vmem option" where
  "create_process hooks pr s = do {
     (h, p) \<leftarrow> kmalloc hooks get_mem_hndl_size (vheap s);
     let s1 = st64 (process_at pr Pr_memory_hndl) p (set_vheap h s);
     (s2, _) \<leftarrow> create_mem_hndl hooks (ld64 (process_at pr Pr_memory_hndl) s1) s1;
     Some (st64 (process_at pr Pr_threads) NULL (st64 (process_at pr Pr_thread_cnt) 0 s2))
   }"

definition process_add_thread :: "unit map_hooks \<Rightarrow> addr \<Rightarrow> addr \<Rightarrow> vmem \<Rightarrow> (vmem \<times> addr) option" where
  "process_add_thread hooks pr th s = do {
     let s1 = st64 (process_at pr Pr_thread_cnt) (ld64 (process_at pr Pr_thread_cnt) s + 1) s;
     (h, p) \<leftarrow> krealloc hooks (ld64 (process_at pr Pr_threads) s1) (ld64 (process_at pr Pr_thread_cnt) s1 * of_nat sizeof_thread) (vheap s1);
     let s2 = st64 (process_at pr Pr_threads) p (set_vheap h s1);
     let slot = ld64 (process_at pr Pr_threads) s2 + (ld64 (process_at pr Pr_thread_cnt) s2 - 1) * of_nat sizeof_thread;
     let s3 = set_vmem_bytes (copied (vmem_bytes s2) slot th sizeof_thread) s2;
     let s4 = st64 (thread_at th Th_parent_proc) pr s3;
     Some (s4, ld64 (process_at pr Pr_threads) s4 + (ld64 (process_at pr Pr_thread_cnt) s4 - 1) * of_nat sizeof_thread)
   }"

section \<open>State\<close>

definition MTASK_ERR_CANT_FIND_RSDP :: int where "MTASK_ERR_CANT_FIND_RSDP = - 1"
definition MTASK_ERR_GATE_OOB :: int where "MTASK_ERR_GATE_OOB = - 3"
definition MTASK_AP_BOOT_TRY_COUNT :: nat where "MTASK_AP_BOOT_TRY_COUNT = 100"
definition MTASK_TSS_STACK_SIZE :: u64 where "MTASK_TSS_STACK_SIZE = 1024"
definition MTASK_SWITCH_TIMER_TIME :: u64 where "MTASK_SWITCH_TIMER_TIME = 10"
definition MTASK_SWITCH_TIMER_GATE :: u8 where "MTASK_SWITCH_TIMER_GATE = 0x30"
definition SMP_TRAMP_DATA_OFFSET :: u64 where "SMP_TRAMP_DATA_OFFSET = 0xA00"

datatype tramp_field = Tr_idt_ptr | Tr_gdt_ptr | Tr_page_table | Tr_boot_flag | Tr_tss | Tr_ap_timer_set_func | Tr_jmp_loc
  | Tr_no_code_fallback_jmp

definition tramp_layout :: "(tramp_field \<times> nat \<times> nat) list" where
  "tramp_layout =
     [(Tr_idt_ptr, 10, 1), (Tr_gdt_ptr, 10, 1), (Tr_page_table, 4, 1), (Tr_boot_flag, 1, 1), (Tr_tss, 2, 1),
      (Tr_ap_timer_set_func, 8, 1), (Tr_jmp_loc, 8, 1), (Tr_no_code_fallback_jmp, 8, 1)]"

definition tramp_at :: "addr \<Rightarrow> tramp_field \<Rightarrow> addr" where
  "tramp_at p f = p + of_nat (offset_from 0 tramp_layout f)"

record mtask_env =
  e_hooks :: "unit map_hooks"
  e_insn :: cpuid_insn
  e_dev :: device
  e_boot_flag :: "io_hist \<Rightarrow> u8"
  e_rsd_lit :: addr
  e_apic_lit :: addr
  e_status_lit :: "nat \<Rightarrow> addr"
  e_end_lit :: "bool \<Rightarrow> addr"
  e_message :: "nat \<Rightarrow> addr"
  e_tramp_start :: addr
  e_tramp_end :: addr
  e_ap_set_timer :: addr
  e_switch :: addr
  e_bsp_lapic_id :: addr
  e_raw_tree :: thread_tree
  e_raw_pq :: thread_pqueue
  e_raw_val :: u64
  e_clk_period :: u64

record 't mtask =
  m_vmem :: vmem
  m_cpu :: cpu_st
  m_idt :: idt_st
  m_sched :: sched
  m_log :: "'t boot_log"
  m_hpet :: hpet_st
  m_core_num :: u8
  m_lapic_ids :: addr
  m_core_info :: addr
  m_tr :: "u16 option"

definition mbytes :: "'t mtask \<Rightarrow> mem" where "mbytes s = vmem_bytes (m_vmem s)"

definition set_mbytes :: "mem \<Rightarrow> 't mtask \<Rightarrow> 't mtask" where
  "set_mbytes m s = s\<lparr>m_vmem := set_vmem_bytes m (m_vmem s)\<rparr>"

definition mhist :: "'t mtask \<Rightarrow> io_hist" where "mhist s = cpu_hist (m_cpu s)"

definition set_mhist :: "io_hist \<Rightarrow> 't mtask \<Rightarrow> 't mtask" where
  "set_mhist h s = s\<lparr>m_cpu := (m_cpu s)\<lparr>cpu_hist := h\<rparr>\<rparr>"

definition kmalloc_m :: "mtask_env \<Rightarrow> u64 \<Rightarrow> 't mtask \<Rightarrow> ('t mtask \<times> addr) option" where
  "kmalloc_m e z s = do {
     (h, p) \<leftarrow> kmalloc (e_hooks e) z (vheap (m_vmem s));
     Some (s\<lparr>m_vmem := set_vheap h (m_vmem s)\<rparr>, p)
   }"

definition memset_m :: "addr \<Rightarrow> u64 \<Rightarrow> 't mtask \<Rightarrow> 't mtask option" where
  "memset_m p n s = do { (m, _) \<leftarrow> memset (mbytes s) p 0 n; Some (set_mbytes m s) }"

section \<open>Progress messages\<close>

text \<open>
  The macro puts the coloured status before the text and the end of the line behind it; the three literals are
  one format string, with the status and the end as its first and last argument.
\<close>

definition BOOT_LOG_STATUS_RUNNING :: nat where "BOOT_LOG_STATUS_RUNNING = 0"
definition BOOT_LOG_STATUS_SUCCESS :: nat where "BOOT_LOG_STATUS_SUCCESS = 1"
definition BOOT_LOG_STATUS_FAIL :: nat where "BOOT_LOG_STATUS_FAIL = 2"
definition BOOT_LOG_STATUS_NLINE :: nat where "BOOT_LOG_STATUS_NLINE = 3"

definition boot_log_printf_status ::
  "mem \<Rightarrow> (nat \<Rightarrow> addr) \<Rightarrow> (bool \<Rightarrow> addr) \<Rightarrow> nat \<Rightarrow> addr \<Rightarrow> va list \<Rightarrow> 't boot_log \<Rightarrow> 't boot_log option" where
  "boot_log_printf_status m status_lit end_lit status fmt args b =
     (let full_line = (status = BOOT_LOG_STATUS_SUCCESS \<or> status = BOOT_LOG_STATUS_FAIL \<or> status = BOOT_LOG_STATUS_NLINE)
      in boot_log_printf m fmt (VPtr (status_lit status) # args @ [VPtr (end_lit full_line)]) (boot_log_print_nest_padding b))"

definition with_log :: "('t boot_log \<Rightarrow> 't boot_log option) \<Rightarrow> 't mtask \<Rightarrow> 't mtask option" where
  "with_log f s = do {
     b \<leftarrow> f ((m_log s)\<lparr>bl_uart := mhist s\<rparr>);
     Some (set_mhist (bl_uart b) (s\<lparr>m_log := b\<rparr>))
   }"

definition log_status :: "mtask_env \<Rightarrow> nat \<Rightarrow> nat \<Rightarrow> va list \<Rightarrow> 't mtask \<Rightarrow> 't mtask option" where
  "log_status e status msg args s =
     with_log (boot_log_printf_status (mbytes s) (e_status_lit e) (e_end_lit e) status (e_message e msg) args) s"

definition log_nest :: "bool \<Rightarrow> 't mtask \<Rightarrow> 't mtask option" where
  "log_nest deeper = with_log (\<lambda>b. Some (if deeper then boot_log_increase_nest_level b else boot_log_decrease_nest_level b))"

section \<open>Starting a processor\<close>

definition get_core_num :: "'t mtask \<Rightarrow> u8" where "get_core_num s = m_core_num s"

fun bsp_idx_from :: "mem \<Rightarrow> addr \<Rightarrow> u8 \<Rightarrow> nat list \<Rightarrow> nat" where
  "bsp_idx_from m ids bsp [] = 0"
| "bsp_idx_from m ids bsp (i # is) = (if m (ids + of_nat i) = bsp then i else bsp_idx_from m ids bsp is)"

definition get_bsp_idx :: "mtask_env \<Rightarrow> 't mtask \<Rightarrow> nat" where
  "get_bsp_idx e s = bsp_idx_from (mbytes s) (m_lapic_ids s) (mbytes s (e_bsp_lapic_id e)) [0..<unat (m_core_num s)]"

definition ap_set_timer :: "mtask_env \<Rightarrow> 't mtask \<Rightarrow> 't mtask \<times> int" where
  "ap_set_timer e s =
     (let h = apic_enable_spurious_ints (e_dev e) (mhist s)
      in (set_mhist (apic_set_timer (ticks_per_10ms (m_cpu s)) APIC_TIMER_PERIODIC MTASK_SWITCH_TIMER_TIME MTASK_SWITCH_TIMER_GATE h) s, 0))"

text \<open>The descriptor registers as \<^verbatim>\<open>sgdt\<close> and \<^verbatim>\<open>sidt\<close> store them.\<close>

definition store_table_reg :: "addr \<Rightarrow> u16 \<times> addr \<Rightarrow> mem \<Rightarrow> mem" where
  "store_table_reg p r m = store64 (store16 m p (fst r)) (p + 2) (snd r)"

definition fill_trampoline :: "mtask_env \<Rightarrow> nat \<Rightarrow> u32 \<Rightarrow> 't mtask \<Rightarrow> 't mtask option" where
  "fill_trampoline e core_ind task_reg s = do {
     let conv_mem = 0x9000;
     (m, _) \<leftarrow> memcpy (mbytes s) conv_mem (e_tramp_start e) (e_tramp_end e - e_tramp_start e);
     let data = conv_mem + SMP_TRAMP_DATA_OFFSET;
     g \<leftarrow> gdtr (cpu_gdt (m_cpu s));
     i \<leftarrow> idtr (m_idt s);
     let m = store16 m (tramp_at data Tr_tss) (ucast task_reg);
     let m = store_table_reg (tramp_at data Tr_gdt_ptr) g m;
     let m = store_table_reg (tramp_at data Tr_idt_ptr) i m;
     let m = store32 m (tramp_at data Tr_page_table) (ucast (cr3 (m_vmem s)));
     let m = m(tramp_at data Tr_boot_flag := 0);
     let m = store64 m (tramp_at data Tr_jmp_loc) (m_core_info s + 24 * of_nat core_ind);
     let m = store64 m (tramp_at data Tr_no_code_fallback_jmp) (m_core_info s + 24 * of_nat core_ind + 8);
     let m = store64 m (tramp_at data Tr_ap_timer_set_func) (e_ap_set_timer e);
     Some (set_mbytes m s)
   }"

definition send_ipi :: "u8 \<Rightarrow> u32 \<Rightarrow> io_hist \<Rightarrow> io_hist" where
  "send_ipi lapic_id cmd h =
     lapic_write LAPIC_REG_ICR0 cmd (lapic_write LAPIC_REG_ICR1 (push_bit 24 (ucast lapic_id)) h)"

text \<open>Polling the boot flag. The number of tries counts only polls that have seen 0.\<close>

partial_function (option) poll_boot_flag :: "device \<Rightarrow> (io_hist \<Rightarrow> u8) \<Rightarrow> nat \<Rightarrow> io_hist \<Rightarrow> (io_hist \<times> nat) option" where
  "poll_boot_flag dev flag tries h = do {
     let boot_flag = flag h;
     h1 \<leftarrow> pit_sleep_ms dev 5 h;
     if boot_flag = 0 then
       (if tries < MTASK_AP_BOOT_TRY_COUNT then poll_boot_flag dev flag (tries + 1) h1 else Some (h1, tries + 1))
     else Some (h1, tries)
   }"

declare poll_boot_flag.simps [code]

definition start_ap :: "mtask_env \<Rightarrow> nat \<Rightarrow> u32 \<Rightarrow> 't mtask \<Rightarrow> ('t mtask \<times> int) option" where
  "start_ap e core_ind task_reg s = do {
     s1 \<leftarrow> fill_trampoline e core_ind task_reg s;
     let lapic_id = mbytes s1 (m_lapic_ids s1 + of_nat core_ind);
     h \<leftarrow> pit_sleep_ms (e_dev e) 10 (send_ipi lapic_id LAPIC_IPI_INIT (mhist s1));
     h \<leftarrow> pit_sleep_ms (e_dev e) 5 (send_ipi lapic_id (LAPIC_IPI_STARTUP OR 0x9000 div 4096) h);
     (h, tries) \<leftarrow> poll_boot_flag (e_dev e) (e_boot_flag e) 0 h;
     Some (set_mhist h s1, if tries \<ge> MTASK_AP_BOOT_TRY_COUNT then 0 else 1)
   }"

section \<open>Initialisation\<close>

text \<open>A task state segment with its stack in the interrupt stack table, and its descriptor.\<close>

definition new_tss :: "mtask_env \<Rightarrow> 't mtask \<Rightarrow> ('t mtask \<times> u32) option" where
  "new_tss e s = do {
     (s, tr) \<leftarrow> kmalloc_m e (of_nat sizeof_tss) s;
     s \<leftarrow> memset_m tr (of_nat sizeof_tss) s;
     (s, tsss) \<leftarrow> kmalloc_m e MTASK_TSS_STACK_SIZE s;
     let s = set_mbytes (store64 (mbytes s) (tr + of_nat (offset_from 0 gdt_tss_layout Tss_ist)) (tsss + MTASK_TSS_STACK_SIZE)) s;
     let (g, gd) = gdt_add_tss_desc tr (cpu_gdt (m_cpu s));
     Some (s\<lparr>m_cpu := (m_cpu s)\<lparr>cpu_gdt := g\<rparr>\<rparr>, gd)
   }"

fun start_aps :: "mtask_env \<Rightarrow> nat list \<Rightarrow> 't mtask \<Rightarrow> 't mtask option" where
  "start_aps e [] s = Some s"
| "start_aps e (i # is) s =
     (let id = mbytes s (m_lapic_ids s + of_nat i) in
      if id \<noteq> mbytes s (e_bsp_lapic_id e) then do {
        (s, gd) \<leftarrow> new_tss e s;
        if gd = - 1 then do {
          s \<leftarrow> log_nest False s;
          s \<leftarrow> log_status e BOOT_LOG_STATUS_FAIL 1 [] s;
          log_nest True s
        } else do {
          s \<leftarrow> log_status e BOOT_LOG_STATUS_RUNNING 2 [VInt (ucast (mbytes s (m_lapic_ids s + of_nat i)))] s;
          (s, status) \<leftarrow> start_ap e i gd s;
          s \<leftarrow> (if status = 0
               then log_status e BOOT_LOG_STATUS_FAIL 3 [VInt (ucast (mbytes s (m_lapic_ids s + of_nat i)))] s
               else log_status e BOOT_LOG_STATUS_SUCCESS 2 [VInt (ucast (mbytes s (m_lapic_ids s + of_nat i)))] s);
          start_aps e is s
        }
      } else start_aps e is (s\<lparr>m_sched := (m_sched s)\<lparr>core_info := (core_info (m_sched s))[i :=
               (core_info (m_sched s) ! i)\<lparr>ci_flags := MTASK_CORE_FLAG_BSP\<rparr>]\<rparr>\<rparr>))"

text \<open>The scheduler allocates on the same heap.\<close>

definition scheduler_init_m :: "mtask_env \<Rightarrow> 't mtask \<Rightarrow> 't mtask option" where
  "scheduler_init_m e s = do {
     sc \<leftarrow> scheduler_init (e_hooks e) (e_raw_tree e) (e_raw_pq e) (e_raw_val e) (m_core_num s) (e_clk_period e)
            ((m_sched s)\<lparr>sheap := vheap (m_vmem s)\<rparr>);
     Some (s\<lparr>m_sched := sc, m_vmem := set_vheap (sheap sc) (m_vmem s)\<rparr>)
   }"

text \<open>
  The first timer block is switched on through the pointer of the list, by an ordinary access to memory; without
  a block, the null pointer is followed.
\<close>

definition enable_hpet :: "'t mtask \<Rightarrow> 't mtask option" where
  "enable_hpet s =
     (if hpet_timer_blocks (m_hpet s) = NULL then None
      else let block = load64 (mbytes s) (hpet_timer_blocks (m_hpet s));
               reg = load64 (mbytes s) (hpet_at block Hpet_addr) + 0x10
           in Some (set_mbytes (store64 (mbytes s) reg (load64 (mbytes s) reg OR 1)) s))"

definition zero_core :: core_info_t where
  "zero_core = \<lparr>jmp_loc = NULL, no_code_fallback_jmp = NULL, ci_flags = 0\<rparr>"

definition detect_cores :: "mtask_env \<Rightarrow> addr \<Rightarrow> 't mtask \<Rightarrow> 't mtask option" where
  "detect_cores e r s = do {
     (s, ids) \<leftarrow> kmalloc_m e 256 s;
     (v, n) \<leftarrow> detect_cpus (e_hooks e) (e_insn e) (e_apic_lit e) (RSDP_GET_PTR (mbytes s) r) ids (e_bsp_lapic_id e) (m_vmem s);
     (h, ids) \<leftarrow> krealloc (e_hooks e) ids (ucast n) (vheap v);
     let s = s\<lparr>m_vmem := set_vheap h v, m_core_num := n, m_lapic_ids := ids\<rparr>;
     (s, ci) \<leftarrow> kmalloc_m e (ucast n * 24) s;
     s \<leftarrow> memset_m ci (ucast n * 24) (s\<lparr>m_core_info := ci\<rparr>);
     Some (s\<lparr>m_sched := (m_sched s)\<lparr>core_info := replicate (unat n) zero_core\<rparr>\<rparr>)
   }"

definition mtask_init :: "mtask_env \<Rightarrow> 't mtask \<Rightarrow> ('t mtask \<times> int) option" where
  "mtask_init e s = do {
     s \<leftarrow> enable_hpet s;
     r \<leftarrow> find_rsdp (mbytes s) (e_rsd_lit e) get_mem_unit_size;
     if r = NULL then Some (s, MTASK_ERR_CANT_FIND_RSDP)
     else do {
       s \<leftarrow> detect_cores e r s;
       let n = m_core_num s;
       s \<leftarrow> log_status e BOOT_LOG_STATUS_RUNNING 0 [VInt (ucast n - 1)] s;
       s \<leftarrow> log_nest True s;
       s \<leftarrow> start_aps e [0..<unat n] s;
       s \<leftarrow> log_nest False s;
       s \<leftarrow> log_status e BOOT_LOG_STATUS_SUCCESS 0 [VInt (ucast n - 1)] s;
       s \<leftarrow> scheduler_init_m e s;
       (s, gd) \<leftarrow> new_tss e s;
       s \<leftarrow> (if gd = - 1 then log_status e BOOT_LOG_STATUS_FAIL 4 [] s else Some (s\<lparr>m_tr := Some (ucast gd)\<rparr>));
       let (i, ok) = cpu_interrupt_set_gate (e_switch e) (ucast MTASK_SWITCH_TIMER_GATE) CPU_INT_TYPE_INTERRUPT (m_idt s);
       let s = s\<lparr>m_idt := i\<rparr>;
       if ok = 0 then Some (s, MTASK_ERR_GATE_OOB)
       else Some (set_mhist (apic_set_timer (ticks_per_10ms (m_cpu s)) APIC_TIMER_PERIODIC MTASK_SWITCH_TIMER_TIME
                    MTASK_SWITCH_TIMER_GATE (mhist s)) s, 0)
     }
   }"

section \<open>The kernel heap stays locked\<close>

lemma vheap_set_vheap [simp]: "vheap (set_vheap h s) = h"
  by (simp add: vheap_def set_vheap_def)

lemma mtask_init_after_detection:
  assumes "krealloc (e_hooks e) p z h = Some (h1, r)" "p \<noteq> NULL"
  shows "kmalloc_m e y (s\<lparr>m_vmem := set_vheap h1 v, m_core_num := n, m_lapic_ids := q\<rparr>) = None"
  using krealloc_leaves_lock [OF assms] by (simp add: kmalloc_m_def kmalloc_locked)

text \<open>
  C21: \<^verbatim>\<open>mtask_init\<close> returns only when the root pointer of the firmware is missing. Otherwise it shrinks the list of
  processors with \<^verbatim>\<open>krealloc\<close>, which does not return or keeps the lock of the heap, so that the next allocation
  waits for ever: neither the scheduler nor another processor is started.
\<close>

theorem mtask_init_never_returns:
  assumes "enable_hpet s = Some s1" "kmalloc_m e 256 s1 = Some (s2, ids)" "ids \<noteq> NULL"
  shows "mtask_init e s =
     (if find_rsdp (mbytes s1) (e_rsd_lit e) get_mem_unit_size = Some NULL then Some (s1, MTASK_ERR_CANT_FIND_RSDP) else None)"
proof (cases "find_rsdp (mbytes s1) (e_rsd_lit e) get_mem_unit_size")
  case None
  then show ?thesis
    by (simp add: mtask_init_def assms(1))
next
  case (Some r)
  show ?thesis
  proof (cases "r = NULL")
    case True
    with Some show ?thesis
      by (simp add: mtask_init_def assms(1))
  next
    case False
    have "kmalloc_m e y (s2\<lparr>m_vmem := set_vheap h1 v, m_core_num := n, m_lapic_ids := q\<rparr>) = None"
      if "krealloc (e_hooks e) ids z h = Some (h1, p)" for z h h1 p y v n q
      using that assms(3) by (rule mtask_init_after_detection)
    then have "detect_cores e r s1 = None"
      by (auto simp: detect_cores_def assms(2) Let_def split: bind_splits)
    with Some False show ?thesis
      by (simp add: mtask_init_def assms(1))
  qed
qed

section \<open>Starting a processor\<close>

text \<open>The history after \<open>k\<close> sleeps of 5 ms.\<close>

definition after_sleeps :: "device \<Rightarrow> nat \<Rightarrow> io_hist \<Rightarrow> io_hist" where
  "after_sleeps dev k = (\<lambda>h. the (pit_sleep_ms dev 5 h)) ^^ k"

lemma poll_boot_flag_result:
  assumes "pit_fires dev" "t \<le> 100"
  shows "\<exists>k t'. poll_boot_flag dev flag t h = Some (after_sleeps dev (Suc k) h, t') \<and> t + k \<le> 100 \<and>
    (\<forall>j<k. flag (after_sleeps dev j h) = 0) \<and> (t + k < 100 \<longrightarrow> flag (after_sleeps dev k h) \<noteq> 0) \<and> (t' < 100 \<longleftrightarrow> t + k < 100)"
  using assms(2)
proof (induction "100 - t" arbitrary: t h)
  case 0
  then obtain k where "pit_sleep_ms dev 5 h = Some (h @ k)"
    using pit_sleep_no_pic [OF assms(1)] by blast
  with 0 show ?case
    by (subst poll_boot_flag.simps) (auto simp: MTASK_AP_BOOT_TRY_COUNT_def after_sleeps_def intro!: exI [of _ 0])
next
  case (Suc n)
  obtain l where l: "pit_sleep_ms dev 5 h = Some (h @ l)"
    using pit_sleep_no_pic [OF assms(1)] by blast
  have shift: "after_sleeps dev (Suc j) h = after_sleeps dev j (h @ l)" for j
    by (simp add: after_sleeps_def funpow_Suc_right l del: funpow.simps(2))
  have t: "t < 100" and n: "n = 100 - (t + 1)"
    using Suc.hyps(2) by linarith+
  show ?case
  proof (cases "flag h = 0")
    case True
    obtain k t' where IH: "poll_boot_flag dev flag (t + 1) (h @ l) = Some (after_sleeps dev (Suc k) (h @ l), t')" "t + 1 + k \<le> 100"
        "\<forall>j<k. flag (after_sleeps dev j (h @ l)) = 0" "t + 1 + k < 100 \<longrightarrow> flag (after_sleeps dev k (h @ l)) \<noteq> 0"
        "t' < 100 \<longleftrightarrow> t + 1 + k < 100"
      using Suc.hyps(1) [OF n, of "h @ l"] t by auto
    have "flag (after_sleeps dev j h) = 0" if "j < Suc k" for j
      using that True IH(3) shift by (cases j) (simp_all add: after_sleeps_def)
    then show ?thesis
      using IH True l t shift
      by (intro exI [of _ "Suc k"] exI [of _ t'], subst poll_boot_flag.simps) (simp add: MTASK_AP_BOOT_TRY_COUNT_def)
  next
    case False
    then show ?thesis
      using l t by (intro exI [of _ 0] exI [of _ t], subst poll_boot_flag.simps) (simp add: after_sleeps_def)
  qed
qed

text \<open>
  C22: \<^verbatim>\<open>start_ap\<close> returns. After the trampoline has been filled in, the processor gets an INIT message, 10 ms later a
  STARTUP message, and its boot flag is polled from 5 ms after that on, every 5 ms, up to the first poll that sees the
  flag set, but at most 101 times. The result is 1 exactly when that poll is among the first 100: a processor
  that the 101st poll sees is reported as failed.
\<close>

theorem start_ap_reports_first_100_polls:
  assumes "pit_fires (e_dev e)" "fill_trampoline e i gd s = Some s1"
  shows "\<exists>h1 h0 s' k.
     pit_sleep_ms (e_dev e) 10 (send_ipi (mbytes s1 (m_lapic_ids s1 + of_nat i)) LAPIC_IPI_INIT (mhist s1)) = Some h1 \<and>
     pit_sleep_ms (e_dev e) 5 (send_ipi (mbytes s1 (m_lapic_ids s1 + of_nat i)) (LAPIC_IPI_STARTUP OR 9) h1) = Some h0 \<and>
     k \<le> 100 \<and> (\<forall>j<k. e_boot_flag e (after_sleeps (e_dev e) j h0) = 0) \<and>
     (k < 100 \<longrightarrow> e_boot_flag e (after_sleeps (e_dev e) k h0) \<noteq> 0) \<and>
     start_ap e i gd s = Some (s', if k < 100 then 1 else 0) \<and>
     mhist s' = after_sleeps (e_dev e) (Suc k) h0 \<and> mbytes s' = mbytes s1"
proof -
  let ?id = "mbytes s1 (m_lapic_ids s1 + of_nat i)"
  obtain h1 where h1: "pit_sleep_ms (e_dev e) 10 (send_ipi ?id LAPIC_IPI_INIT (mhist s1)) = Some h1"
    using pit_sleep_no_pic [OF assms(1)] by blast
  obtain h0 where h0: "pit_sleep_ms (e_dev e) 5 (send_ipi ?id (LAPIC_IPI_STARTUP OR 9) h1) = Some h0"
    using pit_sleep_no_pic [OF assms(1)] by blast
  obtain k t where p: "poll_boot_flag (e_dev e) (e_boot_flag e) 0 h0 = Some (after_sleeps (e_dev e) (Suc k) h0, t)"
      "k \<le> 100" "\<forall>j<k. e_boot_flag e (after_sleeps (e_dev e) j h0) = 0"
      "k < 100 \<longrightarrow> e_boot_flag e (after_sleeps (e_dev e) k h0) \<noteq> 0" "t < 100 \<longleftrightarrow> k < 100"
    using poll_boot_flag_result [OF assms(1), of 0 "e_boot_flag e" h0] by auto
  let ?s' = "set_mhist (after_sleeps (e_dev e) (Suc k) h0) s1"
  have "start_ap e i gd s = Some (?s', if k < 100 then 1 else 0)"
    using assms(2) h1 h0 p(1,5) by (auto simp: start_ap_def Let_def MTASK_AP_BOOT_TRY_COUNT_def)
  moreover have "mhist ?s' = after_sleeps (e_dev e) (Suc k) h0" "mbytes ?s' = mbytes s1"
    by (simp_all add: mhist_def mbytes_def set_mhist_def)
  ultimately show ?thesis using h1 h0 p(2-4) by blast
qed

section \<open>A heap for the witnesses\<close>

definition hpet_heap :: kmem where
  "hpet_heap = fresh_heap\<lparr>kmem_mem := store64 (kmem_mem fresh_heap) 0x10 1\<rparr>"

lemma hpet_heap_inv: "kmem_inv [(KMEM_HEAP_BASE, 0)] hpet_heap" "kmem_spinlock hpet_heap = 0"
proof -
  have "heap_at (kmem_mem hpet_heap) [(KMEM_HEAP_BASE, 0)]"
    using fresh_heap_inv(1)
    by (simp add: kmem_inv_def heap_at_def hpet_heap_def hdr_simps kn_prev_def kn_next_def kn_sz_def KMEM_HEAP_BASE_def mem_simps ranges_disjoint_def)
  then show "kmem_inv [(KMEM_HEAP_BASE, 0)] hpet_heap" "kmem_spinlock hpet_heap = 0"
    using fresh_heap_inv by (simp_all add: kmem_inv_def hpet_heap_def)
qed

lemma hpet_heap_kmalloc: "\<exists>h. kmalloc None 256 hpet_heap = Some (h, 0x200030)"
proof -
  have "place 256 1 [(KMEM_HEAP_BASE, 0)] = ([(KMEM_HEAP_BASE, 0), (KMEM_HEAP_BASE + 24, 256)], KMEM_HEAP_BASE + 24, False)"
    by (simp add: place_def fit_pos_def align_up_def blk_end_def KMEM_HEAP_BASE_def)
  from kmalloc_align_place [OF _ hpet_heap_inv(1) _ _ this, of None] hpet_heap_inv(2)
  show ?thesis by (auto simp: kmalloc_def hooks_ok_def room_def blk_end_def KMEM_HEAP_BASE_def)
qed

lemma fresh_heap_zero: "\<not> in_range KMEM_HEAP_BASE 24 a \<Longrightarrow> kmem_mem fresh_heap a = 0"
  by (simp add: fresh_heap_def kmem_init_def hdr_simps)

lemma hpet_heap_zero: "\<not> in_range KMEM_HEAP_BASE 24 a \<Longrightarrow> \<not> in_range 0x10 8 a \<Longrightarrow> kmem_mem hpet_heap a = 0"
  by (simp add: hpet_heap_def mem_simps fresh_heap_zero)

lemma fresh_heap_load: "ranges_disjoint KMEM_HEAP_BASE 24 a 8 \<Longrightarrow> load64 (kmem_mem fresh_heap) a = 0"
  using load64_cong [of a "kmem_mem fresh_heap" "\<lambda>_. 0"] fresh_heap_zero ranges_disjoint_not_both [of KMEM_HEAP_BASE 24 a 8] by auto

text \<open>A state whose memory is that heap, with a list of timer blocks at 0x7000.\<close>

definition on_heap :: "kmem \<Rightarrow> 't mtask \<Rightarrow> 't mtask" where
  "on_heap h s = s\<lparr>m_vmem := set_vheap h (m_vmem s), m_hpet := \<lparr>hpet_timer_blocks = 0x7000, hpet_timer_blocks_cnt = 1\<rparr>\<rparr>"

lemma on_heap_simps [simp]:
  "mbytes (on_heap h s) = kmem_mem h" "vheap (m_vmem (on_heap h s)) = h" "m_hpet (on_heap h s) = \<lparr>hpet_timer_blocks = 0x7000, hpet_timer_blocks_cnt = 1\<rparr>"
  "set_mbytes m (on_heap h s) = on_heap (h\<lparr>kmem_mem := m\<rparr>) s"
  by (simp_all add: on_heap_def mbytes_def set_mbytes_def set_vmem_bytes_def vheap_def set_vheap_def)

theorem mtask_init_never_returns_witness:
  "\<forall>(s :: unit mtask) e. mtask_init (e\<lparr>e_hooks := None, e_rsd_lit := 0x1000\<rparr>) (on_heap fresh_heap s) = None"
proof (intro allI)
  fix s :: "unit mtask" and e :: mtask_env
  let ?e = "e\<lparr>e_hooks := None, e_rsd_lit := 0x1000\<rparr>" and ?s = "on_heap fresh_heap s"
  have "load64 (kmem_mem fresh_heap) 0x7000 = 0" "load64 (kmem_mem fresh_heap) 44 = 0" "load64 (kmem_mem fresh_heap) 0x10 = 0"
    by (rule fresh_heap_load, simp add: ranges_disjoint_def KMEM_HEAP_BASE_def)+
  then have h: "enable_hpet ?s = Some (on_heap hpet_heap s)"
    by (simp add: enable_hpet_def hpet_at_def hpet_desc_layout_def pad_def hpet_heap_def)
  obtain k where "kmalloc None 256 hpet_heap = Some (k, 0x200030)"
    using hpet_heap_kmalloc by blast
  then have k: "kmalloc_m ?e 256 (on_heap hpet_heap s) = Some (on_heap hpet_heap s\<lparr>m_vmem := set_vheap k (m_vmem (on_heap hpet_heap s))\<rparr>, 0x200030)"
    by (simp add: kmalloc_m_def)
  have z: "kmem_mem hpet_heap (0x1000 + of_nat i) = 0" "kmem_mem hpet_heap (0xE0000 + of_nat i) = 0" if "i < 64" for i
  proof -
    have "unat (of_nat i :: u64) = i"
      using that by (simp add: unat_of_nat_64)
    then have u: "unat (0x1000 + of_nat i :: u64) = 0x1000 + i" "unat (0xE0000 + of_nat i :: u64) = 0xE0000 + i"
      using that by (simp_all add: unat_word_ariths)
    show "kmem_mem hpet_heap (0x1000 + of_nat i) = 0" "kmem_mem hpet_heap (0xE0000 + of_nat i) = 0"
      using that by (rule_tac hpet_heap_zero; simp add: in_range_unat u KMEM_HEAP_BASE_def)+
  qed
  have "bytes_at (kmem_mem hpet_heap) 0x1000 8 = replicate 8 0" "bytes_at (kmem_mem hpet_heap) 0xE0000 8 = replicate 8 0"
    using z by (intro nth_equalityI; simp add: nth_bytes_at)+
  moreover have "fold (\<lambda>i sum. sum + kmem_mem hpet_heap (0xE0000 + of_nat i)) [0..<24] (0 :: u8) = fold (\<lambda>i sum. sum) [0..<24] 0"
    using z by (intro fold_cong) auto
  moreover have "fold (\<lambda>i sum. sum) xs (0 :: u8) = 0" for xs :: "nat list"
    by (induction xs) simp_all
  ultimately have acc: "is_rsdp (kmem_mem hpet_heap) (bytes_at (kmem_mem hpet_heap) 0x1000 8) 0xE0000"
    using z(2) [of 15] by (simp add: is_rsdp_def rsdp_accepted_def rsdp_sizes calc_chksum_def del: upt_rec_numeral)
  have "find_rsdp (kmem_mem hpet_heap) 0x1000 get_mem_unit_size = Some 0xE0000"
    using find_rsdp_loop_find [of "kmem_mem hpet_heap" "0x1000" _ 0, OF refl] acc rsdp_places_from [of 0]
    by (simp add: find_rsdp_def get_mem_unit_size_def PAGE_SIZE_def RSDP_SEARCH_START_def del: upt_rec_numeral)
  then show "mtask_init ?e ?s = None"
    using mtask_init_never_returns [OF h k] by simp
qed

theorem start_ap_reports_first_100_polls_witness:
  "\<forall>(s :: unit mtask) e. \<exists>s1. start_ap (e\<lparr>e_dev := demo_board, e_boot_flag := \<lambda>_. 1, e_tramp_start := 0, e_tramp_end := 0\<rparr>) 1 0x58
     (s\<lparr>m_cpu := \<lparr>cpu_hist = [], cpu_gdt = gdt_0\<lparr>gdtr := Some (0xFFFF, 0x1000)\<rparr>, ticks_per_10ms = 0\<rparr>,
        m_idt := \<lparr>idt_main = [], idtr = Some (4095, 0x2000)\<rparr>\<rparr>) = Some (s1, 1)"
proof (intro allI)
  fix s :: "unit mtask" and e :: mtask_env
  let ?e = "e\<lparr>e_dev := demo_board, e_boot_flag := \<lambda>_. 1, e_tramp_start := 0, e_tramp_end := 0\<rparr>"
  let ?s = "s\<lparr>m_cpu := \<lparr>cpu_hist = [], cpu_gdt = gdt_0\<lparr>gdtr := Some (0xFFFF, 0x1000)\<rparr>, ticks_per_10ms = 0\<rparr>,
        m_idt := \<lparr>idt_main = [], idtr = Some (4095, 0x2000)\<rparr>\<rparr>"
  have "memcpy m d 0 0 = Some (m, d)" for m d
    by (simp add: memcpy_def memcpy_words.simps memcpy_bytes.simps)
  then obtain s1 where "fill_trampoline ?e 1 0x58 ?s = Some s1"
    by (simp add: fill_trampoline_def Let_def)
  then obtain s' and k :: nat where "start_ap ?e 1 0x58 ?s = Some (s', if k < 100 then 1 else 0)" "\<forall>j<k. (1 :: u8) = 0"
    using start_ap_reports_first_100_polls [of ?e 1 "0x58" ?s s1] demo_board_ok(1) by (auto simp del: One_nat_def)
  then show "\<exists>s1. start_ap ?e 1 0x58 ?s = Some (s1, 1)"
    by (cases k) auto
qed

section \<open>Threads of a process\<close>

text \<open>
  A process that has a thread array gets a second thread only with the heap locked, if at all: the array grows
  through \<^verbatim>\<open>krealloc\<close>.
\<close>

lemma process_second_thread_blocks_heap:
  assumes "ld64 (process_at pr Pr_threads) s \<noteq> NULL" "process_add_thread hooks pr th s = Some (s', p)"
  shows "kmalloc hooks z (vheap s') = None"
proof -
  have f: "process_at pr Pr_thread_cnt = pr + 8" "process_at pr Pr_threads = pr + 16"
    by (simp_all add: process_at_def process_layout_def pad_def)
  have "ld64 (pr + 16) (st64 (pr + 8) v s) = ld64 (pr + 16) s" for v
    by (simp add: ld64_def st64_def mem_simps ranges_disjoint_def)
  then have "kmem_spinlock (vheap s') = 1"
    using assms by (auto simp: process_add_thread_def f Let_def st64_def set_vmem_bytes_def
        dest!: krealloc_leaves_lock split: bind_splits)
  then show ?thesis
    by (rule kmalloc_locked)
qed

end
