(* ===== verification/Exceptions.thy ===== *)
theory Exceptions
  imports Mtask
begin

unbundle bit_operations_syntax

text \<open>
  The exception handlers that the assembly stubs call (\<^verbatim>\<open>cpu/x86/isr.c\<close>): a message with the number of the
  exception and of the processor, after which the first handler halts. The address of the format string
  is an argument, as the compiler chooses it.
\<close>

section \<open>Handlers\<close>

definition BOOT_LOG_STATUS_WARN :: nat where "BOOT_LOG_STATUS_WARN = 4"

text \<open>The padding is written before the arguments of the message are evaluated.\<close>

definition exception_report :: "mtask_env \<Rightarrow> nat \<Rightarrow> addr \<Rightarrow> u64 \<Rightarrow> 't mtask \<Rightarrow> 't mtask option" where
  "exception_report e status fmt isr_num s = do {
     s1 \<leftarrow> with_log (\<lambda>b. Some (boot_log_print_nest_padding b)) s;
     let (h, lapic_id) = lapic_read (e_dev e) LAPIC_REG_ID (mhist s1);
     let s2 = set_mhist h s1;
     with_log (boot_log_printf (mbytes s2) fmt
       [VPtr (e_status_lit e status), VInt (ucast isr_num), VInt (drop_bit 24 lapic_id),
        VPtr (e_end_lit e (status = BOOT_LOG_STATUS_SUCCESS \<or> status = BOOT_LOG_STATUS_FAIL \<or> status = BOOT_LOG_STATUS_NLINE))]) s2
   }"

datatype handled = Halted | Resumed

text \<open>The first handler switches the interrupts off and halts; the second returns to the stub.\<close>

definition isr_exception_stub_func :: "mtask_env \<Rightarrow> addr \<Rightarrow> u64 \<Rightarrow> 't mtask \<Rightarrow> ('t mtask \<times> handled) option" where
  "isr_exception_stub_func e fmt isr_num s = do {
     s1 \<leftarrow> exception_report e BOOT_LOG_STATUS_FAIL fmt isr_num s;
     Some (s1\<lparr>m_log := (m_log s1)\<lparr>bl_if := False\<rparr>\<rparr>, Halted)
   }"

definition isr_exception_stub_func_noerr :: "mtask_env \<Rightarrow> addr \<Rightarrow> u64 \<Rightarrow> 't mtask \<Rightarrow> ('t mtask \<times> handled) option" where
  "isr_exception_stub_func_noerr e fmt isr_num s = do {
     s1 \<leftarrow> exception_report e BOOT_LOG_STATUS_WARN fmt isr_num s;
     Some (s1, Resumed)
   }"

section \<open>The message\<close>

definition ascii :: "string \<Rightarrow> u8 list" where
  "ascii = map (\<lambda>c. of_nat (of_char c))"

definition exception_pieces :: "addr \<Rightarrow> u8 list \<Rightarrow> addr \<Rightarrow> u8 list \<Rightarrow> string \<Rightarrow> u32 \<Rightarrow> u32 \<Rightarrow> piece list" where
  "exception_pieces st status en line_end kind num cpu =
     Str st status # map Lit (ascii '' CPU exception 0x'') @ Hexu num # map Lit (ascii kind) @ [Uns cpu, Str en line_end]"

definition exception_cpu :: "mtask_env \<Rightarrow> 't mtask \<Rightarrow> u32" where
  "exception_cpu e s = drop_bit 24 (snd (lapic_read (e_dev e) LAPIC_REG_ID (mhist s)))"

lemma lit_args: "concat (map (piece_args \<circ> Lit) xs) = []"
  by (induction xs) simp_all

lemma exception_pieces_args:
  "concat (map piece_args (exception_pieces st status en line_end kind num cpu)) = [VPtr st, VInt num, VInt cpu, VPtr en]"
  by (simp add: exception_pieces_def lit_args)

lemma exception_pieces_least: "\<not> list_ex piece_least (exception_pieces st status en line_end kind num cpu)"
  by (auto simp: exception_pieces_def list_ex_iff)

lemma exception_report_text:
  fixes s :: "'t mtask"
  assumes nest: "nest_level (m_log s) = 0"
    and ps: "ps = exception_pieces (e_status_lit e status) sx (e_end_lit e (status = BOOT_LOG_STATUS_SUCCESS \<or> status = BOOT_LOG_STATUS_FAIL \<or>
      status = BOOT_LOG_STATUS_NLINE)) ex kind (ucast isr_num) (exception_cpu e s)"
    and lit: "list_all (piece_wf (mbytes s)) ps" "cstr_at (mbytes s) fmt (concat (map piece_fmt ps))"
  shows "\<exists>s'. exception_report e status fmt isr_num s = Some s' \<and>
    port_bytes UART_PORT (mhist s') = port_bytes UART_PORT (mhist s) @ concat (map piece_text ps)"
proof -
  obtain h i where r: "lapic_read (e_dev e) LAPIC_REG_ID (mhist s) = (h, i)" by fastforce
  have i: "drop_bit 24 i = exception_cpu e s" by (simp add: exception_cpu_def r)
  have h: "port_bytes UART_PORT h = port_bytes UART_PORT (mhist s)"
    using r by (auto simp: lapic_read_def mmio_in32_def)
  let ?s1 = "set_mhist (mhist s) (s\<lparr>m_log := (m_log s)\<lparr>bl_uart := mhist s\<rparr>\<rparr>)"
  have s1: "with_log (\<lambda>b. Some (boot_log_print_nest_padding b)) s = Some ?s1" "mhist ?s1 = mhist s" "mbytes (set_mhist h ?s1) = mbytes s"
    "mhist (set_mhist h ?s1) = h"
    using nest by (simp_all add: with_log_def boot_log_print_nest_padding_def mhist_def set_mhist_def mbytes_def)
  obtain b' where "boot_log_printf (mbytes s) fmt (concat (map piece_args ps)) ((m_log (set_mhist h ?s1))\<lparr>bl_uart := h\<rparr>) = Some b'"
    "port_bytes UART_PORT (bl_uart b') = port_bytes UART_PORT h @ concat (map piece_text ps)"
    using boot_log_sink.printf_pieces [OF lit, of "(m_log (set_mhist h ?s1))\<lparr>bl_uart := h\<rparr>"]
    by (auto simp: boot_log_printf_def ps exception_pieces_least)
  with s1 r i h show ?thesis unfolding ps exception_pieces_args
    by (simp add: exception_report_def with_log_def [of "boot_log_printf m f a" for m f a] Let_def mhist_def set_mhist_def)
qed

end
