(* ===== verification/Kernel.thy ===== *)
theory Kernel
  imports Acpi
begin

unbundle bit_operations_syntax

text \<open>
  What the kernel does with the information of the boot loader (\<^verbatim>\<open>kernel.c\<close>, with the structures of
  \<^verbatim>\<open>stivale2.h\<close>): finding a tag, the limit of usable memory, and the identity mapping that has to be in place
  before the kernel changes to its own page tables. The mapping function is the one the kernel looks up in the
  memory module; it is an argument, as the function pointer in the source.
\<close>

section \<open>Tags of the boot loader\<close>

datatype tag_field = Tag_identifier | Tag_next

definition stivale2_tag_layout :: "(tag_field \<times> nat \<times> nat) list" where
  "stivale2_tag_layout = [(Tag_identifier, 8, 1), (Tag_next, 8, 1)]"

definition tag_at :: "addr \<Rightarrow> tag_field \<Rightarrow> addr" where
  "tag_at p f = p + of_nat (offset_from 0 stivale2_tag_layout f)"

datatype struct_field = St_brand | St_version | St_tags

definition stivale2_struct_layout :: "(struct_field \<times> nat \<times> nat) list" where
  "stivale2_struct_layout = [(St_brand, 64, 1), (St_version, 64, 1), (St_tags, 8, 1)]"

definition stivale2_struct_tags :: "addr \<Rightarrow> addr" where
  "stivale2_struct_tags p = p + of_nat (offset_from 0 stivale2_struct_layout St_tags)"

partial_function (option) tag_loop :: "mem \<Rightarrow> u64 \<Rightarrow> addr \<Rightarrow> addr option" where
  "tag_loop m tag_id current_tag =
     (if current_tag = NULL then Some NULL
      else if load64 m (tag_at current_tag Tag_identifier) = tag_id then Some current_tag
      else tag_loop m tag_id (load64 m (tag_at current_tag Tag_next)))"

declare tag_loop.simps [code]

definition stivale2_get_tag :: "mem \<Rightarrow> addr \<Rightarrow> u64 \<Rightarrow> addr option" where
  "stivale2_get_tag m stivale2_struct tag_id = tag_loop m tag_id (load64 m (stivale2_struct_tags stivale2_struct))"

section \<open>The memory map\<close>

datatype mmap_field = Mm_base | Mm_length | Mm_type | Mm_unused

definition stivale2_mmap_entry_layout :: "(mmap_field \<times> nat \<times> nat) list" where
  "stivale2_mmap_entry_layout = [(Mm_base, 8, 1), (Mm_length, 8, 1), (Mm_type, 4, 1), (Mm_unused, 4, 1)]"

text \<open>The entries follow the tag and their number.\<close>

definition mmap_at :: "addr \<Rightarrow> nat \<Rightarrow> mmap_field \<Rightarrow> addr" where
  "mmap_at tag i f =
     tag + 24 + of_nat (struct_end 0 stivale2_mmap_entry_layout) * of_nat i + of_nat (offset_from 0 stivale2_mmap_entry_layout f)"

definition mmap_entries :: "mem \<Rightarrow> addr \<Rightarrow> u64" where
  "mmap_entries m tag = load64 m (tag + 16)"

definition memory_limit :: "mem \<Rightarrow> addr \<Rightarrow> u64" where
  "memory_limit m tag =
     fold (\<lambda>i limit.
         let e = load64 m (mmap_at tag i Mm_base) + load64 m (mmap_at tag i Mm_length)
         in if load32 m (mmap_at tag i Mm_type) = 1 \<and> e > limit then e else limit)
       [0..<unat (mmap_entries m tag)] 0"

section \<open>Identity mapping\<close>

definition KERN_IMG_SIZE :: u64 where "KERN_IMG_SIZE = 8 * 1024 * 1024"

text \<open>The heap, the registers of the APIC and the image of the kernel; the first error ends the loop.\<close>

definition ments :: "addr \<Rightarrow> addr \<Rightarrow> addr \<Rightarrow> (addr \<times> addr \<times> u64) list" where
  "ments heap_end virtual_base physical_base =
     [(KMEM_HEAP_BASE, KMEM_HEAP_BASE, heap_end - KMEM_HEAP_BASE), (0xFEE00000, 0xFEE00000, 0x400),
      (virtual_base, physical_base, KERN_IMG_SIZE)]"

fun map_ments :: "mapper \<Rightarrow> (addr \<times> addr \<times> u64) list \<Rightarrow> vmem \<Rightarrow> (vmem \<times> int \<times> addr) option" where
  "map_ments map_fn [] s = Some (s, 0, NULL)"
| "map_ments map_fn ((va, pa, usize) # rest) s = do {
     (s1, err) \<leftarrow> map_fn va pa usize VMEM_FLAG_SIZE_IN_BYTES s;
     if err \<noteq> 0 then Some (s1, err, pa) else map_ments map_fn rest s1
   }"

definition round_up :: "u64 \<Rightarrow> u64 \<Rightarrow> u64" where
  "round_up x unit = (x + (unit - 1)) div unit * unit"

definition mapped_type :: "u32 \<Rightarrow> bool" where
  "mapped_type t \<longleftrightarrow> t = 0x1000 \<or> t = 0x1001 \<or> t = 0x1002"

definition overlaps_previous :: "u64 \<Rightarrow> addr \<Rightarrow> u64 \<Rightarrow> addr \<Rightarrow> bool" where
  "overlaps_previous unit prev_addr prev_length a \<longleftrightarrow>
     prev_length \<noteq> 0 \<and> prev_addr + (prev_length + round_up prev_length unit) \<ge> a"

definition overlaps_kernel :: "u64 \<Rightarrow> addr \<Rightarrow> addr \<Rightarrow> u64 \<Rightarrow> bool" where
  "overlaps_kernel unit physical_base a len \<longleftrightarrow>
     a + round_up len unit \<ge> physical_base + KERN_IMG_SIZE \<and> a \<le> physical_base + KERN_IMG_SIZE"

partial_function (option) map_regions ::
  "mapper \<Rightarrow> u64 \<Rightarrow> addr \<Rightarrow> addr \<Rightarrow> u64 \<Rightarrow> addr \<Rightarrow> u64 \<Rightarrow> vmem \<Rightarrow> (vmem \<times> int \<times> addr) option" where
  "map_regions map_fn unit kbase_tag tag i prev_addr prev_length s =
     (let m = vmem_bytes s; physical_base = load64 m (kbase_tag + 16); base = load64 m (mmap_at tag (unat i) Mm_base);
          len = load64 m (mmap_at tag (unat i) Mm_length) + base mod unit; a = base - base mod unit
      in if mmap_entries m tag \<le> i then Some (s, 0, NULL)
         else if \<not> mapped_type (load32 m (mmap_at tag (unat i) Mm_type)) \<or> overlaps_previous unit prev_addr prev_length a \<or>
            overlaps_kernel unit physical_base a len
         then map_regions map_fn unit kbase_tag tag (i + 1) prev_addr prev_length s
         else do {
           (s1, err) \<leftarrow> map_fn a a len VMEM_FLAG_SIZE_IN_BYTES s;
           if err \<noteq> 0 then Some (s1, err, a) else map_regions map_fn unit kbase_tag tag (i + 1) a len s1
         })"

declare map_regions.simps [code]

definition identity_map ::
  "mapper \<Rightarrow> u64 \<Rightarrow> addr \<Rightarrow> addr \<Rightarrow> addr \<Rightarrow> vmem \<Rightarrow> (vmem \<times> int \<times> addr) option" where
  "identity_map map_fn unit heap_end kbase_tag mmap_tag s =
     (if unit = 0 then None
      else do {
        let physical_base = load64 (vmem_bytes s) (kbase_tag + 16);
        let virtual_base = load64 (vmem_bytes s) (kbase_tag + 24);
        (s1, err, err_addr) \<leftarrow> map_ments map_fn (ments heap_end virtual_base physical_base) s;
        if err \<noteq> 0 then Some (s1, err, err_addr)
        else map_regions map_fn unit kbase_tag mmap_tag 0 NULL 0 s1
      })"

section \<open>The processor mode\<close>

text \<open>
  \<^verbatim>\<open>cpu_mode_set\<close> of \<^verbatim>\<open>cpu/cpu_mode.h\<close> for protected mode: the operands of the second instruction are in the
  order of the AT\&T syntax, so it sets bits of the byte at address 1 and leaves the register alone.
\<close>

definition cpu_mode_set_protected :: "u64 \<times> mem \<Rightarrow> u64 \<times> mem" where
  "cpu_mode_set_protected = (\<lambda>(cr0, m). let rax = cr0; m = m(1 := m 1 OR ucast rax) in (rax, m))"

section \<open>Finding a tag\<close>

fun tags_from :: "mem \<Rightarrow> addr \<Rightarrow> addr list \<Rightarrow> bool" where
  "tags_from m p [] \<longleftrightarrow> p = NULL"
| "tags_from m p (t # ts) \<longleftrightarrow> p = t \<and> t \<noteq> NULL \<and> tags_from m (load64 m (t + 8)) ts"

lemma tag_fields: "tag_at t Tag_identifier = t" "tag_at t Tag_next = t + 8"
  by (simp_all add: tag_at_def stivale2_tag_layout_def pad_def)

lemma tag_loop_find:
  "tags_from m p ts \<Longrightarrow> tag_loop m n p = Some (case find (\<lambda>t. load64 m t = n) ts of None \<Rightarrow> NULL | Some t \<Rightarrow> t)"
proof (induction ts arbitrary: p)
  case Nil
  then show ?case
    by (simp add: tag_loop.simps)
next
  case (Cons t ts)
  then show ?case
    by (subst tag_loop.simps) (simp add: tag_fields)
qed

text \<open>
  On every list of tags that ends, \<^verbatim>\<open>stivale2_get_tag\<close> returns, and returns the first tag with the identifier
  asked for, or the null pointer when there is none.
\<close>

theorem stivale2_get_tag_first:
  assumes "tags_from m (load64 m (b + 128)) ts"
  shows "stivale2_get_tag m b n = Some (case find (\<lambda>t. load64 m t = n) ts of None \<Rightarrow> NULL | Some t \<Rightarrow> t)"
  using tag_loop_find [OF assms]
  by (simp add: stivale2_get_tag_def stivale2_struct_tags_def stivale2_struct_layout_def pad_def)

theorem stivale2_get_tag_first_witness:
  "stivale2_get_tag ((\<lambda>_. 0)(0x1080 := 0x40, 0x40 := 5, 0x48 := 0x80, 0x80 := 7)) 0x1000 7 = Some 0x80"
  using stivale2_get_tag_first [of "(\<lambda>_. 0)(0x1080 := 0x40, 0x40 := 5, 0x48 := 0x80, 0x80 := 7)" "0x1000" "[0x40, 0x80]" 7]
  by (simp add: load64_def load_numeral)

section \<open>Regions that are not mapped\<close>

lemma overlaps_previous_double:
  assumes "len \<noteq> 0" "unat a + unat len + unat (round_up len unit) < 2 ^ 64"
    and "unat b \<le> unat a + unat len + unat (round_up len unit)"
  shows "overlaps_previous unit a len (b - b mod unit)"
proof -
  have "unat (a + (len + round_up len unit)) = unat a + unat len + unat (round_up len unit)"
    using assms(2) by (simp add: unat_word_ariths)
  moreover have "unat (b - b mod unit) \<le> unat b"
    by (subst unat_diff_le) (simp_all add: unat_mod)
  ultimately show ?thesis
    using assms(1,3) by (simp add: overlaps_previous_def word_le_nat_alt)
qed

text \<open>
  C29: The test for an overlap with the previous region counts the length of that region twice. When a region has
  been mapped, the next entry of the memory map is passed over if it starts less than the rounded length of that
  region behind its end, although the two do not overlap: mapping goes on with the entry after the next.
\<close>

theorem separate_region_is_skipped:
  assumes "i < mmap_entries (vmem_bytes s) tag" "mapped_type (load32 (vmem_bytes s) (mmap_at tag (unat i) Mm_type))"
    and "a = load64 (vmem_bytes s) (mmap_at tag (unat i) Mm_base) - load64 (vmem_bytes s) (mmap_at tag (unat i) Mm_base) mod unit"
    and "len = load64 (vmem_bytes s) (mmap_at tag (unat i) Mm_length) + load64 (vmem_bytes s) (mmap_at tag (unat i) Mm_base) mod unit"
    and "\<not> overlaps_previous unit pa pl a" "\<not> overlaps_kernel unit (load64 (vmem_bytes s) (kb + 16)) a len"
    and "map_fn a a len VMEM_FLAG_SIZE_IN_BYTES s = Some (s1, 0)" "len \<noteq> 0"
    and "i + 1 < mmap_entries (vmem_bytes s1) tag"
    and "b = load64 (vmem_bytes s1) (mmap_at tag (unat (i + 1)) Mm_base)" "unat a + unat len \<le> unat b"
    and "unat b \<le> unat a + unat len + unat (round_up len unit)" "unat a + unat len + unat (round_up len unit) < 2 ^ 64"
  shows "map_regions map_fn unit kb tag i pa pl s = map_regions map_fn unit kb tag (i + 2) a len s1"
proof -
  have two: "i + 2 = i + 1 + 1"
    by simp
  have "overlaps_previous unit a len (b - b mod unit)"
    using assms(8,13,12) by (rule overlaps_previous_double)
  then have "map_regions map_fn unit kb tag (i + 1) a len s1 = map_regions map_fn unit kb tag (i + 2) a len s1"
    unfolding two using assms(9) [unfolded not_le [symmetric]] by (subst map_regions.simps) (auto simp: assms(10) Let_def)
  moreover have "map_regions map_fn unit kb tag i pa pl s = map_regions map_fn unit kb tag (i + 1) a len s1"
    using assms(1) [unfolded not_le [symmetric]] assms(2,5-7) by (subst map_regions.simps) (auto simp: Let_def simp flip: assms(3,4))
  ultimately show ?thesis
    by simp
qed

text \<open>A memory map with two adjacent regions of one page.\<close>

definition demo_map :: mem where
  "demo_map = (\<lambda>_. 0)(0x1010 := 2, 0x101A := 0x10, 0x1021 := 0x10, 0x1029 := 0x10, 0x1031 := 0x10, 0x1032 := 0x10, 0x1039 := 0x10,
     0x1040 := 1, 0x1041 := 0x10)"

lemma demo_map_entries:
  "load64 demo_map (mmap_at 0x1000 0 Mm_base) = 0x100000" "load64 demo_map (mmap_at 0x1000 0 Mm_length) = 0x1000"
  "load32 demo_map (mmap_at 0x1000 0 Mm_type) = 0x1000" "load64 demo_map (mmap_at 0x1000 1 Mm_base) = 0x101000"
  "mmap_entries demo_map 0x1000 = 2" "load64 demo_map 0x2010 = 0"
  by (simp_all add: mmap_at_def stivale2_mmap_entry_layout_def pad_def load64_def load32_def load_numeral demo_map_def mmap_entries_def)

lemma vmem_bytes_set [simp]: "vmem_bytes (set_vmem_bytes m s) = m"
  by (simp add: set_vmem_bytes_def vheap_def set_vheap_def)

theorem separate_region_is_skipped_witness:
  "\<forall>s. map_regions (\<lambda>_ _ _ _ s. Some (s, 0)) 4096 0x2000 0x1000 0 0 0 (set_vmem_bytes demo_map s) = Some (set_vmem_bytes demo_map s, 0, NULL)"
proof
  fix s :: vmem
  let ?s = "set_vmem_bytes demo_map s" and ?f = "\<lambda>_ _ _ _ s. Some (s :: vmem, 0 :: int)"
  have "map_regions ?f 4096 0x2000 0x1000 0 0 0 ?s = map_regions ?f 4096 0x2000 0x1000 (0 + 2) 0x100000 0x1000 ?s"
  proof (rule separate_region_is_skipped [where b = "0x101000"])
    show "mapped_type (load32 (vmem_bytes ?s) (mmap_at 0x1000 (unat 0) Mm_type))"
      by (simp add: demo_map_entries mapped_type_def)
    show "\<not> overlaps_previous 4096 0 0 0x100000" "\<not> overlaps_kernel 4096 (load64 (vmem_bytes ?s) (0x2000 + 16)) 0x100000 0x1000"
      by (simp_all add: overlaps_previous_def overlaps_kernel_def round_up_def KERN_IMG_SIZE_def demo_map_entries)
    show "0x101000 = load64 (vmem_bytes ?s) (mmap_at 0x1000 (unat (0 + 1)) Mm_base)"
      using demo_map_entries(4) by simp
  qed (simp_all add: demo_map_entries round_up_def)
  also have "\<dots> = Some (?s, 0, NULL)"
    by (subst map_regions.simps) (simp add: demo_map_entries Let_def)
  finally show "map_regions ?f 4096 0x2000 0x1000 0 0 0 ?s = Some (?s, 0, NULL)" .
qed

section \<open>The limit of memory\<close>

definition usable_ends :: "mem \<Rightarrow> addr \<Rightarrow> u64 set" where
  "usable_ends m tag = (\<lambda>i. load64 m (mmap_at tag i Mm_base) + load64 m (mmap_at tag i Mm_length)) `
     {i. i < unat (mmap_entries m tag) \<and> load32 m (mmap_at tag i Mm_type) = 1}"

lemma Max_insert_two:
  fixes a :: "'b :: linorder"
  assumes "finite F"
  shows "Max (insert a (insert b F)) = Max (insert (max a b) F)"
proof (cases "F = {}")
  case False
  then show ?thesis
    using assms by (simp add: max.assoc)
qed simp

lemma fold_max_if:
  fixes e :: "'a \<Rightarrow> 'b :: linorder"
  shows "fold (\<lambda>i limit. if P i \<and> e i > limit then e i else limit) xs a = Max (insert a (e ` {i \<in> set xs. P i}))"
proof (induction xs arbitrary: a)
  case (Cons x xs)
  let ?E = "e ` {i \<in> set xs. P i}"
  have ends: "e ` {i \<in> set (x # xs). P i} = (if P x then insert (e x) ?E else ?E)"
    by auto
  have greater: "Max (insert a (insert (e x) ?E)) = Max (insert (max a (e x)) ?E)"
    by (rule Max_insert_two) simp
  show ?case
    unfolding ends using greater by (simp add: Cons max_def)
qed simp

text \<open>
  \<^verbatim>\<open>memory_limit\<close>, with which the memory module is started, is the largest end of a usable region of the
  memory map, and 0 when no region is usable.
\<close>

theorem memory_limit_is_greatest_end:
  "memory_limit m tag = Max (insert 0 (usable_ends m tag))"
  using fold_max_if [of "\<lambda>i. load32 m (mmap_at tag i Mm_type) = 1"
      "\<lambda>i. load64 m (mmap_at tag i Mm_base) + load64 m (mmap_at tag i Mm_length)" "[0..<unat (mmap_entries m tag)]" 0]
  by (simp add: memory_limit_def usable_ends_def Let_def)

lemma cpu_mode_set_leaves_cr0: "fst (cpu_mode_set_protected (cr0, m)) = cr0"
  by (simp add: cpu_mode_set_protected_def Let_def)

end
