(* ===== verification/Spec2Isabelle.thy ===== *)
theory Spec2Isabelle
  imports Kernmem Printf Allocator Scheduler Vmemory Pci Ext2_disk Ext2_ops File_read File_seek Dir_search Fs_paths
    Path_walk File_open Elf Elf_lookup Module_loader Module_load Module_lexer Descriptors Interrupts Acpi Mtask Exceptions Kernel
begin

text \<open>
  This library models the C sources of untitled-os, a small x86-64 kernel with loadable modules, and
  proves what its parts do. Where a part does not do what it is meant to, the theorem says so.

  \<^bold>\<open>How the parts of the program work together.\<close> Everything is built on the kernel heap
  (\<^verbatim>\<open>src/kernlib/kernmem.c\<close>) and the string functions (\<^verbatim>\<open>src/cstdlib/string.c\<close>). The heap asks a
  mapping hook for pages; the hook is installed by the virtual memory module
  (\<^verbatim>\<open>src/modules/vmemory/vmemory.c\<close>), which takes physical frames from the allocator
  (\<^verbatim>\<open>src/modules/vmemory/allocator.c\<close>), a red-black tree of free regions. The multitasking module
  keeps one red-black tree of runnable threads (\<^verbatim>\<open>thread_tree.c\<close>) and one queue of sleeping threads
  (\<^verbatim>\<open>thread_pqueue.c\<close>) for each processor, and \<^verbatim>\<open>scheduler.c\<close> moves threads between them. A file
  is read through the ext2 driver (\<^verbatim>\<open>src/fs/ext2.c\<close>), which calls the function pointers of a drive;
  \<^verbatim>\<open>src/dev/pio.c\<close> fills them in for an ATA drive on top of \<^verbatim>\<open>src/dev/ata.c\<close>, and that driver talks
  to its controller through port instructions (\<^verbatim>\<open>src/cpu/cpu_io.h\<close>), as the serial port driver and
  the PCI code do. The module loader (\<^verbatim>\<open>src/bin/module.c\<close>) reads a description and an ELF file
  through the file system interface (\<^verbatim>\<open>src/fs/fs.h\<close>), links the file (\<^verbatim>\<open>src/bin/elf.c\<close>) and gives
  out the addresses of its functions. The kernel (\<^verbatim>\<open>src/kernel.c\<close>) sets up the processor
  (\<^verbatim>\<open>src/cpu/x86\<close>), loads the two modules, maps what it needs and calls the start of multitasking
  (\<^verbatim>\<open>src/modules/mtask/mtask.c\<close>), which finds the other processors in the tables of the firmware.

  \<^bold>\<open>How the code is modelled.\<close>
  \<^item> Integers are words of their C width, so overflow wraps as the compiled code does; a \<open>char\<close> is
    signed.
  \<^item> Memory is a total function from 64-bit addresses to bytes. A C struct is either a record (the list
    nodes and trees, when every access goes through the declared fields) or a layout of offsets in that
    memory (heap headers, page tables, the packed structs of the disk).
  \<^item> The heap, the allocator, the trees and the scheduler thread their state explicitly. Ext2, ATA and PCI
    run on one state \<open>machine\<close>, the heap with the history of port events; virtual memory has the
    allocator and its heap, with cr3; the start of multitasking puts these parts together.
  \<^item> A device is a function from the history of port events to the next value read: the driver is
    modelled for every device, and theorems about results name the device they rest on.
  \<^item> \<^const>\<open>None\<close> is a computation without a result: an endless loop, a lock taken twice, a null pointer
    that is followed. Loops that may not end are \<open>partial_function (option)\<close>; no fuel is used.
    Wherever a theorem is about a result it proves \<open>= Some ...\<close>, so returning is part of the claim.
    Error codes of the code are values of the result type, as in the source.

  \<^bold>\<open>Theories.\<close>
  \<^item> \<^theory_text>\<open>Prelude\<close>: machine integers, memory, little-endian loads and stores, disjoint address ranges.
  \<^item> \<^theory_text>\<open>Cstring\<close>: \<^verbatim>\<open>src/cstdlib/string.c\<close>. Every function is characterised for all inputs its
    contract admits, and on overlapping ranges \<open>memmove\<close> is shown to smear.
  \<^item> \<^theory_text>\<open>Spinlock\<close>: \<^verbatim>\<open>src/cpu/spinlock.h\<close>. On one processor the lock returns iff it is free. With the
    processors as a step relation, mutual exclusion is an invariant of the reachable states when the
    compiler reloads eax in every iteration, and is lost when it does not.
  \<^item> \<^theory_text>\<open>Kernmem\<close>: \<^verbatim>\<open>src/kernlib/kernmem.c\<close>. The list of headers in memory is abstracted to a list of
    blocks; allocation refines first fit on that list, freeing removes the block. The locale
    \<open>block_allocator\<close> is the contract that clients use. The branches that leave the lock taken are
    shown to block every later call; so does a mapping hook that allocates, as it is called under the lock.
  \<^item> \<^theory_text>\<open>Cpu_io\<close>, \<^theory_text>\<open>Printf\<close>: port events; \<^verbatim>\<open>src/dev/uart.c\<close> and \<^verbatim>\<open>src/log/boot_log.c\<close>. The locale
    \<open>char_sink\<close> holds for both outputs; \<open>printf\<close> renders exactly the text of a reference definition
    for every conversion, and the decimal printers print the number, but have no result for the least one.
  \<^item> \<^theory_text>\<open>Rbtree\<close>: the tree code that \<^verbatim>\<open>allocator.c\<close> and \<^verbatim>\<open>thread_tree.c\<close> share line by line, over the
    locale \<open>rb_payload\<close>: insertion terminates, keeps the order, the red-black properties and the
    parent pointers, and adds exactly the new node. Rotation, repair and deletion are modelled in full.
  \<^item> \<^theory_text>\<open>Allocator\<close>: \<^verbatim>\<open>allocator.c\<close>. First fit picks the first node in depth-first order that is large enough, the
    containment search is exact, the error paths of release and of aligned search are shown to fail.
  \<^item> \<^theory_text>\<open>Thread_tree\<close>, \<^theory_text>\<open>Thread_pqueue\<close>, \<^theory_text>\<open>Scheduler\<close>: \<^verbatim>\<open>src/modules/mtask\<close>. The tree is a second
    instance of \<open>rb_payload\<close>; the head of the list of processors is the least loaded one; the switch
    picks a runnable thread of least virtual time; sleeping threads stay heap ordered when pushed, but
    removal does not end for three threads or more.
  \<^item> \<^theory_text>\<open>Vmemory\<close>: \<^verbatim>\<open>vmemory.c\<close>. A mapping that is made translates by a walk of the processor's kind, to the
    frame with what the entry still held ORed in, and other addresses translate as before; refused mappings
    and unmapping are shown to do damage.
  \<^item> \<^theory_text>\<open>Pci\<close>: \<^verbatim>\<open>src/cpu/pci.c\<close>, configuration space access and bus scan.
  \<^item> \<^theory_text>\<open>Ata\<close>: \<^verbatim>\<open>src/dev/ata.c\<close> and \<^verbatim>\<open>src/dev/pio.c\<close> for any device. \<^theory_text>\<open>Ata_disk\<close> gives the device
    the behaviour the ATA standard documents for 48-bit transfers with PIO: registers are two deep,
    the drive is busy for a fixed number of status reads, and 256 words are moved for a sector. With it
    reading returns the sectors of the disk. This is the locale \<open>block_drive\<close>, interpreted on the driver;
    it extends \<open>mem_drive\<close>, which is the part of it that a client with the lock of the heap can use.
  \<^item> \<^theory_text>\<open>Ext2\<close>: the packed structs of \<^verbatim>\<open>src/fs/ext2.h\<close> and the functions of \<^verbatim>\<open>src/fs/ext2.c\<close> that
    read and write the super block, group table, bitmaps, inodes and inode data. \<^theory_text>\<open>Ext2_disk\<close> proves,
    for every drive with the contract \<open>block_drive\<close> and so for the ATA driver, what they return and
    what they leave on the disk, against a reference definition of the block tree of an inode and the
    bitmaps of the ext2 format, whose bits the code counts from the wrong end of each byte.
  \<^item> \<^theory_text>\<open>Fs\<close>, \<^theory_text>\<open>Ext2_files\<close>, \<^theory_text>\<open>Ext2_ops\<close>: \<^verbatim>\<open>src/fs/fs.h\<close>, \<^verbatim>\<open>src/fs/fs.c\<close> and the operations of
    \<^verbatim>\<open>src/fs/ext2.c\<close> that fill the record of function pointers: paths, directory entries, creating,
    removing, opening, reading, writing, moving the position, listing directories, and detection.
  \<^item> \<^theory_text>\<open>File_read\<close>, \<^theory_text>\<open>File_seek\<close>, \<^theory_text>\<open>Dir_search\<close>, \<^theory_text>\<open>Fs_paths\<close>, \<^theory_text>\<open>Path_walk\<close>, \<^theory_text>\<open>File_open\<close>: reading refines reading from a byte
    sequence with a position; seeking moves that position, and past the size of the file goes wrong; the
    search of a directory refines the search of the list of its entries, over all its blocks; paths are
    walked and split at their slashes; the types of files come back from the disk as the code reads them.
    Together with the inode table and the heap, resolving a path refines following its names through the
    tree of directories that the disk holds; opening a file by its path, reading and closing gives its bytes
    and leaves the heap as it was.
  \<^item> \<^theory_text>\<open>Elf\<close>, \<^theory_text>\<open>Elf_lookup\<close>: \<^verbatim>\<open>src/bin/elf.c\<close> and \<^verbatim>\<open>src/bin/elf.h\<close>. Symbol look-up finds the first
    visible symbol; with the declared layout of symbols every symbol of a file counts as external.
  \<^item> \<^theory_text>\<open>Module_loader\<close>, \<^theory_text>\<open>Module_load\<close>, \<^theory_text>\<open>Module_lexer\<close>: \<^verbatim>\<open>src/bin/module.c\<close>. The lexer of descriptions
    agrees with a lexer on lists, over the locale \<open>byte_stream\<close> that open files of the ext2 driver are
    shown to provide, and gives out each word as a string in a new block of the heap; loading a module is
    shown not to return on the heap of \<^theory_text>\<open>Kernmem\<close>.
  \<^item> \<^theory_text>\<open>Descriptors\<close>: \<^verbatim>\<open>gdt.c\<close>, \<^verbatim>\<open>gdt.s\<close>, \<^verbatim>\<open>idt.c\<close> and \<^verbatim>\<open>cpu_int.c\<close>: the two descriptor tables, as the
    processor decodes them.
  \<^item> \<^theory_text>\<open>Interrupts\<close>: \<^verbatim>\<open>pic.c\<close>, \<^verbatim>\<open>pit.c\<close>, \<^verbatim>\<open>apic.c\<close>, \<^verbatim>\<open>cpuid.s\<close> and \<^verbatim>\<open>cpu_init.c\<close>. The interrupt controllers
    are a state machine over the history of port writes, in which the lines reach the gates set up for them.
  \<^item> \<^theory_text>\<open>Acpi\<close>: \<^verbatim>\<open>rsdp.c\<close>, \<^verbatim>\<open>hpet.c\<close> and \<^verbatim>\<open>src/modules/mtask/acpi.c\<close>, the search of the root pointer
    and the walks over tables and entries.
  \<^item> \<^theory_text>\<open>Mtask\<close>: \<^verbatim>\<open>src/modules/mtask/mtask.c\<close> and \<^verbatim>\<open>process.c\<close>, on a state that puts those of the
    parts together; starting a processor ends and reports the first 100 polls.
  \<^item> \<^theory_text>\<open>Exceptions\<close>: \<^verbatim>\<open>src/cpu/x86/isr.c\<close>, the C handlers of exceptions on that state; the message
    that reaches the serial port is computed for the literals of both handlers.
  \<^item> \<^theory_text>\<open>Kernel\<close>: the tag search, the limit of memory and the identity mapping of \<^verbatim>\<open>src/kernel.c\<close>.

  \<^bold>\<open>Bounds.\<close> The drive of \<^theory_text>\<open>Ata_disk\<close> is used in its 48-bit mode, with fewer than 65536 sectors
  in one transfer; its latency is any number of status reads below the limit at which the driver gives
  up. Addresses of buffers do not wrap. Witnesses of the file system theorems use a small disk with one
  group, evaluated in the kernel of Isabelle.

  \<^bold>\<open>Parameters.\<close> The mapping hook of the heap and the terminal function of the boot loader are
  function pointers, so they are arguments; devices are arguments as described above.

  \<^bold>\<open>Not modelled.\<close>
  \<^item> Assembly, except \<^verbatim>\<open>gdt_reload\<close> and \<^verbatim>\<open>cpuid\<close>: the interrupt stubs (\<^verbatim>\<open>isr.s\<close>), the code a started
    processor runs (\<^verbatim>\<open>smp_trampoline.s\<close>) and the task switch (\<^verbatim>\<open>ap_periodic_switch.s\<close>). They work on
    registers and the stack of an interrupted thread; what C code sees of them (the boot flag, the entry
    addresses) is a parameter.
  \<^item> \<^verbatim>\<open>src/cpu/x86/tss.h\<close>: the layout of a task state segment of a 32-bit build; nothing uses it.
  \<^item> \<^verbatim>\<open>src/modules/mtask/tss.c\<close>: does not match the prototype of the function it calls; nothing uses it.
  \<^item> The rest of \<^verbatim>\<open>kernel_main\<close>: a sequence of calls of the other parts, most of them through addresses
    that the module loader has returned, with messages in between, and threads for a test at its end.
  \<^item> Functions that print the state of a data structure are left out throughout.
\<close>

end
